(* ===== verification/P2P_Prelude.thy ===== *)
theory P2P_Prelude
  imports
    Main
    "HOL-Library.Word"
    "HOL-Library.Finite_Map"
    "HOL-Library.Sublist"
    "HOL-Library.Char_ord"
    "HOL-Library.List_Lexorder"
    "HOL-Library.Product_Lexorder"
begin

text \<open>
  Shared vocabulary of the development: the machine-integer conventions, the Rust standard-library
  operations the sources use on strings, ordered sets and hash maps, the crate's error type, and
  the generic lemmas on them.

  Conventions.
  \<^item> Unsigned Rust integers are \<open>nat\<close>; every operation the source writes as
    \<open>saturating_add\<close> or \<open>saturating_mul\<close> is \<open>sat_add\<close> or \<open>sat_mul\<close> at its width, and
    \<open>saturating_sub\<close> is the subtraction of \<open>nat\<close>, which stops at 0 in the same way.
    Signed 32-bit scores are \<open>int\<close> clamped by \<open>i32_clamp\<close>. \<open>usize\<close> is 64 bits wide.
  \<^item> Bytes, IPv4 octets and IPv6 segments are words.
  \<^item> A Rust \<open>str\<close> is a \<open>string\<close>: its UTF-8 bytes, so \<open>length\<close> is \<open>str::len\<close>.
  \<^item> \<open>HashMap\<close> is \<open>fmap\<close>, \<open>HashSet\<close> is \<open>fset\<close>, \<open>VecDeque\<close> and \<open>Vec\<close> are
    \<open>list\<close>, and \<open>BTreeSet\<close> is the strictly increasing list of its elements, which is its
    iteration order.
  \<^item> \<open>Result<T, NetError>\<close> is \<open>net_error + 'a\<close>.
\<close>

named_theorems sat_simps \<open>saturating arithmetic as minimum\<close>
named_theorems laws \<open>documented behaviour of code outside the repository, as definitions\<close>

section \<open>Machine integers\<close>

type_synonym u8 = "8 word"

abbreviation (input) umax :: "nat \<Rightarrow> nat" where
  "umax w \<equiv> 2 ^ w - 1"

definition sat_add :: "nat \<Rightarrow> nat \<Rightarrow> nat \<Rightarrow> nat" where
  [sat_simps]: "sat_add w a b = min (a + b) (umax w)"

definition sat_mul :: "nat \<Rightarrow> nat \<Rightarrow> nat \<Rightarrow> nat" where
  [sat_simps]: "sat_mul w a b = min (a * b) (umax w)"

definition i32_clamp :: "int \<Rightarrow> int" where
  "i32_clamp x = max (- (2 ^ 31)) (min (2 ^ 31 - 1) x)"

lemma sat_add_le: "sat_add w a b \<le> a + b"
  by (simp add: sat_simps)

lemma sat_add_exact: "a + b < 2 ^ w \<Longrightarrow> sat_add w a b = a + b"
  by (simp add: sat_simps)

lemma sat_add_ge_left: "a < 2 ^ w \<Longrightarrow> a \<le> sat_add w a b"
  by (auto simp: sat_simps)

lemma sat_add_mono: "a \<le> a' \<Longrightarrow> b \<le> b' \<Longrightarrow> sat_add w a b \<le> sat_add w a' b'"
  by (auto simp: sat_simps min_le_iff_disj)

lemma sat_add_bound: "sat_add w a b < 2 ^ w"
  by (simp add: sat_simps min_less_iff_disj)

lemma sat_mul_bound: "sat_mul w a b < 2 ^ w"
  by (simp add: sat_simps min_less_iff_disj)

lemma sat_add_assoc: "sat_add w (sat_add w a b) c = sat_add w a (sat_add w b c)"
  by (auto simp: sat_simps min_def)

lemma sat_add_comm: "sat_add w a b = sat_add w b a"
  by (simp add: sat_simps add.commute)

lemma i32_clamp_range: "- (2 ^ 31) \<le> i32_clamp x \<and> i32_clamp x \<le> 2 ^ 31 - 1"
  by (auto simp: i32_clamp_def)

lemma i32_clamp_id: "- (2 ^ 31) \<le> x \<Longrightarrow> x \<le> 2 ^ 31 - 1 \<Longrightarrow> i32_clamp x = x"
  by (simp add: i32_clamp_def)

section \<open>Errors\<close>

text \<open>\<open>NetError\<close> of \<open>common/error.rs\<close>, with the text fields each variant carries.\<close>

datatype net_error =
    Build string
  | Listen string string
  | Heartbeat string
  | GossipCodec string
  | Config string string
  | Identity string string
  | ApiCommand string
  | Dial string string
  | AppTopic string string
  | AppMessageErr string string

text \<open>
  A chain of early returns \<open>if c { return Err(e); }\<close> is the list of its guards in order.
\<close>

primrec first_error :: "(bool \<times> net_error) list \<Rightarrow> net_error + unit" where
  "first_error [] = Inr ()"
| "first_error (g # gs) = (if fst g then Inl (snd g) else first_error gs)"

lemma first_error_ok: "first_error gs = Inr u \<longleftrightarrow> list_all (\<lambda>g. \<not> fst g) gs"
  by (induction gs) auto

text \<open>The \<open>?\<close> operator and \<open>Result::map_err\<close>.\<close>

definition and_then :: "'e + 'a \<Rightarrow> ('a \<Rightarrow> 'e + 'b) \<Rightarrow> 'e + 'b" where
  "and_then r f = (case r of Inl e \<Rightarrow> Inl e | Inr x \<Rightarrow> f x)"

definition map_err :: "('e \<Rightarrow> 'f) \<Rightarrow> 'e + 'a \<Rightarrow> 'f + 'a" where
  "map_err g r = (case r of Inl e \<Rightarrow> Inl (g e) | Inr x \<Rightarrow> Inr x)"

definition check_that :: "bool \<Rightarrow> 'e \<Rightarrow> 'e + unit" where
  "check_that ok e = (if ok then Inr () else Inl e)"

lemma and_then_simps [simp]: "and_then (Inl e) f = Inl e" "and_then (Inr x) f = f x"
  by (simp_all add: and_then_def)

lemma and_then_Inr [simp]: "and_then r f = Inr y \<longleftrightarrow> (\<exists>x. r = Inr x \<and> f x = Inr y)"
  by (cases r) auto

lemma map_err_simps [simp]: "map_err g (Inl e) = Inl (g e)" "map_err g (Inr x) = Inr x"
  by (simp_all add: map_err_def)

lemma map_err_Inr [simp]: "map_err g r = Inr y \<longleftrightarrow> r = Inr y"
  by (cases r) auto

lemma check_that_simps [simp]: "check_that True e = Inr ()" "check_that False e = Inl e"
  by (simp_all add: check_that_def)

lemma check_that_Inr [simp]: "check_that ok e = Inr u \<longleftrightarrow> ok"
  by (simp add: check_that_def)

definition config_error_at :: "string \<Rightarrow> string \<Rightarrow> net_error" where
  "config_error_at path reason = Config path reason"

definition config_error :: "string \<Rightarrow> net_error" where
  "config_error reason = config_error_at ''<config>'' reason"

section \<open>Strings\<close>

subsection \<open>Decimal rendering of unsigned integers\<close>

abbreviation digit_char :: "nat \<Rightarrow> char" where
  "digit_char d \<equiv> char_of (48 + d)"

fun show_nat :: "nat \<Rightarrow> string" where
  "show_nat n = (if n < 10 then [digit_char n] else show_nat (n div 10) @ [digit_char (n mod 10)])"

declare show_nat.simps [simp del]

fun read_digits :: "string \<Rightarrow> nat" where
  "read_digits s = foldl (\<lambda>acc c. 10 * acc + (of_char c - 48)) 0 s"

declare read_digits.simps [simp del]

lemma of_char_digit: "d < 10 \<Longrightarrow> of_char (digit_char d) = 48 + d"
  by (simp add: of_char_of)

lemma read_digits_snoc: "read_digits (s @ [c]) = 10 * read_digits s + (of_char c - 48)"
  by (simp add: read_digits.simps)

lemma read_show_nat: "read_digits (show_nat n) = n"
proof (induction n rule: show_nat.induct)
  case (1 n)
  show ?case
  proof (cases "n < 10")
    case True
    then show ?thesis
      by (subst show_nat.simps) (simp add: read_digits.simps of_char_digit)
  next
    case False
    with "1.IH" show ?thesis
      by (subst show_nat.simps) (simp add: read_digits_snoc of_char_digit)
  qed
qed

lemma show_nat_inject: "show_nat m = show_nat n \<longleftrightarrow> m = n"
  by (metis read_show_nat)

lemma show_nat_digits: "c \<in> set (show_nat n) \<Longrightarrow> 48 \<le> (of_char c :: nat) \<and> (of_char c :: nat) \<le> 57"
proof (induction n rule: show_nat.induct)
  case (1 n)
  show ?case
  proof (cases "n < 10")
    case True
    with "1.prems" show ?thesis
      by (subst (asm) show_nat.simps) (simp add: of_char_digit)
  next
    case False
    have "c = digit_char (n mod 10) \<or> c \<in> set (show_nat (n div 10))"
      using "1.prems" False by (subst (asm) show_nat.simps) auto
    then show ?thesis
      using "1.IH" False of_char_digit [of "n mod 10"] by auto
  qed
qed

subsection \<open>Trimming\<close>

text \<open>
  \<open>str::trim\<close> removes Unicode \<open>White_Space\<close> scalars at both ends. On UTF-8 bytes that is
  removing their encodings; UTF-8 is self-synchronising, so a byte prefix (suffix) that is such
  an encoding is a leading (trailing) white-space scalar.
\<close>

definition ws_encodings :: "string list" where
  "ws_encodings = map (map (char_of :: nat \<Rightarrow> char))
     ([[9], [10], [11], [12], [13], [32], [194, 133], [194, 160], [225, 154, 128],
       [226, 128, 168], [226, 128, 169], [226, 128, 175], [226, 129, 159], [227, 128, 128]]
      @ map (\<lambda>b. [226, 128, b]) [128, 129, 130, 131, 132, 133, 134, 135, 136, 137, 138])"

lemma ws_encodings_nonempty: "w \<in> set ws_encodings \<Longrightarrow> w \<noteq> []"
  by (auto simp: ws_encodings_def)

lemma ws_encodings_find: "find P ws_encodings = Some w \<Longrightarrow> w \<in> set ws_encodings \<and> P w"
  by (auto simp: find_Some_iff)

lemma ws_encodings_bytes:
  "w \<in> set ws_encodings \<Longrightarrow> c \<in> set w \<Longrightarrow> (of_char c :: nat) \<le> 32 \<or> 128 \<le> (of_char c :: nat)"
  by (auto simp: ws_encodings_def of_char_of)

function trim_start :: "string \<Rightarrow> string" where
  "trim_start s = (case find (\<lambda>w. prefix w s) ws_encodings of
     None \<Rightarrow> s | Some w \<Rightarrow> trim_start (drop (length w) s))"
  by pat_completeness auto
termination
proof (relation "measure length")
  fix s w
  assume "find (\<lambda>w. prefix w s) ws_encodings = Some w"
  then have "w \<noteq> []" and "prefix w s"
    using ws_encodings_find ws_encodings_nonempty by blast+
  then have "0 < length w" and "length w \<le> length s"
    by (auto dest: prefix_length_le)
  then show "(drop (length w) s, s) \<in> measure length" by (simp del: length_greater_0_conv)
qed simp

function trim_end :: "string \<Rightarrow> string" where
  "trim_end s = (case find (\<lambda>w. suffix w s) ws_encodings of
     None \<Rightarrow> s | Some w \<Rightarrow> trim_end (take (length s - length w) s))"
  by pat_completeness auto
termination
proof (relation "measure length")
  fix s w
  assume "find (\<lambda>w. suffix w s) ws_encodings = Some w"
  then have "w \<noteq> []" and "suffix w s"
    using ws_encodings_find ws_encodings_nonempty by blast+
  then have "0 < length w" and "length w \<le> length s"
    by (auto dest: suffix_length_le)
  then show "(take (length s - length w) s, s) \<in> measure length"
    by (simp del: length_greater_0_conv)
qed simp

declare trim_start.simps [simp del] trim_end.simps [simp del]

definition trim :: "string \<Rightarrow> string" where
  "trim s = trim_end (trim_start s)"

text \<open>A string of visible ASCII bytes only is its own trimming.\<close>

definition visible_char :: "char \<Rightarrow> bool" where
  "visible_char c \<longleftrightarrow> 32 < (of_char c :: nat) \<and> (of_char c :: nat) < 128"

lemma ws_not_visible:
  assumes "w \<in> set ws_encodings" and "\<forall>c\<in>set s. visible_char c" and "set w \<subseteq> set s"
  shows False
proof -
  have "w \<noteq> []" using assms(1) by (rule ws_encodings_nonempty)
  then obtain c where "c \<in> set w"
    by (cases w) auto
  with assms ws_encodings_bytes [OF assms(1), of c] show False
    by (fastforce simp: visible_char_def)
qed

lemma trim_start_visible: "\<forall>c\<in>set s. visible_char c \<Longrightarrow> trim_start s = s"
proof -
  assume vis: "\<forall>c\<in>set s. visible_char c"
  have "find (\<lambda>w. prefix w s) ws_encodings = None"
    using ws_not_visible [OF _ vis] by (auto simp: find_None_iff dest: set_mono_prefix)
  then show ?thesis by (subst trim_start.simps) simp
qed

lemma trim_end_visible: "\<forall>c\<in>set s. visible_char c \<Longrightarrow> trim_end s = s"
proof -
  assume vis: "\<forall>c\<in>set s. visible_char c"
  have "find (\<lambda>w. suffix w s) ws_encodings = None"
    using ws_not_visible [OF _ vis] by (auto simp: find_None_iff dest: set_mono_suffix)
  then show ?thesis by (subst trim_end.simps) simp
qed

lemma trim_visible: "\<forall>c\<in>set s. visible_char c \<Longrightarrow> trim s = s"
  by (simp add: trim_def trim_start_visible trim_end_visible)

subsection \<open>ASCII classes\<close>

definition is_ascii_alphanumeric :: "char \<Rightarrow> bool" where
  "is_ascii_alphanumeric c \<longleftrightarrow> (let n = (of_char c :: nat) in
     (48 \<le> n \<and> n \<le> 57) \<or> (65 \<le> n \<and> n \<le> 90) \<or> (97 \<le> n \<and> n \<le> 122))"

definition is_ascii_hexdigit :: "char \<Rightarrow> bool" where
  "is_ascii_hexdigit c \<longleftrightarrow> (let n = (of_char c :: nat) in
     (48 \<le> n \<and> n \<le> 57) \<or> (65 \<le> n \<and> n \<le> 70) \<or> (97 \<le> n \<and> n \<le> 102))"

definition to_ascii_lowercase :: "string \<Rightarrow> string" where
  "to_ascii_lowercase = map (\<lambda>c. let n = (of_char c :: nat) in
     if 65 \<le> n \<and> n \<le> 90 then char_of (n + 32) else c)"

section \<open>Ordered sets as increasing lists\<close>

definition bset_ok :: "'a::linorder list \<Rightarrow> bool" where
  "bset_ok xs \<longleftrightarrow> sorted xs \<and> distinct xs"

definition bset_insert :: "'a::linorder \<Rightarrow> 'a list \<Rightarrow> 'a list" where
  "bset_insert x xs = insort_insert x xs"

definition bset_remove :: "'a \<Rightarrow> 'a list \<Rightarrow> 'a list" where
  "bset_remove x xs = removeAll x xs"

lemma bset_ok_Nil [simp]: "bset_ok []"
  by (simp add: bset_ok_def)

lemma bset_ok_Cons: "bset_ok (x # xs) \<longleftrightarrow> bset_ok xs \<and> (\<forall>y\<in>set xs. x < y)"
  by (auto simp: bset_ok_def less_le)

lemma bset_ok_single [simp]: "bset_ok [x]"
  by (simp add: bset_ok_def)

lemma bset_ok_tl: "bset_ok xs \<Longrightarrow> bset_ok (tl xs)"
  by (cases xs) (simp_all add: bset_ok_Cons)

lemma bset_ok_insert [simp, intro]: "bset_ok xs \<Longrightarrow> bset_ok (bset_insert x xs)"
  by (simp add: bset_ok_def bset_insert_def sorted_insort_insert distinct_insort_insert)

lemma bset_ok_remove [simp, intro]: "bset_ok xs \<Longrightarrow> bset_ok (bset_remove x xs)"
  by (simp add: bset_ok_def bset_remove_def removeAll_filter_not_eq sorted_wrt_filter)

lemma set_bset_insert [simp]: "set (bset_insert x xs) = insert x (set xs)"
  by (simp add: bset_insert_def set_insort_insert)

lemma set_bset_remove [simp]: "set (bset_remove x xs) = set xs - {x}"
  by (simp add: bset_remove_def)

lemma bset_insert_simps [simp]:
  "bset_insert x [] = [x]"
  "bset_insert x (y # ys) = (if x = y then y # ys else if x \<in> set ys then y # ys
     else if x \<le> y then x # y # ys else y # bset_insert x ys)"
  by (auto simp: bset_insert_def insort_insert_key_def)

lemma length_bset_insert: "length (bset_insert x xs) = (if x \<in> set xs then length xs else Suc (length xs))"
  by (auto simp: bset_insert_def insort_insert_key_def)

lemma bset_remove_hd: "bset_ok (x # xs) \<Longrightarrow> bset_remove x (x # xs) = xs"
  by (auto simp: bset_ok_def bset_remove_def)

lemma bset_eqI: "bset_ok xs \<Longrightarrow> bset_ok ys \<Longrightarrow> set xs = set ys \<Longrightarrow> xs = ys"
  by (auto simp: bset_ok_def intro: sorted_distinct_set_unique)

section \<open>Hash maps\<close>

abbreviation fmsize :: "('k, 'v) fmap \<Rightarrow> nat" where
  "fmsize m \<equiv> fcard (fmdom m)"

text \<open>\<open>HashMap::retain\<close> and \<open>iter().filter\<close> with a predicate on key and value.\<close>

definition fmretain :: "('k \<Rightarrow> 'v \<Rightarrow> bool) \<Rightarrow> ('k, 'v) fmap \<Rightarrow> ('k, 'v) fmap" where
  "fmretain P m = fmfilter (\<lambda>k. case fmlookup m k of None \<Rightarrow> False | Some v \<Rightarrow> P k v) m"

lemma fmlookup_fmretain [simp]:
  "fmlookup (fmretain P m) k = (case fmlookup m k of None \<Rightarrow> None
     | Some v \<Rightarrow> if P k v then Some v else None)"
  by (simp add: fmretain_def split: option.splits)

lemma fmsize_fmupd: "fmsize (fmupd k v m) = (if fmlookup m k = None then Suc (fmsize m) else fmsize m)"
  by (auto simp: fcard_finsert_if fmlookup_dom_iff)

lemma fmsize_fmdrop: "fmlookup m k = Some v \<Longrightarrow> fmsize m = Suc (fmsize (fmdrop k m))"
proof -
  assume "fmlookup m k = Some v"
  then have "k |\<in>| fmdom m" by (rule fmdomI)
  then have "fcard (finsert k (fmdom m)) = Suc (fcard (fmdom m |-| {|k|}))"
    by (simp add: fcard_finsert)
  with \<open>k |\<in>| fmdom m\<close> show ?thesis by (simp add: finsert_absorb)
qed

lemma fmsize_empty [simp]: "fmsize fmempty = 0"
  by simp

lemma fmsize_set: "fset (fmdom m) = set xs \<Longrightarrow> distinct xs \<Longrightarrow> fmsize m = length xs"
  by (simp add: fcard.rep_eq distinct_card)

text \<open>Sums over the values of a map, the abstract meaning of an incrementally kept counter.\<close>

definition fmsum :: "('v \<Rightarrow> nat) \<Rightarrow> ('k, 'v) fmap \<Rightarrow> nat" where
  "fmsum f m = (\<Sum>k\<in>fmdom' m. case fmlookup m k of None \<Rightarrow> 0 | Some v \<Rightarrow> f v)"

lemma fmsum_empty [simp]: "fmsum f fmempty = 0"
  by (simp add: fmsum_def)

lemma finite_fmdom' [simp]: "finite (fmdom' m)"
  by (simp add: fmdom'_alt_def)

lemma fmsum_remove: "fmlookup m k = Some v \<Longrightarrow> fmsum f m = f v + fmsum f (fmdrop k m)"
proof -
  assume k: "fmlookup m k = Some v"
  then have "k \<in> fmdom' m" by (rule fmdom'I)
  then have "fmsum f m = (case fmlookup m k of None \<Rightarrow> 0 | Some v \<Rightarrow> f v)
      + (\<Sum>x\<in>fmdom' m - {k}. case fmlookup m x of None \<Rightarrow> 0 | Some v \<Rightarrow> f v)"
    unfolding fmsum_def by (rule sum.remove [OF finite_fmdom'])
  moreover have "(\<Sum>x\<in>fmdom' m - {k}. case fmlookup m x of None \<Rightarrow> 0 | Some v \<Rightarrow> f v)
      = fmsum f (fmdrop k m)"
    unfolding fmsum_def by (rule sum.cong) auto
  ultimately show ?thesis using k by simp
qed

lemma fmsum_upd: "fmsum f (fmupd k v m) = f v + fmsum f (fmdrop k m)"
  by (subst fmsum_remove [of _ k v]) (simp_all add: fmdrop_fmupd_same)

lemma fmdrop_absent: "fmlookup m k = None \<Longrightarrow> fmdrop k m = m"
  by (rule fmdrop_idle) (simp add: fmlookup_dom_iff)

lemma fmsum_upd_new: "fmlookup m k = None \<Longrightarrow> fmsum f (fmupd k v m) = f v + fmsum f m"
  by (simp add: fmsum_upd fmdrop_absent)

lemma fmsum_le: "fmlookup m k = Some v \<Longrightarrow> f v \<le> fmsum f m"
  by (simp add: fmsum_remove)

lemma fmsum_fmdrop: "fmsum f (fmdrop k m) = fmsum f m - (case fmlookup m k of None \<Rightarrow> 0 | Some v \<Rightarrow> f v)"
  by (cases "fmlookup m k") (simp_all add: fmdrop_absent fmsum_remove)

lemma fmsum_mono: "(\<And>k v. fmlookup m k = Some v \<Longrightarrow> f v \<le> g v) \<Longrightarrow> fmsum f m \<le> fmsum g m"
  unfolding fmsum_def by (rule sum_mono) (auto split: option.splits)

lemma fmfilter_fmdrop: "fmfilter P (fmdrop k m) = fmdrop k (fmfilter P m)"
  by (rule fmap_ext) auto

lemma fmfilter_fmupd: "fmfilter P (fmupd k v m) = (if P k then fmupd k v (fmfilter P m) else fmfilter P m)"
  by (rule fmap_ext) auto

lemma fmupd_same: "fmlookup m k = Some v \<Longrightarrow> fmupd k v m = m"
  by (rule fmap_ext) auto

lemma fmupd_fmdrop: "fmupd k v (fmdrop k m) = fmupd k v m"
  by (rule fmap_ext) auto

lemma fmupd_twice: "fmupd k v (fmupd k w m) = fmupd k v m"
  by (rule fmap_ext) auto

lemma fmsum_cong: "(\<And>k v. fmlookup m k = Some v \<Longrightarrow> f v = g v) \<Longrightarrow> fmsum f m = fmsum g m"
  unfolding fmsum_def by (rule sum.cong) (auto split: option.splits)

lemma fmsum_fmfilter_le: "fmsum f (fmfilter P m) \<le> fmsum f m"
proof -
  have "fmsum f (fmfilter P m) = (\<Sum>k\<in>fmdom' (fmfilter P m). case fmlookup m k of None \<Rightarrow> 0 | Some v \<Rightarrow> f v)"
    unfolding fmsum_def by (rule sum.cong) (auto split: option.split)
  also have "\<dots> \<le> fmsum f m"
    unfolding fmsum_def by (rule sum_mono2) (auto intro: fmdom'I)
  finally show ?thesis .
qed

end
