(* ===== verification/Externals.thy ===== *)
theory Externals
  imports P2P_Prelude
begin

text \<open>
  The third-party functions the modelled sources call, as one record of parameters, and the
  documented behaviour the proofs rely on, each as a named predicate: \<open>PeerId\<close> text and byte
  encodings (libp2p), the \<open>hex\<close> crate, BLAKE3, and the
  hash of a Gossipsub topic. Nothing about their implementation is
  assumed. \<open>demo_ext\<close> is one concrete choice of the parameters under which all the predicates
  hold; it serves the witnesses.
\<close>

record 'p ext =
  pid_to_string :: "'p \<Rightarrow> string"
  pid_parse :: "string \<Rightarrow> string + 'p"
  pid_to_bytes :: "'p \<Rightarrow> u8 list"
  pid_from_bytes :: "u8 list \<Rightarrow> string + 'p"
  hex_encode :: "u8 list \<Rightarrow> string"
  hex_decode :: "string \<Rightarrow> u8 list option"
  blake3 :: "u8 list \<Rightarrow> u8 list"
  blake3_hex :: "u8 list \<Rightarrow> string"
  topic_hash :: "string \<Rightarrow> string"

text \<open>\<open>PeerId::to_string\<close> and \<open>parse\<close> are inverse.\<close>

definition peer_text_law :: "'p ext \<Rightarrow> bool" where
  [laws]: "peer_text_law E \<longleftrightarrow> (\<forall>p. pid_parse E (pid_to_string E p) = Inr p)"

text \<open>\<open>PeerId::to_bytes\<close> and \<open>from_bytes\<close> are inverse, and the encoding is short.\<close>

definition peer_bytes_law :: "'p ext \<Rightarrow> bool" where
  [laws]: "peer_bytes_law E \<longleftrightarrow>
     (\<forall>p. pid_from_bytes E (pid_to_bytes E p) = Inr p \<and> length (pid_to_bytes E p) < 2 ^ 16)"

text \<open>\<open>hex::decode\<close> inverts \<open>hex::encode\<close>, whose output is made of hexadecimal digits, and halves
  the length.\<close>

definition hex_law :: "'p ext \<Rightarrow> bool" where
  [laws]: "hex_law E \<longleftrightarrow> (\<forall>bs. hex_decode E (hex_encode E bs) = Some bs)
     \<and> (\<forall>bs. list_all is_ascii_hexdigit (hex_encode E bs))
     \<and> (\<forall>s bs. hex_decode E s = Some bs \<longrightarrow> length s = 2 * length bs)"

text \<open>A BLAKE3 digest has 32 bytes, and \<open>to_hex\<close> is its hexadecimal text.\<close>

definition blake3_law :: "'p ext \<Rightarrow> bool" where
  [laws]: "blake3_law E \<longleftrightarrow>
     (\<forall>x. length (blake3 E x) = 32 \<and> blake3_hex E x = hex_encode E (blake3 E x))"

text \<open>An \<open>IdentTopic\<close> is hashed by its name: different names have different hashes.\<close>

definition topic_hash_law :: "'p ext \<Rightarrow> bool" where
  [laws]: "topic_hash_law E \<longleftrightarrow> (\<forall>s t. topic_hash E s = topic_hash E t \<longrightarrow> s = t)"

lemma peer_text_inject:
  "peer_text_law E \<Longrightarrow> pid_to_string E p = pid_to_string E q \<Longrightarrow> p = q"
  unfolding laws by (metis sum.inject(2))

lemma hex_encode_length: "hex_law E \<Longrightarrow> length (hex_encode E bs) = 2 * length bs"
  unfolding laws by blast

lemma blake3_hex_text:
  "hex_law E \<Longrightarrow> blake3_law E \<Longrightarrow> length (blake3_hex E x) = 64 \<and> list_all is_ascii_hexdigit (blake3_hex E x)"
  using hex_encode_length [of E "blake3 E x"] by (simp add: laws)

section \<open>A concrete instance\<close>

definition nibble_char :: "nat \<Rightarrow> char" where
  "nibble_char n = (if n < 10 then char_of (48 + n) else char_of (87 + n))"

definition char_nibble :: "char \<Rightarrow> nat option" where
  "char_nibble c = (let n = (of_char c :: nat) in
     if 48 \<le> n \<and> n \<le> 57 then Some (n - 48)
     else if 97 \<le> n \<and> n \<le> 102 then Some (n - 87)
     else if 65 \<le> n \<and> n \<le> 70 then Some (n - 55)
     else None)"

primrec demo_hex :: "u8 list \<Rightarrow> string" where
  "demo_hex [] = []"
| "demo_hex (b # bs) = nibble_char (unat b div 16) # nibble_char (unat b mod 16) # demo_hex bs"

fun demo_unhex :: "string \<Rightarrow> u8 list option" where
  "demo_unhex [] = Some []"
| "demo_unhex [c] = None"
| "demo_unhex (c # d # s) = (case (char_nibble c, char_nibble d, demo_unhex s) of
     (Some h, Some l, Some bs) \<Rightarrow> Some (of_nat (16 * h + l) # bs) | _ \<Rightarrow> None)"

lemma char_nibble_char: "n < 16 \<Longrightarrow> char_nibble (nibble_char n) = Some n"
  by (auto simp: char_nibble_def nibble_char_def of_char_of Let_def)

lemma demo_unhex_hex: "demo_unhex (demo_hex bs) = Some bs"
proof (induction bs)
  case (Cons b bs)
  have "unat b < 256" using unsigned_less [of b] by simp
  then have "unat b div 16 < 16" and "unat b mod 16 < 16" by auto
  moreover have "of_nat (16 * (unat b div 16) + unat b mod 16) = b"
    by (simp only: mult_div_mod_eq) simp
  ultimately show ?case by (simp only: demo_hex.simps demo_unhex.simps char_nibble_char Cons.IH) simp
qed simp

lemma nibble_hexdigit: "n < 16 \<Longrightarrow> is_ascii_hexdigit (nibble_char n)"
  by (auto simp: nibble_char_def is_ascii_hexdigit_def of_char_of Let_def)

lemma demo_hex_digits: "list_all is_ascii_hexdigit (demo_hex bs)"
proof (induction bs)
  case (Cons b bs)
  have "unat b < 256" using unsigned_less [of b] by simp
  then show ?case using Cons by (simp add: nibble_hexdigit)
qed simp

lemma demo_unhex_length: "demo_unhex s = Some bs \<Longrightarrow> length s = 2 * length bs"
  by (induction s arbitrary: bs rule: demo_unhex.induct) (auto split: option.splits)

definition demo_ext :: "u8 ext" where
  "demo_ext = \<lparr>
     pid_to_string = (\<lambda>p. demo_hex [p]),
     pid_parse = (\<lambda>s. case demo_unhex s of Some [p] \<Rightarrow> Inr p | _ \<Rightarrow> Inl ''invalid peer id''),
     pid_to_bytes = (\<lambda>p. [p]),
     pid_from_bytes = (\<lambda>bs. case bs of [p] \<Rightarrow> Inr p | _ \<Rightarrow> Inl ''invalid peer id bytes''),
     hex_encode = demo_hex,
     hex_decode = demo_unhex,
     blake3 = (\<lambda>x. take 32 (x @ replicate 32 0)),
     blake3_hex = (\<lambda>x. demo_hex (take 32 (x @ replicate 32 0))),
     topic_hash = (\<lambda>t. t)\<rparr>"

lemma demo_peer_text: "peer_text_law demo_ext"
  unfolding laws by (simp only: demo_ext_def ext.simps demo_unhex_hex) simp

lemma demo_peer_bytes: "peer_bytes_law demo_ext"
  unfolding laws by (simp add: demo_ext_def)

lemma demo_hex_law: "hex_law demo_ext"
  unfolding laws by (simp add: demo_ext_def demo_unhex_hex demo_unhex_length demo_hex_digits)

lemma demo_blake3: "blake3_law demo_ext"
  unfolding laws by (auto simp: demo_ext_def demo_unhex_hex min_def)

lemma demo_topic_hash: "topic_hash_law demo_ext"
  unfolding laws by (simp add: demo_ext_def)

lemmas demo_laws = demo_peer_text demo_peer_bytes demo_hex_law demo_blake3

text \<open>A prefix code for numbers and strings, from which the witnesses build a message codec.\<close>

definition put_nat :: "nat \<Rightarrow> u8 list" where
  "put_nat n = replicate n 1 @ [0]"

definition get_nat :: "u8 list \<Rightarrow> nat \<times> u8 list" where
  "get_nat bs = (length (takeWhile (\<lambda>b. b = 1) bs), tl (dropWhile (\<lambda>b. b = 1) bs))"

definition put_bytes :: "u8 list \<Rightarrow> u8 list" where
  "put_bytes xs = put_nat (length xs) @ xs"

definition get_bytes :: "u8 list \<Rightarrow> u8 list \<times> u8 list" where
  "get_bytes bs = (let (n, r) = get_nat bs in (take n r, drop n r))"

definition put_str :: "string \<Rightarrow> u8 list" where
  "put_str s = put_bytes (map (\<lambda>c. of_nat (of_char c)) s)"

definition get_str :: "u8 list \<Rightarrow> string \<times> u8 list" where
  "get_str bs = (let (xs, r) = get_bytes bs in (map (\<lambda>b. char_of (unat b)) xs, r))"

definition put_opt :: "string option \<Rightarrow> u8 list" where
  "put_opt o1 = (case o1 of None \<Rightarrow> put_nat 0 | Some s \<Rightarrow> put_nat 1 @ put_str s)"

definition get_opt :: "u8 list \<Rightarrow> string option \<times> u8 list" where
  "get_opt bs = (let (n, r) = get_nat bs in
     if n = 0 then (None, r) else let (s, r') = get_str r in (Some s, r'))"

lemma get_put_nat [simp]: "get_nat (put_nat n @ r) = (n, r)"
proof -
  have "takeWhile (\<lambda>b. b = 1) (replicate n (1 :: u8) @ 0 # r) = replicate n 1" by (induction n) auto
  moreover have "dropWhile (\<lambda>b. b = 1) (replicate n (1 :: u8) @ 0 # r) = 0 # r" by (induction n) auto
  ultimately show ?thesis by (simp add: get_nat_def put_nat_def)
qed

lemma get_put_bytes [simp]: "get_bytes (put_bytes xs @ r) = (xs, r)"
  by (simp add: get_bytes_def put_bytes_def)

lemma get_put_str [simp]: "get_str (put_str s @ r) = (s, r)"
proof -
  have "unat (of_nat (of_char c) :: u8) = of_char c" for c
    by (simp add: unsigned_of_nat take_bit_eq_mod)
  then have "map ((\<lambda>b. char_of (unat b)) \<circ> (\<lambda>c. of_nat (of_char c) :: u8)) s = s"
    by (intro map_idI) simp
  then show ?thesis by (simp add: get_str_def put_str_def)
qed

lemma get_put_opt [simp]: "get_opt (put_opt o1 @ r) = (o1, r)"
  by (cases o1) (simp_all add: get_opt_def put_opt_def)

end
