(* ===== verification/Replay_Contract.thy ===== *)
theory Replay_Contract
  imports P2P_Prelude
begin

text \<open>
  What a replay cache promises. Its abstract state is the \<^emph>\<open>window\<close>: the keys it remembers with
  the time each was stored, oldest first. A check drops the expired prefix, refuses a key that is
  still in the window, and otherwise appends it and evicts from the front down to the capacity.
  The locale \<open>replay_window\<close> states that an implementation refines this; the heartbeat and the
  application-message caches are its two interpretations. The guarantee clients use is
  \<open>no_replay\<close>: a stored key is refused for as long as it has not expired and fewer than
  \<open>capacity\<close> new keys were stored after it.
\<close>

definition expired :: "nat \<Rightarrow> nat \<Rightarrow> 'k \<times> nat \<Rightarrow> bool" where
  "expired ttl now e \<longleftrightarrow> ttl < now - snd e"

definition spec_prune :: "nat \<Rightarrow> nat \<Rightarrow> ('k \<times> nat) list \<Rightarrow> ('k \<times> nat) list" where
  "spec_prune ttl now w = dropWhile (expired ttl now) w"

definition spec_check :: "nat \<Rightarrow> nat \<Rightarrow> 'k \<Rightarrow> nat \<Rightarrow> ('k \<times> nat) list \<Rightarrow> bool \<times> ('k \<times> nat) list" where
  "spec_check cap ttl k now w = (let w' = spec_prune ttl now w in
     if k \<in> fst ` set w' then (False, w')
     else (True, drop (Suc (length w') - cap) (w' @ [(k, now)])))"

text \<open>\<open>kept n e w\<close>: the entry \<open>e\<close> is in \<open>w\<close> with at most \<open>n\<close> entries stored after it.\<close>

definition kept :: "nat \<Rightarrow> 'a \<Rightarrow> 'a list \<Rightarrow> bool" where
  "kept n e w \<longleftrightarrow> (\<exists>xs ys. w = xs @ e # ys \<and> length ys \<le> n)"

lemma kept_in_set: "kept n e w \<Longrightarrow> e \<in> set w"
  by (auto simp: kept_def)

lemma kept_snoc: "kept 0 e (w @ [e])"
  by (auto simp: kept_def)

lemma kept_dropWhile: "kept n e w \<Longrightarrow> \<not> P e \<Longrightarrow> kept n e (dropWhile P w)"
proof -
  assume k: "kept n e w" and e: "\<not> P e"
  then obtain xs ys where w: "w = xs @ e # ys" and "length ys \<le> n"
    by (auto simp: kept_def)
  moreover have "dropWhile P (xs @ e # ys) = dropWhile P xs @ e # ys"
    using e by (induction xs) auto
  ultimately show ?thesis by (auto simp: kept_def)
qed

lemma kept_push:
  assumes "kept n e w" and "Suc n < cap"
  shows "kept (Suc n) e (drop (Suc (length w) - cap) (w @ [x]))"
proof -
  from assms(1) obtain xs ys where w: "w = xs @ e # ys" and n: "length ys \<le> n"
    by (auto simp: kept_def)
  have "drop (Suc (length w) - cap) (w @ [x]) = drop (Suc (length w) - cap) xs @ e # ys @ [x]"
    using w n assms(2) by simp
  then show ?thesis using n unfolding kept_def
    by (intro exI [of _ "drop (Suc (length w) - cap) xs"] exI [of _ "ys @ [x]"]) simp
qed

locale replay_window =
  fixes window :: "'c \<Rightarrow> ('k \<times> nat) list"
    and capacity :: "'c \<Rightarrow> nat"
    and ttl :: "'c \<Rightarrow> nat"
    and invar :: "'c \<Rightarrow> bool"
    and check :: "'k \<Rightarrow> nat \<Rightarrow> 'c \<Rightarrow> bool \<times> 'c"
  assumes check_refines:
      "invar c \<Longrightarrow> (fst (check k now c), window (snd (check k now c)))
         = spec_check (capacity c) (ttl c) k now (window c)"
    and invar_check: "invar c \<Longrightarrow> invar (snd (check k now c))"
    and check_capacity: "invar c \<Longrightarrow> capacity (snd (check k now c)) = capacity c"
    and check_ttl: "invar c \<Longrightarrow> ttl (snd (check k now c)) = ttl c"
    and window_bound: "invar c \<Longrightarrow> 0 < capacity c \<and> length (window c) \<le> capacity c"
begin

fun run :: "('k \<times> nat) list \<Rightarrow> 'c \<Rightarrow> bool list \<times> 'c" where
  "run [] c = ([], c)"
| "run ((k, now) # evs) c = (let (b, c') = check k now c; (bs, c'') = run evs c' in (b # bs, c''))"

lemma check_window:
  assumes "invar c"
  shows "window (snd (check k now c)) = snd (spec_check (capacity c) (ttl c) k now (window c))"
    and "fst (check k now c) \<longleftrightarrow> fst (spec_check (capacity c) (ttl c) k now (window c))"
  using check_refines [OF assms, of k now] by (metis snd_conv, metis fst_conv)

lemma check_refuses:
  assumes "invar c" and "kept n (k, t) (window c)" and "now - t \<le> ttl c"
  shows "\<not> fst (check k now c)"
proof -
  have "kept n (k, t) (spec_prune (ttl c) now (window c))"
    unfolding spec_prune_def using assms by (intro kept_dropWhile) (auto simp: expired_def)
  then have "(k, t) \<in> set (spec_prune (ttl c) now (window c))" by (rule kept_in_set)
  then have "k \<in> fst ` set (spec_prune (ttl c) now (window c))" by force
  then show ?thesis by (simp add: check_window [OF assms(1)] spec_check_def Let_def)
qed

lemma check_stores:
  assumes "invar c" and "fst (check k now c)"
  shows "kept 0 (k, now) (window (snd (check k now c)))"
proof -
  let ?w = "spec_prune (ttl c) now (window c)"
  have "length ?w \<le> length (window c)" by (simp add: spec_prune_def length_dropWhile_le)
  then have "Suc (length ?w) - capacity c \<le> length ?w"
    using window_bound [OF assms(1)] by linarith
  then have "drop (Suc (length ?w) - capacity c) (?w @ [(k, now)])
      = drop (Suc (length ?w) - capacity c) ?w @ [(k, now)]" by simp
  then show ?thesis
    using assms by (auto simp: check_window spec_check_def Let_def kept_snoc split: if_splits)
qed

lemma check_keeps:
  assumes "invar c" and "kept n (k, t) (window c)" and "now - t \<le> ttl c" and "Suc n < capacity c"
  shows "kept (if fst (check k' now c) then Suc n else n) (k, t) (window (snd (check k' now c)))"
proof -
  have "kept n (k, t) (spec_prune (ttl c) now (window c))"
    unfolding spec_prune_def using assms by (intro kept_dropWhile) (auto simp: expired_def)
  then show ?thesis
    using kept_push [OF _ assms(4)]
    by (auto simp: check_window [OF assms(1)] spec_check_def Let_def)
qed

lemma run_keeps:
  assumes "invar c" and "kept n (k, t) (window c)"
    and "\<forall>(k', now) \<in> set evs. now - t \<le> ttl c"
    and "n + count_list (fst (run evs c)) True < capacity c"
  shows "kept (n + count_list (fst (run evs c)) True) (k, t) (window (snd (run evs c)))
    \<and> invar (snd (run evs c)) \<and> ttl (snd (run evs c)) = ttl c \<and> capacity (snd (run evs c)) = capacity c"
  using assms
proof (induction evs arbitrary: c n)
  case Nil
  then show ?case by simp
next
  case (Cons ev evs)
  obtain k' now where ev: "ev = (k', now)" by (cases ev)
  obtain b c' where chk: "check k' now c = (b, c')" by (cases "check k' now c")
  obtain bs c'' where rn: "run evs c' = (bs, c'')" by (cases "run evs c'")
  have inv': "invar c'" "capacity c' = capacity c" "ttl c' = ttl c"
    using Cons.prems(1) chk invar_check [of c k' now] check_capacity [of c k' now]
      check_ttl [of c k' now] by simp_all
  let ?n = "if b then Suc n else n"
  have cnt: "n + count_list (b # bs) True = ?n + count_list bs True" by simp
  have small: "?n + count_list bs True < capacity c"
    using Cons.prems(4) by (simp add: ev chk rn split: if_splits)
  have "kept ?n (k, t) (window c')"
  proof (cases "Suc n < capacity c")
    case True
    with check_keeps [OF Cons.prems(1,2), of now k'] Cons.prems(3) show ?thesis
      by (simp add: ev chk)
  next
    case False
    with small have "\<not> b" by auto
    have "kept n (k, t) (spec_prune (ttl c) now (window c))"
      unfolding spec_prune_def using Cons.prems(2,3) by (intro kept_dropWhile) (auto simp: ev expired_def)
    with \<open>\<not> b\<close> chk check_window [OF Cons.prems(1), of k' now] show ?thesis
      by (auto simp: spec_check_def Let_def split: if_splits)
  qed
  from Cons.IH [OF inv'(1) this] small Cons.prems(3) inv' rn
  show ?case by (simp add: ev chk rn split: if_splits)
qed

text \<open>
  The guarantee: after \<open>k\<close> is stored at \<open>t\<close>, a later check of \<open>k\<close> is refused, whatever
  happened in between, as long as no check is later than \<open>t + ttl\<close> and fewer than
  \<open>capacity\<close> other keys were stored.
\<close>

lemma no_replay:
  assumes "invar c" and "fst (check k t c)"
    and "\<forall>(k', now) \<in> set evs. now - t \<le> ttl c" and "now - t \<le> ttl c"
    and "count_list (fst (run evs (snd (check k t c)))) True < capacity c"
  shows "\<not> fst (check k now (snd (run evs (snd (check k t c)))))"
proof -
  let ?c = "snd (check k t c)"
  have st: "invar ?c" "capacity ?c = capacity c" "ttl ?c = ttl c"
    using assms(1) by (simp_all add: invar_check check_capacity check_ttl)
  note K = run_keeps [OF st(1) check_stores [OF assms(1,2)], of evs]
  from K assms(3,5) st have
    "kept (count_list (fst (run evs ?c)) True) (k, t) (window (snd (run evs ?c)))"
    and "invar (snd (run evs ?c))" and "ttl (snd (run evs ?c)) = ttl c" by simp_all
  with assms(4) show ?thesis by (intro check_refuses) simp_all
qed

lemma run_bounded: "invar c \<Longrightarrow> invar (snd (run evs c)) \<and> length (window (snd (run evs c))) \<le> capacity c"
proof (induction evs arbitrary: c)
  case Nil
  then show ?case using window_bound by simp
next
  case (Cons ev evs)
  obtain k' now where ev: "ev = (k', now)" by (cases ev)
  have "invar (snd (check k' now c))" "capacity (snd (check k' now c)) = capacity c"
    using Cons.prems by (simp_all add: invar_check check_capacity)
  with Cons.IH [of "snd (check k' now c)"] show ?case
    by (simp add: ev split_beta Let_def)
qed

end

text \<open>
  A client that only consults the cache for events it admits. \<open>admit g e now\<close> is the key of
  the event when it passes the client's own checks under the configuration \<open>g\<close>. If those
  checks bound how long one key stays admissible by the cache's time to live, the limit on the
  elapsed time disappears from the guarantee.
\<close>

locale replay_guard = replay_window window capacity ttl invar check
  for window :: "'c \<Rightarrow> ('k \<times> nat) list"
    and capacity :: "'c \<Rightarrow> nat"
    and ttl :: "'c \<Rightarrow> nat"
    and invar :: "'c \<Rightarrow> bool"
    and check :: "'k \<Rightarrow> nat \<Rightarrow> 'c \<Rightarrow> bool \<times> 'c" +
  fixes valid :: "'g \<Rightarrow> bool"
    and admit :: "'g \<Rightarrow> 'e \<Rightarrow> nat \<Rightarrow> 'k option"
    and ttl_of :: "'g \<Rightarrow> nat"
  assumes admit_fresh: "valid g \<Longrightarrow> admit g e t = Some k \<Longrightarrow> admit g e' now = Some k \<Longrightarrow>
       now < 2 ^ 64 \<Longrightarrow> now - t \<le> ttl_of g"
begin

definition ingest :: "'g \<Rightarrow> 'e \<Rightarrow> nat \<Rightarrow> 'c \<Rightarrow> bool \<times> 'c" where
  "ingest g e now c = (case admit g e now of None \<Rightarrow> (False, c) | Some k \<Rightarrow> check k now c)"

fun session :: "'g \<Rightarrow> ('e \<times> nat) list \<Rightarrow> 'c \<Rightarrow> bool list \<times> 'c" where
  "session g [] c = ([], c)"
| "session g ((e, now) # evs) c =
     (let (b, c') = ingest g e now c; (bs, c'') = session g evs c' in (b # bs, c''))"

primrec checks :: "'g \<Rightarrow> ('e \<times> nat) list \<Rightarrow> ('k \<times> nat) list" where
  "checks g [] = []"
| "checks g (ev # evs) = (case admit g (fst ev) (snd ev) of None \<Rightarrow> checks g evs
     | Some k \<Rightarrow> (k, snd ev) # checks g evs)"

lemma session_run:
  "snd (session g evs c) = snd (run (checks g evs) c) \<and>
   count_list (fst (session g evs c)) True = count_list (fst (run (checks g evs) c)) True"
proof (induction evs arbitrary: c)
  case (Cons ev evs)
  show ?case
    by (cases ev) (auto simp: ingest_def split_beta Let_def Cons.IH split: option.split)
qed simp

lemma checks_times: "(k, t) \<in> set (checks g evs) \<Longrightarrow> \<exists>e. (e, t) \<in> set evs"
  by (induction evs) (auto split: option.splits)

lemma session_ok:
  assumes "invar c"
  shows "invar (snd (session g evs c))" "length (window (snd (session g evs c))) \<le> capacity c"
  using run_bounded [OF assms, of "checks g evs"] by (simp_all add: session_run)

lemma session_config:
  "invar c \<Longrightarrow> capacity (snd (session g evs c)) = capacity c \<and> ttl (snd (session g evs c)) = ttl c"
proof (induction evs arbitrary: c)
  case (Cons ev evs)
  obtain e now where ev: "ev = (e, now)" by (cases ev)
  have "invar (snd (ingest g e now c)) \<and> capacity (snd (ingest g e now c)) = capacity c
      \<and> ttl (snd (ingest g e now c)) = ttl c"
    using Cons.prems
    by (simp add: ingest_def invar_check check_capacity check_ttl split: option.split)
  with Cons.IH [of "snd (ingest g e now c)"] show ?case by (simp add: ev split_beta Let_def)
qed simp

lemma guarded_no_replay:
  assumes "valid g" and "invar c" and "ttl c = ttl_of g"
    and acc: "fst (ingest g e t c)"
    and same: "\<And>k k'. admit g e t = Some k \<Longrightarrow> admit g e' now = Some k' \<Longrightarrow> k' = k"
    and between: "\<forall>(e', t') \<in> set evs. t' \<le> now" and "now < 2 ^ 64"
    and few: "count_list (fst (session g evs (snd (ingest g e t c)))) True < capacity c"
  shows "\<not> fst (ingest g e' now (snd (session g evs (snd (ingest g e t c)))))"
proof (cases "admit g e' now")
  case None
  then show ?thesis by (simp add: ingest_def)
next
  case (Some k)
  from acc obtain k0 where k0: "admit g e t = Some k0"
    by (auto simp: ingest_def split: option.splits)
  with Some same have adm: "admit g e t = Some k" by blast
  have fresh: "now - t \<le> ttl c"
    using admit_fresh [OF assms(1) adm Some \<open>now < 2 ^ 64\<close>] assms(3) by simp
  have chk: "ingest g e t c = check k t c" using adm by (simp add: ingest_def)
  have "\<forall>(k', t') \<in> set (checks g evs). t' - t \<le> ttl c"
  proof clarify
    fix k' t'
    assume "(k', t') \<in> set (checks g evs)"
    then obtain e' where "(e', t') \<in> set evs" using checks_times by blast
    with between have "t' \<le> now" by auto
    with fresh show "t' - t \<le> ttl c" by linarith
  qed
  from no_replay [OF assms(2) _ this fresh] acc few
  have "\<not> fst (check k now (snd (run (checks g evs) (snd (check k t c)))))"
    by (simp add: chk session_run)
  with Some adm show ?thesis by (simp add: ingest_def session_run)
qed

end

section \<open>The map-and-queue implementation shared by both caches\<close>

text \<open>
  Both caches keep a \<open>HashMap\<close> from key to insertion time and a \<open>VecDeque\<close> of the keys in
  insertion order, and run the same two loops on them: \<open>prune\<close> pops expired keys from the
  front, and the insertion pops the front while the map exceeds the capacity.
\<close>

fun prune_loop :: "nat \<Rightarrow> nat \<Rightarrow> 'k list \<Rightarrow> ('k, nat) fmap \<Rightarrow> 'k list \<times> ('k, nat) fmap" where
  "prune_loop ttl now [] entries = ([], entries)"
| "prune_loop ttl now (front # rest) entries = (case fmlookup entries front of
     None \<Rightarrow> prune_loop ttl now rest entries
   | Some inserted \<Rightarrow> if now - inserted \<le> ttl then (front # rest, entries)
       else prune_loop ttl now rest (fmdrop front entries))"

fun evict_loop :: "nat \<Rightarrow> 'k list \<Rightarrow> ('k, nat) fmap \<Rightarrow> 'k list \<times> ('k, nat) fmap" where
  "evict_loop cap [] entries = ([], entries)"
| "evict_loop cap (oldest # rest) entries =
     (if cap < fmsize entries then evict_loop cap rest (fmdrop oldest entries)
      else (oldest # rest, entries))"

definition queue_ok :: "'k list \<Rightarrow> ('k, nat) fmap \<Rightarrow> bool" where
  "queue_ok ks m \<longleftrightarrow> distinct ks \<and> fset (fmdom m) = set ks"

definition queue_window :: "'k list \<Rightarrow> ('k, nat) fmap \<Rightarrow> ('k \<times> nat) list" where
  "queue_window ks m = map (\<lambda>k. (k, the (fmlookup m k))) ks"

lemma queue_ok_Cons:
  assumes "queue_ok (k # ks) m"
  shows "queue_ok ks (fmdrop k m)" and "\<exists>t. fmlookup m k = Some t"
    and "queue_window ks (fmdrop k m) = queue_window ks m"
  using assms by (auto simp: queue_ok_def queue_window_def fmlookup_dom_iff)

lemma queue_size: "queue_ok ks m \<Longrightarrow> fmsize m = length ks"
  by (auto simp: queue_ok_def intro: fmsize_set)

lemma queue_lookup: "queue_ok ks m \<Longrightarrow> fmlookup m k \<noteq> None \<longleftrightarrow> k \<in> fst ` set (queue_window ks m)"
proof -
  assume ok: "queue_ok ks m"
  have "fst ` set (queue_window ks m) = fset (fmdom m)"
    using ok by (simp add: queue_window_def queue_ok_def image_image)
  then show ?thesis by (simp add: fmlookup_dom_iff)
qed

lemma prune_loop_spec:
  assumes "queue_ok ks m"
  shows "queue_ok (fst (prune_loop ttl now ks m)) (snd (prune_loop ttl now ks m)) \<and>
    queue_window (fst (prune_loop ttl now ks m)) (snd (prune_loop ttl now ks m))
      = spec_prune ttl now (queue_window ks m)"
  using assms
proof (induction ks arbitrary: m)
  case Nil
  then show ?case by (simp add: queue_window_def spec_prune_def)
next
  case (Cons k ks)
  note q = queue_ok_Cons [OF Cons.prems]
  from q(2) obtain t where t: "fmlookup m k = Some t" ..
  have w: "queue_window (k # ks) m = (k, t) # queue_window ks m" by (simp add: queue_window_def t)
  show ?case
    using Cons.IH [OF q(1)] Cons.prems
    by (auto simp: t w q(3) spec_prune_def expired_def)
qed

lemma evict_loop_spec:
  assumes "queue_ok ks m"
  shows "queue_ok (fst (evict_loop cap ks m)) (snd (evict_loop cap ks m)) \<and>
    queue_window (fst (evict_loop cap ks m)) (snd (evict_loop cap ks m))
      = drop (length ks - cap) (queue_window ks m)"
  using assms
proof (induction ks arbitrary: m)
  case Nil
  then show ?case by (simp add: queue_window_def)
next
  case (Cons k ks)
  note q = queue_ok_Cons [OF Cons.prems]
  have w: "queue_window (k # ks) m = (k, the (fmlookup m k)) # queue_window ks m"
    by (simp add: queue_window_def)
  show ?case
    using Cons.IH [OF q(1)] Cons.prems
    by (auto simp: w q(3) queue_size [OF Cons.prems] Suc_diff_le)
qed

lemma queue_insert:
  assumes "queue_ok ks m" and "fmlookup m k = None"
  shows "queue_ok (ks @ [k]) (fmupd k now m) \<and>
    queue_window (ks @ [k]) (fmupd k now m) = queue_window ks m @ [(k, now)]"
proof -
  from assms have "k \<notin> set ks" by (metis fmdom_notI queue_ok_def)
  with assms show ?thesis by (auto simp: queue_ok_def queue_window_def)
qed

text \<open>The body of \<open>check_and_insert\<close> on the two fields, once the key is known.\<close>

definition queue_check :: "nat \<Rightarrow> nat \<Rightarrow> 'k \<Rightarrow> nat \<Rightarrow> 'k list \<times> ('k, nat) fmap
    \<Rightarrow> bool \<times> 'k list \<times> ('k, nat) fmap" where
  "queue_check cap ttl k now q = (let (ks, m) = prune_loop ttl now (fst q) (snd q) in
     if fmlookup m k \<noteq> None then (False, ks, m)
     else (True, evict_loop cap (ks @ [k]) (fmupd k now m)))"

lemma queue_check_spec:
  assumes "queue_ok (fst q) (snd q)"
  shows "queue_ok (fst (snd (queue_check cap ttl k now q))) (snd (snd (queue_check cap ttl k now q)))"
    and "(fst (queue_check cap ttl k now q),
          queue_window (fst (snd (queue_check cap ttl k now q))) (snd (snd (queue_check cap ttl k now q))))
       = spec_check cap ttl k now (queue_window (fst q) (snd q))"
proof -
  obtain ks m where p: "prune_loop ttl now (fst q) (snd q) = (ks, m)" by fastforce
  from prune_loop_spec [OF assms, of ttl now] p
  have ok: "queue_ok ks m" and w: "queue_window ks m = spec_prune ttl now (queue_window (fst q) (snd q))"
    by auto
  have len: "length (queue_window ks m) = length ks" by (simp add: queue_window_def)
  note ins = queue_insert [OF ok, of k now]
  note ev = evict_loop_spec [of "ks @ [k]" "fmupd k now m" cap]
  show "queue_ok (fst (snd (queue_check cap ttl k now q))) (snd (snd (queue_check cap ttl k now q)))"
    using ok ins ev by (auto simp: queue_check_def p)
  show "(fst (queue_check cap ttl k now q),
          queue_window (fst (snd (queue_check cap ttl k now q))) (snd (snd (queue_check cap ttl k now q))))
       = spec_check cap ttl k now (queue_window (fst q) (snd q))"
  proof (cases "fmlookup m k")
    case None
    with queue_lookup [OF ok, of k] have "k \<notin> fst ` set (queue_window ks m)" by simp
    with None ins ev len show ?thesis
      by (simp add: queue_check_def p spec_check_def w [symmetric])
  next
    case (Some t)
    with queue_lookup [OF ok, of k] have "k \<in> fst ` set (queue_window ks m)" by simp
    with Some show ?thesis by (simp add: queue_check_def p spec_check_def w [symmetric])
  qed
qed

lemma queue_check_bound:
  assumes "queue_ok (fst q) (snd q)" and "length (fst q) \<le> cap" and "0 < cap"
  shows "length (fst (snd (queue_check cap ttl k now q))) \<le> cap"
proof -
  let ?r = "queue_check cap ttl k now q"
  have "length (fst (snd ?r)) = length (snd (spec_check cap ttl k now (queue_window (fst q) (snd q))))"
    using arg_cong [OF queue_check_spec(2) [OF assms(1), of cap ttl k now], of "\<lambda>x. length (snd x)"]
    by (simp add: queue_window_def)
  also have "\<dots> \<le> cap"
    using assms(2) length_dropWhile_le [of "expired ttl now" "queue_window (fst q) (snd q)"]
    by (auto simp: spec_check_def Let_def spec_prune_def queue_window_def)
  finally show ?thesis .
qed

end
