(* ===== verification/Pulse.thy ===== *)
theory Pulse
  imports Externals Replay_Contract
begin

text \<open>
  \<open>crates/protocol/pulse.rs\<close>: the heartbeat envelope and its binary frame, the message-security
  configuration and its validation, the verification of a heartbeat, the heartbeat replay cache
  and the validation of an incoming frame. The clock and the random source are arguments.
  A slice out of range panics in Rust; the decoder returns \<open>None\<close> for a panic, and
  \<open>decode_never_panics\<close> shows that this never happens.
\<close>

section \<open>Constants and the envelope\<close>

definition HEARTBEAT_SCHEMA_VERSION :: nat where "HEARTBEAT_SCHEMA_VERSION = 2"
definition HEARTBEAT_ENTROPY_BYTES :: nat where "HEARTBEAT_ENTROPY_BYTES = 32"
definition NS_PER_SEC :: nat where "NS_PER_SEC = 1000000000"
definition NONCE_BYTES :: nat where "NONCE_BYTES = 32"

definition HEARTBEAT_WIRE_MAGIC :: "u8 list" where
  "HEARTBEAT_WIRE_MAGIC = [0x50, 0x32, 0x50, 0x48]"

definition FIXED_WIRE_BYTES :: nat where
  "FIXED_WIRE_BYTES = length HEARTBEAT_WIRE_MAGIC + 2 + 2 + 8 + NONCE_BYTES + HEARTBEAT_ENTROPY_BYTES"

lemma length_magic: "length HEARTBEAT_WIRE_MAGIC = 4"
  by (simp add: HEARTBEAT_WIRE_MAGIC_def)

lemma fixed_wire: "FIXED_WIRE_BYTES = 80"
  by (simp add: FIXED_WIRE_BYTES_def length_magic NONCE_BYTES_def HEARTBEAT_ENTROPY_BYTES_def)

lemmas wire_consts = HEARTBEAT_SCHEMA_VERSION_def HEARTBEAT_ENTROPY_BYTES_def NONCE_BYTES_def
  length_magic fixed_wire

definition heartbeat_topic :: "nat \<Rightarrow> string" where
  "heartbeat_topic network_id =
     ''p2p-net/heartbeat/v'' @ show_nat HEARTBEAT_SCHEMA_VERSION @ ''/net-'' @ show_nat network_id"

record HeartbeatEnvelope =
  schema_version :: nat
  peer_id :: string
  timestamp_ns :: nat
  nonce_hex :: string
  entropy :: "u8 list"

definition heartbeat_new :: "'p ext \<Rightarrow> u8 list \<Rightarrow> nat \<Rightarrow> 'p \<Rightarrow> HeartbeatEnvelope" where
  "heartbeat_new E random now_ns p = \<lparr>
     schema_version = HEARTBEAT_SCHEMA_VERSION,
     peer_id = pid_to_string E p,
     timestamp_ns = now_ns,
     nonce_hex = blake3_hex E random,
     entropy = random\<rparr>"

definition collect_local_heartbeat ::
    "'p ext \<Rightarrow> u8 list \<Rightarrow> nat \<Rightarrow> 'p \<Rightarrow> net_error + HeartbeatEnvelope" where
  "collect_local_heartbeat E random now_ns p = Inr (heartbeat_new E random now_ns p)"

section \<open>The wire frame\<close>

text \<open>\<open>to_be_bytes\<close> of an integer of \<open>n\<close> bytes, and \<open>from_be_bytes\<close>.\<close>

primrec to_be_bytes :: "nat \<Rightarrow> nat \<Rightarrow> u8 list" where
  "to_be_bytes 0 v = []"
| "to_be_bytes (Suc n) v = of_nat (v div 256 ^ n) # to_be_bytes n v"

definition from_be_bytes :: "u8 list \<Rightarrow> nat" where
  "from_be_bytes bs = foldl (\<lambda>acc b. 256 * acc + unat b) 0 bs"

definition slice_range :: "'a list \<Rightarrow> nat \<Rightarrow> nat \<Rightarrow> 'a list option" where
  "slice_range xs a b = (if a \<le> b \<and> b \<le> length xs then Some (take (b - a) (drop a xs)) else None)"

definition decode_nonce :: "'p ext \<Rightarrow> string \<Rightarrow> u8 list option" where
  "decode_nonce E s = (case hex_decode E s of None \<Rightarrow> None
     | Some bs \<Rightarrow> if length bs = NONCE_BYTES then Some bs else None)"

definition encode_heartbeat_wire :: "'p ext \<Rightarrow> HeartbeatEnvelope \<Rightarrow> net_error + u8 list" where
  "encode_heartbeat_wire E env = (case pid_parse E (peer_id env) of
     Inl err \<Rightarrow> Inl (GossipCodec (''invalid heartbeat peer id: '' @ err))
   | Inr peer \<Rightarrow> (let peer_bytes = pid_to_bytes E peer in
       if 2 ^ 16 \<le> length peer_bytes then Inl (GossipCodec ''heartbeat peer id is too long'')
       else case decode_nonce E (nonce_hex env) of
         None \<Rightarrow> Inl (GossipCodec ''heartbeat nonce must be 32-byte hex'')
       | Some nonce \<Rightarrow>
           if length (entropy env) \<noteq> HEARTBEAT_ENTROPY_BYTES
           then Inl (GossipCodec (''heartbeat entropy must be '' @ show_nat HEARTBEAT_ENTROPY_BYTES @ '' bytes''))
           else Inr (HEARTBEAT_WIRE_MAGIC @ to_be_bytes 2 (schema_version env)
             @ to_be_bytes 2 (length peer_bytes) @ peer_bytes
             @ to_be_bytes 8 (timestamp_ns env) @ nonce @ entropy env)))"

definition read_uint :: "nat \<Rightarrow> u8 list \<Rightarrow> nat \<Rightarrow> net_error + nat \<times> nat" where
  "read_uint n data cursor = (case slice_range data cursor (sat_add 64 cursor n) of
     None \<Rightarrow> Inl (GossipCodec ''heartbeat frame is truncated'')
   | Some bs \<Rightarrow> if length bs = n then Inr (from_be_bytes bs, sat_add 64 cursor n)
       else Inl (GossipCodec ''heartbeat frame is truncated''))"

definition read_u16 :: "u8 list \<Rightarrow> nat \<Rightarrow> net_error + nat \<times> nat" where
  "read_u16 = read_uint 2"

definition read_u64 :: "u8 list \<Rightarrow> nat \<Rightarrow> net_error + nat \<times> nat" where
  "read_u64 = read_uint 8"

text \<open>The \<open>?\<close> operator under the panic option.\<close>

definition step_then :: "net_error + 'a \<Rightarrow> ('a \<Rightarrow> (net_error + 'b) option) \<Rightarrow> (net_error + 'b) option" where
  "step_then r f = (case r of Inl e \<Rightarrow> Some (Inl e) | Inr x \<Rightarrow> f x)"

lemma step_then_simps [simp]: "step_then (Inl e) f = Some (Inl e)" "step_then (Inr x) f = f x"
  by (simp_all add: step_then_def)

definition decode_heartbeat_body ::
    "'p ext \<Rightarrow> u8 list \<Rightarrow> nat \<Rightarrow> nat \<Rightarrow> nat \<Rightarrow> (net_error + HeartbeatEnvelope) option" where
  "decode_heartbeat_body E data schema cursor0 peer_len = (let peer_end = cursor0 + peer_len in
     Option.bind (slice_range data cursor0 peer_end) (\<lambda>peer_bytes.
     step_then (map_err (\<lambda>err. GossipCodec (''invalid heartbeat peer id bytes: '' @ err))
       (pid_from_bytes E peer_bytes)) (\<lambda>peer.
     step_then (read_u64 data peer_end) (\<lambda>(ts, cursor).
     Option.bind (slice_range data cursor (cursor + NONCE_BYTES)) (\<lambda>nonce.
     let cursor = cursor + NONCE_BYTES in
     Option.bind (slice_range data cursor (cursor + HEARTBEAT_ENTROPY_BYTES)) (\<lambda>ent.
     Some (Inr \<lparr>schema_version = schema, peer_id = pid_to_string E peer, timestamp_ns = ts,
                nonce_hex = hex_encode E nonce, entropy = ent\<rparr>)))))))"

definition decode_heartbeat_wire ::
    "'p ext \<Rightarrow> u8 list \<Rightarrow> (net_error + HeartbeatEnvelope) option" where
  "decode_heartbeat_wire E data = (
     if length data < FIXED_WIRE_BYTES then Some (Inl (GossipCodec ''heartbeat frame is truncated''))
     else Option.bind (slice_range data 0 (length HEARTBEAT_WIRE_MAGIC)) (\<lambda>magic.
     if magic \<noteq> HEARTBEAT_WIRE_MAGIC then Some (Inl (GossipCodec ''heartbeat frame magic mismatch''))
     else step_then (read_u16 data (length HEARTBEAT_WIRE_MAGIC)) (\<lambda>(schema, cursor).
     step_then (read_u16 data cursor) (\<lambda>(peer_len, cursor).
     if 2 ^ 64 \<le> FIXED_WIRE_BYTES + peer_len
     then Some (Inl (GossipCodec ''heartbeat frame length overflow''))
     else if length data \<noteq> FIXED_WIRE_BYTES + peer_len
     then Some (Inl (GossipCodec ''heartbeat frame length mismatch''))
     else decode_heartbeat_body E data schema cursor peer_len))))"

section \<open>Configuration\<close>

record ReputationConfig =
  accept_reward :: int
  invalid_penalty :: int
  decay_step :: int
  decay_interval_secs :: nat

definition reputation_config_default :: ReputationConfig where
  "reputation_config_default = \<lparr>accept_reward = 1, invalid_penalty = 5, decay_step = 1,
     decay_interval_secs = 60\<rparr>"

definition reputation_config_validate :: "ReputationConfig \<Rightarrow> net_error + unit" where
  "reputation_config_validate c = first_error [
     (accept_reward c \<le> 0,
        config_error ''message_security.reputation.accept_reward must be positive''),
     (invalid_penalty c \<le> 0,
        config_error ''message_security.reputation.invalid_penalty must be positive''),
     (decay_step c \<le> 0,
        config_error ''message_security.reputation.decay_step must be positive''),
     (decay_interval_secs c = 0,
        config_error ''message_security.reputation.decay_interval_secs must be at least 1'')]"

record MessageSecurityConfig =
  max_heartbeat_wire_bytes :: nat
  max_heartbeat_age_secs :: nat
  max_heartbeat_future_skew_secs :: nat
  replay_cache_capacity :: nat
  replay_cache_ttl_secs :: nat
  max_app_message_age_secs :: nat
  max_app_message_future_skew_secs :: nat
  app_replay_cache_capacity :: nat
  app_replay_cache_ttl_secs :: nat
  reputation :: ReputationConfig

definition message_security_default :: MessageSecurityConfig where
  "message_security_default = \<lparr>
     max_heartbeat_wire_bytes = 4096,
     max_heartbeat_age_secs = 10 * 60,
     max_heartbeat_future_skew_secs = 2 * 60,
     replay_cache_capacity = 8192,
     replay_cache_ttl_secs = 15 * 60,
     max_app_message_age_secs = 10 * 60,
     max_app_message_future_skew_secs = 2 * 60,
     app_replay_cache_capacity = 8192,
     app_replay_cache_ttl_secs = 15 * 60,
     reputation = reputation_config_default\<rparr>"

definition message_security_guards :: "MessageSecurityConfig \<Rightarrow> (bool \<times> net_error) list" where
  "message_security_guards c = [
     (max_heartbeat_wire_bytes c = 0,
        config_error ''message_security.max_heartbeat_wire_bytes must be at least 1''),
     (1024 * 1024 < max_heartbeat_wire_bytes c,
        config_error ''message_security.max_heartbeat_wire_bytes must not exceed 1048576''),
     (max_heartbeat_age_secs c = 0,
        config_error ''message_security.max_heartbeat_age_secs must be at least 1''),
     (max_heartbeat_age_secs c < max_heartbeat_future_skew_secs c,
        config_error ''message_security.max_heartbeat_future_skew_secs must be <= max_heartbeat_age_secs''),
     (replay_cache_capacity c = 0,
        config_error ''message_security.replay_cache_capacity must be at least 1''),
     (replay_cache_ttl_secs c = 0,
        config_error ''message_security.replay_cache_ttl_secs must be at least 1''),
     (replay_cache_ttl_secs c < sat_add 64 (max_heartbeat_age_secs c) (max_heartbeat_future_skew_secs c),
        config_error ''message_security.replay_cache_ttl_secs must cover max_heartbeat_age_secs + max_heartbeat_future_skew_secs''),
     (max_app_message_age_secs c = 0,
        config_error ''message_security.max_app_message_age_secs must be at least 1''),
     (max_app_message_age_secs c < max_app_message_future_skew_secs c,
        config_error ''message_security.max_app_message_future_skew_secs must be <= max_app_message_age_secs''),
     (app_replay_cache_capacity c = 0,
        config_error ''message_security.app_replay_cache_capacity must be at least 1''),
     (app_replay_cache_ttl_secs c = 0,
        config_error ''message_security.app_replay_cache_ttl_secs must be at least 1''),
     (app_replay_cache_ttl_secs c < sat_add 64 (max_app_message_age_secs c) (max_app_message_future_skew_secs c),
        config_error ''message_security.app_replay_cache_ttl_secs must cover max_app_message_age_secs + max_app_message_future_skew_secs'')]"

definition message_security_validate :: "MessageSecurityConfig \<Rightarrow> net_error + unit" where
  "message_security_validate c = (case first_error (message_security_guards c) of
     Inl e \<Rightarrow> Inl e | Inr _ \<Rightarrow> reputation_config_validate (reputation c))"

section \<open>Verification\<close>

definition fresh_within :: "nat \<Rightarrow> nat \<Rightarrow> nat \<Rightarrow> nat \<Rightarrow> bool" where
  "fresh_within max_age_secs max_skew_secs ts now_ns \<longleftrightarrow>
     \<not> sat_add 64 now_ns (sat_mul 64 max_skew_secs NS_PER_SEC) < ts \<and>
     \<not> sat_mul 64 max_age_secs NS_PER_SEC < now_ns - ts"

definition verify_heartbeat_with_config ::
    "'p ext \<Rightarrow> 'p \<Rightarrow> HeartbeatEnvelope \<Rightarrow> nat \<Rightarrow> MessageSecurityConfig \<Rightarrow> bool" where
  "verify_heartbeat_with_config E source env now_ns cfg = (
     if schema_version env \<noteq> HEARTBEAT_SCHEMA_VERSION then False
     else if peer_id env \<noteq> pid_to_string E source then False
     else if length (entropy env) \<noteq> HEARTBEAT_ENTROPY_BYTES then False
     else if list_all (\<lambda>b. b = 0) (entropy env) then False
     else case decode_nonce E (nonce_hex env) of None \<Rightarrow> False
     | Some nonce \<Rightarrow>
         if blake3 E (entropy env) \<noteq> nonce then False
         else fresh_within (max_heartbeat_age_secs cfg) (max_heartbeat_future_skew_secs cfg)
                (timestamp_ns env) now_ns)"

definition verify_heartbeat :: "'p ext \<Rightarrow> 'p \<Rightarrow> HeartbeatEnvelope \<Rightarrow> nat \<Rightarrow> bool" where
  "verify_heartbeat E source env now_ns =
     verify_heartbeat_with_config E source env now_ns message_security_default"

section \<open>The replay cache and frame validation\<close>

datatype HeartbeatValidationDecision = Accept | Reject | IgnoreDuplicate | RejectOversize

record HeartbeatValidationResult =
  decision :: HeartbeatValidationDecision
  envelope :: "HeartbeatEnvelope option"

datatype 'p HeartbeatReplayKey = HeartbeatReplayKey
  (hk_source: 'p) (hk_schema_version: nat) (hk_timestamp_ns: nat) (hk_nonce: "u8 list")

record 'p HeartbeatReplayCache =
  hb_capacity :: nat
  hb_ttl_ns :: nat
  hb_entries :: "('p HeartbeatReplayKey, nat) fmap"
  hb_order :: "'p HeartbeatReplayKey list"

definition hb_cache_new :: "MessageSecurityConfig \<Rightarrow> 'p HeartbeatReplayCache" where
  "hb_cache_new cfg = \<lparr>hb_capacity = max (replay_cache_capacity cfg) 1,
     hb_ttl_ns = sat_mul 64 (replay_cache_ttl_secs cfg) NS_PER_SEC,
     hb_entries = fmempty, hb_order = []\<rparr>"

definition replay_key :: "'p ext \<Rightarrow> 'p \<Rightarrow> HeartbeatEnvelope \<Rightarrow> 'p HeartbeatReplayKey option" where
  "replay_key E source env = (case decode_nonce E (nonce_hex env) of None \<Rightarrow> None
     | Some nonce \<Rightarrow> Some (HeartbeatReplayKey source (schema_version env) (timestamp_ns env) nonce))"

definition hb_prune :: "nat \<Rightarrow> 'p HeartbeatReplayCache \<Rightarrow> 'p HeartbeatReplayCache" where
  "hb_prune now_ns c = (let (ks, m) = prune_loop (hb_ttl_ns c) now_ns (hb_order c) (hb_entries c)
     in c\<lparr>hb_order := ks, hb_entries := m\<rparr>)"

definition hb_insert_key ::
    "'p HeartbeatReplayKey \<Rightarrow> nat \<Rightarrow> 'p HeartbeatReplayCache \<Rightarrow> bool \<times> 'p HeartbeatReplayCache" where
  "hb_insert_key key now_ns c = (
     if fmlookup (hb_entries c) key \<noteq> None then (False, c)
     else let (ks, m) = evict_loop (hb_capacity c) (hb_order c @ [key]) (fmupd key now_ns (hb_entries c))
          in (True, c\<lparr>hb_order := ks, hb_entries := m\<rparr>))"

definition hb_check_and_insert ::
    "'p ext \<Rightarrow> 'p \<Rightarrow> HeartbeatEnvelope \<Rightarrow> nat \<Rightarrow> 'p HeartbeatReplayCache
      \<Rightarrow> bool \<times> 'p HeartbeatReplayCache" where
  "hb_check_and_insert E source env now_ns c = (let c = hb_prune now_ns c in
     case replay_key E source env of None \<Rightarrow> (False, c)
     | Some key \<Rightarrow> hb_insert_key key now_ns c)"

definition validate_heartbeat_wire ::
    "'p ext \<Rightarrow> 'p \<Rightarrow> u8 list \<Rightarrow> nat \<Rightarrow> MessageSecurityConfig \<Rightarrow> 'p HeartbeatReplayCache
      \<Rightarrow> (HeartbeatValidationResult \<times> 'p HeartbeatReplayCache) option" where
  "validate_heartbeat_wire E source data now_ns cfg c = (
     if max_heartbeat_wire_bytes cfg < length data
     then Some (\<lparr>decision = RejectOversize, envelope = None\<rparr>, c)
     else case decode_heartbeat_wire E data of None \<Rightarrow> None
     | Some (Inl _) \<Rightarrow> Some (\<lparr>decision = Reject, envelope = None\<rparr>, c)
     | Some (Inr env) \<Rightarrow>
         if \<not> verify_heartbeat_with_config E source env now_ns cfg
         then Some (\<lparr>decision = Reject, envelope = Some env\<rparr>, c)
         else let (fresh, c') = hb_check_and_insert E source env now_ns c in
           if \<not> fresh then Some (\<lparr>decision = IgnoreDuplicate, envelope = Some env\<rparr>, c')
           else Some (\<lparr>decision = Accept, envelope = Some env\<rparr>, c'))"

text \<open>A node's heartbeat traffic: each incoming frame is validated against the same cache.\<close>

primrec heartbeat_session ::
    "'p ext \<Rightarrow> MessageSecurityConfig \<Rightarrow> ('p \<times> u8 list \<times> nat) list \<Rightarrow> 'p HeartbeatReplayCache
      \<Rightarrow> (HeartbeatValidationDecision list \<times> 'p HeartbeatReplayCache) option" where
  "heartbeat_session E cfg [] c = Some ([], c)"
| "heartbeat_session E cfg (ev # evs) c = (case ev of (source, data, now_ns) \<Rightarrow>
     case validate_heartbeat_wire E source data now_ns cfg c of None \<Rightarrow> None
     | Some (r, c') \<Rightarrow> (case heartbeat_session E cfg evs c' of None \<Rightarrow> None
       | Some (ds, c'') \<Rightarrow> Some (decision r # ds, c'')))"

section \<open>The frame decoder\<close>

lemma length_to_be_bytes [simp]: "length (to_be_bytes n v) = n"
  by (induction n) auto

lemma foldl_to_be_bytes:
  "foldl (\<lambda>acc b. 256 * acc + unat b) acc (to_be_bytes n v) = acc * 256 ^ n + v mod 256 ^ n"
proof (induction n arbitrary: acc)
  case (Suc n)
  have "v mod 256 ^ Suc n = 256 ^ n * (v div 256 ^ n mod 256) + v mod 256 ^ n"
    by (simp add: mod_mult2_eq [symmetric] mult.commute)
  then have "(256 * acc + v div 256 ^ n mod 256) * 256 ^ n + v mod 256 ^ n
      = acc * 256 ^ Suc n + v mod 256 ^ Suc n"
    by (simp add: algebra_simps)
  then show ?case by (simp add: Suc.IH unsigned_of_nat take_bit_eq_mod)
qed simp

lemma from_to_be_bytes: "v < 256 ^ n \<Longrightarrow> from_be_bytes (to_be_bytes n v) = v"
  by (simp add: from_be_bytes_def foldl_to_be_bytes)

lemma foldl_be_bound: "foldl (\<lambda>acc b. 256 * acc + unat (b :: u8)) acc bs < (acc + 1) * 256 ^ length bs"
proof (induction bs arbitrary: acc)
  case (Cons b bs)
  have "unat b < 256" using unsigned_less [of b] by simp
  then have "(256 * acc + unat b + 1) * 256 ^ length bs \<le> (256 * (acc + 1)) * 256 ^ length bs"
    by (intro mult_right_mono) auto
  also have "\<dots> = (acc + 1) * 256 ^ length (b # bs)" by (simp add: algebra_simps)
  finally show ?case using Cons.IH [of "256 * acc + unat b"] by simp
qed simp

lemma from_be_bytes_bound: "length bs = n \<Longrightarrow> from_be_bytes bs < 256 ^ n"
  using foldl_be_bound [of 0 bs] by (simp add: from_be_bytes_def)

lemma slice_append [simp]:
  "slice_range (pre @ xs @ post) (length pre) (length pre + length xs) = Some xs"
  by (simp add: slice_range_def)

lemma read_uint_at:
  assumes "length pre + n < 2 ^ 64" and "v < 256 ^ n"
  shows "read_uint n (pre @ to_be_bytes n v @ post) (length pre) = Inr (v, length pre + n)"
  using assms slice_append [of pre "to_be_bytes n v" post]
  by (simp add: read_uint_def sat_add_exact from_to_be_bytes del: slice_append)

lemma read_uint_ok:
  assumes "read_uint n data cursor = Inr (v, cursor')" and "cursor + n < 2 ^ 64"
  shows "cursor' = cursor + n \<and> v < 256 ^ n"
  using assms from_be_bytes_bound
  by (auto simp: read_uint_def sat_add_exact split: option.splits if_splits)

lemma decode_cases:
  assumes "\<And>e. decode_heartbeat_wire E data = Some (Inl e) \<Longrightarrow> P"
    and "\<And>schema plen peer ts.
       decode_heartbeat_wire E data = Some (Inr \<lparr>schema_version = schema,
         peer_id = pid_to_string E peer, timestamp_ns = ts,
         nonce_hex = hex_encode E (take NONCE_BYTES (drop (16 + plen) data)),
         entropy = take HEARTBEAT_ENTROPY_BYTES (drop (48 + plen) data)\<rparr>) \<Longrightarrow>
       length data = FIXED_WIRE_BYTES + plen \<Longrightarrow> schema < 2 ^ 16 \<Longrightarrow> plen < 2 ^ 16 \<Longrightarrow> ts < 2 ^ 64 \<Longrightarrow> P"
  shows P
proof (cases "length data < FIXED_WIRE_BYTES \<or> take 4 data \<noteq> HEARTBEAT_WIRE_MAGIC")
  case True
  then have "\<exists>e. decode_heartbeat_wire E data = Some (Inl e)"
    by (cases "length data < 80")
      (simp_all add: decode_heartbeat_wire_def slice_range_def wire_consts)
  then show P using assms(1) by blast
next
  case False
  then have len: "80 \<le> length data" and magic: "take 4 data = HEARTBEAT_WIRE_MAGIC"
    by (auto simp: wire_consts)
  from len obtain schema plen where
    r1: "read_u16 data 4 = Inr (schema, 6)" and r2: "read_u16 data 6 = Inr (plen, 8)"
    by (auto simp: read_u16_def read_uint_def slice_range_def sat_add_exact)
  have b: "schema < 2 ^ 16" "plen < 2 ^ 16"
    using read_uint_ok [OF r1 [unfolded read_u16_def]] read_uint_ok [OF r2 [unfolded read_u16_def]] by simp_all
  let ?dec = "decode_heartbeat_wire E data"
  have d: "?dec = (if length data \<noteq> 80 + plen then Some (Inl (GossipCodec ''heartbeat frame length mismatch''))
     else decode_heartbeat_body E data schema 8 plen)"
    using len magic b by (simp add: decode_heartbeat_wire_def wire_consts slice_range_def r1 r2)
  show P
  proof (cases "length data = 80 + plen")
    case False
    with d assms(1) show P by simp
  next
    case True
    then have r3: "\<exists>ts. read_u64 data (8 + plen) = Inr (ts, 16 + plen)"
      using b by (auto simp: read_u64_def read_uint_def slice_range_def sat_add_exact)
    then obtain ts where r3: "read_u64 data (8 + plen) = Inr (ts, 16 + plen)" ..
    have ts: "ts < 2 ^ 64" using read_uint_ok [OF r3 [unfolded read_u64_def]] b by simp
    show P
      using d True r3 b ts assms
      by (cases "pid_from_bytes E (take plen (drop 8 data))") (auto simp: decode_heartbeat_body_def slice_range_def wire_consts)
  qed
qed

lemma decode_total: "\<exists>r. decode_heartbeat_wire E data = Some r"
  by (rule decode_cases [of E data]) blast+

lemma encode_length:
  assumes "encode_heartbeat_wire E env = Inr wire" and "pid_parse E (peer_id env) = Inr p"
  shows "length wire = FIXED_WIRE_BYTES + length (pid_to_bytes E p)"
  using assms
  by (auto simp: encode_heartbeat_wire_def decode_nonce_def wire_consts Let_def split: option.splits if_splits)

lemma decode_encode:
  assumes enc: "encode_heartbeat_wire E env = Inr wire" and laws: "peer_bytes_law E"
    and w: "schema_version env < 2 ^ 16" "timestamp_ns env < 2 ^ 64"
    and p: "pid_parse E (peer_id env) = Inr p" and n: "decode_nonce E (nonce_hex env) = Some n"
  shows "decode_heartbeat_wire E wire
    = Some (Inr (env\<lparr>peer_id := pid_to_string E p, nonce_hex := hex_encode E n\<rparr>))"
proof -
  let ?pb = "pid_to_bytes E p"
  have pb: "pid_from_bytes E ?pb = Inr p" "length ?pb < 2 ^ 16"
    using laws by (auto simp: peer_bytes_law_def)
  have n32: "length n = 32" using n by (auto simp: decode_nonce_def wire_consts split: option.splits if_splits)
  from enc p n pb(2) have e32: "length (entropy env) = 32"
    and wire: "wire = HEARTBEAT_WIRE_MAGIC @ to_be_bytes 2 (schema_version env)
       @ to_be_bytes 2 (length ?pb) @ ?pb @ to_be_bytes 8 (timestamp_ns env) @ n @ entropy env"
    by (auto simp: encode_heartbeat_wire_def wire_consts Let_def split: if_splits)
  let ?m = HEARTBEAT_WIRE_MAGIC let ?s = "to_be_bytes 2 (schema_version env)"
  let ?l = "to_be_bytes 2 (length ?pb)" let ?t = "to_be_bytes 8 (timestamp_ns env)"
  have r1: "read_u16 wire 4 = Inr (schema_version env, 6)"
    using read_uint_at [of ?m 2 "schema_version env"] w by (simp add: wire read_u16_def wire_consts)
  have r2: "read_u16 wire 6 = Inr (length ?pb, 8)"
    using read_uint_at [of "?m @ ?s" 2 "length ?pb"] pb by (simp add: wire read_u16_def wire_consts)
  have r3: "read_u64 wire (8 + length ?pb) = Inr (timestamp_ns env, 16 + length ?pb)"
    using read_uint_at [of "?m @ ?s @ ?l @ ?pb" 8 "timestamp_ns env" "n @ entropy env"] w pb
    by (simp add: wire read_u64_def wire_consts)
  have s0: "slice_range wire 0 4 = Some ?m" by (simp add: wire slice_range_def wire_consts)
  have s1: "slice_range wire 8 (8 + length ?pb) = Some ?pb"
    using slice_append [of "?m @ ?s @ ?l" ?pb] by (simp add: wire wire_consts del: slice_append)
  have s2: "slice_range wire (16 + length ?pb) (16 + length ?pb + 32) = Some n"
    using slice_append [of "?m @ ?s @ ?l @ ?pb @ ?t" n] n32 by (simp add: wire wire_consts del: slice_append)
  have s3: "slice_range wire (16 + length ?pb + 32) (16 + length ?pb + 32 + 32) = Some (entropy env)"
    using slice_append [of "?m @ ?s @ ?l @ ?pb @ ?t @ n" "entropy env" "[]"] n32 e32
    by (simp add: wire wire_consts del: slice_append)
  have "length wire = 80 + length ?pb" using encode_length [OF enc p] by (simp add: wire_consts)
  then show ?thesis
    using pb s0 s1 s2 s3
    by (simp add: decode_heartbeat_wire_def decode_heartbeat_body_def wire_consts r1 r2 r3 Let_def)
qed

section \<open>The replay cache implements the window contract\<close>

definition hb_check_key ::
    "'p HeartbeatReplayKey \<Rightarrow> nat \<Rightarrow> 'p HeartbeatReplayCache \<Rightarrow> bool \<times> 'p HeartbeatReplayCache" where
  "hb_check_key key now_ns c = hb_insert_key key now_ns (hb_prune now_ns c)"

definition hb_window :: "'p HeartbeatReplayCache \<Rightarrow> ('p HeartbeatReplayKey \<times> nat) list" where
  "hb_window c = queue_window (hb_order c) (hb_entries c)"

definition hb_cache_ok :: "'p HeartbeatReplayCache \<Rightarrow> bool" where
  "hb_cache_ok c \<longleftrightarrow> queue_ok (hb_order c) (hb_entries c) \<and> 0 < hb_capacity c
     \<and> length (hb_order c) \<le> hb_capacity c"

lemma hb_check_queue:
  "hb_check_key key now c = (let (b, ks, m) = queue_check (hb_capacity c) (hb_ttl_ns c) key now (hb_order c, hb_entries c)
     in (b, c\<lparr>hb_order := ks, hb_entries := m\<rparr>))"
  by (simp add: hb_check_key_def hb_insert_key_def hb_prune_def queue_check_def split_beta Let_def)

text \<open>What a frame must pass before the cache is consulted.\<close>

definition heartbeat_admit :: "'p ext \<times> MessageSecurityConfig \<Rightarrow> 'p \<times> u8 list \<Rightarrow> nat
    \<Rightarrow> 'p HeartbeatReplayKey option" where
  "heartbeat_admit g ev now_ns = (case decode_heartbeat_wire (fst g) (snd ev) of
     Some (Inr env) \<Rightarrow>
       if length (snd ev) \<le> max_heartbeat_wire_bytes (snd g)
         \<and> verify_heartbeat_with_config (fst g) (fst ev) env now_ns (snd g)
       then replay_key (fst g) (fst ev) env else None
   | _ \<Rightarrow> None)"

lemma fresh_within_ttl:
  assumes "sat_add 64 age skew \<le> ttl" and "fresh_within age skew ts t"
    and "fresh_within age skew ts now" and "now < 2 ^ 64"
  shows "now - t \<le> sat_mul 64 ttl NS_PER_SEC"
proof (cases "2 ^ 64 \<le> ttl * NS_PER_SEC")
  case True
  then show ?thesis using assms(4) by (simp add: sat_mul_def)
next
  case False
  then have "ttl < 2 ^ 64" by (simp add: NS_PER_SEC_def)
  have "age + skew \<le> ttl"
  proof (cases "age + skew < 2 ^ 64")
    case True
    then show ?thesis using assms(1) by (simp add: sat_add_exact)
  next
    case nosat: False
    then have "sat_add 64 age skew = 2 ^ 64 - 1" by (simp add: sat_add_def)
    with assms(1) False show ?thesis by (simp add: NS_PER_SEC_def)
  qed
  have "ts \<le> t + skew * NS_PER_SEC" and "now \<le> ts + age * NS_PER_SEC"
    using assms(2,3) by (auto simp: fresh_within_def sat_simps)
  then have "now - t \<le> (age + skew) * NS_PER_SEC" by (simp add: algebra_simps)
  also have "\<dots> \<le> ttl * NS_PER_SEC" using \<open>age + skew \<le> ttl\<close> by (rule mult_right_mono) simp
  finally show ?thesis using False by (simp add: sat_mul_def)
qed

lemma validate_ttl:
  assumes "message_security_validate cfg = Inr u"
  shows "sat_add 64 (max_heartbeat_age_secs cfg) (max_heartbeat_future_skew_secs cfg) \<le> replay_cache_ttl_secs cfg"
    and "sat_add 64 (max_app_message_age_secs cfg) (max_app_message_future_skew_secs cfg) \<le> app_replay_cache_ttl_secs cfg"
    and "0 < replay_cache_capacity cfg" and "0 < app_replay_cache_capacity cfg"
proof -
  from assms have "first_error (message_security_guards cfg) = Inr ()"
    by (simp add: message_security_validate_def split: sum.splits)
  then have G: "list_all (\<lambda>g. \<not> fst g) (message_security_guards cfg)"
    by (simp only: first_error_ok)
  from G show "sat_add 64 (max_heartbeat_age_secs cfg) (max_heartbeat_future_skew_secs cfg) \<le> replay_cache_ttl_secs cfg"
    and "sat_add 64 (max_app_message_age_secs cfg) (max_app_message_future_skew_secs cfg) \<le> app_replay_cache_ttl_secs cfg"
    and "0 < replay_cache_capacity cfg" and "0 < app_replay_cache_capacity cfg"
    by (simp_all add: message_security_guards_def)
qed

interpretation hbc: replay_window hb_window hb_capacity hb_ttl_ns hb_cache_ok hb_check_key
proof
  fix c :: "'p HeartbeatReplayCache" and k now
  assume ok: "hb_cache_ok c"
  let ?q = "queue_check (hb_capacity c) (hb_ttl_ns c) k now (hb_order c, hb_entries c)"
  from ok have q: "queue_ok (fst (hb_order c, hb_entries c)) (snd (hb_order c, hb_entries c))"
    by (simp add: hb_cache_ok_def)
  note S = queue_check_spec [OF q] and B = queue_check_bound [OF q]
  show "(fst (hb_check_key k now c), hb_window (snd (hb_check_key k now c)))
      = spec_check (hb_capacity c) (hb_ttl_ns c) k now (hb_window c)"
    using S(2) [of "hb_capacity c" "hb_ttl_ns c" k now]
    by (simp add: hb_check_queue hb_window_def split_beta Let_def)
  show "hb_cache_ok (snd (hb_check_key k now c))"
    using S(1) [of "hb_capacity c" "hb_ttl_ns c" k now] B [of "hb_capacity c" "hb_ttl_ns c" k now] ok
    by (simp add: hb_check_queue hb_cache_ok_def split_beta Let_def)
  show "hb_capacity (snd (hb_check_key k now c)) = hb_capacity c"
    and "hb_ttl_ns (snd (hb_check_key k now c)) = hb_ttl_ns c"
    by (simp_all add: hb_check_queue split_beta Let_def)
  show "0 < hb_capacity c \<and> length (hb_window c) \<le> hb_capacity c"
    using ok by (simp add: hb_cache_ok_def hb_window_def queue_window_def)
qed

lemma admit_Some:
  assumes "heartbeat_admit g (src, data) now = Some k"
  obtains env where "decode_heartbeat_wire (fst g) data = Some (Inr env)"
    and "verify_heartbeat_with_config (fst g) src env now (snd g)"
    and "replay_key (fst g) src env = Some k" and "hk_timestamp_ns k = timestamp_ns env"
  using assms
  by (auto simp: heartbeat_admit_def replay_key_def split: option.splits sum.splits if_splits)

lemma verify_fresh:
  "verify_heartbeat_with_config E src env now cfg \<Longrightarrow>
     fresh_within (max_heartbeat_age_secs cfg) (max_heartbeat_future_skew_secs cfg) (timestamp_ns env) now"
  by (auto simp: verify_heartbeat_with_config_def split: if_splits option.splits)

lemma heartbeat_admit_key:
  "heartbeat_admit g ev t = Some k \<Longrightarrow> heartbeat_admit g ev t' = Some k' \<Longrightarrow> k' = k"
  by (auto simp: heartbeat_admit_def split: option.splits sum.splits if_splits)

interpretation hbg: replay_guard hb_window hb_capacity hb_ttl_ns hb_cache_ok hb_check_key
  "\<lambda>g. message_security_validate (snd g) = Inr ()" heartbeat_admit
  "\<lambda>g. sat_mul 64 (replay_cache_ttl_secs (snd g)) NS_PER_SEC"
proof
  fix g :: "'p ext \<times> MessageSecurityConfig" and e e' :: "'p \<times> u8 list" and t k now
  assume v: "message_security_validate (snd g) = Inr ()"
    and a: "heartbeat_admit g e t = Some k" "heartbeat_admit g e' now = Some k" and n: "now < 2 ^ 64"
  from a(1) obtain env where "verify_heartbeat_with_config (fst g) (fst e) env t (snd g)"
    and "hk_timestamp_ns k = timestamp_ns env" by (cases e) (auto elim: admit_Some)
  moreover from a(2) obtain env' where "verify_heartbeat_with_config (fst g) (fst e') env' now (snd g)"
    and "hk_timestamp_ns k = timestamp_ns env'" by (cases e') (auto elim: admit_Some)
  ultimately show "now - t \<le> sat_mul 64 (replay_cache_ttl_secs (snd g)) NS_PER_SEC"
    using verify_fresh fresh_within_ttl [OF validate_ttl(1) [OF v]] n by metis
qed

lemma hb_cache_new_ok:
  "hb_cache_ok (hb_cache_new cfg)" "hb_ttl_ns (hb_cache_new cfg) = sat_mul 64 (replay_cache_ttl_secs cfg) NS_PER_SEC"
  "hb_capacity (hb_cache_new cfg) = max (replay_cache_capacity cfg) 1"
  by (simp_all add: hb_cache_new_def hb_cache_ok_def queue_ok_def)

text \<open>Validating a frame is the guarded check of the contract.\<close>

lemma validate_ingest:
  obtains r where
    "validate_heartbeat_wire E src data now cfg c = Some (r, snd (hbg.ingest (E, cfg) (src, data) now c))"
    and "decision r = Accept \<longleftrightarrow> fst (hbg.ingest (E, cfg) (src, data) now c)"
proof (rule decode_cases [of E data])
  fix e assume "decode_heartbeat_wire E data = Some (Inl e)"
  with that show thesis
    by (cases "max_heartbeat_wire_bytes cfg < length data")
      (simp_all add: validate_heartbeat_wire_def hbg.ingest_def heartbeat_admit_def)
next
  fix schema plen peer ts
  let ?env = "\<lparr>schema_version = schema, peer_id = pid_to_string E peer, timestamp_ns = ts,
         nonce_hex = hex_encode E (take NONCE_BYTES (drop (16 + plen) data)),
         entropy = take HEARTBEAT_ENTROPY_BYTES (drop (48 + plen) data)\<rparr>"
  assume dec: "decode_heartbeat_wire E data = Some (Inr ?env)"
  show thesis
  proof (cases "length data \<le> max_heartbeat_wire_bytes cfg \<and> verify_heartbeat_with_config E src ?env now cfg")
    case False
    with dec that show thesis
      by (cases "max_heartbeat_wire_bytes cfg < length data")
        (simp_all add: validate_heartbeat_wire_def hbg.ingest_def heartbeat_admit_def)
  next
    case True
    then obtain nonce where "decode_nonce E (nonce_hex ?env) = Some nonce"
      by (auto simp: verify_heartbeat_with_config_def split: option.splits if_splits)
    then obtain k where k: "replay_key E src ?env = Some k" by (simp add: replay_key_def)
    with dec True have adm: "heartbeat_admit (E, cfg) (src, data) now = Some k"
      by (simp add: heartbeat_admit_def)
    obtain b c' where hk: "hb_insert_key k now (hb_prune now c) = (b, c')" by fastforce
    from dec True k that hk show thesis
      by (cases b) (simp_all add: validate_heartbeat_wire_def hbg.ingest_def adm
          hb_check_and_insert_def hb_check_key_def Let_def)
  qed
qed

definition guard_events :: "('p \<times> u8 list \<times> nat) list \<Rightarrow> (('p \<times> u8 list) \<times> nat) list" where
  "guard_events = map (\<lambda>(src, data, now). ((src, data), now))"

lemma session_guard:
  "\<exists>ds. heartbeat_session E cfg evs c = Some (ds, snd (hbg.session (E, cfg) (guard_events evs) c))
     \<and> map (\<lambda>d. d = Accept) ds = fst (hbg.session (E, cfg) (guard_events evs) c)"
proof (induction evs arbitrary: c)
  case (Cons ev evs)
  obtain src data now where ev: "ev = (src, data, now)" by (cases ev)
  from validate_ingest [of E src data now cfg c] obtain r where
    "validate_heartbeat_wire E src data now cfg c = Some (r, snd (hbg.ingest (E, cfg) (src, data) now c))"
    and "decision r = Accept \<longleftrightarrow> fst (hbg.ingest (E, cfg) (src, data) now c)" .
  with Cons.IH [of "snd (hbg.ingest (E, cfg) (src, data) now c)"] show ?case
    by (auto simp: ev guard_events_def split_beta Let_def)
qed (simp add: guard_events_def)

lemma count_accepts: "count_list (map (\<lambda>d. d = Accept) ds) True = count_list ds Accept"
  by (induction ds) auto

lemma prune_loop_absent: "fmlookup m k = None \<Longrightarrow> fmlookup (snd (prune_loop ttl now ks m)) k = None"
  by (induction ttl now ks m rule: prune_loop.induct) (auto split: option.splits)

lemma own_heartbeat:
  assumes L: "peer_text_law E" "peer_bytes_law E" "hex_law E" "blake3_law E"
    and r: "length random = HEARTBEAT_ENTROPY_BYTES" "\<not> list_all (\<lambda>b. b = 0) random" and ts: "ts < 2 ^ 64"
    and f: "fresh_within (max_heartbeat_age_secs cfg) (max_heartbeat_future_skew_secs cfg) ts now"
    and size: "FIXED_WIRE_BYTES + length (pid_to_bytes E p) \<le> max_heartbeat_wire_bytes cfg"
    and new: "fmlookup (hb_entries c)
       (HeartbeatReplayKey p HEARTBEAT_SCHEMA_VERSION ts (blake3 E random)) = None"
  obtains wire c' where "encode_heartbeat_wire E (heartbeat_new E random ts p) = Inr wire"
    and "validate_heartbeat_wire E p wire now cfg c
       = Some (\<lparr>decision = Accept, envelope = Some (heartbeat_new E random ts p)\<rparr>, c')"
proof -
  let ?env = "heartbeat_new E random ts p"
  have pt: "pid_parse E (pid_to_string E p) = Inr p" and pb: "length (pid_to_bytes E p) < 2 ^ 16"
    using L(1,2) by (simp_all add: laws)
  have n: "decode_nonce E (nonce_hex ?env) = Some (blake3 E random)"
    using L(3,4) by (simp add: laws heartbeat_new_def decode_nonce_def NONCE_BYTES_def)
  obtain wire where enc: "encode_heartbeat_wire E ?env = Inr wire"
    using pt pb n r by (simp add: encode_heartbeat_wire_def heartbeat_new_def Let_def)
  have "decode_heartbeat_wire E wire
      = Some (Inr (?env\<lparr>peer_id := pid_to_string E p, nonce_hex := hex_encode E (blake3 E random)\<rparr>))"
    using L(2) ts pt by (intro decode_encode [OF enc _ _ _ _ n])
      (simp_all add: heartbeat_new_def HEARTBEAT_SCHEMA_VERSION_def)
  also have "?env\<lparr>peer_id := pid_to_string E p, nonce_hex := hex_encode E (blake3 E random)\<rparr> = ?env"
    using L(4) by (simp add: heartbeat_new_def blake3_law_def)
  finally have dec: "decode_heartbeat_wire E wire = Some (Inr ?env)" .
  have ver: "verify_heartbeat_with_config E p ?env now cfg"
    using n r f by (simp add: verify_heartbeat_with_config_def heartbeat_new_def)
  have key: "replay_key E p ?env = Some (HeartbeatReplayKey p HEARTBEAT_SCHEMA_VERSION ts (blake3 E random))"
    using n by (simp add: replay_key_def heartbeat_new_def)
  have len: "length wire \<le> max_heartbeat_wire_bytes cfg"
    using encode_length [OF enc] pt size by (simp add: heartbeat_new_def)
  have abs: "fmlookup (hb_entries (hb_prune now c))
      (HeartbeatReplayKey p HEARTBEAT_SCHEMA_VERSION ts (blake3 E random)) = None"
    using new by (simp add: hb_prune_def split_beta prune_loop_absent)
  from enc dec ver key len abs that show thesis
    by (simp add: validate_heartbeat_wire_def hb_check_and_insert_def hb_insert_key_def Let_def split_beta)
qed

section \<open>Properties\<close>

text \<open>C2. Replay protection of heartbeats, end to end over the frame validator. Under any validated
  configuration, once a frame is accepted the same frame from the same source is never accepted
  again, however long ago the acceptance was, provided the clock does not run backwards past the
  second arrival and fewer than \<open>replay_cache_capacity\<close> heartbeats were accepted in between.
  The cache may have any history.\<close>

theorem heartbeat_no_replay:
  assumes "message_security_validate cfg = Inr ()"
    and "heartbeat_session E cfg evs0 (hb_cache_new cfg) = Some (ds0, c0)"
    and "validate_heartbeat_wire E src data t cfg c0 = Some (r1, c1)" and "decision r1 = Accept"
    and "heartbeat_session E cfg evs1 c1 = Some (ds1, c2)"
    and "\<forall>(s, x, t') \<in> set evs1. t' \<le> now" and "now < 2 ^ 64"
    and "count_list ds1 Accept < replay_cache_capacity cfg"
    and "validate_heartbeat_wire E src data now cfg c2 = Some (r2, c3)"
  shows "decision r2 \<noteq> Accept"
proof -
  let ?g = "(E, cfg)"
  note new = hb_cache_new_ok [of cfg]
  from assms(2) session_guard [of E cfg evs0 "hb_cache_new cfg"]
  have c0: "c0 = snd (hbg.session ?g (guard_events evs0) (hb_cache_new cfg))" by auto
  have ok: "hb_cache_ok c0" "hb_capacity c0 = max (replay_cache_capacity cfg) 1"
    "hb_ttl_ns c0 = sat_mul 64 (replay_cache_ttl_secs cfg) NS_PER_SEC"
    by (simp_all add: c0 hbg.session_ok(1) [OF new(1)] hbg.session_config [OF new(1)] new(2,3))
  obtain r where v1: "validate_heartbeat_wire E src data t cfg c0 = Some (r, snd (hbg.ingest ?g (src, data) t c0))"
    and "decision r = Accept \<longleftrightarrow> fst (hbg.ingest ?g (src, data) t c0)" by (rule validate_ingest)
  with assms(3,4) have c1: "c1 = snd (hbg.ingest ?g (src, data) t c0)"
    and acc: "fst (hbg.ingest ?g (src, data) t c0)" by auto
  from assms(5) session_guard [of E cfg evs1 c1]
  have c2: "c2 = snd (hbg.session ?g (guard_events evs1) c1)"
    and ds1: "map (\<lambda>d. d = Accept) ds1 = fst (hbg.session ?g (guard_events evs1) c1)" by auto
  have "\<not> fst (hbg.ingest ?g (src, data) now (snd (hbg.session ?g (guard_events evs1) (snd (hbg.ingest ?g (src, data) t c0)))))"
  proof (rule hbg.guarded_no_replay [OF _ ok(1) _ acc])
    show "\<forall>(e', t') \<in> set (guard_events evs1). t' \<le> now"
      using assms(6) by (auto simp: guard_events_def)
    show "count_list (fst (hbg.session ?g (guard_events evs1) (snd (hbg.ingest ?g (src, data) t c0)))) True < hb_capacity c0"
      using assms(8) ds1 ok(2) by (simp add: c1 [symmetric] count_accepts [symmetric])
  qed (use assms(1,7) ok(3) heartbeat_admit_key in simp_all)
  moreover obtain r' where
    "validate_heartbeat_wire E src data now cfg c2 = Some (r', snd (hbg.ingest ?g (src, data) now c2))"
    and "decision r' = Accept \<longleftrightarrow> fst (hbg.ingest ?g (src, data) now c2)" by (rule validate_ingest)
  ultimately show ?thesis using assms(9) by (simp add: c2 c1)
qed

lemma demo_validate: "message_security_validate message_security_default = Inr ()"
  by (simp add: message_security_validate_def message_security_guards_def message_security_default_def
    reputation_config_validate_def reputation_config_default_def sat_add_def)

lemma demo_heartbeat:
  obtains wire c' where
    "encode_heartbeat_wire demo_ext (heartbeat_new demo_ext (replicate 32 1) 1000 7) = Inr wire"
    and "validate_heartbeat_wire demo_ext 7 wire 1000 message_security_default (hb_cache_new message_security_default)
       = Some (\<lparr>decision = Accept, envelope = Some (heartbeat_new demo_ext (replicate 32 1) 1000 7)\<rparr>, c')"
  by (rule own_heartbeat [OF demo_laws, of "replicate 32 1" 1000 message_security_default 1000 7
        "hb_cache_new message_security_default"])
    (simp_all add: wire_consts fresh_within_def sat_simps message_security_default_def NS_PER_SEC_def
      demo_ext_def hb_cache_new_def list_all_iff)

lemma heartbeat_no_replay_witness:
  "\<exists>wire r1 c1 r2 c2. validate_heartbeat_wire demo_ext 7 wire 1000 message_security_default
       (hb_cache_new message_security_default) = Some (r1, c1) \<and> decision r1 = Accept
     \<and> validate_heartbeat_wire demo_ext 7 wire 2000 message_security_default c1 = Some (r2, c2)
     \<and> decision r2 \<noteq> Accept"
proof -
  let ?cfg = message_security_default
  obtain wire c' where v: "validate_heartbeat_wire demo_ext 7 wire 1000 ?cfg (hb_cache_new ?cfg)
      = Some (\<lparr>decision = Accept, envelope = Some (heartbeat_new demo_ext (replicate 32 1) 1000 7)\<rparr>, c')"
    by (rule demo_heartbeat)
  obtain r where v2: "validate_heartbeat_wire demo_ext 7 wire 2000 ?cfg c'
      = Some (r, snd (hbg.ingest (demo_ext, ?cfg) (7, wire) 2000 c'))" by (rule validate_ingest)
  have "decision r \<noteq> Accept"
    by (rule heartbeat_no_replay [OF demo_validate _ v _ _ _ _ _ v2, of "[]" "[]" "[]" "[]"])
      (simp_all add: message_security_default_def)
  with v v2 show ?thesis by (metis HeartbeatValidationResult.select_convs(1))
qed

text \<open>C5. Wire round trip. An envelope that encodes is decoded to itself, with its peer id and its
  nonce in canonical spelling, for any 16-bit schema version and any 64-bit timestamp.\<close>

theorem heartbeat_wire_roundtrip:
  assumes "peer_bytes_law E" and "encode_heartbeat_wire E env = Inr wire"
    and "schema_version env < 2 ^ 16" and "timestamp_ns env < 2 ^ 64"
  shows "\<exists>p n. pid_parse E (peer_id env) = Inr p \<and> hex_decode E (nonce_hex env) = Some n
    \<and> length wire = FIXED_WIRE_BYTES + length (pid_to_bytes E p)
    \<and> decode_heartbeat_wire E wire
        = Some (Inr (env\<lparr>peer_id := pid_to_string E p, nonce_hex := hex_encode E n\<rparr>))"
proof -
  from assms(2) obtain p n where p: "pid_parse E (peer_id env) = Inr p"
    and n: "decode_nonce E (nonce_hex env) = Some n"
    by (auto simp: encode_heartbeat_wire_def Let_def split: sum.splits if_splits option.splits)
  moreover have "hex_decode E (nonce_hex env) = Some n"
    using n by (auto simp: decode_nonce_def split: option.splits if_splits)
  ultimately show ?thesis
    using decode_encode [OF assms(2,1,3,4)] encode_length [OF assms(2)] by blast
qed

lemma heartbeat_wire_roundtrip_witness:
  "\<exists>wire. encode_heartbeat_wire demo_ext (heartbeat_new demo_ext (replicate 32 1) 1000 7) = Inr wire
     \<and> decode_heartbeat_wire demo_ext wire \<noteq> None"
proof -
  obtain wire where e: "encode_heartbeat_wire demo_ext (heartbeat_new demo_ext (replicate 32 1) 1000 7) = Inr wire"
    by (rule demo_heartbeat)
  from heartbeat_wire_roundtrip [OF demo_peer_bytes e]
  show ?thesis using e by (auto simp: heartbeat_new_def HEARTBEAT_SCHEMA_VERSION_def)
qed

text \<open>The frame decoder is safe on arbitrary bytes: no slice is out of range, and whatever it
  returns has a 16-bit schema version, a 64-bit timestamp, exactly 32 bytes of entropy, a nonce of
  32 bytes and the frame's exact length.\<close>

theorem decode_never_panics:
  "case decode_heartbeat_wire E data of None \<Rightarrow> False | Some (Inl _) \<Rightarrow> True
   | Some (Inr env) \<Rightarrow> schema_version env < 2 ^ 16 \<and> timestamp_ns env < 2 ^ 64
       \<and> length (entropy env) = HEARTBEAT_ENTROPY_BYTES
       \<and> (\<exists>n p. nonce_hex env = hex_encode E n \<and> length n = NONCE_BYTES \<and> peer_id env = pid_to_string E p)
       \<and> FIXED_WIRE_BYTES \<le> length data \<and> length data < FIXED_WIRE_BYTES + 2 ^ 16"
proof (rule decode_cases [of E data])
  fix schema plen peer ts
  assume d: "decode_heartbeat_wire E data = Some (Inr \<lparr>schema_version = schema,
         peer_id = pid_to_string E peer, timestamp_ns = ts,
         nonce_hex = hex_encode E (take NONCE_BYTES (drop (16 + plen) data)),
         entropy = take HEARTBEAT_ENTROPY_BYTES (drop (48 + plen) data)\<rparr>)"
    and b: "length data = FIXED_WIRE_BYTES + plen" "schema < 2 ^ 16" "plen < 2 ^ 16" "ts < 2 ^ 64"
  have "length (take NONCE_BYTES (drop (16 + plen) data)) = NONCE_BYTES"
    using b(1) by (simp add: wire_consts)
  then show ?thesis using d b by (auto simp: wire_consts)
qed simp

text \<open>C4. What acceptance of a frame guarantees: the frame is within the size limit, it decodes to an
  envelope of the current schema that names the sender, its nonce is the BLAKE3 digest of its
  (not all-zero) entropy, its timestamp is at most the configured skew ahead of and at most the
  configured age behind the local clock, its key was not in the unexpired window, and it is now.\<close>

theorem accepted_heartbeat_authentic:
  assumes "hb_cache_ok c" and "validate_heartbeat_wire E src data now cfg c = Some (r, c')"
    and "decision r = Accept"
  shows "\<exists>env key. envelope r = Some env \<and> decode_heartbeat_wire E data = Some (Inr env)
    \<and> length data \<le> max_heartbeat_wire_bytes cfg
    \<and> schema_version env = HEARTBEAT_SCHEMA_VERSION \<and> peer_id env = pid_to_string E src
    \<and> hex_decode E (nonce_hex env) = Some (blake3 E (entropy env)) \<and> (\<exists>b. b \<in> set (entropy env) \<and> b \<noteq> 0)
    \<and> timestamp_ns env \<le> now + max_heartbeat_future_skew_secs cfg * NS_PER_SEC
    \<and> now \<le> timestamp_ns env + max_heartbeat_age_secs cfg * NS_PER_SEC
    \<and> key = HeartbeatReplayKey src (schema_version env) (timestamp_ns env) (blake3 E (entropy env))
    \<and> key \<notin> fst ` set (spec_prune (hb_ttl_ns c) now (hb_window c)) \<and> (key, now) \<in> set (hb_window c')"
proof -
  from assms(2,3) obtain env where d: "decode_heartbeat_wire E data = Some (Inr env)"
    and len: "length data \<le> max_heartbeat_wire_bytes cfg" and env: "envelope r = Some env"
    and ver: "verify_heartbeat_with_config E src env now cfg"
    and chk: "hb_check_and_insert E src env now c = (True, c')"
    by (auto simp: validate_heartbeat_wire_def split: option.splits sum.splits if_splits prod.splits)
  from ver have n: "decode_nonce E (nonce_hex env) = Some (blake3 E (entropy env))"
    by (auto simp: verify_heartbeat_with_config_def split: if_splits option.splits)
  let ?k = "HeartbeatReplayKey src (schema_version env) (timestamp_ns env) (blake3 E (entropy env))"
  from chk n have ck: "hb_check_key ?k now c = (True, c')"
    by (simp add: hb_check_and_insert_def replay_key_def hb_check_key_def Let_def)
  have "?k \<notin> fst ` set (spec_prune (hb_ttl_ns c) now (hb_window c))"
    using hbc.check_window(2) [OF assms(1), of ?k now] ck by (auto simp: spec_check_def Let_def split: if_splits)
  moreover have "(?k, now) \<in> set (hb_window c')"
    using hbc.check_stores [OF assms(1), of ?k now] ck by (auto dest: kept_in_set)
  moreover have "hex_decode E (nonce_hex env) = Some (blake3 E (entropy env))"
    using n by (auto simp: decode_nonce_def split: option.splits if_splits)
  moreover have "timestamp_ns env \<le> now + max_heartbeat_future_skew_secs cfg * NS_PER_SEC"
    "now \<le> timestamp_ns env + max_heartbeat_age_secs cfg * NS_PER_SEC"
    using verify_fresh [OF ver] by (auto simp: fresh_within_def sat_simps)
  moreover have "schema_version env = HEARTBEAT_SCHEMA_VERSION" "peer_id env = pid_to_string E src"
    "\<exists>b. b \<in> set (entropy env) \<and> b \<noteq> 0"
    using ver by (auto simp: verify_heartbeat_with_config_def list_all_iff split: if_splits)
  ultimately show ?thesis using d len env by blast
qed

lemma accepted_heartbeat_authentic_witness:
  "\<exists>wire r c' env. validate_heartbeat_wire demo_ext 7 wire 1000 message_security_default
       (hb_cache_new message_security_default) = Some (r, c') \<and> decision r = Accept
     \<and> envelope r = Some env \<and> peer_id env = ''07''"
proof -
  let ?cfg = message_security_default
  obtain wire c' where v: "validate_heartbeat_wire demo_ext 7 wire 1000 ?cfg (hb_cache_new ?cfg)
      = Some (\<lparr>decision = Accept, envelope = Some (heartbeat_new demo_ext (replicate 32 1) 1000 7)\<rparr>, c')"
    by (rule demo_heartbeat)
  have "pid_to_string demo_ext 7 = ''07''" by code_simp
  moreover have "peer_id (heartbeat_new demo_ext (replicate 32 1) 1000 7) = pid_to_string demo_ext 7"
    using accepted_heartbeat_authentic [OF hb_cache_new_ok(1) v] by simp
  ultimately show ?thesis using v
    by (metis HeartbeatValidationResult.select_convs)
qed

text \<open>A node's own heartbeat is accepted by its peers: under any configuration whose size limit
  fits the frame, the heartbeat built from 32 not all-zero random bytes encodes, and a receiver
  whose clock is within the skew and age limits and whose cache does not hold the key accepts it
  and recovers exactly the sent envelope.\<close>

theorem own_heartbeat_accepted:
  assumes "peer_text_law E" and "peer_bytes_law E" and "hex_law E" and "blake3_law E"
    and "length random = HEARTBEAT_ENTROPY_BYTES" and "\<not> list_all (\<lambda>b. b = 0) random" and "ts < 2 ^ 64"
    and "fresh_within (max_heartbeat_age_secs cfg) (max_heartbeat_future_skew_secs cfg) ts now"
    and "FIXED_WIRE_BYTES + length (pid_to_bytes E p) \<le> max_heartbeat_wire_bytes cfg"
    and "fmlookup (hb_entries c) (HeartbeatReplayKey p HEARTBEAT_SCHEMA_VERSION ts (blake3 E random)) = None"
  shows "\<exists>wire c'. encode_heartbeat_wire E (heartbeat_new E random ts p) = Inr wire
    \<and> validate_heartbeat_wire E p wire now cfg c
        = Some (\<lparr>decision = Accept, envelope = Some (heartbeat_new E random ts p)\<rparr>, c')"
  by (rule own_heartbeat [OF assms]) blast

lemma own_heartbeat_accepted_witness:
  "\<exists>wire c'. encode_heartbeat_wire demo_ext (heartbeat_new demo_ext (replicate 32 1) 1000 7) = Inr wire
    \<and> validate_heartbeat_wire demo_ext 7 wire 1000 message_security_default (hb_cache_new message_security_default)
        = Some (\<lparr>decision = Accept, envelope = Some (heartbeat_new demo_ext (replicate 32 1) 1000 7)\<rparr>, c')"
  by (rule own_heartbeat_accepted [OF demo_laws])
    (simp_all add: wire_consts fresh_within_def sat_simps message_security_default_def NS_PER_SEC_def
      demo_ext_def hb_cache_new_def list_all_iff)

end
