(* ===== verification/App_Message.thy ===== *)
theory App_Message
  imports Pulse
begin

text \<open>
  \<open>crates/api/mod.rs\<close>, the application envelope: topics and their normalisation, construction,
  validation, authentication against the Gossipsub author, and the JSON codec, whose \<open>serde_json\<close>
  functions are the parameters of \<open>app_codec\<close>. Also \<open>crates/protocol/app_security.rs\<close>:
  freshness and replay protection of application messages.
\<close>

section \<open>The envelope\<close>

definition APP_MESSAGE_SCHEMA_VERSION :: nat where "APP_MESSAGE_SCHEMA_VERSION = 2"
definition APP_TOPIC_PREFIX :: string where "APP_TOPIC_PREFIX = ''p2p-net/app''"
definition MAX_APP_TOPIC_LEN :: nat where "MAX_APP_TOPIC_LEN = 128"
definition MAX_APP_MESSAGE_BYTES :: nat where "MAX_APP_MESSAGE_BYTES = 1024 * 1024"

record AppMessage =
  msg_schema_version :: nat
  msg_network_id :: nat
  msg_topic :: string
  msg_source_peer_id :: string
  msg_target_peer_id :: "string option"
  msg_timestamp_ns :: nat
  msg_nonce_hex :: string
  msg_payload :: "u8 list"

text \<open>The widths of the integer fields.\<close>

definition app_message_typed :: "AppMessage \<Rightarrow> bool" where
  "app_message_typed m \<longleftrightarrow> msg_schema_version m < 2 ^ 16 \<and> msg_network_id m < 2 ^ 32
     \<and> msg_timestamp_ns m < 2 ^ 64"

record app_codec =
  app_to_json :: "AppMessage \<Rightarrow> string + u8 list"
  app_from_json :: "u8 list \<Rightarrow> string + AppMessage"

text \<open>\<open>serde_json::to_vec\<close> succeeds on the envelope and \<open>from_slice\<close> inverts it.\<close>

definition app_json_law :: "'a app_codec_scheme \<Rightarrow> bool" where
  [laws]: "app_json_law J \<longleftrightarrow> (\<forall>m. app_message_typed m \<longrightarrow>
     (\<exists>raw. app_to_json J m = Inr raw \<and> app_from_json J raw = Inr m))"

section \<open>Topics\<close>

definition topic_byte :: "char \<Rightarrow> bool" where
  "topic_byte b \<longleftrightarrow> is_ascii_alphanumeric b \<or> b \<in> {CHR ''-'', CHR ''_'', CHR ''.'', CHR ''/''}"

definition normalize_app_topic :: "string \<Rightarrow> net_error + string" where
  "normalize_app_topic raw = (let topic = trim raw in
     if topic = [] then Inl (AppTopic topic ''topic must not be empty'')
     else if MAX_APP_TOPIC_LEN < length topic
     then Inl (AppTopic topic (''topic must not exceed '' @ show_nat MAX_APP_TOPIC_LEN @ '' bytes''))
     else if \<not> list_all topic_byte topic
     then Inl (AppTopic topic
       (''topic may only contain ASCII letters, numbers, '-', '_', '.', or '/'' @ [CHR 0x27]))
     else Inr topic)"

definition app_topic_name :: "nat \<Rightarrow> string \<Rightarrow> net_error + string" where
  "app_topic_name network_id raw = and_then (normalize_app_topic raw) (\<lambda>topic.
     Inr (APP_TOPIC_PREFIX @ ''/v'' @ show_nat APP_MESSAGE_SCHEMA_VERSION @ ''/net-''
       @ show_nat network_id @ ''/'' @ topic))"

text \<open>An \<open>IdentTopic\<close> is its name.\<close>

definition app_ident_topic :: "nat \<Rightarrow> string \<Rightarrow> net_error + string" where
  "app_ident_topic network_id topic = app_topic_name network_id topic"

section \<open>Construction, validation and authentication\<close>

definition validate_app_payload_len :: "nat \<Rightarrow> net_error + unit" where
  "validate_app_payload_len len = check_that (len \<le> MAX_APP_MESSAGE_BYTES)
     (AppMessageErr ''<unknown>'' (''message must not exceed '' @ show_nat MAX_APP_MESSAGE_BYTES @ '' bytes''))"

definition app_message_new :: "'p ext \<Rightarrow> u8 list \<Rightarrow> nat \<Rightarrow> nat \<Rightarrow> string \<Rightarrow> 'p \<Rightarrow> 'p option \<Rightarrow> u8 list
    \<Rightarrow> net_error + AppMessage" where
  "app_message_new E random now_ns network_id raw_topic source target payload =
     and_then (normalize_app_topic raw_topic) (\<lambda>topic.
     and_then (validate_app_payload_len (length payload)) (\<lambda>_.
     Inr \<lparr>msg_schema_version = APP_MESSAGE_SCHEMA_VERSION, msg_network_id = network_id,
          msg_topic = topic, msg_source_peer_id = pid_to_string E source,
          msg_target_peer_id = map_option (pid_to_string E) target,
          msg_timestamp_ns = now_ns, msg_nonce_hex = blake3_hex E random,
          msg_payload = payload\<rparr>))"

definition app_message_addressed :: "'p ext \<Rightarrow> u8 list \<Rightarrow> nat \<Rightarrow> nat \<Rightarrow> string \<Rightarrow> 'p \<Rightarrow> 'p \<Rightarrow> u8 list
    \<Rightarrow> net_error + AppMessage" where
  "app_message_addressed E random now_ns network_id topic source target payload =
     app_message_new E random now_ns network_id topic source (Some target) payload"

definition app_message_broadcast :: "'p ext \<Rightarrow> u8 list \<Rightarrow> nat \<Rightarrow> nat \<Rightarrow> string \<Rightarrow> 'p \<Rightarrow> u8 list
    \<Rightarrow> net_error + AppMessage" where
  "app_message_broadcast E random now_ns network_id topic source payload =
     app_message_new E random now_ns network_id topic source None payload"

definition is_for_peer :: "'p ext \<Rightarrow> AppMessage \<Rightarrow> 'p \<Rightarrow> bool" where
  "is_for_peer E m local_peer = (case msg_target_peer_id m of
     Some target \<Rightarrow> target = pid_to_string E local_peer | None \<Rightarrow> True)"

definition validate_app_message :: "'p ext \<Rightarrow> AppMessage \<Rightarrow> net_error + unit" where
  "validate_app_message E m =
     and_then (check_that (msg_schema_version m = APP_MESSAGE_SCHEMA_VERSION)
       (AppMessageErr (msg_topic m) (''unsupported schema version '' @ show_nat (msg_schema_version m)
          @ ''; expected '' @ show_nat APP_MESSAGE_SCHEMA_VERSION))) (\<lambda>_.
     and_then (normalize_app_topic (msg_topic m)) (\<lambda>_.
     and_then (map_err (\<lambda>err. AppMessageErr (msg_topic m) (''invalid source peer id: '' @ err))
       (pid_parse E (msg_source_peer_id m))) (\<lambda>_.
     and_then (case msg_target_peer_id m of None \<Rightarrow> Inr ()
       | Some target \<Rightarrow> and_then
           (map_err (\<lambda>err. AppMessageErr (msg_topic m) (''invalid target peer id: '' @ err))
             (pid_parse E target)) (\<lambda>_. Inr ())) (\<lambda>_.
     validate_app_payload_len (length (msg_payload m))))))"

definition validate_app_message_authentication ::
    "'p ext \<Rightarrow> AppMessage \<Rightarrow> 'p \<Rightarrow> string \<Rightarrow> net_error + unit" where
  "validate_app_message_authentication E m authenticated_source received_topic =
     and_then (map_err (\<lambda>err. AppMessageErr (msg_topic m) (''invalid source peer id: '' @ err))
       (pid_parse E (msg_source_peer_id m))) (\<lambda>claimed_source.
     and_then (check_that (claimed_source = authenticated_source) (AppMessageErr (msg_topic m)
       ''source peer id does not match authenticated Gossipsub author'')) (\<lambda>_.
     and_then (app_ident_topic (msg_network_id m) (msg_topic m)) (\<lambda>topic.
     check_that (topic_hash E topic = received_topic) (AppMessageErr (msg_topic m)
       ''application envelope does not match the authenticated Gossipsub topic''))))"

definition encode_app_message :: "'p ext \<Rightarrow> 'a app_codec_scheme \<Rightarrow> AppMessage \<Rightarrow> net_error + u8 list" where
  "encode_app_message E J m =
     and_then (validate_app_message E m) (\<lambda>_.
     and_then (map_err (AppMessageErr (msg_topic m)) (app_to_json J m)) (\<lambda>encoded.
     if 6 * MAX_APP_MESSAGE_BYTES < length encoded
     then Inl (AppMessageErr (msg_topic m) ''encoded application envelope exceeds wire safety bound'')
     else Inr encoded))"

definition decode_app_message :: "'p ext \<Rightarrow> 'a app_codec_scheme \<Rightarrow> u8 list \<Rightarrow> net_error + AppMessage" where
  "decode_app_message E J raw = (
     if 6 * MAX_APP_MESSAGE_BYTES < length raw
     then Inl (AppMessageErr ''<unknown>'' ''encoded application envelope exceeds wire safety bound'')
     else and_then (map_err (AppMessageErr ''<unknown>'') (app_from_json J raw)) (\<lambda>m.
       and_then (validate_app_message E m) (\<lambda>_. Inr m)))"

section \<open>Freshness and replay of application messages\<close>

definition APP_NONCE_BYTES :: nat where "APP_NONCE_BYTES = 32"

datatype AppMessageSecurityDecision = AppAccept | AppReject | AppIgnoreDuplicate

datatype 'p AppReplayKey = AppReplayKey (ak_source: 'p) (ak_timestamp_ns: nat) (ak_nonce: "u8 list")

record 'p AppMessageReplayCache =
  app_capacity :: nat
  app_ttl_ns :: nat
  app_entries :: "('p AppReplayKey, nat) fmap"
  app_order :: "'p AppReplayKey list"

definition app_cache_new :: "MessageSecurityConfig \<Rightarrow> 'p AppMessageReplayCache" where
  "app_cache_new cfg = \<lparr>app_capacity = max (app_replay_cache_capacity cfg) 1,
     app_ttl_ns = sat_mul 64 (app_replay_cache_ttl_secs cfg) NS_PER_SEC,
     app_entries = fmempty, app_order = []\<rparr>"

definition app_prune :: "nat \<Rightarrow> 'p AppMessageReplayCache \<Rightarrow> 'p AppMessageReplayCache" where
  "app_prune now_ns c = (let (ks, m) = prune_loop (app_ttl_ns c) now_ns (app_order c) (app_entries c)
     in c\<lparr>app_order := ks, app_entries := m\<rparr>)"

definition app_check_and_insert :: "'p AppReplayKey \<Rightarrow> nat \<Rightarrow> 'p AppMessageReplayCache
    \<Rightarrow> bool \<times> 'p AppMessageReplayCache" where
  "app_check_and_insert key now_ns c0 = (let c = app_prune now_ns c0 in
     if fmlookup (app_entries c) key \<noteq> None then (False, c)
     else let (ks, m) = evict_loop (app_capacity c) (app_order c @ [key]) (fmupd key now_ns (app_entries c))
          in (True, c\<lparr>app_order := ks, app_entries := m\<rparr>))"

definition app_decode_nonce :: "'p ext \<Rightarrow> string \<Rightarrow> u8 list option" where
  "app_decode_nonce E s = (
     if length s \<noteq> APP_NONCE_BYTES * 2 then None
     else case hex_decode E s of None \<Rightarrow> None
     | Some bs \<Rightarrow> if length bs = APP_NONCE_BYTES then Some bs else None)"

definition validate_app_message_security ::
    "'p ext \<Rightarrow> 'p \<Rightarrow> AppMessage \<Rightarrow> nat \<Rightarrow> MessageSecurityConfig \<Rightarrow> 'p AppMessageReplayCache
      \<Rightarrow> AppMessageSecurityDecision \<times> 'p AppMessageReplayCache" where
  "validate_app_message_security E source m now_ns cfg c = (
     case app_decode_nonce E (msg_nonce_hex m) of None \<Rightarrow> (AppReject, c)
     | Some nonce \<Rightarrow>
         if list_all (\<lambda>b. b = 0) nonce then (AppReject, c)
         else if \<not> fresh_within (max_app_message_age_secs cfg) (max_app_message_future_skew_secs cfg)
                (msg_timestamp_ns m) now_ns then (AppReject, c)
         else let (fresh, c') = app_check_and_insert (AppReplayKey source (msg_timestamp_ns m) nonce) now_ns c
              in if \<not> fresh then (AppIgnoreDuplicate, c') else (AppAccept, c'))"

primrec app_session :: "'p ext \<Rightarrow> MessageSecurityConfig \<Rightarrow> ('p \<times> AppMessage \<times> nat) list
    \<Rightarrow> 'p AppMessageReplayCache \<Rightarrow> AppMessageSecurityDecision list \<times> 'p AppMessageReplayCache" where
  "app_session E cfg [] c = ([], c)"
| "app_session E cfg (ev # evs) c = (case ev of (source, m, now_ns) \<Rightarrow>
     let (d, c') = validate_app_message_security E source m now_ns cfg c;
         (ds, c'') = app_session E cfg evs c' in (d # ds, c''))"

section \<open>Lemmas on topics and validation\<close>

lemma topic_byte_visible: "topic_byte c \<Longrightarrow> visible_char c"
  by (auto simp: topic_byte_def is_ascii_alphanumeric_def visible_char_def Let_def)

lemma normalize_Inr:
  "normalize_app_topic raw = Inr t \<longleftrightarrow>
     t = trim raw \<and> t \<noteq> [] \<and> length t \<le> MAX_APP_TOPIC_LEN \<and> list_all topic_byte t"
  by (auto simp: normalize_app_topic_def Let_def)

lemma normalize_idem: "normalize_app_topic raw = Inr t \<Longrightarrow> normalize_app_topic t = Inr t"
  by (auto simp: normalize_Inr list_all_iff topic_byte_visible intro!: trim_visible [symmetric])

lemma show_nat_no_slash: "CHR ''/'' \<notin> set (show_nat n)"
  using show_nat_digits [of "CHR ''/''" n] by auto

lemma takeWhile_upto: "x \<notin> set xs \<Longrightarrow> takeWhile (\<lambda>c. c \<noteq> x) (xs @ x # ys) = xs"
  by (induction xs) auto

lemma split_at_slash:
  assumes "CHR ''/'' \<notin> set xs" and "CHR ''/'' \<notin> set xs'" and "xs @ ''/'' @ ys = xs' @ ''/'' @ ys'"
  shows "xs = xs' \<and> ys = ys'"
proof -
  have "xs = takeWhile (\<lambda>c. c \<noteq> CHR ''/'') (xs @ ''/'' @ ys)" using assms(1) by (simp add: takeWhile_upto)
  also have "\<dots> = xs'" using assms(2,3) by (simp add: takeWhile_upto)
  finally show ?thesis using assms(3) by simp
qed

lemma validate_app_message_Inr:
  "validate_app_message E m = Inr u \<longleftrightarrow>
     msg_schema_version m = APP_MESSAGE_SCHEMA_VERSION \<and> (\<exists>t. normalize_app_topic (msg_topic m) = Inr t)
     \<and> (\<exists>p. pid_parse E (msg_source_peer_id m) = Inr p)
     \<and> (\<forall>target. msg_target_peer_id m = Some target \<longrightarrow> (\<exists>p. pid_parse E target = Inr p))
     \<and> length (msg_payload m) \<le> MAX_APP_MESSAGE_BYTES"
  by (auto simp: validate_app_message_def validate_app_payload_len_def split: option.split)

lemma new_valid:
  assumes "peer_text_law E" and "app_message_new E random now net raw src target payload = Inr m"
  shows "validate_app_message E m = Inr ()"
  using assms normalize_idem
  by (auto simp: validate_app_message_Inr app_message_new_def validate_app_payload_len_def peer_text_law_def)

section \<open>The application replay cache implements the window contract\<close>

definition app_window :: "'p AppMessageReplayCache \<Rightarrow> ('p AppReplayKey \<times> nat) list" where
  "app_window c = queue_window (app_order c) (app_entries c)"

definition app_cache_ok :: "'p AppMessageReplayCache \<Rightarrow> bool" where
  "app_cache_ok c \<longleftrightarrow> queue_ok (app_order c) (app_entries c) \<and> 0 < app_capacity c
     \<and> length (app_order c) \<le> app_capacity c"

lemma app_check_queue:
  "app_check_and_insert key now c = (let (b, ks, m) = queue_check (app_capacity c) (app_ttl_ns c) key now
       (app_order c, app_entries c) in (b, c\<lparr>app_order := ks, app_entries := m\<rparr>))"
  by (simp add: app_check_and_insert_def app_prune_def queue_check_def split_beta Let_def)

interpretation appc: replay_window app_window app_capacity app_ttl_ns app_cache_ok app_check_and_insert
proof
  fix c :: "'p AppMessageReplayCache" and k now
  assume ok: "app_cache_ok c"
  from ok have q: "queue_ok (fst (app_order c, app_entries c)) (snd (app_order c, app_entries c))"
    by (simp add: app_cache_ok_def)
  note S = queue_check_spec [OF q] and B = queue_check_bound [OF q]
  show "(fst (app_check_and_insert k now c), app_window (snd (app_check_and_insert k now c)))
      = spec_check (app_capacity c) (app_ttl_ns c) k now (app_window c)"
    using S(2) [of "app_capacity c" "app_ttl_ns c" k now]
    by (simp add: app_check_queue app_window_def split_beta Let_def)
  show "app_cache_ok (snd (app_check_and_insert k now c))"
    using S(1) [of "app_capacity c" "app_ttl_ns c" k now] B [of "app_capacity c" "app_ttl_ns c" k now] ok
    by (simp add: app_check_queue app_cache_ok_def split_beta Let_def)
  show "app_capacity (snd (app_check_and_insert k now c)) = app_capacity c"
    and "app_ttl_ns (snd (app_check_and_insert k now c)) = app_ttl_ns c"
    by (simp_all add: app_check_queue split_beta Let_def)
  show "0 < app_capacity c \<and> length (app_window c) \<le> app_capacity c"
    using ok by (simp add: app_cache_ok_def app_window_def queue_window_def)
qed

definition app_admit :: "'p ext \<times> MessageSecurityConfig \<Rightarrow> 'p \<times> AppMessage \<Rightarrow> nat \<Rightarrow> 'p AppReplayKey option" where
  "app_admit g ev now_ns = (case app_decode_nonce (fst g) (msg_nonce_hex (snd ev)) of None \<Rightarrow> None
     | Some nonce \<Rightarrow> if \<not> list_all (\<lambda>b. b = 0) nonce \<and> fresh_within (max_app_message_age_secs (snd g))
           (max_app_message_future_skew_secs (snd g)) (msg_timestamp_ns (snd ev)) now_ns
         then Some (AppReplayKey (fst ev) (msg_timestamp_ns (snd ev)) nonce) else None)"

interpretation appg: replay_guard app_window app_capacity app_ttl_ns app_cache_ok app_check_and_insert
  "\<lambda>g. message_security_validate (snd g) = Inr ()" app_admit
  "\<lambda>g. sat_mul 64 (app_replay_cache_ttl_secs (snd g)) NS_PER_SEC"
proof
  fix g :: "'p ext \<times> MessageSecurityConfig" and e e' :: "'p \<times> AppMessage" and t k now
  assume v: "message_security_validate (snd g) = Inr ()"
    and a: "app_admit g e t = Some k" "app_admit g e' now = Some k" and n: "now < 2 ^ 64"
  from a have "fresh_within (max_app_message_age_secs (snd g)) (max_app_message_future_skew_secs (snd g))
      (ak_timestamp_ns k) t"
    and "fresh_within (max_app_message_age_secs (snd g)) (max_app_message_future_skew_secs (snd g))
      (ak_timestamp_ns k) now"
    by (auto simp: app_admit_def split: option.splits if_splits)
  with fresh_within_ttl [OF validate_ttl(2) [OF v]] n
  show "now - t \<le> sat_mul 64 (app_replay_cache_ttl_secs (snd g)) NS_PER_SEC" by blast
qed

lemma app_security_ingest:
  "snd (validate_app_message_security E src m now cfg c) = snd (appg.ingest (E, cfg) (src, m) now c)"
  "fst (validate_app_message_security E src m now cfg c) = AppAccept \<longleftrightarrow> fst (appg.ingest (E, cfg) (src, m) now c)"
  by (simp_all add: validate_app_message_security_def appg.ingest_def app_admit_def split_beta Let_def
      split: option.split)

definition app_guard_events :: "('p \<times> AppMessage \<times> nat) list \<Rightarrow> (('p \<times> AppMessage) \<times> nat) list" where
  "app_guard_events = map (\<lambda>(src, m, now). ((src, m), now))"

lemma app_session_guard:
  "snd (app_session E cfg evs c) = snd (appg.session (E, cfg) (app_guard_events evs) c) \<and>
   map (\<lambda>d. d = AppAccept) (fst (app_session E cfg evs c)) = fst (appg.session (E, cfg) (app_guard_events evs) c)"
  by (induction evs arbitrary: c)
    (auto simp: app_guard_events_def split_beta Let_def app_security_ingest)

lemma app_cache_new_ok:
  "app_cache_ok (app_cache_new cfg)" "app_ttl_ns (app_cache_new cfg) = sat_mul 64 (app_replay_cache_ttl_secs cfg) NS_PER_SEC"
  "app_capacity (app_cache_new cfg) = max (app_replay_cache_capacity cfg) 1"
  by (simp_all add: app_cache_new_def app_cache_ok_def queue_ok_def)

lemma count_app_accepts: "count_list (map (\<lambda>d. d = AppAccept) ds) True = count_list ds AppAccept"
  by (induction ds) auto

section \<open>Properties\<close>

lemma demo_chat_topic: "normalize_app_topic ''chat'' = Inr ''chat''"
proof -
  have "\<forall>c\<in>set ''chat''. visible_char c" by (simp add: visible_char_def)
  then have "trim ''chat'' = ''chat''" by (rule trim_visible)
  then show ?thesis
    by (simp add: normalize_Inr MAX_APP_TOPIC_LEN_def topic_byte_def is_ascii_alphanumeric_def)
qed

text \<open>Replay protection of application messages. Under any validated configuration, after a
  message is accepted no message of the same source with the same timestamp and the same decoded
  nonce is accepted again, whatever its payload and however its nonce is spelled, provided the
  clock does not run backwards past the second arrival and fewer than
  \<open>app_replay_cache_capacity\<close> messages were accepted in between.\<close>

theorem app_no_replay:
  assumes "message_security_validate cfg = Inr ()"
    and "app_session E cfg evs0 (app_cache_new cfg) = (ds0, c0)"
    and "validate_app_message_security E src m t cfg c0 = (AppAccept, c1)"
    and "app_session E cfg evs1 c1 = (ds1, c2)"
    and "\<forall>(s, x, t') \<in> set evs1. t' \<le> now" and "now < 2 ^ 64"
    and "count_list ds1 AppAccept < app_replay_cache_capacity cfg"
    and "msg_timestamp_ns m' = msg_timestamp_ns m"
    and "app_decode_nonce E (msg_nonce_hex m') = app_decode_nonce E (msg_nonce_hex m)"
  shows "fst (validate_app_message_security E src m' now cfg c2) \<noteq> AppAccept"
proof -
  let ?g = "(E, cfg)"
  note new = app_cache_new_ok [of cfg]
  from assms(2) app_session_guard [of E cfg evs0 "app_cache_new cfg"]
  have c0: "c0 = snd (appg.session ?g (app_guard_events evs0) (app_cache_new cfg))" by auto
  have ok: "app_cache_ok c0" "app_capacity c0 = max (app_replay_cache_capacity cfg) 1"
    "app_ttl_ns c0 = sat_mul 64 (app_replay_cache_ttl_secs cfg) NS_PER_SEC"
    by (simp_all add: c0 appg.session_ok(1) [OF new(1)] appg.session_config [OF new(1)] new(2,3))
  from assms(3) app_security_ingest [of E src m t cfg c0]
  have c1: "c1 = snd (appg.ingest ?g (src, m) t c0)" and acc: "fst (appg.ingest ?g (src, m) t c0)" by auto
  from assms(4) app_session_guard [of E cfg evs1 c1]
  have c2: "c2 = snd (appg.session ?g (app_guard_events evs1) c1)"
    and ds1: "map (\<lambda>d. d = AppAccept) ds1 = fst (appg.session ?g (app_guard_events evs1) c1)" by auto
  have "\<not> fst (appg.ingest ?g (src, m') now (snd (appg.session ?g (app_guard_events evs1)
      (snd (appg.ingest ?g (src, m) t c0)))))"
  proof (rule appg.guarded_no_replay [OF _ ok(1) _ acc])
    show "\<And>k k'. app_admit ?g (src, m) t = Some k \<Longrightarrow> app_admit ?g (src, m') now = Some k' \<Longrightarrow> k' = k"
      using assms(8,9) by (auto simp: app_admit_def split: option.splits if_splits)
    show "\<forall>(e', t') \<in> set (app_guard_events evs1). t' \<le> now"
      using assms(5) by (auto simp: app_guard_events_def)
    show "count_list (fst (appg.session ?g (app_guard_events evs1) (snd (appg.ingest ?g (src, m) t c0)))) True
        < app_capacity c0"
      using assms(7) ds1 ok(2) by (simp add: c1 [symmetric] count_app_accepts [symmetric])
  qed (use assms(1,6) ok(3) in simp_all)
  then show ?thesis by (simp add: c2 c1 app_security_ingest)
qed

definition demo_message :: AppMessage where
  "demo_message = \<lparr>msg_schema_version = 2, msg_network_id = 1, msg_topic = ''chat'',
     msg_source_peer_id = pid_to_string demo_ext 7, msg_target_peer_id = None, msg_timestamp_ns = 1000,
     msg_nonce_hex = demo_hex (replicate 32 1), msg_payload = [1, 2, 3]\<rparr>"

lemma length_demo_hex: "length (demo_hex bs) = 2 * length bs"
  by (induction bs) auto

lemma demo_message_nonce: "app_decode_nonce demo_ext (msg_nonce_hex demo_message) = Some (replicate 32 1)"
proof -
  have "length (demo_hex (replicate 32 1)) = 64" by (simp only: length_demo_hex length_replicate)
  moreover have "demo_unhex (demo_hex (replicate 32 1)) = Some (replicate 32 1)" by (rule demo_unhex_hex)
  ultimately show ?thesis
    by (simp only: app_decode_nonce_def demo_message_def AppMessage.simps demo_ext_def ext.simps APP_NONCE_BYTES_def) simp
qed

lemma demo_message_accepted:
  "fst (validate_app_message_security demo_ext 7 demo_message 1000 message_security_default
     (app_cache_new message_security_default)) = AppAccept"
proof -
  have f: "fresh_within (max_app_message_age_secs message_security_default)
      (max_app_message_future_skew_secs message_security_default) (msg_timestamp_ns demo_message) 1000"
    by (simp add: fresh_within_def demo_message_def message_security_default_def sat_simps NS_PER_SEC_def)
  have z: "\<not> list_all (\<lambda>b. b = 0) (replicate 32 (1 :: u8))" by (simp add: list_all_iff)
  show ?thesis
    by (simp only: validate_app_message_security_def demo_message_nonce option.case z f)
      (simp add: app_check_and_insert_def app_prune_def app_cache_new_def split_beta Let_def)
qed

lemma app_no_replay_witness:
  "\<exists>c1. validate_app_message_security demo_ext 7 demo_message 1000 message_security_default
       (app_cache_new message_security_default) = (AppAccept, c1)
     \<and> fst (validate_app_message_security demo_ext 7 (demo_message\<lparr>msg_payload := [9]\<rparr>) 2000
         message_security_default c1) \<noteq> AppAccept"
proof -
  let ?cfg = message_security_default
  obtain c1 where a: "validate_app_message_security demo_ext 7 demo_message 1000 ?cfg (app_cache_new ?cfg) = (AppAccept, c1)"
    using demo_message_accepted by (metis prod.collapse)
  have "fst (validate_app_message_security demo_ext 7 (demo_message\<lparr>msg_payload := [9]\<rparr>) 2000 ?cfg c1) \<noteq> AppAccept"
    by (rule app_no_replay [OF demo_validate _ a, of "[]" "[]" "[]" "[]"])
      (simp_all add: message_security_default_def)
  with a show ?thesis by blast
qed

text \<open>Topic names separate networks and topics: two Gossipsub topic names are equal only for the
  same network id and the same normalised topic. In particular no choice of topic, which may
  contain slashes and digits, reaches another network.\<close>

theorem app_topic_name_injective:
  assumes "app_topic_name n raw = Inr s" and "app_topic_name n' raw' = Inr s"
  shows "n = n' \<and> normalize_app_topic raw = normalize_app_topic raw'"
proof -
  from assms obtain t t' where t: "normalize_app_topic raw = Inr t" "normalize_app_topic raw' = Inr t'"
    and "show_nat n @ ''/'' @ t = show_nat n' @ ''/'' @ t'"
    by (auto simp: app_topic_name_def)
  from split_at_slash [OF show_nat_no_slash show_nat_no_slash this(3)] t
  show ?thesis by (simp add: show_nat_inject)
qed

lemma app_topic_name_injective_witness:
  "\<exists>s. app_topic_name 7 ''chat'' = Inr s \<and> (\<forall>n raw. app_topic_name n raw \<noteq> Inr s \<or> n = 7)"
proof -
  obtain s where "app_topic_name 7 ''chat'' = Inr s" by (simp add: app_topic_name_def demo_chat_topic)
  then show ?thesis using app_topic_name_injective by blast
qed

text \<open>Normalisation of topics is canonical: its results are exactly its fixed points, and these are
  the non-empty strings of at most 128 bytes over letters, digits and the four punctuation bytes.\<close>

theorem normalize_app_topic_canonical:
  "(\<exists>raw. normalize_app_topic raw = Inr t) = (normalize_app_topic t = Inr t)
   \<and> (normalize_app_topic t = Inr t) = (t \<noteq> [] \<and> length t \<le> 128 \<and> list_all topic_byte t)"
  by (auto simp: normalize_Inr MAX_APP_TOPIC_LEN_def list_all_iff topic_byte_visible
      dest: normalize_idem intro: trim_visible [symmetric] normalize_idem)

text \<open>A message the node builds is always acceptable to its peers: it validates, it survives the
  JSON codec unchanged whenever the encoding is within the wire bound, it authenticates as its
  author on its own topic, and it is addressed to exactly the given target (or to everyone).\<close>

theorem app_message_new_delivers:
  assumes "peer_text_law E" and "app_json_law J" and "net < 2 ^ 32" and "now < 2 ^ 64"
    and "app_message_new E random now net raw src target payload = Inr m"
    and "encode_app_message E J m = Inr wire" and "app_topic_name net raw = Inr topic"
  shows "decode_app_message E J wire = Inr m
    \<and> validate_app_message_authentication E m src (topic_hash E topic) = Inr ()
    \<and> is_for_peer E m p = (target = None \<or> target = Some p)"
proof -
  note v = new_valid [OF assms(1,5)]
  from assms(5) obtain t where t: "normalize_app_topic raw = Inr t" and m: "msg_topic m = t"
    "msg_source_peer_id m = pid_to_string E src" "msg_network_id m = net"
    "msg_target_peer_id m = map_option (pid_to_string E) target" "app_message_typed m"
    using assms(3,4) by (auto simp: app_message_new_def app_message_typed_def APP_MESSAGE_SCHEMA_VERSION_def)
  from assms(2,6) m(5) have "app_from_json J wire = Inr m" "length wire \<le> 6 * MAX_APP_MESSAGE_BYTES"
    by (auto simp: encode_app_message_def app_json_law_def split: if_splits)
  with v have "decode_app_message E J wire = Inr m" by (simp add: decode_app_message_def)
  moreover have "validate_app_message_authentication E m src (topic_hash E topic) = Inr ()"
    using assms(1,7) m normalize_idem [OF t] t
    by (simp add: validate_app_message_authentication_def app_ident_topic_def app_topic_name_def peer_text_law_def)
  moreover have "is_for_peer E m p = (target = None \<or> target = Some p)"
    using m(4) peer_text_inject [OF assms(1)] by (cases target) (auto simp: is_for_peer_def)
  ultimately show ?thesis by blast
qed

definition demo_put :: "AppMessage \<Rightarrow> u8 list" where
  "demo_put m = put_nat 0 @ put_nat (msg_schema_version m) @ put_nat (msg_network_id m) @ put_str (msg_topic m)
     @ put_str (msg_source_peer_id m) @ put_opt (msg_target_peer_id m) @ put_nat (msg_timestamp_ns m)
     @ put_str (msg_nonce_hex m) @ put_bytes (msg_payload m)"

definition demo_get :: "u8 list \<Rightarrow> string + AppMessage" where
  "demo_get bs = (let (tag, bs) = get_nat bs; (sv, bs) = get_nat bs; (net, bs) = get_nat bs; (topic, bs) = get_str bs;
     (src, bs) = get_str bs; (target, bs) = get_opt bs; (ts, bs) = get_nat bs; (nonce, bs) = get_str bs;
     (payload, bs) = get_bytes bs in
     if tag = 0 \<and> bs = [] then Inr \<lparr>msg_schema_version = sv, msg_network_id = net, msg_topic = topic,
       msg_source_peer_id = src, msg_target_peer_id = target, msg_timestamp_ns = ts, msg_nonce_hex = nonce,
       msg_payload = payload\<rparr> else Inl ''unknown field'')"

lemma demo_get_put: "demo_get (demo_put m) = Inr m"
  using get_put_bytes [of "msg_payload m" "[]"] by (simp add: demo_get_def demo_put_def del: get_put_bytes)

definition demo_app_codec :: app_codec where
  "demo_app_codec = \<lparr>app_to_json = (\<lambda>m. Inr (demo_put m)), app_from_json = demo_get\<rparr>"

lemma demo_app_json: "app_json_law demo_app_codec"
  by (simp add: laws demo_app_codec_def demo_get_put)

lemma app_message_new_delivers_witness:
  "\<exists>m wire. app_message_new demo_ext (replicate 32 1) 5 1 ''chat'' 7 (Some 9) [1, 2] = Inr m
     \<and> encode_app_message demo_ext demo_app_codec m = Inr wire
     \<and> decode_app_message demo_ext demo_app_codec wire = Inr m
     \<and> is_for_peer demo_ext m 9 \<and> \<not> is_for_peer demo_ext m 8"
proof -
  obtain m where m: "app_message_new demo_ext (replicate 32 1) 5 1 ''chat'' 7 (Some 9) [1, 2] = Inr m"
    by (simp add: app_message_new_def demo_chat_topic validate_app_payload_len_def MAX_APP_MESSAGE_BYTES_def)
  have v: "validate_app_message demo_ext m = Inr ()" by (rule new_valid [OF demo_peer_text m])
  have "length (demo_put m) \<le> 6 * MAX_APP_MESSAGE_BYTES"
    using m by (auto simp: app_message_new_def demo_chat_topic demo_put_def put_nat_def put_str_def put_bytes_def
      put_opt_def demo_ext_def length_demo_hex MAX_APP_MESSAGE_BYTES_def APP_MESSAGE_SCHEMA_VERSION_def)
  with v have e: "encode_app_message demo_ext demo_app_codec m = Inr (demo_put m)"
    by (simp add: encode_app_message_def demo_app_codec_def)
  obtain topic where t: "app_topic_name 1 ''chat'' = Inr topic" by (simp add: app_topic_name_def demo_chat_topic)
  from app_message_new_delivers [OF demo_peer_text demo_app_json _ _ m e t, of 9]
    app_message_new_delivers [OF demo_peer_text demo_app_json _ _ m e t, of 8] m e
  show ?thesis by auto
qed

text \<open>Authentication binds the envelope: it succeeds exactly when the claimed source parses to the
  Gossipsub author and the topic the message arrived on is the one its network id and topic name;
  so one envelope authenticates for at most one author and one topic.\<close>

theorem authentication_binds:
  "(validate_app_message_authentication E m author received = Inr ()) =
     (pid_parse E (msg_source_peer_id m) = Inr author
      \<and> (\<exists>topic. app_topic_name (msg_network_id m) (msg_topic m) = Inr topic \<and> received = topic_hash E topic))"
  by (auto simp: validate_app_message_authentication_def app_ident_topic_def)

end
