(* ===== verification/Fragmentation.thy ===== *)
theory Fragmentation
  imports App_Message
begin

text \<open>
  \<open>crates/api/fragmentation.rs\<close>: splitting a large application message into fragments, the
  validation of a received fragment, and the bounded reassembler. Instants are nanoseconds;
  \<open>push\<close> reads the clock once in \<open>expire\<close> and once when it creates an entry, so it takes
  two times. Indexing out of range and a failed \<open>expect\<close> panic in Rust: \<open>push\<close> returns
  \<open>None\<close> then, and \<open>push_safe\<close> shows this cannot happen for validated fragments.
\<close>

section \<open>Fragments\<close>

definition APP_FRAGMENT_SCHEMA_VERSION :: nat where "APP_FRAGMENT_SCHEMA_VERSION = 1"
definition APP_FRAGMENT_PAYLOAD_BYTES :: nat where "APP_FRAGMENT_PAYLOAD_BYTES = 16 * 1024"

definition div_ceil :: "nat \<Rightarrow> nat \<Rightarrow> nat" where
  "div_ceil a b = (a + b - 1) div b"

definition MAX_APP_FRAGMENTS :: nat where
  "MAX_APP_FRAGMENTS = div_ceil MAX_APP_MESSAGE_BYTES APP_FRAGMENT_PAYLOAD_BYTES"

definition MAX_FRAGMENT_WIRE_BYTES :: nat where "MAX_FRAGMENT_WIRE_BYTES = 128 * 1024"
definition MAX_REASSEMBLY_BYTES_PER_PEER :: nat where
  "MAX_REASSEMBLY_BYTES_PER_PEER = 2 * MAX_APP_MESSAGE_BYTES"
definition MAX_REASSEMBLY_BYTES_GLOBAL :: nat where
  "MAX_REASSEMBLY_BYTES_GLOBAL = 8 * MAX_APP_MESSAGE_BYTES"
definition FRAGMENT_EXPIRY :: nat where "FRAGMENT_EXPIRY = 30 * NS_PER_SEC"

record AppFragment =
  fr_fragment_schema_version :: nat
  fr_message_schema_version :: nat
  fr_network_id :: nat
  fr_topic :: string
  fr_source_peer_id :: string
  fr_target_peer_id :: "string option"
  fr_timestamp_ns :: nat
  fr_nonce_hex :: string
  fr_payload_hash_hex :: string
  fr_payload_len :: nat
  fr_index :: nat
  fr_total :: nat
  fr_payload :: "u8 list"

record frag_codec = app_codec +
  frag_to_json :: "AppFragment \<Rightarrow> string + u8 list"
  frag_from_json :: "u8 list \<Rightarrow> string + AppFragment"

function chunks :: "nat \<Rightarrow> 'a list \<Rightarrow> 'a list list" where
  "chunks n xs = (if n = 0 \<or> xs = [] then [] else take n xs # chunks n (drop n xs))"
  by auto
termination by (relation "measure (length \<circ> snd)") auto

declare chunks.simps [simp del]

text \<open>\<open>collect\<close> into a \<open>Result\<close>: the first error wins.\<close>

primrec collect_results :: "('e + 'a) list \<Rightarrow> 'e + 'a list" where
  "collect_results [] = Inr []"
| "collect_results (r # rs) = and_then r (\<lambda>x. and_then (collect_results rs) (\<lambda>xs. Inr (x # xs)))"

definition make_fragment :: "'p ext \<Rightarrow> AppMessage \<Rightarrow> nat \<Rightarrow> u8 list \<Rightarrow> AppFragment" where
  "make_fragment E m index payload = \<lparr>
     fr_fragment_schema_version = APP_FRAGMENT_SCHEMA_VERSION,
     fr_message_schema_version = msg_schema_version m,
     fr_network_id = msg_network_id m,
     fr_topic = msg_topic m,
     fr_source_peer_id = msg_source_peer_id m,
     fr_target_peer_id = msg_target_peer_id m,
     fr_timestamp_ns = msg_timestamp_ns m,
     fr_nonce_hex = msg_nonce_hex m,
     fr_payload_hash_hex = blake3_hex E (msg_payload m),
     fr_payload_len = length (msg_payload m),
     fr_index = index,
     fr_total = div_ceil (length (msg_payload m)) APP_FRAGMENT_PAYLOAD_BYTES,
     fr_payload = payload\<rparr>"

definition encode_fragment :: "'a frag_codec_scheme \<Rightarrow> string \<Rightarrow> AppFragment \<Rightarrow> net_error + u8 list" where
  "encode_fragment J topic f = and_then (map_err (AppMessageErr topic) (frag_to_json J f)) (\<lambda>wire.
     if MAX_FRAGMENT_WIRE_BYTES < length wire
     then Inl (AppMessageErr topic ''encoded fragment exceeds wire bound'') else Inr wire)"

definition fragment_message :: "'p ext \<Rightarrow> 'a frag_codec_scheme \<Rightarrow> AppMessage \<Rightarrow> net_error + u8 list list" where
  "fragment_message E J m = and_then (validate_app_message E m) (\<lambda>_.
     if length (msg_payload m) \<le> APP_FRAGMENT_PAYLOAD_BYTES
     then and_then (encode_app_message E J m) (\<lambda>wire. Inr [wire])
     else let n_total = div_ceil (length (msg_payload m)) APP_FRAGMENT_PAYLOAD_BYTES in
       if n_total = 0 \<or> MAX_APP_FRAGMENTS < n_total
       then Inl (AppMessageErr (msg_topic m) ''fragment count exceeds bounded maximum'')
       else collect_results (map (\<lambda>(index, payload). encode_fragment J (msg_topic m) (make_fragment E m index payload))
              (enumerate 0 (chunks APP_FRAGMENT_PAYLOAD_BYTES (msg_payload m)))))"

definition expected_len :: "nat \<Rightarrow> nat \<Rightarrow> nat \<Rightarrow> nat" where
  "expected_len payload_len n_total index =
     (if index + 1 = n_total then payload_len - APP_FRAGMENT_PAYLOAD_BYTES * (n_total - 1)
      else APP_FRAGMENT_PAYLOAD_BYTES)"

definition validate_fragment :: "'p ext \<Rightarrow> AppFragment \<Rightarrow> net_error + unit" where
  "validate_fragment E f = (let err = AppMessageErr (fr_topic f) in
     and_then (check_that (fr_fragment_schema_version f = APP_FRAGMENT_SCHEMA_VERSION
         \<and> fr_message_schema_version f = APP_MESSAGE_SCHEMA_VERSION)
       (err ''unsupported fragment/message schema version'')) (\<lambda>_.
     and_then (normalize_app_topic (fr_topic f)) (\<lambda>_.
     and_then (map_err (\<lambda>e. err (''invalid fragment source peer id: '' @ e))
       (pid_parse E (fr_source_peer_id f))) (\<lambda>_.
     and_then (case fr_target_peer_id f of None \<Rightarrow> Inr ()
       | Some target \<Rightarrow> and_then (map_err (\<lambda>e. err (''invalid fragment target peer id: '' @ e))
           (pid_parse E target)) (\<lambda>_. Inr ())) (\<lambda>_.
     and_then (check_that (fr_payload_len f \<le> MAX_APP_MESSAGE_BYTES
         \<and> APP_FRAGMENT_PAYLOAD_BYTES < fr_payload_len f) (err ''invalid fragmented payload length'')) (\<lambda>_.
     and_then (check_that (fr_total f = div_ceil (fr_payload_len f) APP_FRAGMENT_PAYLOAD_BYTES
         \<and> fr_total f \<noteq> 0 \<and> fr_total f \<le> MAX_APP_FRAGMENTS \<and> fr_index f < fr_total f)
       (err ''invalid fragment index/total'')) (\<lambda>_.
     and_then (check_that (length (fr_payload f) = expected_len (fr_payload_len f) (fr_total f) (fr_index f))
       (err ''fragment payload length does not match index/total'')) (\<lambda>_.
     check_that (length (fr_payload_hash_hex f) = 64 \<and> list_all is_ascii_hexdigit (fr_payload_hash_hex f))
       (err ''invalid fragment payload hash'')))))))))"

definition decode_fragment :: "'p ext \<Rightarrow> 'a frag_codec_scheme \<Rightarrow> u8 list \<Rightarrow> net_error + AppFragment" where
  "decode_fragment E J raw = (
     if MAX_FRAGMENT_WIRE_BYTES < length raw
     then Inl (AppMessageErr ''<unknown>'' ''fragment wire exceeds bound'')
     else and_then (map_err (AppMessageErr ''<unknown>'') (frag_from_json J raw)) (\<lambda>f.
       and_then (validate_fragment E f) (\<lambda>_. Inr f)))"

section \<open>The reassembler\<close>

text \<open>\<open>ReassemblyKey\<close>: author, nonce and topic.\<close>

type_synonym 'p ReassemblyKey = "'p \<times> string \<times> string"

record ReassemblyEntry =
  re_fragment :: AppFragment
  re_chunks :: "u8 list option list"
  re_bytes :: nat
  re_created :: nat

record 'p AppFragmentReassembler =
  re_entries :: "('p ReassemblyKey, ReassemblyEntry) fmap"
  re_peer_bytes :: "('p, nat) fmap"
  re_global_bytes :: nat

definition reassembler_default :: "'p AppFragmentReassembler" where
  "reassembler_default = \<lparr>re_entries = fmempty, re_peer_bytes = fmempty, re_global_bytes = 0\<rparr>"

definition same_message :: "AppFragment \<Rightarrow> AppFragment \<Rightarrow> bool" where
  "same_message a b \<longleftrightarrow>
     fr_message_schema_version a = fr_message_schema_version b
     \<and> fr_network_id a = fr_network_id b
     \<and> fr_topic a = fr_topic b
     \<and> fr_source_peer_id a = fr_source_peer_id b
     \<and> fr_target_peer_id a = fr_target_peer_id b
     \<and> fr_timestamp_ns a = fr_timestamp_ns b
     \<and> fr_nonce_hex a = fr_nonce_hex b
     \<and> fr_payload_hash_hex a = fr_payload_hash_hex b
     \<and> fr_payload_len a = fr_payload_len b
     \<and> fr_total a = fr_total b"

text \<open>Taking one entry out and returning its bytes to the two budgets, as \<open>expire\<close> and the
  completion of a message both do.\<close>

definition release_entry :: "'p ReassemblyKey \<Rightarrow> 'p AppFragmentReassembler \<Rightarrow> 'p AppFragmentReassembler" where
  "release_entry key st = (case fmlookup (re_entries st) key of None \<Rightarrow> st
     | Some entry \<Rightarrow> st\<lparr>re_entries := fmdrop key (re_entries st),
         re_global_bytes := re_global_bytes st - re_bytes entry,
         re_peer_bytes := (case fmlookup (re_peer_bytes st) (fst key) of None \<Rightarrow> re_peer_bytes st
           | Some bytes \<Rightarrow> fmupd (fst key) (bytes - re_bytes entry) (re_peer_bytes st))\<rparr>)"

definition is_expired :: "nat \<Rightarrow> ReassemblyEntry \<Rightarrow> bool" where
  "is_expired now entry \<longleftrightarrow> FRAGMENT_EXPIRY \<le> now - re_created entry"

definition expire :: "nat \<Rightarrow> 'p::linorder AppFragmentReassembler \<Rightarrow> 'p AppFragmentReassembler" where
  "expire now st = (
     let expired = sorted_list_of_fset (fmdom (fmretain (\<lambda>_ entry. is_expired now entry) (re_entries st)));
         st' = fold release_entry expired st
     in st'\<lparr>re_peer_bytes := fmretain (\<lambda>_ bytes. 0 < bytes) (re_peer_bytes st')\<rparr>)"

definition new_entry :: "nat \<Rightarrow> AppFragment \<Rightarrow> ReassemblyEntry" where
  "new_entry created f = \<lparr>re_fragment = f, re_chunks = replicate (fr_total f) None,
     re_bytes = 0, re_created = created\<rparr>"

definition entry_for :: "nat \<Rightarrow> AppFragment \<Rightarrow> 'p ReassemblyKey \<Rightarrow> 'p AppFragmentReassembler \<Rightarrow> ReassemblyEntry" where
  "entry_for created f key st = (case fmlookup (re_entries st) key of Some e \<Rightarrow> e | None \<Rightarrow> new_entry created f)"

definition peer_bytes_of :: "'p AppFragmentReassembler \<Rightarrow> 'p \<Rightarrow> nat" where
  "peer_bytes_of st p = (case fmlookup (re_peer_bytes st) p of None \<Rightarrow> 0 | Some b \<Rightarrow> b)"

definition store_chunk :: "'p ReassemblyKey \<Rightarrow> AppFragment \<Rightarrow> ReassemblyEntry \<Rightarrow> 'p AppFragmentReassembler
    \<Rightarrow> 'p AppFragmentReassembler" where
  "store_chunk key f entry st = st\<lparr>
     re_global_bytes := sat_add 64 (re_global_bytes st) (length (fr_payload f)),
     re_peer_bytes := fmupd (fst key) (sat_add 64 (peer_bytes_of st (fst key)) (length (fr_payload f))) (re_peer_bytes st),
     re_entries := fmupd key (entry\<lparr>re_bytes := sat_add 64 (re_bytes entry) (length (fr_payload f)),
       re_chunks := (re_chunks entry)[fr_index f := Some (fr_payload f)]\<rparr>) (re_entries st)\<rparr>"

definition finish_message :: "'p ext \<Rightarrow> ReassemblyEntry \<Rightarrow> net_error + AppMessage option" where
  "finish_message E entry = (let f = re_fragment entry; payload = concat (map the (re_chunks entry)) in
     if length payload \<noteq> fr_payload_len f \<or> blake3_hex E payload \<noteq> fr_payload_hash_hex f
     then Inl (AppMessageErr (fr_topic f) ''reassembled payload hash mismatch'')
     else let m = \<lparr>msg_schema_version = fr_message_schema_version f, msg_network_id = fr_network_id f,
            msg_topic = fr_topic f, msg_source_peer_id = fr_source_peer_id f,
            msg_target_peer_id = fr_target_peer_id f, msg_timestamp_ns = fr_timestamp_ns f,
            msg_nonce_hex = fr_nonce_hex f, msg_payload = payload\<rparr>
          in and_then (validate_app_message E m) (\<lambda>_. Inr (Some m)))"

definition fragment_key :: "'p \<Rightarrow> AppFragment \<Rightarrow> 'p ReassemblyKey" where
  "fragment_key author f = (author, fr_nonce_hex f, fr_topic f)"

definition push :: "'p::linorder ext \<Rightarrow> nat \<Rightarrow> nat \<Rightarrow> 'p \<Rightarrow> AppFragment \<Rightarrow> 'p AppFragmentReassembler
    \<Rightarrow> ((net_error + AppMessage option) \<times> 'p AppFragmentReassembler) option" where
  "push E now created author f st0 = (let st = expire now st0; err = AppMessageErr (fr_topic f) in
     if fr_source_peer_id f \<noteq> pid_to_string E author
     then Some (Inl (err ''fragment source does not match authenticated Gossipsub author''), st)
     else let key = fragment_key author f; len = length (fr_payload f) in
     if MAX_REASSEMBLY_BYTES_PER_PEER < sat_add 64 (peer_bytes_of st author) len
        \<or> MAX_REASSEMBLY_BYTES_GLOBAL < sat_add 64 (re_global_bytes st) len
     then Some (Inl (err ''fragment reassembly memory ceiling exceeded''), st)
     else let entry = entry_for created f key st; st = st\<lparr>re_entries := fmupd key entry (re_entries st)\<rparr> in
     if \<not> same_message (re_fragment entry) f then Some (Inl (err ''fragment metadata mismatch''), st)
     else if length (re_chunks entry) \<le> fr_index f then None
     else if re_chunks entry ! fr_index f \<noteq> None then Some (Inr None, st)
     else let st = store_chunk key f entry st in
     case fmlookup (re_entries st) key of None \<Rightarrow> None
     | Some entry \<Rightarrow> if None \<in> set (re_chunks entry) then Some (Inr None, st)
         else Some (finish_message E entry, release_entry key st))"

text \<open>Fragments arriving one after the other, each with the times its \<open>push\<close> reads.\<close>

primrec push_all :: "'p::linorder ext \<Rightarrow> (nat \<times> nat \<times> 'p \<times> AppFragment) list \<Rightarrow> 'p AppFragmentReassembler
    \<Rightarrow> ((net_error + AppMessage option) list \<times> 'p AppFragmentReassembler) option" where
  "push_all E [] st = Some ([], st)"
| "push_all E (ev # evs) st = (case ev of (now, created, author, f) \<Rightarrow>
     Option.bind (push E now created author f st) (\<lambda>(r, st').
     Option.bind (push_all E evs st') (\<lambda>(rs, st''). Some (r # rs, st''))))"

section \<open>Splitting\<close>

lemma chunks_Nil [simp]: "chunks n [] = []" "chunks 0 xs = []"
  by (simp_all add: chunks.simps)

lemma chunks_step: "0 < n \<Longrightarrow> xs \<noteq> [] \<Longrightarrow> chunks n xs = take n xs # chunks n (drop n xs)"
  by (subst chunks.simps) simp

lemma div_ceil_step:
  assumes "0 < n" and "0 < l"
  shows "div_ceil l n = Suc (div_ceil (l - n) n)"
proof (cases "n \<le> l")
  case True
  then have e: "l + n - 1 = (l - n + n - 1) + n" using assms by linarith
  have "(l + n - 1) div n = Suc ((l - n + n - 1) div n)"
    by (subst e) (use assms(1) in \<open>simp only: div_add_self2 neq0_conv Suc_eq_plus1\<close>)
  then show ?thesis by (simp only: div_ceil_def)
next
  case False
  then have "(l + n - 1) div n = 1" using assms by (intro div_nat_eqI) auto
  then show ?thesis using assms False by (simp add: div_ceil_def)
qed

lemma length_chunks: "0 < n \<Longrightarrow> length (chunks n xs) = div_ceil (length xs) n"
proof (induction n xs rule: chunks.induct)
  case (1 n xs)
  show ?case
  proof (cases "xs = []")
    case True
    then show ?thesis using 1(2) by (simp add: div_ceil_def)
  next
    case False
    then show ?thesis
      using 1 by (simp add: chunks_step div_ceil_step [of n "length xs"])
  qed
qed

lemma concat_chunks: "0 < n \<Longrightarrow> concat (chunks n xs) = xs"
proof (induction n xs rule: chunks.induct)
  case (1 n xs)
  then show ?case by (cases "xs = []") (simp_all add: chunks_step)
qed

lemma chunks_nth: "i < length (chunks n xs) \<Longrightarrow> chunks n xs ! i = take n (drop (i * n) xs)"
proof (induction n xs arbitrary: i rule: chunks.induct)
  case (1 n xs)
  show ?case
  proof (cases "n = 0 \<or> xs = []")
    case True
    then show ?thesis using 1(2) by auto
  next
    case False
    then have c: "chunks n xs = take n xs # chunks n (drop n xs)" by (simp add: chunks_step)
    show ?thesis
    proof (cases i)
      case 0
      then show ?thesis by (simp add: c)
    next
      case (Suc j)
      then have "j < length (chunks n (drop n xs))" using 1(2) by (simp add: c)
      with 1(1) [OF False this] Suc show ?thesis by (simp add: c add.commute)
    qed
  qed
qed

lemma chunk_lengths:
  assumes "i < length (chunks APP_FRAGMENT_PAYLOAD_BYTES xs)"
  shows "length (chunks APP_FRAGMENT_PAYLOAD_BYTES xs ! i)
    = expected_len (length xs) (length (chunks APP_FRAGMENT_PAYLOAD_BYTES xs)) i"
proof -
  let ?k = "length (chunks APP_FRAGMENT_PAYLOAD_BYTES xs)"
  have n: "APP_FRAGMENT_PAYLOAD_BYTES = 16384" by (simp add: APP_FRAGMENT_PAYLOAD_BYTES_def)
  have "?k = (length xs + 16383) div 16384"
    using length_chunks [of APP_FRAGMENT_PAYLOAD_BYTES xs] by (simp add: div_ceil_def n)
  then have "length xs \<le> ?k * 16384" and "?k * 16384 < length xs + 16384" by linarith+
  moreover have "length (chunks APP_FRAGMENT_PAYLOAD_BYTES xs ! i) = min 16384 (length xs - i * 16384)"
    by (simp only: chunks_nth [OF assms]) (simp add: n)
  ultimately show ?thesis using assms unfolding expected_len_def n by (auto simp: min_def)
qed

section \<open>The reassembler invariant\<close>

lemma validate_fragment_Inr:
  "validate_fragment E f = Inr u \<longleftrightarrow>
     fr_fragment_schema_version f = APP_FRAGMENT_SCHEMA_VERSION
     \<and> fr_message_schema_version f = APP_MESSAGE_SCHEMA_VERSION
     \<and> (\<exists>t. normalize_app_topic (fr_topic f) = Inr t) \<and> (\<exists>p. pid_parse E (fr_source_peer_id f) = Inr p)
     \<and> (\<forall>target. fr_target_peer_id f = Some target \<longrightarrow> (\<exists>p. pid_parse E target = Inr p))
     \<and> fr_payload_len f \<le> MAX_APP_MESSAGE_BYTES \<and> APP_FRAGMENT_PAYLOAD_BYTES < fr_payload_len f
     \<and> fr_total f = div_ceil (fr_payload_len f) APP_FRAGMENT_PAYLOAD_BYTES \<and> fr_total f \<noteq> 0
     \<and> fr_total f \<le> MAX_APP_FRAGMENTS \<and> fr_index f < fr_total f
     \<and> length (fr_payload f) = expected_len (fr_payload_len f) (fr_total f) (fr_index f)
     \<and> length (fr_payload_hash_hex f) = 64 \<and> list_all is_ascii_hexdigit (fr_payload_hash_hex f)"
  by (auto simp: validate_fragment_def Let_def split: option.split)

definition chunk_bytes :: "u8 list option list \<Rightarrow> nat" where
  "chunk_bytes cs = sum_list (map (case_option 0 length) cs)"

text \<open>An entry that may be complete, and one that is waiting for chunks.\<close>

definition entry_wf :: "'p ext \<Rightarrow> 'p ReassemblyKey \<Rightarrow> ReassemblyEntry \<Rightarrow> bool" where
  "entry_wf E key e \<longleftrightarrow> (let f = re_fragment e in
     validate_fragment E f = Inr () \<and> key = fragment_key (fst key) f
     \<and> fr_source_peer_id f = pid_to_string E (fst key) \<and> length (re_chunks e) = fr_total f
     \<and> (\<forall>i c. i < fr_total f \<longrightarrow> re_chunks e ! i = Some c \<longrightarrow>
           length c = expected_len (fr_payload_len f) (fr_total f) i)
     \<and> re_bytes e = chunk_bytes (re_chunks e))"

definition entry_ok :: "'p ext \<Rightarrow> 'p ReassemblyKey \<Rightarrow> ReassemblyEntry \<Rightarrow> bool" where
  "entry_ok E key e \<longleftrightarrow> entry_wf E key e \<and> None \<in> set (re_chunks e)"

definition peer_total :: "('p ReassemblyKey, ReassemblyEntry) fmap \<Rightarrow> 'p \<Rightarrow> nat" where
  "peer_total es p = fmsum re_bytes (fmfilter (\<lambda>k. fst k = p) es)"

text \<open>The two counters are exactly the bytes held.\<close>

definition accounted :: "'p AppFragmentReassembler \<Rightarrow> bool" where
  "accounted st \<longleftrightarrow> re_global_bytes st = fmsum re_bytes (re_entries st)
     \<and> (\<forall>p. peer_bytes_of st p = peer_total (re_entries st) p)"

definition within_ceilings :: "'p AppFragmentReassembler \<Rightarrow> bool" where
  "within_ceilings st \<longleftrightarrow> re_global_bytes st \<le> MAX_REASSEMBLY_BYTES_GLOBAL
     \<and> (\<forall>p. peer_bytes_of st p \<le> MAX_REASSEMBLY_BYTES_PER_PEER)"

definition reassembler_ok :: "'p ext \<Rightarrow> 'p AppFragmentReassembler \<Rightarrow> bool" where
  "reassembler_ok E st \<longleftrightarrow> (\<forall>k e. fmlookup (re_entries st) k = Some e \<longrightarrow> entry_ok E k e)
     \<and> accounted st \<and> within_ceilings st"

lemma reassembler_okD: "reassembler_ok E st \<Longrightarrow> fmlookup (re_entries st) k = Some e \<Longrightarrow> entry_ok E k e"
  unfolding reassembler_ok_def by blast

lemma reassembler_okI:
  "(\<And>k e. fmlookup (re_entries st) k = Some e \<Longrightarrow> entry_ok E k e) \<Longrightarrow> accounted st \<Longrightarrow> within_ceilings st
     \<Longrightarrow> reassembler_ok E st"
  unfolding reassembler_ok_def by blast

lemma peer_total_drop:
  "fmlookup es key = Some e \<Longrightarrow>
     peer_total (fmdrop key es) p = peer_total es p - (if fst key = p then re_bytes e else 0)"
  by (auto simp: peer_total_def fmfilter_fmdrop fmsum_fmdrop)

lemma peer_total_upd:
  "peer_total (fmupd key e es) p = (if fst key = p then re_bytes e else 0) + peer_total (fmdrop key es) p"
  by (auto simp: peer_total_def fmfilter_fmupd fmsum_upd fmfilter_fmdrop fmdrop_absent)

lemma release_None: "fmlookup (re_entries st) key = None \<Longrightarrow> release_entry key st = st"
  by (simp add: release_entry_def)

lemma release_Some:
  assumes "fmlookup (re_entries st) key = Some e"
  shows "re_global_bytes (release_entry key st) = re_global_bytes st - re_bytes e"
    and "peer_bytes_of (release_entry key st) p
      = peer_bytes_of st p - (if fst key = p then re_bytes e else 0)"
  using assms by (auto simp: release_entry_def peer_bytes_of_def split: option.split)

lemma release_entries: "re_entries (release_entry key st) = fmdrop key (re_entries st)"
  by (cases "fmlookup (re_entries st) key") (simp_all add: release_entry_def fmdrop_absent)

lemma accounted_release:
  assumes "accounted st"
  shows "accounted (release_entry key st)"
proof (cases "fmlookup (re_entries st) key")
  case None
  then show ?thesis using assms by (simp add: release_None)
next
  case (Some e)
  then show ?thesis
    using assms by (simp add: accounted_def release_entries release_Some fmsum_fmdrop peer_total_drop)
qed

lemma fold_release:
  "accounted st \<Longrightarrow> accounted (fold release_entry ks st) \<and>
     re_entries (fold release_entry ks st) = fmfilter (\<lambda>k. k \<notin> set ks) (re_entries st)"
proof (induction ks arbitrary: st)
  case Nil
  then show ?case by (simp add: fmfilter_true)
next
  case (Cons k ks)
  have e: "fmfilter (\<lambda>x. x \<notin> set ks) (fmdrop k (re_entries st)) = fmfilter (\<lambda>x. x \<notin> set (k # ks)) (re_entries st)"
    by (rule fmap_ext) auto
  from Cons.IH [OF accounted_release [OF Cons.prems, of k]] show ?case
    unfolding release_entries e by simp
qed

lemma expire_spec:
  assumes "accounted st"
  shows "accounted (expire now st)"
    and "re_entries (expire now st) = fmretain (\<lambda>_ e. \<not> is_expired now e) (re_entries st)"
proof -
  let ?ks = "sorted_list_of_fset (fmdom (fmretain (\<lambda>_ e. is_expired now e) (re_entries st)))"
  let ?st = "fold release_entry ?ks st"
  note F = fold_release [OF assms, of ?ks]
  have p: "peer_bytes_of (?st\<lparr>re_peer_bytes := fmretain (\<lambda>_ b. 0 < b) (re_peer_bytes ?st)\<rparr>) q = peer_bytes_of ?st q" for q
    by (auto simp: peer_bytes_of_def split: option.splits)
  show "accounted (expire now st)" using F by (simp add: expire_def Let_def accounted_def p)
  have "fmfilter (\<lambda>k. k \<notin> set ?ks) (re_entries st) = fmretain (\<lambda>_ e. \<not> is_expired now e) (re_entries st)"
    by (rule fmap_ext) (auto simp: fmlookup_dom_iff split: option.splits)
  then show "re_entries (expire now st) = fmretain (\<lambda>_ e. \<not> is_expired now e) (re_entries st)"
    using F by (simp add: expire_def Let_def)
qed

lemma fmretain_fmfilter: "\<exists>Q. fmretain P m = fmfilter Q m"
  by (auto simp: fmretain_def)

lemma expire_shrinks:
  assumes "accounted st"
  shows "re_global_bytes (expire now st) \<le> re_global_bytes st"
    and "peer_bytes_of (expire now st) p \<le> peer_bytes_of st p"
proof -
  obtain Q where Q: "re_entries (expire now st) = fmfilter Q (re_entries st)"
    using expire_spec(2) [OF assms] fmretain_fmfilter by metis
  note A = expire_spec(1) [OF assms, of now]
  show "re_global_bytes (expire now st) \<le> re_global_bytes st"
    using A assms fmsum_fmfilter_le [of re_bytes Q] by (simp add: accounted_def Q)
  have c: "fmfilter (\<lambda>k. fst k = p) (fmfilter Q (re_entries st)) = fmfilter Q (fmfilter (\<lambda>k. fst k = p) (re_entries st))"
    by (rule fmap_ext) auto
  have "peer_total (re_entries (expire now st)) p \<le> peer_total (re_entries st) p"
    unfolding peer_total_def Q c by (rule fmsum_fmfilter_le)
  then show "peer_bytes_of (expire now st) p \<le> peer_bytes_of st p"
    using A assms by (simp add: accounted_def)
qed

lemma expire_ok: "reassembler_ok E st \<Longrightarrow> reassembler_ok E (expire now st)"
  using expire_spec [of st now] order_trans [OF expire_shrinks(1) [of st now]]
    order_trans [OF expire_shrinks(2) [of st now]]
  by (fastforce simp: reassembler_ok_def within_ceilings_def split: option.splits if_splits)

lemma chunk_bytes_None [simp]: "chunk_bytes (replicate n None) = 0"
  by (simp add: chunk_bytes_def)

lemma chunk_bytes_update:
  assumes "i < length cs" and "cs ! i = None"
  shows "chunk_bytes (cs[i := Some c]) = chunk_bytes cs + length c"
  using assms by (simp add: chunk_bytes_def map_update sum_list_update)

lemma same_message_refl [simp]: "same_message f f"
  by (simp add: same_message_def)

definition current_entry :: "'p ext \<Rightarrow> 'p ReassemblyKey \<Rightarrow> ReassemblyEntry \<Rightarrow> 'p AppFragmentReassembler \<Rightarrow> bool" where
  "current_entry E key e st \<longleftrightarrow> entry_ok E key e
     \<and> fmsum re_bytes (re_entries st) = re_bytes e + fmsum re_bytes (fmdrop key (re_entries st))
     \<and> peer_total (re_entries st) (fst key) = re_bytes e + peer_total (fmdrop key (re_entries st)) (fst key)"

lemma entry_for_current:
  assumes ok: "reassembler_ok E st" and v: "validate_fragment E f = Inr ()"
    and src: "fr_source_peer_id f = pid_to_string E author"
  shows "current_entry E (fragment_key author f) (entry_for created f (fragment_key author f) st) st"
proof (cases "fmlookup (re_entries st) (fragment_key author f)")
  case None
  have "fr_total f \<noteq> 0" using v by (simp add: validate_fragment_Inr)
  then have "entry_ok E (fragment_key author f) (new_entry created f)"
    using v src by (simp add: entry_ok_def entry_wf_def new_entry_def fragment_key_def Let_def)
  then show ?thesis
    using None by (simp add: current_entry_def entry_for_def fmdrop_absent new_entry_def)
next
  case (Some e)
  have "re_bytes e \<le> peer_total (re_entries st) (fst (fragment_key author f))"
    unfolding peer_total_def by (rule fmsum_le [of _ "fragment_key author f"]) (use Some in auto)
  moreover have "entry_ok E (fragment_key author f) e" using reassembler_okD [OF ok Some] .
  ultimately show ?thesis
    using Some by (simp add: current_entry_def entry_for_def peer_total_drop fmsum_remove)
qed

lemma store_entry_wf:
  assumes "entry_ok E (fragment_key author f) e" and "same_message (re_fragment e) f"
    and "validate_fragment E f = Inr ()" and "re_chunks e ! fr_index f = None"
    and "re_bytes e + length (fr_payload f) < 2 ^ 64"
  shows "entry_wf E (fragment_key author f) (e\<lparr>re_bytes := sat_add 64 (re_bytes e) (length (fr_payload f)),
       re_chunks := (re_chunks e)[fr_index f := Some (fr_payload f)]\<rparr>)"
proof -
  have i: "fr_index f < fr_total f" and l: "length (fr_payload f) = expected_len (fr_payload_len f) (fr_total f) (fr_index f)"
    using assms(3) by (simp_all add: validate_fragment_Inr)
  have s: "fr_payload_len (re_fragment e) = fr_payload_len f" "fr_total (re_fragment e) = fr_total f"
    using assms(2) by (simp_all add: same_message_def)
  show ?thesis
    using assms(1,4,5) i l s
    by (auto simp: entry_ok_def entry_wf_def Let_def sat_add_exact chunk_bytes_update nth_list_update)
qed

lemma accounted_store:
  assumes acc: "accounted st" and cur: "current_entry E key e st"
    and small: "re_global_bytes st + length (fr_payload f) < 2 ^ 64"
      "peer_bytes_of st (fst key) + length (fr_payload f) < 2 ^ 64"
  defines "st' \<equiv> store_chunk key f e (st\<lparr>re_entries := fmupd key e (re_entries st)\<rparr>)"
  shows "accounted st'" and "re_global_bytes st' = re_global_bytes st + length (fr_payload f)"
    and "peer_bytes_of st' p = peer_bytes_of st p + (if p = fst key then length (fr_payload f) else 0)"
    and "re_entries st' = fmupd key (e\<lparr>re_bytes := re_bytes e + length (fr_payload f),
       re_chunks := (re_chunks e)[fr_index f := Some (fr_payload f)]\<rparr>) (re_entries st)"
proof -
  have b: "re_bytes e + length (fr_payload f) < 2 ^ 64"
    using acc cur small by (simp add: accounted_def current_entry_def)
  show g: "re_global_bytes st' = re_global_bytes st + length (fr_payload f)"
    using small(1) by (simp add: st'_def store_chunk_def sat_add_exact)
  show p: "peer_bytes_of st' p = peer_bytes_of st p + (if p = fst key then length (fr_payload f) else 0)" for p
    using small by (simp add: st'_def store_chunk_def sat_add_exact peer_bytes_of_def)
  show es: "re_entries st' = fmupd key (e\<lparr>re_bytes := re_bytes e + length (fr_payload f),
       re_chunks := (re_chunks e)[fr_index f := Some (fr_payload f)]\<rparr>) (re_entries st)"
    using b by (simp add: st'_def store_chunk_def fmupd_twice sat_add_exact)
  have other: "peer_total (fmdrop key (re_entries st)) q = peer_total (re_entries st) q" if "q \<noteq> fst key" for q
    using that by (cases "fmlookup (re_entries st) key") (simp_all add: peer_total_drop fmdrop_absent)
  have "re_global_bytes st' = fmsum re_bytes (re_entries st')"
    using acc cur by (simp add: g es fmsum_upd accounted_def current_entry_def)
  moreover have "peer_bytes_of st' q = peer_total (re_entries st') q" for q
    using acc cur other by (cases "q = fst key") (simp_all add: p es peer_total_upd accounted_def current_entry_def)
  ultimately show "accounted st'" by (simp add: accounted_def)
qed

text \<open>What a push of a validated fragment can do, from a state that satisfies the invariant.\<close>

lemma expected_len_bound: "expected_len l t i \<le> max l APP_FRAGMENT_PAYLOAD_BYTES"
  by (auto simp: expected_len_def)

lemma fragment_small: "validate_fragment E f = Inr () \<Longrightarrow> length (fr_payload f) \<le> MAX_APP_MESSAGE_BYTES"
  using expected_len_bound [of "fr_payload_len f" "fr_total f" "fr_index f"]
  by (auto simp: validate_fragment_Inr MAX_APP_MESSAGE_BYTES_def APP_FRAGMENT_PAYLOAD_BYTES_def)

lemma push_cases:
  fixes now created :: nat and author :: "'p::linorder"
  assumes ok: "reassembler_ok E st0" and v: "validate_fragment E f = Inr ()"
  defines "st \<equiv> expire now st0" and "key \<equiv> fragment_key author f"
  defines "e \<equiv> entry_for created f key st"
  defines "e' \<equiv> e\<lparr>re_bytes := re_bytes e + length (fr_payload f),
       re_chunks := (re_chunks e)[fr_index f := Some (fr_payload f)]\<rparr>"
  defines "room \<equiv> peer_bytes_of st author + length (fr_payload f) \<le> MAX_REASSEMBLY_BYTES_PER_PEER
     \<and> re_global_bytes st + length (fr_payload f) \<le> MAX_REASSEMBLY_BYTES_GLOBAL"
  obtains (refused) err where "push E now created author f st0 = Some (Inl err, st)"
      and "fr_source_peer_id f \<noteq> pid_to_string E author \<or> \<not> room \<or> \<not> same_message (re_fragment e) f"
  | (duplicate) "push E now created author f st0 = Some (Inr None, st)"
      and "fr_source_peer_id f = pid_to_string E author" and room and "same_message (re_fragment e) f"
      and "re_chunks e ! fr_index f \<noteq> None"
  | (stored) st' where "push E now created author f st0 = Some (Inr None, st')"
      and "fr_source_peer_id f = pid_to_string E author" and room and "same_message (re_fragment e) f"
      and "re_chunks e ! fr_index f = None" and "None \<in> set (re_chunks e')"
      and "re_entries st' = fmupd key e' (re_entries st)" and "reassembler_ok E st'"
      and "re_global_bytes st' = re_global_bytes st + length (fr_payload f)"
      and "\<And>p. peer_bytes_of st' p = peer_bytes_of st p + (if p = author then length (fr_payload f) else 0)"
  | (completed) st' where "push E now created author f st0 = Some (finish_message E e', st')"
      and "fr_source_peer_id f = pid_to_string E author" and room and "same_message (re_fragment e) f"
      and "re_chunks e ! fr_index f = None" and "None \<notin> set (re_chunks e')" and "entry_wf E key e'"
      and "re_entries st' = fmdrop key (re_entries st)" and "reassembler_ok E st'"
proof -
  have ok': "reassembler_ok E st" unfolding st_def by (rule expire_ok [OF ok])
  then have acc: "accounted st" and ceil: "within_ceilings st" by (simp_all add: reassembler_ok_def)
  have small: "re_global_bytes st + length (fr_payload f) < 2 ^ 64"
    "peer_bytes_of st p + length (fr_payload f) < 2 ^ 64" for p
  proof -
    have "re_global_bytes st \<le> 8388608" "peer_bytes_of st p \<le> 2097152" "length (fr_payload f) \<le> 1048576"
      using ceil fragment_small [OF v] by (auto simp: within_ceilings_def MAX_REASSEMBLY_BYTES_GLOBAL_def
          MAX_REASSEMBLY_BYTES_PER_PEER_def MAX_APP_MESSAGE_BYTES_def)
    then show "re_global_bytes st + length (fr_payload f) < 2 ^ 64"
      "peer_bytes_of st p + length (fr_payload f) < 2 ^ 64" by simp_all
  qed
  have exact: "sat_add 64 (re_global_bytes st) (length (fr_payload f)) = re_global_bytes st + length (fr_payload f)"
    "sat_add 64 (peer_bytes_of st p) (length (fr_payload f)) = peer_bytes_of st p + length (fr_payload f)" for p
    using small by (simp_all only: sat_add_exact)
  let ?st1 = "st\<lparr>re_entries := fmupd key e (re_entries st)\<rparr>"
  let ?st2 = "store_chunk key f e ?st1"
  have idle: "?st1 = st" if "fmlookup (re_entries st) key = Some e"
    using that by (simp add: fmupd_same)
  have found: "fmlookup (re_entries st) key = Some e" if "e \<noteq> new_entry created f"
    using that by (auto simp: e_def entry_for_def split: option.splits)
  show thesis
  proof (cases "fr_source_peer_id f = pid_to_string E author \<and> room \<and> same_message (re_fragment e) f")
    case False
    then show thesis
    proof (cases "fr_source_peer_id f = pid_to_string E author \<and> room")
      case True
      with False have "e \<noteq> new_entry created f" by (auto simp: new_entry_def)
      with found idle have "?st1 = st" by blast
      then have "push E now created author f st0 = Some (Inl (AppMessageErr (fr_topic f) ''fragment metadata mismatch''), st)"
        using True False by (simp add: push_def st_def [symmetric] key_def [symmetric] e_def [symmetric] Let_def
            room_def exact)
      then show thesis using False by (intro refused) auto
    next
      case bad: False
      then have "\<exists>err. push E now created author f st0 = Some (Inl err, st)"
        by (cases "fr_source_peer_id f = pid_to_string E author")
          (auto simp: push_def st_def [symmetric] Let_def room_def exact)
      then show thesis using bad refused by blast
    qed
  next
    case True
    then have src: "fr_source_peer_id f = pid_to_string E author" and room
      and same: "same_message (re_fragment e) f" by simp_all
    have cur: "current_entry E key e st"
      unfolding key_def e_def by (rule entry_for_current [OF ok' v src])
    then have eok: "entry_ok E key e" by (simp add: current_entry_def)
    have idx: "fr_index f < length (re_chunks e)"
      using eok v same by (auto simp: entry_ok_def entry_wf_def Let_def validate_fragment_Inr same_message_def)
    have bytes: "re_bytes e + length (fr_payload f) < 2 ^ 64"
      using cur acc small(1) by (simp add: current_entry_def accounted_def)
    note S = accounted_store [OF acc cur small(1) small(2) [of "fst key"]]
    have fst_key: "fst key = author" by (simp add: key_def fragment_key_def)
    have pu: "push E now created author f st0 = (if re_chunks e ! fr_index f \<noteq> None then Some (Inr None, ?st1)
        else if None \<in> set (re_chunks e') then Some (Inr None, ?st2)
        else Some (finish_message E e', release_entry key ?st2))"
      using src \<open>room\<close> same idx S(4)
      by (simp add: push_def st_def [symmetric] key_def [symmetric] e_def [symmetric] Let_def
            room_def exact e'_def)
    show thesis
    proof (cases "re_chunks e ! fr_index f")
      case (Some c)
      then have "e \<noteq> new_entry created f" using idx by (auto simp: new_entry_def)
      with found idle pu Some src \<open>room\<close> same show thesis by (intro duplicate) simp_all
    next
      case None
      have wf: "entry_wf E key e'"
        using store_entry_wf [of E author f e] eok same v None bytes
        by (simp add: key_def e'_def sat_add_exact)
      have ents: "entry_ok E k x" if "fmlookup (re_entries st) k = Some x" for k x
        by (rule reassembler_okD [OF ok' that])
      have ceil2: "within_ceilings ?st2"
        using ceil \<open>room\<close> by (auto simp: within_ceilings_def S(2,3) fst_key room_def)
      show thesis
      proof (cases "None \<in> set (re_chunks e')")
        case True
        have "reassembler_ok E ?st2"
        proof (rule reassembler_okI [OF _ S(1) ceil2])
          fix k x
          assume "fmlookup (re_entries ?st2) k = Some x"
          then show "entry_ok E k x"
            using wf True ents by (cases "k = key") (auto simp: S(4) entry_ok_def e'_def)
        qed
        with pu None True src \<open>room\<close> same S(2,3,4) fst_key show thesis
          by (intro stored [of ?st2]) (auto simp: e'_def)
      next
        case False
        let ?st3 = "release_entry key ?st2"
        have re: "re_entries ?st3 = fmdrop key (re_entries st)" by (simp add: release_entries S(4) fmdrop_fmupd_same)
        have "within_ceilings ?st3"
          using ceil2 release_Some [of ?st2 key e'] S(4)
          by (auto simp: within_ceilings_def e'_def intro: le_trans [OF diff_le_self])
        with accounted_release [OF S(1)] re ents have "reassembler_ok E ?st3"
          by (intro reassembler_okI) (auto split: if_splits)
        with pu None False src \<open>room\<close> same re wf show thesis by (intro completed [of ?st3]) simp_all
      qed
    qed
  qed
qed

section \<open>Splitting and reassembling\<close>

abbreviation payload_chunks :: "AppMessage \<Rightarrow> u8 list list" where
  "payload_chunks m \<equiv> chunks APP_FRAGMENT_PAYLOAD_BYTES (msg_payload m)"

abbreviation fragment_at :: "'p ext \<Rightarrow> AppMessage \<Rightarrow> nat \<Rightarrow> AppFragment" where
  "fragment_at E m i \<equiv> make_fragment E m i (payload_chunks m ! i)"

lemma payload_bytes_pos: "0 < APP_FRAGMENT_PAYLOAD_BYTES"
  by (simp add: APP_FRAGMENT_PAYLOAD_BYTES_def)

lemma length_payload_chunks:
  "length (payload_chunks m) = div_ceil (length (msg_payload m)) APP_FRAGMENT_PAYLOAD_BYTES"
  by (rule length_chunks [OF payload_bytes_pos])

lemma make_fragment_valid:
  assumes "hex_law E" and "blake3_law E" and "validate_app_message E m = Inr ()"
    and "APP_FRAGMENT_PAYLOAD_BYTES < length (msg_payload m)" and "i < length (payload_chunks m)"
  shows "validate_fragment E (fragment_at E m i) = Inr ()"
proof -
  have "div_ceil (length (msg_payload m)) APP_FRAGMENT_PAYLOAD_BYTES \<le> MAX_APP_FRAGMENTS"
    unfolding MAX_APP_FRAGMENTS_def div_ceil_def
    by (rule div_le_mono) (use assms(3) in \<open>auto simp: validate_app_message_Inr intro: diff_le_mono\<close>)
  with assms blake3_hex_text [OF assms(1,2)] chunk_lengths [OF assms(5)] show ?thesis
    by (auto simp: validate_fragment_Inr validate_app_message_Inr make_fragment_def length_payload_chunks)
qed

definition partial_chunks :: "AppMessage \<Rightarrow> nat set \<Rightarrow> u8 list option list" where
  "partial_chunks m S = map (\<lambda>i. if i \<in> S then Some (payload_chunks m ! i) else None) [0..<length (payload_chunks m)]"

definition missing_bytes :: "AppMessage \<Rightarrow> nat set \<Rightarrow> nat" where
  "missing_bytes m S = (\<Sum>i\<in>{..<length (payload_chunks m)} - S. length (payload_chunks m ! i))"

lemma missing_bytes_insert:
  assumes "i < length (payload_chunks m)" and "i \<notin> S"
  shows "missing_bytes m S = length (payload_chunks m ! i) + missing_bytes m (insert i S)"
proof -
  have "{..<length (payload_chunks m)} - S - {i} = {..<length (payload_chunks m)} - insert i S" by auto
  then show ?thesis unfolding missing_bytes_def using assms by (subst sum.remove [of _ i]) auto
qed

lemma missing_bytes_all: "missing_bytes m {} = length (msg_payload m)"
proof -
  have "length (msg_payload m) = length (concat (payload_chunks m))"
    by (simp add: concat_chunks payload_bytes_pos)
  also have "\<dots> = sum_list (map length (payload_chunks m))" by (rule length_concat)
  also have "\<dots> = (\<Sum>i<length (payload_chunks m). length (payload_chunks m ! i))"
    by (simp add: sum_list_sum_nth atLeast0LessThan)
  finally show ?thesis by (simp add: missing_bytes_def)
qed

lemma partial_chunks_update:
  "i < length (payload_chunks m) \<Longrightarrow>
     (partial_chunks m S)[i := Some (payload_chunks m ! i)] = partial_chunks m (insert i S)"
  by (rule nth_equalityI) (auto simp: partial_chunks_def nth_list_update)

lemma partial_chunks_None:
  "None \<in> set (partial_chunks m S) \<longleftrightarrow> \<not> {..<length (payload_chunks m)} \<subseteq> S"
  by (auto simp: partial_chunks_def image_iff split: if_splits)

lemma partial_chunks_all:
  "{..<length (payload_chunks m)} \<subseteq> S \<Longrightarrow> partial_chunks m S = map Some (payload_chunks m)"
  by (rule nth_equalityI) (auto simp: partial_chunks_def)

lemma finish_all:
  assumes "validate_app_message E m = Inr ()" and "same_message (re_fragment e) (fragment_at E m i)"
    and "re_chunks e = map Some (payload_chunks m)"
  shows "finish_message E e = Inr (Some m)"
proof -
  have p: "concat (map the (re_chunks e)) = msg_payload m"
    by (simp add: assms(3) comp_def concat_chunks payload_bytes_pos)
  show ?thesis
    using assms(1,2) p by (cases m) (simp add: finish_message_def Let_def same_message_def make_fragment_def)
qed

lemma same_message_trans:
  "same_message a b \<Longrightarrow> same_message b c \<Longrightarrow> same_message a c" "same_message a b \<Longrightarrow> same_message b a"
  by (simp_all add: same_message_def)

lemma fragment_at_same: "same_message (fragment_at E m i) (fragment_at E m j)"
  by (simp add: same_message_def make_fragment_def)

text \<open>Some chunks of \<open>m\<close> have arrived since \<open>t0\<close>, and the budgets cover the rest.\<close>

definition progress :: "'p ext \<Rightarrow> AppMessage \<Rightarrow> 'p \<Rightarrow> nat \<Rightarrow> nat set \<Rightarrow> 'p AppFragmentReassembler \<Rightarrow> bool" where
  "progress E m author t0 S st \<longleftrightarrow> reassembler_ok E st
     \<and> (\<exists>e. fmlookup (re_entries st) (author, msg_nonce_hex m, msg_topic m) = Some e
          \<and> same_message (re_fragment e) (fragment_at E m 0) \<and> re_created e = t0 \<and> re_chunks e = partial_chunks m S)
     \<and> peer_bytes_of st author + missing_bytes m S \<le> MAX_REASSEMBLY_BYTES_PER_PEER
     \<and> re_global_bytes st + missing_bytes m S \<le> MAX_REASSEMBLY_BYTES_GLOBAL"

lemma push_fragment:
  assumes L: "hex_law E" "blake3_law E" and m: "validate_app_message E m = Inr ()"
    "APP_FRAGMENT_PAYLOAD_BYTES < length (msg_payload m)" "msg_source_peer_id m = pid_to_string E author"
    and i: "i < length (payload_chunks m)" "i \<notin> S" and ok: "reassembler_ok E st"
    and e: "entry_for created (fragment_at E m i) (author, msg_nonce_hex m, msg_topic m) (expire now st) = e"
      "same_message (re_fragment e) (fragment_at E m 0)" "re_chunks e = partial_chunks m S" "re_created e = t0"
    and room: "peer_bytes_of st author + missing_bytes m S \<le> MAX_REASSEMBLY_BYTES_PER_PEER"
      "re_global_bytes st + missing_bytes m S \<le> MAX_REASSEMBLY_BYTES_GLOBAL"
  shows "\<exists>st'. push E now created author (fragment_at E m i) st
      = Some (if {..<length (payload_chunks m)} \<subseteq> insert i S then Inr (Some m) else Inr None, st')
    \<and> (if {..<length (payload_chunks m)} \<subseteq> insert i S
       then reassembler_ok E st' \<and> fmlookup (re_entries st') (author, msg_nonce_hex m, msg_topic m) = None
       else progress E m author t0 (insert i S) st')"
proof -
  let ?f = "fragment_at E m i" let ?N = "length (payload_chunks m)" let ?st = "expire now st"
  let ?key = "(author, msg_nonce_hex m, msg_topic m)"
  have v: "validate_fragment E ?f = Inr ()" by (rule make_fragment_valid [OF L m(1,2) i(1)])
  have key: "fragment_key author ?f = ?key" by (simp add: fragment_key_def make_fragment_def)
  have acc: "accounted st" using ok by (simp add: reassembler_ok_def)
  note shrink = expire_shrinks [OF acc, of now]
  have f: "fr_payload ?f = payload_chunks m ! i" "fr_index ?f = i" "fr_source_peer_id ?f = pid_to_string E author"
    using m(3) by (simp_all add: make_fragment_def)
  note miss = missing_bytes_insert [OF i]
  have roomy: "peer_bytes_of ?st author + length (fr_payload ?f) + missing_bytes m (insert i S) \<le> MAX_REASSEMBLY_BYTES_PER_PEER"
    "re_global_bytes ?st + length (fr_payload ?f) + missing_bytes m (insert i S) \<le> MAX_REASSEMBLY_BYTES_GLOBAL"
    using room shrink(1) shrink(2) [of author] miss f(1) by simp_all
  have same: "same_message (re_fragment e) ?f" using e(2) fragment_at_same same_message_trans(1) by blast
  have nth: "re_chunks e ! i = None" using i by (simp add: e(3) partial_chunks_def)
  have upd: "(re_chunks e)[fr_index ?f := Some (fr_payload ?f)] = partial_chunks m (insert i S)"
    using i(1) by (simp add: e(3) f partial_chunks_update)
  from ok v show ?thesis
  proof (cases rule: push_cases [where now = now and author = author and created = created])
    case (refused err)
    then show ?thesis using f(3) same roomy by (simp add: key e(1))
  next
    case duplicate
    then show ?thesis using nth by (simp add: key e(1) f(2))
  next
    case (stored st')
    have "\<not> {..<?N} \<subseteq> insert i S" using stored(6) by (simp add: key e(1) upd partial_chunks_None)
    moreover have "progress E m author t0 (insert i S) st'"
      unfolding progress_def
      using stored(7-10) e(2,4) upd roomy by (simp add: key e(1))
    ultimately show ?thesis using stored(1) by auto
  next
    case (completed st')
    have all: "{..<?N} \<subseteq> insert i S" using completed(6) by (simp add: key e(1) upd partial_chunks_None)
    have "finish_message E (e\<lparr>re_bytes := re_bytes e + length (fr_payload ?f),
        re_chunks := (re_chunks e)[fr_index ?f := Some (fr_payload ?f)]\<rparr>) = Inr (Some m)"
      by (rule finish_all [OF m(1), of _ 0]) (use e(2) in \<open>simp_all add: upd partial_chunks_all [OF all]\<close>)
    with completed(1,8,9) all show ?thesis by (simp add: key e(1))
  qed
qed

lemma expire_keeps:
  assumes "reassembler_ok E st" and "fmlookup (re_entries st) key = Some e" and "now < re_created e + FRAGMENT_EXPIRY"
  shows "fmlookup (re_entries (expire now st)) key = Some e"
proof -
  have "accounted st" using assms(1) by (simp add: reassembler_ok_def)
  then show ?thesis
    using assms(2,3) FRAGMENT_EXPIRY_def NS_PER_SEC_def by (auto simp: expire_spec(2) is_expired_def)
qed

lemma expire_absent:
  "reassembler_ok E st \<Longrightarrow> fmlookup (re_entries st) key = None \<Longrightarrow> fmlookup (re_entries (expire now st)) key = None"
  by (simp add: reassembler_ok_def expire_spec(2))

lemma push_rest:
  assumes L: "hex_law E" "blake3_law E" and m: "validate_app_message E m = Inr ()"
    "APP_FRAGMENT_PAYLOAD_BYTES < length (msg_payload m)" "msg_source_peer_id m = pid_to_string E author"
    and "progress E m author t0 S st" and "evs \<noteq> []" and "distinct (map (snd \<circ> snd) evs)"
    and "set (map (snd \<circ> snd) evs) = {..<length (payload_chunks m)} - S"
    and "\<forall>(now, c, i) \<in> set evs. now < t0 + FRAGMENT_EXPIRY"
  shows "\<exists>st'. push_all E (map (\<lambda>(now, created, i). (now, created, author, fragment_at E m i)) evs) st
      = Some (replicate (length evs - 1) (Inr None) @ [Inr (Some m)], st')
    \<and> reassembler_ok E st' \<and> fmlookup (re_entries st') (author, msg_nonce_hex m, msg_topic m) = None"
  using assms(6-)
proof (induction evs arbitrary: S st)
  case (Cons ev evs)
  obtain now created i where ev: "ev = (now, created, i)" by (cases ev)
  let ?N = "length (payload_chunks m)" let ?key = "(author, msg_nonce_hex m, msg_topic m)"
  from Cons.prems(4) ev have i: "i < ?N" "i \<notin> S" by auto
  from Cons.prems(1) obtain e where ok: "reassembler_ok E st" and e: "fmlookup (re_entries st) ?key = Some e"
    "same_message (re_fragment e) (fragment_at E m 0)" "re_created e = t0" "re_chunks e = partial_chunks m S"
    and room: "peer_bytes_of st author + missing_bytes m S \<le> MAX_REASSEMBLY_BYTES_PER_PEER"
      "re_global_bytes st + missing_bytes m S \<le> MAX_REASSEMBLY_BYTES_GLOBAL"
    unfolding progress_def by blast
  have "entry_for created (fragment_at E m i) ?key (expire now st) = e"
    using expire_keeps [OF ok e(1)] Cons.prems(5) ev e(3) by (simp add: entry_for_def)
  from push_fragment [OF L m i ok this e(2,4,3) room] obtain st' where
    p: "push E now created author (fragment_at E m i) st
      = Some (if {..<?N} \<subseteq> insert i S then Inr (Some m) else Inr None, st')"
    and q: "if {..<?N} \<subseteq> insert i S then reassembler_ok E st' \<and> fmlookup (re_entries st') ?key = None
       else progress E m author t0 (insert i S) st'" by blast
  have rest: "set (map (snd \<circ> snd) evs) = {..<?N} - insert i S"
    using Cons.prems(3,4) i by (auto simp: ev)
  show ?case
  proof (cases "evs = []")
    case True
    with rest have "{..<?N} \<subseteq> insert i S" by auto
    with p q True show ?thesis by (simp add: ev)
  next
    case False
    then have "set (map (snd \<circ> snd) evs) \<noteq> {}" by simp
    with rest have no: "\<not> {..<?N} \<subseteq> insert i S" by (metis Diff_eq_empty_iff)
    then have pr: "progress E m author t0 (insert i S) st'" using q by simp
    have "distinct (map (snd \<circ> snd) evs)" and "\<forall>(now, c, i) \<in> set evs. now < t0 + FRAGMENT_EXPIRY"
      using Cons.prems(3,5) by (auto simp: comp_def)
    from Cons.IH [OF pr False this(1) rest this(2)] obtain st'' where
      "push_all E (map (\<lambda>(now, created, i). (now, created, author, fragment_at E m i)) evs) st'
        = Some (replicate (length evs - 1) (Inr None) @ [Inr (Some m)], st'')"
      "reassembler_ok E st''" "fmlookup (re_entries st'') ?key = None" by blast
    moreover have "Inr None # replicate (length evs - 1) (Inr None) = replicate (length evs) (Inr None)"
      using False by (cases evs) simp_all
    ultimately show ?thesis using p no by (simp add: ev)
  qed
qed simp

lemma chunks_at_least_two:
  "APP_FRAGMENT_PAYLOAD_BYTES < length (msg_payload m) \<Longrightarrow> 2 \<le> length (payload_chunks m)"
  using length_payload_chunks [of m]
  by (simp add: div_ceil_def APP_FRAGMENT_PAYLOAD_BYTES_def less_eq_div_iff_mult_less_eq)

lemma push_first:
  assumes L: "hex_law E" "blake3_law E" and m: "validate_app_message E m = Inr ()"
    "APP_FRAGMENT_PAYLOAD_BYTES < length (msg_payload m)" "msg_source_peer_id m = pid_to_string E author"
    and ok: "reassembler_ok E st" and new: "fmlookup (re_entries st) (author, msg_nonce_hex m, msg_topic m) = None"
    and room: "peer_bytes_of st author + length (msg_payload m) \<le> MAX_REASSEMBLY_BYTES_PER_PEER"
      "re_global_bytes st + length (msg_payload m) \<le> MAX_REASSEMBLY_BYTES_GLOBAL"
    and i: "i < length (payload_chunks m)"
  obtains st' where "push E now t0 author (fragment_at E m i) st = Some (Inr None, st')"
    and "progress E m author t0 {i} st'" and "\<not> {..<length (payload_chunks m)} \<subseteq> {i}"
proof -
  let ?N = "length (payload_chunks m)" let ?key = "(author, msg_nonce_hex m, msg_topic m)"
  have ne: "\<not> {..<?N} \<subseteq> {i}"
  proof
    assume "{..<?N} \<subseteq> {i}"
    then have "card {..<?N} \<le> card {i}" by (intro card_mono) auto
    with chunks_at_least_two [OF m(2)] show False by simp
  qed
  have e: "entry_for t0 (fragment_at E m i) ?key (expire now st) = new_entry t0 (fragment_at E m i)"
    by (simp add: entry_for_def expire_absent [OF ok new])
  have "re_chunks (new_entry t0 (fragment_at E m i)) = partial_chunks m {}"
    by (rule nth_equalityI) (simp_all add: new_entry_def partial_chunks_def make_fragment_def length_payload_chunks)
  moreover have "same_message (re_fragment (new_entry t0 (fragment_at E m i))) (fragment_at E m 0)"
    by (simp add: new_entry_def fragment_at_same)
  ultimately show thesis
    using push_fragment [OF L m i _ ok e, of "{}" t0] room ne that
    by (auto simp: missing_bytes_all new_entry_def)
qed

lemma push_everything:
  assumes L: "hex_law E" "blake3_law E" and m: "validate_app_message E m = Inr ()"
    "APP_FRAGMENT_PAYLOAD_BYTES < length (msg_payload m)" "msg_source_peer_id m = pid_to_string E author"
    and ok: "reassembler_ok E st" and new: "fmlookup (re_entries st) (author, msg_nonce_hex m, msg_topic m) = None"
    and room: "peer_bytes_of st author + length (msg_payload m) \<le> MAX_REASSEMBLY_BYTES_PER_PEER"
      "re_global_bytes st + length (msg_payload m) \<le> MAX_REASSEMBLY_BYTES_GLOBAL"
    and dist: "distinct (map (snd \<circ> snd) ((now, t0, i) # evs))"
    and all: "set (map (snd \<circ> snd) ((now, t0, i) # evs)) = {..<length (payload_chunks m)}"
    and time: "\<forall>(now, c, i) \<in> set evs. now < t0 + FRAGMENT_EXPIRY"
  shows "\<exists>st'. push_all E (map (\<lambda>(now, created, i). (now, created, author, fragment_at E m i)) ((now, t0, i) # evs)) st
      = Some (replicate (length evs) (Inr None) @ [Inr (Some m)], st')
    \<and> reassembler_ok E st' \<and> fmlookup (re_entries st') (author, msg_nonce_hex m, msg_topic m) = None"
proof -
  let ?N = "length (payload_chunks m)" let ?key = "(author, msg_nonce_hex m, msg_topic m)"
  have i: "i < ?N" using all by auto
  obtain st' where p: "push E now t0 author (fragment_at E m i) st = Some (Inr None, st')"
    and pr: "progress E m author t0 {i} st'" and ne: "\<not> {..<?N} \<subseteq> {i}"
    by (rule push_first [OF L m ok new room i])
  have "evs \<noteq> []" using all ne by (cases evs) auto
  moreover have "set (map (snd \<circ> snd) evs) = {..<?N} - {i}" using dist all by auto
  ultimately obtain st'' where "push_all E (map (\<lambda>(now, created, i). (now, created, author, fragment_at E m i)) evs) st'
      = Some (replicate (length evs - 1) (Inr None) @ [Inr (Some m)], st'')"
    "reassembler_ok E st''" "fmlookup (re_entries st'') ?key = None"
    using push_rest [OF L m pr, of evs] dist time by auto
  moreover have "Inr None # replicate (length evs - 1) (Inr None) = replicate (length evs) (Inr None)"
    using \<open>evs \<noteq> []\<close> by (cases evs) simp_all
  ultimately show ?thesis using p by simp
qed

text \<open>\<open>serde_json\<close> on fragments: decoding inverts encoding.\<close>

definition frag_json_law :: "'a frag_codec_scheme \<Rightarrow> bool" where
  [laws]: "frag_json_law J \<longleftrightarrow> (\<forall>f. \<exists>raw. frag_to_json J f = Inr raw \<and> frag_from_json J raw = Inr f)"

lemma collect_Inr:
  "collect_results rs = Inr xs \<longleftrightarrow> length rs = length xs \<and> (\<forall>i. i < length xs \<longrightarrow> rs ! i = Inr (xs ! i))"
proof (induction rs arbitrary: xs)
  case Nil
  then show ?case by auto
next
  case (Cons r rs)
  show ?case
    by (cases xs) (auto simp: Cons.IH nth_Cons split: nat.splits)
qed

lemma fragment_wires:
  assumes "fragment_message E J m = Inr wires" and "APP_FRAGMENT_PAYLOAD_BYTES < length (msg_payload m)"
  shows "validate_app_message E m = Inr ()" and "length wires = length (payload_chunks m)"
    and "i < length wires \<Longrightarrow> encode_fragment J (msg_topic m) (fragment_at E m i) = Inr (wires ! i)"
proof -
  from assms have c: "validate_app_message E m = Inr ()"
    "collect_results (map (\<lambda>(index, payload). encode_fragment J (msg_topic m) (make_fragment E m index payload))
       (enumerate 0 (payload_chunks m))) = Inr wires"
    by (auto simp: fragment_message_def Let_def split: if_splits)
  show "validate_app_message E m = Inr ()" by (rule c(1))
  show len: "length wires = length (payload_chunks m)" using c(2) by (simp add: collect_Inr)
  show "i < length wires \<Longrightarrow> encode_fragment J (msg_topic m) (fragment_at E m i) = Inr (wires ! i)"
    using c(2) len by (auto simp: collect_Inr nth_enumerate_eq)
qed

lemma decode_wire:
  assumes L: "hex_law E" "blake3_law E" "frag_json_law J"
    and f: "fragment_message E J m = Inr wires" "APP_FRAGMENT_PAYLOAD_BYTES < length (msg_payload m)"
    and i: "i < length wires"
  shows "decode_fragment E J (wires ! i) = Inr (fragment_at E m i)"
proof -
  have e: "frag_to_json J (fragment_at E m i) = Inr (wires ! i)" "length (wires ! i) \<le> MAX_FRAGMENT_WIRE_BYTES"
    using fragment_wires(3) [OF f i] by (auto simp: encode_fragment_def split: if_splits)
  with L(3) have "frag_from_json J (wires ! i) = Inr (fragment_at E m i)"
    unfolding frag_json_law_def by (metis sum.inject(2))
  moreover have "validate_fragment E (fragment_at E m i) = Inr ()"
    by (rule make_fragment_valid [OF L(1,2) fragment_wires(1) [OF f] f(2)])
      (use i fragment_wires(2) [OF f] in simp)
  ultimately show ?thesis using e(2) by (simp add: decode_fragment_def)
qed

lemma push_ok:
  assumes "reassembler_ok E st" and "validate_fragment E f = Inr ()"
  obtains r st' where "push E now created author f st = Some (r, st')" and "reassembler_ok E st'"
  using assms
proof (cases rule: push_cases [where now = now and author = author and created = created])
  case (refused err)
  then show ?thesis using that expire_ok [OF assms(1)] by blast
next
  case duplicate
  then show ?thesis using that expire_ok [OF assms(1)] by blast
qed (use that in blast)+

lemma push_all_ok:
  assumes "reassembler_ok E st" and "\<forall>(now, created, author, f) \<in> set evs. validate_fragment E f = Inr ()"
  shows "\<exists>rs st'. push_all E evs st = Some (rs, st') \<and> length rs = length evs \<and> reassembler_ok E st'"
  using assms
proof (induction evs arbitrary: st)
  case (Cons ev evs)
  obtain now created author f where ev: "ev = (now, created, author, f)" by (cases ev)
  with Cons.prems(2) have v: "validate_fragment E f = Inr ()"
    and rest: "\<forall>(now, created, author, f) \<in> set evs. validate_fragment E f = Inr ()" by auto
  from push_ok [OF Cons.prems(1) v] obtain r st' where
    p: "push E now created author f st = Some (r, st')" and ok: "reassembler_ok E st'" .
  from Cons.IH [OF ok rest] p show ?case by (auto simp: ev)
qed simp

lemma reassembler_default_ok: "reassembler_ok E reassembler_default"
  by (rule reassembler_okI) (simp_all add: reassembler_default_def accounted_def within_ceilings_def
      peer_bytes_of_def peer_total_def)

text \<open>A concrete codec and a message of two fragments, for the witnesses.\<close>

definition demo_put_fragment :: "AppFragment \<Rightarrow> u8 list" where
  "demo_put_fragment f = put_nat 1 @ put_nat (fr_fragment_schema_version f) @ put_nat (fr_message_schema_version f)
     @ put_nat (fr_network_id f) @ put_str (fr_topic f) @ put_str (fr_source_peer_id f)
     @ put_opt (fr_target_peer_id f) @ put_nat (fr_timestamp_ns f) @ put_str (fr_nonce_hex f)
     @ put_str (fr_payload_hash_hex f) @ put_nat (fr_payload_len f) @ put_nat (fr_index f) @ put_nat (fr_total f)
     @ put_bytes (fr_payload f)"

definition demo_get_fragment :: "u8 list \<Rightarrow> string + AppFragment" where
  "demo_get_fragment bs = (let (tag, bs) = get_nat bs; (fsv, bs) = get_nat bs; (msv, bs) = get_nat bs;
     (net, bs) = get_nat bs; (topic, bs) = get_str bs; (src, bs) = get_str bs; (target, bs) = get_opt bs;
     (ts, bs) = get_nat bs; (nonce, bs) = get_str bs; (hash, bs) = get_str bs; (plen, bs) = get_nat bs;
     (i, bs) = get_nat bs; (n, bs) = get_nat bs; (payload, bs) = get_bytes bs in
     if tag = 1 \<and> bs = [] then Inr \<lparr>fr_fragment_schema_version = fsv, fr_message_schema_version = msv,
       fr_network_id = net, fr_topic = topic, fr_source_peer_id = src, fr_target_peer_id = target,
       fr_timestamp_ns = ts, fr_nonce_hex = nonce, fr_payload_hash_hex = hash, fr_payload_len = plen,
       fr_index = i, fr_total = n, fr_payload = payload\<rparr> else Inl ''missing field'')"

lemma demo_get_put_fragment: "demo_get_fragment (demo_put_fragment f) = Inr f"
  using get_put_bytes [of "fr_payload f" "[]"]
  by (simp add: demo_get_fragment_def demo_put_fragment_def del: get_put_bytes)

definition demo_codec :: frag_codec where
  "demo_codec = \<lparr>app_to_json = (\<lambda>m. Inr (demo_put m)), app_from_json = demo_get,
     frag_to_json = (\<lambda>f. Inr (demo_put_fragment f)), frag_from_json = demo_get_fragment\<rparr>"

lemma demo_codec_laws: "app_json_law demo_codec" "frag_json_law demo_codec"
  by (simp_all add: laws demo_codec_def demo_get_put demo_get_put_fragment)

definition demo_big :: AppMessage where
  "demo_big = demo_message\<lparr>msg_payload := replicate 16385 1\<rparr>"

lemma demo_big_valid: "validate_app_message demo_ext demo_big = Inr ()"
proof -
  have "pid_parse demo_ext (pid_to_string demo_ext 7) = Inr 7" using demo_peer_text by (simp add: peer_text_law_def)
  then show ?thesis
    using demo_chat_topic by (auto simp: validate_app_message_Inr demo_big_def demo_message_def
        APP_MESSAGE_SCHEMA_VERSION_def MAX_APP_MESSAGE_BYTES_def)
qed

lemma demo_big_payload: "length (msg_payload demo_big) = 16385" "APP_FRAGMENT_PAYLOAD_BYTES < length (msg_payload demo_big)"
  "msg_source_peer_id demo_big = pid_to_string demo_ext 7" "length (payload_chunks demo_big) = 2"
  by (simp_all add: demo_big_def demo_message_def APP_FRAGMENT_PAYLOAD_BYTES_def length_chunks div_ceil_def)

lemma length_put: "length (put_nat n) = Suc n" "length (put_str s) = Suc (2 * length s)"
  "length (put_bytes bs) = Suc (2 * length bs)"
  by (simp_all add: put_nat_def put_str_def put_bytes_def)

lemma demo_fragment_wire:
  assumes "i < 2"
  shows "encode_fragment demo_codec (msg_topic demo_big) (fragment_at demo_ext demo_big i)
    = Inr (demo_put_fragment (fragment_at demo_ext demo_big i))"
proof -
  have "length (payload_chunks demo_big ! i) \<le> 16385"
    using chunk_lengths [of i "msg_payload demo_big"] assms demo_big_payload(1,4)
      expected_len_bound [of "length (msg_payload demo_big)" 2 i] by (simp add: APP_FRAGMENT_PAYLOAD_BYTES_def)
  moreover have "length (blake3_hex demo_ext (msg_payload demo_big)) = 64"
    using blake3_hex_text [OF demo_hex_law demo_blake3] by blast
  moreover have "length (pid_to_string demo_ext 7) = 2" by (simp add: demo_ext_def)
  ultimately have "length (demo_put_fragment (fragment_at demo_ext demo_big i)) \<le> MAX_FRAGMENT_WIRE_BYTES"
    using assms demo_big_payload(1,3)
    by (simp add: demo_put_fragment_def make_fragment_def length_put put_opt_def MAX_FRAGMENT_WIRE_BYTES_def
      div_ceil_def APP_FRAGMENT_PAYLOAD_BYTES_def APP_FRAGMENT_SCHEMA_VERSION_def)
      (simp add: demo_big_def demo_message_def length_demo_hex length_put)
  then show ?thesis by (simp add: encode_fragment_def demo_codec_def)
qed

lemma demo_fragments:
  "fragment_message demo_ext demo_codec demo_big = Inr (map (\<lambda>i. demo_put_fragment (fragment_at demo_ext demo_big i)) [0, 1])"
proof -
  have "enumerate 0 (payload_chunks demo_big) = [(0, payload_chunks demo_big ! 0), (1, payload_chunks demo_big ! 1)]"
    by (rule nth_equalityI) (auto simp: demo_big_payload(4) nth_enumerate_eq less_Suc_eq numeral_2_eq_2)
  moreover have "MAX_APP_FRAGMENTS = 64"
    by (simp add: MAX_APP_FRAGMENTS_def div_ceil_def MAX_APP_MESSAGE_BYTES_def APP_FRAGMENT_PAYLOAD_BYTES_def)
  ultimately show ?thesis
    using demo_big_payload(2) demo_fragment_wire [of 0] demo_fragment_wire [of 1]
    by (simp add: fragment_message_def demo_big_valid demo_big_payload(1) div_ceil_def APP_FRAGMENT_PAYLOAD_BYTES_def)
qed

section \<open>Properties\<close>

text \<open>C1. Fragmentation round trip. A message larger than one fragment, split by \<open>fragment_message\<close>,
  decodes fragment by fragment; and when its fragments reach a reassembler in any order, each
  once, all within 30 seconds of the first, while the author's and the global budget have room for
  the payload, every push but the last returns nothing and the last returns exactly the original
  message and releases its entry. The reassembler may hold any other partial messages.\<close>

theorem fragmentation_roundtrip:
  assumes "hex_law E" and "blake3_law E" and "frag_json_law J"
    and "fragment_message E J m = Inr wires" and "APP_FRAGMENT_PAYLOAD_BYTES < length (msg_payload m)"
    and "msg_source_peer_id m = pid_to_string E author" and "reassembler_ok E st"
    and "fmlookup (re_entries st) (author, msg_nonce_hex m, msg_topic m) = None"
    and "peer_bytes_of st author + length (msg_payload m) \<le> MAX_REASSEMBLY_BYTES_PER_PEER"
    and "re_global_bytes st + length (msg_payload m) \<le> MAX_REASSEMBLY_BYTES_GLOBAL"
    and "distinct (map (snd \<circ> snd) ((now, t0, i) # evs))"
    and "set (map (snd \<circ> snd) ((now, t0, i) # evs)) = {..<length wires}"
    and "\<forall>(now', c, j) \<in> set evs. now' < t0 + FRAGMENT_EXPIRY"
  shows "\<exists>fs st'. map (decode_fragment E J) wires = map Inr fs
    \<and> push_all E (map (\<lambda>(now, created, j). (now, created, author, fs ! j)) ((now, t0, i) # evs)) st
        = Some (replicate (length evs) (Inr None) @ [Inr (Some m)], st')
    \<and> fmlookup (re_entries st') (author, msg_nonce_hex m, msg_topic m) = None"
proof -
  let ?fs = "map (fragment_at E m) [0..<length wires]"
  note w = fragment_wires [OF assms(4,5)]
  have "map (decode_fragment E J) wires = map Inr ?fs"
    by (rule nth_equalityI) (simp_all add: decode_wire [OF assms(1-5)])
  moreover have "map (\<lambda>(now, created, j). (now, created, author, ?fs ! j)) ((now, t0, i) # evs)
      = map (\<lambda>(now, created, j). (now, created, author, fragment_at E m j)) ((now, t0, i) # evs)"
  proof (rule map_cong [OF refl])
    fix x
    assume x: "x \<in> set ((now, t0, i) # evs)"
    have "snd (snd x) \<in> set (map (snd \<circ> snd) ((now, t0, i) # evs))"
      using imageI [OF x, of "snd \<circ> snd"] by (simp only: set_map comp_apply)
    then have "snd (snd x) < length wires" by (simp only: assms(12) lessThan_iff)
    then show "(case x of (now, created, j) \<Rightarrow> (now, created, author, ?fs ! j))
        = (case x of (now, created, j) \<Rightarrow> (now, created, author, fragment_at E m j))"
      by (cases x) simp
  qed
  moreover have "set (map (snd \<circ> snd) ((now, t0, i) # evs)) = {..<length (payload_chunks m)}"
    using assms(12) by (simp only: w(2))
  note push_everything [OF assms(1,2) w(1) assms(5-11) this assms(13)]
  ultimately show ?thesis by (intro exI [of _ ?fs]) (simp only:, blast)
qed

lemma demo_room:
  "fmlookup (re_entries reassembler_default) k = None"
  "peer_bytes_of reassembler_default p + length (msg_payload demo_big) \<le> MAX_REASSEMBLY_BYTES_PER_PEER"
  "re_global_bytes reassembler_default + length (msg_payload demo_big) \<le> MAX_REASSEMBLY_BYTES_GLOBAL"
  by (simp_all add: reassembler_default_def peer_bytes_of_def demo_big_payload(1) MAX_REASSEMBLY_BYTES_PER_PEER_def
      MAX_REASSEMBLY_BYTES_GLOBAL_def MAX_APP_MESSAGE_BYTES_def)

lemma demo_events:
  "distinct (map (snd \<circ> snd) [(10 :: nat, 10 :: nat, 1 :: nat), (20, 20, 0)])"
  "set (map (snd \<circ> snd) [(10 :: nat, 10 :: nat, 1 :: nat), (20, 20, 0)]) = {..<2}"
  "\<forall>(now, c, j) \<in> set [(20 :: nat, 20 :: nat, 0 :: nat)]. now < 10 + FRAGMENT_EXPIRY"
  by (auto simp: FRAGMENT_EXPIRY_def NS_PER_SEC_def)

lemma fragmentation_roundtrip_witness:
  "\<exists>wires fs st'. fragment_message demo_ext demo_codec demo_big = Inr wires
     \<and> map (decode_fragment demo_ext demo_codec) wires = map Inr fs
     \<and> push_all demo_ext [(10, 10, 7, fs ! 1), (20, 20, 7, fs ! 0)] reassembler_default
         = Some ([Inr None, Inr (Some demo_big)], st')"
proof -
  let ?wires = "map (\<lambda>i. demo_put_fragment (fragment_at demo_ext demo_big i)) [0, 1]"
  have "set (map (snd \<circ> snd) [(10 :: nat, 10 :: nat, 1 :: nat), (20, 20, 0)]) = {..<length ?wires}"
    using demo_events(2) by (simp only: length_map) simp
  from fragmentation_roundtrip [OF demo_hex_law demo_blake3 demo_codec_laws(2) demo_fragments demo_big_payload(2,3)
      reassembler_default_ok demo_room demo_events(1) this demo_events(3)]
  obtain fs st' where "map (decode_fragment demo_ext demo_codec) ?wires = map Inr fs"
    and "push_all demo_ext (map (\<lambda>(now, created, j). (now, created, 7, fs ! j)) [(10, 10, 1), (20, 20, 0)]) reassembler_default
      = Some (replicate (length [(20 :: nat, 20 :: nat, 0 :: nat)]) (Inr None) @ [Inr (Some demo_big)], st')" by blast
  with demo_fragments show ?thesis by (intro exI [of _ ?wires] exI [of _ fs] exI [of _ st']) simp
qed

text \<open>C3. The reassembler stays within its ceilings for ever, and never panics. From the empty
  reassembler, whatever validated fragments arrive from whatever authors in whatever order, every
  push returns, the global and per-author byte counters equal the bytes actually held, they never
  exceed 8 MiB and 2 MiB, and every entry is still waiting for a chunk.\<close>

theorem reassembler_bounded:
  assumes "\<forall>(now, created, author, f) \<in> set evs. validate_fragment E f = Inr ()"
  shows "\<exists>rs st. push_all E evs reassembler_default = Some (rs, st) \<and> length rs = length evs
    \<and> re_global_bytes st = fmsum (\<lambda>e. chunk_bytes (re_chunks e)) (re_entries st)
    \<and> re_global_bytes st \<le> 8 * 1024 * 1024
    \<and> (\<forall>p. peer_bytes_of st p = peer_total (re_entries st) p \<and> peer_bytes_of st p \<le> 2 * 1024 * 1024)
    \<and> (\<forall>k e. fmlookup (re_entries st) k \<noteq> Some e \<or> None \<in> set (re_chunks e))"
proof -
  from push_all_ok [OF reassembler_default_ok assms] obtain rs st where
    r: "push_all E evs reassembler_default = Some (rs, st)" "length rs = length evs" and ok: "reassembler_ok E st" by blast
  have e: "re_bytes e = chunk_bytes (re_chunks e) \<and> None \<in> set (re_chunks e)"
    if "fmlookup (re_entries st) k = Some e" for k e
    using reassembler_okD [OF ok that] by (simp add: entry_ok_def entry_wf_def Let_def)
  then have "fmsum re_bytes (re_entries st) = fmsum (\<lambda>e. chunk_bytes (re_chunks e)) (re_entries st)"
    by (intro fmsum_cong) blast
  moreover have "accounted st" "within_ceilings st" using ok by (simp_all add: reassembler_ok_def)
  ultimately show ?thesis
    using r e unfolding accounted_def within_ceilings_def MAX_REASSEMBLY_BYTES_GLOBAL_def
        MAX_REASSEMBLY_BYTES_PER_PEER_def MAX_APP_MESSAGE_BYTES_def
    by (intro exI [of _ rs] exI [of _ st]) (auto simp del: split_paired_All)
qed

lemma demo_fragment_valid: "i < 2 \<Longrightarrow> validate_fragment demo_ext (fragment_at demo_ext demo_big i) = Inr ()"
  by (rule make_fragment_valid [OF demo_hex_law demo_blake3 demo_big_valid demo_big_payload(2)])
    (simp add: demo_big_payload(4))

lemma reassembler_bounded_witness:
  "\<exists>rs st. push_all demo_ext [(10, 10, 7, fragment_at demo_ext demo_big 0), (11, 11, 7, fragment_at demo_ext demo_big 0)]
     reassembler_default = Some (rs, st) \<and> re_global_bytes st \<le> 8 * 1024 * 1024"
proof -
  let ?evs = "[(10, 10, 7 :: u8, fragment_at demo_ext demo_big 0), (11, 11, 7, fragment_at demo_ext demo_big 0)]"
  have "\<forall>(now, created, author, f) \<in> set ?evs. validate_fragment demo_ext f = Inr ()"
    using demo_fragment_valid [of 0] by simp
  from reassembler_bounded [OF this] show ?thesis by blast
qed

text \<open>A reassembled message is authentic and whole: it validates, its source is the authenticated
  author of the last fragment, its metadata is that fragment's, and its payload has the announced
  length and the announced BLAKE3 digest.\<close>

theorem reassembled_message_authentic:
  assumes "reassembler_ok E st" and "validate_fragment E f = Inr ()"
    and "push E now created author f st = Some (Inr (Some m), st')"
  shows "validate_app_message E m = Inr () \<and> msg_source_peer_id m = pid_to_string E author
    \<and> msg_topic m = fr_topic f \<and> msg_network_id m = fr_network_id f \<and> msg_nonce_hex m = fr_nonce_hex f
    \<and> msg_timestamp_ns m = fr_timestamp_ns f \<and> msg_target_peer_id m = fr_target_peer_id f
    \<and> length (msg_payload m) = fr_payload_len f \<and> blake3_hex E (msg_payload m) = fr_payload_hash_hex f
    \<and> fmlookup (re_entries st') (author, fr_nonce_hex f, fr_topic f) = None \<and> reassembler_ok E st'"
  using assms(1,2)
proof (cases rule: push_cases [where now = now and author = author and created = created])
  case (completed st'')
  with assms(3) show ?thesis
    by (auto simp: finish_message_def Let_def same_message_def fragment_key_def split: if_splits)
qed (use assms(3) in auto)

lemma demo_pushes:
  obtains st1 st2 where "reassembler_ok demo_ext st1"
    and "push demo_ext 20 20 7 (fragment_at demo_ext demo_big 0) st1 = Some (Inr (Some demo_big), st2)"
proof -
  have "(1 :: nat) < length (payload_chunks demo_big)" by (simp add: demo_big_payload(4))
  from push_first [OF demo_hex_law demo_blake3 demo_big_valid demo_big_payload(2,3) reassembler_default_ok demo_room this,
      of 10 10]
  obtain st1 where p: "progress demo_ext demo_big 7 10 {1} st1" by blast
  then have ok: "reassembler_ok demo_ext st1" by (simp only: progress_def)
  have "[(20 :: nat, 20 :: nat, 0 :: nat)] \<noteq> []" "distinct (map (snd \<circ> snd) [(20 :: nat, 20 :: nat, 0 :: nat)])"
    "set (map (snd \<circ> snd) [(20 :: nat, 20 :: nat, 0 :: nat)]) = {..<length (payload_chunks demo_big)} - {1}"
    by (auto simp: demo_big_payload(4))
  from push_rest [OF demo_hex_law demo_blake3 demo_big_valid demo_big_payload(2,3) p this demo_events(3)]
  obtain st2 where "push_all demo_ext [(20, 20, 7, fragment_at demo_ext demo_big 0)] st1 = Some ([Inr (Some demo_big)], st2)"
    by auto
  with that ok show thesis by (auto simp: bind_eq_Some_conv)
qed

lemma reassembled_message_authentic_witness:
  "\<exists>st1 st2. push demo_ext 20 20 7 (fragment_at demo_ext demo_big 0) st1 = Some (Inr (Some demo_big), st2)
     \<and> msg_source_peer_id demo_big = pid_to_string demo_ext 7 \<and> reassembler_ok demo_ext st2"
proof -
  obtain st1 st2 where ok: "reassembler_ok demo_ext st1"
    and p: "push demo_ext 20 20 7 (fragment_at demo_ext demo_big 0) st1 = Some (Inr (Some demo_big), st2)"
    by (rule demo_pushes)
  from reassembled_message_authentic [OF ok demo_fragment_valid p] p show ?thesis by auto
qed

text \<open>Receiving a fragment twice is harmless: when the chunk is already stored, a second push of the
  same fragment delivers nothing and leaves exactly the state that expiry alone would leave.\<close>

theorem duplicate_fragment_ignored:
  assumes "reassembler_ok E st" and "validate_fragment E f = Inr ()"
    and "fmlookup (re_entries (expire now st)) (author, fr_nonce_hex f, fr_topic f) = Some e"
    and "re_chunks e ! fr_index f = Some (fr_payload f)"
  shows "\<exists>r. push E now created author f st = Some (r, expire now st) \<and> (\<forall>m. r \<noteq> Inr (Some m))"
  using assms(1,2)
proof (cases rule: push_cases [where now = now and author = author and created = created])
  case (stored st'')
  with assms(3,4) show ?thesis by (simp add: entry_for_def fragment_key_def)
next
  case (completed st'')
  with assms(3,4) show ?thesis by (simp add: entry_for_def fragment_key_def)
qed auto

lemma duplicate_fragment_ignored_witness:
  "\<exists>st1 r. push demo_ext 10 10 7 (fragment_at demo_ext demo_big 1) reassembler_default = Some (Inr None, st1)
     \<and> push demo_ext 20 20 7 (fragment_at demo_ext demo_big 1) st1 = Some (r, expire 20 st1) \<and> r \<noteq> Inr (Some demo_big)"
proof -
  let ?f = "fragment_at demo_ext demo_big 1" let ?key = "(7 :: u8, msg_nonce_hex demo_big, msg_topic demo_big)"
  obtain st1 where p: "push demo_ext 10 10 7 ?f reassembler_default = Some (Inr None, st1)"
    and pr: "progress demo_ext demo_big 7 10 {1} st1"
    by (rule push_first [OF demo_hex_law demo_blake3 demo_big_valid demo_big_payload(2,3) reassembler_default_ok,
        of 1 10 10])
      (simp_all add: reassembler_default_def peer_bytes_of_def demo_big_payload(1,4) MAX_REASSEMBLY_BYTES_PER_PEER_def
        MAX_REASSEMBLY_BYTES_GLOBAL_def MAX_APP_MESSAGE_BYTES_def)
  from pr obtain e where ok: "reassembler_ok demo_ext st1" and e: "fmlookup (re_entries st1) ?key = Some e"
    "re_created e = 10" "re_chunks e = partial_chunks demo_big {1}"
    unfolding progress_def by blast
  have c: "re_chunks e ! fr_index ?f = Some (fr_payload ?f)"
    by (simp add: e(3) partial_chunks_def make_fragment_def demo_big_payload(4))
  have "fmlookup (re_entries (expire 20 st1)) ?key = Some e"
    by (rule expire_keeps [OF ok e(1)]) (simp add: e(2) FRAGMENT_EXPIRY_def NS_PER_SEC_def)
  then have "fmlookup (re_entries (expire 20 st1)) (7, fr_nonce_hex ?f, fr_topic ?f) = Some e"
    by (simp add: make_fragment_def)
  from duplicate_fragment_ignored [OF ok demo_fragment_valid this c, where created = 20] p
  show ?thesis by auto
qed

end
