(* ===== verification/Aged_Store.thy ===== *)
theory Aged_Store
  imports P2P_Prelude
begin

text \<open>
  The contract of a bounded store with an oldest-first index, which the reputation store and the
  peer book share: a map of records and a \<open>BTreeSet\<close> of (stamp, key) pairs for exactly the
  records that may be evicted. While the map exceeds its limit the first pair of the index goes,
  together with its record. The locale \<open>aged_store\<close> states that an implementation's eviction
  is this loop; its lemmas say who survives.
\<close>

definition indexed :: "('r \<Rightarrow> nat option) \<Rightarrow> (nat \<times> 'k::linorder) list \<Rightarrow> ('k, 'r) fmap \<Rightarrow> bool" where
  "indexed stamp idx m \<longleftrightarrow> bset_ok idx
     \<and> (\<forall>t k. (t, k) \<in> set idx \<longleftrightarrow> (\<exists>r. fmlookup m k = Some r \<and> stamp r = Some t))"

fun evict_oldest :: "nat \<Rightarrow> (nat \<times> 'k::linorder) list \<Rightarrow> ('k, 'r) fmap
    \<Rightarrow> (nat \<times> 'k) list \<times> ('k, 'r) fmap" where
  "evict_oldest limit [] m = ([], m)"
| "evict_oldest limit (oldest # idx) m =
     (if limit < fmsize m then evict_oldest limit idx (fmdrop (snd oldest) m) else (oldest # idx, m))"

section \<open>The index\<close>

lemma indexedD:
  "indexed stamp idx m \<Longrightarrow> (t, k) \<in> set idx \<Longrightarrow> \<exists>r. fmlookup m k = Some r \<and> stamp r = Some t"
  "indexed stamp idx m \<Longrightarrow> fmlookup m k = Some r \<Longrightarrow> stamp r = Some t \<Longrightarrow> (t, k) \<in> set idx"
  "indexed stamp idx m \<Longrightarrow> bset_ok idx"
  unfolding indexed_def by blast+

lemma indexedI:
  assumes "bset_ok idx" and "\<And>t k. (t, k) \<in> set idx \<Longrightarrow> \<exists>r. fmlookup m k = Some r \<and> stamp r = Some t"
    and "\<And>t k r. fmlookup m k = Some r \<Longrightarrow> stamp r = Some t \<Longrightarrow> (t, k) \<in> set idx"
  shows "indexed stamp idx m"
  unfolding indexed_def using assms by blast

lemma indexed_empty [simp]: "indexed stamp [] fmempty"
  by (rule indexedI) auto

lemma indexed_tl:
  assumes "indexed stamp ((t, k) # idx) m"
  shows "indexed stamp idx (fmdrop k m)"
proof (rule indexedI)
  have ok: "bset_ok ((t, k) # idx)" by (rule indexedD(3) [OF assms])
  show "bset_ok idx" using bset_ok_tl [OF ok] by simp
  obtain r where r: "fmlookup m k = Some r" "stamp r = Some t" using indexedD(1) [OF assms, of t k] by auto
  show "\<exists>r. fmlookup (fmdrop k m) k' = Some r \<and> stamp r = Some t'" if "(t', k') \<in> set idx" for t' k'
  proof -
    obtain r' where r': "fmlookup m k' = Some r'" "stamp r' = Some t'" using indexedD(1) [OF assms, of t' k'] \<open>(t', k') \<in> set idx\<close> by auto
    have "k' \<noteq> k" using ok \<open>(t', k') \<in> set idx\<close> r r' by (auto simp: bset_ok_Cons)
    with r' show ?thesis by simp
  qed
  show "(t', k') \<in> set idx" if "fmlookup (fmdrop k m) k' = Some r'" "stamp r' = Some t'" for t' k' r'
    using \<open>fmlookup (fmdrop k m) k' = Some r'\<close> \<open>stamp r' = Some t'\<close> indexedD(2) [OF assms, of k' r' t'] by (auto split: if_splits)
qed

text \<open>Replacing one record: its old pair leaves the index, its new pair enters.\<close>

definition reindex :: "nat option \<Rightarrow> nat option \<Rightarrow> 'k::linorder \<Rightarrow> (nat \<times> 'k) list \<Rightarrow> (nat \<times> 'k) list" where
  "reindex old new k idx = (let idx' = (case old of None \<Rightarrow> idx | Some t \<Rightarrow> bset_remove (t, k) idx)
     in case new of None \<Rightarrow> idx' | Some t \<Rightarrow> bset_insert (t, k) idx')"

lemma indexed_upd:
  assumes ix: "indexed stamp idx m"
    and old: "old = (case fmlookup m k of None \<Rightarrow> None | Some r \<Rightarrow> stamp r)"
  shows "indexed stamp (reindex old (stamp r') k idx) (fmupd k r' m)"
proof (rule indexedI)
  show "bset_ok (reindex old (stamp r') k idx)"
    using indexedD(3) [OF ix] by (auto simp: reindex_def Let_def split: option.split)
  have mem: "(t, j) \<in> set (reindex old (stamp r') k idx) \<longleftrightarrow>
      (if j = k then stamp r' = Some t else (t, j) \<in> set idx)" for t j
    using indexedD(1) [OF ix, of t k] old
    by (auto simp: reindex_def Let_def split: option.splits)
  show "\<exists>r. fmlookup (fmupd k r' m) j = Some r \<and> stamp r = Some t" if "(t, j) \<in> set (reindex old (stamp r') k idx)" for t j
    using that indexedD(1) [OF ix, of t j] by (auto simp: mem split: if_splits)
  show "(t, j) \<in> set (reindex old (stamp r') k idx)" if "fmlookup (fmupd k r' m) j = Some r" "stamp r = Some t" for t j r
    using that indexedD(2) [OF ix, of j r t] by (auto simp: mem split: if_splits)
qed

lemma indexed_drop:
  assumes ix: "indexed stamp idx m"
    and old: "old = (case fmlookup m k of None \<Rightarrow> None | Some r \<Rightarrow> stamp r)"
  shows "indexed stamp (reindex old None k idx) (fmdrop k m)"
proof (rule indexedI)
  show "bset_ok (reindex old None k idx)"
    using indexedD(3) [OF ix] by (auto simp: reindex_def Let_def split: option.split)
  have mem: "(t, j) \<in> set (reindex old None k idx) \<longleftrightarrow> j \<noteq> k \<and> (t, j) \<in> set idx" for t j
    using indexedD(1) [OF ix, of t k] old
    by (auto simp: reindex_def Let_def split: option.splits)
  show "\<exists>r. fmlookup (fmdrop k m) j = Some r \<and> stamp r = Some t" if "(t, j) \<in> set (reindex old None k idx)" for t j
    using that indexedD(1) [OF ix, of t j] by (auto simp: mem)
  show "(t, j) \<in> set (reindex old None k idx)" if "fmlookup (fmdrop k m) j = Some r" "stamp r = Some t" for t j r
    using that indexedD(2) [OF ix, of j r t] by (auto simp: mem split: if_splits)
qed

section \<open>Eviction\<close>

lemma evict_oldest_spec:
  assumes "indexed stamp idx m"
  obtains n where "fst (evict_oldest limit idx m) = drop n idx"
    and "snd (evict_oldest limit idx m) = fmfilter (\<lambda>k. k \<notin> snd ` set (take n idx)) m"
    and "indexed stamp (drop n idx) (snd (evict_oldest limit idx m))"
    and "fmsize (snd (evict_oldest limit idx m)) \<le> limit \<or> drop n idx = []"
    and "n = 0 \<or> limit \<le> fmsize (snd (evict_oldest limit idx m))"
    and "n \<le> length idx"
  using assms
proof (induction idx arbitrary: m thesis)
  case Nil
  show ?case by (rule Nil(1) [of 0]) (use Nil(2) in \<open>simp_all add: fmfilter_true\<close>)
next
  case (Cons e idx)
  obtain t k where e: "e = (t, k)" by (cases e)
  show ?case
  proof (cases "limit < fmsize m")
    case False
    show ?thesis
      by (rule Cons.prems(1) [of 0]) (use False Cons.prems(2) in \<open>simp_all add: fmfilter_true\<close>)
  next
    case True
    have ix: "indexed stamp idx (fmdrop k m)" using indexed_tl Cons.prems(2) e by blast
    obtain r where r: "fmlookup m k = Some r" using indexedD(1) [OF Cons.prems(2), of t k] e by auto
    from Cons.IH [OF _ ix] obtain n where n: "fst (evict_oldest limit idx (fmdrop k m)) = drop n idx"
      "snd (evict_oldest limit idx (fmdrop k m)) = fmfilter (\<lambda>k. k \<notin> snd ` set (take n idx)) (fmdrop k m)"
      "indexed stamp (drop n idx) (snd (evict_oldest limit idx (fmdrop k m)))"
      "fmsize (snd (evict_oldest limit idx (fmdrop k m))) \<le> limit \<or> drop n idx = []"
      "n = 0 \<or> limit \<le> fmsize (snd (evict_oldest limit idx (fmdrop k m)))" "n \<le> length idx" by blast
    have f: "fmfilter (\<lambda>k. k \<notin> snd ` set (take n idx)) (fmdrop k m) = fmfilter (\<lambda>k. k \<notin> snd ` set (take (Suc n) (e # idx))) m"
      by (rule fmap_ext) (auto simp: e)
    have "limit \<le> fmsize (snd (evict_oldest limit idx (fmdrop k m)))"
      using n(2,5) fmsize_fmdrop [OF r] True by (cases "n = 0") (simp_all add: fmfilter_true)
    with True n f show ?thesis
      by (intro Cons.prems(1) [of "Suc n"]) (simp_all add: e)
  qed
qed

locale aged_store =
  fixes items :: "'s \<Rightarrow> ('k::linorder, 'r) fmap"
    and index :: "'s \<Rightarrow> (nat \<times> 'k) list"
    and stamp :: "'r \<Rightarrow> nat option"
    and limit :: "'s \<Rightarrow> nat"
    and evict :: "'s \<Rightarrow> 's"
  assumes evict_refines: "(index (evict s), items (evict s)) = evict_oldest (limit s) (index s) (items s)"
    and evict_limit: "limit (evict s) = limit s"
begin

lemma evict_parts:
  "index (evict s) = fst (evict_oldest (limit s) (index s) (items s))"
  "items (evict s) = snd (evict_oldest (limit s) (index s) (items s))"
  using evict_refines [of s] by (metis fst_conv, metis snd_conv)

lemma evict_indexed: "indexed stamp (index s) (items s) \<Longrightarrow> indexed stamp (index (evict s)) (items (evict s))"
  by (rule evict_oldest_spec [of stamp "index s" "items s" "limit s"]) (simp_all add: evict_parts)

lemma evict_idle: "fmsize (items s) \<le> limit s \<Longrightarrow> items (evict s) = items s \<and> index (evict s) = index s"
  by (cases "index s") (simp_all add: evict_parts)

text \<open>Only evictable records go, and the rest is unchanged.\<close>

lemma evict_protects:
  assumes "indexed stamp (index s) (items s)" and "fmlookup (items s) k = Some r" and "stamp r = None"
  shows "fmlookup (items (evict s)) k = Some r"
proof (rule evict_oldest_spec [OF assms(1), of "limit s"])
  fix n
  assume f: "snd (evict_oldest (limit s) (index s) (items s)) = fmfilter (\<lambda>k. k \<notin> snd ` set (take n (index s))) (items s)"
  have "k \<notin> snd ` set (take n (index s))"
    using indexedD(1) [OF assms(1), of _ k] assms(2,3) by (force dest: in_set_takeD)
  then show ?thesis using assms(2) by (simp add: evict_parts f)
qed

lemma evict_subset: "indexed stamp (index s) (items s) \<Longrightarrow> fmlookup (items (evict s)) k = Some r \<Longrightarrow> fmlookup (items s) k = Some r"
  by (rule evict_oldest_spec [of stamp "index s" "items s" "limit s"]) (auto simp: evict_parts split: if_splits)

text \<open>The bound holds, or nothing evictable is left; and no record goes needlessly.\<close>

lemma evict_bound:
  assumes "indexed stamp (index s) (items s)"
  shows "fmsize (items (evict s)) \<le> limit s \<or> (\<forall>k r. fmlookup (items (evict s)) k = Some r \<longrightarrow> stamp r = None)"
proof (rule evict_oldest_spec [OF assms, of "limit s"])
  fix n
  assume a: "fst (evict_oldest (limit s) (index s) (items s)) = drop n (index s)"
    and i: "indexed stamp (drop n (index s)) (snd (evict_oldest (limit s) (index s) (items s)))"
    and b: "fmsize (snd (evict_oldest (limit s) (index s) (items s))) \<le> limit s \<or> drop n (index s) = []"
  from b show ?thesis
  proof
    assume "drop n (index s) = []"
    with i have "indexed stamp [] (items (evict s))" by (simp add: evict_parts)
    then have "stamp r = None" if "fmlookup (items (evict s)) k = Some r" for k r
      using indexedD(2) [of stamp "[]" "items (evict s)" k r] that by (cases "stamp r") auto
    then show ?thesis by blast
  qed (simp add: evict_parts)
qed

lemma evict_minimal:
  assumes "indexed stamp (index s) (items s)"
  shows "min (limit s) (fmsize (items s)) \<le> fmsize (items (evict s))"
proof (rule evict_oldest_spec [OF assms, of "limit s"])
  fix n
  assume f: "snd (evict_oldest (limit s) (index s) (items s)) = fmfilter (\<lambda>k. k \<notin> snd ` set (take n (index s))) (items s)"
    and n: "n = 0 \<or> limit s \<le> fmsize (snd (evict_oldest (limit s) (index s) (items s)))"
  have "items (evict s) = items s" if "n = 0"
    using f that by (simp only: evict_parts(2)) (simp add: fmfilter_true)
  with n show ?thesis by (auto simp: evict_parts(2))
qed

text \<open>Eviction is oldest first: whoever goes is before whoever stays.\<close>

lemma evict_oldest_first:
  assumes ix: "indexed stamp (index s) (items s)"
    and gone: "fmlookup (items s) k = Some r" "stamp r = Some t" "fmlookup (items (evict s)) k = None"
    and stays: "fmlookup (items (evict s)) j = Some q" "stamp q = Some u"
  shows "(t, k) < (u, j)"
proof (rule evict_oldest_spec [OF ix, of "limit s"])
  fix n
  assume f: "snd (evict_oldest (limit s) (index s) (items s)) = fmfilter (\<lambda>k. k \<notin> snd ` set (take n (index s))) (items s)"
    and i: "indexed stamp (drop n (index s)) (snd (evict_oldest (limit s) (index s) (items s)))"
  have u: "(u, j) \<in> set (drop n (index s))"
    using indexedD(2) [OF i, of j q u] stays by (simp add: evict_parts)
  have "k \<in> snd ` set (take n (index s))"
    using gone(1,3) by (simp add: evict_parts f split: if_splits)
  then obtain t' where t': "(t', k) \<in> set (take n (index s))" by auto
  then have "t' = t" using indexedD(1) [OF ix, of t' k] gone(1,2) by (auto dest: in_set_takeD)
  moreover have "x < y" if "x \<in> set (take n xs)" "y \<in> set (drop n xs)" "bset_ok xs" for x y and xs :: "(nat \<times> 'k) list"
  proof -
    have "sorted (take n xs @ drop n xs)" "distinct (take n xs @ drop n xs)"
      using that(3) by (simp_all only: append_take_drop_id) (simp_all add: bset_ok_def)
    then show ?thesis using that(1,2) by (simp only: sorted_append distinct_append) force
  qed
  ultimately show ?thesis using t' u indexedD(3) [OF ix] by blast
qed

end

end
