(* ===== verification/Reputation.thy ===== *)
theory Reputation
  imports Pulse Aged_Store
begin

text \<open>
  \<open>crates/protocol/reputation.rs\<close>: the bounded reputation store. Instants are nanoseconds and
  arguments of the operations; scores are \<open>int\<close> clamped to 32 bits, counters saturate at 64 bits.
  \<open>tick_decay\<close> visits the peers in an unspecified order; the model takes the increasing one, and
  \<open>tick_lookup\<close> shows that each peer's result depends on that peer alone.
\<close>

definition MAX_TRACKED_REPUTATION_PEERS :: nat where "MAX_TRACKED_REPUTATION_PEERS = 8192"
definition NEUTRAL_RETENTION_INTERVALS :: nat where "NEUTRAL_RETENTION_INTERVALS = 10"

record ReputationEntry =
  score :: int
  invalid :: nat
  accepted :: nat
  duplicate_ignored :: nat
  last_updated :: nat

definition reputation_entry_default :: "nat \<Rightarrow> ReputationEntry" where
  "reputation_entry_default now = \<lparr>score = 0, invalid = 0, accepted = 0, duplicate_ignored = 0,
     last_updated = now\<rparr>"

record 'p ReputationStore =
  by_peer :: "('p, ReputationEntry) fmap"
  age_order :: "(nat \<times> 'p) list"
  rep_cfg :: ReputationConfig
  max_peers :: nat

definition reputation_with_capacity :: "ReputationConfig \<Rightarrow> nat \<Rightarrow> 'p ReputationStore" where
  "reputation_with_capacity cfg n = \<lparr>by_peer = fmempty, age_order = [], rep_cfg = cfg, max_peers = max n 1\<rparr>"

definition reputation_new :: "ReputationConfig \<Rightarrow> 'p ReputationStore" where
  "reputation_new cfg = reputation_with_capacity cfg MAX_TRACKED_REPUTATION_PEERS"

definition reputation_store_default :: "'p ReputationStore" where
  "reputation_store_default = reputation_new reputation_config_default"

definition enforce_capacity :: "'p::linorder ReputationStore \<Rightarrow> 'p ReputationStore" where
  "enforce_capacity st = (let (idx, m) = evict_oldest (max_peers st) (age_order st) (by_peer st)
     in st\<lparr>age_order := idx, by_peer := m\<rparr>)"

definition update_peer :: "nat \<Rightarrow> 'p::linorder \<Rightarrow> (ReputationEntry \<Rightarrow> ReputationEntry) \<Rightarrow> 'p ReputationStore
    \<Rightarrow> 'p ReputationStore" where
  "update_peer now peer update st = (
     let st = (case fmlookup (by_peer st) peer of
           Some entry \<Rightarrow> st\<lparr>age_order := bset_remove (last_updated entry, peer) (age_order st),
             by_peer := fmupd peer ((update entry)\<lparr>last_updated := now\<rparr>) (by_peer st)\<rparr>
         | None \<Rightarrow> st\<lparr>by_peer := fmupd peer (update (reputation_entry_default now)) (by_peer st)\<rparr>)
     in enforce_capacity (st\<lparr>age_order := bset_insert (now, peer) (age_order st)\<rparr>))"

definition accept :: "nat \<Rightarrow> 'p::linorder \<Rightarrow> 'p ReputationStore \<Rightarrow> 'p ReputationStore" where
  "accept now peer st = update_peer now peer (\<lambda>ent.
     ent\<lparr>accepted := sat_add 64 (accepted ent) 1,
         score := i32_clamp (score ent + accept_reward (rep_cfg st))\<rparr>) st"

definition penalize_invalid :: "nat \<Rightarrow> 'p::linorder \<Rightarrow> 'p ReputationStore \<Rightarrow> 'p ReputationStore" where
  "penalize_invalid now peer st = update_peer now peer (\<lambda>ent.
     ent\<lparr>invalid := sat_add 64 (invalid ent) 1,
         score := i32_clamp (score ent - invalid_penalty (rep_cfg st))\<rparr>) st"

definition ignore_duplicate :: "nat \<Rightarrow> 'p::linorder \<Rightarrow> 'p ReputationStore \<Rightarrow> 'p ReputationStore" where
  "ignore_duplicate now peer st = update_peer now peer (\<lambda>ent.
     ent\<lparr>duplicate_ignored := sat_add 64 (duplicate_ignored ent) 1\<rparr>) st"

definition remove_peer :: "'p::linorder \<Rightarrow> 'p ReputationStore \<Rightarrow> bool \<times> 'p ReputationStore" where
  "remove_peer peer st = (case fmlookup (by_peer st) peer of None \<Rightarrow> (False, st)
     | Some entry \<Rightarrow> (True, st\<lparr>by_peer := fmdrop peer (by_peer st),
         age_order := bset_remove (last_updated entry, peer) (age_order st)\<rparr>))"

text \<open>\<open>Duration::from_secs\<close> and the saturated \<open>checked_mul\<close>, in nanoseconds.\<close>

definition decay_interval :: "ReputationConfig \<Rightarrow> nat" where
  "decay_interval cfg = max (decay_interval_secs cfg) 1 * NS_PER_SEC"

definition neutral_retention :: "ReputationConfig \<Rightarrow> nat" where
  "neutral_retention cfg = (
     if max (decay_interval_secs cfg) 1 * NEUTRAL_RETENTION_INTERVALS < 2 ^ 64
     then decay_interval cfg * NEUTRAL_RETENTION_INTERVALS
     else 2 ^ 64 * NS_PER_SEC - 1)"

definition decayed_score :: "int \<Rightarrow> int \<Rightarrow> int" where
  "decayed_score step s = (if s < 0 then min (i32_clamp (s + step)) 0 else max (i32_clamp (s - step)) 0)"

definition decay_peer :: "nat \<Rightarrow> 'p::linorder \<Rightarrow> 'p ReputationStore \<Rightarrow> 'p ReputationStore" where
  "decay_peer now peer st = (case fmlookup (by_peer st) peer of None \<Rightarrow> st
     | Some entry \<Rightarrow> (let age = now - last_updated entry in
         if score entry = 0 \<and> neutral_retention (rep_cfg st) \<le> age then snd (remove_peer peer st)
         else if score entry = 0 \<or> age < decay_interval (rep_cfg st) then st
         else st\<lparr>age_order := bset_insert (now, peer) (bset_remove (last_updated entry, peer) (age_order st)),
           by_peer := fmupd peer (entry\<lparr>score := decayed_score (max (decay_step (rep_cfg st)) 1) (score entry),
             last_updated := now\<rparr>) (by_peer st)\<rparr>))"

definition tick_decay :: "nat \<Rightarrow> 'p::linorder ReputationStore \<Rightarrow> 'p ReputationStore" where
  "tick_decay now st = fold (decay_peer now) (sorted_list_of_fset (fmdom (by_peer st))) st"

section \<open>The store implements the bounded aged store\<close>

abbreviation rep_stamp :: "ReputationEntry \<Rightarrow> nat option" where
  "rep_stamp e \<equiv> Some (last_updated e)"

interpretation rep: aged_store by_peer age_order rep_stamp max_peers enforce_capacity
  by unfold_locales (simp_all add: enforce_capacity_def split_beta Let_def)

text \<open>The steps of a store's life, and what holds after any number of them.\<close>

datatype 'p rep_op = Accept_op 'p | Penalize_op 'p | Duplicate_op 'p | Tick_op

fun rep_step :: "nat \<Rightarrow> 'p::linorder rep_op \<Rightarrow> 'p ReputationStore \<Rightarrow> 'p ReputationStore" where
  "rep_step now (Accept_op p) st = accept now p st"
| "rep_step now (Penalize_op p) st = penalize_invalid now p st"
| "rep_step now (Duplicate_op p) st = ignore_duplicate now p st"
| "rep_step now Tick_op st = tick_decay now st"

inductive rep_reachable :: "ReputationConfig \<Rightarrow> nat \<Rightarrow> 'p::linorder ReputationStore \<Rightarrow> bool" for cfg n where
  rep_init: "rep_reachable cfg n (reputation_with_capacity cfg n)"
| rep_next: "rep_reachable cfg n st \<Longrightarrow> rep_reachable cfg n (rep_step now op st)"

definition entry_typed :: "ReputationEntry \<Rightarrow> bool" where
  "entry_typed e \<longleftrightarrow> - (2 ^ 31) \<le> score e \<and> score e \<le> 2 ^ 31 - 1
     \<and> invalid e < 2 ^ 64 \<and> accepted e < 2 ^ 64 \<and> duplicate_ignored e < 2 ^ 64"

definition rep_ok :: "'p::linorder ReputationStore \<Rightarrow> bool" where
  "rep_ok st \<longleftrightarrow> indexed rep_stamp (age_order st) (by_peer st) \<and> fmsize (by_peer st) \<le> max_peers st
     \<and> 0 < max_peers st
     \<and> (\<forall>p e. fmlookup (by_peer st) p = Some e \<longrightarrow> entry_typed e)"

lemma rep_okD:
  "rep_ok st \<Longrightarrow> indexed rep_stamp (age_order st) (by_peer st)" "rep_ok st \<Longrightarrow> fmsize (by_peer st) \<le> max_peers st"
  "rep_ok st \<Longrightarrow> fmlookup (by_peer st) p = Some e \<Longrightarrow> entry_typed e" "rep_ok st \<Longrightarrow> 0 < max_peers st"
  unfolding rep_ok_def by blast+

lemma enforce_cfg [simp]: "rep_cfg (enforce_capacity st) = rep_cfg st" "max_peers (enforce_capacity st) = max_peers st"
  by (simp_all add: enforce_capacity_def split_beta Let_def)

definition updated_entry :: "nat \<Rightarrow> (ReputationEntry \<Rightarrow> ReputationEntry) \<Rightarrow> ReputationEntry option \<Rightarrow> ReputationEntry" where
  "updated_entry now update old = (case old of Some e \<Rightarrow> (update e)\<lparr>last_updated := now\<rparr>
     | None \<Rightarrow> update (reputation_entry_default now))"

text \<open>An update is a replacement of one record followed by the eviction.\<close>

lemma update_peer_reindex:
  assumes keeps: "\<And>e. last_updated (update e) = last_updated e"
  shows "update_peer now peer update st = enforce_capacity (st\<lparr>
     by_peer := fmupd peer (updated_entry now update (fmlookup (by_peer st) peer)) (by_peer st),
     age_order := reindex (map_option last_updated (fmlookup (by_peer st) peer)) (Some now) peer (age_order st)\<rparr>)"
    and "last_updated (updated_entry now update old) = now"
  using keeps by (auto simp: update_peer_def updated_entry_def reindex_def reputation_entry_default_def
      Let_def split: option.split)

lemma update_indexed:
  assumes "indexed rep_stamp (age_order st) (by_peer st)" and "last_updated e = now"
  shows "indexed rep_stamp (reindex (map_option last_updated (fmlookup (by_peer st) p)) (Some now) p (age_order st))
      (fmupd p e (by_peer st))"
proof -
  have "map_option last_updated (fmlookup (by_peer st) p)
      = (case fmlookup (by_peer st) p of None \<Rightarrow> None | Some r \<Rightarrow> rep_stamp r)" by (simp split: option.split)
  from indexed_upd [OF assms(1) this, of e] assms(2) show ?thesis by simp
qed

lemma update_peer_ok:
  assumes ok: "rep_ok st" and keeps: "\<And>e. last_updated (update e) = last_updated e"
    and typed: "\<And>e. entry_typed e \<Longrightarrow> entry_typed (update e)"
  shows "rep_ok (update_peer now p update st)"
proof -
  let ?e = "updated_entry now update (fmlookup (by_peer st) p)"
  let ?s = "st\<lparr>by_peer := fmupd p ?e (by_peer st),
     age_order := reindex (map_option last_updated (fmlookup (by_peer st) p)) (Some now) p (age_order st)\<rparr>"
  note U = update_peer_reindex [OF keeps]
  have ix: "indexed rep_stamp (age_order ?s) (by_peer ?s)"
    using update_indexed [OF rep_okD(1) [OF ok] U(2)] by simp
  have lt: "entry_typed (e\<lparr>last_updated := t\<rparr>) = entry_typed e" for e t by (simp add: entry_typed_def)
  have d: "entry_typed (reputation_entry_default now)" by (simp add: entry_typed_def reputation_entry_default_def)
  have "entry_typed ?e"
    using typed d rep_okD(3) [OF ok, of p] by (auto simp: updated_entry_def lt split: option.split)
  then have ty: "entry_typed e" if "fmlookup (by_peer ?s) q = Some e" for q e
    using that rep_okD(3) [OF ok, of q e] by (auto split: if_splits)
  have "fmsize (by_peer (enforce_capacity ?s)) \<le> max_peers ?s"
    using rep.evict_bound [OF ix] fmsize_empty
    by (metis (no_types, lifting) fmdom_empty fmempty_lookup fmap_ext option.distinct(1) option.exhaust zero_le)
  with rep.evict_indexed [OF ix] ty rep.evict_subset [OF ix] show ?thesis
    using rep_okD(4) [OF ok] unfolding U(1) rep_ok_def by (metis (no_types, lifting) enforce_cfg(2) ReputationStore.select_convs(4) ReputationStore.surjective ReputationStore.update_convs)
qed

lemma accept_ok: "rep_ok st \<Longrightarrow> rep_ok (accept now p st)"
  unfolding accept_def using i32_clamp_range sat_add_bound [of 64]
  by (intro update_peer_ok) (auto simp: entry_typed_def)

lemma penalize_ok: "rep_ok st \<Longrightarrow> rep_ok (penalize_invalid now p st)"
  unfolding penalize_invalid_def using i32_clamp_range sat_add_bound [of 64]
  by (intro update_peer_ok) (auto simp: entry_typed_def)

lemma duplicate_ok: "rep_ok st \<Longrightarrow> rep_ok (ignore_duplicate now p st)"
  unfolding ignore_duplicate_def using sat_add_bound [of 64]
  by (intro update_peer_ok) (auto simp: entry_typed_def)

section \<open>Decay\<close>

definition decay_entry :: "ReputationConfig \<Rightarrow> nat \<Rightarrow> ReputationEntry \<Rightarrow> ReputationEntry option" where
  "decay_entry cfg now e = (
     if score e = 0 \<and> neutral_retention cfg \<le> now - last_updated e then None
     else if score e = 0 \<or> now - last_updated e < decay_interval cfg then Some e
     else Some (e\<lparr>score := decayed_score (max (decay_step cfg) 1) (score e), last_updated := now\<rparr>))"

lemma decay_peer_cfg [simp]: "rep_cfg (decay_peer now p st) = rep_cfg st" "max_peers (decay_peer now p st) = max_peers st"
  by (auto simp: decay_peer_def remove_peer_def Let_def split: option.split)

lemma decay_peer_lookup:
  "fmlookup (by_peer (decay_peer now p st)) q = (if q = p
     then Option.bind (fmlookup (by_peer st) p) (decay_entry (rep_cfg st) now) else fmlookup (by_peer st) q)"
  by (auto simp: decay_peer_def remove_peer_def decay_entry_def Let_def split: option.split)

lemma decayed_score_range:
  "- (2 ^ 31) \<le> s \<Longrightarrow> s \<le> 2 ^ 31 - 1 \<Longrightarrow> - (2 ^ 31) \<le> decayed_score step s \<and> decayed_score step s \<le> 2 ^ 31 - 1"
  using i32_clamp_range [of "s + step"] i32_clamp_range [of "s - step"] by (auto simp: decayed_score_def)

lemma decayed_score_abs:
  assumes "- (2 ^ 31) \<le> s" and "s \<le> 2 ^ 31 - 1" and "0 < step"
  shows "\<bar>decayed_score step s\<bar> = max (\<bar>s\<bar> - step) 0"
  using assms by (auto simp: decayed_score_def i32_clamp_def)

lemma decay_entry_typed: "entry_typed e \<Longrightarrow> decay_entry cfg now e = Some e' \<Longrightarrow> entry_typed e'"
  using decayed_score_range [of "score e"] by (auto simp: decay_entry_def entry_typed_def split: if_splits)

lemma decay_peer_ok:
  assumes ok: "rep_ok st"
  shows "rep_ok (decay_peer now p st)"
proof (cases "fmlookup (by_peer st) p")
  case None
  then show ?thesis using ok by (simp add: decay_peer_def)
next
  case (Some e)
  have old: "map_option last_updated (fmlookup (by_peer st) p) = (case fmlookup (by_peer st) p of None \<Rightarrow> None | Some r \<Rightarrow> rep_stamp r)"
    by (simp split: option.split)
  have "indexed rep_stamp (age_order (decay_peer now p st)) (by_peer (decay_peer now p st))"
    using indexed_drop [OF rep_okD(1) [OF ok] old] rep_okD(1) [OF ok]
      update_indexed [OF rep_okD(1) [OF ok], of "e\<lparr>score := decayed_score (max (decay_step (rep_cfg st)) 1) (score e), last_updated := now\<rparr>" now p]
    by (auto simp: decay_peer_def remove_peer_def Some Let_def reindex_def)
  moreover have "fmdom (by_peer (decay_peer now p st)) |\<subseteq>| fmdom (by_peer st)"
    by (auto simp: fmlookup_dom_iff decay_peer_lookup split: if_splits) (metis Some)
  then have "fmsize (by_peer (decay_peer now p st)) \<le> fmsize (by_peer st)" by (rule fcard_mono)
  moreover have "entry_typed e'" if "fmlookup (by_peer (decay_peer now p st)) q = Some e'" for q e'
    using that rep_okD(3) [OF ok, of q] decay_entry_typed
    by (auto simp: decay_peer_lookup bind_eq_Some_conv split: if_splits)
  ultimately show ?thesis using rep_okD(2,4) [OF ok] unfolding rep_ok_def by auto
qed

lemma fold_decay:
  assumes "distinct ps"
  shows "fmlookup (by_peer (fold (decay_peer now) ps st)) q = (if q \<in> set ps
     then Option.bind (fmlookup (by_peer st) q) (decay_entry (rep_cfg st) now) else fmlookup (by_peer st) q)"
    and "rep_cfg (fold (decay_peer now) ps st) = rep_cfg st"
  using assms by (induction ps arbitrary: st) (auto simp: decay_peer_lookup)

lemma tick_lookup:
  "fmlookup (by_peer (tick_decay now st)) q = Option.bind (fmlookup (by_peer st) q) (decay_entry (rep_cfg st) now)"
  "rep_cfg (tick_decay now st) = rep_cfg st"
proof -
  let ?ps = "sorted_list_of_fset (fmdom (by_peer st))"
  have d: "distinct ?ps" by (simp add: sorted_list_of_fset.rep_eq)
  have "fmlookup (by_peer st) q = None" if "q \<notin> set ?ps" using that by (simp add: fmlookup_dom_iff)
  then show "fmlookup (by_peer (tick_decay now st)) q = Option.bind (fmlookup (by_peer st) q) (decay_entry (rep_cfg st) now)"
    by (simp add: tick_decay_def fold_decay [OF d])
  show "rep_cfg (tick_decay now st) = rep_cfg st" by (simp add: tick_decay_def fold_decay [OF d])
qed

lemma tick_ok: "rep_ok st \<Longrightarrow> rep_ok (tick_decay now st)"
proof -
  have "rep_ok st \<Longrightarrow> rep_ok (fold (decay_peer now) ps st)" for ps
    by (induction ps arbitrary: st) (simp_all add: decay_peer_ok)
  then show "rep_ok st \<Longrightarrow> rep_ok (tick_decay now st)" by (simp add: tick_decay_def)
qed

lemma rep_step_ok: "rep_ok st \<Longrightarrow> rep_ok (rep_step now op st)"
  by (cases op) (simp_all add: accept_ok penalize_ok duplicate_ok tick_ok)

lemma rep_init_ok: "rep_ok (reputation_with_capacity cfg n)"
  by (simp add: rep_ok_def reputation_with_capacity_def fcard_fempty less_max_iff_disj)

lemma rep_step_cfg: "rep_cfg (rep_step now op st) = rep_cfg st" "max_peers (rep_step now op st) = max_peers st"
proof -
  have f: "max_peers (fold (decay_peer now) ps st) = max_peers st" for ps
    by (induction ps arbitrary: st) simp_all
  have u: "rep_cfg (update_peer now p f st) = rep_cfg st" "max_peers (update_peer now p f st) = max_peers st" for p f
    by (auto simp: update_peer_def Let_def split: option.split)
  show "rep_cfg (rep_step now op st) = rep_cfg st" "max_peers (rep_step now op st) = max_peers st"
    by (cases op; simp add: accept_def penalize_invalid_def ignore_duplicate_def u tick_lookup(2);
        simp add: tick_decay_def f)+
qed

lemma ticks_neutral:
  assumes "fmlookup (by_peer st) p = Some e" and "rep_ok st"
    and "sorted_wrt (\<lambda>a b. a + decay_interval (rep_cfg st) \<le> b) (last_updated e # ts)"
    and "\<bar>score e\<bar> \<le> int (length ts) * max (decay_step (rep_cfg st)) 1"
  shows "case fmlookup (by_peer (fold tick_decay ts st)) p of None \<Rightarrow> True | Some e' \<Rightarrow> score e' = 0"
  using assms
proof (induction ts arbitrary: st e)
  case Nil
  then show ?case by simp
next
  case (Cons t ts)
  let ?step = "max (decay_step (rep_cfg st)) 1"
  have stay: "case fmlookup (by_peer (fold tick_decay us st')) p of None \<Rightarrow> True | Some e' \<Rightarrow> score e' = 0"
    if "case fmlookup (by_peer st') p of None \<Rightarrow> True | Some e' \<Rightarrow> score e' = 0" for us and st' :: "'a ReputationStore"
    using that
  proof (induction us arbitrary: st')
    case (Cons u us)
    have "case fmlookup (by_peer (tick_decay u st')) p of None \<Rightarrow> True | Some e' \<Rightarrow> score e' = 0"
      using Cons.prems by (auto simp: tick_lookup(1) decay_entry_def split: option.splits)
    from Cons.IH [OF this] show ?case by simp
  qed simp
  have late: "decay_interval (rep_cfg st) \<le> t - last_updated e" using Cons.prems(3) by auto
  show ?case
  proof (cases "score e = 0")
    case True
    then have "case fmlookup (by_peer (tick_decay t st)) p of None \<Rightarrow> True | Some e' \<Rightarrow> score e' = 0"
      using Cons.prems(1) by (auto simp: tick_lookup(1) decay_entry_def split: option.splits)
    from stay [OF this] show ?thesis by simp
  next
    case False
    let ?e = "e\<lparr>score := decayed_score ?step (score e), last_updated := t\<rparr>"
    have l: "fmlookup (by_peer (tick_decay t st)) p = Some ?e"
      using False late Cons.prems(1) by (simp add: tick_lookup(1) decay_entry_def)
    have "\<bar>score ?e\<bar> = max (\<bar>score e\<bar> - ?step) 0"
      using decayed_score_abs [of "score e" ?step] rep_okD(3) [OF Cons.prems(2,1)] by (simp add: entry_typed_def)
    moreover have "\<bar>score e\<bar> \<le> (1 + int (length ts)) * ?step" using Cons.prems(4) by simp
    moreover have "(1 + int (length ts)) * ?step = ?step + int (length ts) * ?step" by (simp add: algebra_simps)
    moreover have "0 \<le> int (length ts) * ?step" by simp
    ultimately have "\<bar>score ?e\<bar> \<le> int (length ts) * ?step" by linarith
    then show ?thesis
      using Cons.IH [OF l tick_ok [OF Cons.prems(2)]] Cons.prems(3) by (simp add: tick_lookup(2))
  qed
qed

section \<open>Properties\<close>



text \<open>Reputation decays to neutral. A peer with no new events, ticked \<open>n\<close> times at least one decay
  interval apart, has score 0 or is forgotten once \<open>n\<close> decay steps cover its score; and no tick ever
  moves a score away from zero or past it.\<close>

theorem reputation_decays:
  assumes "rep_ok st" and "fmlookup (by_peer st) p = Some e"
    and "sorted_wrt (\<lambda>a b. a + decay_interval (rep_cfg st) \<le> b) (last_updated e # ts)"
    and "\<bar>score e\<bar> \<le> int (length ts) * max (decay_step (rep_cfg st)) 1"
  shows "(case fmlookup (by_peer (fold tick_decay ts st)) p of None \<Rightarrow> True | Some e' \<Rightarrow> score e' = 0)
    \<and> (case fmlookup (by_peer (tick_decay t st)) p of None \<Rightarrow> score e = 0
       | Some e' \<Rightarrow> \<bar>score e'\<bar> \<le> \<bar>score e\<bar> \<and> sgn (score e') \<in> {0, sgn (score e)})"
proof -
  have r: "- (2 ^ 31) \<le> score e" "score e \<le> 2 ^ 31 - 1" using rep_okD(3) [OF assms(1,2)] by (auto simp: entry_typed_def)
  have "sgn (decayed_score (max (decay_step (rep_cfg st)) 1) (score e)) \<in> {0, sgn (score e)}"
    using r by (auto simp: decayed_score_def i32_clamp_def sgn_if)
  moreover have "\<bar>decayed_score (max (decay_step (rep_cfg st)) 1) (score e)\<bar> \<le> \<bar>score e\<bar>"
    using decayed_score_abs [OF r] by simp
  ultimately have "case fmlookup (by_peer (tick_decay t st)) p of None \<Rightarrow> score e = 0
       | Some e' \<Rightarrow> \<bar>score e'\<bar> \<le> \<bar>score e\<bar> \<and> sgn (score e') \<in> {0, sgn (score e)}"
    using assms(2) by (simp add: tick_lookup(1) decay_entry_def)
  with ticks_neutral [OF assms(2,1,3,4)] show ?thesis by blast
qed

lemma reputation_decays_witness:
  "case fmlookup (by_peer (fold tick_decay [60000000005] (accept 5 (3 :: u8) reputation_store_default))) 3 of
     None \<Rightarrow> True | Some e' \<Rightarrow> score e' = 0"
proof -
  let ?st = "accept 5 (3 :: u8) reputation_store_default"
  let ?e = "\<lparr>score = 1, invalid = 0, accepted = 1, duplicate_ignored = 0, last_updated = 5\<rparr>"
  have ok: "rep_ok ?st" unfolding reputation_store_default_def reputation_new_def by (rule accept_ok [OF rep_init_ok])
  have l: "fmlookup (by_peer ?st) 3 = Some ?e"
    by (simp add: accept_def update_peer_def enforce_capacity_def reputation_store_default_def reputation_new_def
        reputation_with_capacity_def reputation_entry_default_def reputation_config_default_def i32_clamp_def sat_add_def
        MAX_TRACKED_REPUTATION_PEERS_def Let_def fcard_finsert_if fcard_fempty)
  have c: "rep_cfg ?st = reputation_config_default"
    using rep_step_cfg(1) [of 5 "Accept_op 3" "reputation_store_default :: u8 ReputationStore"]
    by (simp add: reputation_store_default_def reputation_new_def reputation_with_capacity_def)
  have "sorted_wrt (\<lambda>a b. a + decay_interval (rep_cfg ?st) \<le> b) (last_updated ?e # [60000000005])"
    "\<bar>score ?e\<bar> \<le> int (length [60000000005 :: nat]) * max (decay_step (rep_cfg ?st)) 1"
    by (simp_all add: c decay_interval_def reputation_config_default_def NS_PER_SEC_def)
  from reputation_decays [OF ok l this] show ?thesis by blast
qed

text \<open>The peer just updated is never the one evicted. With a clock later than every recorded
  update, recording an accepted message leaves that peer in the store with exactly the rewarded,
  saturated score; every other peer that remains is unchanged; and whoever was evicted was older
  than every peer that remains.\<close>

theorem accept_keeps_peer:
  assumes ok: "rep_ok st" and late: "\<forall>q e. fmlookup (by_peer st) q = Some e \<longrightarrow> last_updated e < now"
  shows "\<exists>e. fmlookup (by_peer (accept now p st)) p = Some e \<and> last_updated e = now
    \<and> score e = i32_clamp ((case fmlookup (by_peer st) p of None \<Rightarrow> 0 | Some e0 \<Rightarrow> score e0) + accept_reward (rep_cfg st))
    \<and> (\<forall>q. q = p \<or> fmlookup (by_peer (accept now p st)) q \<in> {None, fmlookup (by_peer st) q})
    \<and> (\<forall>q r e1 e2. q = p \<or> fmlookup (by_peer st) q \<noteq> Some e1 \<or> fmlookup (by_peer (accept now p st)) q \<noteq> None
        \<or> fmlookup (by_peer (accept now p st)) r \<noteq> Some e2 \<or> last_updated e1 \<le> last_updated e2)"
proof -
  let ?upd = "\<lambda>ent. ent\<lparr>accepted := sat_add 64 (accepted ent) 1, score := i32_clamp (score ent + accept_reward (rep_cfg st))\<rparr>"
  let ?e = "updated_entry now ?upd (fmlookup (by_peer st) p)"
  let ?s = "st\<lparr>by_peer := fmupd p ?e (by_peer st),
     age_order := reindex (map_option last_updated (fmlookup (by_peer st) p)) (Some now) p (age_order st)\<rparr>"
  have keeps: "\<And>e. last_updated (?upd e) = last_updated e" by simp
  note U = update_peer_reindex [OF keeps]
  have lu: "last_updated ?e = now" by (rule U(2))
  have acc: "accept now p st = enforce_capacity ?s" unfolding accept_def U(1) ..
  have ix: "indexed rep_stamp (age_order ?s) (by_peer ?s)"
    using update_indexed [OF rep_okD(1) [OF ok] U(2)] by simp
  have kept: "fmlookup (by_peer (enforce_capacity ?s)) p = Some ?e"
  proof (rule ccontr)
    assume "fmlookup (by_peer (enforce_capacity ?s)) p \<noteq> Some ?e"
    then have gone: "fmlookup (by_peer (enforce_capacity ?s)) p = None"
      using rep.evict_subset [OF ix, of p] by (cases "fmlookup (by_peer (enforce_capacity ?s)) p") auto
    have "fmlookup (by_peer (enforce_capacity ?s)) q = None" for q
    proof (rule ccontr)
      assume "fmlookup (by_peer (enforce_capacity ?s)) q \<noteq> None"
      then obtain e where e: "fmlookup (by_peer (enforce_capacity ?s)) q = Some e" by blast
      with gone have "q \<noteq> p" by auto
      with rep.evict_subset [OF ix e] late have "last_updated e < now" by simp
      moreover have "(now, p) < (last_updated e, q)"
        using rep.evict_oldest_first [OF ix _ _ gone e, of ?e now "last_updated e"] lu by simp
      ultimately show False by simp
    qed
    then have "by_peer (enforce_capacity ?s) = fmempty" by (intro fmap_ext) simp
    moreover have "min (max_peers ?s) (fmsize (by_peer ?s)) \<le> fmsize (by_peer (enforce_capacity ?s))"
      by (rule rep.evict_minimal [OF ix])
    moreover have "0 < fmsize (by_peer ?s)" using fmsize_fmdrop [of "by_peer ?s" p ?e] by simp
    ultimately show False using rep_okD(4) [OF ok] by (simp add: fcard_fempty min_le_iff_disj)
  qed
  have sc: "score ?e = i32_clamp ((case fmlookup (by_peer st) p of None \<Rightarrow> 0 | Some e0 \<Rightarrow> score e0) + accept_reward (rep_cfg st))"
    by (simp add: updated_entry_def reputation_entry_default_def split: option.split)
  have others: "fmlookup (by_peer (enforce_capacity ?s)) q \<in> {None, fmlookup (by_peer st) q}" if "q \<noteq> p" for q
    using rep.evict_subset [OF ix, of q] that by (cases "fmlookup (by_peer (enforce_capacity ?s)) q") auto
  have order: "last_updated e1 \<le> last_updated e2"
    if "q \<noteq> p" "fmlookup (by_peer st) q = Some e1" "fmlookup (by_peer (enforce_capacity ?s)) q = None"
      "fmlookup (by_peer (enforce_capacity ?s)) r = Some e2" for q r e1 e2
    using rep.evict_oldest_first [OF ix _ refl that(3,4) refl] that(1,2) by (auto simp: less_prod_def)
  show ?thesis unfolding acc using kept sc others order lu by (intro exI [of _ ?e]) blast
qed

lemma accept_keeps_peer_witness:
  "\<exists>e. fmlookup (by_peer (accept 5 (3 :: u8) reputation_store_default)) 3 = Some e \<and> score e = 1"
proof -
  have ok: "rep_ok (reputation_store_default :: u8 ReputationStore)"
    unfolding reputation_store_default_def reputation_new_def by (rule rep_init_ok)
  have "\<forall>q e. fmlookup (by_peer (reputation_store_default :: u8 ReputationStore)) q = Some e \<longrightarrow> last_updated e < 5"
    by (simp add: reputation_store_default_def reputation_new_def reputation_with_capacity_def)
  from accept_keeps_peer [OF ok this, of 3] show ?thesis
    by (auto simp: reputation_store_default_def reputation_new_def reputation_with_capacity_def
        reputation_config_default_def i32_clamp_def)
qed

end
