(* ===== verification/Peer_Book.thy ===== *)
theory Peer_Book
  imports Externals Aged_Store
begin

text \<open>
  \<open>crates/connectivity/peer_book.rs\<close> with the peer types of \<open>crates/api/mod.rs\<close>: the records
  of known peers, the bounded peer book with its two indexes and its counter of connected peers, and
  the view \<open>get_peers\<close> returns. The clock (seconds) is an argument. An address reaches the book as
  the text of the multiaddress.
\<close>

section \<open>Peer sources and the public view\<close>

datatype PeerSource = Connected | Bootstrap | BootstrapSeed | PublicBootstrapSeed | Rendezvous
  | PublicRendezvous | DhtProvider | LanDiscovery | RelayDiscovery | PublicRelayDiscovery
  | PeerCache | Manual

text \<open>The derived order is the order of declaration.\<close>

primrec source_rank :: "PeerSource \<Rightarrow> nat" where
  "source_rank Connected = 0"
| "source_rank Bootstrap = 1"
| "source_rank BootstrapSeed = 2"
| "source_rank PublicBootstrapSeed = 3"
| "source_rank Rendezvous = 4"
| "source_rank PublicRendezvous = 5"
| "source_rank DhtProvider = 6"
| "source_rank LanDiscovery = 7"
| "source_rank RelayDiscovery = 8"
| "source_rank PublicRelayDiscovery = 9"
| "source_rank PeerCache = 10"
| "source_rank Manual = 11"

lemma source_rank_inject: "source_rank a = source_rank b \<longleftrightarrow> a = b"
  by (cases a; cases b) simp_all

instantiation PeerSource :: linorder
begin

definition less_eq_PeerSource :: "PeerSource \<Rightarrow> PeerSource \<Rightarrow> bool" where
  "less_eq_PeerSource a b \<longleftrightarrow> source_rank a \<le> source_rank b"

definition less_PeerSource :: "PeerSource \<Rightarrow> PeerSource \<Rightarrow> bool" where
  "less_PeerSource a b \<longleftrightarrow> source_rank a < source_rank b"

instance
  by standard (auto simp: less_eq_PeerSource_def less_PeerSource_def source_rank_inject)

end

primrec source_as_str :: "PeerSource \<Rightarrow> string" where
  "source_as_str Connected = ''connected''"
| "source_as_str Bootstrap = ''bootstrap''"
| "source_as_str BootstrapSeed = ''bootstrap_seed''"
| "source_as_str PublicBootstrapSeed = ''public_bootstrap_seed''"
| "source_as_str Rendezvous = ''rendezvous''"
| "source_as_str PublicRendezvous = ''public_rendezvous''"
| "source_as_str DhtProvider = ''dht_provider''"
| "source_as_str LanDiscovery = ''lan_discovery''"
| "source_as_str RelayDiscovery = ''relay_discovery''"
| "source_as_str PublicRelayDiscovery = ''public_relay_discovery''"
| "source_as_str PeerCache = ''peer_cache''"
| "source_as_str Manual = ''manual''"

record PeerInfo =
  pi_peer_id :: string
  pi_connected :: bool
  pi_addresses :: "string list"
  pi_sources :: "PeerSource list"
  pi_supports_relay :: "bool option"
  pi_supports_rendezvous :: "bool option"
  pi_supports_dcutr :: "bool option"
  pi_last_seen_unix_secs :: "nat option"
  pi_namespace :: "string option"

definition peer_info_connected :: "'p ext \<Rightarrow> 'p \<Rightarrow> PeerInfo" where
  "peer_info_connected E p = \<lparr>pi_peer_id = pid_to_string E p, pi_connected = True, pi_addresses = [],
     pi_sources = [Connected], pi_supports_relay = None, pi_supports_rendezvous = None,
     pi_supports_dcutr = None, pi_last_seen_unix_secs = None, pi_namespace = None\<rparr>"

definition peer_info_discovered :: "'p ext \<Rightarrow> 'p \<Rightarrow> PeerSource \<Rightarrow> string list \<Rightarrow> PeerInfo" where
  "peer_info_discovered E p source addresses = \<lparr>pi_peer_id = pid_to_string E p, pi_connected = False,
     pi_addresses = addresses, pi_sources = [source], pi_supports_relay = None,
     pi_supports_rendezvous = None, pi_supports_dcutr = None, pi_last_seen_unix_secs = None,
     pi_namespace = None\<rparr>"

definition with_namespace :: "string \<Rightarrow> PeerInfo \<Rightarrow> PeerInfo" where
  "with_namespace ns info = info\<lparr>pi_namespace := Some ns\<rparr>"

definition has_source :: "PeerInfo \<Rightarrow> PeerSource \<Rightarrow> bool" where
  "has_source info source \<longleftrightarrow> source \<in> set (pi_sources info)"

section \<open>Records and the book\<close>

definition MAX_ADDRS_PER_PEER :: nat where "MAX_ADDRS_PER_PEER = 64"
definition DEFAULT_MAX_PEER_BOOK_RECORDS :: nat where "DEFAULT_MAX_PEER_BOOK_RECORDS = 2048"

record 'p PeerRecord =
  rec_peer_id :: 'p
  addresses :: "string list"
  sources :: "PeerSource list"
  namespaces :: "string list"
  connected :: bool
  supports_relay :: "bool option"
  supports_rendezvous :: "bool option"
  supports_dcutr :: "bool option"
  relay_preferred :: bool
  last_seen_unix_secs :: "nat option"
  failures :: nat

definition peer_record_new :: "'p \<Rightarrow> 'p PeerRecord" where
  "peer_record_new p = \<lparr>rec_peer_id = p, addresses = [], sources = [], namespaces = [], connected = False,
     supports_relay = None, supports_rendezvous = None, supports_dcutr = None, relay_preferred = False,
     last_seen_unix_secs = None, failures = 0\<rparr>"

definition mark_seen :: "nat \<Rightarrow> 'p PeerRecord \<Rightarrow> 'p PeerRecord" where
  "mark_seen now r = r\<lparr>last_seen_unix_secs := Some now\<rparr>"

definition to_peer_info :: "'p ext \<Rightarrow> 'p PeerRecord \<Rightarrow> PeerInfo" where
  "to_peer_info E r = \<lparr>pi_peer_id = pid_to_string E (rec_peer_id r), pi_connected = connected r,
     pi_addresses = addresses r, pi_sources = sources r, pi_supports_relay = supports_relay r,
     pi_supports_rendezvous = supports_rendezvous r, pi_supports_dcutr = supports_dcutr r,
     pi_last_seen_unix_secs = last_seen_unix_secs r,
     pi_namespace = (if length (namespaces r) = 1 then Some (hd (namespaces r)) else None)\<rparr>"

record 'p PeerBook =
  peers :: "('p, 'p PeerRecord) fmap"
  disconnected_namespace_peers :: "'p list"
  disconnected_eviction_order :: "(nat \<times> 'p) list"
  connected_count :: nat
  max_records :: nat

definition peer_book_with_max :: "nat \<Rightarrow> 'p PeerBook" where
  "peer_book_with_max n = \<lparr>peers = fmempty, disconnected_namespace_peers = [], disconnected_eviction_order = [],
     connected_count = 0, max_records = max n 1\<rparr>"

definition peer_book_default :: "'p PeerBook" where
  "peer_book_default = peer_book_with_max DEFAULT_MAX_PEER_BOOK_RECORDS"

definition book_len :: "'p PeerBook \<Rightarrow> nat" where
  "book_len b = fmsize (peers b)"

definition book_is_empty :: "'p PeerBook \<Rightarrow> bool" where
  "book_is_empty b \<longleftrightarrow> fmsize (peers b) = 0"

text \<open>\<open>enforce_record_bound\<close>: the loop of \<open>evict_oldest\<close>, and each victim also leaves the
  namespace index.\<close>

fun record_bound_loop :: "nat \<Rightarrow> (nat \<times> 'p::linorder) list \<Rightarrow> ('p, 'p PeerRecord) fmap \<Rightarrow> 'p list
    \<Rightarrow> (nat \<times> 'p) list \<times> ('p, 'p PeerRecord) fmap \<times> 'p list" where
  "record_bound_loop limit [] m ns = ([], m, ns)"
| "record_bound_loop limit ((last_seen, victim) # order) m ns = (
     if limit < fmsize m then record_bound_loop limit order (fmdrop victim m) (bset_remove victim ns)
     else ((last_seen, victim) # order, m, ns))"

definition enforce_record_bound :: "'p::linorder PeerBook \<Rightarrow> 'p PeerBook" where
  "enforce_record_bound b = (let (order, m, ns) = record_bound_loop (max_records b)
       (disconnected_eviction_order b) (peers b) (disconnected_namespace_peers b)
     in b\<lparr>disconnected_eviction_order := order, peers := m, disconnected_namespace_peers := ns\<rparr>)"

definition sync_indexes :: "'p::linorder \<Rightarrow> bool \<Rightarrow> 'p PeerBook \<Rightarrow> 'p PeerBook" where
  "sync_indexes p was_connected b = (case fmlookup (peers b) p of None \<Rightarrow> b
     | Some r \<Rightarrow>
       let b1 = (if was_connected \<noteq> connected r
             then if connected r then b\<lparr>connected_count := sat_add 64 (connected_count b) 1\<rparr>
                  else b\<lparr>connected_count := connected_count b - 1\<rparr>
             else b);
           b2 = (if \<not> connected r \<and> namespaces r \<noteq> []
             then b1\<lparr>disconnected_namespace_peers := bset_insert p (disconnected_namespace_peers b1)\<rparr>
             else b1\<lparr>disconnected_namespace_peers := bset_remove p (disconnected_namespace_peers b1)\<rparr>)
       in if \<not> connected r
          then (case last_seen_unix_secs r of None \<Rightarrow> b2
            | Some last_seen \<Rightarrow> b2\<lparr>disconnected_eviction_order :=
                bset_insert (last_seen, p) (disconnected_eviction_order b2)\<rparr>)
          else b2)"

definition mutate_peer :: "nat \<Rightarrow> 'p::linorder \<Rightarrow> ('p PeerRecord \<Rightarrow> 'p PeerRecord) \<Rightarrow> 'p PeerBook \<Rightarrow> 'p PeerBook" where
  "mutate_peer now p mutate b = (
     let previous = map_option (\<lambda>r. (connected r, last_seen_unix_secs r)) (fmlookup (peers b) p);
         b1 = (case previous of Some (False, Some last_seen) \<Rightarrow>
               b\<lparr>disconnected_eviction_order := bset_remove (last_seen, p) (disconnected_eviction_order b)\<rparr>
             | _ \<Rightarrow> b);
         r = (case fmlookup (peers b1) p of Some r \<Rightarrow> r | None \<Rightarrow> peer_record_new p);
         b2 = b1\<lparr>peers := fmupd p (mark_seen now (mutate r)) (peers b1)\<rparr>
     in enforce_record_bound (sync_indexes p (case previous of None \<Rightarrow> False | Some (c, _) \<Rightarrow> c) b2))"

fun prune_addrs :: "string list \<Rightarrow> string list" where
  "prune_addrs [] = []"
| "prune_addrs (a # as) = (if MAX_ADDRS_PER_PEER < length (a # as) then prune_addrs as else a # as)"

definition prune_peer_addrs :: "'p PeerRecord \<Rightarrow> 'p PeerRecord" where
  "prune_peer_addrs r = r\<lparr>addresses := prune_addrs (addresses r)\<rparr>"

section \<open>Operations\<close>

definition record_peer :: "nat \<Rightarrow> 'p::linorder \<Rightarrow> PeerSource \<Rightarrow> 'p PeerBook \<Rightarrow> 'p PeerBook" where
  "record_peer now p source b = mutate_peer now p (\<lambda>r. r\<lparr>sources := bset_insert source (sources r)\<rparr>) b"

definition record_addr :: "nat \<Rightarrow> 'p::linorder \<Rightarrow> string \<Rightarrow> PeerSource \<Rightarrow> 'p PeerBook \<Rightarrow> 'p PeerBook" where
  "record_addr now p addr source b = mutate_peer now p (\<lambda>r. prune_peer_addrs
     (r\<lparr>sources := bset_insert source (sources r), addresses := bset_insert addr (addresses r)\<rparr>)) b"

definition record_namespace :: "nat \<Rightarrow> 'p::linorder \<Rightarrow> string \<Rightarrow> PeerSource \<Rightarrow> 'p PeerBook \<Rightarrow> 'p PeerBook" where
  "record_namespace now p ns source b = mutate_peer now p (\<lambda>r.
     r\<lparr>sources := bset_insert source (sources r), namespaces := bset_insert ns (namespaces r)\<rparr>) b"

definition record_connected :: "nat \<Rightarrow> 'p::linorder \<Rightarrow> string option \<Rightarrow> 'p PeerBook \<Rightarrow> 'p PeerBook" where
  "record_connected now p addr b = mutate_peer now p (\<lambda>r.
     let r = r\<lparr>connected := True, sources := bset_insert Connected (sources r)\<rparr>
     in case addr of None \<Rightarrow> r
        | Some a \<Rightarrow> prune_peer_addrs (r\<lparr>addresses := bset_insert a (addresses r)\<rparr>)) b"

definition record_capabilities :: "nat \<Rightarrow> 'p::linorder \<Rightarrow> bool option \<Rightarrow> bool option \<Rightarrow> bool option
    \<Rightarrow> 'p PeerBook \<Rightarrow> 'p PeerBook" where
  "record_capabilities now p relay rendezvous dcutr b = mutate_peer now p (\<lambda>r.
     let r = (if relay \<noteq> None then r\<lparr>supports_relay := relay\<rparr> else r);
         r = (if rendezvous \<noteq> None then r\<lparr>supports_rendezvous := rendezvous\<rparr> else r)
     in if dcutr \<noteq> None then r\<lparr>supports_dcutr := dcutr\<rparr> else r) b"

definition record_relay_preferred :: "nat \<Rightarrow> 'p::linorder \<Rightarrow> bool \<Rightarrow> 'p PeerBook \<Rightarrow> 'p PeerBook" where
  "record_relay_preferred now p preferred b = mutate_peer now p (\<lambda>r. r\<lparr>relay_preferred := preferred\<rparr>) b"

definition record_disconnected :: "nat \<Rightarrow> 'p::linorder \<Rightarrow> 'p PeerBook \<Rightarrow> 'p PeerBook" where
  "record_disconnected now p b = mutate_peer now p (\<lambda>r. r\<lparr>connected := False\<rparr>) b"

definition record_disconnected_if_known :: "nat \<Rightarrow> 'p::linorder \<Rightarrow> 'p PeerBook \<Rightarrow> 'p PeerBook" where
  "record_disconnected_if_known now p b = (if fmlookup (peers b) p = None then b
     else mutate_peer now p (\<lambda>r. r\<lparr>connected := False\<rparr>) b)"

definition record_failure :: "nat \<Rightarrow> 'p::linorder \<Rightarrow> 'p PeerBook \<Rightarrow> 'p PeerBook" where
  "record_failure now p b = mutate_peer now p (\<lambda>r. r\<lparr>failures := sat_add 32 (failures r) 1\<rparr>) b"

definition record_of :: "'p PeerBook \<Rightarrow> 'p \<Rightarrow> 'p PeerRecord option" where
  "record_of b p = fmlookup (peers b) p"

definition records :: "'p::linorder PeerBook \<Rightarrow> 'p PeerRecord list" where
  "records b = map (\<lambda>p. the (fmlookup (peers b) p)) (sorted_list_of_fset (fmdom (peers b)))"

definition reconnect_candidates :: "'p PeerBook \<Rightarrow> 'p list" where
  "reconnect_candidates b = disconnected_namespace_peers b"

definition has_application_namespace :: "'p PeerBook \<Rightarrow> 'p \<Rightarrow> string list \<Rightarrow> bool" where
  "has_application_namespace b p nss = (case record_of b p of None \<Rightarrow> False
     | Some r \<Rightarrow> list_ex (\<lambda>ns. list_ex (\<lambda>candidate. candidate = ns) nss) (namespaces r))"

definition book_peers :: "'p::linorder ext \<Rightarrow> 'p PeerBook \<Rightarrow> PeerInfo list" where
  "book_peers E b = sort_key pi_peer_id (map (to_peer_info E) (records b))"

definition discovered_count :: "'p PeerBook \<Rightarrow> nat" where
  "discovered_count b = fmsize (peers b) - connected_count b"

section \<open>The book implements the bounded aged store\<close>

definition book_stamp :: "'p PeerRecord \<Rightarrow> nat option" where
  "book_stamp r = (if connected r then None else last_seen_unix_secs r)"

lemma record_bound_loop_evict:
  "(fst (record_bound_loop limit order m ns), fst (snd (record_bound_loop limit order m ns))) = evict_oldest limit order m"
  by (induction limit order m ns rule: record_bound_loop.induct) simp_all

interpretation book: aged_store peers disconnected_eviction_order book_stamp max_records enforce_record_bound
  by unfold_locales (simp_all add: enforce_record_bound_def split_beta Let_def record_bound_loop_evict)

lemma record_bound_loop_ns:
  assumes "bset_ok ns" and "set ns \<subseteq> fset (fmdom m)"
  shows "bset_ok (snd (snd (record_bound_loop limit order m ns)))
    \<and> set (snd (snd (record_bound_loop limit order m ns)))
        = set ns \<inter> fset (fmdom (fst (snd (record_bound_loop limit order m ns))))"
  using assms
proof (induction limit order m ns rule: record_bound_loop.induct)
  case (2 limit last_seen victim order m ns)
  show ?case
  proof (cases "limit < fmsize m")
    case True
    have "fset (fmdom (fst (snd (record_bound_loop limit order m' ns')))) \<subseteq> fset (fmdom m')" for m' ns'
      by (induction limit order m' ns' rule: record_bound_loop.induct) (auto split: if_splits)
    from this [of "fmdrop victim m" "bset_remove victim ns"] 2 True show ?thesis by auto
  qed (use 2 in auto)
qed auto

lemma enforce_parts [simp]:
  "connected_count (enforce_record_bound b) = connected_count b"
  "max_records (enforce_record_bound b) = max_records b"
  by (simp_all add: enforce_record_bound_def split_beta Let_def)

lemma enforce_ns:
  assumes "bset_ok (disconnected_namespace_peers b)" and "set (disconnected_namespace_peers b) \<subseteq> fset (fmdom (peers b))"
  shows "bset_ok (disconnected_namespace_peers (enforce_record_bound b))"
    and "set (disconnected_namespace_peers (enforce_record_bound b))
      = set (disconnected_namespace_peers b) \<inter> fset (fmdom (peers (enforce_record_bound b)))"
  using record_bound_loop_ns [OF assms, of "max_records b" "disconnected_eviction_order b"]
  by (simp_all add: enforce_record_bound_def split_beta Let_def)

section \<open>The invariant\<close>

definition record_ok :: "'p \<Rightarrow> 'p PeerRecord \<Rightarrow> bool" where
  "record_ok p r \<longleftrightarrow> rec_peer_id r = p \<and> last_seen_unix_secs r \<noteq> None \<and> bset_ok (addresses r)
     \<and> length (addresses r) \<le> MAX_ADDRS_PER_PEER \<and> bset_ok (sources r) \<and> bset_ok (namespaces r)"

definition connected_records :: "('p, 'p PeerRecord) fmap \<Rightarrow> nat" where
  "connected_records m = fmsum (\<lambda>r. if connected r then 1 else 0) m"

definition awaiting :: "'p PeerRecord \<Rightarrow> bool" where
  "awaiting r \<longleftrightarrow> \<not> connected r \<and> namespaces r \<noteq> []"

definition book_ok :: "'p::linorder PeerBook \<Rightarrow> bool" where
  "book_ok b \<longleftrightarrow> indexed book_stamp (disconnected_eviction_order b) (peers b)
     \<and> bset_ok (disconnected_namespace_peers b)
     \<and> (\<forall>p. p \<in> set (disconnected_namespace_peers b) \<longleftrightarrow> (\<exists>r. fmlookup (peers b) p = Some r \<and> awaiting r))
     \<and> connected_count b = connected_records (peers b)
     \<and> (\<forall>p r. fmlookup (peers b) p = Some r \<longrightarrow> record_ok p r)
     \<and> (fmsize (peers b) \<le> max_records b \<or> (\<forall>p r. fmlookup (peers b) p = Some r \<longrightarrow> connected r))
     \<and> 0 < max_records b"

lemma book_okD:
  assumes "book_ok b"
  shows "indexed book_stamp (disconnected_eviction_order b) (peers b)" "bset_ok (disconnected_namespace_peers b)"
    "p \<in> set (disconnected_namespace_peers b) \<longleftrightarrow> (\<exists>r. fmlookup (peers b) p = Some r \<and> awaiting r)"
    "connected_count b = connected_records (peers b)" "fmlookup (peers b) p = Some r \<Longrightarrow> record_ok p r"
    "fmsize (peers b) \<le> max_records b \<or> (\<forall>p r. fmlookup (peers b) p = Some r \<longrightarrow> connected r)" "0 < max_records b"
  using assms unfolding book_ok_def by blast+

lemma connected_records_le: "connected_records m \<le> fmsize m"
proof -
  have "connected_records m \<le> fmsum (\<lambda>_. 1) m" unfolding connected_records_def by (rule fmsum_mono) simp
  also have "\<dots> = (\<Sum>k\<in>fmdom' m. 1)"
    unfolding fmsum_def by (rule sum.cong) (auto simp: fmlookup_dom'_iff)
  also have "\<dots> = fmsize m" by (simp add: fmdom'_alt_def fcard.rep_eq)
  finally show ?thesis .
qed

text \<open>The record after a mutation, and the book before the bound is enforced.\<close>

definition old_record :: "'p \<Rightarrow> 'p PeerBook \<Rightarrow> 'p PeerRecord" where
  "old_record p b = (case fmlookup (peers b) p of Some r \<Rightarrow> r | None \<Rightarrow> peer_record_new p)"

definition mutated :: "nat \<Rightarrow> 'p::linorder \<Rightarrow> ('p PeerRecord \<Rightarrow> 'p PeerRecord) \<Rightarrow> 'p PeerBook \<Rightarrow> 'p PeerBook" where
  "mutated now p f b = (let r = mark_seen now (f (old_record p b)); was = connected (old_record p b) in
     b\<lparr>peers := fmupd p r (peers b),
       disconnected_namespace_peers := (if awaiting r then bset_insert p (disconnected_namespace_peers b)
          else bset_remove p (disconnected_namespace_peers b)),
       disconnected_eviction_order := reindex (case fmlookup (peers b) p of None \<Rightarrow> None | Some r0 \<Rightarrow> book_stamp r0)
          (book_stamp r) p (disconnected_eviction_order b),
       connected_count := (if was = connected r then connected_count b
          else if connected r then sat_add 64 (connected_count b) 1 else connected_count b - 1)\<rparr>)"

lemma mutate_peer_mutated: "mutate_peer now p f b = enforce_record_bound (mutated now p f b)"
proof -
  have l: "last_seen_unix_secs (mark_seen now r) = Some now" for r :: "'a PeerRecord" by (simp add: mark_seen_def)
  have c: "connected (peer_record_new p) = False" by (simp add: peer_record_new_def)
  show ?thesis
    unfolding mutate_peer_def sync_indexes_def mutated_def Let_def
    by (rule arg_cong [where f = enforce_record_bound], cases b, cases "fmlookup (peers b) p")
      (auto simp: old_record_def awaiting_def book_stamp_def reindex_def l c split: option.split bool.split)
qed

text \<open>What a mutation may do to a record.\<close>

definition tame :: "('p PeerRecord \<Rightarrow> 'p PeerRecord) \<Rightarrow> bool" where
  "tame f \<longleftrightarrow> (\<forall>p r now. (record_ok p r \<or> r = peer_record_new p) \<longrightarrow> record_ok p (mark_seen now (f r)))"

lemma mutated_simps [simp]:
  "peers (mutated now p f b) = fmupd p (mark_seen now (f (old_record p b))) (peers b)"
  "max_records (mutated now p f b) = max_records b"
  by (simp_all add: mutated_def Let_def)

lemma mutated_indexed:
  "book_ok b \<Longrightarrow> indexed book_stamp (disconnected_eviction_order (mutated now p f b)) (peers (mutated now p f b))"
  using indexed_upd [OF book_okD(1) refl] by (simp add: mutated_def Let_def)

lemma mutated_ns:
  assumes "book_ok b"
  shows "bset_ok (disconnected_namespace_peers (mutated now p f b))"
    and "q \<in> set (disconnected_namespace_peers (mutated now p f b)) \<longleftrightarrow>
       (\<exists>r. fmlookup (peers (mutated now p f b)) q = Some r \<and> awaiting r)"
  using book_okD(2,3) [OF assms] by (auto simp: mutated_def Let_def)

lemma mutated_count:
  assumes ok: "book_ok b" and small: "fmsize (peers b) < 2 ^ 63"
  shows "connected_count (mutated now p f b) = connected_records (peers (mutated now p f b))"
proof -
  let ?r = "mark_seen now (f (old_record p b))"
  let ?n = "\<lambda>r :: 'a PeerRecord. if connected r then 1 else 0 :: nat"
  have c: "connected_count b < 2 ^ 63"
    using book_okD(4) [OF ok] connected_records_le [of "peers b"] small by simp
  have new: "connected_records (fmupd p ?r (peers b)) = ?n ?r + connected_records (fmdrop p (peers b))"
    by (simp add: connected_records_def fmsum_upd)
  have old: "connected_records (peers b) = ?n (old_record p b) + connected_records (fmdrop p (peers b))"
    by (cases "fmlookup (peers b) p")
      (simp_all add: connected_records_def old_record_def fmsum_remove fmdrop_absent peer_record_new_def)
  have "sat_add 64 (connected_count b) 1 = connected_count b + 1" using c by (intro sat_add_exact) simp
  then show ?thesis
    using book_okD(4) [OF ok] new old by (auto simp: mutated_def Let_def)
qed

lemma connected_records_evict:
  assumes "indexed book_stamp (disconnected_eviction_order b) (peers b)"
    and seen: "\<And>p r. fmlookup (peers b) p = Some r \<Longrightarrow> last_seen_unix_secs r \<noteq> None"
  shows "connected_records (peers (enforce_record_bound b)) = connected_records (peers b)"
proof -
  let ?m = "peers (enforce_record_bound b)" let ?n = "\<lambda>r :: 'a PeerRecord. if connected r then 1 else 0 :: nat"
  have sub: "fmdom' ?m \<subseteq> fmdom' (peers b)"
    using book.evict_subset [OF assms(1)] by (auto simp: fmlookup_dom'_iff)
  have same: "fmlookup ?m k = fmlookup (peers b) k" if "k \<in> fmdom' ?m" for k
    using that book.evict_subset [OF assms(1), of k] by (auto simp: fmlookup_dom'_iff)
  have gone: "case_option 0 ?n (fmlookup (peers b) k) = 0" if k: "k \<in> fmdom' (peers b) - fmdom' ?m" for k
  proof -
    obtain r where r: "fmlookup (peers b) k = Some r" using k by (auto simp: fmlookup_dom'_iff)
    have "\<not> connected r"
    proof
      assume "connected r"
      then have "fmlookup ?m k = Some r" using book.evict_protects [OF assms(1) r] by (simp add: book_stamp_def)
      with k show False by (auto simp: fmlookup_dom'_iff)
    qed
    with r show ?thesis by simp
  qed
  have "connected_records ?m = (\<Sum>k\<in>fmdom' ?m. case_option 0 ?n (fmlookup (peers b) k))"
    unfolding connected_records_def fmsum_def by (rule sum.cong) (simp_all add: same)
  also have "\<dots> = connected_records (peers b)"
    unfolding connected_records_def fmsum_def by (rule sum.mono_neutral_left) (use sub gone in auto)
  finally show ?thesis .
qed

lemma mutate_ok:
  assumes ok: "book_ok b" and f: "tame f" and small: "fmsize (peers b) < 2 ^ 63"
  shows "book_ok (mutate_peer now p f b)"
proof -
  let ?b = "mutated now p f b" let ?e = "enforce_record_bound ?b"
  note ix = mutated_indexed [OF ok, of now p f]
  have recs: "record_ok q r" if "fmlookup (peers ?b) q = Some r" for q r
  proof (cases "q = p")
    case True
    have "record_ok p (old_record p b) \<or> old_record p b = peer_record_new p"
      using book_okD(5) [OF ok] by (auto simp: old_record_def split: option.split)
    with f True that show ?thesis by (auto simp: tame_def)
  qed (use that book_okD(5) [OF ok] in auto)
  have sub: "fmlookup (peers ?b) q = Some r" if "fmlookup (peers ?e) q = Some r" for q r
    using book.evict_subset [OF ix that] .
  note ns = mutated_ns [OF ok, where now = now and p = p and f = f]
  have dom: "set (disconnected_namespace_peers ?b) \<subseteq> fset (fmdom (peers ?b))"
    using ns(2) by (auto simp: fmlookup_dom_iff split: if_splits)
  note E = enforce_ns [OF ns(1) dom]
  have f3: "\<forall>q. q \<in> set (disconnected_namespace_peers ?e) \<longleftrightarrow> (\<exists>r. fmlookup (peers ?e) q = Some r \<and> awaiting r)"
    using sub by (auto simp: E(2) ns(2) fmlookup_dom_iff simp del: mutated_simps)
  have f4: "connected_count ?e = connected_records (peers ?e)"
    using mutated_count [OF ok small, of now p f] connected_records_evict [OF ix] recs by (simp add: record_ok_def)
  have f5: "\<forall>q r. fmlookup (peers ?e) q = Some r \<longrightarrow> record_ok q r" using recs sub by blast
  then have f6: "fmsize (peers ?e) \<le> max_records ?e \<or> (\<forall>q r. fmlookup (peers ?e) q = Some r \<longrightarrow> connected r)"
    using book.evict_bound [OF ix] unfolding book_stamp_def record_ok_def enforce_parts by metis
  have f7: "0 < max_records ?e" using book_okD(7) [OF ok] by simp
  show ?thesis
    unfolding mutate_peer_mutated book_ok_def by (intro conjI book.evict_indexed [OF ix] E(1) f3 f4 f5 f6 f7)
qed

lemma length_prune: "length (prune_addrs as) \<le> MAX_ADDRS_PER_PEER"
  by (induction as rule: prune_addrs.induct) auto

lemma bset_prune: "bset_ok as \<Longrightarrow> bset_ok (prune_addrs as)"
  by (induction as rule: prune_addrs.induct) (auto simp: bset_ok_Cons)

lemmas tame_simps = tame_def record_ok_def mark_seen_def peer_record_new_def prune_peer_addrs_def
  length_prune bset_prune

lemma tame_ops:
  "tame (\<lambda>r. r\<lparr>sources := bset_insert s (sources r)\<rparr>)"
  "tame (\<lambda>r. prune_peer_addrs (r\<lparr>sources := bset_insert s (sources r), addresses := bset_insert a (addresses r)\<rparr>))"
  "tame (\<lambda>r. r\<lparr>sources := bset_insert s (sources r), namespaces := bset_insert ns (namespaces r)\<rparr>)"
  "tame (\<lambda>r. let r = r\<lparr>connected := True, sources := bset_insert Connected (sources r)\<rparr>
     in case addr of None \<Rightarrow> r | Some a \<Rightarrow> prune_peer_addrs (r\<lparr>addresses := bset_insert a (addresses r)\<rparr>))"
  "tame (\<lambda>r. let r = (if relay \<noteq> None then r\<lparr>supports_relay := relay\<rparr> else r);
         r = (if rendezvous \<noteq> None then r\<lparr>supports_rendezvous := rendezvous\<rparr> else r)
     in if dcutr \<noteq> None then r\<lparr>supports_dcutr := dcutr\<rparr> else r)"
  "tame (\<lambda>r. r\<lparr>relay_preferred := preferred\<rparr>)"
  "tame (\<lambda>r. r\<lparr>connected := False\<rparr>)"
  "tame (\<lambda>r. r\<lparr>failures := sat_add 32 (failures r) 1\<rparr>)"
  by (auto simp: tame_simps bset_ok_Cons Let_def split: option.split)

text \<open>The life of a book: every operation, at any time, while the map has room for another record.\<close>

datatype 'p book_op =
    Record_peer 'p PeerSource
  | Record_addr 'p string PeerSource
  | Record_namespace 'p string PeerSource
  | Record_connected 'p "string option"
  | Record_capabilities 'p "bool option" "bool option" "bool option"
  | Record_relay_preferred 'p bool
  | Record_disconnected 'p
  | Record_disconnected_if_known 'p
  | Record_failure 'p

fun book_step :: "nat \<Rightarrow> 'p::linorder book_op \<Rightarrow> 'p PeerBook \<Rightarrow> 'p PeerBook" where
  "book_step now (Record_peer p s) b = record_peer now p s b"
| "book_step now (Record_addr p a s) b = record_addr now p a s b"
| "book_step now (Record_namespace p ns s) b = record_namespace now p ns s b"
| "book_step now (Record_connected p a) b = record_connected now p a b"
| "book_step now (Record_capabilities p x y z) b = record_capabilities now p x y z b"
| "book_step now (Record_relay_preferred p x) b = record_relay_preferred now p x b"
| "book_step now (Record_disconnected p) b = record_disconnected now p b"
| "book_step now (Record_disconnected_if_known p) b = record_disconnected_if_known now p b"
| "book_step now (Record_failure p) b = record_failure now p b"

inductive book_reachable :: "nat \<Rightarrow> 'p::linorder PeerBook \<Rightarrow> bool" for n where
  book_init: "book_reachable n (peer_book_with_max n)"
| book_next: "book_reachable n b \<Longrightarrow> fmsize (peers b) < 2 ^ 63 \<Longrightarrow> book_reachable n (book_step now op b)"

lemmas record_op_defs = record_peer_def record_addr_def record_namespace_def record_connected_def
  record_capabilities_def record_relay_preferred_def record_disconnected_def record_failure_def

lemma book_step_ok: "book_ok b \<Longrightarrow> fmsize (peers b) < 2 ^ 63 \<Longrightarrow> book_ok (book_step now op b)"
  by (cases op) (auto simp only: book_step.simps record_op_defs record_disconnected_if_known_def
      intro: mutate_ok tame_ops split: if_split)

lemma mutate_max [simp]: "max_records (mutate_peer now p f b) = max_records b"
  by (simp add: mutate_peer_mutated)

lemma book_step_max: "max_records (book_step now op b) = max_records b"
  by (cases op) (simp_all add: record_op_defs record_disconnected_if_known_def)

lemma peer_book_init_ok: "book_ok (peer_book_with_max n)"
  by (simp add: book_ok_def peer_book_with_max_def connected_records_def fcard_fempty less_max_iff_disj)

lemma book_reachable_ok: "book_reachable n b \<Longrightarrow> book_ok b \<and> max_records b = max n 1"
proof (induction rule: book_reachable.induct)
  case book_init
  then show ?case using peer_book_init_ok by (simp add: peer_book_with_max_def)
qed (simp add: book_step_ok book_step_max)

section \<open>Properties\<close>

text \<open>C7. The peer book's indexes and counters are exact for ever. After any sequence of recordings,
  \<open>connected_count\<close> is the number of connected records and \<open>discovered_count\<close> the number of the
  others, the reconnect candidates are exactly the disconnected peers with a namespace, the
  eviction order lists exactly the disconnected peers by last sight, every record keeps at most 64
  addresses, and the book is within its limit unless only connected peers are left.\<close>

theorem peer_book_consistent:
  assumes "book_reachable n b"
  shows "connected_count b = card {p. \<exists>r. fmlookup (peers b) p = Some r \<and> connected r}
    \<and> discovered_count b = card {p. \<exists>r. fmlookup (peers b) p = Some r \<and> \<not> connected r}
    \<and> set (reconnect_candidates b) = {p. \<exists>r. fmlookup (peers b) p = Some r \<and> \<not> connected r \<and> namespaces r \<noteq> []}
    \<and> set (disconnected_eviction_order b)
        = {(t, p). \<exists>r. fmlookup (peers b) p = Some r \<and> \<not> connected r \<and> last_seen_unix_secs r = Some t}
    \<and> (\<forall>p r. fmlookup (peers b) p \<noteq> Some r \<or> (rec_peer_id r = p \<and> length (addresses r) \<le> 64))
    \<and> (book_len b \<le> max n 1 \<or> discovered_count b = 0)"
proof -
  from book_reachable_ok [OF assms] have ok: "book_ok b" and m: "max_records b = max n 1" by auto
  let ?C = "{p. \<exists>r. fmlookup (peers b) p = Some r \<and> connected r}"
  let ?D = "{p. \<exists>r. fmlookup (peers b) p = Some r \<and> \<not> connected r}"
  have dom: "fmdom' (peers b) = ?C \<union> ?D" by (auto simp: fmlookup_dom'_iff)
  have fin: "finite ?C" "finite ?D" using finite_fmdom' [of "peers b"] unfolding dom by simp_all
  have "fmsum (\<lambda>r. if connected r then 1 else 0) (peers b) = (\<Sum>k\<in>?C. 1 :: nat)"
    unfolding fmsum_def by (rule sum.mono_neutral_cong_right) (auto simp: fmlookup_dom'_iff split: if_splits)
  then have cc: "connected_count b = card ?C" using book_okD(4) [OF ok] by (simp add: connected_records_def)
  have "fmsize (peers b) = card (fmdom' (peers b))" by (simp add: fmdom'_alt_def fcard.rep_eq)
  also have "\<dots> = card ?C + card ?D" unfolding dom using fin by (intro card_Un_disjoint) auto
  finally have dc: "discovered_count b = card ?D" by (simp add: discovered_count_def cc)
  have "book_len b \<le> max n 1 \<or> discovered_count b = 0"
  proof (cases "fmsize (peers b) \<le> max_records b")
    case False
    with book_okD(6) [OF ok] have "?D = {}" by auto
    then show ?thesis using dc by (simp only: card.empty simp_thms)
  qed (simp add: book_len_def m)
  moreover have "set (reconnect_candidates b) = {p. \<exists>r. fmlookup (peers b) p = Some r \<and> \<not> connected r \<and> namespaces r \<noteq> []}"
    using book_okD(3) [OF ok] by (auto simp: reconnect_candidates_def awaiting_def)
  moreover have "set (disconnected_eviction_order b)
      = {(t, p). \<exists>r. fmlookup (peers b) p = Some r \<and> \<not> connected r \<and> last_seen_unix_secs r = Some t}"
    using book_okD(1) [OF ok] by (auto simp: indexed_def book_stamp_def split: if_splits)
  moreover have "\<forall>p r. fmlookup (peers b) p \<noteq> Some r \<or> (rec_peer_id r = p \<and> length (addresses r) \<le> 64)"
    using book_okD(5) [OF ok] unfolding record_ok_def MAX_ADDRS_PER_PEER_def by blast
  ultimately show ?thesis using cc dc by (intro conjI)
qed

lemma peer_book_consistent_witness:
  "connected_count (record_connected 9 (3 :: u8) None (peer_book_with_max 1))
     = card {p. \<exists>r. fmlookup (peers (record_connected 9 (3 :: u8) None (peer_book_with_max 1))) p = Some r \<and> connected r}"
proof -
  have "fmsize (peers (peer_book_with_max 1 :: u8 PeerBook)) < 2 ^ 63"
    by (simp add: peer_book_with_max_def fcard_fempty)
  then have "book_reachable 1 (book_step 9 (Record_connected (3 :: u8) None) (peer_book_with_max 1))"
    by (rule book_next [OF book_init])
  from peer_book_consistent [OF this] show ?thesis by simp
qed

text \<open>C8. Connected peers are never evicted, and eviction among the disconnected is oldest first. Any
  mutation of one peer leaves every other connected record exactly as it was; a disconnected record
  it evicts was last seen no later than every disconnected record that stays.\<close>

theorem connected_peers_protected:
  assumes "book_ok b" and "q \<noteq> p" and "fmlookup (peers b) q = Some r"
  shows "(connected r \<longrightarrow> fmlookup (peers (mutate_peer now p f b)) q = Some r)
    \<and> fmlookup (peers (mutate_peer now p f b)) q \<in> {None, Some r}
    \<and> (fmlookup (peers (mutate_peer now p f b)) q = None \<longrightarrow>
        (\<forall>j r'. fmlookup (peers (mutate_peer now p f b)) j = Some r' \<longrightarrow> \<not> connected r' \<longrightarrow>
           the (last_seen_unix_secs r) \<le> the (last_seen_unix_secs r') \<or> last_seen_unix_secs r' = None))"
proof -
  let ?b = "mutated now p f b" let ?e = "enforce_record_bound ?b"
  note ix = mutated_indexed [OF assms(1), of now p f]
  have q: "fmlookup (peers ?b) q = Some r" using assms(2,3) by simp
  have a: "connected r \<longrightarrow> fmlookup (peers ?e) q = Some r"
    using book.evict_protects [OF ix q] by (simp add: book_stamp_def)
  have b: "fmlookup (peers ?e) q \<in> {None, Some r}"
    using book.evict_subset [OF ix, of q] q by (cases "fmlookup (peers ?e) q") auto
  have c: "the (last_seen_unix_secs r) \<le> the (last_seen_unix_secs r') \<or> last_seen_unix_secs r' = None"
    if gone: "fmlookup (peers ?e) q = None" and j: "fmlookup (peers ?e) j = Some r'" "\<not> connected r'" for j r'
  proof (cases "last_seen_unix_secs r'")
    case (Some u)
    have "\<not> connected r" using a gone by auto
    moreover obtain t where t: "last_seen_unix_secs r = Some t"
      using book_okD(5) [OF assms(1,3)] by (auto simp: record_ok_def)
    ultimately have "(t, q) < (u, j)"
      using book.evict_oldest_first [OF ix q _ gone j(1), of t u] j(2) Some by (simp add: book_stamp_def)
    then show ?thesis using Some t by (auto simp: less_prod_def)
  qed simp
  show ?thesis unfolding mutate_peer_mutated by (intro conjI a b) (use c in auto)
qed

lemma connected_peers_protected_witness:
  "\<exists>r. fmlookup (peers (record_connected 9 (3 :: u8) None (peer_book_with_max 1))) 3 = Some r \<and> connected r
     \<and> fmlookup (peers (record_peer 10 4 Manual (record_connected 9 (3 :: u8) None (peer_book_with_max 1)))) 3 = Some r"
proof -
  let ?b = "record_connected 9 (3 :: u8) None (peer_book_with_max 1)"
  have ok: "book_ok ?b"
    using book_step_ok [OF peer_book_init_ok [of 1], of 9 "Record_connected (3 :: u8) None"]
    by (simp add: peer_book_with_max_def fcard_fempty)
  let ?r = "(peer_record_new (3 :: u8))\<lparr>connected := True, sources := [Connected], last_seen_unix_secs := Some 9\<rparr>"
  have l: "fmlookup (peers ?b) 3 = Some ?r"
    by (simp add: record_connected_def mutate_peer_mutated enforce_record_bound_def mutated_def old_record_def
        peer_book_with_max_def mark_seen_def peer_record_new_def book_stamp_def reindex_def awaiting_def Let_def)
  have "(3 :: u8) \<noteq> 4" by simp
  from connected_peers_protected [OF ok this l, of 10 "\<lambda>r. r\<lparr>sources := bset_insert Manual (sources r)\<rparr>"] l
  show ?thesis by (simp add: record_peer_def)
qed

text \<open>The view \<open>get_peers\<close> returns is complete and ordered: it is sorted by the text of the peer
  id, it has one entry per record, and its entries are exactly the views of the records.\<close>

theorem book_peers_view:
  "sorted (map pi_peer_id (book_peers E b)) \<and> length (book_peers E b) = book_len b
   \<and> set (book_peers E b) = {to_peer_info E r |p r. fmlookup (peers b) p = Some r}"
proof -
  let ?ps = "sorted_list_of_fset (fmdom (peers b))"
  have "length ?ps = fmsize (peers b)" by (simp add: sorted_list_of_fset.rep_eq fcard.rep_eq)
  moreover have "set (records b) = {r. \<exists>p. fmlookup (peers b) p = Some r}"
    by (force simp: records_def fmlookup_dom_iff)
  moreover have "set (book_peers E b) = to_peer_info E ` set (records b)" by (simp add: book_peers_def)
  moreover have "length (book_peers E b) = length ?ps" by (simp add: book_peers_def records_def)
  ultimately show ?thesis by (auto simp: book_peers_def book_len_def)
qed

end
