(* ===== verification/Gossip_Types.thy ===== *)
theory Gossip_Types
  imports P2P_Prelude
begin

text \<open>
  The vocabulary of the Gossipsub fork, \<open>external/libp2p-gossipsub/src/types.rs\<close>: messages, the control messages of the
  mesh, and what is queued for a peer. A \<open>MessageId\<close> is its bytes, a \<open>TopicHash\<close> its text. The partial-message
  extension is a feature the node does not enable; its options are left out.
\<close>

type_synonym message_id = "u8 list"
type_synonym topic_hash = string

datatype MessageAcceptance = Acceptance_Accept | Acceptance_Reject | Acceptance_Ignore

datatype PeerKind = NotSupported | Floodsub | Gossipsub | Gossipsubv1_1 | Gossipsubv1_2 | Gossipsubv1_3

text \<open>The derived order of the kinds is the order of their declaration.\<close>

fun kind_rank :: "PeerKind \<Rightarrow> nat" where
  "kind_rank NotSupported = 0"
| "kind_rank Floodsub = 1"
| "kind_rank Gossipsub = 2"
| "kind_rank Gossipsubv1_1 = 3"
| "kind_rank Gossipsubv1_2 = 4"
| "kind_rank Gossipsubv1_3 = 5"

instantiation PeerKind :: linorder
begin

definition less_eq_PeerKind :: "PeerKind \<Rightarrow> PeerKind \<Rightarrow> bool" where "less_eq_PeerKind a b \<longleftrightarrow> kind_rank a \<le> kind_rank b"

definition less_PeerKind :: "PeerKind \<Rightarrow> PeerKind \<Rightarrow> bool" where "less_PeerKind a b \<longleftrightarrow> kind_rank a < kind_rank b"

instance
proof
  fix a b :: PeerKind
  assume "a \<le> b" and "b \<le> a"
  then show "a = b" by (cases a; cases b) (simp_all add: less_eq_PeerKind_def)
qed (auto simp: less_eq_PeerKind_def less_PeerKind_def)

end

definition is_gossipsub :: "PeerKind \<Rightarrow> bool" where
  "is_gossipsub k \<longleftrightarrow> k \<in> {Gossipsubv1_3, Gossipsubv1_2, Gossipsubv1_1, Gossipsub}"

record 'p RawMessage =
  rm_source :: "'p option"
  rm_data :: "u8 list"
  rm_sequence_number :: "nat option"
  rm_topic :: topic_hash
  rm_signature :: "u8 list option"
  rm_key :: "u8 list option"
  rm_validated :: bool

record 'p gs_Message =
  ms_source :: "'p option"
  ms_data :: "u8 list"
  ms_sequence_number :: "nat option"
  ms_topic :: topic_hash

datatype SubscriptionAction = Subscribe_action | Unsubscribe_action

record Subscription =
  sub_action :: SubscriptionAction
  sub_topic_hash :: topic_hash

record 'p Prune =
  pr_topic_hash :: topic_hash
  pr_peers :: "'p option list"
  pr_backoff :: "nat option"

datatype 'p ControlAction =
    IHave topic_hash "message_id list"
  | IWant "message_id list"
  | Graft topic_hash
  | PruneAction "'p Prune"
  | IDontWant "message_id list"
  | ExtensionsAction "bool option option"

datatype 'p RpcOut =
    Publish message_id "'p RawMessage"
  | SubscribeOut topic_hash
  | SubscribeMany "topic_hash list"
  | UnsubscribeOut topic_hash
  | GraftOut topic_hash
  | PruneOut "'p Prune"
  | IHaveOut topic_hash "message_id list"
  | IWantOut "message_id list"
  | IDontWantOut "message_id list"
  | ExtensionsOut
  | TestExtension

record 'p RpcIn =
  rpc_messages :: "'p RawMessage list"
  rpc_subscriptions :: "Subscription list"
  rpc_control_msgs :: "'p ControlAction list"

record FailedMessages =
  fm_priority :: nat
  fm_non_priority :: nat

text \<open>Why a message was not accepted: \<open>error.rs\<close> and \<open>peer_score.rs\<close>.\<close>

datatype ValidationError = InvalidSignature | EmptySequenceNumber | InvalidSequenceNumber | InvalidPeerId | SignaturePresent
  | SequenceNumberPresent | MessageSourcePresent | TransformFailed | MessageSizeTooLargeForTopic

datatype RejectReason = ValidationErrorReason ValidationError | SelfOrigin | BlackListedPeer | BlackListedSource
  | ValidationIgnored | ValidationFailed

definition rpc_priority :: "'p RpcOut \<Rightarrow> bool" where
  "rpc_priority rpc = (case rpc of SubscribeOut _ \<Rightarrow> True | SubscribeMany _ \<Rightarrow> True | UnsubscribeOut _ \<Rightarrow> True
     | GraftOut _ \<Rightarrow> True | PruneOut _ \<Rightarrow> True | IDontWantOut _ \<Rightarrow> True | _ \<Rightarrow> False)"

end
