(* ===== verification/Node_Messages.thy ===== *)
theory Node_Messages
  imports Fragmentation Reputation Peer_Book Gossip_Types
begin

text \<open>
  What the node does with a message Gossipsub hands it: \<open>node/events/gossip.rs\<close> (heartbeats),
  \<open>node/events/app.rs\<close> (application messages, whole or in fragments) and the dispatch on the topic in
  \<open>node/events.rs\<close>, with the counters they feed, \<open>api/metrics.rs\<close> and \<open>node/events/observability.rs\<close>. Every
  message gets one verdict, which Gossipsub needs to forward it, and moves the reputation of its author.
\<close>

section \<open>Counters\<close>

definition TRANSPORT_ACCOUNTING_OVERHEAD_BYTES :: nat where "TRANSPORT_ACCOUNTING_OVERHEAD_BYTES = 64"
definition CONNECTION_HANDSHAKE_ESTIMATE_BYTES :: nat where "CONNECTION_HANDSHAKE_ESTIMATE_BYTES = 1536"
definition MAX_TRACKED_PEER_BANDWIDTH :: nat where "MAX_TRACKED_PEER_BANDWIDTH = 512"
definition MAX_TRACKED_TOPIC_BANDWIDTH :: nat where "MAX_TRACKED_TOPIC_BANDWIDTH = 256"

record Bandwidth =
  bw_sent :: nat
  bw_recv :: nat

definition bandwidth_default :: Bandwidth where
  "bandwidth_default = \<lparr>bw_sent = 0, bw_recv = 0\<rparr>"

record 'p BandwidthMetrics =
  total_bytes_sent :: nat
  total_bytes_received :: nat
  peer_stats :: "('p, Bandwidth) fmap"
  topic_stats :: "(string, Bandwidth) fmap"

definition bandwidth_metrics_default :: "'p BandwidthMetrics" where
  "bandwidth_metrics_default = \<lparr>total_bytes_sent = 0, total_bytes_received = 0, peer_stats = fmempty, topic_stats = fmempty\<rparr>"

definition track :: "nat \<Rightarrow> (Bandwidth \<Rightarrow> Bandwidth) \<Rightarrow> 'k option \<Rightarrow> ('k, Bandwidth) fmap \<Rightarrow> ('k, Bandwidth) fmap" where
  "track limit f key m = (case key of None \<Rightarrow> m
     | Some k \<Rightarrow> if k |\<in>| fmdom m \<or> fmsize m < limit
         then fmupd k (f (case fmlookup m k of None \<Rightarrow> bandwidth_default | Some b \<Rightarrow> b)) m else m)"

definition record_sent :: "'p option \<Rightarrow> string option \<Rightarrow> nat \<Rightarrow> 'p BandwidthMetrics \<Rightarrow> 'p BandwidthMetrics" where
  "record_sent peer topic bytes m =
     (let f = (\<lambda>b. b\<lparr>bw_sent := sat_add 64 (bw_sent b) bytes\<rparr>)
      in m\<lparr>total_bytes_sent := sat_add 64 (total_bytes_sent m) bytes,
           peer_stats := track MAX_TRACKED_PEER_BANDWIDTH f peer (peer_stats m),
           topic_stats := track MAX_TRACKED_TOPIC_BANDWIDTH f topic (topic_stats m)\<rparr>)"

definition record_received :: "'p option \<Rightarrow> string option \<Rightarrow> nat \<Rightarrow> 'p BandwidthMetrics \<Rightarrow> 'p BandwidthMetrics" where
  "record_received peer topic bytes m =
     (let f = (\<lambda>b. b\<lparr>bw_recv := sat_add 64 (bw_recv b) bytes\<rparr>)
      in m\<lparr>total_bytes_received := sat_add 64 (total_bytes_received m) bytes,
           peer_stats := track MAX_TRACKED_PEER_BANDWIDTH f peer (peer_stats m),
           topic_stats := track MAX_TRACKED_TOPIC_BANDWIDTH f topic (topic_stats m)\<rparr>)"

definition record_connection_handshake :: "'p option \<Rightarrow> 'p BandwidthMetrics \<Rightarrow> 'p BandwidthMetrics" where
  "record_connection_handshake peer m =
     record_received peer None CONNECTION_HANDSHAKE_ESTIMATE_BYTES
       (record_sent peer None CONNECTION_HANDSHAKE_ESTIMATE_BYTES m)"

definition metrics_for_peer :: "'p option \<Rightarrow> 'p BandwidthMetrics \<Rightarrow> 'p BandwidthMetrics" where
  "metrics_for_peer peer m = (case peer of None \<Rightarrow> m
     | Some p \<Rightarrow> m\<lparr>peer_stats := (case fmlookup (peer_stats m) p of None \<Rightarrow> fmempty | Some b \<Rightarrow> fmupd p b fmempty),
                   topic_stats := fmempty\<rparr>)"

definition accounted_transport_bytes :: "nat \<Rightarrow> nat" where
  "accounted_transport_bytes serialized_len = sat_add 64 serialized_len TRANSPORT_ACCOUNTING_OVERHEAD_BYTES"

definition MAX_PENDING_PULSES :: nat where "MAX_PENDING_PULSES = 64"

record ObservabilityBatch =
  app_messages_received :: nat
  app_messages_ignored :: nat
  app_messages_rejected :: nat
  gossip_messages_accepted :: nat
  gossip_messages_ignored :: nat
  gossip_messages_rejected :: nat
  ob_peer_connectivity_dirty :: bool
  dht_snapshot_dirty :: bool
  ob_pulses :: "string list"

definition observability_default :: ObservabilityBatch where
  "observability_default = \<lparr>app_messages_received = 0, app_messages_ignored = 0, app_messages_rejected = 0,
     gossip_messages_accepted = 0, gossip_messages_ignored = 0, gossip_messages_rejected = 0,
     ob_peer_connectivity_dirty = False, dht_snapshot_dirty = False, ob_pulses = []\<rparr>"

definition app_received :: "ObservabilityBatch \<Rightarrow> ObservabilityBatch" where
  "app_received b = b\<lparr>app_messages_received := sat_add 64 (app_messages_received b) 1\<rparr>"

definition app_ignored :: "ObservabilityBatch \<Rightarrow> ObservabilityBatch" where
  "app_ignored b = b\<lparr>app_messages_ignored := sat_add 64 (app_messages_ignored b) 1\<rparr>"

definition app_rejected :: "ObservabilityBatch \<Rightarrow> ObservabilityBatch" where
  "app_rejected b = b\<lparr>app_messages_rejected := sat_add 64 (app_messages_rejected b) 1\<rparr>"

definition gossip_accepted :: "bool \<Rightarrow> ObservabilityBatch \<Rightarrow> ObservabilityBatch" where
  "gossip_accepted dirty b = b\<lparr>gossip_messages_accepted := sat_add 64 (gossip_messages_accepted b) 1,
     ob_peer_connectivity_dirty := ob_peer_connectivity_dirty b \<or> dirty\<rparr>"

definition gossip_ignored :: "ObservabilityBatch \<Rightarrow> ObservabilityBatch" where
  "gossip_ignored b = b\<lparr>gossip_messages_ignored := sat_add 64 (gossip_messages_ignored b) 1\<rparr>"

definition gossip_rejected :: "ObservabilityBatch \<Rightarrow> ObservabilityBatch" where
  "gossip_rejected b = b\<lparr>gossip_messages_rejected := sat_add 64 (gossip_messages_rejected b) 1\<rparr>"

definition dht_dirty :: "ObservabilityBatch \<Rightarrow> ObservabilityBatch" where
  "dht_dirty b = b\<lparr>dht_snapshot_dirty := True\<rparr>"

definition peer_connectivity_dirty :: "ObservabilityBatch \<Rightarrow> ObservabilityBatch" where
  "peer_connectivity_dirty b = b\<lparr>ob_peer_connectivity_dirty := True\<rparr>"

definition pulse :: "string \<Rightarrow> ObservabilityBatch \<Rightarrow> ObservabilityBatch" where
  "pulse line b = b\<lparr>ob_pulses := (if MAX_PENDING_PULSES \<le> length (ob_pulses b) then tl (ob_pulses b) else ob_pulses b) @ [line]\<rparr>"

definition observability_is_empty :: "ObservabilityBatch \<Rightarrow> bool" where
  "observability_is_empty b \<longleftrightarrow> app_messages_received b = 0 \<and> app_messages_ignored b = 0 \<and> app_messages_rejected b = 0
     \<and> gossip_messages_accepted b = 0 \<and> gossip_messages_ignored b = 0 \<and> gossip_messages_rejected b = 0
     \<and> \<not> ob_peer_connectivity_dirty b \<and> \<not> dht_snapshot_dirty b \<and> ob_pulses b = []"

section \<open>The context of the handlers\<close>

text \<open>The fields of \<open>SwarmEventContext\<close> the two handlers use. \<open>gx_reports\<close> and \<open>gx_app_messages\<close> are what they
  sent: the verdicts given to Gossipsub, and the messages given to the application.\<close>

record 'p gossip_cfg =
  gc_security :: MessageSecurityConfig
  gc_local_peer :: 'p
  gc_network_id :: nat
  gc_application_namespaces :: "string list"
  gc_heartbeat_topic_hash :: string
  gc_app_topic_hashes :: "string list"

record 'p gossip_ctx =
  gx_rep :: "'p ReputationStore"
  gx_unverified_relayed :: "('p, nat) fmap"
  gx_peer_book :: "'p PeerBook"
  gx_replay_cache :: "'p HeartbeatReplayCache"
  gx_app_replay_cache :: "'p AppMessageReplayCache"
  gx_reassembler :: "'p AppFragmentReassembler"
  gx_bandwidth :: "'p BandwidthMetrics"
  gx_observability :: ObservabilityBatch
  gx_app_messages :: "AppMessage list"
  gx_reports :: "(message_id \<times> 'p \<times> MessageAcceptance) list"

text \<open>The clocks a handler reads: the unix time, and the instants of the reassembler (expiry and creation), the
  reputation store and the peer book.\<close>

record clock_reads =
  ck_unix :: nat
  ck_expire :: nat
  ck_created :: nat
  ck_rep :: nat
  ck_book :: nat

definition report_verdict :: "message_id \<Rightarrow> 'p \<Rightarrow> MessageAcceptance \<Rightarrow> 'p gossip_ctx \<Rightarrow> 'p gossip_ctx" where
  "report_verdict mid source verdict x = x\<lparr>gx_reports := gx_reports x @ [(mid, source, verdict)]\<rparr>"

definition observe :: "(ObservabilityBatch \<Rightarrow> ObservabilityBatch) \<Rightarrow> 'p gossip_ctx \<Rightarrow> 'p gossip_ctx" where
  "observe f x = x\<lparr>gx_observability := f (gx_observability x)\<rparr>"

definition receive_bytes :: "'p \<Rightarrow> string option \<Rightarrow> nat \<Rightarrow> 'p gossip_ctx \<Rightarrow> 'p gossip_ctx" where
  "receive_bytes source topic bytes x = x\<lparr>gx_bandwidth := record_received (Some source) topic bytes (gx_bandwidth x)\<rparr>"

section \<open>Heartbeats\<close>

definition reject_heartbeat :: "'p::linorder ext \<Rightarrow> clock_reads \<Rightarrow> 'p \<Rightarrow> 'p \<Rightarrow> message_id \<Rightarrow> string
    \<Rightarrow> 'p gossip_ctx \<Rightarrow> 'p gossip_ctx" where
  "reject_heartbeat E ck source offender mid reason x =
     (let x = x\<lparr>gx_rep := penalize_invalid (ck_rep ck) offender (gx_rep x)\<rparr>;
          x = report_verdict mid source Acceptance_Reject x;
          x = observe gossip_rejected x
      in observe (pulse (''peer '' @ pid_to_string E offender @ '' '' @ reason)) x)"

definition record_heartbeat_peer :: "'p::linorder gossip_cfg \<Rightarrow> clock_reads \<Rightarrow> 'p \<Rightarrow> 'p gossip_ctx \<Rightarrow> 'p gossip_ctx" where
  "record_heartbeat_peer cfg ck peer x =
     (let b = fold (\<lambda>ns. record_namespace (ck_book ck) peer ns Connected) (gc_application_namespaces cfg) (gx_peer_book x);
          b = record_connected (ck_book ck) peer None b
      in x\<lparr>gx_peer_book := b, gx_unverified_relayed := fmdrop peer (gx_unverified_relayed x)\<rparr>)"

definition handle_heartbeat_message :: "'p::linorder ext \<Rightarrow> 'p gossip_cfg \<Rightarrow> clock_reads \<Rightarrow> 'p \<Rightarrow> 'p option \<Rightarrow> message_id
    \<Rightarrow> u8 list \<Rightarrow> 'p gossip_ctx \<Rightarrow> 'p gossip_ctx option" where
  "handle_heartbeat_message E cfg ck source authenticated_source mid data x0 =
     (let x = receive_bytes source (Some ''heartbeat'') (accounted_transport_bytes (length data)) x0 in
      case authenticated_source of
        None \<Rightarrow> Some (reject_heartbeat E ck source source mid ''rejected_missing_authenticated_author'' x)
      | Some author \<Rightarrow>
          (case validate_heartbeat_wire E author data (ck_unix ck) (gc_security cfg) (gx_replay_cache x) of
             None \<Rightarrow> None
           | Some (validation, cache) \<Rightarrow> let x = x\<lparr>gx_replay_cache := cache\<rparr> in Some (case decision validation of
               Accept \<Rightarrow>
                 let x = x\<lparr>gx_rep := accept (ck_rep ck) author (gx_rep x)\<rparr>;
                     x = report_verdict mid source Acceptance_Accept x;
                     dirty = (envelope validation \<noteq> None);
                     x = (if dirty then record_heartbeat_peer cfg ck author x else x);
                     x = observe (gossip_accepted dirty) x
                 in (case envelope validation of None \<Rightarrow> x
                     | Some env \<Rightarrow> observe (pulse (''peer heartbeat '' @ peer_id env @ '' '' @ nonce_hex env)) x)
             | IgnoreDuplicate \<Rightarrow>
                 let x = x\<lparr>gx_rep := ignore_duplicate (ck_rep ck) author (gx_rep x)\<rparr>;
                     x = report_verdict mid source Acceptance_Ignore x;
                     x = observe gossip_ignored x
                 in observe (pulse (''peer '' @ pid_to_string E author @ '' ignored_duplicate_heartbeat'')) x
             | RejectOversize \<Rightarrow> reject_heartbeat E ck source author mid ''rejected_oversize'' x
             | Reject \<Rightarrow> reject_heartbeat E ck source author mid ''rejected_heartbeat'' x)))"

definition handle_unexpected_topic_message :: "'p ext \<Rightarrow> 'p \<Rightarrow> message_id \<Rightarrow> 'p gossip_ctx \<Rightarrow> 'p gossip_ctx" where
  "handle_unexpected_topic_message E peer mid x =
     observe (pulse (''peer '' @ pid_to_string E peer @ '' ignored_unexpected_gossip_topic''))
       (observe gossip_ignored (report_verdict mid peer Acceptance_Ignore x))"

section \<open>Application messages\<close>

definition reject_app_message :: "'p::linorder ext \<Rightarrow> clock_reads \<Rightarrow> 'p \<Rightarrow> message_id \<Rightarrow> 'p option \<Rightarrow> nat \<Rightarrow> string
    \<Rightarrow> 'p gossip_ctx \<Rightarrow> 'p gossip_ctx" where
  "reject_app_message E ck source mid authenticated_source accounted_bytes reason x =
     (let x = (case authenticated_source of None \<Rightarrow> x
               | Some author \<Rightarrow> x\<lparr>gx_rep := penalize_invalid (ck_rep ck) author (gx_rep x)\<rparr>);
          x = report_verdict mid source Acceptance_Reject x;
          x = receive_bytes source None accounted_bytes x;
          x = observe app_rejected x
      in observe (pulse (''peer '' @ pid_to_string E source @ '' rejected_app_message '' @ reason)) x)"

definition process_complete_message :: "'p::linorder ext \<Rightarrow> 'p gossip_cfg \<Rightarrow> clock_reads \<Rightarrow> 'p \<Rightarrow> 'p \<Rightarrow> message_id \<Rightarrow> string
    \<Rightarrow> nat \<Rightarrow> AppMessage \<Rightarrow> 'p gossip_ctx \<Rightarrow> 'p gossip_ctx" where
  "process_complete_message E cfg ck source author mid received_topic accounted_bytes m x0 =
     (if msg_network_id m \<noteq> gc_network_id cfg
         \<or> isl (validate_app_message_authentication E m author received_topic)
      then reject_app_message E ck source mid (Some author) accounted_bytes ''application authentication/topic mismatch'' x0
      else let (d, cache) = validate_app_message_security E author m (ck_unix ck) (gc_security cfg) (gx_app_replay_cache x0);
               x = x0\<lparr>gx_app_replay_cache := cache\<rparr>
           in (case d of
                 AppIgnoreDuplicate \<Rightarrow>
                   let x = x\<lparr>gx_rep := ignore_duplicate (ck_rep ck) author (gx_rep x)\<rparr>;
                       x = report_verdict mid source Acceptance_Ignore x;
                       x = receive_bytes source (Some (msg_topic m)) accounted_bytes x;
                       x = observe app_ignored x
                   in observe (pulse (''peer '' @ pid_to_string E author @ '' ignored_duplicate_app_message'')) x
               | AppReject \<Rightarrow>
                   reject_app_message E ck source mid (Some author) accounted_bytes ''application freshness/replay validation failed'' x
               | AppAccept \<Rightarrow>
                   let x = report_verdict mid source Acceptance_Accept x;
                       x = x\<lparr>gx_rep := accept (ck_rep ck) author (gx_rep x)\<rparr>;
                       x = receive_bytes source (Some (msg_topic m)) accounted_bytes x
                   in if is_for_peer E m (gc_local_peer cfg)
                      then observe app_received (x\<lparr>gx_app_messages := gx_app_messages x @ [m]\<rparr>)
                      else observe app_ignored x))"

definition handle_app_fragment :: "'p::linorder ext \<Rightarrow> 'p gossip_cfg \<Rightarrow> clock_reads \<Rightarrow> 'p \<Rightarrow> 'p \<Rightarrow> message_id \<Rightarrow> string
    \<Rightarrow> nat \<Rightarrow> AppFragment \<Rightarrow> 'p gossip_ctx \<Rightarrow> 'p gossip_ctx option" where
  "handle_app_fragment E cfg ck source author mid received_topic accounted_bytes f x =
     (case app_ident_topic (fr_network_id f) (fr_topic f) of
        Inl _ \<Rightarrow> Some (reject_app_message E ck source mid (Some author) accounted_bytes ''invalid fragment topic'' x)
      | Inr topic \<Rightarrow>
          if fr_network_id f \<noteq> gc_network_id cfg \<or> fr_source_peer_id f \<noteq> pid_to_string E author
             \<or> topic_hash E topic \<noteq> received_topic
          then Some (reject_app_message E ck source mid (Some author) accounted_bytes ''fragment authentication/topic mismatch'' x)
          else (case push E (ck_expire ck) (ck_created ck) author f (gx_reassembler x) of
             None \<Rightarrow> None
           | Some (Inl _, st) \<Rightarrow> Some (reject_app_message E ck source mid (Some author) accounted_bytes
               ''fragment reassembly rejected'' (x\<lparr>gx_reassembler := st\<rparr>))
           | Some (Inr reassembled, st) \<Rightarrow>
               let x = receive_bytes source None accounted_bytes (x\<lparr>gx_reassembler := st\<rparr>) in
               Some (case reassembled of
                 None \<Rightarrow> report_verdict mid source Acceptance_Accept x
               | Some m \<Rightarrow> process_complete_message E cfg ck source author mid received_topic accounted_bytes m x)))"

definition handle_app_message :: "'p::linorder ext \<Rightarrow> 'a frag_codec_scheme \<Rightarrow> 'p gossip_cfg \<Rightarrow> clock_reads \<Rightarrow> 'p \<Rightarrow> 'p option
    \<Rightarrow> message_id \<Rightarrow> string \<Rightarrow> u8 list \<Rightarrow> 'p gossip_ctx \<Rightarrow> 'p gossip_ctx option" where
  "handle_app_message E J cfg ck source authenticated_source mid received_topic data x =
     (let accounted_bytes = accounted_transport_bytes (length data) in
      case authenticated_source of
        None \<Rightarrow> Some (reject_app_message E ck source mid None accounted_bytes ''missing authenticated Gossipsub author'' x)
      | Some author \<Rightarrow>
          (case decode_app_message E J data of
             Inr m \<Rightarrow> Some (process_complete_message E cfg ck source author mid received_topic accounted_bytes m x)
           | Inl _ \<Rightarrow>
               (case decode_fragment E J data of
                  Inl _ \<Rightarrow> Some (reject_app_message E ck source mid (Some author) accounted_bytes
                    ''invalid application envelope/fragment'' x)
                | Inr f \<Rightarrow> handle_app_fragment E cfg ck source author mid received_topic accounted_bytes f x)))"

section \<open>Dispatch\<close>

record 'p gossip_message =
  gm_propagation_source :: 'p
  gm_id :: message_id
  gm_source :: "'p option"
  gm_topic :: string
  gm_data :: "u8 list"

definition handle_gossip_event :: "'p::linorder ext \<Rightarrow> 'a frag_codec_scheme \<Rightarrow> 'p gossip_cfg \<Rightarrow> clock_reads \<Rightarrow> 'p gossip_message
    \<Rightarrow> 'p gossip_ctx \<Rightarrow> 'p gossip_ctx option" where
  "handle_gossip_event E J cfg ck g x =
     (if gm_topic g = gc_heartbeat_topic_hash cfg
      then handle_heartbeat_message E cfg ck (gm_propagation_source g) (gm_source g) (gm_id g) (gm_data g) x
      else if gm_topic g \<in> set (gc_app_topic_hashes cfg)
      then handle_app_message E J cfg ck (gm_propagation_source g) (gm_source g) (gm_id g) (gm_topic g) (gm_data g) x
      else Some (handle_unexpected_topic_message E (gm_propagation_source g) (gm_id g) x))"

primrec gossip_session :: "'p::linorder ext \<Rightarrow> 'a frag_codec_scheme \<Rightarrow> 'p gossip_cfg \<Rightarrow> (clock_reads \<times> 'p gossip_message) list
    \<Rightarrow> 'p gossip_ctx \<Rightarrow> 'p gossip_ctx option" where
  "gossip_session E J cfg [] x = Some x"
| "gossip_session E J cfg (ev # evs) x = (case ev of (ck, g) \<Rightarrow>
     Option.bind (handle_gossip_event E J cfg ck g x) (gossip_session E J cfg evs))"

definition gossip_ctx_new :: "MessageSecurityConfig \<Rightarrow> 'p gossip_ctx" where
  "gossip_ctx_new cfg = \<lparr>gx_rep = reputation_new (reputation cfg), gx_unverified_relayed = fmempty, gx_peer_book = peer_book_default,
     gx_replay_cache = hb_cache_new cfg, gx_app_replay_cache = app_cache_new cfg, gx_reassembler = reassembler_default,
     gx_bandwidth = bandwidth_metrics_default, gx_observability = observability_default, gx_app_messages = [], gx_reports = []\<rparr>"

section \<open>The invariant\<close>

definition bandwidth_ok :: "'p BandwidthMetrics \<Rightarrow> bool" where
  "bandwidth_ok m \<longleftrightarrow> fmsize (peer_stats m) \<le> MAX_TRACKED_PEER_BANDWIDTH \<and> fmsize (topic_stats m) \<le> MAX_TRACKED_TOPIC_BANDWIDTH"

definition gossip_ok :: "'p::linorder ext \<Rightarrow> 'p gossip_ctx \<Rightarrow> bool" where
  "gossip_ok E x \<longleftrightarrow> reassembler_ok E (gx_reassembler x) \<and> rep_ok (gx_rep x) \<and> hb_cache_ok (gx_replay_cache x)
     \<and> app_cache_ok (gx_app_replay_cache x) \<and> bandwidth_ok (gx_bandwidth x)
     \<and> length (ob_pulses (gx_observability x)) \<le> MAX_PENDING_PULSES"

lemma fmsize_track: "fmsize m \<le> limit \<Longrightarrow> fmsize (track limit f key m) \<le> limit"
  by (auto simp: track_def fcard_finsert_if split: option.splits)

lemma bandwidth_ok_received: "bandwidth_ok m \<Longrightarrow> bandwidth_ok (record_received peer topic bytes m)"
  by (simp add: bandwidth_ok_def record_received_def Let_def fmsize_track)

lemma pulses_le:
  "length (ob_pulses b) \<le> MAX_PENDING_PULSES \<Longrightarrow> length (ob_pulses (pulse line b)) \<le> MAX_PENDING_PULSES"
  by (auto simp: pulse_def MAX_PENDING_PULSES_def)

lemma pulses_same [simp]:
  "ob_pulses (app_received b) = ob_pulses b" "ob_pulses (app_ignored b) = ob_pulses b" "ob_pulses (app_rejected b) = ob_pulses b"
  "ob_pulses (gossip_accepted d b) = ob_pulses b" "ob_pulses (gossip_ignored b) = ob_pulses b"
  "ob_pulses (gossip_rejected b) = ob_pulses b"
  by (simp_all add: app_received_def app_ignored_def app_rejected_def gossip_accepted_def gossip_ignored_def gossip_rejected_def)

lemmas gx_defs = report_verdict_def observe_def receive_bytes_def

lemma gx_simps [simp]:
  "gx_app_messages (report_verdict mid s v x) = gx_app_messages x" "gx_app_messages (observe f x) = gx_app_messages x"
  "gx_app_messages (receive_bytes s t n x) = gx_app_messages x"
  "gx_app_replay_cache (report_verdict mid s v x) = gx_app_replay_cache x" "gx_app_replay_cache (observe f x) = gx_app_replay_cache x"
  "gx_app_replay_cache (receive_bytes s t n x) = gx_app_replay_cache x"
  "gx_reports (report_verdict mid s v x) = gx_reports x @ [(mid, s, v)]" "gx_reports (observe f x) = gx_reports x"
  "gx_reports (receive_bytes s t n x) = gx_reports x"
  "gx_peer_book (report_verdict mid s v x) = gx_peer_book x" "gx_peer_book (observe f x) = gx_peer_book x"
  "gx_peer_book (receive_bytes s t n x) = gx_peer_book x"
  "gx_reassembler (report_verdict mid s v x) = gx_reassembler x" "gx_reassembler (observe f x) = gx_reassembler x"
  "gx_reassembler (receive_bytes s t n x) = gx_reassembler x"
  "gx_rep (report_verdict mid s v x) = gx_rep x" "gx_rep (observe f x) = gx_rep x" "gx_rep (receive_bytes s t n x) = gx_rep x"
  "gx_replay_cache (report_verdict mid s v x) = gx_replay_cache x" "gx_replay_cache (observe f x) = gx_replay_cache x"
  "gx_replay_cache (receive_bytes s t n x) = gx_replay_cache x"
  "gx_bandwidth (report_verdict mid s v x) = gx_bandwidth x" "gx_bandwidth (observe f x) = gx_bandwidth x"
  "gx_bandwidth (receive_bytes s t n x) = record_received (Some s) t n (gx_bandwidth x)"
  "gx_observability (report_verdict mid s v x) = gx_observability x" "gx_observability (observe f x) = f (gx_observability x)"
  "gx_observability (receive_bytes s t n x) = gx_observability x"
  by (simp_all add: gx_defs)

lemma gossip_ok_reject_heartbeat:
  "gossip_ok E x \<Longrightarrow> gossip_ok E (reject_heartbeat E ck source offender mid reason x)"
  "gx_reports (reject_heartbeat E ck source offender mid reason x) = gx_reports x @ [(mid, source, Acceptance_Reject)]"
  by (simp_all add: gossip_ok_def reject_heartbeat_def Let_def penalize_ok pulses_le)

lemma gossip_ok_reject_app:
  "gossip_ok E x \<Longrightarrow> gossip_ok E (reject_app_message E ck source mid a n reason x)"
  "gx_reports (reject_app_message E ck source mid a n reason x) = gx_reports x @ [(mid, source, Acceptance_Reject)]"
  "gx_app_messages (reject_app_message E ck source mid a n reason x) = gx_app_messages x"
  "gx_app_replay_cache (reject_app_message E ck source mid a n reason x) = gx_app_replay_cache x"
  by (simp_all add: gossip_ok_def reject_app_message_def Let_def penalize_ok pulses_le bandwidth_ok_received split: option.split)

lemma gossip_ok_record_peer: "gossip_ok E x \<Longrightarrow> gossip_ok E (record_heartbeat_peer cfg ck p x)"
  "gx_reports (record_heartbeat_peer cfg ck p x) = gx_reports x"
  "gx_app_messages (record_heartbeat_peer cfg ck p x) = gx_app_messages x"
  "gx_app_replay_cache (record_heartbeat_peer cfg ck p x) = gx_app_replay_cache x"
  "gx_observability (record_heartbeat_peer cfg ck p x) = gx_observability x"
  by (simp_all add: gossip_ok_def record_heartbeat_peer_def Let_def)

section \<open>What a handler does\<close>

lemma app_security_cache:
  "app_cache_ok c \<Longrightarrow> app_cache_ok (snd (validate_app_message_security E src m now cfg c))"
  using appg.session_ok(1) [of c "(E, cfg)" "[((src, m), now)]"] by (simp add: app_security_ingest split_beta Let_def)

lemma heartbeat_cache:
  "hb_cache_ok c \<Longrightarrow> validate_heartbeat_wire E src data now cfg c = Some (r, c') \<Longrightarrow> hb_cache_ok c'"
proof -
  assume ok: "hb_cache_ok c" and v: "validate_heartbeat_wire E src data now cfg c = Some (r, c')"
  obtain r' where "validate_heartbeat_wire E src data now cfg c = Some (r', snd (hbg.ingest (E, cfg) (src, data) now c))"
    by (rule validate_ingest)
  with v have "c' = snd (hbg.ingest (E, cfg) (src, data) now c)" by simp
  with hbg.session_ok(1) [OF ok, of "(E, cfg)" "[((src, data), now)]"] show "hb_cache_ok c'" by (simp add: split_beta Let_def)
qed

lemma push_complete_valid:
  "push E now created author f st = Some (Inr (Some m), st') \<Longrightarrow> validate_app_message E m = Inr ()"
  by (auto simp: push_def Let_def finish_message_def and_then_def split: if_splits option.splits sum.splits)

text \<open>The effect on what the application sees: nothing, or a message that passed every check before freshness, judged
  by the replay cache.\<close>

definition checked :: "'p ext \<Rightarrow> 'p gossip_cfg \<Rightarrow> string \<Rightarrow> 'p \<Rightarrow> AppMessage \<Rightarrow> bool" where
  "checked E cfg topic author m \<longleftrightarrow> validate_app_message E m = Inr () \<and> msg_network_id m = gc_network_id cfg
     \<and> validate_app_message_authentication E m author topic = Inr ()"

definition app_quiet :: "'p gossip_ctx \<Rightarrow> 'p gossip_ctx \<Rightarrow> bool" where
  "app_quiet x x' \<longleftrightarrow> gx_app_replay_cache x' = gx_app_replay_cache x \<and> gx_app_messages x' = gx_app_messages x"

definition app_judged :: "'p ext \<Rightarrow> 'p gossip_cfg \<Rightarrow> nat \<Rightarrow> 'p \<Rightarrow> AppMessage \<Rightarrow> MessageAcceptance
    \<Rightarrow> 'p gossip_ctx \<Rightarrow> 'p gossip_ctx \<Rightarrow> bool" where
  "app_judged E cfg now author m v x x' \<longleftrightarrow>
     (let (d, cache) = validate_app_message_security E author m now (gc_security cfg) (gx_app_replay_cache x)
      in gx_app_replay_cache x' = cache \<and> (d = AppAccept \<longrightarrow> v = Acceptance_Accept)
         \<and> gx_app_messages x' = gx_app_messages x @ (if d = AppAccept \<and> is_for_peer E m (gc_local_peer cfg) then [m] else []))"

definition handled :: "'p::linorder ext \<Rightarrow> 'p gossip_cfg \<Rightarrow> clock_reads \<Rightarrow> 'p \<Rightarrow> 'p option \<Rightarrow> message_id \<Rightarrow> string
    \<Rightarrow> 'p gossip_ctx \<Rightarrow> 'p gossip_ctx \<Rightarrow> bool" where
  "handled E cfg ck source author mid topic x x' \<longleftrightarrow> gossip_ok E x' \<and>
     (\<exists>v. gx_reports x' = gx_reports x @ [(mid, source, v)] \<and>
       (app_quiet x x' \<or> (\<exists>a m. author = Some a \<and> checked E cfg topic a m \<and> app_judged E cfg (ck_unix ck) a m v x x')))"

lemma handled_quiet:
  "gossip_ok E x' \<Longrightarrow> gx_reports x' = gx_reports x @ [(mid, source, v)] \<Longrightarrow> app_quiet x x'
     \<Longrightarrow> handled E cfg ck source author mid topic x x'"
  by (auto simp: handled_def)

lemma handled_reject_app:
  "gossip_ok E x \<Longrightarrow> handled E cfg ck source author mid topic x (reject_app_message E ck source mid a n reason x)"
  by (rule handled_quiet) (simp_all add: gossip_ok_reject_app app_quiet_def)

lemma handled_complete:
  assumes ok: "gossip_ok E x" and v: "validate_app_message E m = Inr ()"
  shows "handled E cfg ck source (Some author) mid topic x
     (process_complete_message E cfg ck source author mid topic n m x)"
proof (cases "msg_network_id m \<noteq> gc_network_id cfg \<or> isl (validate_app_message_authentication E m author topic)")
  case True
  then show ?thesis by (simp add: process_complete_message_def handled_reject_app [OF ok])
next
  case False
  then have c: "checked E cfg topic author m"
    using v by (cases "validate_app_message_authentication E m author topic") (auto simp: checked_def)
  obtain d cache where s: "validate_app_message_security E author m (ck_unix ck) (gc_security cfg) (gx_app_replay_cache x)
      = (d, cache)" by fastforce
  have "app_cache_ok cache"
    using app_security_cache [of "gx_app_replay_cache x" E author m "ck_unix ck" "gc_security cfg"] ok s
    by (simp add: gossip_ok_def)
  then have ok': "gossip_ok E (x\<lparr>gx_app_replay_cache := cache\<rparr>)" using ok by (simp add: gossip_ok_def)
  let ?x' = "process_complete_message E cfg ck source author mid topic n m x"
  have "gossip_ok E ?x'"
    using False ok' gossip_ok_reject_app(1) [OF ok', of ck source mid "Some author" n]
    by (cases d) (simp_all add: process_complete_message_def s Let_def gossip_ok_def accept_ok duplicate_ok
        bandwidth_ok_received pulses_le)
  moreover have "\<exists>v. gx_reports ?x' = gx_reports x @ [(mid, source, v)] \<and> app_judged E cfg (ck_unix ck) author m v x ?x'"
    using False by (cases d) (simp_all add: process_complete_message_def s Let_def app_judged_def gossip_ok_reject_app)
  ultimately show ?thesis using c by (auto simp: handled_def)
qed

lemma handled_cong:
  "gx_reports x = gx_reports y \<Longrightarrow> gx_app_replay_cache x = gx_app_replay_cache y \<Longrightarrow> gx_app_messages x = gx_app_messages y
     \<Longrightarrow> handled E cfg ck source author mid topic x x' = handled E cfg ck source author mid topic y x'"
  by (simp add: handled_def app_quiet_def app_judged_def)

lemma handled_fragment:
  assumes ok: "gossip_ok E x" and v: "validate_fragment E f = Inr ()"
  obtains x' where "handle_app_fragment E cfg ck source author mid topic n f x = Some x'"
    and "handled E cfg ck source (Some author) mid topic x x'"
proof -
  have "reassembler_ok E (gx_reassembler x)" using ok by (simp add: gossip_ok_def)
  from push_ok [OF this v] obtain r st' where
    p: "push E (ck_expire ck) (ck_created ck) author f (gx_reassembler x) = Some (r, st')" and st: "reassembler_ok E st'" .
  let ?y = "x\<lparr>gx_reassembler := st'\<rparr>" let ?z = "receive_bytes source None n ?y"
  have y: "gossip_ok E ?y" using ok st by (simp add: gossip_ok_def)
  then have z: "gossip_ok E ?z" by (simp add: gossip_ok_def bandwidth_ok_received)
  have rej: "handled E cfg ck source (Some author) mid topic x (reject_app_message E ck source mid (Some author) n reason ?y)"
    for reason by (subst handled_cong [of x ?y]) (simp_all add: handled_reject_app [OF y])
  have acc: "handled E cfg ck source (Some author) mid topic x (report_verdict mid source Acceptance_Accept ?z)"
    by (rule handled_quiet) (use z in \<open>simp_all add: gossip_ok_def app_quiet_def\<close>)
  have don: "handled E cfg ck source (Some author) mid topic x
      (process_complete_message E cfg ck source author mid topic n m ?z)" if "r = Inr (Some m)" for m
    using push_complete_valid [OF p [unfolded that]] by (subst handled_cong [of x ?z]) (simp_all add: handled_complete [OF z])
  have "\<exists>x'. handle_app_fragment E cfg ck source author mid topic n f x = Some x'
      \<and> handled E cfg ck source (Some author) mid topic x x'"
  proof (cases r)
    case (Inl e)
    then show ?thesis using rej handled_reject_app [OF ok] by (auto simp: handle_app_fragment_def p split: sum.split)
  next
    case (Inr o')
    then show ?thesis using acc don handled_reject_app [OF ok]
      by (cases o') (auto simp: handle_app_fragment_def p Let_def split: sum.split)
  qed
  with that show thesis by blast
qed

lemma handled_app:
  assumes ok: "gossip_ok E x"
  obtains x' where "handle_app_message E J cfg ck source author mid topic data x = Some x'"
    and "handled E cfg ck source author mid topic x x'"
proof (cases author)
  case None
  then show thesis using that handled_reject_app [OF ok] by (simp add: handle_app_message_def)
next
  case a: (Some a)
  show thesis
  proof (cases "decode_app_message E J data")
    case (Inr m)
    then have "validate_app_message E m = Inr ()"
      by (auto simp: decode_app_message_def and_then_def split: if_splits sum.splits)
    then show thesis using that handled_complete [OF ok] a Inr by (simp add: handle_app_message_def)
  next
    case whole: (Inl e)
    show thesis
    proof (cases "decode_fragment E J data")
      case (Inl e')
      then show thesis using that handled_reject_app [OF ok] a whole by (simp add: handle_app_message_def)
    next
      case (Inr f)
      then have "validate_fragment E f = Inr ()"
        by (auto simp: decode_fragment_def and_then_def split: if_splits sum.splits)
      from handled_fragment [OF ok this] obtain x' where
        "handle_app_fragment E cfg ck source a mid topic (accounted_transport_bytes (length data)) f x = Some x'"
        "handled E cfg ck source (Some a) mid topic x x'" .
      then show thesis using that a whole Inr by (simp add: handle_app_message_def Let_def)
    qed
  qed
qed

lemma quiet_reject_heartbeat: "app_quiet x (reject_heartbeat E ck source offender mid reason x)"
  by (simp add: app_quiet_def reject_heartbeat_def Let_def)

lemma handled_heartbeat:
  assumes ok: "gossip_ok E x"
  obtains x' where "handle_heartbeat_message E cfg ck source author mid data x = Some x'"
    and "handled E cfg ck source author mid topic x x'"
proof -
  let ?y = "receive_bytes source (Some ''heartbeat'') (accounted_transport_bytes (length data)) x"
  have y: "gossip_ok E ?y" using ok by (simp add: gossip_ok_def bandwidth_ok_received)
  show thesis
  proof (cases author)
    case None
    have "handled E cfg ck source author mid topic ?y
        (reject_heartbeat E ck source source mid ''rejected_missing_authenticated_author'' ?y)"
      by (rule handled_quiet [OF gossip_ok_reject_heartbeat(1) [OF y] gossip_ok_reject_heartbeat(2) quiet_reject_heartbeat])
    then show thesis using that None by (simp add: handle_heartbeat_message_def handled_cong [of x ?y])
  next
    case (Some a)
    obtain r c where v: "validate_heartbeat_wire E a data (ck_unix ck) (gc_security cfg) (gx_replay_cache x) = Some (r, c)"
      by (rule validate_ingest)
    have "hb_cache_ok c" using heartbeat_cache [OF _ v] ok by (simp add: gossip_ok_def)
    then have z: "gossip_ok E (?y\<lparr>gx_replay_cache := c\<rparr>)" using y by (simp add: gossip_ok_def)
    let ?z = "?y\<lparr>gx_replay_cache := c\<rparr>"
    let ?x' = "the (handle_heartbeat_message E cfg ck source author mid data x)"
    have s: "handle_heartbeat_message E cfg ck source author mid data x = Some ?x'"
      by (simp add: handle_heartbeat_message_def v Some Let_def)
    have "\<exists>v. gossip_ok E ?x' \<and> gx_reports ?x' = gx_reports ?z @ [(mid, source, v)] \<and> app_quiet ?z ?x'"
    proof (cases "decision r")
      case Accept
      let ?w = "report_verdict mid source Acceptance_Accept (?z\<lparr>gx_rep := accept (ck_rep ck) a (gx_rep ?z)\<rparr>)"
      have w: "gossip_ok E ?w" using z by (simp add: gossip_ok_def accept_ok)
      show ?thesis
        using Accept w gossip_ok_record_peer(1) [OF w, of cfg ck a]
        by (auto simp: handle_heartbeat_message_def v Some Let_def gossip_ok_def app_quiet_def gossip_ok_record_peer
            pulses_le split: option.split)
    next
      case IgnoreDuplicate
      then show ?thesis using z
        by (simp add: handle_heartbeat_message_def v Some Let_def gossip_ok_def duplicate_ok pulses_le app_quiet_def)
    next
      case Reject
      then show ?thesis using gossip_ok_reject_heartbeat(1) [OF z] gossip_ok_reject_heartbeat(2) [of E _ _ _ _ _ ?z] quiet_reject_heartbeat [of ?z]
        by (simp add: handle_heartbeat_message_def v Some Let_def)
    next
      case RejectOversize
      then show ?thesis using gossip_ok_reject_heartbeat(1) [OF z] gossip_ok_reject_heartbeat(2) [of E _ _ _ _ _ ?z] quiet_reject_heartbeat [of ?z]
        by (simp add: handle_heartbeat_message_def v Some Let_def)
    qed
    then have "handled E cfg ck source author mid topic x ?x'" by (auto simp: handled_def app_quiet_def)
    with s that show thesis by blast
  qed
qed

lemma handled_event:
  assumes ok: "gossip_ok E x"
  obtains x' where "handle_gossip_event E J cfg ck g x = Some x'"
    and "handled E cfg ck (gm_propagation_source g) (gm_source g) (gm_id g) (gm_topic g) x x'"
proof -
  have u: "handled E cfg ck s a mid t x (handle_unexpected_topic_message E s mid x)" for s a mid t
    by (rule handled_quiet [of E _ x mid s Acceptance_Ignore])
      (use ok in \<open>simp_all add: handle_unexpected_topic_message_def gossip_ok_def app_quiet_def pulses_le\<close>)
  show thesis
    using handled_heartbeat [OF ok] handled_app [OF ok] u that unfolding handle_gossip_event_def by metis
qed

section \<open>Sessions\<close>

lemma gossip_new_ok: "gossip_ok E (gossip_ctx_new sec)"
  by (simp add: gossip_ok_def gossip_ctx_new_def reassembler_default_ok rep_init_ok reputation_new_def hb_cache_new_ok
      app_cache_new_ok bandwidth_ok_def bandwidth_metrics_default_def observability_default_def fcard_fempty)

definition accepts :: "(message_id \<times> 'p \<times> MessageAcceptance) list \<Rightarrow> nat" where
  "accepts rs = length (filter (\<lambda>(mid, source, v). v = Acceptance_Accept) rs)"

lemma accepts_simps [simp]: "accepts [] = 0" "accepts (rs @ rs') = accepts rs + accepts rs'"
  "accepts [(mid, source, v)] = (if v = Acceptance_Accept then 1 else 0)"
  by (simp_all add: accepts_def)

definition follows :: "'p::linorder ext \<Rightarrow> 'p gossip_cfg \<Rightarrow> (clock_reads \<times> 'p gossip_message) list
    \<Rightarrow> 'p gossip_ctx \<Rightarrow> 'p gossip_ctx \<Rightarrow> bool" where
  "follows E cfg evs x x' \<longleftrightarrow> gossip_ok E x' \<and> (\<exists>rs aes ds. gx_reports x' = gx_reports x @ rs
     \<and> map (\<lambda>(mid, source, v). (mid, source)) rs = map (\<lambda>(ck, g). (gm_id g, gm_propagation_source g)) evs
     \<and> app_session E (gc_security cfg) aes (gx_app_replay_cache x) = (ds, gx_app_replay_cache x')
     \<and> (\<forall>(a, m, t) \<in> set aes. t \<in> (ck_unix \<circ> fst) ` set evs) \<and> count_list ds AppAccept \<le> accepts rs)"

lemma follows_refl: "gossip_ok E x \<Longrightarrow> follows E cfg [] x x"
  unfolding follows_def by (intro conjI exI [of _ "[]"]) simp_all

lemma follows_step:
  assumes h: "handled E cfg ck (gm_propagation_source g) author (gm_id g) topic x y" and f: "follows E cfg evs y z"
  shows "follows E cfg ((ck, g) # evs) x z"
proof -
  from h obtain v where r: "gx_reports y = gx_reports x @ [(gm_id g, gm_propagation_source g, v)]"
    and c: "app_quiet x y \<or> (\<exists>a m. author = Some a \<and> checked E cfg topic a m \<and> app_judged E cfg (ck_unix ck) a m v x y)"
    by (auto simp: handled_def)
  from f obtain rs aes ds where ok: "gossip_ok E z" and rs: "gx_reports z = gx_reports y @ rs"
    and ids: "map (\<lambda>(mid, source, v). (mid, source)) rs = map (\<lambda>(ck, g). (gm_id g, gm_propagation_source g)) evs"
    and s: "app_session E (gc_security cfg) aes (gx_app_replay_cache y) = (ds, gx_app_replay_cache z)"
    and t: "\<forall>(a, m, t) \<in> set aes. t \<in> (ck_unix \<circ> fst) ` set evs" and n: "count_list ds AppAccept \<le> accepts rs"
    unfolding follows_def by blast
  let ?rs = "(gm_id g, gm_propagation_source g, v) # rs"
  have acc: "accepts ?rs = (if v = Acceptance_Accept then 1 else 0) + accepts rs"
    using accepts_simps(2) [of "[(gm_id g, gm_propagation_source g, v)]" rs] by simp
  have *: "\<exists>aes ds. app_session E (gc_security cfg) aes (gx_app_replay_cache x) = (ds, gx_app_replay_cache z)
     \<and> (\<forall>(a, m, t) \<in> set aes. t \<in> (ck_unix \<circ> fst) ` set ((ck, g) # evs)) \<and> count_list ds AppAccept \<le> accepts ?rs"
    using c
  proof
    assume "app_quiet x y"
    then show ?thesis using s t n acc by (intro exI [of _ aes] exI [of _ ds]) (auto simp: app_quiet_def)
  next
    assume "\<exists>a m. author = Some a \<and> checked E cfg topic a m \<and> app_judged E cfg (ck_unix ck) a m v x y"
    then obtain a m where "app_judged E cfg (ck_unix ck) a m v x y" by blast
    then obtain d where "validate_app_message_security E a m (ck_unix ck) (gc_security cfg) (gx_app_replay_cache x)
        = (d, gx_app_replay_cache y)" "d = AppAccept \<longrightarrow> v = Acceptance_Accept"
      by (auto simp: app_judged_def split: prod.splits)
    then show ?thesis using s t n acc
      by (intro exI [of _ "(a, m, ck_unix ck) # aes"] exI [of _ "d # ds"]) auto
  qed
  then show ?thesis
    unfolding follows_def using ok r rs ids by (auto intro!: exI [of _ ?rs])
qed

lemma session_follows:
  assumes "gossip_ok E x"
  obtains x' where "gossip_session E J cfg evs x = Some x'" and "follows E cfg evs x x'"
proof -
  have "\<exists>x'. gossip_session E J cfg evs x = Some x' \<and> follows E cfg evs x x'"
    using assms
  proof (induction evs arbitrary: x)
    case (Cons ev evs)
    obtain ck g where ev: "ev = (ck, g)" by (cases ev)
    from handled_event [OF Cons.prems] obtain y where y: "handle_gossip_event E J cfg ck g x = Some y"
      and h: "handled E cfg ck (gm_propagation_source g) (gm_source g) (gm_id g) (gm_topic g) x y" by blast
    from h have "gossip_ok E y" by (simp add: handled_def)
    from Cons.IH [OF this] obtain z where "gossip_session E J cfg evs y = Some z" "follows E cfg evs y z" by blast
    with follows_step [OF h] y show ?case by (auto simp: ev)
  qed (simp add: follows_refl)
  with that show thesis by blast
qed

lemma gossip_follows:
  "gossip_ok E x \<Longrightarrow> gossip_session E J cfg evs x = Some x' \<Longrightarrow> follows E cfg evs x x' \<and> gossip_ok E x'"
  by (rule session_follows [of E x J cfg evs]) (auto simp: follows_def)

lemma delivery:
  assumes ok: "gossip_ok E x" and h: "handle_gossip_event E J cfg ck g x = Some x'"
    and new: "gx_app_messages x' \<noteq> gx_app_messages x"
  obtains author m c where "gm_source g = Some author" and "checked E cfg (gm_topic g) author m"
    and "validate_app_message_security E author m (ck_unix ck) (gc_security cfg) (gx_app_replay_cache x) = (AppAccept, c)"
    and "gx_app_replay_cache x' = c" and "is_for_peer E m (gc_local_peer cfg)" and "gx_app_messages x' = gx_app_messages x @ [m]"
    and "gx_reports x' = gx_reports x @ [(gm_id g, gm_propagation_source g, Acceptance_Accept)]"
proof -
  from handled_event [OF ok, of J cfg ck g] h
  have "handled E cfg ck (gm_propagation_source g) (gm_source g) (gm_id g) (gm_topic g) x x'" by auto
  then obtain v a m where r: "gx_reports x' = gx_reports x @ [(gm_id g, gm_propagation_source g, v)]"
    and a: "gm_source g = Some a" "checked E cfg (gm_topic g) a m" and j: "app_judged E cfg (ck_unix ck) a m v x x'"
    using new by (auto simp: handled_def app_quiet_def)
  obtain d c where s: "validate_app_message_security E a m (ck_unix ck) (gc_security cfg) (gx_app_replay_cache x) = (d, c)"
    by fastforce
  from j new have "d = AppAccept" "v = Acceptance_Accept" "is_for_peer E m (gc_local_peer cfg)"
    "gx_app_messages x' = gx_app_messages x @ [m]" "gx_app_replay_cache x' = c"
    by (auto simp: app_judged_def s split: if_splits)
  with that a r s show thesis by simp
qed

lemma delivery_of:
  assumes "gossip_ok E x" and "handle_gossip_event E J cfg ck g x = Some x'" and "gx_app_messages x' = gx_app_messages x @ [m]"
  obtains author c where "checked E cfg (gm_topic g) author m"
    and "validate_app_message_security E author m (ck_unix ck) (gc_security cfg) (gx_app_replay_cache x) = (AppAccept, c)"
    and "gx_app_replay_cache x' = c"
proof (rule delivery [OF assms(1,2)])
  show "gx_app_messages x' \<noteq> gx_app_messages x" using assms(3) by simp
qed (use assms(3) that in simp)

section \<open>Properties\<close>

text \<open>C29. Whatever arrives, the message handlers return and stay within their bounds. From a new node, for every
  sequence of Gossipsub messages with any authors, topics and bytes and any clock readings: no handler panics, every
  message gets exactly one verdict, in order and for the peer that forwarded it, the reassembler holds at most 8 MiB,
  the replay caches are within their capacity, and the counters track at most 512 peers, 256 topics and 64 log
  lines.\<close>

theorem gossip_session_safe:
  "\<exists>x. gossip_session E J cfg evs (gossip_ctx_new sec) = Some x
    \<and> map (\<lambda>(mid, source, v). (mid, source)) (gx_reports x) = map (\<lambda>(ck, g). (gm_id g, gm_propagation_source g)) evs
    \<and> re_global_bytes (gx_reassembler x) \<le> 8 * 1024 * 1024
    \<and> length (hb_order (gx_replay_cache x)) \<le> hb_capacity (gx_replay_cache x)
    \<and> length (app_order (gx_app_replay_cache x)) \<le> app_capacity (gx_app_replay_cache x)
    \<and> fmsize (peer_stats (gx_bandwidth x)) \<le> 512 \<and> fmsize (topic_stats (gx_bandwidth x)) \<le> 256
    \<and> length (ob_pulses (gx_observability x)) \<le> 64"
proof -
  from session_follows [OF gossip_new_ok, of E J cfg evs sec] obtain x where
    s: "gossip_session E J cfg evs (gossip_ctx_new sec) = Some x" and f: "follows E cfg evs (gossip_ctx_new sec) x" .
  from f have ok: "gossip_ok E x" and r: "map (\<lambda>(mid, source, v). (mid, source)) (gx_reports x)
      = map (\<lambda>(ck, g). (gm_id g, gm_propagation_source g)) evs"
    by (auto simp: follows_def gossip_ctx_new_def)
  show ?thesis using s r ok
    by (auto simp: gossip_ok_def reassembler_ok_def within_ceilings_def MAX_REASSEMBLY_BYTES_GLOBAL_def MAX_APP_MESSAGE_BYTES_def
        hb_cache_ok_def app_cache_ok_def bandwidth_ok_def MAX_TRACKED_PEER_BANDWIDTH_def MAX_TRACKED_TOPIC_BANDWIDTH_def
        MAX_PENDING_PULSES_def)
qed

text \<open>C30. What the application receives is authentic. Whatever happened before, when a Gossipsub message makes the node
  deliver an application message, whole or as the last of its fragments, then the Gossipsub author is authenticated and
  is the source the message names, the message is valid, of this network, for this peer and of the topic it came on,
  its nonce is not zero, its timestamp is at most the configured skew ahead of and the configured age behind the
  clock, exactly this message is delivered, and the verdict is to accept and forward.\<close>

theorem delivered_authentic:
  assumes "gossip_session E J cfg evs (gossip_ctx_new sec) = Some x" and "handle_gossip_event E J cfg ck g x = Some x'"
    and "gx_app_messages x' \<noteq> gx_app_messages x"
  shows "\<exists>author m topic nonce. gm_source g = Some author \<and> gx_app_messages x' = gx_app_messages x @ [m]
    \<and> pid_parse E (msg_source_peer_id m) = Inr author \<and> validate_app_message E m = Inr ()
    \<and> msg_network_id m = gc_network_id cfg \<and> is_for_peer E m (gc_local_peer cfg)
    \<and> app_topic_name (msg_network_id m) (msg_topic m) = Inr topic \<and> topic_hash E topic = gm_topic g
    \<and> gm_topic g \<in> set (gc_app_topic_hashes cfg)
    \<and> app_decode_nonce E (msg_nonce_hex m) = Some nonce \<and> (\<exists>b. b \<in> set nonce \<and> b \<noteq> 0)
    \<and> msg_timestamp_ns m \<le> ck_unix ck + max_app_message_future_skew_secs (gc_security cfg) * NS_PER_SEC
    \<and> ck_unix ck \<le> msg_timestamp_ns m + max_app_message_age_secs (gc_security cfg) * NS_PER_SEC
    \<and> gx_reports x' = gx_reports x @ [(gm_id g, gm_propagation_source g, Acceptance_Accept)]"
proof -
  have ok: "gossip_ok E x" using gossip_follows [OF gossip_new_ok assms(1)] by blast
  from delivery [OF ok assms(2,3)] obtain author m c where a: "gm_source g = Some author"
    and ch: "checked E cfg (gm_topic g) author m"
    and s: "validate_app_message_security E author m (ck_unix ck) (gc_security cfg) (gx_app_replay_cache x) = (AppAccept, c)"
    and d: "is_for_peer E m (gc_local_peer cfg)" "gx_app_messages x' = gx_app_messages x @ [m]"
    "gx_reports x' = gx_reports x @ [(gm_id g, gm_propagation_source g, Acceptance_Accept)]" by blast
  from ch obtain topic where t: "pid_parse E (msg_source_peer_id m) = Inr author" "validate_app_message E m = Inr ()"
    "msg_network_id m = gc_network_id cfg" "app_topic_name (msg_network_id m) (msg_topic m) = Inr topic"
    "topic_hash E topic = gm_topic g"
    by (auto simp: checked_def validate_app_message_authentication_def and_then_def map_err_def check_that_def
        app_ident_topic_def split: sum.splits if_splits)
  from s obtain nonce where n: "app_decode_nonce E (msg_nonce_hex m) = Some nonce" "\<exists>b. b \<in> set nonce \<and> b \<noteq> 0"
    and f: "fresh_within (max_app_message_age_secs (gc_security cfg)) (max_app_message_future_skew_secs (gc_security cfg))
       (msg_timestamp_ns m) (ck_unix ck)"
    by (auto simp: validate_app_message_security_def list_all_iff split: option.splits if_splits)
  have "gm_topic g \<in> set (gc_app_topic_hashes cfg)"
  proof (rule ccontr)
    assume n: "gm_topic g \<notin> set (gc_app_topic_hashes cfg)"
    have "gx_app_messages x' = gx_app_messages x"
    proof (cases "gm_topic g = gc_heartbeat_topic_hash cfg")
      case True
      from assms(2) show ?thesis
        by (auto simp: handle_gossip_event_def True handle_heartbeat_message_def Let_def reject_heartbeat_def
            gossip_ok_record_peer split: option.splits prod.splits HeartbeatValidationDecision.splits if_splits)
    next
      case False
      with assms(2) n show ?thesis by (auto simp: handle_gossip_event_def handle_unexpected_topic_message_def)
    qed
    with assms(3) show False by simp
  qed
  moreover have "msg_timestamp_ns m \<le> ck_unix ck + max_app_message_future_skew_secs (gc_security cfg) * NS_PER_SEC"
    "ck_unix ck \<le> msg_timestamp_ns m + max_app_message_age_secs (gc_security cfg) * NS_PER_SEC"
    using f by (auto simp: fresh_within_def sat_simps)
  ultimately show ?thesis using a d t n by blast
qed


text \<open>A concrete node on network 1, subscribed to one topic, and messages of peer 7 for it.\<close>

definition demo_gossip_cfg :: "u8 gossip_cfg" where
  "demo_gossip_cfg = \<lparr>gc_security = message_security_default, gc_local_peer = 1, gc_network_id = 1, gc_application_namespaces = [],
     gc_heartbeat_topic_hash = ''heartbeat'', gc_app_topic_hashes = [''p2p-net/app/v2/net-1/chat'']\<rparr>"

definition demo_clock :: "nat \<Rightarrow> clock_reads" where
  "demo_clock t = \<lparr>ck_unix = t, ck_expire = t, ck_created = t, ck_rep = t, ck_book = t\<rparr>"

definition demo_at :: "nat \<Rightarrow> AppMessage" where
  "demo_at t = demo_message\<lparr>msg_timestamp_ns := t\<rparr>"

definition demo_gossip :: "nat \<Rightarrow> u8 gossip_message" where
  "demo_gossip t = \<lparr>gm_propagation_source = 9, gm_id = [1], gm_source = Some 7, gm_topic = ''p2p-net/app/v2/net-1/chat'',
     gm_data = demo_put (demo_at t)\<rparr>"

lemma demo_at_checked: "checked demo_ext demo_gossip_cfg ''p2p-net/app/v2/net-1/chat'' 7 (demo_at t)"
  "is_for_peer demo_ext (demo_at t) 1"
proof -
  have p: "pid_parse demo_ext (pid_to_string demo_ext 7) = Inr 7" using demo_peer_text by (simp add: peer_text_law_def)
  have "show_nat 1 = ''1''" "show_nat 2 = ''2''" by code_simp+
  then have t: "app_topic_name 1 ''chat'' = Inr ''p2p-net/app/v2/net-1/chat''"
    by (simp add: app_topic_name_def demo_chat_topic APP_TOPIC_PREFIX_def APP_MESSAGE_SCHEMA_VERSION_def)
  have "validate_app_message demo_ext (demo_at t) = Inr ()"
    using demo_chat_topic p by (auto simp: validate_app_message_Inr demo_at_def demo_message_def
        APP_MESSAGE_SCHEMA_VERSION_def MAX_APP_MESSAGE_BYTES_def)
  then show "checked demo_ext demo_gossip_cfg ''p2p-net/app/v2/net-1/chat'' 7 (demo_at t)"
    using p t by (simp add: checked_def authentication_binds demo_gossip_cfg_def demo_at_def demo_message_def)
      (simp add: demo_ext_def)
  show "is_for_peer demo_ext (demo_at t) 1" by (simp add: is_for_peer_def demo_at_def demo_message_def)
qed

lemma demo_at_decoded:
  assumes "t \<le> 2000"
  shows "decode_app_message demo_ext demo_codec (demo_put (demo_at t)) = Inr (demo_at t)"
proof -
  have "length (demo_put (demo_at t)) \<le> 6 * MAX_APP_MESSAGE_BYTES"
    using assms by (simp add: demo_put_def put_nat_def put_str_def put_bytes_def put_opt_def demo_at_def demo_message_def
        length_demo_hex MAX_APP_MESSAGE_BYTES_def demo_ext_def)
  then show ?thesis
    using demo_at_checked(1) [of t] by (simp add: decode_app_message_def demo_codec_def demo_get_put checked_def)
qed

lemma demo_delivery:
  assumes "t \<le> 2000" and "validate_app_message_security demo_ext 7 (demo_at t) (ck_unix ck) message_security_default
      (gx_app_replay_cache x) = (AppAccept, c)"
  obtains x' where "handle_gossip_event demo_ext demo_codec demo_gossip_cfg ck (demo_gossip t) x = Some x'"
    and "gx_app_messages x' = gx_app_messages x @ [demo_at t]" and "gx_app_replay_cache x' = c"
proof -
  have net: "msg_network_id (demo_at t) = 1" by (simp add: demo_at_def demo_message_def)
  have auth: "validate_app_message_authentication demo_ext (demo_at t) 7 ''p2p-net/app/v2/net-1/chat'' = Inr ()"
    using demo_at_checked(1) by (simp add: checked_def)
  show thesis
    by (rule that) (simp add: handle_gossip_event_def demo_gossip_def demo_gossip_cfg_def handle_app_message_def
        demo_at_decoded [OF assms(1)] process_complete_message_def net auth assms(2) demo_at_checked(2) Let_def, simp_all)
qed

lemma demo_first: obtains c where "validate_app_message_security demo_ext 7 (demo_at 1000) 1000 message_security_default
    (app_cache_new message_security_default) = (AppAccept, c)"
proof -
  have "demo_at 1000 = demo_message" by (simp add: demo_at_def demo_message_def)
  with that demo_message_accepted show thesis by (metis prod.collapse)
qed

lemma demo_new [simp]: "gx_app_replay_cache (gossip_ctx_new sec) = app_cache_new sec" "gx_app_messages (gossip_ctx_new sec) = []"
  by (simp_all add: gossip_ctx_new_def)

lemma delivered_authentic_witness:
  "\<exists>x'. handle_gossip_event demo_ext demo_codec demo_gossip_cfg (demo_clock 1000) (demo_gossip 1000)
       (gossip_ctx_new message_security_default) = Some x'
     \<and> gx_app_messages x' = [demo_at 1000] \<and> pid_parse demo_ext (msg_source_peer_id (demo_at 1000)) = Inr 7"
proof -
  obtain c where c: "validate_app_message_security demo_ext 7 (demo_at 1000) 1000 message_security_default
    (app_cache_new message_security_default) = (AppAccept, c)" by (rule demo_first)
  obtain x' where h: "handle_gossip_event demo_ext demo_codec demo_gossip_cfg (demo_clock 1000) (demo_gossip 1000)
       (gossip_ctx_new message_security_default) = Some x'" and m: "gx_app_messages x' = [demo_at 1000]"
    by (rule demo_delivery [of 1000 "demo_clock 1000" "gossip_ctx_new message_security_default" c])
      (use c in \<open>simp_all add: demo_clock_def\<close>)
  from delivered_authentic [of demo_ext demo_codec demo_gossip_cfg "[]" message_security_default, OF _ h] m h
  show ?thesis by (auto simp: demo_gossip_def)
qed

lemma demo_second:
  assumes "validate_app_message_security demo_ext 7 (demo_at 1000) 1000 message_security_default
    (app_cache_new message_security_default) = (AppAccept, c)"
  obtains c' where "validate_app_message_security demo_ext 7 (demo_at 1001) 1001 message_security_default c = (AppAccept, c')"
proof -
  have n: "app_decode_nonce demo_ext (msg_nonce_hex (demo_at t)) = Some (replicate 32 1)" "msg_timestamp_ns (demo_at t) = t" for t
    using demo_message_nonce by (simp_all add: demo_at_def)
  have z: "\<not> list_all (\<lambda>b. b = 0) (replicate 32 (1 :: u8))" by (simp add: list_all_iff)
  have f: "fresh_within (max_app_message_age_secs message_security_default)
      (max_app_message_future_skew_secs message_security_default) t t" if "t \<le> 2000" for t
    using that by (simp add: fresh_within_def message_security_default_def sat_simps NS_PER_SEC_def)
  have v: "validate_app_message_security demo_ext 7 (demo_at t) t message_security_default c0
      = (let (fresh, c') = app_check_and_insert (AppReplayKey 7 t (replicate 32 1)) t c0
         in if fresh then (AppAccept, c') else (AppIgnoreDuplicate, c'))" if "t \<le> 2000" for t c0
    by (simp only: validate_app_message_security_def n option.case z f [OF that] simp_thms if_True if_False split_beta Let_def
        if_distrib) (simp add: split_beta)
  let ?k = "\<lambda>t. AppReplayKey (7 :: u8) t (replicate 32 1)"
  from assms have c: "app_check_and_insert (?k 1000) 1000 (app_cache_new message_security_default) = (True, c)"
    by (auto simp: v split: if_splits prod.splits)
  have ttl: "app_ttl_ns (app_cache_new message_security_default) \<ge> 1001"
    by (simp add: app_cache_new_def message_security_default_def sat_simps NS_PER_SEC_def)
  have ok: "app_cache_ok (app_cache_new message_security_default)" by (rule app_cache_new_ok)
  have w: "app_window c = [(?k 1000, 1000)]" "app_cache_ok c"
    using appc.check_window(1) [OF ok, of "?k 1000" 1000] appc.invar_check [OF ok, of "?k 1000" 1000] c
    by (simp_all add: spec_check_def spec_prune_def app_window_def app_cache_new_def queue_window_def
        message_security_default_def Let_def)
  have "fst (app_check_and_insert (?k 1001) 1001 c)"
    by (simp add: appc.check_window [OF w(2)] w(1) spec_check_def spec_prune_def Let_def)
  then have "fst (validate_app_message_security demo_ext 7 (demo_at 1001) 1001 message_security_default c) = AppAccept"
    by (simp add: v split_beta Let_def)
  with that show thesis by (metis prod.collapse)
qed


section \<open>Two consequences for the counters and the book\<close>

text \<open>The last fragment of a message is counted twice: once when the reassembler takes it, once when the completed
  message is processed. A message that arrives whole is counted once.\<close>

lemma received_total [simp]:
  "total_bytes_received (record_received peer topic n m) = sat_add 64 (total_bytes_received m) n"
  by (simp add: record_received_def Let_def)

lemma complete_counts:
  "total_bytes_received (gx_bandwidth (process_complete_message E cfg ck source author mid topic n m x))
     = sat_add 64 (total_bytes_received (gx_bandwidth x)) n"
  by (simp add: process_complete_message_def reject_app_message_def Let_def split: prod.split AppMessageSecurityDecision.split)

lemma last_fragment_counted_twice:
  assumes "push E (ck_expire ck) (ck_created ck) author f (gx_reassembler x) = Some (Inr (Some m), st)"
    and "app_ident_topic (fr_network_id f) (fr_topic f) = Inr t" and "topic_hash E t = topic"
    and "fr_network_id f = gc_network_id cfg" and "fr_source_peer_id f = pid_to_string E author"
    and "total_bytes_received (gx_bandwidth x) + 2 * n < 2 ^ 64"
  shows "\<exists>x'. handle_app_fragment E cfg ck source author mid topic n f x = Some x'
    \<and> total_bytes_received (gx_bandwidth x') = total_bytes_received (gx_bandwidth x) + 2 * n"
  using assms by (simp add: handle_app_fragment_def Let_def complete_counts sat_add_exact)

text \<open>The author of an accepted heartbeat is recorded as connected, although the message only proves that some
  connected peer forwarded it.\<close>

lemma record_connected_stays:
  assumes "book_ok b"
  shows "\<exists>r. fmlookup (peers (record_connected now p a b)) p = Some r \<and> connected r"
proof -
  let ?f = "\<lambda>r :: 'a PeerRecord. let r = r\<lparr>connected := True, sources := bset_insert Connected (sources r)\<rparr>
     in case a of None \<Rightarrow> r | Some a \<Rightarrow> prune_peer_addrs (r\<lparr>addresses := bset_insert a (addresses r)\<rparr>)"
  obtain r where r: "fmlookup (peers (mutated now p ?f b)) p = Some r" and c: "connected r"
    by (simp add: Let_def mark_seen_def prune_peer_addrs_def split: option.split)
  have "fmlookup (peers (enforce_record_bound (mutated now p ?f b))) p = Some r"
    using book.evict_protects [OF mutated_indexed [OF assms] r] c by (simp add: book_stamp_def)
  then show ?thesis using c by (auto simp: record_connected_def mutate_peer_mutated)
qed

lemma heartbeat_marks_connected:
  assumes "book_ok (fold (\<lambda>ns. record_namespace (ck_book ck) peer ns Connected) (gc_application_namespaces cfg) (gx_peer_book x))"
  shows "\<exists>r. fmlookup (peers (gx_peer_book (record_heartbeat_peer cfg ck peer x))) peer = Some r \<and> connected r"
  using record_connected_stays [OF assms] by (simp add: record_heartbeat_peer_def Let_def)

end
