(* ===== verification/Gossip_Cache.thy ===== *)
theory Gossip_Cache
  imports Gossip_Types
begin

text \<open>
  The memories of the Gossipsub fork: \<open>time_cache.rs\<close> (which messages were seen lately), \<open>mcache.rs\<close> (the messages that
  can be forwarded and gossiped, in a window of heartbeats) and \<open>gossip_promises.rs\<close> (what peers owe after an IWANT).
  Instants are nanoseconds; \<open>imax\<close> is the largest instant the platform represents, beyond which \<open>checked_add\<close> gives
  \<open>None\<close>.
\<close>

definition checked_add :: "nat \<Rightarrow> nat \<Rightarrow> nat \<Rightarrow> nat option" where
  "checked_add imax t d = (if t + d \<le> imax then Some (t + d) else None)"

section \<open>Seen messages\<close>

record ('k, 'v) TimeCache =
  tc_map :: "('k, 'v \<times> nat) fmap"
  tc_list :: "('k \<times> nat) list"
  tc_ttl :: nat

definition time_cache_new :: "nat \<Rightarrow> ('k, 'v) TimeCache" where
  "time_cache_new ttl = \<lparr>tc_map = fmempty, tc_list = [], tc_ttl = ttl\<rparr>"

fun expire_keys :: "nat \<Rightarrow> ('k \<times> nat) list \<Rightarrow> ('k, 'v \<times> nat) fmap \<Rightarrow> ('k \<times> nat) list \<times> ('k, 'v \<times> nat) fmap" where
  "expire_keys now [] m = ([], m)"
| "expire_keys now ((k, expires) # ks) m =
     (if now < expires then ((k, expires) # ks, m)
      else expire_keys now ks (case fmlookup m k of None \<Rightarrow> m
             | Some (v, e) \<Rightarrow> if e \<le> now then fmdrop k m else m))"

definition remove_expired_keys :: "nat \<Rightarrow> ('k, 'v) TimeCache \<Rightarrow> ('k, 'v) TimeCache" where
  "remove_expired_keys now c = (let (ks, m) = expire_keys now (tc_list c) (tc_map c) in c\<lparr>tc_list := ks, tc_map := m\<rparr>)"

text \<open>\<open>entry(key)\<close> followed by \<open>insert\<close> on a vacant entry, as both callers do: the value there, or the one put there.\<close>

definition entry_or_insert :: "nat \<Rightarrow> nat \<Rightarrow> 'k \<Rightarrow> 'v \<Rightarrow> ('k, 'v) TimeCache \<Rightarrow> 'v \<times> bool \<times> ('k, 'v) TimeCache" where
  "entry_or_insert imax now key v c0 =
     (let c = remove_expired_keys now c0 in
      case fmlookup (tc_map c) key of
        Some (v', _) \<Rightarrow> (v', False, c)
      | None \<Rightarrow> let expiration = (case checked_add imax now (tc_ttl c) of Some t \<Rightarrow> t | None \<Rightarrow> now)
                in (v, True, c\<lparr>tc_list := tc_list c @ [(key, expiration)], tc_map := fmupd key (v, expiration) (tc_map c)\<rparr>))"

definition tc_contains_key :: "'k \<Rightarrow> ('k, 'v) TimeCache \<Rightarrow> bool" where
  "tc_contains_key key c \<longleftrightarrow> fmlookup (tc_map c) key \<noteq> None"

type_synonym 'k DuplicateCache = "('k, unit) TimeCache"

definition dc_insert :: "nat \<Rightarrow> nat \<Rightarrow> 'k \<Rightarrow> 'k DuplicateCache \<Rightarrow> bool \<times> 'k DuplicateCache" where
  "dc_insert imax now key c = snd (entry_or_insert imax now key () c)"

definition dc_contains :: "'k \<Rightarrow> 'k DuplicateCache \<Rightarrow> bool" where
  "dc_contains key c = tc_contains_key key c"

primrec dc_session :: "nat \<Rightarrow> ('k \<times> nat) list \<Rightarrow> 'k DuplicateCache \<Rightarrow> bool list \<times> 'k DuplicateCache" where
  "dc_session imax [] c = ([], c)"
| "dc_session imax (ev # evs) c = (let (b, c') = dc_insert imax (snd ev) (fst ev) c; (bs, c'') = dc_session imax evs c' in (b # bs, c''))"

text \<open>The reference: a key is new unless it was taken as new less than the time to live ago.\<close>

primrec fresh_spec :: "nat \<Rightarrow> ('k \<times> nat) list \<Rightarrow> ('k \<times> nat) list \<Rightarrow> bool list" where
  "fresh_spec ttl taken [] = []"
| "fresh_spec ttl taken (ev # evs) =
     (if list_ex (\<lambda>(k, t). k = fst ev \<and> snd ev < t + ttl) taken then False # fresh_spec ttl taken evs
      else True # fresh_spec ttl (ev # taken) evs)"

definition tc_ok :: "('k, 'v) TimeCache \<Rightarrow> bool" where
  "tc_ok c \<longleftrightarrow> distinct (map fst (tc_list c)) \<and> sorted (map snd (tc_list c))
     \<and> (\<forall>k e. (\<exists>v. fmlookup (tc_map c) k = Some (v, e)) \<longleftrightarrow> (k, e) \<in> set (tc_list c))"

abbreviation (input) due :: "nat \<Rightarrow> 'k \<times> nat \<Rightarrow> bool" where
  "due now ke \<equiv> snd ke \<le> now"

lemma expire_keys_eq:
  assumes "distinct (map fst ks)" and "\<forall>ke \<in> set ks. \<exists>v. fmlookup m (fst ke) = Some (v, snd ke)"
  shows "expire_keys now ks m = (dropWhile (due now) ks, fmfilter (\<lambda>k. k \<notin> fst ` set (takeWhile (due now) ks)) m)"
  using assms
proof (induction ks arbitrary: m)
  case (Cons ke ks)
  obtain k e where ke: "ke = (k, e)" by (cases ke)
  show ?case
  proof (cases "now < e")
    case False
    from Cons.prems ke obtain v where v: "fmlookup m k = Some (v, e)" by auto
    have k: "k \<notin> fst ` set ks" using Cons.prems(1) ke by simp
    have "expire_keys now ks (fmdrop k m) = (dropWhile (due now) ks,
        fmfilter (\<lambda>k. k \<notin> fst ` set (takeWhile (due now) ks)) (fmdrop k m))"
      using Cons.prems k by (intro Cons.IH) (auto simp: ke)
    moreover have "fmfilter (\<lambda>k. k \<notin> fst ` set (takeWhile (due now) ks)) (fmdrop k m)
        = fmfilter (\<lambda>k'. k' \<notin> fst ` set (takeWhile (due now) (ke # ks))) m"
      using False by (intro fmap_ext) (auto simp: ke)
    ultimately show ?thesis using False v by (simp add: ke)
  qed (auto simp: ke intro!: fmap_ext)
qed (simp add: fmfilter_true)

lemma sorted_dropWhile_due: "sorted (map snd ks) \<Longrightarrow> ke \<in> set ks \<Longrightarrow> ke \<in> set (dropWhile (due now) ks) \<longleftrightarrow> now < snd ke"
  by (induction ks) (auto dest: order.strict_trans2 set_dropWhileD)

lemma removed_list:
  assumes "tc_ok c"
  shows "tc_list (remove_expired_keys now c) = dropWhile (due now) (tc_list c)" "tc_ttl (remove_expired_keys now c) = tc_ttl c"
    and "tc_ok (remove_expired_keys now c)" and "set (tc_list (remove_expired_keys now c)) = {ke \<in> set (tc_list c). now < snd ke}"
proof -
  let ?ks = "tc_list c"
  have d: "distinct (map fst ?ks)" and s: "sorted (map snd ?ks)"
    and m: "\<And>k e. (\<exists>v. fmlookup (tc_map c) k = Some (v, e)) \<longleftrightarrow> (k, e) \<in> set ?ks"
    using assms by (auto simp: tc_ok_def)
  have x: "expire_keys now ?ks (tc_map c) = (dropWhile (due now) ?ks,
      fmfilter (\<lambda>k. k \<notin> fst ` set (takeWhile (due now) ?ks)) (tc_map c))"
    using m by (intro expire_keys_eq [OF d]) auto
  then show l: "tc_list (remove_expired_keys now c) = dropWhile (due now) ?ks" "tc_ttl (remove_expired_keys now c) = tc_ttl c"
    by (simp_all add: remove_expired_keys_def)
  show set: "set (tc_list (remove_expired_keys now c)) = {ke \<in> set ?ks. now < snd ke}"
    unfolding l by (intro set_eqI iffI) (use sorted_dropWhile_due [OF s, of _ now] in \<open>blast dest: set_dropWhileD\<close>)+
  have split: "takeWhile (due now) ?ks @ dropWhile (due now) ?ks = ?ks" by simp
  have d': "distinct (map fst (dropWhile (due now) ?ks))" "fst ` set (takeWhile (due now) ?ks) \<inter> fst ` set (dropWhile (due now) ?ks) = {}"
    using d by (subst (asm) split [symmetric], simp del: takeWhile_dropWhile_id)+
  have s': "sorted (map snd (dropWhile (due now) ?ks))"
    using s by (subst (asm) split [symmetric], simp del: takeWhile_dropWhile_id add: sorted_append)
  have "(\<exists>v. fmlookup (tc_map (remove_expired_keys now c)) k = Some (v, e)) \<longleftrightarrow> (k, e) \<in> set (dropWhile (due now) ?ks)" for k e
  proof
    assume "\<exists>v. fmlookup (tc_map (remove_expired_keys now c)) k = Some (v, e)"
    then have k: "k \<notin> fst ` set (takeWhile (due now) ?ks)" and "(k, e) \<in> set ?ks"
      using m [of k e] by (auto simp: remove_expired_keys_def x split: if_splits)
    then show "(k, e) \<in> set (dropWhile (due now) ?ks)"
      by (subst (asm) split [symmetric]) (force simp del: takeWhile_dropWhile_id)
  next
    assume i: "(k, e) \<in> set (dropWhile (due now) ?ks)"
    then have "(k, e) \<in> set ?ks" by (rule set_dropWhileD)
    moreover have "k \<notin> fst ` set (takeWhile (due now) ?ks)" using d'(2) i by (force simp: disjoint_iff)
    ultimately show "\<exists>v. fmlookup (tc_map (remove_expired_keys now c)) k = Some (v, e)"
      using m [of k e] by (simp add: remove_expired_keys_def x)
  qed
  then show "tc_ok (remove_expired_keys now c)" using d'(1) s' by (simp add: tc_ok_def l)
qed

lemma tc_lookup:
  "tc_ok c \<Longrightarrow> fmlookup (tc_map c) k = None \<longleftrightarrow> k \<notin> fst ` set (tc_list c)"
proof -
  assume "tc_ok c"
  then have m: "(\<exists>v. fmlookup (tc_map c) k = Some (v, e)) \<longleftrightarrow> (k, e) \<in> set (tc_list c)" for e by (simp add: tc_ok_def)
  show ?thesis
  proof (cases "fmlookup (tc_map c) k")
    case (Some ve)
    with m [of "snd ve"] have "(k, snd ve) \<in> set (tc_list c)" by (cases ve) simp
    with Some show ?thesis by force
  qed (use m in auto)
qed

text \<open>The cache remembers exactly the keys taken less than the time to live ago.\<close>

definition remembers :: "nat \<Rightarrow> ('k \<times> nat) list \<Rightarrow> ('k, 'v) TimeCache \<Rightarrow> bool" where
  "remembers now taken c \<longleftrightarrow> tc_ok c \<and> (\<forall>ke \<in> set (tc_list c). snd ke \<le> now + tc_ttl c)
     \<and> {ke \<in> set (tc_list c). now < snd ke} = (\<lambda>(k, t). (k, t + tc_ttl c)) ` {kt \<in> set taken. now < snd kt + tc_ttl c}"

lemma remembers_later:
  assumes r: "remembers t taken c" and le: "t \<le> now"
  shows "remembers now taken (remove_expired_keys now c)"
    and "set (tc_list (remove_expired_keys now c)) = (\<lambda>(k, t). (k, t + tc_ttl c)) ` {kt \<in> set taken. now < snd kt + tc_ttl c}"
proof -
  have ok: "tc_ok c" using r by (simp add: remembers_def)
  note rl = removed_list [OF ok, of now]
  have "{ke \<in> set (tc_list c). now < snd ke} = {ke \<in> {ke \<in> set (tc_list c). t < snd ke}. now < snd ke}" using le by auto
  also have "\<dots> = (\<lambda>(k, t). (k, t + tc_ttl c)) ` {kt \<in> set taken. now < snd kt + tc_ttl c}"
    unfolding conjunct2 [OF conjunct2 [OF r [unfolded remembers_def]]] using le by force
  finally have e: "{ke \<in> set (tc_list c). now < snd ke} = (\<lambda>(k, t). (k, t + tc_ttl c)) ` {kt \<in> set taken. now < snd kt + tc_ttl c}" .
  then show l: "set (tc_list (remove_expired_keys now c)) = (\<lambda>(k, t). (k, t + tc_ttl c)) ` {kt \<in> set taken. now < snd kt + tc_ttl c}"
    using rl(4) by simp
  show "remembers now taken (remove_expired_keys now c)"
    unfolding remembers_def
  proof (intro conjI)
    show "\<forall>ke \<in> set (tc_list (remove_expired_keys now c)). snd ke \<le> now + tc_ttl (remove_expired_keys now c)"
      using r le unfolding rl(2,4) remembers_def by (auto intro: order_trans)
    have "{ke \<in> set (tc_list (remove_expired_keys now c)). now < snd ke} = set (tc_list (remove_expired_keys now c))"
      unfolding rl(4) by auto
    with l show "{ke \<in> set (tc_list (remove_expired_keys now c)). now < snd ke}
        = (\<lambda>(k, t). (k, t + tc_ttl (remove_expired_keys now c))) ` {kt \<in> set taken. now < snd kt + tc_ttl (remove_expired_keys now c)}"
      by (simp add: rl(2))
  qed (rule rl(3))
qed

lemma dc_insert_remembers:
  fixes key :: 'k
  assumes r: "remembers t taken c" and le: "t \<le> now" and i: "now + tc_ttl c \<le> imax"
  defines "new \<equiv> \<not> list_ex (\<lambda>(k, t). k = key \<and> now < t + tc_ttl c) taken"
  obtains c' where "dc_insert imax now key c = (new, c')" and "tc_ttl c' = tc_ttl c"
    and "remembers now (if new then (key, now) # taken else taken) c'"
proof -
  let ?c = "remove_expired_keys now c"
  note later = remembers_later [OF r le]
  have ok: "tc_ok ?c" and ttl: "tc_ttl ?c = tc_ttl c" using later(1) r removed_list(2) by (auto simp: remembers_def)
  have new: "fmlookup (tc_map ?c) key = None \<longleftrightarrow> new"
    unfolding tc_lookup [OF ok] later(2) new_def by (force simp: list_ex_iff)
  show thesis
  proof (cases new)
    case False
    with new obtain v e where "fmlookup (tc_map ?c) key = Some (v, e)" by auto
    then have "dc_insert imax now key c = (False, ?c)" by (simp add: dc_insert_def entry_or_insert_def Let_def)
    with that False later(1) ttl show thesis by simp
  next
    case True
    let ?d = "?c\<lparr>tc_list := tc_list ?c @ [(key, now + tc_ttl c)], tc_map := fmupd key ((), now + tc_ttl c) (tc_map ?c)\<rparr>"
    have n: "fmlookup (tc_map ?c) key = None" using new True by simp
    then have "dc_insert imax now key c = (True, ?d)"
      using i by (simp add: dc_insert_def entry_or_insert_def checked_add_def ttl Let_def)
    moreover have b: "\<forall>ke \<in> set (tc_list ?c). snd ke \<le> now + tc_ttl c" using later(1) ttl by (simp add: remembers_def)
    then have "sorted (map snd (tc_list ?c) @ [now + tc_ttl c])"
      using ok by (auto simp: tc_ok_def sorted_append)
    then have "tc_ok ?d"
      using ok n tc_lookup [OF ok, of key] by (auto simp: tc_ok_def) (metis fst_conv image_eqI)
    then have "remembers now ((key, now) # taken) ?d"
      unfolding remembers_def using b later(1,2) ttl by (auto simp: remembers_def)
    ultimately show thesis using that True ttl by auto
  qed
qed

lemma dc_session_spec:
  assumes "remembers t taken c" and "sorted (t # map snd evs)" and "\<forall>ev \<in> set evs. snd ev + tc_ttl c \<le> imax"
  shows "fst (dc_session imax evs c) = fresh_spec (tc_ttl c) taken evs"
  using assms
proof (induction evs arbitrary: t taken c)
  case (Cons ev evs)
  let ?new = "\<not> list_ex (\<lambda>(k, t). k = fst ev \<and> snd ev < t + tc_ttl c) taken"
  obtain c' where i: "dc_insert imax (snd ev) (fst ev) c = (?new, c')" and ttl: "tc_ttl c' = tc_ttl c"
    and r: "remembers (snd ev) (if ?new then (fst ev, snd ev) # taken else taken) c'"
    by (rule dc_insert_remembers [of t taken c "snd ev" imax "fst ev"]) (use Cons.prems in auto)
  have "fst (dc_session imax evs c') = fresh_spec (tc_ttl c) (if ?new then (fst ev, snd ev) # taken else taken) evs"
    using Cons.IH [OF r] Cons.prems by (simp add: ttl)
  then show ?case by (auto simp: i split_beta Let_def)
qed simp

section \<open>Messages that can be forwarded\<close>

record 'p MessageCache =
  mc_msgs :: "(message_id, 'p RawMessage \<times> 'p fset) fmap"
  mc_iwant_counts :: "(message_id, ('p, nat) fmap) fmap"
  mc_history :: "(message_id \<times> topic_hash) list list"
  mc_gossip :: nat

definition mcache_new :: "nat \<Rightarrow> nat \<Rightarrow> 'p MessageCache" where
  "mcache_new gossip history_capacity = \<lparr>mc_msgs = fmempty, mc_iwant_counts = fmempty,
     mc_history = replicate history_capacity [], mc_gossip = gossip\<rparr>"

definition mc_put :: "message_id \<Rightarrow> 'p RawMessage \<Rightarrow> 'p MessageCache \<Rightarrow> bool \<times> 'p MessageCache" where
  "mc_put mid msg c = (case mc_history c of [] \<Rightarrow> (True, c)
     | slot # slots \<Rightarrow> if fmlookup (mc_msgs c) mid \<noteq> None then (False, c)
         else (True, c\<lparr>mc_msgs := fmupd mid (msg, {||}) (mc_msgs c), mc_history := (slot @ [(mid, rm_topic msg)]) # slots\<rparr>))"

definition observe_duplicate :: "message_id \<Rightarrow> 'p \<Rightarrow> 'p MessageCache \<Rightarrow> 'p MessageCache" where
  "observe_duplicate mid source c = (case fmlookup (mc_msgs c) mid of None \<Rightarrow> c
     | Some (msg, peers) \<Rightarrow> if rm_validated msg then c else c\<lparr>mc_msgs := fmupd mid (msg, finsert source peers) (mc_msgs c)\<rparr>)"

text \<open>The counter is a \<open>u32\<close> and wraps around.\<close>

definition get_with_iwant_counts :: "message_id \<Rightarrow> 'p \<Rightarrow> 'p MessageCache \<Rightarrow> ('p RawMessage \<times> nat) option \<times> 'p MessageCache" where
  "get_with_iwant_counts mid peer c = (case fmlookup (mc_msgs c) mid of None \<Rightarrow> (None, c)
     | Some (msg, _) \<Rightarrow> if \<not> rm_validated msg then (None, c)
         else let counts = (case fmlookup (mc_iwant_counts c) mid of None \<Rightarrow> fmempty | Some m \<Rightarrow> m);
                  count = ((case fmlookup counts peer of None \<Rightarrow> 0 | Some n \<Rightarrow> n) + 1) mod 2 ^ 32
              in (Some (msg, count), c\<lparr>mc_iwant_counts := fmupd mid (fmupd peer count counts) (mc_iwant_counts c)\<rparr>))"

definition mc_validate :: "message_id \<Rightarrow> 'p MessageCache \<Rightarrow> ('p RawMessage \<times> 'p fset) option \<times> 'p MessageCache" where
  "mc_validate mid c = (case fmlookup (mc_msgs c) mid of None \<Rightarrow> (None, c)
     | Some (msg, known) \<Rightarrow> let msg = msg\<lparr>rm_validated := True\<rparr>
         in (Some (msg, known), c\<lparr>mc_msgs := fmupd mid (msg, {||}) (mc_msgs c)\<rparr>))"

text \<open>Slicing past the end of the history panics.\<close>

definition gossipable :: "'p MessageCache \<Rightarrow> topic_hash \<Rightarrow> message_id \<times> topic_hash \<Rightarrow> bool" where
  "gossipable c topic e \<longleftrightarrow> snd e = topic \<and> (case fmlookup (mc_msgs c) (fst e) of None \<Rightarrow> False | Some (msg, _) \<Rightarrow> rm_validated msg)"

definition get_gossip_message_ids :: "topic_hash \<Rightarrow> 'p MessageCache \<Rightarrow> message_id list option" where
  "get_gossip_message_ids topic c = (if length (mc_history c) < mc_gossip c then None
     else Some (fold (\<lambda>slot ids. ids @ map fst (filter (gossipable c topic) slot)) (take (mc_gossip c) (mc_history c)) []))"

definition mc_shift :: "'p MessageCache \<Rightarrow> 'p MessageCache" where
  "mc_shift c = (if mc_history c = [] then c else let es = last (mc_history c) in
     c\<lparr>mc_msgs := fold (\<lambda>e. fmdrop (fst e)) es (mc_msgs c), mc_iwant_counts := fold (\<lambda>e. fmdrop (fst e)) es (mc_iwant_counts c),
       mc_history := [] # butlast (mc_history c)\<rparr>)"

definition mc_remove :: "message_id \<Rightarrow> 'p MessageCache \<Rightarrow> ('p RawMessage \<times> 'p fset) option \<times> 'p MessageCache" where
  "mc_remove mid c = (fmlookup (mc_msgs c) mid,
     c\<lparr>mc_iwant_counts := fmdrop mid (mc_iwant_counts c), mc_msgs := fmdrop mid (mc_msgs c)\<rparr>)"

datatype 'p mc_op = Put message_id "'p RawMessage" | Observe message_id 'p | Iwant message_id 'p
  | Validate message_id | Shift | Remove message_id

fun mc_step :: "'p mc_op \<Rightarrow> 'p MessageCache \<Rightarrow> 'p MessageCache" where
  "mc_step (Put mid msg) c = snd (mc_put mid msg c)"
| "mc_step (Observe mid peer) c = observe_duplicate mid peer c"
| "mc_step (Iwant mid peer) c = snd (get_with_iwant_counts mid peer c)"
| "mc_step (Validate mid) c = snd (mc_validate mid c)"
| "mc_step Shift c = mc_shift c"
| "mc_step (Remove mid) c = snd (mc_remove mid c)"

text \<open>The message \<open>mid\<close> of \<open>topic\<close> has been through \<open>n\<close> shifts of a history of \<open>cap\<close> slots.\<close>

definition held :: "nat \<Rightarrow> nat \<Rightarrow> message_id \<Rightarrow> topic_hash \<Rightarrow> bool \<Rightarrow> 'p MessageCache \<Rightarrow> bool" where
  "held cap n mid topic v c \<longleftrightarrow> length (mc_history c) = cap
     \<and> (\<forall>i < cap. \<forall>t. (mid, t) \<in> set (mc_history c ! i) \<longleftrightarrow> i = n \<and> t = topic)
     \<and> (if n < cap then \<exists>r ps. fmlookup (mc_msgs c) mid = Some (r, ps) \<and> rm_validated r = v else fmlookup (mc_msgs c) mid = None)"

lemma fold_fmdrop: "fmlookup (fold (\<lambda>e. fmdrop (fst e)) es m) k = (if k \<in> fst ` set es then None else fmlookup m k)"
  by (induction es arbitrary: m) auto

lemma shift_slots:
  assumes "mc_history c \<noteq> []"
  shows "length (mc_history (mc_shift c)) = length (mc_history c)"
    and "i < length (mc_history c) \<Longrightarrow> mc_history (mc_shift c) ! i = (if i = 0 then [] else mc_history c ! (i - 1))"
  using assms by (auto simp: mc_shift_def Let_def nth_butlast nth_Cons split: nat.split)

lemma held_shift:
  assumes "held cap n mid topic v c" and "0 < cap"
  shows "held cap (Suc n) mid topic v (mc_shift c)"
proof -
  have ne: "mc_history c \<noteq> []" and len: "length (mc_history c) = cap" using assms by (auto simp: held_def)
  have s: "(mid, t) \<in> set (mc_history c ! i) \<longleftrightarrow> i = n \<and> t = topic" if "i < cap" for i t using assms that by (simp add: held_def)
  have l: "last (mc_history c) = mc_history c ! (cap - 1)" using ne len by (simp add: last_conv_nth)
  have "mid \<in> fst ` set (last (mc_history c)) \<longleftrightarrow> (\<exists>t. (mid, t) \<in> set (last (mc_history c)))" by force
  also have "\<dots> \<longleftrightarrow> (\<exists>t. cap - 1 = n \<and> t = topic)" unfolding l by (subst s) (use assms(2) in simp_all)
  finally have "mid \<in> fst ` set (last (mc_history c)) \<longleftrightarrow> Suc n = cap" using assms(2) by auto
  then have "fmlookup (mc_msgs (mc_shift c)) mid = (if Suc n = cap then None else fmlookup (mc_msgs c) mid)"
    using ne by (simp add: mc_shift_def Let_def fold_fmdrop)
  moreover have "(mid, t) \<in> set (mc_history (mc_shift c) ! i) \<longleftrightarrow> i = Suc n \<and> t = topic" if "i < cap" for i t
    by (cases i) (use that shift_slots(2) [OF ne, of i] in \<open>simp_all add: len s\<close>)
  ultimately show ?thesis using assms(1) shift_slots(1) [OF ne] len by (auto simp: held_def)
qed

lemma held_step:
  assumes h: "held cap n mid topic v c" and cap: "0 < cap" and op: "op \<noteq> Remove mid" "\<And>m. op \<noteq> Put mid m"
  shows "held cap (if op = Shift then Suc n else n) mid topic (v \<or> op = Validate mid) (mc_step op c)"
proof (cases op)
  case (Put mid' msg)
  then have d: "mid' \<noteq> mid" using op(2) by auto
  obtain slot slots where hist: "mc_history c = slot # slots" using h cap by (cases "mc_history c") (auto simp: held_def)
  show ?thesis
    using h d unfolding Put held_def by (auto simp: mc_put_def hist nth_Cons split: nat.split if_splits)
next
  case Shift
  then show ?thesis using held_shift [OF h cap] by simp
qed (use h op(1) in \<open>auto simp: held_def observe_duplicate_def get_with_iwant_counts_def mc_validate_def mc_remove_def Let_def
      split: option.splits if_splits\<close>)

lemma held_steps:
  assumes "held cap n mid topic v c" and "0 < cap" and "Remove mid \<notin> set ops" and "\<forall>m. Put mid m \<notin> set ops"
  shows "held cap (n + count_list ops Shift) mid topic (v \<or> Validate mid \<in> set ops) (fold mc_step ops c)"
  using assms
proof (induction ops arbitrary: n v c)
  case (Cons op ops)
  have s: "held cap (if op = Shift then Suc n else n) mid topic (v \<or> op = Validate mid) (mc_step op c)"
    using Cons.prems by (intro held_step) auto
  have "(Validate mid = op) = (op = Validate mid)" by auto
  then show ?case using Cons.IH [OF s] Cons.prems(2-4) by (auto simp: ac_simps)
qed simp

lemma gossip_ids:
  "get_gossip_message_ids topic c = Some ids \<Longrightarrow> mid \<in> set ids \<longleftrightarrow> (\<exists>i < mc_gossip c. (mid, topic) \<in> set (mc_history c ! i))
     \<and> (\<exists>r ps. fmlookup (mc_msgs c) mid = Some (r, ps) \<and> rm_validated r)"
proof -
  assume g: "get_gossip_message_ids topic c = Some ids"
  have f: "fold (\<lambda>slot ids. ids @ map fst (filter P slot)) slots acc = acc @ concat (map (\<lambda>slot. map fst (filter P slot)) slots)"
    for P :: "message_id \<times> topic_hash \<Rightarrow> bool" and slots acc by (induction slots arbitrary: acc) auto
  from g have le: "mc_gossip c \<le> length (mc_history c)"
    and ids: "ids = concat (map (\<lambda>slot. map fst (filter (gossipable c topic) slot)) (take (mc_gossip c) (mc_history c)))"
    by (auto simp: get_gossip_message_ids_def f split: if_splits)
  have "mid \<in> set ids \<longleftrightarrow> (\<exists>slot \<in> set (take (mc_gossip c) (mc_history c)). (mid, topic) \<in> set slot)
     \<and> (\<exists>r ps. fmlookup (mc_msgs c) mid = Some (r, ps) \<and> rm_validated r)"
    unfolding ids by (auto simp: gossipable_def image_iff split: option.splits)
  also have "(\<exists>slot \<in> set (take (mc_gossip c) (mc_history c)). (mid, topic) \<in> set slot)
      \<longleftrightarrow> (\<exists>i < mc_gossip c. (mid, topic) \<in> set (mc_history c ! i))"
  proof
    assume "\<exists>slot \<in> set (take (mc_gossip c) (mc_history c)). (mid, topic) \<in> set slot"
    then obtain i where "i < length (take (mc_gossip c) (mc_history c))" "(mid, topic) \<in> set (take (mc_gossip c) (mc_history c) ! i)"
      by (metis in_set_conv_nth)
    then show "\<exists>i < mc_gossip c. (mid, topic) \<in> set (mc_history c ! i)" by auto
  next
    assume "\<exists>i < mc_gossip c. (mid, topic) \<in> set (mc_history c ! i)"
    then obtain i where i: "i < mc_gossip c" "(mid, topic) \<in> set (mc_history c ! i)" by blast
    have "take (mc_gossip c) (mc_history c) ! i \<in> set (take (mc_gossip c) (mc_history c))" using i(1) le by (intro nth_mem) simp
    then show "\<exists>slot \<in> set (take (mc_gossip c) (mc_history c)). (mid, topic) \<in> set slot" using i by auto
  qed
  finally show ?thesis .
qed

lemma gossip_const: "mc_gossip (fold mc_step ops c) = mc_gossip c"
proof (induction ops arbitrary: c)
  case (Cons op ops)
  have "mc_gossip (mc_step op c) = mc_gossip c"
    by (cases op) (auto simp: mc_put_def observe_duplicate_def get_with_iwant_counts_def mc_validate_def mc_shift_def
        mc_remove_def Let_def split: list.split option.split)
  with Cons show ?case by simp
qed simp

section \<open>Promises\<close>

type_synonym 'p GossipPromises = "(message_id, ('p, nat) fmap) fmap"

definition promises_contains :: "message_id \<Rightarrow> 'p GossipPromises \<Rightarrow> bool" where
  "promises_contains mid ps \<longleftrightarrow> mid |\<in>| fmdom ps"

definition peers_for_message :: "message_id \<Rightarrow> 'p::linorder GossipPromises \<Rightarrow> 'p list" where
  "peers_for_message mid ps = (case fmlookup ps mid of None \<Rightarrow> [] | Some m \<Rightarrow> sorted_list_of_fset (fmdom m))"

definition promise_one :: "'p \<Rightarrow> nat \<Rightarrow> message_id \<Rightarrow> 'p GossipPromises \<Rightarrow> 'p GossipPromises" where
  "promise_one peer expires mid ps = (let m = (case fmlookup ps mid of None \<Rightarrow> fmempty | Some m \<Rightarrow> m)
     in fmupd mid (if fmlookup m peer = None then fmupd peer expires m else m) ps)"

definition add_promise :: "'p \<Rightarrow> message_id list \<Rightarrow> nat \<Rightarrow> 'p GossipPromises \<Rightarrow> 'p GossipPromises" where
  "add_promise peer mids expires ps = fold (promise_one peer expires) mids ps"

definition message_delivered :: "message_id \<Rightarrow> 'p GossipPromises \<Rightarrow> 'p GossipPromises" where
  "message_delivered mid ps = fmdrop mid ps"

definition promises_reject_message :: "message_id \<Rightarrow> RejectReason \<Rightarrow> 'p GossipPromises \<Rightarrow> 'p GossipPromises" where
  "promises_reject_message mid reason ps =
     (if reason = ValidationErrorReason InvalidSignature \<or> reason = SelfOrigin then ps else fmdrop mid ps)"

definition bump :: "'p \<Rightarrow> ('p, nat) fmap \<Rightarrow> ('p, nat) fmap" where
  "bump p r = fmupd p ((case fmlookup r p of None \<Rightarrow> 0 | Some n \<Rightarrow> n) + 1) r"

definition broken_in :: "nat \<Rightarrow> ('p::linorder, nat) fmap \<Rightarrow> 'p list" where
  "broken_in now m = filter (\<lambda>p. case fmlookup m p of None \<Rightarrow> False | Some e \<Rightarrow> e < now) (sorted_list_of_fset (fmdom m))"

definition get_broken_promises :: "nat \<Rightarrow> 'p::linorder GossipPromises \<Rightarrow> ('p, nat) fmap \<times> 'p GossipPromises" where
  "get_broken_promises now ps =
     (fold (\<lambda>mid r. fold bump (case fmlookup ps mid of None \<Rightarrow> [] | Some m \<Rightarrow> broken_in now m) r) (sorted_list_of_fset (fmdom ps)) fmempty,
      fmretain (\<lambda>mid m. m \<noteq> fmempty) (fmmap (fmretain (\<lambda>p e. \<not> e < now)) ps))"

text \<open>When the promise of a peer for a message runs out.\<close>

definition promise :: "'p GossipPromises \<Rightarrow> message_id \<Rightarrow> 'p \<Rightarrow> nat option" where
  "promise ps mid p = (case fmlookup ps mid of None \<Rightarrow> None | Some m \<Rightarrow> fmlookup m p)"

lemma bump_count:
  "fmlookup (fold bump xs r) p = (if p \<in> set xs then Some ((case fmlookup r p of None \<Rightarrow> 0 | Some n \<Rightarrow> n) + count_list xs p)
     else fmlookup r p)"
  by (induction xs arbitrary: r) (auto simp: bump_def)

lemma set_broken_in: "p \<in> set (broken_in now m) \<longleftrightarrow> (\<exists>e. fmlookup m p = Some e \<and> e < now)" "distinct (broken_in now m)"
  by (auto simp: broken_in_def fmlookup_dom_iff sorted_list_of_fset_def split: option.splits)

lemma distinct_count: "distinct xs \<Longrightarrow> x \<in> set xs \<Longrightarrow> count_list xs x = 1"
  by (induction xs) auto

lemma fold_bumps:
  fixes f :: "message_id \<Rightarrow> 'p list"
  assumes "\<And>mid. distinct (f mid)"
  shows "fmlookup (fold (\<lambda>mid r. fold bump (f mid) r) mids r) p =
     (let n = length (filter (\<lambda>mid. p \<in> set (f mid)) mids)
      in if n = 0 then fmlookup r p else Some ((case fmlookup r p of None \<Rightarrow> 0 | Some n \<Rightarrow> n) + n))"
proof (induction mids arbitrary: r)
  case (Cons mid mids)
  have "p \<in> set (f mid) \<Longrightarrow> count_list (f mid) p = 1" using assms [of mid] by (rule distinct_count)
  then show ?case by (auto simp: Cons.IH bump_count Let_def split: option.split)
qed simp

section \<open>Properties\<close>

text \<open>C32. The duplicate cache is exact. For every sequence of insertions at times that do not run backwards (and whose
  expiry the clock can represent), an insertion answers that the message is new if and only if the same message was not
  taken as new less than the time to live before. So within the time to live a message is processed at most once, and
  after it the message is new again; repeated arrivals do not prolong the time.\<close>

theorem duplicate_cache_exact:
  assumes "sorted (map snd evs)" and "\<forall>ev \<in> set evs. snd ev + ttl \<le> imax"
  shows "fst (dc_session imax evs (time_cache_new ttl)) = fresh_spec ttl [] evs"
proof -
  let ?c = "time_cache_new ttl :: ('a, unit) TimeCache"
  have "remembers 0 [] ?c" by (simp add: remembers_def tc_ok_def time_cache_new_def)
  moreover have "sorted (0 # map snd evs)" using assms(1) by simp
  moreover have "tc_ttl ?c = ttl" by (simp add: time_cache_new_def)
  ultimately show ?thesis using dc_session_spec [of 0 "[]" ?c evs imax] assms(2) by simp
qed

lemma duplicate_cache_exact_witness:
  "fst (dc_session 1000 [(1 :: nat, 5), (1, 14), (2, 14), (1, 15), (1, 16)] (time_cache_new 10)) = [True, False, True, True, False]"
  by (subst duplicate_cache_exact) simp_all

text \<open>C33. A message lives in the cache for exactly its window. Put into a cache whose history does not know it, and
  neither removed nor put again, a message is in the cache until the history has been shifted as often as it has slots,
  and no longer; it is offered in gossip on its own topic, and only there, once it is validated and until the history
  has been shifted as often as the gossip window is long. Whatever else is put, looked up, validated or removed in
  between does not matter.\<close>

theorem mcache_window:
  assumes "mc_history c \<noteq> []" and "mc_gossip c \<le> length (mc_history c)"
    and "fmlookup (mc_msgs c) mid = None" and "mid \<notin> fst ` set (concat (mc_history c))"
    and "Remove mid \<notin> set ops" and "\<forall>m. Put mid m \<notin> set ops"
  shows "let c' = fold mc_step ops (snd (mc_put mid msg c)); n = count_list ops Shift in
    fst (mc_put mid msg c) \<and> (mid |\<in>| fmdom (mc_msgs c') \<longleftrightarrow> n < length (mc_history c))
    \<and> (\<exists>ids. get_gossip_message_ids topic c' = Some ids
        \<and> (mid \<in> set ids \<longleftrightarrow> topic = rm_topic msg \<and> n < mc_gossip c \<and> (rm_validated msg \<or> Validate mid \<in> set ops)))"
proof -
  let ?cap = "length (mc_history c)" and ?c1 = "snd (mc_put mid msg c)" and ?n = "count_list ops Shift"
  let ?c' = "fold mc_step ops ?c1" and ?v = "rm_validated msg \<or> Validate mid \<in> set ops"
  obtain slot slots where hist: "mc_history c = slot # slots" using assms(1) by (cases "mc_history c") auto
  have no: "(mid, t) \<notin> set slot" "x < length slots \<Longrightarrow> (mid, t) \<notin> set (slots ! x)" for x t
    using assms(4) nth_mem [of x slots] by (force simp: hist)+
  have cap: "0 < ?cap" using assms(1) by simp
  have h: "held ?cap 0 mid (rm_topic msg) (rm_validated msg) ?c1"
    using assms(3) no unfolding held_def by (auto simp: mc_put_def hist nth_Cons split: nat.split)
  have k: "held ?cap ?n mid (rm_topic msg) ?v ?c'" using held_steps [OF h cap assms(5,6)] by simp
  then have len: "length (mc_history ?c') = ?cap"
    and slot: "\<And>i t. i < ?cap \<Longrightarrow> (mid, t) \<in> set (mc_history ?c' ! i) \<longleftrightarrow> i = ?n \<and> t = rm_topic msg"
    and look: "if ?n < ?cap then \<exists>r ps. fmlookup (mc_msgs ?c') mid = Some (r, ps) \<and> rm_validated r = ?v else fmlookup (mc_msgs ?c') mid = None"
    by (auto simp: held_def)
  have g: "mc_gossip ?c' = mc_gossip c" using gossip_const [of ops ?c1] by (simp add: mc_put_def hist)
  obtain ids where ids: "get_gossip_message_ids topic ?c' = Some ids"
    using assms(2) by (simp add: get_gossip_message_ids_def len g)
  have "(\<exists>i < mc_gossip c. (mid, topic) \<in> set (mc_history ?c' ! i)) \<longleftrightarrow> ?n < mc_gossip c \<and> topic = rm_topic msg"
    using assms(2) by (auto simp: slot)
  then have "mid \<in> set ids \<longleftrightarrow> topic = rm_topic msg \<and> ?n < mc_gossip c \<and> ?v"
    unfolding gossip_ids [OF ids] g using look assms(2) by (auto split: if_splits)
  moreover have "fst (mc_put mid msg c)" using assms(3) by (simp add: mc_put_def hist)
  moreover have "mid |\<in>| fmdom (mc_msgs ?c') \<longleftrightarrow> ?n < ?cap" using look by (auto simp: fmlookup_dom_iff split: if_splits)
  ultimately show ?thesis using ids by (simp add: Let_def)
qed

definition demo_raw :: "u8 RawMessage" where
  "demo_raw = \<lparr>rm_source = Some 7, rm_data = [1], rm_sequence_number = Some 1, rm_topic = ''chat'', rm_signature = None, rm_key = None,
     rm_validated = False\<rparr>"

lemma mcache_window_witness:
  "let c' = fold mc_step [Shift, Validate [1], Put [2] demo_raw] (snd (mc_put [1] demo_raw (mcache_new 2 3))) in
    [1] |\<in>| fmdom (mc_msgs c') \<and> (\<exists>ids. get_gossip_message_ids ''chat'' c' = Some ids \<and> [1] \<in> set ids)"
  using mcache_window [of "mcache_new 2 3" "[1]" "[Shift, Validate [1], Put [2] demo_raw]" demo_raw "''chat''"]
  by (simp add: mcache_new_def numeral_3_eq_3 demo_raw_def Let_def)

text \<open>Promises are settled exactly once. When broken promises are collected, the count of a peer is exactly the
  number of messages it promised and whose time ran out, peers without any are absent, exactly those promises are
  forgotten, and a message with no promise left is no longer tracked.\<close>

theorem broken_promises_exact:
  "case get_broken_promises now ps of (broken, ps') \<Rightarrow>
    (\<forall>p. let n = card {mid. \<exists>e. promise ps mid p = Some e \<and> e < now}
         in fmlookup broken p = (if n = 0 then None else Some n))
    \<and> (\<forall>mid p. promise ps' mid p = (case promise ps mid p of None \<Rightarrow> None | Some e \<Rightarrow> if e < now then None else Some e))
    \<and> (\<forall>mid. promises_contains mid ps' \<longleftrightarrow> (\<exists>p. promise ps' mid p \<noteq> None))"
proof -
  let ?f = "\<lambda>mid. case fmlookup ps mid of None \<Rightarrow> [] | Some m \<Rightarrow> broken_in now m"
  let ?mids = "sorted_list_of_fset (fmdom ps)"
  let ?ps' = "fmretain (\<lambda>mid m. m \<noteq> fmempty) (fmmap (fmretain (\<lambda>p e. \<not> e < now)) ps)"
  have b: "p \<in> set (?f mid) \<longleftrightarrow> (\<exists>e. promise ps mid p = Some e \<and> e < now)" for mid p
    by (simp add: promise_def set_broken_in split: option.split)
  have "distinct (?f mid)" for mid by (simp add: set_broken_in split: option.split)
  note fb = fold_bumps [of ?f, OF this]
  have n: "length (filter (\<lambda>mid. p \<in> set (?f mid)) ?mids) = card {mid. \<exists>e. promise ps mid p = Some e \<and> e < now}" for p
  proof -
    have s: "set (filter (\<lambda>mid. p \<in> set (?f mid)) ?mids) = {mid. \<exists>e. promise ps mid p = Some e \<and> e < now}"
      unfolding b by (auto simp: promise_def fmlookup_dom_iff split: option.splits)
    have "distinct (filter (\<lambda>mid. p \<in> set (?f mid)) ?mids)" by (simp add: sorted_list_of_fset.rep_eq)
    from distinct_card [OF this] show ?thesis unfolding s by simp
  qed
  have r: "fmlookup (fold (\<lambda>mid r. fold bump (?f mid) r) ?mids fmempty) p
      = (let n = card {mid. \<exists>e. promise ps mid p = Some e \<and> e < now} in if n = 0 then None else Some n)" for p
    unfolding fb n by (simp add: Let_def)
  have p: "promise ?ps' mid p = (case promise ps mid p of None \<Rightarrow> None | Some e \<Rightarrow> if e < now then None else Some e)" for mid p
  proof (cases "fmlookup ps mid")
    case (Some m)
    let ?m = "fmretain (\<lambda>p e. \<not> e < now) m"
    have "fmlookup ?m p = (case fmlookup m p of None \<Rightarrow> None | Some e \<Rightarrow> if e < now then None else Some e)"
      by (simp split: option.split)
    then show ?thesis using Some by (cases "?m = fmempty") (simp_all add: promise_def del: fmlookup_fmretain, simp_all)
  qed (simp add: promise_def)
  have c: "promises_contains mid ?ps' \<longleftrightarrow> (\<exists>p. promise ?ps' mid p \<noteq> None)" for mid
  proof (cases "fmlookup ?ps' mid")
    case (Some m)
    then have "m \<noteq> fmempty" by (auto split: option.splits if_splits)
    moreover have "m = fmempty" if "\<forall>p. fmlookup m p = None" by (rule fmap_ext) (use that in simp)
    ultimately have "\<not> (\<forall>p. fmlookup m p = None)" by blast
    with Some show ?thesis by (auto simp: promises_contains_def promise_def fmlookup_dom_iff simp del: fmlookup_fmretain)
  qed (simp add: promises_contains_def promise_def fmlookup_dom_iff del: fmlookup_fmretain)
  show ?thesis unfolding get_broken_promises_def prod.case by (intro conjI allI p c) (simp only: r Let_def)
qed

end
