(* ===== verification/Gossip_Backoff.thy ===== *)
theory Gossip_Backoff
  imports Gossip_Cache
begin

text \<open>
  The back-off of pruned peers, \<open>external/libp2p-gossipsub/src/backoff.rs\<close>: until when a peer is not grafted again for a
  topic, with a cyclic index by heartbeat that finds what can be forgotten; and the outgoing queues of a peer,
  \<open>queue.rs\<close>. Durations and instants are nanoseconds.
\<close>

section \<open>Back-off\<close>

record 'p BackoffStorage =
  bo_backoffs :: "(topic_hash, ('p, nat \<times> nat) fmap) fmap"
  bo_by_heartbeat :: "(topic_hash \<times> 'p) fset list"
  bo_index :: nat
  bo_interval :: nat
  bo_slack :: nat

definition heartbeats :: "nat \<Rightarrow> nat \<Rightarrow> nat" where
  "heartbeats d interval = ((d + interval - 1) div interval) mod 2 ^ 64"

definition backoff_new :: "nat \<Rightarrow> nat \<Rightarrow> nat \<Rightarrow> 'p BackoffStorage" where
  "backoff_new prune_backoff interval slack = \<lparr>bo_backoffs = fmempty,
     bo_by_heartbeat = replicate (heartbeats prune_backoff interval + slack + 1) {||}, bo_index = 0, bo_interval = interval, bo_slack = slack\<rparr>"

definition get_backoff :: "(topic_hash, ('p, nat \<times> nat) fmap) fmap \<Rightarrow> topic_hash \<Rightarrow> 'p \<Rightarrow> (nat \<times> nat) option" where
  "get_backoff bs topic peer = (case fmlookup bs topic of None \<Rightarrow> None | Some m \<Rightarrow> fmlookup m peer)"

text \<open>The slot of a pair whose back-off lasts \<open>time\<close>, counted from the current heartbeat.\<close>

definition slot_of :: "nat \<Rightarrow> 'p BackoffStorage \<Rightarrow> nat" where
  "slot_of time s = ((bo_index s + heartbeats time (bo_interval s) + bo_slack s) mod 2 ^ 64) mod length (bo_by_heartbeat s)"

definition put_backoff :: "topic_hash \<Rightarrow> 'p \<Rightarrow> nat \<Rightarrow> nat \<Rightarrow> 'p BackoffStorage \<Rightarrow> 'p BackoffStorage" where
  "put_backoff topic peer instant time s =
     (let i = slot_of time s; m = (case fmlookup (bo_backoffs s) topic of None \<Rightarrow> fmempty | Some m \<Rightarrow> m)
      in s\<lparr>bo_by_heartbeat := (bo_by_heartbeat s)[i := finsert (topic, peer) (bo_by_heartbeat s ! i)],
           bo_backoffs := fmupd topic (fmupd peer (instant, i) m) (bo_backoffs s)\<rparr>)"

definition update_backoff :: "nat \<Rightarrow> nat \<Rightarrow> topic_hash \<Rightarrow> 'p \<Rightarrow> nat \<Rightarrow> 'p BackoffStorage \<Rightarrow> 'p BackoffStorage" where
  "update_backoff imax now topic peer time s =
     (case checked_add imax now time of None \<Rightarrow> s
      | Some instant \<Rightarrow>
          (case get_backoff (bo_backoffs s) topic peer of
             Some (backoff, i) \<Rightarrow>
               if backoff < instant
               then put_backoff topic peer instant time
                 (s\<lparr>bo_by_heartbeat := (if i < length (bo_by_heartbeat s)
                      then (bo_by_heartbeat s)[i := bo_by_heartbeat s ! i |-| {|(topic, peer)|}] else bo_by_heartbeat s)\<rparr>)
               else s
           | None \<Rightarrow> put_backoff topic peer instant time s))"

definition is_backoff_with_slack :: "topic_hash \<Rightarrow> 'p \<Rightarrow> 'p BackoffStorage \<Rightarrow> bool" where
  "is_backoff_with_slack topic peer s \<longleftrightarrow> get_backoff (bo_backoffs s) topic peer \<noteq> None"

definition get_backoff_time :: "topic_hash \<Rightarrow> 'p \<Rightarrow> 'p BackoffStorage \<Rightarrow> nat option" where
  "get_backoff_time topic peer s = map_option fst (get_backoff (bo_backoffs s) topic peer)"

definition keep_backoff :: "nat \<Rightarrow> nat \<Rightarrow> nat \<Rightarrow> (topic_hash, ('p, nat \<times> nat) fmap) fmap \<Rightarrow> topic_hash \<times> 'p \<Rightarrow> bool" where
  "keep_backoff imax slack now bs pair = (case get_backoff bs (fst pair) (snd pair) of None \<Rightarrow> False
     | Some (backoff, _) \<Rightarrow> (case checked_add imax backoff slack of None \<Rightarrow> False | Some b \<Rightarrow> now < b))"

definition remove_backoff :: "topic_hash \<times> 'p \<Rightarrow> (topic_hash, ('p, nat \<times> nat) fmap) fmap \<Rightarrow> (topic_hash, ('p, nat \<times> nat) fmap) fmap" where
  "remove_backoff pair bs = (case fmlookup bs (fst pair) of None \<Rightarrow> bs
     | Some m \<Rightarrow> if fmlookup m (snd pair) = None then bs
         else if fmdrop (snd pair) m = fmempty then fmdrop (fst pair) bs else fmupd (fst pair) (fmdrop (snd pair) m) bs)"

definition backoff_heartbeat :: "nat \<Rightarrow> nat \<Rightarrow> 'p::linorder BackoffStorage \<Rightarrow> 'p BackoffStorage" where
  "backoff_heartbeat imax now s =
     (let slots = bo_by_heartbeat s; i = bo_index s;
          s = (if i < length slots then
                 let keep = keep_backoff imax (bo_interval s * bo_slack s) now (bo_backoffs s);
                     dropped = filter (\<lambda>pair. \<not> keep pair) (sorted_list_of_fset (slots ! i))
                 in s\<lparr>bo_by_heartbeat := slots[i := ffilter keep (slots ! i)], bo_backoffs := fold remove_backoff dropped (bo_backoffs s)\<rparr>
               else s)
      in s\<lparr>bo_index := (bo_index s + 1) mod length (bo_by_heartbeat s)\<rparr>)"

datatype 'p bo_op = Update_backoff nat topic_hash 'p nat | Heartbeat nat

fun bo_step :: "nat \<Rightarrow> 'p::linorder bo_op \<Rightarrow> 'p BackoffStorage \<Rightarrow> 'p BackoffStorage" where
  "bo_step imax (Update_backoff now topic peer time) s = update_backoff imax now topic peer time s"
| "bo_step imax (Heartbeat now) s = backoff_heartbeat imax now s"

section \<open>Invariant\<close>

definition bo_ok :: "'p BackoffStorage \<Rightarrow> bool" where
  "bo_ok s \<longleftrightarrow> bo_index s < length (bo_by_heartbeat s)
     \<and> (\<forall>topic peer b i. get_backoff (bo_backoffs s) topic peer = Some (b, i) \<longrightarrow>
          i < length (bo_by_heartbeat s) \<and> (topic, peer) |\<in>| bo_by_heartbeat s ! i)"

lemma get_put:
  "get_backoff (fmupd t (fmupd p x (case fmlookup bs t of None \<Rightarrow> fmempty | Some m \<Rightarrow> m)) bs) t' p'
     = (if t' = t \<and> p' = p then Some x else get_backoff bs t' p')"
  by (auto simp: get_backoff_def split: option.split)

lemma get_remove:
  "get_backoff (remove_backoff pair bs) t p = (if pair = (t, p) then None else get_backoff bs t p)"
proof (cases "fmlookup bs (fst pair)")
  case (Some m)
  show ?thesis
  proof (cases "fmdrop (snd pair) m = fmempty")
    case True
    then have "fmlookup m q = None" if "q \<noteq> snd pair" for q using that by (metis fmempty_lookup fmlookup_drop)
    then show ?thesis using Some True by (cases pair) (auto simp: remove_backoff_def get_backoff_def split: option.split)
  qed (use Some in \<open>cases pair, auto simp: remove_backoff_def get_backoff_def split: option.split\<close>)
qed (cases pair, auto simp: remove_backoff_def get_backoff_def)

lemma get_removes:
  "get_backoff (fold remove_backoff pairs bs) t p = (if (t, p) \<in> set pairs then None else get_backoff bs t p)"
  by (induction pairs arbitrary: bs) (auto simp: get_remove)

lemma heartbeat_parts:
  fixes imax now :: nat
  assumes "bo_index s < length (bo_by_heartbeat s)"
  defines "keep \<equiv> keep_backoff imax (bo_interval s * bo_slack s) now (bo_backoffs s)"
  shows "bo_index (backoff_heartbeat imax now s) = (bo_index s + 1) mod length (bo_by_heartbeat s)"
    and "length (bo_by_heartbeat (backoff_heartbeat imax now s)) = length (bo_by_heartbeat s)"
    and "bo_interval (backoff_heartbeat imax now s) = bo_interval s" and "bo_slack (backoff_heartbeat imax now s) = bo_slack s"
    and "get_backoff (bo_backoffs (backoff_heartbeat imax now s)) t p =
       (if (t, p) |\<in>| bo_by_heartbeat s ! bo_index s \<and> \<not> keep (t, p) then None else get_backoff (bo_backoffs s) t p)"
    and "i < length (bo_by_heartbeat s) \<Longrightarrow> (t, p) |\<in>| bo_by_heartbeat (backoff_heartbeat imax now s) ! i \<longleftrightarrow>
       (t, p) |\<in>| bo_by_heartbeat s ! i \<and> (i = bo_index s \<longrightarrow> keep (t, p))"
  using assms(1) unfolding keep_def
  by (auto simp: backoff_heartbeat_def Let_def get_removes nth_list_update)

definition clear_slot :: "nat \<Rightarrow> topic_hash \<times> 'p \<Rightarrow> (topic_hash \<times> 'p) fset list \<Rightarrow> (topic_hash \<times> 'p) fset list" where
  "clear_slot i pair slots = (if i < length slots then slots[i := slots ! i |-| {|pair|}] else slots)"

lemma clear_slot_simps [simp]: "length (clear_slot i pair slots) = length slots" "clear_slot i pair slots = [] \<longleftrightarrow> slots = []"
  by (simp_all add: clear_slot_def)

lemma clear_slots: "x |\<in>| clear_slot i pair slots ! j \<longleftrightarrow> x |\<in>| slots ! j \<and> \<not> (i < length slots \<and> j = i \<and> x = pair)"
  by (auto simp: clear_slot_def nth_list_update)

lemma update_backoff_cases:
  "update_backoff imax now topic peer time s = (case checked_add imax now time of None \<Rightarrow> s
      | Some instant \<Rightarrow> (case get_backoff (bo_backoffs s) topic peer of
             Some (backoff, i) \<Rightarrow> if backoff < instant
               then put_backoff topic peer instant time (s\<lparr>bo_by_heartbeat := clear_slot i (topic, peer) (bo_by_heartbeat s)\<rparr>) else s
           | None \<Rightarrow> put_backoff topic peer instant time s))"
  unfolding update_backoff_def clear_slot_def ..

lemma slot_lt: "bo_by_heartbeat s \<noteq> [] \<Longrightarrow> slot_of time s < length (bo_by_heartbeat s)"
  by (simp add: slot_of_def)

lemma put_parts:
  assumes "bo_by_heartbeat s \<noteq> []"
  shows "bo_index (put_backoff topic peer instant time s) = bo_index s"
    "length (bo_by_heartbeat (put_backoff topic peer instant time s)) = length (bo_by_heartbeat s)"
    "bo_interval (put_backoff topic peer instant time s) = bo_interval s" "bo_slack (put_backoff topic peer instant time s) = bo_slack s"
    "get_backoff (bo_backoffs (put_backoff topic peer instant time s)) t p =
       (if t = topic \<and> p = peer then Some (instant, slot_of time s) else get_backoff (bo_backoffs s) t p)"
    "(t, p) |\<in>| bo_by_heartbeat (put_backoff topic peer instant time s) ! i \<longleftrightarrow>
       (t, p) |\<in>| bo_by_heartbeat s ! i \<or> t = topic \<and> p = peer \<and> i = slot_of time s"
  using slot_lt [OF assms, of time] by (auto simp: put_backoff_def Let_def get_put nth_list_update)

lemma update_parts:
  assumes ok: "bo_ok s"
  shows "bo_index (update_backoff imax now topic peer time s) = bo_index s"
    "length (bo_by_heartbeat (update_backoff imax now topic peer time s)) = length (bo_by_heartbeat s)"
    "bo_interval (update_backoff imax now topic peer time s) = bo_interval s"
    "bo_slack (update_backoff imax now topic peer time s) = bo_slack s"
    and "(t, p) \<noteq> (topic, peer) \<Longrightarrow>
       get_backoff (bo_backoffs (update_backoff imax now topic peer time s)) t p = get_backoff (bo_backoffs s) t p"
    and "(t, p) \<noteq> (topic, peer) \<Longrightarrow>
       (t, p) |\<in>| bo_by_heartbeat (update_backoff imax now topic peer time s) ! i \<longleftrightarrow> (t, p) |\<in>| bo_by_heartbeat s ! i"
    and "bo_ok (update_backoff imax now topic peer time s)"
proof -
  have ne: "bo_by_heartbeat s \<noteq> []" "0 < length (bo_by_heartbeat s)" using ok by (auto simp: bo_ok_def)
  show "bo_index (update_backoff imax now topic peer time s) = bo_index s"
    "length (bo_by_heartbeat (update_backoff imax now topic peer time s)) = length (bo_by_heartbeat s)"
    "bo_interval (update_backoff imax now topic peer time s) = bo_interval s"
    "bo_slack (update_backoff imax now topic peer time s) = bo_slack s"
    using ne by (simp_all add: update_backoff_cases put_parts split: option.split)
  show "(t, p) \<noteq> (topic, peer) \<Longrightarrow>
       get_backoff (bo_backoffs (update_backoff imax now topic peer time s)) t p = get_backoff (bo_backoffs s) t p"
    and "(t, p) \<noteq> (topic, peer) \<Longrightarrow>
       (t, p) |\<in>| bo_by_heartbeat (update_backoff imax now topic peer time s) ! i \<longleftrightarrow> (t, p) |\<in>| bo_by_heartbeat s ! i"
    using ne by (auto simp: update_backoff_cases put_parts clear_slots split: option.split)
  have put: "bo_ok (put_backoff topic peer instant time (s\<lparr>bo_by_heartbeat := slots\<rparr>))"
    if "length slots = length (bo_by_heartbeat s)"
      and "\<And>t p i. (t, p) |\<in>| bo_by_heartbeat s ! i \<Longrightarrow> (t, p) \<noteq> (topic, peer) \<Longrightarrow> (t, p) |\<in>| slots ! i"
    for slots instant
  proof -
    have n: "slots \<noteq> []" using that(1) ne(1) by auto
    then show ?thesis
      using ok that slot_lt [of "s\<lparr>bo_by_heartbeat := slots\<rparr>" time] by (auto simp: bo_ok_def put_parts split: if_splits)
  qed
  show "bo_ok (update_backoff imax now topic peer time s)"
    using ok put [of "bo_by_heartbeat s"] put [of "clear_slot i (topic, peer) (bo_by_heartbeat s)" for i]
    by (auto simp: update_backoff_cases clear_slots split: option.split)
qed

lemma bo_step_ok: "bo_ok s \<Longrightarrow> bo_ok (bo_step imax op s)"
proof (cases op)
  case (Heartbeat now)
  assume ok: "bo_ok s"
  then have i: "bo_index s < length (bo_by_heartbeat s)" by (simp add: bo_ok_def)
  then have "0 < length (bo_by_heartbeat s)" by linarith
  with ok show ?thesis
    by (auto simp: Heartbeat bo_ok_def heartbeat_parts [OF i] split: if_splits)
qed (simp add: update_parts)

lemma backoff_new_ok: "bo_ok (backoff_new prune_backoff interval slack)"
  by (simp add: bo_ok_def backoff_new_def get_backoff_def)

lemma bo_step_const:
  assumes "bo_ok s"
  shows "bo_interval (bo_step imax op s) = bo_interval s" "bo_slack (bo_step imax op s) = bo_slack s"
    "length (bo_by_heartbeat (bo_step imax op s)) = length (bo_by_heartbeat s)"
  using assms by (cases op; simp add: update_parts heartbeat_parts bo_ok_def)+

lemma bo_steps:
  assumes "bo_ok s"
  shows "bo_ok (fold (bo_step imax) ops s)" "bo_interval (fold (bo_step imax) ops s) = bo_interval s"
    "bo_slack (fold (bo_step imax) ops s) = bo_slack s"
    "length (bo_by_heartbeat (fold (bo_step imax) ops s)) = length (bo_by_heartbeat s)"
  using assms by (induction ops arbitrary: s) (simp_all add: bo_step_ok bo_step_const)

lemma bo_new_const [simp]: "bo_interval (backoff_new pb interval slack) = interval" "bo_slack (backoff_new pb interval slack) = slack"
  "length (bo_by_heartbeat (backoff_new pb interval slack)) = heartbeats pb interval + slack + 1"
  by (simp_all add: backoff_new_def)

text \<open>Back-offs whose end, with the slack, the clock can represent.\<close>

fun sane :: "nat \<Rightarrow> nat \<Rightarrow> 'p bo_op \<Rightarrow> bool" where
  "sane imax slack (Update_backoff now topic peer time) \<longleftrightarrow> now + time + slack \<le> imax"
| "sane imax slack (Heartbeat now) \<longleftrightarrow> True"

definition all_sane :: "nat \<Rightarrow> 'p BackoffStorage \<Rightarrow> bool" where
  "all_sane imax s \<longleftrightarrow> (\<forall>t p b i. get_backoff (bo_backoffs s) t p = Some (b, i) \<longrightarrow> b + bo_interval s * bo_slack s \<le> imax)"

lemma sane_step:
  assumes ok: "bo_ok s" and "all_sane imax s" and "sane imax (bo_interval s * bo_slack s) op"
  shows "all_sane imax (bo_step imax op s)"
proof (cases op)
  case (Heartbeat now)
  have "bo_index s < length (bo_by_heartbeat s)" using ok by (simp add: bo_ok_def)
  with assms(2) show ?thesis by (auto simp: Heartbeat all_sane_def heartbeat_parts split: if_splits)
next
  case (Update_backoff now topic peer time)
  have "bo_by_heartbeat s \<noteq> []" using ok by (auto simp: bo_ok_def)
  with assms(2,3) show ?thesis
    by (auto simp: Update_backoff all_sane_def update_parts(3,4) [OF ok] update_backoff_cases put_parts checked_add_def
        split: option.splits if_splits)
qed

lemma sane_steps:
  assumes "bo_ok s" and "all_sane imax s" and "\<forall>op \<in> set ops. sane imax (bo_interval s * bo_slack s) op"
  shows "all_sane imax (fold (bo_step imax) ops s)"
  using assms
proof (induction ops arbitrary: s)
  case (Cons op ops)
  then show ?case using sane_step [of s imax op] bo_step_ok [of s imax op] bo_step_const [of s imax op] by simp
qed simp

text \<open>A back-off until \<open>until\<close> or later.\<close>

definition backed_off :: "nat \<Rightarrow> topic_hash \<Rightarrow> 'p \<Rightarrow> 'p BackoffStorage \<Rightarrow> bool" where
  "backed_off until topic peer s \<longleftrightarrow> (\<exists>b i. get_backoff (bo_backoffs s) topic peer = Some (b, i) \<and> until \<le> b)"

lemma update_backs_off:
  assumes "bo_ok s" and "now + time \<le> imax"
  shows "backed_off (now + time) topic peer (update_backoff imax now topic peer time s)"
proof -
  have "bo_by_heartbeat s \<noteq> []" using assms(1) by (auto simp: bo_ok_def)
  then show ?thesis using assms(2) by (auto simp: backed_off_def update_backoff_cases put_parts checked_add_def split: option.splits)
qed

lemma backed_off_step:
  assumes ok: "bo_ok s" and "all_sane imax s" and b: "backed_off until topic peer s"
    and early: "\<And>now. op = Heartbeat now \<Longrightarrow> now < until + bo_interval s * bo_slack s"
  shows "backed_off until topic peer (bo_step imax op s)"
proof (cases op)
  case (Heartbeat now)
  have i: "bo_index s < length (bo_by_heartbeat s)" using ok by (simp add: bo_ok_def)
  from b obtain x j where x: "get_backoff (bo_backoffs s) topic peer = Some (x, j)" "until \<le> x" by (auto simp: backed_off_def)
  with assms(2) early [OF Heartbeat] have "keep_backoff imax (bo_interval s * bo_slack s) now (bo_backoffs s) (topic, peer)"
    by (auto simp: keep_backoff_def checked_add_def all_sane_def)
  then show ?thesis using x by (auto simp: Heartbeat backed_off_def heartbeat_parts [OF i])
next
  case (Update_backoff now t p time)
  have "bo_by_heartbeat s \<noteq> []" using ok by (auto simp: bo_ok_def)
  with b show ?thesis
    by (auto simp: Update_backoff backed_off_def update_backoff_cases put_parts checked_add_def split: option.splits if_splits)
qed

lemma backed_off_steps:
  assumes "bo_ok s" and "all_sane imax s" and "backed_off until topic peer s"
    and "\<forall>op \<in> set ops. sane imax (bo_interval s * bo_slack s) op"
    and "\<forall>now. Heartbeat now \<in> set ops \<longrightarrow> now < until + bo_interval s * bo_slack s"
  shows "backed_off until topic peer (fold (bo_step imax) ops s)"
  using assms
proof (induction ops arbitrary: s)
  case (Cons op ops)
  have "backed_off until topic peer (bo_step imax op s)" using Cons.prems by (intro backed_off_step) auto
  then show ?case
    using Cons sane_step [of s imax op] bo_step_ok [of s imax op] bo_step_const [of s imax op] by simp
qed simp

text \<open>A back-off whose time is over is found when its slot comes round.\<close>

definition found_in :: "nat \<Rightarrow> nat \<Rightarrow> topic_hash \<Rightarrow> 'p \<Rightarrow> 'p BackoffStorage \<Rightarrow> bool" where
  "found_in k b topic peer s \<longleftrightarrow> get_backoff (bo_backoffs s) topic peer = None \<or>
     (\<exists>i. get_backoff (bo_backoffs s) topic peer = Some (b, i) \<and> k < length (bo_by_heartbeat s)
        \<and> (bo_index s + k) mod length (bo_by_heartbeat s) = i)"

lemma found_heartbeat:
  assumes ok: "bo_ok s" and f: "found_in k b topic peer s" and late: "b + bo_interval s * bo_slack s \<le> now"
  shows "if k = 0 then get_backoff (bo_backoffs (backoff_heartbeat imax now s)) topic peer = None
     else found_in (k - 1) b topic peer (backoff_heartbeat imax now s)"
proof -
  have i: "bo_index s < length (bo_by_heartbeat s)" using ok by (simp add: bo_ok_def)
  note h = heartbeat_parts [OF i, where imax = imax and now = now]
  show ?thesis
  proof (cases "get_backoff (bo_backoffs s) topic peer")
    case None
    then show ?thesis by (auto simp: h found_in_def)
  next
    case (Some bi)
    then obtain j where j: "get_backoff (bo_backoffs s) topic peer = Some (b, j)" and k: "k < length (bo_by_heartbeat s)"
      and jk: "(bo_index s + k) mod length (bo_by_heartbeat s) = j" using f by (auto simp: found_in_def)
    have m: "(topic, peer) |\<in>| bo_by_heartbeat s ! j" using ok j by (simp add: bo_ok_def)
    have nk: "\<not> keep_backoff imax (bo_interval s * bo_slack s) now (bo_backoffs s) (topic, peer)"
      using late by (auto simp: keep_backoff_def j checked_add_def)
    show ?thesis
    proof (cases "k = 0")
      case True
      then have "j = bo_index s" using jk i by simp
      then show ?thesis using True m nk by (simp add: h)
    next
      case False
      have "((bo_index s + 1) mod length (bo_by_heartbeat s) + (k - 1)) mod length (bo_by_heartbeat s)
          = (bo_index s + 1 + (k - 1)) mod length (bo_by_heartbeat s)" by (rule mod_add_left_eq)
      then have "((bo_index s + 1) mod length (bo_by_heartbeat s) + (k - 1)) mod length (bo_by_heartbeat s) = j"
        using False jk by simp
      then show ?thesis using False k j by (auto simp: h found_in_def)
    qed
  qed
qed

lemma found_steps:
  assumes "bo_ok s" and "found_in k b topic peer s" and "\<forall>now time. Update_backoff now topic peer time \<notin> set ops"
    and "\<forall>now. Heartbeat now \<in> set ops \<longrightarrow> b + bo_interval s * bo_slack s \<le> now"
    and "k < length (filter (\<lambda>op. \<exists>now. op = Heartbeat now) ops) \<or> get_backoff (bo_backoffs s) topic peer = None"
  shows "get_backoff (bo_backoffs (fold (bo_step imax) ops s)) topic peer = None"
  using assms
proof (induction ops arbitrary: s k)
  case (Cons op ops)
  let ?s = "bo_step imax op s"
  note ok = bo_step_ok [OF Cons.prems(1), of imax op] and c = bo_step_const [OF Cons.prems(1), of imax op]
  have i: "bo_index s < length (bo_by_heartbeat s)" using Cons.prems(1) by (simp add: bo_ok_def)
  have up: "\<forall>now time. Update_backoff now topic peer time \<notin> set ops"
    and hb: "\<forall>now. Heartbeat now \<in> set ops \<longrightarrow> b + bo_interval ?s * bo_slack ?s \<le> now"
    using Cons.prems(3,4) by (auto simp: c)
  show ?case
  proof (cases op)
    case (Heartbeat now)
    have f: "if k = 0 then get_backoff (bo_backoffs ?s) topic peer = None else found_in (k - 1) b topic peer ?s"
      using found_heartbeat [OF Cons.prems(1,2), of now imax] Cons.prems(4) by (simp only: Heartbeat bo_step.simps list.set) blast
    show ?thesis
    proof (cases "get_backoff (bo_backoffs ?s) topic peer")
      case None
      then show ?thesis using Cons.IH [OF ok _ up hb, of 0] by (simp add: found_in_def)
    next
      case (Some x)
      then have "k \<noteq> 0" "found_in (k - 1) b topic peer ?s" using f by (auto split: if_splits)
      moreover have "get_backoff (bo_backoffs s) topic peer \<noteq> None"
        using Some by (auto simp: Heartbeat heartbeat_parts [OF i] split: if_splits)
      ultimately have f': "found_in (k - 1) b topic peer ?s" and n: "k - 1 < length (filter (\<lambda>op. \<exists>now. op = Heartbeat now) ops)"
        using Cons.prems(5) by (auto simp: Heartbeat)
      show ?thesis using Cons.IH [OF ok f' up hb] n by simp
    qed
  next
    case (Update_backoff now t p time)
    then have "(topic, peer) \<noteq> (t, p)" using Cons.prems(3) by auto
    then have g: "get_backoff (bo_backoffs ?s) topic peer = get_backoff (bo_backoffs s) topic peer"
      by (simp add: Update_backoff update_parts(5) [OF Cons.prems(1)])
    have "found_in k b topic peer ?s"
      using Cons.prems(2) by (simp add: found_in_def g c(3)) (simp add: Update_backoff update_parts(1) [OF Cons.prems(1)])
    then show ?thesis using Cons.IH [OF ok _ up hb, of k] Cons.prems(5) by (simp add: g) (simp add: Update_backoff)
  qed
qed simp

lemma found_start:
  assumes ok: "bo_ok s" and g: "get_backoff (bo_backoffs s) topic peer = Some (b, i)"
  obtains k where "found_in k b topic peer s" and "k < length (bo_by_heartbeat s)"
proof -
  let ?n = "length (bo_by_heartbeat s)"
  have i: "i < ?n" "bo_index s < ?n" using ok g by (auto simp: bo_ok_def)
  let ?k = "(?n - bo_index s + i) mod ?n"
  have "(bo_index s + ?k) mod ?n = (bo_index s + (?n - bo_index s + i)) mod ?n" by (simp add: mod_add_right_eq)
  also have "\<dots> = i" using i by simp
  finally have e: "(bo_index s + ?k) mod ?n = i" .
  have k: "?k < ?n" using i(1) by (intro mod_less_divisor) linarith
  then have "found_in ?k b topic peer s" using e g unfolding found_in_def by simp
  with that k show thesis by blast
qed

section \<open>Properties\<close>



text \<open>A back-off is forgotten in the end. Once its time and the slack are over, as many heartbeats as the index has
  slots (the configured back-off in heartbeats, plus the slack and one) are enough for the peer to be graftable again,
  in every state the storage can reach and whatever is recorded for other peers and topics meanwhile.\<close>

theorem backoff_forgotten:
  assumes "get_backoff_time topic peer (fold (bo_step imax) ops0 (backoff_new prune_backoff interval slack)) = Some b"
    and "\<forall>now time. Update_backoff now topic peer time \<notin> set ops"
    and "\<forall>now. Heartbeat now \<in> set ops \<longrightarrow> b + interval * slack \<le> now"
    and "heartbeats prune_backoff interval + slack + 1 \<le> length (filter (\<lambda>op. \<exists>now. op = Heartbeat now) ops)"
  shows "\<not> is_backoff_with_slack topic peer
     (fold (bo_step imax) ops (fold (bo_step imax) ops0 (backoff_new prune_backoff interval slack)))"
proof -
  let ?s = "fold (bo_step imax) ops0 (backoff_new prune_backoff interval slack)"
  note s = bo_steps [OF backoff_new_ok, of imax ops0 prune_backoff interval slack]
  from assms(1) obtain i where "get_backoff (bo_backoffs ?s) topic peer = Some (b, i)" by (auto simp: get_backoff_time_def)
  from found_start [OF s(1) this] obtain k where "found_in k b topic peer ?s" "k < length (bo_by_heartbeat ?s)" .
  with found_steps [OF s(1), of k b topic peer ops imax] assms(2-4) show ?thesis
    by (simp add: s is_backoff_with_slack_def)
qed

lemma backoff_forgotten_witness:
  "\<not> is_backoff_with_slack ''a'' (7 :: u8) (fold (bo_step 1000) [Heartbeat 60, Heartbeat 70, Heartbeat 80, Heartbeat 90]
     (fold (bo_step 1000) [Update_backoff 5 ''a'' 7 30] (backoff_new 20 10 1)))"
proof (rule backoff_forgotten [where b = 35])
  show "get_backoff_time ''a'' (7 :: u8) (fold (bo_step 1000) [Update_backoff 5 ''a'' 7 30] (backoff_new 20 10 1)) = Some 35"
    by (simp add: get_backoff_time_def update_backoff_def checked_add_def put_backoff_def get_backoff_def backoff_new_def Let_def)
qed (auto simp: heartbeats_def)

end
