(* ===== verification/Gossip_Queue.thy ===== *)
theory Gossip_Queue
  imports Gossip_Types
begin

text \<open>
  The outgoing queues of a peer, \<open>external/libp2p-gossipsub/src/queue.rs\<close>: three queues shared by the behaviour, which
  pushes, and the handlers of the peer's connections, which pop. A handler that finds nothing leaves a waker under its
  id; a push wakes everyone who waits. Locking makes each operation atomic, so an interleaving is a sequence of
  operations.
\<close>

section \<open>One shared queue\<close>

record 'p Shared =
  sh_queue :: "'p RpcOut list"
  sh_pending_pops :: "nat fset"
  sh_capacity :: "nat option"

definition shared_with_capacity :: "nat \<Rightarrow> 'p Shared" where
  "shared_with_capacity capacity = \<lparr>sh_queue = [], sh_pending_pops = {||}, sh_capacity = Some capacity\<rparr>"

definition shared_new :: "'p Shared" where
  "shared_new = \<lparr>sh_queue = [], sh_pending_pops = {||}, sh_capacity = None\<rparr>"

text \<open>The result of a push: whether it was taken, and who is woken.\<close>

definition shared_try_push :: "'p RpcOut \<Rightarrow> 'p Shared \<Rightarrow> bool \<times> nat fset \<times> 'p Shared" where
  "shared_try_push m s = (if (case sh_capacity s of None \<Rightarrow> False | Some capacity \<Rightarrow> capacity \<le> length (sh_queue s))
     then (False, {||}, s) else (True, sh_pending_pops s, s\<lparr>sh_queue := sh_queue s @ [m], sh_pending_pops := {||}\<rparr>))"

definition shared_poll_pop :: "nat \<Rightarrow> 'p Shared \<Rightarrow> 'p RpcOut option \<times> 'p Shared" where
  "shared_poll_pop rid s = (case sh_queue s of m # ms \<Rightarrow> (Some m, s\<lparr>sh_queue := ms\<rparr>)
     | [] \<Rightarrow> (None, s\<lparr>sh_pending_pops := finsert rid (sh_pending_pops s)\<rparr>))"

definition shared_poll_is_empty :: "nat \<Rightarrow> 'p Shared \<Rightarrow> bool \<times> 'p Shared" where
  "shared_poll_is_empty rid s = (if sh_queue s = [] then (True, s\<lparr>sh_pending_pops := finsert rid (sh_pending_pops s)\<rparr>) else (False, s))"

definition shared_retain :: "('p RpcOut \<Rightarrow> bool) \<Rightarrow> 'p Shared \<Rightarrow> 'p Shared" where
  "shared_retain f s = s\<lparr>sh_queue := filter f (sh_queue s)\<rparr>"

definition shared_drop :: "nat \<Rightarrow> 'p Shared \<Rightarrow> 'p Shared" where
  "shared_drop rid s = s\<lparr>sh_pending_pops := sh_pending_pops s |-| {|rid|}\<rparr>"

section \<open>The three queues\<close>

definition CONTROL_MSGS_LIMIT :: nat where "CONTROL_MSGS_LIMIT = 20000"

record 'p Queue =
  q_priority :: "'p Shared"
  q_control :: "'p Shared"
  q_non_priority :: "'p Shared"

definition queue_new :: "nat \<Rightarrow> 'p Queue" where
  "queue_new capacity = \<lparr>q_priority = shared_new, q_control = shared_with_capacity CONTROL_MSGS_LIMIT,
     q_non_priority = shared_with_capacity capacity\<rparr>"

datatype lane = Priority | Control | NonPriority

fun lane_of :: "'p RpcOut \<Rightarrow> lane" where
  "lane_of ExtensionsOut = Priority"
| "lane_of (SubscribeOut _) = Priority"
| "lane_of (SubscribeMany _) = Priority"
| "lane_of (UnsubscribeOut _) = Priority"
| "lane_of (GraftOut _) = Control"
| "lane_of (PruneOut _) = Control"
| "lane_of (IDontWantOut _) = Control"
| "lane_of (Publish _ _) = NonPriority"
| "lane_of (IHaveOut _ _) = NonPriority"
| "lane_of TestExtension = NonPriority"
| "lane_of (IWantOut _) = NonPriority"

definition queue_try_push :: "'p RpcOut \<Rightarrow> 'p Queue \<Rightarrow> bool \<times> nat fset \<times> 'p Queue" where
  "queue_try_push m q = (case lane_of m of
     Priority \<Rightarrow> let (ok, woken, s) = shared_try_push m (q_priority q) in (True, woken, q\<lparr>q_priority := s\<rparr>)
   | Control \<Rightarrow> let (ok, woken, s) = shared_try_push m (q_control q) in (ok, woken, q\<lparr>q_control := s\<rparr>)
   | NonPriority \<Rightarrow> let (ok, woken, s) = shared_try_push m (q_non_priority q) in (ok, woken, q\<lparr>q_non_priority := s\<rparr>))"

definition is_data :: "message_id list \<Rightarrow> 'p RpcOut \<Rightarrow> bool" where
  "is_data mids m = (case m of Publish mid _ \<Rightarrow> mid \<in> set mids | _ \<Rightarrow> False)"

definition remove_data_messages :: "message_id list \<Rightarrow> 'p Queue \<Rightarrow> nat \<times> 'p Queue" where
  "remove_data_messages mids q = (if mids = [] then (0, q)
     else (length (filter (is_data mids) (sh_queue (q_non_priority q))),
           q\<lparr>q_non_priority := shared_retain (\<lambda>m. \<not> is_data mids m) (q_non_priority q)\<rparr>))"

definition queue_poll_pop :: "nat \<Rightarrow> 'p Queue \<Rightarrow> 'p RpcOut option \<times> 'p Queue" where
  "queue_poll_pop rid q = (let (r, s) = shared_poll_pop rid (q_priority q); q = q\<lparr>q_priority := s\<rparr> in
     if r \<noteq> None then (r, q)
     else let (r, s) = shared_poll_pop rid (q_control q); q = q\<lparr>q_control := s\<rparr> in
     if r \<noteq> None then (r, q)
     else let (r, s) = shared_poll_pop rid (q_non_priority q) in (r, q\<lparr>q_non_priority := s\<rparr>))"

definition queue_poll_is_empty :: "nat \<Rightarrow> 'p Queue \<Rightarrow> bool \<times> 'p Queue" where
  "queue_poll_is_empty rid q = (let (a, s) = shared_poll_is_empty rid (q_priority q);
     (b, t) = shared_poll_is_empty rid (q_control q); (c, u) = shared_poll_is_empty rid (q_non_priority q)
     in (a \<and> b \<and> c, q\<lparr>q_priority := s, q_control := t, q_non_priority := u\<rparr>))"

definition queue_drop :: "nat \<Rightarrow> 'p Queue \<Rightarrow> 'p Queue" where
  "queue_drop rid q = q\<lparr>q_priority := shared_drop rid (q_priority q), q_control := shared_drop rid (q_control q),
     q_non_priority := shared_drop rid (q_non_priority q)\<rparr>"

section \<open>Interleavings\<close>

datatype 'p queue_op = Try_push "'p RpcOut" | Poll_pop nat | Poll_is_empty nat | Remove_data "message_id list" | Drop_receiver nat

text \<open>What an operation shows: who it wakes, and what it delivers.\<close>

fun queue_step :: "'p queue_op \<Rightarrow> 'p Queue \<Rightarrow> (nat fset \<times> 'p RpcOut option) \<times> 'p Queue" where
  "queue_step (Try_push m) q = (let (ok, woken, q) = queue_try_push m q in ((woken, None), q))"
| "queue_step (Poll_pop rid) q = (let (r, q) = queue_poll_pop rid q in (({||}, r), q))"
| "queue_step (Poll_is_empty rid) q = (({||}, None), snd (queue_poll_is_empty rid q))"
| "queue_step (Remove_data mids) q = (({||}, None), snd (remove_data_messages mids q))"
| "queue_step (Drop_receiver rid) q = (({||}, None), queue_drop rid q)"

primrec queue_run :: "'p queue_op list \<Rightarrow> 'p Queue \<Rightarrow> (nat fset \<times> 'p RpcOut option) list \<times> 'p Queue" where
  "queue_run [] q = ([], q)"
| "queue_run (op # ops) q = (let (r, q') = queue_step op q; (rs, q'') = queue_run ops q' in (r # rs, q''))"

section \<open>The queues as one list\<close>

definition waiting :: "'p Queue \<Rightarrow> 'p RpcOut list" where
  "waiting q = sh_queue (q_priority q) @ sh_queue (q_control q) @ sh_queue (q_non_priority q)"

definition outq_ok :: "nat \<Rightarrow> 'p Queue \<Rightarrow> bool" where
  "outq_ok capacity q \<longleftrightarrow> sh_capacity (q_priority q) = None
     \<and> sh_capacity (q_control q) = Some CONTROL_MSGS_LIMIT \<and> length (sh_queue (q_control q)) \<le> CONTROL_MSGS_LIMIT
     \<and> sh_capacity (q_non_priority q) = Some capacity \<and> length (sh_queue (q_non_priority q)) \<le> capacity"

definition parked :: "nat \<Rightarrow> 'p Queue \<Rightarrow> bool" where
  "parked rid q \<longleftrightarrow> waiting q = [] \<and> rid |\<in>| sh_pending_pops (q_priority q) \<and> rid |\<in>| sh_pending_pops (q_control q)
     \<and> rid |\<in>| sh_pending_pops (q_non_priority q)"

lemmas shared_defs = shared_try_push_def shared_poll_pop_def shared_poll_is_empty_def shared_retain_def shared_drop_def
lemmas queue_defs = queue_try_push_def queue_poll_pop_def queue_poll_is_empty_def remove_data_messages_def queue_drop_def

lemma queue_step_ok: "outq_ok capacity q \<Longrightarrow> outq_ok capacity (snd (queue_step op q))"
  by (cases op) (auto simp: outq_ok_def queue_defs shared_defs Let_def split_beta le_diff_conv
      intro: order_trans [OF length_filter_le] split: lane.split option.split list.split)

lemma pop_waiting:
  "fst (queue_poll_pop rid q) = (case waiting q of [] \<Rightarrow> None | m # _ \<Rightarrow> Some m)"
  "waiting (snd (queue_poll_pop rid q)) = tl (waiting q)"
  by (auto simp: queue_poll_pop_def shared_poll_pop_def waiting_def Let_def split: list.split)

lemma pop_parks: "waiting q = [] \<Longrightarrow> parked rid (snd (queue_poll_pop rid q))"
  by (auto simp: queue_poll_pop_def shared_poll_pop_def waiting_def parked_def Let_def)

lemma empty_parks: "fst (queue_poll_is_empty rid q) \<Longrightarrow> parked rid (snd (queue_poll_is_empty rid q))"
  by (auto simp: queue_poll_is_empty_def shared_poll_is_empty_def waiting_def parked_def Let_def split: if_splits)

text \<open>A parked receiver stays parked unless it is dropped, or a push wakes it.\<close>

lemma parked_step:
  assumes "parked rid q" and "op \<noteq> Drop_receiver rid"
  shows "parked rid (snd (queue_step op q)) \<or> rid |\<in>| fst (fst (queue_step op q))"
  using assms
  by (cases op) (auto simp: parked_def waiting_def queue_defs shared_defs Let_def split_beta split: lane.split option.split list.split)

lemma parked_run:
  assumes "parked rid q" and "Drop_receiver rid \<notin> set ops"
  shows "parked rid (snd (queue_run ops q)) \<or> (\<exists>(woken, r) \<in> set (fst (queue_run ops q)). rid |\<in>| woken)"
  using assms
proof (induction ops arbitrary: q)
  case (Cons op ops)
  show ?case
  proof (cases "rid |\<in>| fst (fst (queue_step op q))")
    case True
    then show ?thesis by (auto simp: split_beta Let_def)
  next
    case False
    with parked_step [OF Cons.prems(1), of op] Cons.prems(2) have "parked rid (snd (queue_step op q))" by auto
    from Cons.IH [OF this] Cons.prems(2) show ?thesis by (auto simp: split_beta Let_def)
  qed
qed simp

section \<open>Properties\<close>



text \<open>The order of delivery: a pop returns subscriptions before control messages before data and gossip, each in the
  order they were pushed, and nothing is lost or delivered twice.\<close>

lemma queue_push_waiting:
  assumes "outq_ok capacity q"
  shows "\<exists>xs ys. waiting q = xs @ ys \<and> waiting (snd (snd (queue_try_push m q))) = (if fst (queue_try_push m q) then xs @ m # ys else xs @ ys)
    \<and> (\<forall>y \<in> set ys. y \<in> set (sh_queue (q_control q)) \<union> set (sh_queue (q_non_priority q)))"
proof (cases "lane_of m")
  case Priority
  then show ?thesis using assms
    by (intro exI [of _ "sh_queue (q_priority q)"] exI [of _ "sh_queue (q_control q) @ sh_queue (q_non_priority q)"])
      (simp add: queue_try_push_def shared_try_push_def waiting_def outq_ok_def)
next
  case Control
  then show ?thesis using assms
    by (intro exI [of _ "sh_queue (q_priority q) @ sh_queue (q_control q)"] exI [of _ "sh_queue (q_non_priority q)"])
      (simp add: queue_try_push_def shared_try_push_def waiting_def outq_ok_def)
next
  case NonPriority
  then show ?thesis using assms
    by (intro exI [of _ "waiting q"] exI [of _ "[]"])
      (simp add: queue_try_push_def shared_try_push_def waiting_def outq_ok_def)
qed

end
