(* ===== verification/Gossip_Behaviour.thy ===== *)
theory Gossip_Behaviour
  imports Gossip_Backoff Gossip_Queue "HOL-Library.Multiset"
begin

text \<open>
  The router of the Gossipsub fork, \<open>external/libp2p-gossipsub/src/behaviour.rs\<close>: its state, what it sends to peers, how
  the mesh of a topic is joined and left, and publishing. The features \<open>metrics\<close> and \<open>partial-messages\<close> are off and peer
  scoring is disabled, as in the node: \<open>build_behaviour\<close> never calls \<open>with_peer_score\<close>, so every \<open>below_threshold\<close> is
  false and every score is 0.

  What a handler takes from outside is its environment: the time, and the shuffles of the random generator, one for each
  place of the code that draws. Hash maps are visited in the order of their keys. A panic is recorded in
  \<open>gb_panicked\<close>.
\<close>

section \<open>Configuration\<close>

record TopicMeshConfig =
  tm_mesh_n :: nat
  tm_mesh_n_low :: nat
  tm_mesh_n_high :: nat
  tm_mesh_outbound_min :: nat

definition topic_mesh_default :: TopicMeshConfig where
  "topic_mesh_default = \<lparr>tm_mesh_n = 6, tm_mesh_n_low = 5, tm_mesh_n_high = 12, tm_mesh_outbound_min = 2\<rparr>"

text \<open>The floating-point product of the gossip factor and a number of peers is \<open>gs_gossip_share\<close>. The length of an
  encoded message and the signature of the local key are third-party code.\<close>

record 'p gs_Config =
  gs_history_length :: nat
  gs_history_gossip :: nat
  gs_retain_scores :: nat
  gs_gossip_lazy :: nat
  gs_gossip_share :: "nat \<Rightarrow> nat"
  gs_heartbeat_interval :: nat
  gs_fanout_ttl :: nat
  gs_check_explicit_peers_ticks :: nat
  gs_duplicate_cache_time :: nat
  gs_validate_messages :: bool
  gs_message_id_fn :: "'p gs_Message \<Rightarrow> message_id"
  gs_allow_self_origin :: bool
  gs_do_px :: bool
  gs_prune_peers :: nat
  gs_prune_backoff :: nat
  gs_unsubscribe_backoff :: nat
  gs_backoff_slack :: nat
  gs_flood_publish :: bool
  gs_gossip_retransimission :: nat
  gs_max_control_messages_sent :: nat
  gs_max_ihave_messages_heartbeat :: nat
  gs_iwant_followup_time :: nat
  gs_connection_handler_queue_len :: nat
  gs_idontwant_message_size_threshold :: nat
  gs_idontwant_on_publish :: bool
  gs_topic_mesh_params :: "(topic_hash, TopicMeshConfig) fmap"
  gs_default_mesh_params :: TopicMeshConfig
  gs_max_transmit_sizes :: "(topic_hash, nat) fmap"
  gs_default_max_transmit_size :: nat
  gs_raw_protobuf_len :: "'p RawMessage \<Rightarrow> nat"
  gs_sign :: "'p \<Rightarrow> u8 list \<Rightarrow> nat \<Rightarrow> topic_hash \<Rightarrow> u8 list option"

definition topic_mesh_params :: "'p gs_Config \<Rightarrow> topic_hash \<Rightarrow> TopicMeshConfig" where
  "topic_mesh_params C t = (case fmlookup (gs_topic_mesh_params C) t of None \<Rightarrow> gs_default_mesh_params C | Some m \<Rightarrow> m)"

definition mesh_n_for_topic :: "'p gs_Config \<Rightarrow> topic_hash \<Rightarrow> nat" where
  "mesh_n_for_topic C t = tm_mesh_n (topic_mesh_params C t)"

definition mesh_n_low_for_topic :: "'p gs_Config \<Rightarrow> topic_hash \<Rightarrow> nat" where
  "mesh_n_low_for_topic C t = tm_mesh_n_low (topic_mesh_params C t)"

definition mesh_n_high_for_topic :: "'p gs_Config \<Rightarrow> topic_hash \<Rightarrow> nat" where
  "mesh_n_high_for_topic C t = tm_mesh_n_high (topic_mesh_params C t)"

definition mesh_outbound_min_for_topic :: "'p gs_Config \<Rightarrow> topic_hash \<Rightarrow> nat" where
  "mesh_outbound_min_for_topic C t = tm_mesh_outbound_min (topic_mesh_params C t)"

definition max_transmit_size_for_topic :: "'p gs_Config \<Rightarrow> topic_hash \<Rightarrow> nat" where
  "max_transmit_size_for_topic C t = (case fmlookup (gs_max_transmit_sizes C) t of None \<Rightarrow> gs_default_max_transmit_size C | Some n \<Rightarrow> n)"

datatype ConfigBuilderError = MaxTransmissionSizeTooSmall | HistoryLengthTooSmall | MeshParametersInvalid
  | MeshOutboundInvalid | UnsubscribeBackoffIsZero | InvalidProtocol

definition mesh_params_error :: "'p gs_Config \<Rightarrow> topic_hash \<Rightarrow> ConfigBuilderError option" where
  "mesh_params_error C t =
     (if max_transmit_size_for_topic C t < 100 then Some MaxTransmissionSizeTooSmall
      else if \<not> (mesh_outbound_min_for_topic C t \<le> mesh_n_low_for_topic C t
        \<and> mesh_n_low_for_topic C t \<le> mesh_n_for_topic C t \<and> mesh_n_for_topic C t \<le> mesh_n_high_for_topic C t)
      then Some MeshParametersInvalid
      else if mesh_n_for_topic C t < mesh_outbound_min_for_topic C t * 2 then Some MeshOutboundInvalid else None)"

definition MILLISECOND :: nat where "MILLISECOND = 1000000"

definition gs_build :: "bool \<Rightarrow> 'p gs_Config \<Rightarrow> ConfigBuilderError + 'p gs_Config" where
  "gs_build invalid_protocol C =
     (case List.map_filter (mesh_params_error C) (sorted_list_of_fset (fmdom (gs_max_transmit_sizes C))) of
        e # _ \<Rightarrow> Inl e
      | [] \<Rightarrow> if gs_history_length C < gs_history_gossip C then Inl HistoryLengthTooSmall
          else if gs_unsubscribe_backoff C div MILLISECOND = 0 then Inl UnsubscribeBackoffIsZero
          else if invalid_protocol then Inl InvalidProtocol else Inr C)"

definition SECOND :: nat where "SECOND = 1000000000"

text \<open>The defaults of the builder. A quarter of a number of peers below \<open>2 ^ 53\<close>, as a floating-point product cut to an
  integer, is its quotient by 4.\<close>

definition gs_default :: "('p gs_Message \<Rightarrow> message_id) \<Rightarrow> ('p RawMessage \<Rightarrow> nat) \<Rightarrow> ('p \<Rightarrow> u8 list \<Rightarrow> nat \<Rightarrow> topic_hash \<Rightarrow> u8 list option)
    \<Rightarrow> 'p gs_Config" where
  "gs_default id_fn raw_len sign = \<lparr>gs_history_length = 5, gs_history_gossip = 3, gs_retain_scores = 4, gs_gossip_lazy = 6,
     gs_gossip_share = (\<lambda>m. m div 4), gs_heartbeat_interval = SECOND, gs_fanout_ttl = 60 * SECOND, gs_check_explicit_peers_ticks = 300,
     gs_duplicate_cache_time = 60 * SECOND, gs_validate_messages = False, gs_message_id_fn = id_fn, gs_allow_self_origin = False,
     gs_do_px = False, gs_prune_peers = 0, gs_prune_backoff = 60 * SECOND, gs_unsubscribe_backoff = 10 * SECOND, gs_backoff_slack = 1,
     gs_flood_publish = True, gs_gossip_retransimission = 3, gs_max_control_messages_sent = 5000, gs_max_ihave_messages_heartbeat = 10,
     gs_iwant_followup_time = 3 * SECOND, gs_connection_handler_queue_len = 5000, gs_idontwant_message_size_threshold = 1000,
     gs_idontwant_on_publish = False, gs_topic_mesh_params = fmempty, gs_default_mesh_params = topic_mesh_default,
     gs_max_transmit_sizes = fmempty, gs_default_max_transmit_size = 65536, gs_raw_protobuf_len = raw_len, gs_sign = sign\<rparr>"

section \<open>State\<close>

definition IDONTWANT_CAP :: nat where "IDONTWANT_CAP = 10000"

definition IDONTWANT_TIMEOUT :: nat where "IDONTWANT_TIMEOUT = 3 * SECOND"

definition MAX_REMOTE_PRUNE_BACKOFF_SECONDS :: nat where "MAX_REMOTE_PRUNE_BACKOFF_SECONDS = 3600"

record 'p PeerDetails =
  pd_kind :: PeerKind
  pd_extensions :: "bool option option"
  pd_outbound :: bool
  pd_connections :: "nat list"
  pd_topics :: "topic_hash fset"
  pd_dont_send :: "(message_id \<times> nat) list"
  pd_messages :: "'p Queue"

datatype 'p gs_Event =
    Event_Message 'p message_id "'p gs_Message"
  | Event_Subscribed 'p topic_hash
  | Event_Unsubscribed 'p topic_hash
  | Event_NotSupported 'p
  | Event_SlowPeer 'p FailedMessages
  | Event_Dial 'p
  | Event_JoinedMesh 'p nat
  | Event_LeftMesh 'p nat

datatype 'p PublishConfig = Signing 'p "u8 list option" nat | Author 'p | RandomAuthor | Anonymous

definition get_own_id :: "'p PublishConfig \<Rightarrow> 'p option" where
  "get_own_id pc = (case pc of Signing author _ _ \<Rightarrow> Some author | Author author \<Rightarrow> Some author | _ \<Rightarrow> None)"

record 'p gs_Behaviour =
  gb_events :: "'p gs_Event list"
  gb_publish_config :: "'p PublishConfig"
  gb_duplicate_cache :: "message_id DuplicateCache"
  gb_connected_peers :: "('p, 'p PeerDetails) fmap"
  gb_explicit_peers :: "'p fset"
  gb_blacklisted_peers :: "'p fset"
  gb_mesh :: "(topic_hash, 'p fset) fmap"
  gb_fanout :: "(topic_hash, 'p fset) fmap"
  gb_fanout_last_pub :: "(topic_hash, nat) fmap"
  gb_backoffs :: "'p BackoffStorage"
  gb_mcache :: "'p MessageCache"
  gb_heartbeat_ticks :: nat
  gb_px_peers :: "'p fset"
  gb_count_received_ihave :: "('p, nat) fmap"
  gb_count_sent_iwant :: "('p, nat) fmap"
  gb_failed_messages :: "('p, FailedMessages) fmap"
  gb_gossip_promises :: "'p GossipPromises"
  gb_panicked :: bool

definition gs_new :: "'p PublishConfig \<Rightarrow> 'p gs_Config \<Rightarrow> 'p gs_Behaviour" where
  "gs_new pc C = \<lparr>gb_events = [], gb_publish_config = pc, gb_duplicate_cache = time_cache_new (gs_duplicate_cache_time C),
     gb_connected_peers = fmempty, gb_explicit_peers = {||}, gb_blacklisted_peers = {||}, gb_mesh = fmempty, gb_fanout = fmempty,
     gb_fanout_last_pub = fmempty, gb_backoffs = backoff_new (gs_prune_backoff C) (gs_heartbeat_interval C) (gs_backoff_slack C),
     gb_mcache = mcache_new (gs_history_gossip C) (gs_history_length C), gb_heartbeat_ticks = 0, gb_px_peers = {||},
     gb_count_received_ihave = fmempty, gb_count_sent_iwant = fmempty, gb_failed_messages = fmempty, gb_gossip_promises = fmempty,
     gb_panicked = False\<rparr>"

text \<open>The places where a handler draws random numbers.\<close>

datatype 'p draw = Draw_join | Draw_px topic_hash 'p | Draw_px_connect topic_hash | Draw_extra | Draw_low topic_hash
  | Draw_excess topic_hash | Draw_retain topic_hash | Draw_outbound topic_hash | Draw_fanout topic_hash | Draw_gossip bool topic_hash
  | Draw_iwant | Draw_ids bool topic_hash | Draw_peer_ids bool topic_hash 'p

record 'p gs_env =
  env_imax :: nat
  env_now :: nat
  env_shuffle :: "'p draw \<Rightarrow> 'p list \<Rightarrow> 'p list"
  env_shuffle_ids :: "'p draw \<Rightarrow> message_id list \<Rightarrow> message_id list"

text \<open>What the code relies on: a shuffle rearranges.\<close>

definition fair :: "'p gs_env \<Rightarrow> bool" where
  "fair E \<longleftrightarrow> (\<forall>d xs. mset (env_shuffle E d xs) = mset xs) \<and> (\<forall>d xs. mset (env_shuffle_ids E d xs) = mset xs)"

section \<open>Sending and events\<close>

definition gs_push_event :: "'p gs_Event \<Rightarrow> 'p gs_Behaviour \<Rightarrow> 'p gs_Behaviour" where
  "gs_push_event e B = B\<lparr>gb_events := gb_events B @ [e]\<rparr>"

definition set_peer :: "'p \<Rightarrow> 'p PeerDetails \<Rightarrow> 'p gs_Behaviour \<Rightarrow> 'p gs_Behaviour" where
  "set_peer p pd B = B\<lparr>gb_connected_peers := fmupd p pd (gb_connected_peers B)\<rparr>"

definition is_idontwant :: "'p RpcOut \<Rightarrow> bool" where
  "is_idontwant rpc = (case rpc of IDontWantOut _ \<Rightarrow> True | _ \<Rightarrow> False)"

definition fail_message :: "bool \<Rightarrow> 'p \<Rightarrow> 'p gs_Behaviour \<Rightarrow> 'p gs_Behaviour" where
  "fail_message priority p B =
     (let f = (case fmlookup (gb_failed_messages B) p of None \<Rightarrow> \<lparr>fm_priority = 0, fm_non_priority = 0\<rparr> | Some f \<Rightarrow> f)
      in B\<lparr>gb_failed_messages := fmupd p (if priority then f\<lparr>fm_priority := fm_priority f + 1\<rparr>
             else f\<lparr>fm_non_priority := fm_non_priority f + 1\<rparr>) (gb_failed_messages B)\<rparr>)"

definition send_message :: "'p \<Rightarrow> 'p RpcOut \<Rightarrow> 'p gs_Behaviour \<Rightarrow> bool \<times> 'p gs_Behaviour" where
  "send_message p rpc B =
     (case fmlookup (gb_connected_peers B) p of None \<Rightarrow> (False, B)
      | Some peer \<Rightarrow>
          if pd_kind peer < Gossipsubv1_2 \<and> is_idontwant rpc then (False, B)
          else let (ok, woken, q) = queue_try_push rpc (pd_messages peer); B = set_peer p (peer\<lparr>pd_messages := q\<rparr>) B
               in if ok then (True, B) else (False, fail_message (rpc_priority rpc) p B))"

definition send_all :: "('p \<times> 'p RpcOut) list \<Rightarrow> 'p gs_Behaviour \<Rightarrow> 'p gs_Behaviour" where
  "send_all xs B = fold (\<lambda>(p, rpc) B. snd (send_message p rpc B)) xs B"

definition in_mesh :: "'p gs_Behaviour \<Rightarrow> topic_hash \<Rightarrow> 'p \<Rightarrow> bool" where
  "in_mesh B t p = (case fmlookup (gb_mesh B) t of None \<Rightarrow> False | Some ps \<Rightarrow> p |\<in>| ps)"

text \<open>Both tell the handler of the first connection; \<open>expect\<close> panics if there is none.\<close>

definition peer_added_to_mesh :: "'p \<Rightarrow> topic_hash list \<Rightarrow> 'p gs_Behaviour \<Rightarrow> 'p gs_Behaviour" where
  "peer_added_to_mesh p new_topics B =
     (case fmlookup (gb_connected_peers B) p of None \<Rightarrow> B
      | Some peer \<Rightarrow> (case pd_connections peer of [] \<Rightarrow> B\<lparr>gb_panicked := True\<rparr>
          | c # _ \<Rightarrow> if fBex (pd_topics peer) (\<lambda>t. t \<notin> set new_topics \<and> in_mesh B t p) then B
                     else gs_push_event (Event_JoinedMesh p c) B))"

definition peer_removed_from_mesh :: "'p \<Rightarrow> topic_hash \<Rightarrow> 'p gs_Behaviour \<Rightarrow> 'p gs_Behaviour" where
  "peer_removed_from_mesh p old_topic B =
     (case fmlookup (gb_connected_peers B) p of None \<Rightarrow> B
      | Some peer \<Rightarrow> (case pd_connections peer of [] \<Rightarrow> B\<lparr>gb_panicked := True\<rparr>
          | c # _ \<Rightarrow> if fBex (pd_topics peer) (\<lambda>t. t \<noteq> old_topic \<and> in_mesh B t p) then B
                     else gs_push_event (Event_LeftMesh p c) B))"

definition get_random_peers_dynamic :: "'p::linorder gs_env \<Rightarrow> 'p draw \<Rightarrow> ('p, 'p PeerDetails) fmap \<Rightarrow> topic_hash
    \<Rightarrow> (nat \<Rightarrow> nat) \<Rightarrow> ('p \<Rightarrow> bool) \<Rightarrow> 'p fset" where
  "get_random_peers_dynamic E d connected t n_map f =
     (let gossip_peers = filter (\<lambda>p. case fmlookup connected p of None \<Rightarrow> False
            | Some peer \<Rightarrow> t |\<in>| pd_topics peer \<and> f p \<and> is_gossipsub (pd_kind peer)) (sorted_list_of_fset (fmdom connected));
          n = n_map (length gossip_peers)
      in if length gossip_peers \<le> n then fset_of_list gossip_peers
         else fset_of_list (take n (env_shuffle E d gossip_peers)))"

definition get_random_peers :: "'p::linorder gs_env \<Rightarrow> 'p draw \<Rightarrow> ('p, 'p PeerDetails) fmap \<Rightarrow> topic_hash
    \<Rightarrow> nat \<Rightarrow> ('p \<Rightarrow> bool) \<Rightarrow> 'p fset" where
  "get_random_peers E d connected t n f = get_random_peers_dynamic E d connected t (\<lambda>_. n) f"

section \<open>Joining and leaving a mesh\<close>

definition make_prune :: "'p::linorder gs_env \<Rightarrow> 'p gs_Config \<Rightarrow> topic_hash \<Rightarrow> 'p \<Rightarrow> bool \<Rightarrow> bool \<Rightarrow> 'p gs_Behaviour
    \<Rightarrow> 'p Prune \<times> 'p gs_Behaviour" where
  "make_prune E C t p do_px on_unsubscribe B =
     (if map_option pd_kind (fmlookup (gb_connected_peers B) p) = Some Gossipsub
      then (\<lparr>pr_topic_hash = t, pr_peers = [], pr_backoff = None\<rparr>, B)
      else let peers = (if do_px then map Some (sorted_list_of_fset (get_random_peers E (Draw_px t p) (gb_connected_peers B) t
                   (gs_prune_peers C) (\<lambda>q. q \<noteq> p))) else []);
               backoff = (if on_unsubscribe then gs_unsubscribe_backoff C else gs_prune_backoff C)
           in (\<lparr>pr_topic_hash = t, pr_peers = peers, pr_backoff = Some (backoff div SECOND)\<rparr>,
               B\<lparr>gb_backoffs := update_backoff (env_imax E) (env_now E) t p backoff (gb_backoffs B)\<rparr>))"

definition join_fanout :: "'p::linorder gs_Config \<Rightarrow> topic_hash \<Rightarrow> 'p gs_Behaviour \<Rightarrow> 'p fset \<times> 'p gs_Behaviour" where
  "join_fanout C t B =
     (case fmlookup (gb_fanout B) t of None \<Rightarrow> ({||}, B)
      | Some peers \<Rightarrow>
          let kept = ffilter (\<lambda>p. p |\<notin>| gb_explicit_peers B \<and> \<not> is_backoff_with_slack t p (gb_backoffs B)) peers;
              added = fset_of_list (take (min (fcard kept) (mesh_n_for_topic C t)) (sorted_list_of_fset kept))
          in (added, B\<lparr>gb_mesh := fmupd t added (gb_mesh B), gb_fanout := fmdrop t (gb_fanout B),
               gb_fanout_last_pub := fmdrop t (gb_fanout_last_pub B)\<rparr>))"

definition mesh_peers :: "'p gs_Behaviour \<Rightarrow> topic_hash \<Rightarrow> 'p fset" where
  "mesh_peers B t = (case fmlookup (gb_mesh B) t of None \<Rightarrow> {||} | Some ps \<Rightarrow> ps)"

definition join_random :: "'p::linorder gs_env \<Rightarrow> 'p gs_Config \<Rightarrow> topic_hash \<Rightarrow> 'p fset \<Rightarrow> 'p gs_Behaviour \<Rightarrow> 'p fset \<times> 'p gs_Behaviour" where
  "join_random E C t added B =
     (if fcard added < mesh_n_for_topic C t
      then let random_added = get_random_peers E Draw_join (gb_connected_peers B) t (mesh_n_for_topic C t - fcard added)
             (\<lambda>p. p |\<notin>| added \<and> p |\<notin>| gb_explicit_peers B \<and> \<not> is_backoff_with_slack t p (gb_backoffs B))
           in (added |\<union>| random_added, B\<lparr>gb_mesh := fmupd t (mesh_peers B t |\<union>| random_added) (gb_mesh B)\<rparr>)
      else (added, B))"

definition graft_to :: "topic_hash \<Rightarrow> 'p \<Rightarrow> 'p gs_Behaviour \<Rightarrow> 'p gs_Behaviour" where
  "graft_to t p B = peer_added_to_mesh p [t] (snd (send_message p (GraftOut t) B))"

definition gs_join :: "'p::linorder gs_env \<Rightarrow> 'p gs_Config \<Rightarrow> topic_hash \<Rightarrow> 'p gs_Behaviour \<Rightarrow> 'p gs_Behaviour" where
  "gs_join E C t B =
     (let B = B\<lparr>gb_mesh := fmupd t (mesh_peers B t) (gb_mesh B)\<rparr>;
          (added, B) = join_fanout C t B;
          (added, B) = join_random E C t added B
      in fold (graft_to t) (sorted_list_of_fset added) B)"

definition prune_to :: "'p::linorder gs_env \<Rightarrow> 'p gs_Config \<Rightarrow> topic_hash \<Rightarrow> 'p \<Rightarrow> bool \<Rightarrow> bool \<Rightarrow> 'p gs_Behaviour \<Rightarrow> 'p gs_Behaviour" where
  "prune_to E C t p do_px on_unsubscribe B =
     (let (prune, B) = make_prune E C t p do_px on_unsubscribe B
      in peer_removed_from_mesh p t (snd (send_message p (PruneOut prune) B)))"

definition leave :: "'p::linorder gs_env \<Rightarrow> 'p gs_Config \<Rightarrow> topic_hash \<Rightarrow> 'p gs_Behaviour \<Rightarrow> 'p gs_Behaviour" where
  "leave E C t B =
     (case fmlookup (gb_mesh B) t of None \<Rightarrow> B
      | Some peers \<Rightarrow> fold (\<lambda>p. prune_to E C t p (gs_do_px C) True) (sorted_list_of_fset peers)
          (B\<lparr>gb_mesh := fmdrop t (gb_mesh B)\<rparr>))"

text \<open>The subscription filter of the node allows all topics.\<close>

definition can_subscribe :: "topic_hash \<Rightarrow> bool" where
  "can_subscribe t = True"

datatype SubscriptionError = NotAllowed

definition subscribe :: "'p::linorder gs_env \<Rightarrow> 'p gs_Config \<Rightarrow> topic_hash \<Rightarrow> 'p gs_Behaviour
    \<Rightarrow> (SubscriptionError + bool) \<times> 'p gs_Behaviour" where
  "subscribe E C t B =
     (if \<not> can_subscribe t then (Inl NotAllowed, B)
      else if t |\<in>| fmdom (gb_mesh B) then (Inr False, B)
      else (Inr True, gs_join E C t (send_all (map (\<lambda>p. (p, SubscribeOut t)) (sorted_list_of_fset (fmdom (gb_connected_peers B)))) B)))"

definition unsubscribe :: "'p::linorder gs_env \<Rightarrow> 'p gs_Config \<Rightarrow> topic_hash \<Rightarrow> 'p gs_Behaviour \<Rightarrow> bool \<times> 'p gs_Behaviour" where
  "unsubscribe E C t B =
     (if t |\<notin>| fmdom (gb_mesh B) then (False, B)
      else (True, leave E C t (send_all (map (\<lambda>p. (p, UnsubscribeOut t)) (sorted_list_of_fset (fmdom (gb_connected_peers B)))) B)))"

section \<open>Publishing\<close>

datatype PublishError = Duplicate | SigningError | NoPeersSubscribedToTopic | MessageTooLarge | AllQueuesFull nat

text \<open>The sequence number is a \<open>u64\<close>; running out of them panics. A random author and sequence number are arguments.\<close>

definition build_raw_message :: "'p gs_Config \<Rightarrow> 'p \<Rightarrow> nat \<Rightarrow> topic_hash \<Rightarrow> u8 list \<Rightarrow> 'p gs_Behaviour
    \<Rightarrow> (PublishError + 'p RawMessage) \<times> 'p gs_Behaviour" where
  "build_raw_message C random_author random_seq t data B =
     (let raw = \<lambda>source seq signature key. \<lparr>rm_source = source, rm_data = data, rm_sequence_number = seq, rm_topic = t,
            rm_signature = signature, rm_key = key, rm_validated = True\<rparr>
      in case gb_publish_config B of
           Signing author inline_key last_seq_no \<Rightarrow>
             let seq = last_seq_no + 1 in
             if 2 ^ 64 \<le> seq then (Inl SigningError, B\<lparr>gb_panicked := True\<rparr>)
             else let B = B\<lparr>gb_publish_config := Signing author inline_key seq\<rparr> in
                  (case gs_sign C author data seq t of None \<Rightarrow> (Inl SigningError, B)
                   | Some signature \<Rightarrow> (Inr (raw (Some author) (Some seq) (Some signature) inline_key), B))
         | Author p \<Rightarrow> (Inr (raw (Some p) (Some random_seq) None None), B)
         | RandomAuthor \<Rightarrow> (Inr (raw (Some random_author) (Some random_seq) None None), B)
         | Anonymous \<Rightarrow> (Inr (raw None None None None), B))"

definition publish_peers :: "topic_hash \<Rightarrow> 'p gs_Behaviour \<Rightarrow> 'p fset" where
  "publish_peers t B = ffilter (\<lambda>p. case fmlookup (gb_connected_peers B) p of None \<Rightarrow> False | Some peer \<Rightarrow> t |\<in>| pd_topics peer)
     (fmdom (gb_connected_peers B))"

definition always_recipients :: "'p fset \<Rightarrow> 'p gs_Behaviour \<Rightarrow> 'p fset" where
  "always_recipients candidates B = ffilter (\<lambda>p. p |\<in>| gb_explicit_peers B
     \<or> (case fmlookup (gb_connected_peers B) p of None \<Rightarrow> False | Some peer \<Rightarrow> pd_kind peer = Floodsub)) candidates"

definition sample :: "'p::linorder gs_env \<Rightarrow> 'p fset \<Rightarrow> nat \<Rightarrow> 'p fset" where
  "sample E ps n = fset_of_list (take n (env_shuffle E Draw_extra (sorted_list_of_fset ps)))"

definition filter_publish_candidates :: "'p::linorder gs_env \<Rightarrow> 'p gs_Config \<Rightarrow> topic_hash \<Rightarrow> 'p fset \<Rightarrow> 'p gs_Behaviour
    \<Rightarrow> 'p fset \<times> 'p gs_Behaviour" where
  "filter_publish_candidates E C t candidates B =
     (if gs_flood_publish C then (candidates, B)
      else let mesh_n = mesh_n_for_topic C t; recipients = always_recipients candidates B in
        (case fmlookup (gb_mesh B) t of
           Some mesh \<Rightarrow>
             let meshed = ffilter (\<lambda>p. p |\<in>| mesh) candidates; needed = mesh_n - fcard meshed;
                 extras = (if 0 < needed then sample E (ffilter (\<lambda>p. p |\<notin>| meshed \<and> p |\<notin>| recipients) candidates) needed else {||})
             in (recipients |\<union>| extras |\<union>| meshed, B)
         | None \<Rightarrow>
             let fanned = (case fmlookup (gb_fanout B) t of None \<Rightarrow> {||} | Some f \<Rightarrow> ffilter (\<lambda>p. p |\<in>| candidates) f);
                 needed = mesh_n - fcard fanned; recipients = recipients |\<union>| fanned;
                 new_peers = sample E (ffilter (\<lambda>p. p |\<notin>| recipients) candidates) needed;
                 B = B\<lparr>gb_fanout_last_pub := fmupd t (env_now E) (gb_fanout_last_pub B)\<rparr>
             in if 0 < needed then (recipients |\<union>| new_peers, B\<lparr>gb_fanout := fmupd t new_peers (gb_fanout B)\<rparr>) else (recipients, B)))"

definition publish_to :: "'p gs_Config \<Rightarrow> message_id \<Rightarrow> 'p RawMessage \<Rightarrow> 'p \<Rightarrow> bool \<times> 'p gs_Behaviour \<Rightarrow> bool \<times> 'p gs_Behaviour" where
  "publish_to C mid raw p =
     (\<lambda>(sent, B). let B = (if gs_idontwant_message_size_threshold C < gs_raw_protobuf_len C raw \<and> gs_idontwant_on_publish C
                            then snd (send_message p (IDontWantOut [mid]) B) else B);
                      (ok, B) = send_message p (Publish mid raw) B
                  in (sent \<or> ok, B))"

definition message_of :: "'p RawMessage \<Rightarrow> 'p gs_Message" where
  "message_of raw = \<lparr>ms_source = rm_source raw, ms_data = rm_data raw, ms_sequence_number = rm_sequence_number raw, ms_topic = rm_topic raw\<rparr>"

definition publish :: "'p::linorder gs_env \<Rightarrow> 'p gs_Config \<Rightarrow> 'p \<Rightarrow> nat \<Rightarrow> topic_hash \<Rightarrow> u8 list \<Rightarrow> 'p gs_Behaviour
    \<Rightarrow> (PublishError + message_id) \<times> 'p gs_Behaviour" where
  "publish E C random_author random_seq t data B =
     (if max_transmit_size_for_topic C t < length data then (Inl MessageTooLarge, B)
      else case build_raw_message C random_author random_seq t data B of
        (Inl e, B) \<Rightarrow> (Inl e, B)
      | (Inr raw, B) \<Rightarrow>
          let mid = gs_message_id_fn C (message_of raw) in
          if dc_contains mid (gb_duplicate_cache B) then (Inl Duplicate, B)
          else let (recipients, B) = filter_publish_candidates E C t (publish_peers t B) B in
          if recipients = {||} then (Inl NoPeersSubscribedToTopic, B)
          else let B = B\<lparr>gb_duplicate_cache := snd (dc_insert (env_imax E) (env_now E) mid (gb_duplicate_cache B)),
                         gb_mcache := snd (mc_put mid raw (gb_mcache B)),
                         gb_gossip_promises := message_delivered mid (gb_gossip_promises B)\<rparr>;
                   (sent, B) = fold (publish_to C mid raw) (sorted_list_of_fset recipients) (False, B)
               in if sent then (Inr mid, B) else (Inl (AllQueuesFull (fcard recipients)), B))"

section \<open>Forwarding\<close>

definition forward_recipients :: "'p RawMessage \<Rightarrow> 'p option \<Rightarrow> 'p fset \<Rightarrow> 'p gs_Behaviour \<Rightarrow> 'p fset" where
  "forward_recipients m source originating B =
     (let other = \<lambda>p. Some p \<noteq> source \<and> p |\<notin>| originating \<and> Some p \<noteq> rm_source m
      in ffilter (\<lambda>p. other p \<and> (case fmlookup (gb_connected_peers B) p of None \<Rightarrow> False
            | Some peer \<Rightarrow> rm_topic m |\<in>| pd_topics peer \<and> (p |\<in>| gb_explicit_peers B \<or> pd_kind peer = Floodsub)))
           (fmdom (gb_connected_peers B))
         |\<union>| ffilter other (mesh_peers B (rm_topic m)))"

definition forward_to :: "message_id \<Rightarrow> 'p RawMessage \<Rightarrow> 'p \<Rightarrow> 'p gs_Behaviour \<Rightarrow> 'p gs_Behaviour" where
  "forward_to mid m p B =
     (case fmlookup (gb_connected_peers B) p of None \<Rightarrow> B
      | Some peer \<Rightarrow> if mid \<in> fst ` set (pd_dont_send peer) then B else snd (send_message p (Publish mid m) B))"

definition forward_msg :: "message_id \<Rightarrow> 'p::linorder RawMessage \<Rightarrow> 'p option \<Rightarrow> 'p fset \<Rightarrow> 'p gs_Behaviour \<Rightarrow> bool \<times> 'p gs_Behaviour" where
  "forward_msg mid m source originating B =
     (let recipients = forward_recipients m source originating B
      in if recipients = {||} then (False, B) else (True, fold (forward_to mid m) (sorted_list_of_fset recipients) B))"

definition report_message_validation_result :: "message_id \<Rightarrow> 'p::linorder \<Rightarrow> MessageAcceptance \<Rightarrow> 'p gs_Behaviour \<Rightarrow> bool \<times> 'p gs_Behaviour" where
  "report_message_validation_result mid source acceptance B =
     (case acceptance of
        Acceptance_Accept \<Rightarrow>
          (case mc_validate mid (gb_mcache B) of
             (None, mc) \<Rightarrow> (False, B\<lparr>gb_mcache := mc\<rparr>)
           | (Some (raw, originating), mc) \<Rightarrow> (True, snd (forward_msg mid raw (Some source) originating (B\<lparr>gb_mcache := mc\<rparr>))))
      | _ \<Rightarrow> (case mc_remove mid (gb_mcache B) of (r, mc) \<Rightarrow> (r \<noteq> None, B\<lparr>gb_mcache := mc\<rparr>)))"

section \<open>What sending leaves alone\<close>

definition topics_at :: "'p gs_Behaviour \<Rightarrow> 'p \<Rightarrow> topic_hash fset" where
  "topics_at B p = (case fmlookup (gb_connected_peers B) p of None \<Rightarrow> {||} | Some peer \<Rightarrow> pd_topics peer)"

definition conns_at :: "'p gs_Behaviour \<Rightarrow> 'p \<Rightarrow> nat list" where
  "conns_at B p = (case fmlookup (gb_connected_peers B) p of None \<Rightarrow> [] | Some peer \<Rightarrow> pd_connections peer)"

definition waiting_at :: "'p gs_Behaviour \<Rightarrow> 'p \<Rightarrow> 'p RpcOut set" where
  "waiting_at B p = (case fmlookup (gb_connected_peers B) p of None \<Rightarrow> {} | Some peer \<Rightarrow> set (waiting (pd_messages peer)))"

definition delivered :: "'p gs_Behaviour \<Rightarrow> ('p \<times> message_id \<times> 'p gs_Message) list" where
  "delivered B = List.map_filter (\<lambda>e. case e of Event_Message p mid m \<Rightarrow> Some (p, mid, m) | _ \<Rightarrow> None) (gb_events B)"

text \<open>Every known peer has a connection.\<close>

definition connected_ok :: "'p gs_Behaviour \<Rightarrow> bool" where
  "connected_ok B \<longleftrightarrow> (\<forall>p \<in> fset (fmdom (gb_connected_peers B)). conns_at B p \<noteq> [])"

text \<open>From \<open>B\<close> to \<open>B'\<close> only messages of \<open>R\<close> were queued, back-offs recorded, handlers and the application told of
  something other than a message, and there was no panic as long as known peers are connected.\<close>

definition sends :: "'p RpcOut set \<Rightarrow> 'p gs_Behaviour \<Rightarrow> 'p gs_Behaviour \<Rightarrow> bool" where
  "sends R B B' \<longleftrightarrow>
     B' = B\<lparr>gb_events := gb_events B', gb_connected_peers := gb_connected_peers B', gb_backoffs := gb_backoffs B',
            gb_failed_messages := gb_failed_messages B', gb_panicked := gb_panicked B'\<rparr>
     \<and> fmmap (\<lambda>peer. peer\<lparr>pd_messages := queue_new 0\<rparr>) (gb_connected_peers B') = fmmap (\<lambda>peer. peer\<lparr>pd_messages := queue_new 0\<rparr>) (gb_connected_peers B)
     \<and> (\<forall>p. waiting_at B' p \<subseteq> waiting_at B p \<union> R) \<and> delivered B' = delivered B
     \<and> (connected_ok B \<longrightarrow> gb_panicked B' = gb_panicked B)"

lemma sends_refl [simp, intro]: "sends R B B"
  by (simp add: sends_def)

lemma unqueued_lookup:
  assumes "fmmap (\<lambda>peer. peer\<lparr>pd_messages := queue_new 0\<rparr>) m' = fmmap (\<lambda>peer. peer\<lparr>pd_messages := queue_new 0\<rparr>) m"
  shows "fmlookup m p = None \<Longrightarrow> fmlookup m' p = None"
    and "fmlookup m p = Some pd \<Longrightarrow> \<exists>q. fmlookup m' p = Some (pd\<lparr>pd_messages := q\<rparr>)"
proof -
  have eq: "map_option (\<lambda>peer. peer\<lparr>pd_messages := queue_new 0\<rparr>) (fmlookup m' p) = map_option (\<lambda>peer. peer\<lparr>pd_messages := queue_new 0\<rparr>) (fmlookup m p)"
    using arg_cong [OF assms, of "\<lambda>m. fmlookup m p"] by simp
  show "fmlookup m' p = None" if "fmlookup m p = None" using eq that by simp
  show "\<exists>q. fmlookup m' p = Some (pd\<lparr>pd_messages := q\<rparr>)" if "fmlookup m p = Some pd"
  proof -
    from eq that obtain pd' where l: "fmlookup m' p = Some pd'"
      and e: "pd'\<lparr>pd_messages := queue_new 0\<rparr> = pd\<lparr>pd_messages := queue_new 0\<rparr>" by auto
    from arg_cong [OF e, of "\<lambda>pd. pd\<lparr>pd_messages := pd_messages pd'\<rparr>"] l show ?thesis by auto
  qed
qed

lemma sends_lookup:
  assumes "sends R B B'"
  shows "fmlookup (gb_connected_peers B) p = None \<Longrightarrow> fmlookup (gb_connected_peers B') p = None"
    and "fmlookup (gb_connected_peers B) p = Some pd \<Longrightarrow> \<exists>q. fmlookup (gb_connected_peers B') p = Some (pd\<lparr>pd_messages := q\<rparr>)"
  using assms unqueued_lookup unfolding sends_def by metis+

lemma sends_fields:
  assumes "sends R B B'"
  shows "gb_publish_config B' = gb_publish_config B" and "gb_duplicate_cache B' = gb_duplicate_cache B"
    and "gb_explicit_peers B' = gb_explicit_peers B" and "gb_blacklisted_peers B' = gb_blacklisted_peers B"
    and "gb_mesh B' = gb_mesh B" and "gb_fanout B' = gb_fanout B" and "gb_fanout_last_pub B' = gb_fanout_last_pub B"
    and "gb_mcache B' = gb_mcache B" and "gb_heartbeat_ticks B' = gb_heartbeat_ticks B" and "gb_px_peers B' = gb_px_peers B"
    and "gb_count_received_ihave B' = gb_count_received_ihave B" and "gb_count_sent_iwant B' = gb_count_sent_iwant B"
    and "gb_gossip_promises B' = gb_gossip_promises B"
proof -
  have "B' = B\<lparr>gb_events := gb_events B', gb_connected_peers := gb_connected_peers B', gb_backoffs := gb_backoffs B',
            gb_failed_messages := gb_failed_messages B', gb_panicked := gb_panicked B'\<rparr>" using assms by (simp add: sends_def)
  note arg_cong [OF this]
  from this [of gb_publish_config] this [of gb_duplicate_cache] this [of gb_explicit_peers] this [of gb_blacklisted_peers]
    this [of gb_mesh] this [of gb_fanout] this [of gb_fanout_last_pub] this [of gb_mcache] this [of gb_heartbeat_ticks]
    this [of gb_px_peers] this [of gb_count_received_ihave] this [of gb_count_sent_iwant] this [of gb_gossip_promises]
  show "gb_publish_config B' = gb_publish_config B" and "gb_duplicate_cache B' = gb_duplicate_cache B"
    and "gb_explicit_peers B' = gb_explicit_peers B" and "gb_blacklisted_peers B' = gb_blacklisted_peers B"
    and "gb_mesh B' = gb_mesh B" and "gb_fanout B' = gb_fanout B" and "gb_fanout_last_pub B' = gb_fanout_last_pub B"
    and "gb_mcache B' = gb_mcache B" and "gb_heartbeat_ticks B' = gb_heartbeat_ticks B" and "gb_px_peers B' = gb_px_peers B"
    and "gb_count_received_ihave B' = gb_count_received_ihave B" and "gb_count_sent_iwant B' = gb_count_sent_iwant B"
    and "gb_gossip_promises B' = gb_gossip_promises B" by simp_all
qed

lemma sends_views:
  assumes "sends R B B'"
  shows "topics_at B' = topics_at B" and "conns_at B' = conns_at B" and "fmdom (gb_connected_peers B') = fmdom (gb_connected_peers B)"
    and "in_mesh B' = in_mesh B" and "mesh_peers B' = mesh_peers B" and "connected_ok B' = connected_ok B" and "delivered B' = delivered B"
proof -
  have l: "(\<exists>q. fmlookup (gb_connected_peers B') p = map_option (\<lambda>pd. pd\<lparr>pd_messages := q\<rparr>) (fmlookup (gb_connected_peers B) p))" for p
    using sends_lookup [OF assms, of p] by (cases "fmlookup (gb_connected_peers B) p") auto
  show t: "topics_at B' = topics_at B"
  proof (rule ext)
    fix p from l [of p] show "topics_at B' p = topics_at B p"
      by (cases "fmlookup (gb_connected_peers B) p") (auto simp: topics_at_def)
  qed
  show c: "conns_at B' = conns_at B"
  proof (rule ext)
    fix p from l [of p] show "conns_at B' p = conns_at B p"
      by (cases "fmlookup (gb_connected_peers B) p") (auto simp: conns_at_def)
  qed
  show d: "fmdom (gb_connected_peers B') = fmdom (gb_connected_peers B)"
  proof (rule fset_eqI)
    fix p from l [of p] show "p |\<in>| fmdom (gb_connected_peers B') \<longleftrightarrow> p |\<in>| fmdom (gb_connected_peers B)"
      by (cases "fmlookup (gb_connected_peers B) p") (auto simp: fmlookup_dom_iff)
  qed
  show "in_mesh B' = in_mesh B" by (intro ext) (simp add: in_mesh_def sends_fields [OF assms])
  show "mesh_peers B' = mesh_peers B" by (intro ext) (simp add: mesh_peers_def sends_fields [OF assms])
  show "connected_ok B' = connected_ok B" by (simp add: connected_ok_def c d)
  show "delivered B' = delivered B" using assms by (simp add: sends_def)
qed

lemma sends_trans:
  assumes "sends R B B'" and "sends R B' B''"
  shows "sends R B B''"
  unfolding sends_def
proof (intro conjI allI impI)
  show "fmmap (\<lambda>peer. peer\<lparr>pd_messages := queue_new 0\<rparr>) (gb_connected_peers B'') = fmmap (\<lambda>peer. peer\<lparr>pd_messages := queue_new 0\<rparr>) (gb_connected_peers B)"
    and "delivered B'' = delivered B" using assms by (simp_all add: sends_def)
  show "waiting_at B'' p \<subseteq> waiting_at B p \<union> R" for p using assms unfolding sends_def by blast
  show "gb_panicked B'' = gb_panicked B" if "connected_ok B"
    using assms that sends_views(6) [OF assms(1)] by (simp add: sends_def)
  have "B' = B\<lparr>gb_events := gb_events B', gb_connected_peers := gb_connected_peers B', gb_backoffs := gb_backoffs B',
      gb_failed_messages := gb_failed_messages B', gb_panicked := gb_panicked B'\<rparr>" using assms(1) by (simp add: sends_def)
  moreover have "B'' = B'\<lparr>gb_events := gb_events B'', gb_connected_peers := gb_connected_peers B'', gb_backoffs := gb_backoffs B'',
      gb_failed_messages := gb_failed_messages B'', gb_panicked := gb_panicked B''\<rparr>" using assms(2) by (simp add: sends_def)
  ultimately show "B'' = B\<lparr>gb_events := gb_events B'', gb_connected_peers := gb_connected_peers B'', gb_backoffs := gb_backoffs B'',
      gb_failed_messages := gb_failed_messages B'', gb_panicked := gb_panicked B''\<rparr>"
    by (cases B, cases B', cases B'') simp
qed

lemma sends_mono: "sends R B B' \<Longrightarrow> R \<subseteq> R' \<Longrightarrow> sends R' B B'"
  unfolding sends_def by blast

lemma sends_fold:
  assumes "\<And>x B. x \<in> set xs \<Longrightarrow> sends R B (f x B)"
  shows "sends R B (fold f xs B)"
  using assms
proof (induction xs arbitrary: B)
  case (Cons x xs)
  have "sends R B (f x B)" and "sends R (f x B) (fold f xs (f x B))" using Cons by simp_all
  then show ?case by (simp add: sends_trans)
qed simp

lemma try_push_waiting: "set (waiting (snd (snd (queue_try_push m q)))) \<subseteq> insert m (set (waiting q))"
  by (auto simp: queue_try_push_def shared_try_push_def waiting_def Let_def split: lane.splits option.splits if_splits)

lemma delivered_push [simp]:
  "delivered (gs_push_event e B) = delivered B @ (case e of Event_Message p mid m \<Rightarrow> [(p, mid, m)] | _ \<Rightarrow> [])"
  by (simp add: delivered_def gs_push_event_def List.map_filter_def split: gs_Event.split)

lemma sends_event: "(\<And>p mid m. e \<noteq> Event_Message p mid m) \<Longrightarrow> sends R B (gs_push_event e B)"
  by (cases e) (simp_all add: sends_def delivered_def gs_push_event_def waiting_at_def List.map_filter_def)

lemma sends_set_peer:
  assumes "fmlookup (gb_connected_peers B) p = Some peer" and "set (waiting q) \<subseteq> set (waiting (pd_messages peer)) \<union> R"
  shows "sends R B (set_peer p (peer\<lparr>pd_messages := q\<rparr>) B)"
  using assms unfolding sends_def
  by (intro conjI) (auto simp: set_peer_def delivered_def waiting_at_def intro!: fmap_ext)

lemma sends_fail_message: "sends R B (fail_message priority p B)"
  by (simp add: sends_def fail_message_def delivered_def waiting_at_def Let_def)

lemma sends_send_message: "r \<in> R \<Longrightarrow> sends R B (snd (send_message p r B))"
proof -
  assume "r \<in> R"
  then have "sends R B (set_peer p (peer\<lparr>pd_messages := snd (snd (queue_try_push r (pd_messages peer)))\<rparr>) B)"
    if "fmlookup (gb_connected_peers B) p = Some peer" for peer
    using try_push_waiting [of r "pd_messages peer"] by (intro sends_set_peer [OF that]) auto
  then show ?thesis
    by (auto simp: send_message_def Let_def split_beta intro: sends_trans [OF _ sends_fail_message] split: option.split)
qed

lemma sends_send_all: "snd ` set xs \<subseteq> R \<Longrightarrow> sends R B (send_all xs B)"
  unfolding send_all_def by (rule sends_fold) (auto simp: split_beta intro!: sends_send_message)

lemma known_has_connection:
  "connected_ok B \<Longrightarrow> fmlookup (gb_connected_peers B) p = Some peer \<Longrightarrow> pd_connections peer \<noteq> []"
  by (auto simp: connected_ok_def conns_at_def dest: fmdomI dest!: bspec [where x = p])

lemma sends_peer_added: "sends R B (peer_added_to_mesh p ts B)"
proof (cases "fmlookup (gb_connected_peers B) p")
  case (Some peer)
  show ?thesis
  proof (cases "pd_connections peer")
    case Nil
    then have "\<not> connected_ok B" using known_has_connection [OF _ Some] by auto
    then show ?thesis using Some Nil by (simp add: peer_added_to_mesh_def sends_def delivered_def waiting_at_def)
  qed (use Some in \<open>auto simp: peer_added_to_mesh_def intro!: sends_event\<close>)
qed (simp add: peer_added_to_mesh_def)

lemma sends_peer_removed: "sends R B (peer_removed_from_mesh p t B)"
proof (cases "fmlookup (gb_connected_peers B) p")
  case (Some peer)
  show ?thesis
  proof (cases "pd_connections peer")
    case Nil
    then have "\<not> connected_ok B" using known_has_connection [OF _ Some] by auto
    then show ?thesis using Some Nil by (simp add: peer_removed_from_mesh_def sends_def delivered_def waiting_at_def)
  qed (use Some in \<open>auto simp: peer_removed_from_mesh_def intro!: sends_event\<close>)
qed (simp add: peer_removed_from_mesh_def)

lemma sends_backoffs: "sends R B (B\<lparr>gb_backoffs := bo\<rparr>)"
  by (simp add: sends_def delivered_def waiting_at_def)

lemma sends_make_prune: "sends R B (snd (make_prune E C t p px u B))"
  by (auto simp: make_prune_def Let_def intro: sends_backoffs)

lemma sends_graft_to: "GraftOut t \<in> R \<Longrightarrow> sends R B (graft_to t p B)"
  unfolding graft_to_def by (rule sends_trans [OF sends_send_message sends_peer_added])

lemma sends_prune_to: "range PruneOut \<subseteq> R \<Longrightarrow> sends R B (prune_to E C t p px u B)"
  unfolding prune_to_def Let_def split_beta
  by (rule sends_trans [OF sends_make_prune sends_trans [OF sends_send_message sends_peer_removed]]) auto

lemmas sends_intros = sends_refl sends_send_message sends_send_all sends_peer_added sends_peer_removed sends_make_prune
  sends_graft_to sends_prune_to sends_fail_message sends_backoffs

section \<open>Random selections\<close>

lemma set_shuffle: "fair E \<Longrightarrow> set (env_shuffle E d xs) = set xs" "fair E \<Longrightarrow> distinct xs \<Longrightarrow> distinct (env_shuffle E d xs)"
  "fair E \<Longrightarrow> length (env_shuffle E d xs) = length xs"
  by (simp_all add: fair_def) (metis set_mset_mset, metis mset_eq_imp_distinct_iff, metis size_mset)

lemma set_shuffle_ids: "fair E \<Longrightarrow> set (env_shuffle_ids E d xs) = set xs" "fair E \<Longrightarrow> distinct xs \<Longrightarrow> distinct (env_shuffle_ids E d xs)"
  "fair E \<Longrightarrow> length (env_shuffle_ids E d xs) = length xs"
  by (simp_all add: fair_def) (metis set_mset_mset, metis mset_eq_imp_distinct_iff, metis size_mset)

text \<open>Who can be selected.\<close>

definition eligible :: "('p, 'p PeerDetails) fmap \<Rightarrow> topic_hash \<Rightarrow> ('p \<Rightarrow> bool) \<Rightarrow> 'p fset" where
  "eligible connected t f = ffilter (\<lambda>p. case fmlookup connected p of None \<Rightarrow> False
     | Some peer \<Rightarrow> t |\<in>| pd_topics peer \<and> f p \<and> is_gossipsub (pd_kind peer)) (fmdom connected)"

lemma random_peers_dynamic:
  fixes E :: "'p::linorder gs_env"
  assumes "fair E"
  shows "get_random_peers_dynamic E d connected t n f |\<subseteq>| eligible connected t f"
    and "fcard (get_random_peers_dynamic E d connected t n f) = min (fcard (eligible connected t f)) (n (fcard (eligible connected t f)))"
proof -
  define ps where "ps = filter (\<lambda>p. case fmlookup connected p of None \<Rightarrow> False
            | Some peer \<Rightarrow> t |\<in>| pd_topics peer \<and> f p \<and> is_gossipsub (pd_kind peer)) (sorted_list_of_fset (fmdom connected))"
  have ps: "fset_of_list ps = eligible connected t f" unfolding ps_def eligible_def by (auto simp: fset_of_list_elem)
  have d: "distinct ps" unfolding ps_def by (simp add: sorted_list_of_fset_def)
  have card: "fcard (fset_of_list xs) = length xs" if "distinct xs" for xs :: "'p list"
    using distinct_card [OF that] by (simp add: fcard.rep_eq fset_of_list.rep_eq)
  have n: "fcard (eligible connected t f) = length ps" using card [OF d] ps by simp
  have eq: "get_random_peers_dynamic E d' connected t n f =
      (if length ps \<le> n (length ps) then fset_of_list ps else fset_of_list (take (n (length ps)) (env_shuffle E d' ps)))" for d'
    by (simp add: get_random_peers_dynamic_def ps_def [symmetric])
  show "get_random_peers_dynamic E d connected t n f |\<subseteq>| eligible connected t f"
    unfolding eq ps [symmetric] using set_shuffle(1) [OF assms]
    by (auto simp: less_eq_fset.rep_eq fset_of_list.rep_eq dest: in_set_takeD)
  show "fcard (get_random_peers_dynamic E d connected t n f) = min (fcard (eligible connected t f)) (n (fcard (eligible connected t f)))"
    unfolding eq n using set_shuffle [OF assms, of ] d by (simp add: card)
qed

lemma random_peers:
  fixes E :: "'p::linorder gs_env"
  assumes "fair E"
  shows "get_random_peers E d connected t n f |\<subseteq>| eligible connected t f"
    and "fcard (get_random_peers E d connected t n f) = min (fcard (eligible connected t f)) n"
  using random_peers_dynamic [OF assms] by (simp_all add: get_random_peers_def)

end
