(* ===== verification/Gossip_Control.thy ===== *)
theory Gossip_Control
  imports Gossip_Behaviour
begin

text \<open>
  What the router does with what it receives (\<open>behaviour.rs\<close>): gossip about messages (IHAVE, IWANT, IDONTWANT), grafts and
  prunes, subscriptions, messages, connections, and the dispatch of a received RPC.
\<close>

section \<open>Gossip\<close>

definition wanted_ids :: "'p gs_Behaviour \<Rightarrow> (topic_hash \<times> message_id list) list \<Rightarrow> message_id fset" where
  "wanted_ids B ihave_msgs = fold (\<lambda>(t, ids) iwant_ids.
     if t |\<notin>| fmdom (gb_mesh B) then iwant_ids
     else iwant_ids |\<union>| fset_of_list (filter (\<lambda>mid. \<not> dc_contains mid (gb_duplicate_cache B)
        \<and> \<not> promises_contains mid (gb_gossip_promises B)) ids)) ihave_msgs {||}"

definition ask_for :: "'p gs_env \<Rightarrow> 'p gs_Config \<Rightarrow> 'p \<Rightarrow> message_id fset \<Rightarrow> 'p gs_Behaviour \<Rightarrow> 'p gs_Behaviour" where
  "ask_for E C p iwant_ids B =
     (let iasked = (case fmlookup (gb_count_sent_iwant B) p of None \<Rightarrow> 0 | Some n \<Rightarrow> n);
          limit = gs_max_control_messages_sent C;
          iask = (if limit < iasked + fcard iwant_ids then limit - iasked else fcard iwant_ids);
          ids = take iask (env_shuffle_ids E Draw_iwant (sorted_list_of_fset iwant_ids));
          followup = (case checked_add (env_imax E) (env_now E) (gs_iwant_followup_time C) of None \<Rightarrow> env_now E | Some t \<Rightarrow> t);
          B = B\<lparr>gb_count_sent_iwant := fmupd p (iasked + iask) (gb_count_sent_iwant B),
                gb_gossip_promises := add_promise p ids followup (gb_gossip_promises B)\<rparr>
      in snd (send_message p (IWantOut ids) B))"

definition handle_ihave :: "'p gs_env \<Rightarrow> 'p gs_Config \<Rightarrow> 'p \<Rightarrow> (topic_hash \<times> message_id list) list \<Rightarrow> 'p gs_Behaviour \<Rightarrow> 'p gs_Behaviour" where
  "handle_ihave E C p ihave_msgs B =
     (let peer_have = (case fmlookup (gb_count_received_ihave B) p of None \<Rightarrow> 0 | Some n \<Rightarrow> n) + 1;
          B = B\<lparr>gb_count_received_ihave := fmupd p peer_have (gb_count_received_ihave B)\<rparr>
      in if gs_max_ihave_messages_heartbeat C < peer_have then B
         else if (case fmlookup (gb_count_sent_iwant B) p of None \<Rightarrow> False | Some iasked \<Rightarrow> gs_max_control_messages_sent C \<le> iasked) then B
         else let iwant_ids = wanted_ids B ihave_msgs
              in if iwant_ids = {||} then B else ask_for E C p iwant_ids B)"

definition answer_iwant :: "'p gs_Config \<Rightarrow> 'p \<Rightarrow> message_id \<Rightarrow> 'p gs_Behaviour \<Rightarrow> 'p gs_Behaviour" where
  "answer_iwant C p mid B =
     (let (r, mc) = get_with_iwant_counts mid p (gb_mcache B); B = B\<lparr>gb_mcache := mc\<rparr>
      in case r of None \<Rightarrow> B
         | Some (msg, n) \<Rightarrow>
             if gs_gossip_retransimission C < n then B
             else if (case fmlookup (gb_connected_peers B) p of None \<Rightarrow> False | Some peer \<Rightarrow> mid \<in> fst ` set (pd_dont_send peer)) then B
             else snd (send_message p (Publish mid msg) B))"

definition handle_iwant :: "'p gs_Config \<Rightarrow> 'p \<Rightarrow> message_id list \<Rightarrow> 'p gs_Behaviour \<Rightarrow> 'p gs_Behaviour" where
  "handle_iwant C p mids B = fold (answer_iwant C p) mids B"

text \<open>A \<open>LinkedHashMap\<close>: inserting a key again moves it to the back.\<close>

definition dont_send_one :: "nat \<Rightarrow> message_id \<Rightarrow> (message_id \<times> nat) list \<Rightarrow> (message_id \<times> nat) list" where
  "dont_send_one now mid ds =
     (let ds = filter (\<lambda>d. fst d \<noteq> mid) ds @ [(mid, now)] in if IDONTWANT_CAP < length ds then tl ds else ds)"

definition handle_idontwant :: "'p gs_env \<Rightarrow> 'p \<Rightarrow> message_id list \<Rightarrow> 'p gs_Behaviour \<Rightarrow> 'p gs_Behaviour" where
  "handle_idontwant E p mids B =
     (case fmlookup (gb_connected_peers B) p of None \<Rightarrow> B
      | Some peer \<Rightarrow> set_peer p (peer\<lparr>pd_messages := snd (remove_data_messages mids (pd_messages peer)),
          pd_dont_send := fold (dont_send_one (env_now E)) mids (pd_dont_send peer)\<rparr>) B)"

definition handle_extensions :: "'p \<Rightarrow> bool option \<Rightarrow> 'p gs_Behaviour \<Rightarrow> 'p gs_Behaviour" where
  "handle_extensions p extensions B =
     (case fmlookup (gb_connected_peers B) p of None \<Rightarrow> B
      | Some peer \<Rightarrow> if pd_extensions peer \<noteq> None then B else set_peer p (peer\<lparr>pd_extensions := Some extensions\<rparr>) B)"

section \<open>Grafts and prunes\<close>

text \<open>One topic of a GRAFT: the topics to prune and whether peers may be exchanged so far.\<close>

definition graft_one :: "'p gs_env \<Rightarrow> 'p gs_Config \<Rightarrow> 'p \<Rightarrow> 'p PeerDetails \<Rightarrow> topic_hash
    \<Rightarrow> topic_hash fset \<times> bool \<times> 'p gs_Behaviour \<Rightarrow> topic_hash fset \<times> bool \<times> 'p gs_Behaviour" where
  "graft_one E C p peer t = (\<lambda>(to_prune, do_px, B).
     (case fmlookup (gb_mesh B) t of None \<Rightarrow> (to_prune, False, B)
      | Some peers \<Rightarrow>
          if p |\<in>| peers then (to_prune, do_px, B)
          else if (case get_backoff_time t p (gb_backoffs B) of None \<Rightarrow> False | Some backoff \<Rightarrow> env_now E < backoff)
          then (finsert t to_prune, False, B)
          else if t |\<notin>| pd_topics peer then (to_prune, False, B)
          else if mesh_n_high_for_topic C t \<le> fcard peers \<and> \<not> pd_outbound peer then (finsert t to_prune, do_px, B)
          else (to_prune, do_px, peer_added_to_mesh p [t] (B\<lparr>gb_mesh := fmupd t (finsert p peers) (gb_mesh B)\<rparr>))))"

definition make_prunes :: "'p::linorder gs_env \<Rightarrow> 'p gs_Config \<Rightarrow> 'p \<Rightarrow> bool \<Rightarrow> topic_hash list \<Rightarrow> 'p gs_Behaviour
    \<Rightarrow> 'p Prune list \<times> 'p gs_Behaviour" where
  "make_prunes E C p do_px ts B = fold (\<lambda>t (prunes, B). let (prune, B) = make_prune E C t p do_px False B in (prunes @ [prune], B)) ts ([], B)"

definition handle_graft :: "'p::linorder gs_env \<Rightarrow> 'p gs_Config \<Rightarrow> 'p \<Rightarrow> topic_hash list \<Rightarrow> 'p gs_Behaviour \<Rightarrow> 'p gs_Behaviour" where
  "handle_graft E C p topics B =
     (case fmlookup (gb_connected_peers B) p of None \<Rightarrow> B
      | Some peer \<Rightarrow>
          if p |\<in>| gb_explicit_peers B then B
          else let (to_prune, do_px, B) = fold (graft_one E C p peer) topics ({||}, gs_do_px C, B);
                   (prunes, B) = make_prunes E C p do_px (sorted_list_of_fset to_prune) B
               in send_all (map (\<lambda>prune. (p, PruneOut prune)) prunes) B)"

definition remove_peer_from_mesh :: "'p gs_env \<Rightarrow> 'p gs_Config \<Rightarrow> 'p \<Rightarrow> topic_hash \<Rightarrow> nat option \<Rightarrow> bool \<Rightarrow> 'p gs_Behaviour \<Rightarrow> 'p gs_Behaviour" where
  "remove_peer_from_mesh E C p t backoff always_update_backoff B =
     (let peer_removed = in_mesh B t p;
          B = (if peer_removed then peer_removed_from_mesh p t (B\<lparr>gb_mesh := fmupd t (mesh_peers B t |-| {|p|}) (gb_mesh B)\<rparr>) else B)
      in if always_update_backoff \<or> peer_removed
         then let time = (case backoff of Some b \<Rightarrow> min b MAX_REMOTE_PRUNE_BACKOFF_SECONDS * SECOND | None \<Rightarrow> gs_prune_backoff C)
              in B\<lparr>gb_backoffs := update_backoff (env_imax E) (env_now E) t p time (gb_backoffs B)\<rparr>
         else B)"

definition px_connect :: "'p gs_env \<Rightarrow> 'p gs_Config \<Rightarrow> topic_hash \<Rightarrow> 'p option list \<Rightarrow> 'p gs_Behaviour \<Rightarrow> 'p gs_Behaviour" where
  "px_connect E C t px B =
     (let n = gs_prune_peers C; ps = List.map_filter id px;
          ps = (if n < length ps then take n (env_shuffle E (Draw_px_connect t) ps) else ps)
      in fold (\<lambda>p B. gs_push_event (Event_Dial p) (B\<lparr>gb_px_peers := finsert p (gb_px_peers B)\<rparr>)) ps B)"

definition prune_one :: "'p gs_env \<Rightarrow> 'p gs_Config \<Rightarrow> 'p \<Rightarrow> 'p Prune \<Rightarrow> 'p gs_Behaviour \<Rightarrow> 'p gs_Behaviour" where
  "prune_one E C p prune B =
     (let t = pr_topic_hash prune; B = remove_peer_from_mesh E C p t (pr_backoff prune) True B
      in if t |\<in>| fmdom (gb_mesh B) \<and> pr_peers prune \<noteq> [] \<and> 0 < gs_prune_peers C then px_connect E C t (pr_peers prune) B else B)"

definition handle_prune :: "'p gs_env \<Rightarrow> 'p gs_Config \<Rightarrow> 'p \<Rightarrow> 'p Prune list \<Rightarrow> 'p gs_Behaviour \<Rightarrow> 'p gs_Behaviour" where
  "handle_prune E C p prunes B = fold (prune_one E C p) prunes B"

section \<open>Messages\<close>

definition handle_invalid_message :: "message_id option \<Rightarrow> RejectReason \<Rightarrow> 'p gs_Behaviour \<Rightarrow> 'p gs_Behaviour" where
  "handle_invalid_message mid reason B =
     (case mid of None \<Rightarrow> B | Some mid \<Rightarrow> B\<lparr>gb_gossip_promises := promises_reject_message mid reason (gb_gossip_promises B)\<rparr>)"

definition message_is_valid :: "'p gs_Config \<Rightarrow> message_id \<Rightarrow> 'p RawMessage \<Rightarrow> 'p \<Rightarrow> 'p gs_Behaviour
    \<Rightarrow> bool \<times> 'p RawMessage \<times> 'p gs_Behaviour" where
  "message_is_valid C mid raw source B =
     (if source |\<in>| gb_blacklisted_peers B
      then (False, raw, B\<lparr>gb_gossip_promises := promises_reject_message mid BlackListedPeer (gb_gossip_promises B)\<rparr>)
      else if (case rm_source raw of None \<Rightarrow> False | Some s \<Rightarrow> s |\<in>| gb_blacklisted_peers B)
      then (False, raw, handle_invalid_message (Some mid) BlackListedSource B)
      else let raw = (if gs_validate_messages C then raw else raw\<lparr>rm_validated := True\<rparr>);
               self_published = (\<not> gs_allow_self_origin C \<and> (case get_own_id (gb_publish_config B) of None \<Rightarrow> False
                 | Some own \<Rightarrow> own \<noteq> source \<and> rm_source raw = Some own))
           in if self_published then (False, raw, handle_invalid_message (Some mid) SelfOrigin B) else (True, raw, B))"

definition idontwant_recipients :: "message_id \<Rightarrow> 'p::linorder RawMessage \<Rightarrow> 'p \<Rightarrow> 'p gs_Behaviour \<Rightarrow> 'p fset" where
  "idontwant_recipients mid raw source B =
     ffilter (\<lambda>p. p \<noteq> source \<and> Some p \<noteq> rm_source raw)
       (mesh_peers B (rm_topic raw) |\<union>| fset_of_list (peers_for_message mid (gb_gossip_promises B)))"

definition broadcast_idontwant :: "'p gs_Config \<Rightarrow> message_id \<Rightarrow> 'p::linorder RawMessage \<Rightarrow> 'p \<Rightarrow> 'p gs_Behaviour \<Rightarrow> 'p gs_Behaviour" where
  "broadcast_idontwant C mid raw source B =
     (if gs_idontwant_message_size_threshold C < gs_raw_protobuf_len C raw \<and> \<not> dc_contains mid (gb_duplicate_cache B)
      then send_all (map (\<lambda>p. (p, IDontWantOut [mid])) (sorted_list_of_fset (idontwant_recipients mid raw source B))) B else B)"

text \<open>The transform of the node is the identity and does not fail.\<close>

definition handle_received_message :: "'p::linorder gs_env \<Rightarrow> 'p gs_Config \<Rightarrow> 'p \<Rightarrow> 'p RawMessage \<Rightarrow> 'p gs_Behaviour \<Rightarrow> 'p gs_Behaviour" where
  "handle_received_message E C source raw B =
     (let message = message_of raw; mid = gs_message_id_fn C message;
          B = broadcast_idontwant C mid raw source B;
          (valid, raw, B) = message_is_valid C mid raw source B
      in if \<not> valid then B
         else let (new, dc) = dc_insert (env_imax E) (env_now E) mid (gb_duplicate_cache B); B = B\<lparr>gb_duplicate_cache := dc\<rparr>
              in if \<not> new then B\<lparr>gb_mcache := observe_duplicate mid source (gb_mcache B)\<rparr>
                 else let B = B\<lparr>gb_gossip_promises := message_delivered mid (gb_gossip_promises B),
                                gb_mcache := snd (mc_put mid raw (gb_mcache B))\<rparr>
                      in if ms_topic message |\<notin>| fmdom (gb_mesh B) then B
                         else let B = gs_push_event (Event_Message source mid message) B
                              in if gs_validate_messages C then B else snd (forward_msg mid raw (Some source) {||} B))"

section \<open>Subscriptions\<close>

definition MAX_SUBSCRIBED_TOPICS :: nat where "MAX_SUBSCRIBED_TOPICS = 100"

definition MAX_SUBSCRIPTIONS_PER_REQUEST :: nat where "MAX_SUBSCRIPTIONS_PER_REQUEST = 100"

definition dedup_subscription :: "Subscription \<Rightarrow> (topic_hash, Subscription) fmap \<Rightarrow> (topic_hash, Subscription) fmap" where
  "dedup_subscription s m =
     (case fmlookup m (sub_topic_hash s) of
        Some s' \<Rightarrow> if sub_action s' \<noteq> sub_action s then fmdrop (sub_topic_hash s) m else m
      | None \<Rightarrow> fmupd (sub_topic_hash s) s m)"

definition filter_subscriptions :: "Subscription list \<Rightarrow> Subscription list" where
  "filter_subscriptions subscriptions =
     (let m = fold dedup_subscription subscriptions fmempty
      in filter (\<lambda>s. can_subscribe (sub_topic_hash s)) (List.map_filter (fmlookup m) (sorted_list_of_fset (fmdom m))))"

definition filter_incoming_subscriptions :: "Subscription list \<Rightarrow> topic_hash fset \<Rightarrow> string + Subscription list" where
  "filter_incoming_subscriptions subscriptions current =
     (if MAX_SUBSCRIPTIONS_PER_REQUEST < length subscriptions then Inl ''too many subscriptions per request''
      else let result = filter_subscriptions subscriptions;
               unsubscribed = length (filter (\<lambda>s. sub_action s = Unsubscribe_action \<and> sub_topic_hash s |\<in>| current) result);
               new_subscribed = length (filter (\<lambda>s. sub_action s = Subscribe_action \<and> sub_topic_hash s |\<notin>| current) result)
           in if MAX_SUBSCRIBED_TOPICS + unsubscribed < new_subscribed + fcard current then Inl ''too many subscribed topics'' else Inr result)"

text \<open>One subscription: the topics to graft, those left, and the events so far.\<close>

definition subscription_one :: "'p gs_Config \<Rightarrow> 'p \<Rightarrow> Subscription
    \<Rightarrow> topic_hash list \<times> topic_hash list \<times> 'p gs_Event list \<times> 'p gs_Behaviour
    \<Rightarrow> topic_hash list \<times> topic_hash list \<times> 'p gs_Event list \<times> 'p gs_Behaviour" where
  "subscription_one C p s = (\<lambda>(grafts, lefts, events, B).
     (case fmlookup (gb_connected_peers B) p of None \<Rightarrow> (grafts, lefts, events, B)
      | Some peer \<Rightarrow>
          let t = sub_topic_hash s in
          (case sub_action s of
             Subscribe_action \<Rightarrow>
               let B = set_peer p (peer\<lparr>pd_topics := finsert t (pd_topics peer)\<rparr>) B;
                   needed = (p |\<notin>| gb_explicit_peers B \<and> is_gossipsub (pd_kind peer) \<and> \<not> is_backoff_with_slack t p (gb_backoffs B)
                     \<and> (case fmlookup (gb_mesh B) t of None \<Rightarrow> False
                        | Some peers \<Rightarrow> fcard peers < mesh_n_low_for_topic C t \<and> p |\<notin>| peers))
               in (if needed then grafts @ [t] else grafts, lefts, events @ [Event_Subscribed p t],
                   if needed then B\<lparr>gb_mesh := fmupd t (finsert p (mesh_peers B t)) (gb_mesh B)\<rparr> else B)
           | Unsubscribe_action \<Rightarrow>
               (grafts, lefts @ [t], events @ [Event_Unsubscribed p t], set_peer p (peer\<lparr>pd_topics := pd_topics peer |-| {|t|}\<rparr>) B))))"

definition leave_topic :: "'p gs_env \<Rightarrow> 'p gs_Config \<Rightarrow> 'p \<Rightarrow> topic_hash \<Rightarrow> 'p gs_Behaviour \<Rightarrow> 'p gs_Behaviour" where
  "leave_topic E C p t B =
     (let B = (case fmlookup (gb_fanout B) t of None \<Rightarrow> B | Some peers \<Rightarrow> B\<lparr>gb_fanout := fmupd t (peers |-| {|p|}) (gb_fanout B)\<rparr>)
      in remove_peer_from_mesh E C p t None False B)"

definition handle_received_subscriptions :: "'p gs_env \<Rightarrow> 'p gs_Config \<Rightarrow> 'p \<Rightarrow> Subscription list \<Rightarrow> 'p gs_Behaviour \<Rightarrow> 'p gs_Behaviour" where
  "handle_received_subscriptions E C p subscriptions B =
     (case fmlookup (gb_connected_peers B) p of None \<Rightarrow> B
      | Some peer \<Rightarrow>
          (case filter_incoming_subscriptions subscriptions (pd_topics peer) of Inl _ \<Rightarrow> B
           | Inr filtered \<Rightarrow>
               let (grafts, lefts, events, B) = fold (subscription_one C p) filtered ([], [], [], B);
                   B = fold (leave_topic E C p) lefts B;
                   B = (if grafts \<noteq> [] then peer_added_to_mesh p grafts B else B);
                   B = send_all (map (\<lambda>t. (p, GraftOut t)) grafts) B
               in fold gs_push_event events B))"

section \<open>Connections\<close>

definition peer_details_new :: "'p gs_Config \<Rightarrow> bool \<Rightarrow> 'p PeerDetails" where
  "peer_details_new C outbound = \<lparr>pd_kind = Floodsub, pd_extensions = None, pd_outbound = outbound, pd_connections = [],
     pd_topics = {||}, pd_dont_send = [], pd_messages = queue_new (gs_connection_handler_queue_len C)\<rparr>"

definition established :: "'p gs_Config \<Rightarrow> bool \<Rightarrow> 'p \<Rightarrow> nat \<Rightarrow> 'p gs_Behaviour \<Rightarrow> 'p gs_Behaviour" where
  "established C outbound p c B =
     (let peer = (case fmlookup (gb_connected_peers B) p of None \<Rightarrow> peer_details_new C outbound | Some peer \<Rightarrow> peer);
          peer = peer\<lparr>pd_connections := pd_connections peer @ [c]\<rparr>;
          B = set_peer p peer B
      in if length (pd_connections peer) \<le> 1 then snd (send_message p ExtensionsOut B) else B)"

definition handle_established_inbound_connection :: "'p gs_Config \<Rightarrow> 'p \<Rightarrow> nat \<Rightarrow> 'p gs_Behaviour \<Rightarrow> 'p gs_Behaviour" where
  "handle_established_inbound_connection C p c B = established C False p c B"

definition handle_established_outbound_connection :: "'p gs_Config \<Rightarrow> 'p \<Rightarrow> nat \<Rightarrow> 'p gs_Behaviour \<Rightarrow> 'p gs_Behaviour" where
  "handle_established_outbound_connection C p c B = established C (p |\<notin>| gb_px_peers B) p c B"

definition gs_on_connection_established :: "'p \<Rightarrow> nat \<Rightarrow> 'p gs_Behaviour \<Rightarrow> 'p gs_Behaviour" where
  "gs_on_connection_established p other_established B =
     (if 0 < other_established then B
      else if p |\<in>| gb_blacklisted_peers B then B
      else let topics = sorted_list_of_fset (fmdom (gb_mesh B))
           in if topics = [] then B else snd (send_message p (SubscribeMany topics) B))"

definition remove_from_topic :: "'p \<Rightarrow> topic_hash \<Rightarrow> 'p gs_Behaviour \<Rightarrow> 'p gs_Behaviour" where
  "remove_from_topic p t B =
     (let B = (case fmlookup (gb_mesh B) t of None \<Rightarrow> B | Some ps \<Rightarrow> B\<lparr>gb_mesh := fmupd t (ps |-| {|p|}) (gb_mesh B)\<rparr>)
      in case fmlookup (gb_fanout B) t of None \<Rightarrow> B | Some ps \<Rightarrow> B\<lparr>gb_fanout := fmupd t (ps |-| {|p|}) (gb_fanout B)\<rparr>)"

definition gs_on_connection_closed :: "'p \<Rightarrow> nat \<Rightarrow> nat \<Rightarrow> 'p gs_Behaviour \<Rightarrow> 'p gs_Behaviour" where
  "gs_on_connection_closed p c remaining_established B =
     (case fmlookup (gb_connected_peers B) p of None \<Rightarrow> B
      | Some peer \<Rightarrow>
          if remaining_established \<noteq> 0
          then if c \<notin> set (pd_connections peer) then B\<lparr>gb_panicked := True\<rparr>
               else let cs = remove1 c (pd_connections peer); B = set_peer p (peer\<lparr>pd_connections := cs\<rparr>) B
                    in (case cs of [] \<Rightarrow> B
                        | c0 # _ \<Rightarrow> if fBex (pd_topics peer) (\<lambda>t. in_mesh B t p) then gs_push_event (Event_JoinedMesh p c0) B else B)
          else let B = fold (remove_from_topic p) (sorted_list_of_fset (pd_topics peer)) B
               in B\<lparr>gb_px_peers := gb_px_peers B |-| {|p|}, gb_connected_peers := fmdrop p (gb_connected_peers B)\<rparr>)"

section \<open>Events of a connection handler\<close>

definition control_one :: "'p gs_env \<Rightarrow> 'p gs_Config \<Rightarrow> 'p \<Rightarrow> 'p ControlAction \<Rightarrow> 'p gs_Behaviour \<Rightarrow> 'p gs_Behaviour" where
  "control_one E C p a B =
     (case a of IWant mids \<Rightarrow> handle_iwant C p mids B
      | IDontWant mids \<Rightarrow> handle_idontwant E p mids B
      | ExtensionsAction (Some extensions) \<Rightarrow> handle_extensions p extensions B
      | _ \<Rightarrow> B)"

definition rpc_ihaves :: "'p ControlAction list \<Rightarrow> (topic_hash \<times> message_id list) list" where
  "rpc_ihaves as = List.map_filter (\<lambda>a. case a of IHave t mids \<Rightarrow> Some (t, mids) | _ \<Rightarrow> None) as"

definition rpc_grafts :: "'p ControlAction list \<Rightarrow> topic_hash list" where
  "rpc_grafts as = List.map_filter (\<lambda>a. case a of Graft t \<Rightarrow> Some t | _ \<Rightarrow> None) as"

definition rpc_prunes :: "'p ControlAction list \<Rightarrow> 'p Prune list" where
  "rpc_prunes as = List.map_filter (\<lambda>a. case a of PruneAction p \<Rightarrow> Some p | _ \<Rightarrow> None) as"

definition handle_rpc :: "'p::linorder gs_env \<Rightarrow> 'p gs_Config \<Rightarrow> 'p \<Rightarrow> 'p RpcIn \<Rightarrow> 'p gs_Behaviour \<Rightarrow> 'p gs_Behaviour" where
  "handle_rpc E C p rpc B =
     (let cs = rpc_control_msgs rpc;
          B = (if rpc_subscriptions rpc \<noteq> [] then handle_received_subscriptions E C p (rpc_subscriptions rpc) B else B);
          B = fold (handle_received_message E C p) (rpc_messages rpc) B;
          B = fold (control_one E C p) cs B;
          B = (if rpc_ihaves cs \<noteq> [] then handle_ihave E C p (rpc_ihaves cs) B else B);
          B = (if rpc_grafts cs \<noteq> [] then handle_graft E C p (rpc_grafts cs) B else B)
      in if rpc_prunes cs \<noteq> [] then handle_prune E C p (rpc_prunes cs) B else B)"

definition handle_peer_kind :: "'p \<Rightarrow> PeerKind \<Rightarrow> 'p gs_Behaviour \<Rightarrow> 'p gs_Behaviour" where
  "handle_peer_kind p kind B =
     (if kind = NotSupported then gs_push_event (Event_NotSupported p) B
      else case fmlookup (gb_connected_peers B) p of None \<Rightarrow> B
        | Some peer \<Rightarrow> if pd_kind peer = Floodsub then set_peer p (peer\<lparr>pd_kind := kind\<rparr>) B else B)"

datatype 'p HandlerEvent = Handler_Message "'p RpcIn" "('p RawMessage \<times> ValidationError) list" | Handler_PeerKind PeerKind
  | Handler_MessageDropped "'p RpcOut"

definition gs_on_connection_handler_event :: "'p::linorder gs_env \<Rightarrow> 'p gs_Config \<Rightarrow> 'p \<Rightarrow> 'p HandlerEvent \<Rightarrow> 'p gs_Behaviour \<Rightarrow> 'p gs_Behaviour" where
  "gs_on_connection_handler_event E C p ev B =
     (case ev of Handler_PeerKind kind \<Rightarrow> handle_peer_kind p kind B
      | Handler_MessageDropped rpc \<Rightarrow> fail_message False p B
      | Handler_Message rpc invalid_messages \<Rightarrow> handle_rpc E C p rpc B)"

section \<open>Peers the user names\<close>

definition check_explicit_peer_connection :: "'p \<Rightarrow> 'p gs_Behaviour \<Rightarrow> 'p gs_Behaviour" where
  "check_explicit_peer_connection p B = (if p |\<in>| fmdom (gb_connected_peers B) then B else gs_push_event (Event_Dial p) B)"

definition add_explicit_peer :: "'p \<Rightarrow> 'p gs_Behaviour \<Rightarrow> 'p gs_Behaviour" where
  "add_explicit_peer p B = check_explicit_peer_connection p (B\<lparr>gb_explicit_peers := finsert p (gb_explicit_peers B)\<rparr>)"

definition remove_explicit_peer :: "'p \<Rightarrow> 'p gs_Behaviour \<Rightarrow> 'p gs_Behaviour" where
  "remove_explicit_peer p B = B\<lparr>gb_explicit_peers := gb_explicit_peers B |-| {|p|}\<rparr>"

definition blacklist_peer :: "'p \<Rightarrow> 'p gs_Behaviour \<Rightarrow> 'p gs_Behaviour" where
  "blacklist_peer p B = B\<lparr>gb_blacklisted_peers := finsert p (gb_blacklisted_peers B)\<rparr>"

definition remove_blacklisted_peer :: "'p \<Rightarrow> 'p gs_Behaviour \<Rightarrow> 'p gs_Behaviour" where
  "remove_blacklisted_peer p B = B\<lparr>gb_blacklisted_peers := gb_blacklisted_peers B |-| {|p|}\<rparr>"

end
