(* ===== verification/Gossip_Heartbeat.thy ===== *)
theory Gossip_Heartbeat
  imports Gossip_Control
begin

text \<open>
  The heartbeat of the router (\<open>behaviour.rs\<close>, \<open>heartbeat\<close>, \<open>emit_gossip\<close>, \<open>send_graft_prune\<close>): every mesh is brought back to
  its size, back-offs, fanout and caches are aged, and gossip about recent messages is emitted. Without peer scores all
  peers have score 0: none is dropped for its score, and there is no opportunistic grafting.
\<close>

section \<open>The mesh of a topic\<close>

definition is_outbound :: "('p, 'p PeerDetails) fmap \<Rightarrow> 'p \<Rightarrow> bool" where
  "is_outbound connected p = (case fmlookup connected p of None \<Rightarrow> False | Some peer \<Rightarrow> pd_outbound peer)"

definition graftable :: "'p gs_Behaviour \<Rightarrow> topic_hash \<Rightarrow> 'p fset \<Rightarrow> 'p \<Rightarrow> bool" where
  "graftable B t peers p \<longleftrightarrow> p |\<notin>| peers \<and> p |\<notin>| gb_explicit_peers B \<and> \<not> is_backoff_with_slack t p (gb_backoffs B)"

text \<open>Too few peers: the new ones. \<open>mesh_n - peers.len()\<close> is below 0, a panic, if the low mark is above the target.\<close>

definition fill_mesh :: "'p::linorder gs_env \<Rightarrow> 'p gs_Config \<Rightarrow> 'p gs_Behaviour \<Rightarrow> topic_hash \<Rightarrow> 'p fset \<Rightarrow> 'p fset" where
  "fill_mesh E C B t peers =
     (if fcard peers < mesh_n_low_for_topic C t
      then get_random_peers E (Draw_low t) (gb_connected_peers B) t (mesh_n_for_topic C t - fcard peers) (graftable B t peers) else {||})"

text \<open>Too many peers: the loop over the shuffled peers, with the number to remove, the outbound peers left, and those
  removed so far.\<close>

fun excess_loop :: "('p \<Rightarrow> bool) \<Rightarrow> nat \<Rightarrow> nat \<Rightarrow> nat \<Rightarrow> 'p list \<Rightarrow> 'p list" where
  "excess_loop out omin excess outbound [] = []"
| "excess_loop out omin excess outbound (p # ps) =
     (if excess = 0 then []
      else if out p then if outbound \<le> omin then excess_loop out omin excess outbound ps
                         else p # excess_loop out omin (excess - 1) (outbound - 1) ps
      else p # excess_loop out omin (excess - 1) outbound ps)"

definition retain_shuffle :: "'p gs_env \<Rightarrow> nat \<Rightarrow> topic_hash \<Rightarrow> 'p list \<Rightarrow> 'p list" where
  "retain_shuffle E retain t ps = (if retain < length ps
     then env_shuffle E (Draw_retain t) (take (length ps - retain) ps) @ drop (length ps - retain) ps else ps)"

definition excess_peers :: "'p::linorder gs_env \<Rightarrow> 'p gs_Config \<Rightarrow> 'p gs_Behaviour \<Rightarrow> topic_hash \<Rightarrow> 'p fset \<Rightarrow> 'p list" where
  "excess_peers E C B t peers =
     (if mesh_n_high_for_topic C t \<le> fcard peers
      then let shuffled = retain_shuffle E (gs_retain_scores C) t (env_shuffle E (Draw_excess t) (sorted_list_of_fset peers));
               out = is_outbound (gb_connected_peers B)
           in excess_loop out (mesh_outbound_min_for_topic C t) (fcard peers - mesh_n_for_topic C t) (length (filter out shuffled)) shuffled
      else [])"

definition outbound_peers :: "'p::linorder gs_env \<Rightarrow> 'p gs_Config \<Rightarrow> 'p gs_Behaviour \<Rightarrow> topic_hash \<Rightarrow> 'p fset \<Rightarrow> 'p fset" where
  "outbound_peers E C B t peers =
     (let out = is_outbound (gb_connected_peers B); outbound = fcard (ffilter out peers) in
      if mesh_n_low_for_topic C t \<le> fcard peers \<and> outbound < mesh_outbound_min_for_topic C t
      then get_random_peers E (Draw_outbound t) (gb_connected_peers B) t (mesh_outbound_min_for_topic C t - outbound)
        (\<lambda>p. graftable B t peers p \<and> out p) else {||})"

text \<open>The new mesh, the peers to graft and to prune, and whether a subtraction of the code went below 0.\<close>

definition maintain_mesh :: "'p::linorder gs_env \<Rightarrow> 'p gs_Config \<Rightarrow> 'p gs_Behaviour \<Rightarrow> topic_hash \<Rightarrow> 'p fset
    \<Rightarrow> 'p fset \<times> 'p list \<times> 'p list \<times> bool" where
  "maintain_mesh E C B t peers0 =
     (let n = mesh_n_for_topic C t;
          low = fill_mesh E C B t peers0; peers1 = peers0 |\<union>| low;
          excess = excess_peers E C B t peers1; peers2 = peers1 |-| fset_of_list excess;
          out = outbound_peers E C B t peers2; peers3 = peers2 |\<union>| out
      in (peers3, sorted_list_of_fset low @ sorted_list_of_fset out, excess,
          fcard peers0 < mesh_n_low_for_topic C t \<and> n < fcard peers0 \<or> mesh_n_high_for_topic C t \<le> fcard peers1 \<and> fcard peers1 < n))"

definition add_topic :: "topic_hash \<Rightarrow> 'p \<Rightarrow> ('p, topic_hash list) fmap \<Rightarrow> ('p, topic_hash list) fmap" where
  "add_topic t p m = fmupd p ((case fmlookup m p of None \<Rightarrow> [] | Some ts \<Rightarrow> ts) @ [t]) m"

definition maintain_topic :: "'p::linorder gs_env \<Rightarrow> 'p gs_Config \<Rightarrow> topic_hash
    \<Rightarrow> ('p, topic_hash list) fmap \<times> ('p, topic_hash list) fmap \<times> 'p gs_Behaviour
    \<Rightarrow> ('p, topic_hash list) fmap \<times> ('p, topic_hash list) fmap \<times> 'p gs_Behaviour" where
  "maintain_topic E C t = (\<lambda>(to_graft, to_prune, B).
     let (peers, grafts, prunes, panic) = maintain_mesh E C B t (mesh_peers B t)
     in (fold (add_topic t) grafts to_graft, fold (add_topic t) prunes to_prune,
         B\<lparr>gb_mesh := fmupd t peers (gb_mesh B), gb_panicked := (gb_panicked B \<or> panic)\<rparr>))"

section \<open>Fanout\<close>

definition expire_fanout :: "'p gs_env \<Rightarrow> 'p gs_Config \<Rightarrow> 'p gs_Behaviour \<Rightarrow> 'p gs_Behaviour" where
  "expire_fanout E C B =
     (let expired = \<lambda>t. case fmlookup (gb_fanout_last_pub B) t of None \<Rightarrow> False | Some published \<Rightarrow> gs_fanout_ttl C < env_now E - published
      in B\<lparr>gb_fanout := fmfilter (\<lambda>t. \<not> expired t) (gb_fanout B), gb_fanout_last_pub := fmfilter (\<lambda>t. \<not> expired t) (gb_fanout_last_pub B)\<rparr>)"

definition maintain_fanout :: "'p::linorder gs_env \<Rightarrow> 'p gs_Config \<Rightarrow> 'p gs_Behaviour \<Rightarrow> topic_hash \<Rightarrow> 'p fset \<Rightarrow> 'p fset" where
  "maintain_fanout E C B t peers =
     (let peers = ffilter (\<lambda>p. case fmlookup (gb_connected_peers B) p of None \<Rightarrow> False | Some peer \<Rightarrow> t |\<in>| pd_topics peer) peers;
          n = mesh_n_for_topic C t
      in if fcard peers < n
         then peers |\<union>| get_random_peers E (Draw_fanout t) (gb_connected_peers B) t (n - fcard peers)
                (\<lambda>p. p |\<notin>| peers \<and> p |\<notin>| gb_explicit_peers B) else peers)"

definition maintain_fanouts :: "'p::linorder gs_env \<Rightarrow> 'p gs_Config \<Rightarrow> 'p gs_Behaviour \<Rightarrow> 'p gs_Behaviour" where
  "maintain_fanouts E C B = B\<lparr>gb_fanout := fmmap_keys (maintain_fanout E C B) (gb_fanout B)\<rparr>"

section \<open>Gossip\<close>

definition gossip_about :: "'p::linorder gs_env \<Rightarrow> 'p gs_Config \<Rightarrow> 'p gs_Behaviour \<Rightarrow> bool \<Rightarrow> topic_hash \<Rightarrow> 'p fset \<Rightarrow> message_id list
    \<Rightarrow> ('p \<times> 'p RpcOut) list" where
  "gossip_about E C B fanout t peers mids =
     (let limit = gs_max_control_messages_sent C;
          ids = (if limit < length mids then mids else env_shuffle_ids E (Draw_ids fanout t) mids);
          to_msg_peers = get_random_peers_dynamic E (Draw_gossip fanout t) (gb_connected_peers B) t
            (\<lambda>m. max (gs_gossip_lazy C) (gs_gossip_share C m)) (\<lambda>p. p |\<notin>| peers \<and> p |\<notin>| gb_explicit_peers B)
      in map (\<lambda>p. (p, IHaveOut t (if limit < length ids then take limit (env_shuffle_ids E (Draw_peer_ids fanout t p) ids) else ids)))
           (sorted_list_of_fset to_msg_peers))"

definition gossip_rpcs :: "'p::linorder gs_env \<Rightarrow> 'p gs_Config \<Rightarrow> 'p gs_Behaviour \<Rightarrow> bool \<Rightarrow> (topic_hash, 'p fset) fmap \<Rightarrow> ('p \<times> 'p RpcOut) list" where
  "gossip_rpcs E C B fanout m = concat (map (\<lambda>t. case fmlookup m t of None \<Rightarrow> []
       | Some peers \<Rightarrow> (case get_gossip_message_ids t (gb_mcache B) of None \<Rightarrow> [] | Some [] \<Rightarrow> []
           | Some mids \<Rightarrow> gossip_about E C B fanout t peers mids)) (sorted_list_of_fset (fmdom m)))"

definition emit_gossip :: "'p::linorder gs_env \<Rightarrow> 'p gs_Config \<Rightarrow> 'p gs_Behaviour \<Rightarrow> 'p gs_Behaviour" where
  "emit_gossip E C B =
     (let panic = (length (mc_history (gb_mcache B)) < mc_gossip (gb_mcache B) \<and> (gb_mesh B \<noteq> fmempty \<or> gb_fanout B \<noteq> fmempty))
      in send_all (gossip_rpcs E C B False (gb_mesh B) @ gossip_rpcs E C B True (gb_fanout B))
           (B\<lparr>gb_panicked := (gb_panicked B \<or> panic)\<rparr>))"

section \<open>Grafts and prunes\<close>

definition topics_of :: "('p, topic_hash list) fmap \<Rightarrow> 'p \<Rightarrow> topic_hash list" where
  "topics_of m p = (case fmlookup m p of None \<Rightarrow> [] | Some ts \<Rightarrow> ts)"

definition graft_peer :: "'p::linorder gs_env \<Rightarrow> 'p gs_Config \<Rightarrow> ('p, topic_hash list) fmap \<Rightarrow> ('p, topic_hash list) fmap
    \<Rightarrow> 'p \<Rightarrow> 'p gs_Behaviour \<Rightarrow> 'p gs_Behaviour" where
  "graft_peer E C to_graft to_prune p B =
     (let B = fold (\<lambda>t. peer_added_to_mesh p [t]) (topics_of to_graft p) B;
          (prunes, B) = make_prunes E C p (gs_do_px C) (topics_of to_prune p) B
      in send_all (map (\<lambda>t. (p, GraftOut t)) (topics_of to_graft p) @ map (\<lambda>prune. (p, PruneOut prune)) prunes) B)"

definition send_graft_prune :: "'p::linorder gs_env \<Rightarrow> 'p gs_Config \<Rightarrow> ('p, topic_hash list) fmap \<Rightarrow> ('p, topic_hash list) fmap
    \<Rightarrow> 'p gs_Behaviour \<Rightarrow> 'p gs_Behaviour" where
  "send_graft_prune E C to_graft to_prune B =
     (let B = fold (graft_peer E C to_graft to_prune) (sorted_list_of_fset (fmdom to_graft)) B
      in fold (\<lambda>p. fold (\<lambda>t. prune_to E C t p (gs_do_px C) False) (topics_of to_prune p))
           (filter (\<lambda>p. p |\<notin>| fmdom to_graft) (sorted_list_of_fset (fmdom to_prune))) B)"

section \<open>The heartbeat\<close>

definition report_failed :: "'p::linorder gs_Behaviour \<Rightarrow> 'p gs_Behaviour" where
  "report_failed B = fold (\<lambda>p. case fmlookup (gb_failed_messages B) p of None \<Rightarrow> id | Some f \<Rightarrow> gs_push_event (Event_SlowPeer p f))
     (sorted_list_of_fset (fmdom (gb_failed_messages B))) (B\<lparr>gb_failed_messages := fmempty\<rparr>)"

definition flush_dont_send :: "nat \<Rightarrow> 'p PeerDetails \<Rightarrow> 'p PeerDetails" where
  "flush_dont_send now peer = peer\<lparr>pd_dont_send := dropWhile (\<lambda>(mid, instant). IDONTWANT_TIMEOUT < now - instant) (pd_dont_send peer)\<rparr>"

definition heartbeat_start :: "'p::linorder gs_env \<Rightarrow> 'p gs_Config \<Rightarrow> 'p gs_Behaviour \<Rightarrow> 'p gs_Behaviour" where
  "heartbeat_start E C B =
     (let B = B\<lparr>gb_heartbeat_ticks := gb_heartbeat_ticks B + 1, gb_backoffs := backoff_heartbeat (env_imax E) (env_now E) (gb_backoffs B),
            gb_count_sent_iwant := fmempty, gb_count_received_ihave := fmempty\<rparr>
      in if gb_heartbeat_ticks B mod gs_check_explicit_peers_ticks C = 0
         then fold check_explicit_peer_connection (sorted_list_of_fset (gb_explicit_peers B)) B else B)"

definition heartbeat :: "'p::linorder gs_env \<Rightarrow> 'p gs_Config \<Rightarrow> 'p gs_Behaviour \<Rightarrow> 'p gs_Behaviour" where
  "heartbeat E C B =
     (let B = heartbeat_start E C B;
          (to_graft, to_prune, B) = fold (maintain_topic E C) (sorted_list_of_fset (fmdom (gb_mesh B))) (fmempty, fmempty, B);
          B = maintain_fanouts E C (expire_fanout E C B);
          B = emit_gossip E C B;
          B = send_graft_prune E C to_graft to_prune B;
          B = B\<lparr>gb_mcache := mc_shift (gb_mcache B)\<rparr>;
          B = report_failed B
      in B\<lparr>gb_connected_peers := fmmap (flush_dont_send (env_now E)) (gb_connected_peers B)\<rparr>)"

end
