(* ===== verification/Gossip_Router.thy ===== *)
theory Gossip_Router
  imports Gossip_Heartbeat
begin

text \<open>
  The router as a whole: sequences of what the swarm, the handlers, the clock and the node ask of it, in any order, and
  the invariants that hold of every one of them.
\<close>

section \<open>Sequences of operations\<close>

datatype 'p gs_op =
    Established_inbound 'p nat
  | Established_outbound 'p nat
  | Connection_established 'p nat
  | Connection_closed 'p nat nat
  | Handler_event 'p "'p HandlerEvent"
  | Handler_pop 'p nat
  | Heartbeat_tick
  | Subscribe topic_hash
  | Unsubscribe topic_hash
  | Publish_message 'p nat topic_hash "u8 list"
  | Report message_id 'p MessageAcceptance
  | Add_explicit 'p
  | Remove_explicit 'p
  | Blacklist 'p
  | Unblacklist 'p

text \<open>A connection handler takes the next message out of the queues of its peer.\<close>

definition handler_pop :: "'p \<Rightarrow> nat \<Rightarrow> 'p gs_Behaviour \<Rightarrow> 'p gs_Behaviour" where
  "handler_pop p rid B = (case fmlookup (gb_connected_peers B) p of None \<Rightarrow> B
     | Some peer \<Rightarrow> set_peer p (peer\<lparr>pd_messages := snd (queue_poll_pop rid (pd_messages peer))\<rparr>) B)"

fun gs_step :: "'p::linorder gs_Config \<Rightarrow> 'p gs_env \<Rightarrow> 'p gs_op \<Rightarrow> 'p gs_Behaviour \<Rightarrow> 'p gs_Behaviour" where
  "gs_step C E (Established_inbound p c) B = handle_established_inbound_connection C p c B"
| "gs_step C E (Established_outbound p c) B = handle_established_outbound_connection C p c B"
| "gs_step C E (Connection_established p n) B = gs_on_connection_established p n B"
| "gs_step C E (Connection_closed p c n) B = gs_on_connection_closed p c n B"
| "gs_step C E (Handler_event p ev) B = gs_on_connection_handler_event E C p ev B"
| "gs_step C E (Handler_pop p rid) B = handler_pop p rid B"
| "gs_step C E Heartbeat_tick B = heartbeat E C B"
| "gs_step C E (Subscribe t) B = snd (subscribe E C t B)"
| "gs_step C E (Unsubscribe t) B = snd (unsubscribe E C t B)"
| "gs_step C E (Publish_message p n t data) B = snd (publish E C p n t data B)"
| "gs_step C E (Report mid p a) B = snd (report_message_validation_result mid p a B)"
| "gs_step C E (Add_explicit p) B = add_explicit_peer p B"
| "gs_step C E (Remove_explicit p) B = remove_explicit_peer p B"
| "gs_step C E (Blacklist p) B = blacklist_peer p B"
| "gs_step C E (Unblacklist p) B = remove_blacklisted_peer p B"

definition gs_run :: "'p::linorder gs_Config \<Rightarrow> ('p gs_env \<times> 'p gs_op) list \<Rightarrow> 'p gs_Behaviour \<Rightarrow> 'p gs_Behaviour" where
  "gs_run C ops B = fold (\<lambda>(E, op). gs_step C E op) ops B"

text \<open>What the swarm guarantees: connections have ids of their own, only a live connection is closed, and the number of
  those that remain is right. \<open>None\<close> if a sequence breaks this; otherwise the live connections after it.\<close>

fun swarm_step :: "'p gs_op \<Rightarrow> ('p \<times> nat) list \<Rightarrow> ('p \<times> nat) list option" where
  "swarm_step (Established_inbound p c) L = (if c \<in> snd ` set L then None else Some ((p, c) # L))"
| "swarm_step (Established_outbound p c) L = (if c \<in> snd ` set L then None else Some ((p, c) # L))"
| "swarm_step (Connection_closed p c n) L =
     (let L' = filter (\<lambda>x. x \<noteq> (p, c)) L
      in if (p, c) \<in> set L \<and> n = length (filter (\<lambda>x. fst x = p) L') then Some L' else None)"
| "swarm_step _ L = Some L"

primrec swarm_run :: "'p gs_op list \<Rightarrow> ('p \<times> nat) list \<Rightarrow> ('p \<times> nat) list option" where
  "swarm_run [] L = Some L"
| "swarm_run (op # ops) L = (case swarm_step op L of None \<Rightarrow> None | Some L' \<Rightarrow> swarm_run ops L')"

section \<open>The meshes\<close>

definition in_fanout :: "'p gs_Behaviour \<Rightarrow> topic_hash \<Rightarrow> 'p \<Rightarrow> bool" where
  "in_fanout B t p = (case fmlookup (gb_fanout B) t of None \<Rightarrow> False | Some ps \<Rightarrow> p |\<in>| ps)"

definition mesh_ok :: "'p gs_Behaviour \<Rightarrow> bool" where
  "mesh_ok B \<longleftrightarrow> (\<forall>t p. in_mesh B t p \<or> in_fanout B t p \<longrightarrow> t |\<in>| topics_at B p)"

definition history_ok :: "'p gs_Behaviour \<Rightarrow> bool" where
  "history_ok B \<longleftrightarrow> mc_gossip (gb_mcache B) \<le> length (mc_history (gb_mcache B))"

text \<open>What leaves the meshes and their members as they are.\<close>

definition still :: "'p gs_Behaviour \<Rightarrow> 'p gs_Behaviour \<Rightarrow> bool" where
  "still B B' \<longleftrightarrow> gb_mesh B' = gb_mesh B \<and> gb_fanout B' = gb_fanout B \<and> topics_at B' = topics_at B \<and> conns_at B' = conns_at B
     \<and> fmdom (gb_connected_peers B') = fmdom (gb_connected_peers B) \<and> (history_ok B \<longrightarrow> history_ok B')
     \<and> (connected_ok B \<longrightarrow> gb_panicked B' = gb_panicked B)"

lemma still_refl [simp, intro]: "still B B"
  by (simp add: still_def)

lemma still_connected: "still B B' \<Longrightarrow> connected_ok B' = connected_ok B"
  by (simp add: still_def connected_ok_def)

lemma still_trans: "still B B' \<Longrightarrow> still B' B'' \<Longrightarrow> still B B''"
  using still_connected [of B B'] by (auto simp: still_def)

lemma still_mesh: "still B B' \<Longrightarrow> mesh_ok B' = mesh_ok B"
  by (simp add: still_def mesh_ok_def in_mesh_def in_fanout_def)

lemma still_fold: "(\<And>x B. x \<in> set xs \<Longrightarrow> still B (f x B)) \<Longrightarrow> still B (fold f xs B)"
proof (induction xs arbitrary: B)
  case (Cons x xs)
  have "still B (f x B)" and "still (f x B) (fold f xs (f x B))" using Cons by simp_all
  then show ?case by (simp add: still_trans)
qed simp

lemma sends_still: "sends R B B' \<Longrightarrow> still B B'"
  by (simp add: still_def history_ok_def sends_fields sends_views) (simp add: sends_def)

definition router_ok :: "('p \<Rightarrow> nat list) \<Rightarrow> 'p gs_Behaviour \<Rightarrow> bool" where
  "router_ok K B \<longleftrightarrow> conns_at B = K \<and> mesh_ok B \<and> connected_ok B \<and> history_ok B \<and> \<not> gb_panicked B"

lemma still_router: "still B B' \<Longrightarrow> router_ok K B \<Longrightarrow> router_ok K B'"
  unfolding router_ok_def using still_mesh [of B B'] still_connected [of B B'] by (simp add: still_def)

lemma sends_router: "sends R B B' \<Longrightarrow> router_ok K B \<Longrightarrow> router_ok K B'"
  by (rule still_router [OF sends_still])

lemma router_fold:
  assumes "\<And>x B. x \<in> set xs \<Longrightarrow> router_ok K B \<Longrightarrow> router_ok K (f x B)" and "router_ok K B"
  shows "router_ok K (fold f xs B)"
  using assms by (induction xs arbitrary: B) simp_all

text \<open>Changes of the meshes.\<close>

lemma router_mesh_upd:
  "router_ok K B \<Longrightarrow> (\<And>p. p |\<in>| ps \<Longrightarrow> t |\<in>| topics_at B p) \<Longrightarrow> router_ok K (B\<lparr>gb_mesh := fmupd t ps (gb_mesh B)\<rparr>)"
  by (auto simp: router_ok_def mesh_ok_def in_mesh_def in_fanout_def topics_at_def connected_ok_def conns_at_def history_ok_def)

lemma router_fanout_upd:
  "router_ok K B \<Longrightarrow> (\<And>p. p |\<in>| ps \<Longrightarrow> t |\<in>| topics_at B p) \<Longrightarrow> router_ok K (B\<lparr>gb_fanout := fmupd t ps (gb_fanout B)\<rparr>)"
  by (auto simp: router_ok_def mesh_ok_def in_mesh_def in_fanout_def topics_at_def connected_ok_def conns_at_def history_ok_def)

lemma mesh_member: "router_ok K B \<Longrightarrow> fmlookup (gb_mesh B) t = Some ps \<Longrightarrow> p |\<in>| ps \<Longrightarrow> t |\<in>| topics_at B p"
  by (simp add: router_ok_def mesh_ok_def in_mesh_def)

lemma fanout_member: "router_ok K B \<Longrightarrow> fmlookup (gb_fanout B) t = Some ps \<Longrightarrow> p |\<in>| ps \<Longrightarrow> t |\<in>| topics_at B p"
  by (simp add: router_ok_def mesh_ok_def in_fanout_def)

lemma mesh_peers_member: "router_ok K B \<Longrightarrow> p |\<in>| mesh_peers B t \<Longrightarrow> t |\<in>| topics_at B p"
  by (auto simp: mesh_peers_def mesh_member split: option.splits)

lemma eligible_topics: "p |\<in>| eligible (gb_connected_peers B) t f \<Longrightarrow> t |\<in>| topics_at B p"
  by (auto simp: eligible_def topics_at_def split: option.splits)

lemma random_topics:
  assumes "fair E" and "p |\<in>| get_random_peers E d (gb_connected_peers B) t n f"
  shows "t |\<in>| topics_at B p"
  using random_peers(1) [OF assms(1), of d "gb_connected_peers B" t n f] assms(2) eligible_topics [of p B t f]
  by (auto simp: less_eq_fset.rep_eq)

lemma router_fanout_drop: "router_ok K B \<Longrightarrow> router_ok K (B\<lparr>gb_fanout := fmdrop t (gb_fanout B), gb_fanout_last_pub := m\<rparr>)"
  by (auto simp: router_ok_def mesh_ok_def in_mesh_def in_fanout_def topics_at_def connected_ok_def conns_at_def history_ok_def split: if_splits)

lemma router_mesh_drop: "router_ok K B \<Longrightarrow> router_ok K (B\<lparr>gb_mesh := fmdrop t (gb_mesh B)\<rparr>)"
  by (auto simp: router_ok_def mesh_ok_def in_mesh_def in_fanout_def topics_at_def connected_ok_def conns_at_def history_ok_def split: if_splits)

lemma topics_at_upds [simp]:
  "topics_at (B\<lparr>gb_mesh := m\<rparr>) = topics_at B" "topics_at (B\<lparr>gb_fanout := m\<rparr>) = topics_at B" "topics_at (B\<lparr>gb_fanout_last_pub := l\<rparr>) = topics_at B"
  "topics_at (B\<lparr>gb_backoffs := b\<rparr>) = topics_at B" "topics_at (B\<lparr>gb_mcache := c\<rparr>) = topics_at B" "topics_at (B\<lparr>gb_panicked := x\<rparr>) = topics_at B"
  by (rule ext, simp add: topics_at_def)+

lemma router_join:
  assumes "fair E" and "router_ok K B"
  shows "router_ok K (gs_join E C t B)"
proof -
  define B1 where "B1 = B\<lparr>gb_mesh := fmupd t (mesh_peers B t) (gb_mesh B)\<rparr>"
  obtain added2 B2 where 2: "join_fanout C t B1 = (added2, B2)" by (cases "join_fanout C t B1")
  obtain added3 B3 where 3: "join_random E C t added2 B2 = (added3, B3)" by (cases "join_random E C t added2 B2")
  have r1: "router_ok K B1" unfolding B1_def by (rule router_mesh_upd [OF assms(2)]) (rule mesh_peers_member [OF assms(2)])
  have r2: "router_ok K B2"
  proof (cases "fmlookup (gb_fanout B1) t")
    case (Some peers)
    define added where "added = fset_of_list (take (min (fcard (ffilter (\<lambda>p. p |\<notin>| gb_explicit_peers B1
      \<and> \<not> is_backoff_with_slack t p (gb_backoffs B1)) peers)) (mesh_n_for_topic C t)) (sorted_list_of_fset (ffilter (\<lambda>p. p |\<notin>| gb_explicit_peers B1
      \<and> \<not> is_backoff_with_slack t p (gb_backoffs B1)) peers)))"
    have "t |\<in>| topics_at B1 p" if "p |\<in>| added" for p
      using that fanout_member [OF r1 Some, of p] by (auto simp: added_def fset_of_list_elem dest!: in_set_takeD)
    then have m: "router_ok K (B1\<lparr>gb_mesh := fmupd t added (gb_mesh B1)\<rparr>)" by (rule router_mesh_upd [OF r1])
    have "B2 = B1\<lparr>gb_mesh := fmupd t added (gb_mesh B1), gb_fanout := fmdrop t (gb_fanout B1), gb_fanout_last_pub := fmdrop t (gb_fanout_last_pub B1)\<rparr>"
      using 2 Some by (auto simp: join_fanout_def Let_def added_def)
    then show ?thesis using router_fanout_drop [OF m, where t = t and m = "fmdrop t (gb_fanout_last_pub B1)"] by simp
  qed (use 2 r1 in \<open>simp add: join_fanout_def\<close>)
  have r3: "router_ok K B3"
  proof (cases "fcard added2 < mesh_n_for_topic C t")
    case True
    then show ?thesis using 3 r2
      by (auto simp: join_random_def Let_def intro!: router_mesh_upd dest: mesh_peers_member random_topics [OF assms(1)])
  qed (use 3 r2 in \<open>simp add: join_random_def\<close>)
  show ?thesis unfolding gs_join_def B1_def [symmetric] Let_def 2 3 prod.case
    by (rule sends_router [OF sends_fold r3]) (rule sends_graft_to [where R = UNIV], simp)
qed

lemma router_leave: "router_ok K B \<Longrightarrow> router_ok K (leave E C t B)"
  by (auto simp: leave_def intro!: sends_router [where R = UNIV, OF sends_fold] sends_prune_to router_mesh_drop split: option.split)

lemma router_subscribe: "fair E \<Longrightarrow> router_ok K B \<Longrightarrow> router_ok K (snd (subscribe E C t B))"
  by (auto simp: subscribe_def intro!: router_join sends_router [where R = UNIV, OF sends_send_all])

lemma router_unsubscribe: "router_ok K B \<Longrightarrow> router_ok K (snd (unsubscribe E C t B))"
  by (auto simp: unsubscribe_def intro!: router_leave sends_router [where R = UNIV, OF sends_send_all])

text \<open>Publishing.\<close>

lemma still_upds:
  "still B (B\<lparr>gb_duplicate_cache := dc\<rparr>)" "still B (B\<lparr>gb_gossip_promises := gp\<rparr>)" "still B (B\<lparr>gb_publish_config := pc\<rparr>)"
  "still B (B\<lparr>gb_fanout_last_pub := l\<rparr>)" "still B (B\<lparr>gb_backoffs := bo\<rparr>)" "still B (B\<lparr>gb_count_sent_iwant := n\<rparr>)"
  "still B (B\<lparr>gb_count_received_ihave := n\<rparr>)" "still B (B\<lparr>gb_explicit_peers := ps\<rparr>)" "still B (B\<lparr>gb_blacklisted_peers := ps\<rparr>)"
  "still B (B\<lparr>gb_px_peers := ps\<rparr>)" "still B (gs_push_event e B)" "still B (B\<lparr>gb_heartbeat_ticks := k\<rparr>)" "still B (B\<lparr>gb_failed_messages := f\<rparr>)"
  by (simp_all add: still_def topics_at_def conns_at_def history_ok_def gs_push_event_def fun_eq_iff)

lemma still_mcache:
  assumes "length (mc_history mc) = length (mc_history (gb_mcache B))" and "mc_gossip mc = mc_gossip (gb_mcache B)"
  shows "still B (B\<lparr>gb_mcache := mc\<rparr>)"
  using assms by (simp add: still_def topics_at_def conns_at_def history_ok_def fun_eq_iff)

lemma mcache_shape [simp]:
  "length (mc_history (snd (mc_put mid m c))) = length (mc_history c)" "mc_gossip (snd (mc_put mid m c)) = mc_gossip c"
  "length (mc_history (observe_duplicate mid p c)) = length (mc_history c)" "mc_gossip (observe_duplicate mid p c) = mc_gossip c"
  "length (mc_history (snd (get_with_iwant_counts mid p c))) = length (mc_history c)" "mc_gossip (snd (get_with_iwant_counts mid p c)) = mc_gossip c"
  "length (mc_history (snd (mc_validate mid c))) = length (mc_history c)" "mc_gossip (snd (mc_validate mid c)) = mc_gossip c"
  "length (mc_history (snd (mc_remove mid c))) = length (mc_history c)" "mc_gossip (snd (mc_remove mid c)) = mc_gossip c"
  "length (mc_history (mc_shift c)) = length (mc_history c)" "mc_gossip (mc_shift c) = mc_gossip c"
  by (simp_all add: mc_put_def observe_duplicate_def get_with_iwant_counts_def mc_validate_def mc_remove_def mc_shift_def Let_def
      split: list.splits option.splits prod.splits)

definition seq_left :: "'p gs_Behaviour \<Rightarrow> nat \<Rightarrow> bool" where
  "seq_left B n = (case gb_publish_config B of Signing _ _ last_seq_no \<Rightarrow> last_seq_no + n < 2 ^ 64 | _ \<Rightarrow> True)"

lemma still_build_raw:
  assumes "seq_left B 1"
  shows "still B (snd (build_raw_message C a n t data B))"
  using assms by (auto simp: build_raw_message_def seq_left_def Let_def intro: still_upds split: PublishConfig.splits option.splits)

lemma router_filter_candidates:
  assumes "fair E" and "router_ok K B" and cand: "\<And>p. p |\<in>| candidates \<Longrightarrow> t |\<in>| topics_at B p"
  shows "router_ok K (snd (filter_publish_candidates E C t candidates B))"
proof -
  have s: "router_ok K (B\<lparr>gb_fanout_last_pub := l\<rparr>)" for l by (rule still_router [OF still_upds(4) assms(2)])
  have "t |\<in>| topics_at B p" if "p |\<in>| sample E (ffilter f candidates) n" for p f n
    using that set_shuffle(1) [OF assms(1)] cand by (auto simp: sample_def fset_of_list_elem dest!: in_set_takeD)
  then have "router_ok K (B\<lparr>gb_fanout_last_pub := l, gb_fanout := fmupd t (sample E (ffilter f candidates) n) (gb_fanout B)\<rparr>)" for l f n
    using router_fanout_upd [OF s [of l], of "sample E (ffilter f candidates) n" t] by simp
  then show ?thesis using assms(2) s by (simp add: filter_publish_candidates_def Let_def split: option.split)
qed

lemma publish_peers_topics: "p |\<in>| publish_peers t B \<Longrightarrow> t |\<in>| topics_at B p"
  by (auto simp: publish_peers_def topics_at_def split: option.splits)

lemma sends_publish_to: "sends (insert (Publish mid raw) (range IDontWantOut)) B (snd (publish_to C mid raw p (sent, B)))"
proof -
  let ?R = "insert (Publish mid raw) (range IDontWantOut)"
  have "sends ?R B (if c then snd (send_message p (IDontWantOut [mid]) B) else B)" for c by (simp add: sends_send_message)
  from sends_trans [OF this sends_send_message [of "Publish mid raw", where p = p]] show ?thesis by (simp add: publish_to_def Let_def split_beta)
qed

lemma sends_publish_all: "sends (insert (Publish mid raw) (range IDontWantOut)) B (snd (fold (publish_to C mid raw) ps (sent, B)))"
proof (induction ps arbitrary: sent B)
  case (Cons p ps)
  obtain sent' B' where 1: "publish_to C mid raw p (sent, B) = (sent', B')" by (cases "publish_to C mid raw p (sent, B)")
  have "sends (insert (Publish mid raw) (range IDontWantOut)) B B'" using sends_publish_to [of mid raw B C p sent] 1 by simp
  from sends_trans [OF this Cons.IH [of B' sent']] show ?case using 1 by simp
qed simp

text \<open>The state in which a message goes out to its recipients.\<close>

definition publish_ready :: "'p gs_env \<Rightarrow> message_id \<Rightarrow> 'p RawMessage \<Rightarrow> 'p gs_Behaviour \<Rightarrow> 'p gs_Behaviour" where
  "publish_ready E mid raw B = B\<lparr>gb_duplicate_cache := snd (dc_insert (env_imax E) (env_now E) mid (gb_duplicate_cache B)),
     gb_mcache := snd (mc_put mid raw (gb_mcache B)), gb_gossip_promises := message_delivered mid (gb_gossip_promises B)\<rparr>"

lemma publish_cases:
  assumes "\<And>e B1. max_transmit_size_for_topic C t < length data \<Longrightarrow> P B"
    and "\<And>r B1. build_raw_message C a n t data B = (r, B1) \<Longrightarrow> P B1"
    and "\<And>raw B1 recipients B2. build_raw_message C a n t data B = (Inr raw, B1)
       \<Longrightarrow> filter_publish_candidates E C t (publish_peers t B1) B1 = (recipients, B2)
       \<Longrightarrow> \<not> dc_contains (gs_message_id_fn C (message_of raw)) (gb_duplicate_cache B1) \<Longrightarrow> P B2"
    and "\<And>raw B1 recipients B2. build_raw_message C a n t data B = (Inr raw, B1)
       \<Longrightarrow> filter_publish_candidates E C t (publish_peers t B1) B1 = (recipients, B2)
       \<Longrightarrow> \<not> dc_contains (gs_message_id_fn C (message_of raw)) (gb_duplicate_cache B1)
       \<Longrightarrow> P (snd (fold (publish_to C (gs_message_id_fn C (message_of raw)) raw) (sorted_list_of_fset recipients)
              (False, publish_ready E (gs_message_id_fn C (message_of raw)) raw B2)))"
  shows "P (snd (publish E C a n t data B))"
proof -
  obtain r B1 where 1: "build_raw_message C a n t data B = (r, B1)" by (cases "build_raw_message C a n t data B")
  show ?thesis
  proof (cases r)
    case (Inl e)
    then show ?thesis using assms(1,2) 1 by (simp add: publish_def)
  next
    case (Inr raw)
    obtain recipients B2 where 2: "filter_publish_candidates E C t (publish_peers t B1) B1 = (recipients, B2)"
      by (cases "filter_publish_candidates E C t (publish_peers t B1) B1")
    show ?thesis using assms(1) assms(2) [OF 1] assms(3,4) [OF 1 [unfolded Inr] 2] 1 2 Inr
      by (simp add: publish_def Let_def split_beta publish_ready_def [symmetric])
  qed
qed

lemma still_publish_ready: "still B (publish_ready E mid raw B)"
  by (simp add: still_def topics_at_def conns_at_def history_ok_def publish_ready_def fun_eq_iff)

lemma router_publish:
  assumes "fair E" and "router_ok K B" and "seq_left B 1"
  shows "router_ok K (snd (publish E C a n t data B))"
proof (rule publish_cases)
  show "router_ok K B" by (rule assms(2))
  show 1: "router_ok K B1" if "build_raw_message C a n t data B = (r, B1)" for r B1
    using still_router [OF still_build_raw [OF assms(3)] assms(2), of C a n t data] that by simp
  show 2: "router_ok K B2" if "build_raw_message C a n t data B = (Inr raw, B1)"
    and f: "filter_publish_candidates E C t (publish_peers t B1) B1 = (recipients, B2)" for raw B1 recipients B2
    using router_filter_candidates [OF assms(1) 1 [OF that(1)], of "publish_peers t B1" t C] publish_peers_topics [of _ t B1] f by simp
  show "router_ok K (snd (fold (publish_to C (gs_message_id_fn C (message_of raw)) raw) (sorted_list_of_fset recipients)
              (False, publish_ready E (gs_message_id_fn C (message_of raw)) raw B2)))"
    if "build_raw_message C a n t data B = (Inr raw, B1)"
    and "filter_publish_candidates E C t (publish_peers t B1) B1 = (recipients, B2)" for raw B1 recipients B2
    by (rule sends_router [OF sends_publish_all still_router [OF still_publish_ready 2 [OF that]]])
qed

text \<open>Verdicts and forwarding.\<close>

lemma sends_forward_to: "sends {Publish mid m} B (forward_to mid m p B)"
  by (simp add: forward_to_def sends_send_message split: option.split)

lemma sends_forward_msg: "sends {Publish mid m} B (snd (forward_msg mid m source originating B))"
  by (simp add: forward_msg_def Let_def sends_fold sends_forward_to)

lemma still_report: "still B (snd (report_message_validation_result mid p a B))"
proof (cases a)
  case Acceptance_Accept
  obtain r mc where v: "mc_validate mid (gb_mcache B) = (r, mc)" by (cases "mc_validate mid (gb_mcache B)")
  have "still B (B\<lparr>gb_mcache := mc\<rparr>)"
    using still_mcache [of mc B] mcache_shape(7) [of mid "gb_mcache B"] mcache_shape(8) [of mid "gb_mcache B"] v by simp
  then show ?thesis using Acceptance_Accept v still_trans [OF _ sends_still [OF sends_forward_msg]]
    by (auto simp: report_message_validation_result_def split: option.split)
qed (use still_mcache [of "snd (mc_remove mid (gb_mcache B))" B] in \<open>auto simp: report_message_validation_result_def split: prod.split\<close>)

text \<open>Gossip.\<close>

lemma still_ask_for: "still B (ask_for E C p mids B)"
proof -
  have "still B (B\<lparr>gb_count_sent_iwant := n, gb_gossip_promises := gp\<rparr>)" for n gp
    using still_trans [OF still_upds(6) still_upds(2)] by blast
  from still_trans [OF this sends_still [OF sends_send_message [of _ UNIV]]] show ?thesis by (simp add: ask_for_def Let_def)
qed

lemma still_handle_ihave: "still B (handle_ihave E C p msgs B)"
  by (simp add: handle_ihave_def Let_def still_upds(7) still_trans [OF still_upds(7) still_ask_for])

lemma still_answer_iwant: "still B (answer_iwant C p mid B)"
proof -
  have "still B (B\<lparr>gb_mcache := snd (get_with_iwant_counts mid p (gb_mcache B))\<rparr>)" by (rule still_mcache) simp_all
  then show ?thesis
    by (simp add: answer_iwant_def Let_def split_beta still_trans [OF _ sends_still [OF sends_send_message [of _ UNIV]]] split: option.split)
qed

lemma still_handle_iwant: "still B (handle_iwant C p mids B)"
  unfolding handle_iwant_def by (rule still_fold) (rule still_answer_iwant)

text \<open>Replacing what is known of a peer, with its topics and connections kept.\<close>

lemma still_set_peer:
  assumes "fmlookup (gb_connected_peers B) p = Some peer" and "pd_topics peer' = pd_topics peer" and "pd_connections peer' = pd_connections peer"
  shows "still B (set_peer p peer' B)"
  using assms fmdomI [OF assms(1)]
  by (auto simp: still_def set_peer_def topics_at_def conns_at_def history_ok_def fun_eq_iff)

lemma still_handle_idontwant: "still B (handle_idontwant E p mids B)"
  by (auto simp: handle_idontwant_def intro!: still_set_peer split: option.split)

lemma still_handle_extensions: "still B (handle_extensions p x B)"
  by (auto simp: handle_extensions_def intro!: still_set_peer split: option.split)

lemma still_handler_pop: "still B (handler_pop p rid B)"
  by (auto simp: handler_pop_def intro!: still_set_peer split: option.split)

lemma still_peer_kind: "still B (handle_peer_kind p kind B)"
  by (auto simp: handle_peer_kind_def intro!: still_set_peer still_upds split: option.split)

text \<open>Grafts and prunes.\<close>

lemma router_graft_one:
  assumes "router_ok K B" and "t' = t \<Longrightarrow> True" and "pd_topics peer = topics_at B p" and "graft_one E C p peer t (tp, px, B) = (tp', px', B')"
  shows "router_ok K B'" and "topics_at B' = topics_at B"
proof -
  let ?M = "B\<lparr>gb_mesh := fmupd t (finsert p (mesh_peers B t)) (gb_mesh B)\<rparr>"
  consider "B' = B" | "B' = peer_added_to_mesh p [t] ?M" and "t |\<in>| topics_at B p"
    using assms(3,4) by (auto simp: graft_one_def mesh_peers_def split: option.splits if_splits)
  then show "router_ok K B'"
  proof cases
    case 2
    have "router_ok K ?M" using 2(2) assms(1) by (auto intro!: router_mesh_upd dest: mesh_peers_member)
    then show ?thesis unfolding 2(1) by (rule sends_router [OF sends_peer_added])
  qed (simp add: assms(1))
  show "topics_at B' = topics_at B"
    using assms(4) by (auto simp: graft_one_def sends_views(1) [OF sends_peer_added] split: option.splits if_splits)
qed

lemma router_grafts:
  assumes "router_ok K B" and "pd_topics peer = topics_at B p"
  shows "router_ok K (snd (snd (fold (graft_one E C p peer) ts (tp, px, B))))"
  using assms
proof (induction ts arbitrary: tp px B)
  case (Cons t ts)
  obtain tp' px' B' where 1: "graft_one E C p peer t (tp, px, B) = (tp', px', B')" by (cases "graft_one E C p peer t (tp, px, B)")
  have "router_ok K B'" and "topics_at B' = topics_at B" by (rule router_graft_one [OF Cons.prems(1) _ Cons.prems(2) 1], simp)+
  with Cons.IH [of B' tp' px'] Cons.prems(2) 1 show ?case by simp
qed simp

lemma sends_make_prunes: "sends R B (snd (make_prunes E C p px ts B))"
proof -
  have "sends R B (snd (fold (\<lambda>t (prunes, B). let (prune, B) = make_prune E C t p px False B in (prunes @ [prune], B)) ts (ps, B)))" for ps
  proof (induction ts arbitrary: ps B)
    case (Cons t ts)
    show ?case using sends_trans [OF sends_make_prune [of R B E C t p px False] Cons.IH] by (simp add: split_beta Let_def)
  qed simp
  then show ?thesis by (simp add: make_prunes_def)
qed

lemma router_handle_graft:
  assumes "router_ok K B"
  shows "router_ok K (handle_graft E C p ts B)"
proof (cases "fmlookup (gb_connected_peers B) p")
  case (Some peer)
  obtain tp px B1 where 1: "fold (graft_one E C p peer) ts ({||}, gs_do_px C, B) = (tp, px, B1)"
    by (cases "fold (graft_one E C p peer) ts ({||}, gs_do_px C, B)")
  have r: "router_ok K B1" using router_grafts [OF assms, of peer p E C ts "{||}" "gs_do_px C"] Some 1 by (simp add: topics_at_def)
  have "router_ok K (send_all xs (snd (make_prunes E C p px us B1)))" for xs us
    using sends_router [OF sends_trans [OF sends_make_prunes sends_send_all [of _ UNIV]] r] by simp
  then show ?thesis using Some 1 assms by (simp add: handle_graft_def split_beta)
qed (simp add: handle_graft_def assms)

lemma router_remove_peer:
  assumes "router_ok K B"
  shows "router_ok K (remove_peer_from_mesh E C p t b u B)"
proof -
  have "router_ok K (B\<lparr>gb_mesh := fmupd t (mesh_peers B t |-| {|p|}) (gb_mesh B)\<rparr>)"
    using assms by (auto intro!: router_mesh_upd dest: mesh_peers_member)
  from sends_router [OF sends_peer_removed this]
  have "router_ok K (if in_mesh B t p then peer_removed_from_mesh p t (B\<lparr>gb_mesh := fmupd t (mesh_peers B t |-| {|p|}) (gb_mesh B)\<rparr>) else B)"
    using assms by simp
  from still_router [OF still_upds(5) this] this assms show ?thesis by (simp add: remove_peer_from_mesh_def Let_def)
qed

lemma still_px_connect: "still B (px_connect E C t px B)"
  unfolding px_connect_def Let_def by (rule still_fold) (rule still_trans [OF still_upds(10) still_upds(11)])

lemma router_handle_prune: "router_ok K B \<Longrightarrow> router_ok K (handle_prune E C p ps B)"
  unfolding handle_prune_def
  by (rule router_fold) (simp_all add: prune_one_def Let_def router_remove_peer still_router [OF still_px_connect])

text \<open>Messages.\<close>

lemma still_message_is_valid: "still B (snd (snd (message_is_valid C mid raw p B)))"
  by (simp add: message_is_valid_def handle_invalid_message_def Let_def still_upds(2) split: option.split)

lemma sends_broadcast: "sends (range IDontWantOut) B (broadcast_idontwant C mid raw p B)"
  by (auto simp: broadcast_idontwant_def intro!: sends_send_all)

text \<open>What becomes of a valid message.\<close>

definition take_message :: "'p::linorder gs_env \<Rightarrow> 'p gs_Config \<Rightarrow> message_id \<Rightarrow> 'p \<Rightarrow> 'p RawMessage \<Rightarrow> 'p gs_Behaviour \<Rightarrow> 'p gs_Behaviour" where
  "take_message E C mid source raw B =
     (let (new, dc) = dc_insert (env_imax E) (env_now E) mid (gb_duplicate_cache B); B = B\<lparr>gb_duplicate_cache := dc\<rparr>
      in if \<not> new then B\<lparr>gb_mcache := observe_duplicate mid source (gb_mcache B)\<rparr>
         else let B = B\<lparr>gb_gossip_promises := message_delivered mid (gb_gossip_promises B),
                        gb_mcache := snd (mc_put mid raw (gb_mcache B))\<rparr>
              in if rm_topic raw |\<notin>| fmdom (gb_mesh B) then B
                 else let B = gs_push_event (Event_Message source mid (message_of raw)) B
                      in if gs_validate_messages C then B else snd (forward_msg mid raw (Some source) {||} B))"

lemma message_of_validated [simp]: "message_of (raw\<lparr>rm_validated := v\<rparr>) = message_of raw"
  by (simp add: message_of_def)

lemma message_is_valid_raw:
  "message_is_valid C mid raw p B = (valid, raw', B') \<Longrightarrow> raw' = raw \<or> raw' = raw\<lparr>rm_validated := True\<rparr> \<and> \<not> gs_validate_messages C"
  by (auto simp: message_is_valid_def Let_def split: if_splits)

lemma handle_received_message_cases:
  assumes "message_is_valid C (gs_message_id_fn C (message_of raw)) raw p (broadcast_idontwant C (gs_message_id_fn C (message_of raw)) raw p B) = (valid, raw', B')"
  shows "handle_received_message E C p raw B = (if valid then take_message E C (gs_message_id_fn C (message_of raw)) p raw' B' else B')"
proof -
  have "message_of raw' = message_of raw" and "rm_topic raw' = rm_topic raw" using message_is_valid_raw [OF assms] by auto
  moreover have "ms_topic (message_of raw) = rm_topic raw" by (simp add: message_of_def)
  ultimately show ?thesis using assms by (simp add: handle_received_message_def take_message_def Let_def split_beta)
qed

lemma still_take_message: "still B (take_message E C mid p raw B)"
proof -
  obtain new dc where d: "dc_insert (env_imax E) (env_now E) mid (gb_duplicate_cache B) = (new, dc)"
    by (cases "dc_insert (env_imax E) (env_now E) mid (gb_duplicate_cache B)")
  have 1: "still B (B\<lparr>gb_duplicate_cache := dc, gb_mcache := observe_duplicate mid p (gb_mcache B)\<rparr>)"
    and 2: "still B (B\<lparr>gb_duplicate_cache := dc, gb_gossip_promises := gp, gb_mcache := snd (mc_put mid raw (gb_mcache B))\<rparr>)" for gp
    by (simp_all add: still_def topics_at_def conns_at_def history_ok_def fun_eq_iff)
  show ?thesis using 1 2 still_trans [OF 2 still_upds(11)]
    by (simp add: take_message_def d Let_def still_trans [OF still_trans [OF 2 still_upds(11)] sends_still [OF sends_forward_msg]])
qed

lemma still_handle_received_message: "still B (handle_received_message E C p raw B)"
proof -
  let ?mid = "gs_message_id_fn C (message_of raw)"
  obtain valid raw' B' where v: "message_is_valid C ?mid raw p (broadcast_idontwant C ?mid raw p B) = (valid, raw', B')"
    by (cases "message_is_valid C ?mid raw p (broadcast_idontwant C ?mid raw p B)")
  have "still B B'" using still_trans [OF sends_still [OF sends_broadcast] still_message_is_valid, of B C ?mid raw p C ?mid raw p] v by simp
  then show ?thesis by (simp add: handle_received_message_cases [OF v] still_trans [OF _ still_take_message])
qed

text \<open>Subscriptions. While a request is worked through, a peer can still be in the mesh of topics it just left; these
  are the ones in \<open>lefts\<close>.\<close>

definition nearly_ok :: "('p \<Rightarrow> nat list) \<Rightarrow> 'p \<Rightarrow> topic_hash set \<Rightarrow> 'p gs_Behaviour \<Rightarrow> bool" where
  "nearly_ok K p lefts B \<longleftrightarrow> (\<forall>t q. in_mesh B t q \<or> in_fanout B t q \<longrightarrow> t |\<in>| topics_at B q \<or> q = p \<and> t \<in> lefts)
     \<and> conns_at B = K \<and> connected_ok B \<and> history_ok B \<and> \<not> gb_panicked B"

lemma nearly_router: "nearly_ok K p {} B \<longleftrightarrow> router_ok K B"
  by (auto simp: nearly_ok_def router_ok_def mesh_ok_def)

lemma view_upds [simp]:
  "conns_at (B\<lparr>gb_mesh := m\<rparr>) = conns_at B" "conns_at (B\<lparr>gb_fanout := m\<rparr>) = conns_at B"
  "connected_ok (B\<lparr>gb_mesh := m\<rparr>) = connected_ok B" "connected_ok (B\<lparr>gb_fanout := m\<rparr>) = connected_ok B"
  "history_ok (B\<lparr>gb_mesh := m\<rparr>) = history_ok B" "history_ok (B\<lparr>gb_fanout := m\<rparr>) = history_ok B"
  "in_fanout (B\<lparr>gb_mesh := m\<rparr>) = in_fanout B" "in_mesh (B\<lparr>gb_fanout := m\<rparr>) = in_mesh B"
  by (simp_all add: conns_at_def connected_ok_def history_ok_def in_fanout_def in_mesh_def fun_eq_iff)

lemma set_peer_views [simp]:
  "topics_at (set_peer p pd B) = (topics_at B)(p := pd_topics pd)" "conns_at (set_peer p pd B) = (conns_at B)(p := pd_connections pd)"
  "fmdom (gb_connected_peers (set_peer p pd B)) = finsert p (fmdom (gb_connected_peers B))"
  "in_mesh (set_peer p pd B) = in_mesh B" "in_fanout (set_peer p pd B) = in_fanout B" "history_ok (set_peer p pd B) = history_ok B"
  "gb_panicked (set_peer p pd B) = gb_panicked B" "mesh_peers (set_peer p pd B) = mesh_peers B" "gb_mesh (set_peer p pd B) = gb_mesh B"
  by (simp_all add: topics_at_def conns_at_def in_mesh_def in_fanout_def history_ok_def mesh_peers_def set_peer_def fun_eq_iff)

lemma connected_set_peer [simp]:
  assumes "fmlookup (gb_connected_peers B) p = Some peer" and "pd_connections pd = pd_connections peer"
  shows "connected_ok (set_peer p pd B) = connected_ok B"
proof -
  have "conns_at B p = pd_connections pd" using assms by (simp add: conns_at_def)
  then have "(conns_at B)(p := pd_connections pd) = conns_at B" by (simp add: fun_upd_idem)
  moreover have "finsert p (fmdom (gb_connected_peers B)) = fmdom (gb_connected_peers B)" using fmdomI [OF assms(1)] by (rule finsert_absorb)
  ultimately show ?thesis unfolding connected_ok_def set_peer_views by (simp only:)
qed

lemma nearly_subscription_one:
  assumes "nearly_ok K p (set lefts) B" and "subscription_one C p s (gr, lefts, ev, B) = (gr', lefts', ev', B')"
  shows "nearly_ok K p (set lefts') B'"
proof (cases "fmlookup (gb_connected_peers B) p")
  case (Some peer)
  define t where "t = sub_topic_hash s"
  have pp: "topics_at B p = pd_topics peer" using Some by (simp add: topics_at_def)
  have cc: "(conns_at B)(p := pd_connections peer) = conns_at B" using Some by (auto simp: conns_at_def)
  show ?thesis
  proof (cases "sub_action s")
    case Subscribe_action
    define B1 where "B1 = set_peer p (peer\<lparr>pd_topics := finsert t (pd_topics peer)\<rparr>) B"
    have 1: "nearly_ok K p (set lefts) B1" using assms(1)
      by (auto simp: nearly_ok_def B1_def Some cc pp [symmetric])
    have "in_mesh (B1\<lparr>gb_mesh := fmupd t (finsert p (mesh_peers B1 t)) (gb_mesh B1)\<rparr>) t' q \<longleftrightarrow> in_mesh B1 t' q \<or> t' = t \<and> q = p" for t' q
      by (auto simp: in_mesh_def mesh_peers_def split: option.split)
    then have 2: "nearly_ok K p (set lefts) (B1\<lparr>gb_mesh := fmupd t (finsert p (mesh_peers B1 t)) (gb_mesh B1)\<rparr>)"
      using 1 by (auto simp: nearly_ok_def B1_def)
    have "lefts' = lefts" and "B' = B1 \<or> B' = B1\<lparr>gb_mesh := fmupd t (finsert p (mesh_peers B1 t)) (gb_mesh B1)\<rparr>"
      using assms(2) Some Subscribe_action by (auto simp: subscription_one_def Let_def B1_def t_def split: if_splits)
    then show ?thesis using 1 2 by auto
  next
    case Unsubscribe_action
    then have "lefts' = lefts @ [t]" and "B' = set_peer p (peer\<lparr>pd_topics := pd_topics peer |-| {|t|}\<rparr>) B"
      using assms(2) Some by (auto simp: subscription_one_def Let_def t_def)
    then show ?thesis using assms(1) by (auto simp: nearly_ok_def Some cc pp [symmetric])
  qed
qed (use assms in \<open>simp add: subscription_one_def\<close>)

lemma nearly_subscriptions:
  assumes "nearly_ok K p (set lefts) B" and "fold (subscription_one C p) ss (gr, lefts, ev, B) = (gr', lefts', ev', B')"
  shows "nearly_ok K p (set lefts') B'"
  using assms
proof (induction ss arbitrary: gr lefts ev B)
  case (Cons s ss)
  obtain gr1 lefts1 ev1 B1 where 1: "subscription_one C p s (gr, lefts, ev, B) = (gr1, lefts1, ev1, B1)"
    by (cases "subscription_one C p s (gr, lefts, ev, B)")
  from Cons.IH [OF nearly_subscription_one [OF Cons.prems(1) 1]] Cons.prems(2) 1 show ?case by simp
qed simp

lemma still_nearly: "still B B' \<Longrightarrow> nearly_ok K p S B \<Longrightarrow> nearly_ok K p S B'"
  using still_connected [of B B'] by (auto simp: still_def nearly_ok_def in_mesh_def in_fanout_def)

lemma nearly_leave_topic:
  assumes "nearly_ok K p (insert t S) B"
  shows "nearly_ok K p S (leave_topic E C p t B)"
proof -
  define B1 where "B1 = (case fmlookup (gb_fanout B) t of None \<Rightarrow> B | Some peers \<Rightarrow> B\<lparr>gb_fanout := fmupd t (peers |-| {|p|}) (gb_fanout B)\<rparr>)"
  define B2 where "B2 = (if in_mesh B1 t p then B1\<lparr>gb_mesh := fmupd t (mesh_peers B1 t |-| {|p|}) (gb_mesh B1)\<rparr> else B1)"
  have f: "in_fanout B1 t' q \<longleftrightarrow> in_fanout B t' q \<and> \<not> (t' = t \<and> q = p)" for t' q
    by (auto simp: B1_def in_fanout_def split: option.split)
  have m: "in_mesh B2 t' q \<longleftrightarrow> in_mesh B1 t' q \<and> \<not> (t' = t \<and> q = p)" for t' q
    by (auto simp: B2_def in_mesh_def mesh_peers_def split: option.splits if_splits)
  have 1: "in_mesh B1 = in_mesh B" "topics_at B1 = topics_at B" "conns_at B1 = conns_at B" "connected_ok B1 = connected_ok B"
    "history_ok B1 = history_ok B" "gb_panicked B1 = gb_panicked B" by (simp_all add: B1_def split: option.split)
  have 2: "in_fanout B2 = in_fanout B1" "topics_at B2 = topics_at B1" "conns_at B2 = conns_at B1" "connected_ok B2 = connected_ok B1"
    "history_ok B2 = history_ok B1" "gb_panicked B2 = gb_panicked B1" by (simp_all add: B2_def)
  have "nearly_ok K p S B2" using assms by (auto simp: nearly_ok_def m f 1 2)
  from still_nearly [OF still_trans [OF sends_still [OF sends_peer_removed] still_upds(5)] this] this
  show ?thesis unfolding leave_topic_def B1_def [symmetric] Let_def
    by (simp add: remove_peer_from_mesh_def B2_def Let_def split: if_splits)
qed

lemma nearly_leaves: "nearly_ok K p (set ts) B \<Longrightarrow> router_ok K (fold (leave_topic E C p) ts B)"
proof (induction ts arbitrary: B)
  case (Cons t ts)
  from Cons.IH [OF nearly_leave_topic] Cons.prems show ?case by simp
qed (simp add: nearly_router)

lemma router_handle_subscriptions:
  assumes "router_ok K B"
  shows "router_ok K (handle_received_subscriptions E C p ss B)"
proof (cases "fmlookup (gb_connected_peers B) p")
  case (Some peer)
  show ?thesis
  proof (cases "filter_incoming_subscriptions ss (pd_topics peer)")
    case (Inr filtered)
    obtain gr lefts ev B1 where 1: "fold (subscription_one C p) filtered ([], [], [], B) = (gr, lefts, ev, B1)"
      by (cases "fold (subscription_one C p) filtered ([], [], [], B)")
    have "nearly_ok K p (set lefts) B1" using nearly_subscriptions [OF _ 1, where K = K] assms by (simp add: nearly_router)
    then have "router_ok K (fold (leave_topic E C p) lefts B1)" by (rule nearly_leaves)
    then have "router_ok K (if gr \<noteq> [] then peer_added_to_mesh p gr (fold (leave_topic E C p) lefts B1) else fold (leave_topic E C p) lefts B1)"
      by (simp add: sends_router [OF sends_peer_added])
    from sends_router [OF sends_send_all [of _ UNIV] this]
    have "router_ok K (fold gs_push_event ev (send_all xs (if gr \<noteq> [] then peer_added_to_mesh p gr (fold (leave_topic E C p) lefts B1) else fold (leave_topic E C p) lefts B1)))" for xs
      by (intro still_router [OF still_fold]) (simp_all add: still_upds)
    then show ?thesis using Some Inr 1 by (simp add: handle_received_subscriptions_def Let_def)
  qed (use Some assms in \<open>simp add: handle_received_subscriptions_def\<close>)
qed (use assms in \<open>simp add: handle_received_subscriptions_def\<close>)

text \<open>A received RPC.\<close>

lemma router_control_one: "router_ok K B \<Longrightarrow> router_ok K (control_one E C p a B)"
  by (simp add: control_one_def still_router [OF still_handle_iwant] still_router [OF still_handle_idontwant]
      still_router [OF still_handle_extensions] split: ControlAction.split option.split)

lemma router_handle_rpc:
  assumes "router_ok K B"
  shows "router_ok K (handle_rpc E C p rpc B)"
proof -
  define B1 where "B1 = (if rpc_subscriptions rpc \<noteq> [] then handle_received_subscriptions E C p (rpc_subscriptions rpc) B else B)"
  define B2 where "B2 = fold (handle_received_message E C p) (rpc_messages rpc) B1"
  define B3 where "B3 = fold (control_one E C p) (rpc_control_msgs rpc) B2"
  have "router_ok K B1" using assms by (simp add: B1_def router_handle_subscriptions)
  then have "router_ok K B2" unfolding B2_def by (rule still_router [OF still_fold [OF still_handle_received_message]])
  then have 3: "router_ok K B3" unfolding B3_def by (rule router_fold [rotated]) (rule router_control_one)
  define B4 where "B4 = (if rpc_ihaves (rpc_control_msgs rpc) \<noteq> [] then handle_ihave E C p (rpc_ihaves (rpc_control_msgs rpc)) B3 else B3)"
  have "router_ok K B4" using 3 by (simp add: B4_def still_router [OF still_handle_ihave])
  then show ?thesis
    unfolding handle_rpc_def Let_def B1_def [symmetric] B2_def [symmetric] B3_def [symmetric] B4_def [symmetric]
    by (simp add: router_handle_graft router_handle_prune)
qed

lemma router_handler_event: "router_ok K B \<Longrightarrow> router_ok K (gs_on_connection_handler_event E C p ev B)"
  by (simp add: gs_on_connection_handler_event_def router_handle_rpc still_router [OF still_peer_kind]
      sends_router [OF sends_fail_message] split: HandlerEvent.split)

text \<open>Connections.\<close>

lemma router_set_peer:
  assumes "router_ok K B" and "pd_connections pd \<noteq> []" and "topics_at B p = pd_topics pd"
  shows "router_ok (K(p := pd_connections pd)) (set_peer p pd B)"
  using assms by (auto simp: router_ok_def mesh_ok_def connected_ok_def)

lemma router_established:
  assumes "router_ok K B"
  shows "router_ok (K(p := K p @ [c])) (established C out p c B)"
proof -
  define peer where "peer = (case fmlookup (gb_connected_peers B) p of None \<Rightarrow> peer_details_new C out | Some peer \<Rightarrow> peer)"
  have "pd_connections peer = K p" "pd_topics peer = topics_at B p"
    using assms by (auto simp: peer_def router_ok_def conns_at_def topics_at_def peer_details_new_def split: option.split)
  with router_set_peer [OF assms, of "peer\<lparr>pd_connections := pd_connections peer @ [c]\<rparr>" p]
  have r: "router_ok (K(p := K p @ [c])) (set_peer p (peer\<lparr>pd_connections := pd_connections peer @ [c]\<rparr>) B)" by simp
  have s: "router_ok (K(p := K p @ [c])) (snd (send_message p ExtensionsOut (set_peer p (peer\<lparr>pd_connections := pd_connections peer @ [c]\<rparr>) B)))"
    by (rule sends_router [OF sends_send_message [of _ UNIV] r]) simp
  show ?thesis unfolding established_def Let_def peer_def [symmetric] using r s by (simp only: if_split) simp
qed

lemma remove_from_topic_views:
  "topics_at (remove_from_topic p t B) = topics_at B" "conns_at (remove_from_topic p t B) = conns_at B"
  "gb_connected_peers (remove_from_topic p t B) = gb_connected_peers B" "history_ok (remove_from_topic p t B) = history_ok B"
  "gb_panicked (remove_from_topic p t B) = gb_panicked B" "gb_px_peers (remove_from_topic p t B) = gb_px_peers B"
  by (simp_all add: remove_from_topic_def Let_def split: option.split)

lemma remove_from_topic_members:
  "in_mesh (remove_from_topic p t B) t' q \<longleftrightarrow> in_mesh B t' q \<and> \<not> (t' = t \<and> q = p)"
  "in_fanout (remove_from_topic p t B) t' q \<longleftrightarrow> in_fanout B t' q \<and> \<not> (t' = t \<and> q = p)"
  by (auto simp: remove_from_topic_def in_mesh_def in_fanout_def Let_def split: option.splits if_splits)

lemma remove_from_topics:
  "topics_at (fold (remove_from_topic p) ts B) = topics_at B" "conns_at (fold (remove_from_topic p) ts B) = conns_at B"
  "gb_connected_peers (fold (remove_from_topic p) ts B) = gb_connected_peers B" "history_ok (fold (remove_from_topic p) ts B) = history_ok B"
  "gb_panicked (fold (remove_from_topic p) ts B) = gb_panicked B"
  "in_mesh (fold (remove_from_topic p) ts B) t' q \<longleftrightarrow> in_mesh B t' q \<and> \<not> (t' \<in> set ts \<and> q = p)"
  "in_fanout (fold (remove_from_topic p) ts B) t' q \<longleftrightarrow> in_fanout B t' q \<and> \<not> (t' \<in> set ts \<and> q = p)"
  by (induction ts arbitrary: B) (auto simp: remove_from_topic_views remove_from_topic_members)

lemma router_disconnected:
  assumes "router_ok K B" and "fmlookup (gb_connected_peers B) p = Some peer"
  shows "router_ok (K(p := [])) (gs_on_connection_closed p c 0 B)"
proof -
  define B1 where "B1 = fold (remove_from_topic p) (sorted_list_of_fset (pd_topics peer)) B"
  define B2 where "B2 = B1\<lparr>gb_px_peers := gb_px_peers B1 |-| {|p|}, gb_connected_peers := fmdrop p (gb_connected_peers B1)\<rparr>"
  have pp: "topics_at B p = pd_topics peer" using assms(2) by (simp add: topics_at_def)
  have "\<not> in_mesh B1 t p \<and> \<not> in_fanout B1 t p" for t
    using assms(1) pp by (auto simp: B1_def remove_from_topics router_ok_def mesh_ok_def)
  moreover have "topics_at B2 = (topics_at B)(p := {||})" "conns_at B2 = (conns_at B)(p := [])"
    "in_mesh B2 = in_mesh B1" "in_fanout B2 = in_fanout B1" "history_ok B2 = history_ok B" "gb_panicked B2 = gb_panicked B"
    by (auto simp: B2_def B1_def remove_from_topics topics_at_def conns_at_def in_mesh_def in_fanout_def fun_eq_iff history_ok_def
        remove_from_topics(4) [unfolded history_ok_def])
  moreover have "in_mesh B1 t q \<Longrightarrow> in_mesh B t q" "in_fanout B1 t q \<Longrightarrow> in_fanout B t q" for t q by (simp_all add: B1_def remove_from_topics)
  moreover have "fmdom (gb_connected_peers B2) = fmdom (gb_connected_peers B) |-| {|p|}"
    by (simp add: B2_def B1_def remove_from_topics)
  ultimately have "router_ok (K(p := [])) B2" using assms(1)
    by (auto simp: router_ok_def mesh_ok_def connected_ok_def)
  then show ?thesis using assms(2) by (simp add: gs_on_connection_closed_def Let_def B1_def B2_def)
qed

lemma router_connection_closed:
  assumes "router_ok K B" and "fmlookup (gb_connected_peers B) p = Some peer" and "n \<noteq> 0" and "c \<in> set (K p)" and "remove1 c (K p) \<noteq> []"
  shows "router_ok (K(p := remove1 c (K p))) (gs_on_connection_closed p c n B)"
proof -
  have k: "pd_connections peer = K p" and t: "topics_at B p = pd_topics peer"
    using assms(1,2) by (auto simp: router_ok_def conns_at_def topics_at_def)
  have r: "router_ok (K(p := remove1 c (K p))) (set_peer p (peer\<lparr>pd_connections := remove1 c (K p)\<rparr>) B)"
    using router_set_peer [OF assms(1), of "peer\<lparr>pd_connections := remove1 c (K p)\<rparr>" p] assms(5) t by simp
  obtain d ds where e: "remove1 c (K p) = d # ds" using assms(5) by (cases "remove1 c (K p)") auto
  from r still_router [OF still_upds(11) r] show ?thesis using assms(2-4) k
    by (simp add: gs_on_connection_closed_def Let_def e)
qed

lemma still_connection_established: "still B (gs_on_connection_established p n B)"
  by (simp add: gs_on_connection_established_def Let_def sends_still [OF sends_send_message [of _ UNIV]])

lemma still_explicit: "still B (add_explicit_peer p B)" "still B (check_explicit_peer_connection p B)"
  by (simp_all add: add_explicit_peer_def check_explicit_peer_connection_def still_upds still_trans [OF still_upds(8) still_upds(11)])

section \<open>The heartbeat\<close>

text \<open>Parameters of a mesh that the configuration is meant to have.\<close>

definition mesh_params_ok :: "'p gs_Config \<Rightarrow> bool" where
  "mesh_params_ok C \<longleftrightarrow> (\<forall>t. mesh_outbound_min_for_topic C t \<le> mesh_n_low_for_topic C t \<and> mesh_n_low_for_topic C t \<le> mesh_n_for_topic C t
     \<and> mesh_n_for_topic C t \<le> mesh_n_high_for_topic C t \<and> mesh_outbound_min_for_topic C t * 2 \<le> mesh_n_for_topic C t)"

lemma maintain_topics:
  assumes "fair E" and "maintain_mesh E C B t ps = (ps', gs, xs, panic)" and "\<And>p. p |\<in>| ps \<Longrightarrow> t |\<in>| topics_at B p" and "p |\<in>| ps'"
  shows "t |\<in>| topics_at B p"
proof -
  have "ps' |\<subseteq>| ps |\<union>| fill_mesh E C B t ps |\<union>| outbound_peers E C B t ((ps |\<union>| fill_mesh E C B t ps) |-| fset_of_list (excess_peers E C B t (ps |\<union>| fill_mesh E C B t ps)))"
    using assms(2) by (auto simp: maintain_mesh_def Let_def)
  then have "p |\<in>| ps |\<union>| fill_mesh E C B t ps |\<union>| outbound_peers E C B t ((ps |\<union>| fill_mesh E C B t ps) |-| fset_of_list (excess_peers E C B t (ps |\<union>| fill_mesh E C B t ps)))"
    using assms(4) by (auto simp: less_eq_fset.rep_eq)
  then show ?thesis using assms(3) random_topics [OF assms(1)]
    by (auto simp: fill_mesh_def outbound_peers_def Let_def split: if_splits)
qed

lemma maintain_no_panic:
  assumes "mesh_params_ok C" and "maintain_mesh E C B t ps = (ps', gs, xs, panic)"
  shows "\<not> panic"
proof -
  have "mesh_n_low_for_topic C t \<le> mesh_n_for_topic C t" "mesh_n_for_topic C t \<le> mesh_n_high_for_topic C t"
    using assms(1) by (simp_all add: mesh_params_ok_def)
  then show ?thesis using assms(2) by (auto simp: maintain_mesh_def Let_def)
qed

lemma router_maintain_topic:
  assumes "fair E" and "mesh_params_ok C" and "router_ok K B" and "maintain_topic E C t (tg, tp, B) = (tg', tp', B')"
  shows "router_ok K B'"
proof -
  obtain ps gs xs panic where m: "maintain_mesh E C B t (mesh_peers B t) = (ps, gs, xs, panic)" by (cases "maintain_mesh E C B t (mesh_peers B t)")
  have "B' = B\<lparr>gb_mesh := fmupd t ps (gb_mesh B)\<rparr>"
    using assms(4) m maintain_no_panic [OF assms(2) m] by (simp add: maintain_topic_def)
  then show ?thesis using maintain_topics [OF assms(1) m] mesh_peers_member [OF assms(3)] by (auto intro: router_mesh_upd [OF assms(3)])
qed

lemma router_maintain_all:
  assumes "fair E" and "mesh_params_ok C" and "router_ok K B"
  shows "router_ok K (snd (snd (fold (maintain_topic E C) ts (tg, tp, B))))"
  using assms(3)
proof (induction ts arbitrary: tg tp B)
  case (Cons t ts)
  obtain tg' tp' B' where 1: "maintain_topic E C t (tg, tp, B) = (tg', tp', B')" by (cases "maintain_topic E C t (tg, tp, B)")
  from Cons.IH [OF router_maintain_topic [OF assms(1,2) Cons.prems 1], of tg' tp'] 1 show ?case by simp
qed simp

lemma router_expire_fanout: "router_ok K B \<Longrightarrow> router_ok K (expire_fanout E C B)"
  by (auto simp: expire_fanout_def router_ok_def mesh_ok_def in_mesh_def in_fanout_def topics_at_def connected_ok_def conns_at_def
      history_ok_def fun_eq_iff split: if_splits)

lemma router_maintain_fanouts:
  assumes "fair E" and "router_ok K B"
  shows "router_ok K (maintain_fanouts E C B)"
proof -
  have "t |\<in>| topics_at B p" if "p |\<in>| maintain_fanout E C B t ps" and "fmlookup (gb_fanout B) t = Some ps" for t ps p
    using that(1) fanout_member [OF assms(2) that(2)] random_topics [OF assms(1)]
    by (auto simp: maintain_fanout_def Let_def split: if_splits)
  then show ?thesis using assms(2)
    by (auto simp: maintain_fanouts_def router_ok_def mesh_ok_def in_mesh_def [of "B\<lparr>gb_fanout := _\<rparr>"] in_fanout_def split: option.splits)
qed

lemma sends_panic_flag: "(connected_ok B \<Longrightarrow> \<not> x) \<Longrightarrow> sends R B (B\<lparr>gb_panicked := (gb_panicked B \<or> x)\<rparr>)"
  by (auto simp: sends_def delivered_def waiting_at_def)

lemma router_emit_gossip: "router_ok K B \<Longrightarrow> router_ok K (emit_gossip E C B)"
  unfolding emit_gossip_def Let_def
  by (rule sends_router [OF sends_send_all [of _ UNIV]]) (auto simp: router_ok_def history_ok_def mesh_ok_def in_mesh_def in_fanout_def
      connected_ok_def conns_at_def fun_eq_iff)

lemma sends_graft_peer:
  assumes "range GraftOut \<subseteq> R" and "range PruneOut \<subseteq> R"
  shows "sends R B (graft_peer E C tg tp p B)"
proof -
  have "sends R B (fold (\<lambda>t. peer_added_to_mesh p [t]) (topics_of tg p) B)" by (rule sends_fold) (rule sends_peer_added)
  note trans = sends_trans [OF sends_trans [OF this sends_make_prunes] sends_send_all]
  show ?thesis unfolding graft_peer_def Let_def split_beta by (rule trans) (use assms in auto)
qed

lemma sends_graft_prune:
  assumes "range GraftOut \<subseteq> R" and "range PruneOut \<subseteq> R"
  shows "sends R B (send_graft_prune E C tg tp B)"
  unfolding send_graft_prune_def Let_def
  by (rule sends_trans [OF sends_fold sends_fold]) (use assms in \<open>auto intro!: sends_graft_peer sends_fold sends_prune_to\<close>)

lemma still_report_failed: "still B (report_failed B)"
proof -
  have "still (B\<lparr>gb_failed_messages := fmempty\<rparr>) (report_failed B)" unfolding report_failed_def
    by (rule still_fold) (simp add: still_upds split: option.split)
  then show ?thesis by (rule still_trans [OF still_upds(13)])
qed

lemma still_heartbeat_start: "still B (heartbeat_start E C B)"
proof -
  define B1 where "B1 = B\<lparr>gb_heartbeat_ticks := gb_heartbeat_ticks B + 1, gb_backoffs := backoff_heartbeat (env_imax E) (env_now E) (gb_backoffs B),
            gb_count_sent_iwant := fmempty, gb_count_received_ihave := fmempty\<rparr>"
  have "still B B1" by (simp add: B1_def still_def topics_at_def conns_at_def history_ok_def fun_eq_iff)
  then show ?thesis unfolding heartbeat_start_def Let_def B1_def [symmetric]
    by (simp add: still_trans [OF _ still_fold [OF still_explicit(2)]])
qed

lemma still_flush: "still B (B\<lparr>gb_connected_peers := fmmap (flush_dont_send now) (gb_connected_peers B)\<rparr>)"
  by (auto simp: still_def topics_at_def conns_at_def history_ok_def flush_dont_send_def fun_eq_iff split: option.split)

lemma router_heartbeat:
  assumes "fair E" and "mesh_params_ok C" and "router_ok K B"
  shows "router_ok K (heartbeat E C B)"
proof -
  define B0 where "B0 = heartbeat_start E C B"
  obtain tg tp B1 where 1: "fold (maintain_topic E C) (sorted_list_of_fset (fmdom (gb_mesh B0))) (fmempty, fmempty, B0) = (tg, tp, B1)"
    by (cases "fold (maintain_topic E C) (sorted_list_of_fset (fmdom (gb_mesh B0))) (fmempty, fmempty, B0)")
  define B2 where "B2 = send_graft_prune E C tg tp (emit_gossip E C (maintain_fanouts E C (expire_fanout E C B1)))"
  have "router_ok K B0" unfolding B0_def by (rule still_router [OF still_heartbeat_start assms(3)])
  from router_maintain_all [OF assms(1,2) this, of "sorted_list_of_fset (fmdom (gb_mesh B0))" fmempty fmempty] 1
  have "router_ok K B1" by simp
  then have "router_ok K B2" unfolding B2_def
    by (intro sends_router [OF sends_graft_prune [of UNIV]] subset_UNIV router_emit_gossip router_maintain_fanouts [OF assms(1)] router_expire_fanout)
  then have "router_ok K (B2\<lparr>gb_mcache := mc_shift (gb_mcache B2)\<rparr>)" by (rule still_router [OF still_mcache, rotated 2]) simp_all
  from still_router [OF still_flush still_router [OF still_report_failed this]] show ?thesis
    by (simp add: heartbeat_def Let_def B0_def [symmetric] 1 B2_def [symmetric])
qed

end
