(* ===== verification/Gossip_Forwarding.thy ===== *)
theory Gossip_Forwarding
  imports Gossip_Router
begin

text \<open>
  What the router lets through: which operations touch the memories of messages at all, and from that, that nothing is
  forwarded before the node has accepted it, and that the node sees each message once.
\<close>

section \<open>Operations that leave the memories alone\<close>

definition control_rpcs :: "'p RpcOut set" where
  "control_rpcs = {r. (\<forall>mid m. r \<noteq> Publish mid m) \<and> (\<forall>mids. r \<noteq> IWantOut mids)}"

lemma control_rpcs_simps [simp]:
  "GraftOut t \<in> control_rpcs" "PruneOut x \<in> control_rpcs" "SubscribeOut t \<in> control_rpcs" "UnsubscribeOut t \<in> control_rpcs"
  "SubscribeMany ts \<in> control_rpcs" "IHaveOut t mids \<in> control_rpcs" "IWantOut mids \<notin> control_rpcs" "IDontWantOut mids \<in> control_rpcs"
  "ExtensionsOut \<in> control_rpcs" "range PruneOut \<subseteq> control_rpcs" "range IDontWantOut \<subseteq> control_rpcs" "Publish mid m \<notin> control_rpcs"
  by (auto simp: control_rpcs_def)

definition control_keeps :: "'p gs_Behaviour \<Rightarrow> 'p gs_Behaviour \<Rightarrow> bool" where
  "control_keeps B B' \<longleftrightarrow> gb_mcache B' = gb_mcache B \<and> gb_duplicate_cache B' = gb_duplicate_cache B \<and> gb_gossip_promises B' = gb_gossip_promises B
     \<and> gb_publish_config B' = gb_publish_config B \<and> gb_count_sent_iwant B' = gb_count_sent_iwant B \<and> delivered B' = delivered B
     \<and> (\<forall>p. waiting_at B' p \<subseteq> waiting_at B p \<union> control_rpcs)"

lemma control_keeps_refl [simp, intro]: "control_keeps B B"
  by (auto simp: control_keeps_def)

lemma control_keeps_trans: "control_keeps B B' \<Longrightarrow> control_keeps B' B'' \<Longrightarrow> control_keeps B B''"
  by (simp add: control_keeps_def) blast

lemma keeps_fold: "(\<And>x B. x \<in> set xs \<Longrightarrow> control_keeps B (f x B)) \<Longrightarrow> control_keeps B (fold f xs B)"
proof (induction xs arbitrary: B)
  case (Cons x xs)
  have "control_keeps B (f x B)" and "control_keeps (f x B) (fold f xs (f x B))" using Cons by simp_all
  then show ?case by (simp add: control_keeps_trans)
qed simp

lemma sends_keeps: "sends control_rpcs B B' \<Longrightarrow> control_keeps B B'"
  using sends_fields [of control_rpcs B B'] by (simp add: control_keeps_def sends_def)

lemma keeps_upds:
  "control_keeps B (B\<lparr>gb_mesh := m\<rparr>)" "control_keeps B (B\<lparr>gb_fanout := m\<rparr>)" "control_keeps B (B\<lparr>gb_fanout_last_pub := l\<rparr>)" "control_keeps B (B\<lparr>gb_backoffs := bo\<rparr>)"
  "control_keeps B (B\<lparr>gb_count_received_ihave := n\<rparr>)" "control_keeps B (B\<lparr>gb_explicit_peers := ps\<rparr>)" "control_keeps B (B\<lparr>gb_blacklisted_peers := ps\<rparr>)"
  "control_keeps B (B\<lparr>gb_px_peers := ps\<rparr>)" "control_keeps B (B\<lparr>gb_heartbeat_ticks := k\<rparr>)" "control_keeps B (B\<lparr>gb_failed_messages := f\<rparr>)" "control_keeps B (B\<lparr>gb_panicked := x\<rparr>)"
  by (auto simp: control_keeps_def delivered_def waiting_at_def)

lemma keeps_set_peer:
  assumes "set (waiting (pd_messages pd)) \<subseteq> waiting_at B p \<union> control_rpcs"
  shows "control_keeps B (set_peer p pd B)"
  using assms by (auto simp: control_keeps_def set_peer_def delivered_def waiting_at_def)

definition quiet :: "'p gs_Event \<Rightarrow> bool" where
  "quiet e = (case e of Event_Message _ _ _ \<Rightarrow> False | _ \<Rightarrow> True)"

lemma keeps_event: "quiet e \<Longrightarrow> control_keeps B (gs_push_event e B)"
  by (rule sends_keeps, rule sends_event) (auto simp: quiet_def)

lemmas keeps_sends = sends_send_message [THEN sends_keeps] sends_send_all [THEN sends_keeps] sends_peer_added [THEN sends_keeps]
  sends_peer_removed [THEN sends_keeps] sends_make_prune [THEN sends_keeps] sends_make_prunes [THEN sends_keeps]
  sends_graft_to [THEN sends_keeps] sends_prune_to [THEN sends_keeps] sends_fail_message [THEN sends_keeps]

lemma keeps_send_all: "snd ` set xs \<subseteq> control_rpcs \<Longrightarrow> control_keeps B (send_all xs B)"
  by (rule sends_keeps) (rule sends_send_all)

text \<open>Joining, leaving, subscriptions.\<close>

lemma keeps_join: "control_keeps B (gs_join E C t B)"
proof -
  define B1 where "B1 = B\<lparr>gb_mesh := fmupd t (mesh_peers B t) (gb_mesh B)\<rparr>"
  have 1: "control_keeps B B1" unfolding B1_def by (rule keeps_upds)
  have 2: "control_keeps B1 (snd (join_fanout C t B1))"
    by (auto simp: join_fanout_def Let_def control_keeps_def delivered_def waiting_at_def split: option.split)
  have 3: "control_keeps B (snd (join_random E C t added B))" for added B by (simp add: join_random_def Let_def keeps_upds)
  have 4: "control_keeps B (fold (graft_to t) ps B)" for ps B by (rule keeps_fold) (rule keeps_sends(7), simp)
  show ?thesis unfolding gs_join_def B1_def [symmetric] Let_def split_beta by (rule control_keeps_trans [OF control_keeps_trans [OF control_keeps_trans [OF 1 2] 3] 4])
qed

lemma keeps_leave: "control_keeps B (leave E C t B)"
  unfolding leave_def by (auto intro!: control_keeps_trans [OF keeps_upds(1) keeps_fold] keeps_sends(8) split: option.split)

lemma keeps_subscribe: "control_keeps B (snd (subscribe E C t B))"
  by (auto simp: subscribe_def intro!: control_keeps_trans [OF keeps_send_all keeps_join])

lemma keeps_unsubscribe: "control_keeps B (snd (unsubscribe E C t B))"
  by (auto simp: unsubscribe_def intro!: control_keeps_trans [OF keeps_send_all keeps_leave])

lemma keeps_remove_peer: "control_keeps B (remove_peer_from_mesh E C p t b u B)"
proof -
  define B1 where "B1 = (if in_mesh B t p then peer_removed_from_mesh p t (B\<lparr>gb_mesh := fmupd t (mesh_peers B t |-| {|p|}) (gb_mesh B)\<rparr>) else B)"
  have "control_keeps B B1" by (simp add: B1_def control_keeps_trans [OF keeps_upds(1) keeps_sends(4)])
  then show ?thesis unfolding remove_peer_from_mesh_def Let_def B1_def [symmetric] by (simp add: control_keeps_trans [OF _ keeps_upds(4)])
qed

lemma keeps_leave_topic: "control_keeps B (leave_topic E C p t B)"
  unfolding leave_topic_def Let_def by (rule control_keeps_trans [OF _ keeps_remove_peer]) (simp add: keeps_upds split: option.split)

lemma keeps_subscription_one:
  assumes "subscription_one C p s (gr, lefts, ev, B) = (gr', lefts', ev', B')"
  shows "control_keeps B B'" and "list_all quiet ev \<Longrightarrow> list_all quiet ev'"
proof -
  show "control_keeps B B'"
  proof (cases "fmlookup (gb_connected_peers B) p")
    case (Some peer)
    have k: "control_keeps B (set_peer p (peer\<lparr>pd_topics := ts\<rparr>) B)" for ts by (rule keeps_set_peer) (simp add: waiting_at_def Some)
    from this control_keeps_trans [OF k keeps_upds(1)] show ?thesis using assms Some
      by (auto simp: subscription_one_def Let_def split: SubscriptionAction.splits if_splits)
  qed (use assms in \<open>simp add: subscription_one_def\<close>)
  show "list_all quiet ev'" if "list_all quiet ev"
    using assms that by (auto simp: subscription_one_def Let_def quiet_def split: option.splits SubscriptionAction.splits)
qed

lemma keeps_subscriptions:
  assumes "fold (subscription_one C p) ss (gr, lefts, ev, B) = (gr', lefts', ev', B')"
    and "list_all quiet ev"
  shows "control_keeps B B' \<and> list_all quiet ev'"
  using assms
proof (induction ss arbitrary: gr lefts ev B)
  case (Cons s ss)
  obtain gr1 lefts1 ev1 B1 where 1: "subscription_one C p s (gr, lefts, ev, B) = (gr1, lefts1, ev1, B1)"
    by (cases "subscription_one C p s (gr, lefts, ev, B)")
  from Cons.IH [of gr1 lefts1 ev1 B1] Cons.prems 1 keeps_subscription_one [OF 1] control_keeps_trans [of B B1 B'] show ?case by simp
qed simp

lemma keeps_handle_subscriptions: "control_keeps B (handle_received_subscriptions E C p ss B)"
proof (cases "fmlookup (gb_connected_peers B) p")
  case (Some peer)
  show ?thesis
  proof (cases "filter_incoming_subscriptions ss (pd_topics peer)")
    case (Inr filtered)
    obtain gr lefts ev B1 where 1: "fold (subscription_one C p) filtered ([], [], [], B) = (gr, lefts, ev, B1)"
      by (cases "fold (subscription_one C p) filtered ([], [], [], B)")
    have k: "control_keeps B B1" "list_all quiet ev" using keeps_subscriptions [OF 1] by simp_all
    define B2 where "B2 = fold (leave_topic E C p) lefts B1"
    define B3 where "B3 = (if gr \<noteq> [] then peer_added_to_mesh p gr B2 else B2)"
    have "control_keeps B1 B2" unfolding B2_def by (rule keeps_fold) (rule keeps_leave_topic)
    moreover have "control_keeps B2 B3" by (simp add: B3_def keeps_sends(3))
    moreover have "control_keeps B3 (send_all (map (\<lambda>t. (p, GraftOut t)) gr) B3)" by (rule keeps_send_all) auto
    moreover have "control_keeps B' (fold gs_push_event ev B')" for B' by (rule keeps_fold) (use k in \<open>auto intro: keeps_event simp: list_all_iff\<close>)
    ultimately have "control_keeps B (fold gs_push_event ev (send_all (map (\<lambda>t. (p, GraftOut t)) gr) B3))" using k(1) by (meson control_keeps_trans)
    then show ?thesis
      by (simp only: handle_received_subscriptions_def Some Inr option.case sum.case 1 Let_def prod.case B2_def [symmetric] B3_def [symmetric])
  qed (use Some in \<open>simp add: handle_received_subscriptions_def\<close>)
qed (simp add: handle_received_subscriptions_def)

text \<open>Grafts, prunes, and what is known of a peer.\<close>

lemma keeps_graft_one: "graft_one E C p peer t (tp, px, B) = (tp', px', B') \<Longrightarrow> control_keeps B B'"
  by (auto simp: graft_one_def control_keeps_trans [OF keeps_upds(1) keeps_sends(3)] split: option.splits if_splits)

lemma keeps_grafts: "control_keeps B (snd (snd (fold (graft_one E C p peer) ts (tp, px, B))))"
proof (induction ts arbitrary: tp px B)
  case (Cons t ts)
  obtain tp' px' B' where 1: "graft_one E C p peer t (tp, px, B) = (tp', px', B')" by (cases "graft_one E C p peer t (tp, px, B)")
  from control_keeps_trans [OF keeps_graft_one [OF 1] Cons.IH [of B' tp' px']] 1 show ?case by simp
qed simp

lemma keeps_handle_graft: "control_keeps B (handle_graft E C p ts B)"
proof (cases "fmlookup (gb_connected_peers B) p")
  case (Some peer)
  obtain tp px B1 where 1: "fold (graft_one E C p peer) ts ({||}, gs_do_px C, B) = (tp, px, B1)"
    by (cases "fold (graft_one E C p peer) ts ({||}, gs_do_px C, B)")
  have "control_keeps B B1" using keeps_grafts [of B E C p peer ts "{||}" "gs_do_px C"] 1 by simp
  moreover have "control_keeps B1 (snd (make_prunes E C p px us B1))" for us by (rule keeps_sends)
  moreover have "control_keeps B2 (send_all (map (\<lambda>prune. (p, PruneOut prune)) ps) B2)" for ps B2 by (rule keeps_send_all) auto
  ultimately have "control_keeps B (send_all (map (\<lambda>prune. (p, PruneOut prune)) ps) (snd (make_prunes E C p px us B1)))" for ps us by (meson control_keeps_trans)
  then show ?thesis using Some 1 by (simp add: handle_graft_def split_beta)
qed (simp add: handle_graft_def)

lemma keeps_px_connect: "control_keeps B (px_connect E C t px B)"
  unfolding px_connect_def Let_def by (rule keeps_fold) (auto simp: quiet_def intro!: control_keeps_trans [OF keeps_upds(8) keeps_event])

lemma keeps_handle_prune: "control_keeps B (handle_prune E C p ps B)"
  unfolding handle_prune_def
  by (rule keeps_fold) (simp add: prune_one_def Let_def keeps_remove_peer control_keeps_trans [OF keeps_remove_peer keeps_px_connect])

lemma remove_data_waiting: "set (waiting (snd (remove_data_messages mids q))) \<subseteq> set (waiting q)"
  by (auto simp: remove_data_messages_def shared_retain_def waiting_def)

lemma keeps_handle_idontwant: "control_keeps B (handle_idontwant E p mids B)"
proof (cases "fmlookup (gb_connected_peers B) p")
  case (Some peer)
  then show ?thesis using remove_data_waiting [of mids "pd_messages peer"]
    by (auto simp: handle_idontwant_def waiting_at_def intro!: keeps_set_peer)
qed (simp add: handle_idontwant_def)

lemma keeps_handle_extensions: "control_keeps B (handle_extensions p x B)"
  by (auto simp: handle_extensions_def waiting_at_def intro!: keeps_set_peer split: option.split)

lemma keeps_handler_pop: "control_keeps B (handler_pop p rid B)"
proof (cases "fmlookup (gb_connected_peers B) p")
  case (Some peer)
  have "set (waiting (snd (queue_poll_pop rid (pd_messages peer)))) \<subseteq> set (waiting (pd_messages peer))"
    unfolding pop_waiting(2) by (cases "waiting (pd_messages peer)") auto
  then show ?thesis using Some by (auto simp: handler_pop_def waiting_at_def intro!: keeps_set_peer)
qed (simp add: handler_pop_def)

lemma keeps_peer_kind: "control_keeps B (handle_peer_kind p kind B)"
  by (auto simp: handle_peer_kind_def quiet_def waiting_at_def intro!: keeps_set_peer keeps_event split: option.split)

text \<open>Connections.\<close>

lemma waiting_new [simp]: "waiting (queue_new n) = []"
  by (simp add: queue_new_def waiting_def shared_new_def shared_with_capacity_def)

lemma keeps_established: "control_keeps B (established C out p c B)"
proof -
  define peer where "peer = (case fmlookup (gb_connected_peers B) p of None \<Rightarrow> peer_details_new C out | Some peer \<Rightarrow> peer)"
  have "set (waiting (pd_messages peer)) \<subseteq> waiting_at B p"
    by (auto simp: peer_def waiting_at_def peer_details_new_def split: option.splits)
  then have k: "control_keeps B (set_peer p (peer\<lparr>pd_connections := cs\<rparr>) B)" for cs by (intro keeps_set_peer) auto
  show ?thesis unfolding established_def Let_def peer_def [symmetric]
    by (simp add: k control_keeps_trans [OF k keeps_sends(1) [of ExtensionsOut]])
qed

lemma keeps_connection_established: "control_keeps B (gs_on_connection_established p n B)"
  by (simp add: gs_on_connection_established_def Let_def keeps_sends(1))

lemma keeps_remove_from_topic: "control_keeps B (remove_from_topic p t B)"
proof -
  define B1 where "B1 = (case fmlookup (gb_mesh B) t of None \<Rightarrow> B | Some ps \<Rightarrow> B\<lparr>gb_mesh := fmupd t (ps |-| {|p|}) (gb_mesh B)\<rparr>)"
  have "control_keeps B B1" by (simp add: B1_def keeps_upds split: option.split)
  then show ?thesis unfolding remove_from_topic_def Let_def B1_def [symmetric]
    by (simp add: control_keeps_trans [OF _ keeps_upds(2)] split: option.split)
qed

lemma keeps_drop: "control_keeps B (B\<lparr>gb_px_peers := ps, gb_connected_peers := fmdrop p (gb_connected_peers B)\<rparr>)"
  by (auto simp: control_keeps_def delivered_def waiting_at_def)

lemma keeps_connection_closed: "control_keeps B (gs_on_connection_closed p c n B)"
proof (cases "fmlookup (gb_connected_peers B) p")
  case (Some peer)
  have f: "control_keeps B (fold (remove_from_topic p) ts B)" for ts by (rule keeps_fold) (rule keeps_remove_from_topic)
  have k: "control_keeps B (set_peer p (peer\<lparr>pd_connections := cs\<rparr>) B)" for cs using Some by (auto simp: waiting_at_def intro!: keeps_set_peer)
  show ?thesis using Some
    by (simp add: gs_on_connection_closed_def Let_def quiet_def k keeps_upds(11) control_keeps_trans [OF k keeps_event] control_keeps_trans [OF f keeps_drop] split: list.split)
qed (simp add: gs_on_connection_closed_def)

lemma keeps_explicit: "control_keeps B (add_explicit_peer p B)" "control_keeps B (check_explicit_peer_connection p B)"
  by (simp_all add: add_explicit_peer_def check_explicit_peer_connection_def keeps_upds quiet_def keeps_event control_keeps_trans [OF keeps_upds(6) keeps_event])

text \<open>The parts of a heartbeat.\<close>

lemma keeps_maintain_all: "control_keeps B (snd (snd (fold (maintain_topic E C) ts (tg, tp, B))))"
proof (induction ts arbitrary: tg tp B)
  case (Cons t ts)
  obtain tg' tp' B' where 1: "maintain_topic E C t (tg, tp, B) = (tg', tp', B')" by (cases "maintain_topic E C t (tg, tp, B)")
  have "control_keeps B B'" using 1 by (auto simp: maintain_topic_def Let_def split_beta intro: control_keeps_trans [OF keeps_upds(1) keeps_upds(11)])
  from control_keeps_trans [OF this Cons.IH [of B' tg' tp']] 1 show ?case by simp
qed simp

lemma keeps_fanouts: "control_keeps B (maintain_fanouts E C (expire_fanout E C B))"
proof -
  have "control_keeps B (expire_fanout E C B)" by (simp add: expire_fanout_def Let_def control_keeps_trans [OF keeps_upds(2) keeps_upds(3)])
  then show ?thesis by (simp add: maintain_fanouts_def control_keeps_trans [OF _ keeps_upds(2)])
qed

lemma gossip_rpcs_control: "snd ` set (gossip_rpcs E C B fanout m) \<subseteq> control_rpcs"
  by (auto simp: gossip_rpcs_def gossip_about_def Let_def split: option.splits list.splits)

lemma keeps_emit_gossip: "control_keeps B (emit_gossip E C B)"
  unfolding emit_gossip_def Let_def
  by (rule control_keeps_trans [OF keeps_upds(11) keeps_send_all]) (simp only: set_append image_Un Un_subset_iff gossip_rpcs_control simp_thms)

lemma keeps_graft_prune: "control_keeps B (send_graft_prune E C tg tp B)"
  by (rule sends_keeps, rule sends_graft_prune) auto

lemma keeps_report_failed: "control_keeps B (report_failed B)"
proof -
  have "control_keeps (B\<lparr>gb_failed_messages := fmempty\<rparr>) (report_failed B)" unfolding report_failed_def
    by (rule keeps_fold) (auto simp: quiet_def intro!: keeps_event split: option.split)
  then show ?thesis by (rule control_keeps_trans [OF keeps_upds(10)])
qed

lemma keeps_flush: "control_keeps B (B\<lparr>gb_connected_peers := fmmap (flush_dont_send now) (gb_connected_peers B)\<rparr>)"
  by (auto simp: control_keeps_def delivered_def waiting_at_def flush_dont_send_def split: option.splits)

section \<open>Invariants of the memories\<close>

text \<open>What an invariant of the memories has to be kept by, for a set \<open>ok\<close> of operations; it is then kept by all of them.\<close>

locale memory_invariant =
  fixes C :: "'p::linorder gs_Config" and ok :: "'p gs_env \<Rightarrow> 'p gs_op \<Rightarrow> bool" and I :: "'p gs_Behaviour \<Rightarrow> bool"
  assumes keeps_I: "control_keeps B B' \<Longrightarrow> I B \<Longrightarrow> I B'"
    and message_I: "ok E (Handler_event p (Handler_Message rpc invalid)) \<Longrightarrow> raw \<in> set (rpc_messages rpc) \<Longrightarrow> I B \<Longrightarrow> I (handle_received_message E C p raw B)"
    and ihave_I: "ok E (Handler_event p (Handler_Message rpc invalid)) \<Longrightarrow> I B \<Longrightarrow> I (handle_ihave E C p msgs B)"
    and iwant_I: "I B \<Longrightarrow> I (answer_iwant C p mid B)"
    and report_I: "ok E (Report mid p a) \<Longrightarrow> I B \<Longrightarrow> I (snd (report_message_validation_result mid p a B))"
    and publish_I: "ok E (Publish_message q n t data) \<Longrightarrow> I B \<Longrightarrow> I (snd (publish E C q n t data B))"
    and clear_I: "I B \<Longrightarrow> I (B\<lparr>gb_count_sent_iwant := fmempty\<rparr>)"
    and shift_I: "I B \<Longrightarrow> I (B\<lparr>gb_mcache := mc_shift (gb_mcache B)\<rparr>)"
begin

lemma fold_I: "(\<And>x B. x \<in> set xs \<Longrightarrow> I B \<Longrightarrow> I (f x B)) \<Longrightarrow> I B \<Longrightarrow> I (fold f xs B)"
  by (induction xs arbitrary: B) simp_all

lemma control_I: "I B \<Longrightarrow> I (control_one E C p a B)"
  by (simp add: control_one_def handle_iwant_def fold_I iwant_I keeps_I [OF keeps_handle_idontwant] keeps_I [OF keeps_handle_extensions]
      split: ControlAction.split option.split)

lemma rpc_I:
  assumes "ok E (Handler_event p (Handler_Message rpc invalid))" and "I B"
  shows "I (handle_rpc E C p rpc B)"
proof -
  define B1 where "B1 = (if rpc_subscriptions rpc \<noteq> [] then handle_received_subscriptions E C p (rpc_subscriptions rpc) B else B)"
  define B2 where "B2 = fold (handle_received_message E C p) (rpc_messages rpc) B1"
  define B3 where "B3 = fold (control_one E C p) (rpc_control_msgs rpc) B2"
  define B4 where "B4 = (if rpc_ihaves (rpc_control_msgs rpc) \<noteq> [] then handle_ihave E C p (rpc_ihaves (rpc_control_msgs rpc)) B3 else B3)"
  have "I B1" using assms(2) by (simp add: B1_def keeps_I [OF keeps_handle_subscriptions])
  then have "I B2" unfolding B2_def by (rule fold_I [rotated]) (rule message_I [OF assms(1)])
  then have "I B3" unfolding B3_def by (rule fold_I [rotated]) (rule control_I)
  then have "I B4" using ihave_I [OF assms(1)] by (simp add: B4_def)
  then show ?thesis unfolding handle_rpc_def Let_def B1_def [symmetric] B2_def [symmetric] B3_def [symmetric] B4_def [symmetric]
    by (simp add: keeps_I [OF keeps_handle_graft] keeps_I [OF keeps_handle_prune])
qed

lemma heartbeat_I:
  assumes "I B"
  shows "I (heartbeat E C B)"
proof -
  define B0 where "B0 = heartbeat_start E C B"
  define Bs where "Bs = B\<lparr>gb_heartbeat_ticks := gb_heartbeat_ticks B + 1, gb_backoffs := backoff_heartbeat (env_imax E) (env_now E) (gb_backoffs B),
            gb_count_sent_iwant := fmempty, gb_count_received_ihave := fmempty\<rparr>"
  obtain tg tp B1 where 1: "fold (maintain_topic E C) (sorted_list_of_fset (fmdom (gb_mesh B0))) (fmempty, fmempty, B0) = (tg, tp, B1)"
    by (cases "fold (maintain_topic E C) (sorted_list_of_fset (fmdom (gb_mesh B0))) (fmempty, fmempty, B0)")
  define B2 where "B2 = send_graft_prune E C tg tp (emit_gossip E C (maintain_fanouts E C (expire_fanout E C B1)))"
  have "control_keeps (B\<lparr>gb_count_sent_iwant := fmempty\<rparr>) Bs" by (auto simp: Bs_def control_keeps_def delivered_def waiting_at_def)
  then have "I Bs" using clear_I [OF assms] by (rule keeps_I)
  then have "I B0" unfolding B0_def heartbeat_start_def Let_def Bs_def [symmetric]
    by (simp add: keeps_I [OF keeps_fold [OF keeps_explicit(2)]])
  moreover have "control_keeps B0 B1" using keeps_maintain_all [of B0 E C "sorted_list_of_fset (fmdom (gb_mesh B0))" fmempty fmempty] 1 by simp
  ultimately have "I B2" unfolding B2_def
    by (intro keeps_I [OF keeps_graft_prune] keeps_I [OF keeps_emit_gossip] keeps_I [OF keeps_fanouts]) (rule keeps_I)
  then have "I (B2\<lparr>gb_mcache := mc_shift (gb_mcache B2)\<rparr>)" by (rule shift_I)
  from keeps_I [OF keeps_flush keeps_I [OF keeps_report_failed this]] show ?thesis
    by (simp add: heartbeat_def Let_def B0_def [symmetric] 1 B2_def [symmetric])
qed

lemma step_I:
  assumes "ok E op" and "I B"
  shows "I (gs_step C E op B)"
proof (cases op)
  case (Handler_event p ev)
  then show ?thesis using assms
    by (cases ev) (auto simp: gs_on_connection_handler_event_def intro: rpc_I keeps_I [OF keeps_peer_kind] keeps_I [OF keeps_sends(9)])
qed (use assms in \<open>simp_all add: handle_established_inbound_connection_def handle_established_outbound_connection_def keeps_I [OF keeps_established]
    keeps_I [OF keeps_connection_established] keeps_I [OF keeps_connection_closed] keeps_I [OF keeps_handler_pop] heartbeat_I
    keeps_I [OF keeps_subscribe] keeps_I [OF keeps_unsubscribe] publish_I report_I keeps_I [OF keeps_explicit(1)] remove_explicit_peer_def
    blacklist_peer_def remove_blacklisted_peer_def keeps_I [OF keeps_upds(6)] keeps_I [OF keeps_upds(7)]\<close>)

lemma run_I:
  assumes "\<And>E op. (E, op) \<in> set ops \<Longrightarrow> ok E op" and "I B"
  shows "I (gs_run C ops B)"
  unfolding gs_run_def using assms by (intro fold_I) (auto simp: split_beta intro: step_I)

end

end
