(* ===== verification/Gossip_Safety.thy ===== *)
theory Gossip_Safety
  imports Gossip_Forwarding
begin

text \<open>
  The guarantees of the router under every sequence of operations: it does not panic and its meshes hold subscribed
  peers only; it forwards what the node accepted and nothing else; it shows the node each message once; it limits what a
  peer makes it ask for; and what the heartbeat makes of a mesh.
\<close>

section \<open>No panic\<close>

fun is_publish :: "'p gs_op \<Rightarrow> bool" where
  "is_publish (Publish_message p n t data) = True"
| "is_publish _ = False"

lemma seq_left_cong: "gb_publish_config B' = gb_publish_config B \<Longrightarrow> seq_left B' n = seq_left B n"
  by (simp add: seq_left_def)

lemma config_take_message: "gb_publish_config (take_message E C mid p raw B) = gb_publish_config B"
  by (simp add: take_message_def Let_def split_beta gs_push_event_def sends_fields(1) [OF sends_forward_msg])

lemma config_message: "gb_publish_config (handle_received_message E C p raw B) = gb_publish_config B"
proof -
  let ?mid = "gs_message_id_fn C (message_of raw)"
  obtain valid raw' B' where v: "message_is_valid C ?mid raw p (broadcast_idontwant C ?mid raw p B) = (valid, raw', B')"
    by (cases "message_is_valid C ?mid raw p (broadcast_idontwant C ?mid raw p B)")
  have "gb_publish_config B' = gb_publish_config (broadcast_idontwant C ?mid raw p B)"
    using v by (auto simp: message_is_valid_def handle_invalid_message_def Let_def split: if_splits)
  then show ?thesis by (simp add: handle_received_message_cases [OF v] config_take_message sends_fields(1) [OF sends_broadcast])
qed

lemma config_ihave: "gb_publish_config (handle_ihave E C p msgs B) = gb_publish_config B"
  by (simp add: handle_ihave_def ask_for_def Let_def sends_fields(1) [OF sends_send_message [of _ UNIV]])

lemma config_iwant: "gb_publish_config (answer_iwant C p mid B) = gb_publish_config B"
  by (simp add: answer_iwant_def Let_def split_beta sends_fields(1) [OF sends_send_message [of _ UNIV]] split: option.split)

lemma config_report: "gb_publish_config (snd (report_message_validation_result mid p a B)) = gb_publish_config B"
  by (simp add: report_message_validation_result_def split_beta sends_fields(1) [OF sends_forward_msg] split: MessageAcceptance.split option.split prod.split)

interpretation seq: memory_invariant C "\<lambda>E op. \<not> is_publish op" "\<lambda>B. seq_left B n" for C n
  by unfold_locales (simp_all add: control_keeps_def seq_left_def config_message config_ihave config_iwant config_report)

lemma config_filter_candidates: "gb_publish_config (snd (filter_publish_candidates E C t cs B)) = gb_publish_config B"
  by (simp add: filter_publish_candidates_def Let_def split: option.split)

lemma seq_build: "seq_left B (Suc n) \<Longrightarrow> seq_left (snd (build_raw_message C a k t data B)) n"
  by (auto simp: build_raw_message_def seq_left_def Let_def split: PublishConfig.splits option.splits)

lemma seq_mono: "seq_left B n \<Longrightarrow> m \<le> n \<Longrightarrow> seq_left B m"
  by (auto simp: seq_left_def split: PublishConfig.splits)

lemma seq_publish:
  assumes "seq_left B (Suc n)"
  shows "seq_left (snd (publish E C a k t data B)) n"
proof (rule publish_cases)
  show "seq_left B n" using assms by (rule seq_mono) simp
  show 1: "seq_left B1 n" if "build_raw_message C a k t data B = (r, B1)" for r B1
    using seq_build [OF assms, of C a k t data] that by simp
  show 2: "seq_left B2 n" if "build_raw_message C a k t data B = (Inr raw, B1)"
    and f: "filter_publish_candidates E C t (publish_peers t B1) B1 = (recipients, B2)" for raw B1 recipients B2
    using seq_left_cong [OF config_filter_candidates, of E C t "publish_peers t B1" B1 n] 1 [OF that(1)] f by simp
  show "seq_left (snd (fold (publish_to C (gs_message_id_fn C (message_of raw)) raw) (sorted_list_of_fset recipients)
              (False, publish_ready E (gs_message_id_fn C (message_of raw)) raw B2))) n"
    if "build_raw_message C a k t data B = (Inr raw, B1)"
    and "filter_publish_candidates E C t (publish_peers t B1) B1 = (recipients, B2)" for raw B1 recipients B2
    using 2 [OF that] by (simp add: seq_left_def sends_fields(1) [OF sends_publish_all] publish_ready_def)
qed

lemma seq_step: "seq_left B (Suc n) \<Longrightarrow> seq_left (gs_step C E op B) n"
  by (cases "is_publish op", cases op) (auto intro: seq_publish seq.step_I seq_mono)

text \<open>The connections the router knows are the live ones.\<close>

definition linked :: "('p \<times> nat) list \<Rightarrow> ('p \<Rightarrow> nat list) \<Rightarrow> bool" where
  "linked L K \<longleftrightarrow> distinct (map snd L) \<and> (\<forall>p. mset (K p) = mset (map snd (filter (\<lambda>x. fst x = p) L)))"

lemma linked_add: "linked L K \<Longrightarrow> c \<notin> snd ` set L \<Longrightarrow> linked ((p, c) # L) (K(p := K p @ [c]))"
  by (auto simp: linked_def)

lemma filter_one:
  assumes "distinct (map snd L)" and "(p, c) \<in> set L"
  shows "filter (\<lambda>x. fst x = q) (filter (\<lambda>x. x \<noteq> (p, c)) L) = (if q = p then remove1 (p, c) (filter (\<lambda>x. fst x = p) L) else filter (\<lambda>x. fst x = q) L)"
proof -
  have d: "distinct L" using assms(1) by (simp add: distinct_map)
  then have "filter (\<lambda>x. x \<noteq> (p, c)) L = remove1 (p, c) L" by (simp add: distinct_remove1_removeAll removeAll_filter_not_eq eq_commute [of _ "(p, c)"])
  then show ?thesis by (simp add: filter_remove1 remove1_idem)
qed

lemma linked_remove:
  assumes "linked L K" and "(p, c) \<in> set L"
  shows "linked (filter (\<lambda>x. x \<noteq> (p, c)) L) (K(p := remove1 c (K p)))" and "c \<in> set (K p)"
    and "length (remove1 c (K p)) = length (filter (\<lambda>x. fst x = p) (filter (\<lambda>x. x \<noteq> (p, c)) L))"
proof -
  have d: "distinct (map snd L)" and m: "\<And>q. mset (K q) = mset (map snd (filter (\<lambda>x. fst x = q) L))" using assms(1) by (auto simp: linked_def)
  show c: "c \<in> set (K p)" using arg_cong [OF m [of p], of set_mset] assms(2) by force
  have r: "mset (map snd (remove1 (p, c) (filter (\<lambda>x. fst x = p) L))) = mset (remove1 c (K p))"
    using assms(2) by (simp add: m mset_map [symmetric] del: mset_map) (simp add: image_mset_Diff)
  have "mset ((K(p := remove1 c (K p))) q) = mset (map snd (filter (\<lambda>x. fst x = q) (filter (\<lambda>x. x \<noteq> (p, c)) L)))" for q
  proof (cases "q = p")
    case True
    then show ?thesis by (simp only: filter_one [OF d assms(2)] refl if_True r fun_upd_same)
  next
    case False
    then show ?thesis by (simp only: filter_one [OF d assms(2)] if_False m fun_upd_apply)
  qed
  then show "linked (filter (\<lambda>x. x \<noteq> (p, c)) L) (K(p := remove1 c (K p)))" unfolding linked_def using d by (simp only: distinct_map_filter simp_thms)
  show "length (remove1 c (K p)) = length (filter (\<lambda>x. fst x = p) (filter (\<lambda>x. x \<noteq> (p, c)) L))"
    using arg_cong [OF r, of size] by (simp only: filter_one [OF d assms(2)] refl if_True size_mset length_map)
qed

lemma router_step:
  assumes "fair E" and "mesh_params_ok C" and "router_ok K B" and "seq_left B 1" and "linked L K" and "swarm_step op L = Some L'"
  shows "\<exists>K'. router_ok K' (gs_step C E op B) \<and> linked L' K'"
proof (cases "\<exists>p c n. op = Connection_closed p c n")
  case True
  then obtain p c n where op: "op = Connection_closed p c n" by blast
  have in_L: "(p, c) \<in> set L" and L': "L' = filter (\<lambda>x. x \<noteq> (p, c)) L" and n: "n = length (filter (\<lambda>x. fst x = p) L')"
    using assms(6) op by (auto simp: Let_def split: if_splits)
  note rem = linked_remove [OF assms(5) in_L]
  have "conns_at B p \<noteq> []" using rem(2) assms(3) by (auto simp: router_ok_def)
  then obtain peer where peer: "fmlookup (gb_connected_peers B) p = Some peer" by (auto simp: conns_at_def split: option.splits)
  have nz: "n = 0 \<longleftrightarrow> remove1 c (K p) = []" using rem(3) n L' by (metis length_0_conv)
  show ?thesis
  proof (cases "n = 0")
    case True
    then show ?thesis using router_disconnected [OF assms(3) peer] rem(1) nz op L' by auto
  next
    case False
    then show ?thesis using router_connection_closed [OF assms(3) peer False rem(2)] rem(1) nz op L' by auto
  qed
next
  case False
  consider (est) p c out where "gs_step C E op B = established C out p c B" and "L' = (p, c) # L" and "c \<notin> snd ` set L"
    | (other) "L' = L" and "router_ok K (gs_step C E op B)"
  proof (cases op)
    case (Established_inbound p c)
    then show ?thesis using est [of False p c] assms(6) by (auto simp: handle_established_inbound_connection_def split: if_splits)
  next
    case (Established_outbound p c)
    then show ?thesis using est [of "p |\<notin>| gb_px_peers B" p c] assms(6) by (auto simp: handle_established_outbound_connection_def split: if_splits)
  qed (use False assms other in \<open>auto simp: router_handler_event still_router [OF still_handler_pop] router_heartbeat router_subscribe router_unsubscribe
      router_publish still_router [OF still_report] still_router [OF still_explicit(1)] still_router [OF still_connection_established]
      remove_explicit_peer_def blacklist_peer_def remove_blacklisted_peer_def still_router [OF still_upds(8)] still_router [OF still_upds(9)]\<close>)
  then show ?thesis
  proof cases
    case est
    then show ?thesis using router_established [OF assms(3), of p c C out] linked_add [OF assms(5) est(3)] by auto
  qed (use assms(5) in auto)
qed

lemma router_run:
  assumes "\<And>E op. (E, op) \<in> set ops \<Longrightarrow> fair E" and "mesh_params_ok C"
    and "router_ok K B" and "seq_left B (length ops)" and "linked L K" and "swarm_run (map snd ops) L = Some L'"
  shows "\<exists>K'. router_ok K' (gs_run C ops B) \<and> linked L' K'"
  using assms(1,3-)
proof (induction ops arbitrary: B K L)
  case (Cons eo ops)
  obtain E op where eo: "eo = (E, op)" by (cases eo)
  from Cons.prems(5) obtain L1 where L1: "swarm_step op L = Some L1" and rest: "swarm_run (map snd ops) L1 = Some L'"
    by (auto simp: eo split: option.splits)
  have "fair E" using Cons.prems(1) eo by auto
  moreover have "seq_left B 1" using Cons.prems(3) by (rule seq_mono) simp
  ultimately obtain K1 where "router_ok K1 (gs_step C E op B)" and "linked L1 K1"
    using router_step [OF _ assms(2) Cons.prems(2) _ Cons.prems(4) L1] by blast
  moreover have "seq_left (gs_step C E op B) (length ops)" using Cons.prems(3) by (intro seq_step) simp
  ultimately have "\<exists>K'. router_ok K' (gs_run C ops (gs_step C E op B)) \<and> linked L' K'"
    using Cons.prems(1) rest by (intro Cons.IH) auto
  then show ?case by (simp add: gs_run_def eo)
qed (auto simp: gs_run_def)

section \<open>Verdicts\<close>

text \<open>The message \<open>mid\<close> has not been let through: it is queued for nobody, and not marked as valid. The node signs
  what it publishes.\<close>

definition unreleased :: "'p \<Rightarrow> message_id \<Rightarrow> 'p gs_Behaviour \<Rightarrow> bool" where
  "unreleased own mid B \<longleftrightarrow> (\<exists>key n. gb_publish_config B = Signing own key n) \<and> (\<forall>p m. Publish mid m \<notin> waiting_at B p)
     \<and> (\<forall>m ps. fmlookup (mc_msgs (gb_mcache B)) mid = Some (m, ps) \<longrightarrow> \<not> rm_validated m)"

definition no_verdict :: "'p gs_Config \<Rightarrow> 'p \<Rightarrow> message_id \<Rightarrow> 'p gs_op \<Rightarrow> bool" where
  "no_verdict C own mid op \<longleftrightarrow> gs_validate_messages C \<and> (\<forall>m. ms_source m = Some own \<longrightarrow> gs_message_id_fn C m \<noteq> mid)
     \<and> (\<forall>p. op \<noteq> Report mid p Acceptance_Accept)
     \<and> (\<forall>p rpc invalid. op = Handler_event p (Handler_Message rpc invalid) \<longrightarrow> (\<forall>raw \<in> set (rpc_messages rpc). \<not> rm_validated raw))"

lemma unreleased_sends:
  assumes "sends R B B'" and "\<forall>m. Publish mid m \<notin> R" and "unreleased own mid B"
  shows "unreleased own mid B'"
proof -
  have "Publish mid m \<notin> waiting_at B' p" for p m using assms unfolding sends_def unreleased_def by blast
  then show ?thesis using assms(3) sends_fields(1,8) [OF assms(1)] by (simp add: unreleased_def)
qed

lemma unreleased_cong:
  "gb_publish_config B' = gb_publish_config B \<Longrightarrow> gb_connected_peers B' = gb_connected_peers B \<Longrightarrow>
   (\<And>m ps. fmlookup (mc_msgs (gb_mcache B')) mid = Some (m, ps) \<Longrightarrow> rm_validated m \<Longrightarrow> \<exists>ps. fmlookup (mc_msgs (gb_mcache B)) mid = Some (m, ps))
   \<Longrightarrow> unreleased own mid B \<Longrightarrow> unreleased own mid B'"
  by (auto simp: unreleased_def waiting_at_def)

lemma mc_put_entry:
  "fmlookup (mc_msgs (snd (mc_put mid' raw c))) mid = Some x \<Longrightarrow> fmlookup (mc_msgs c) mid = Some x \<or> mid' = mid \<and> x = (raw, {||})"
  by (auto simp: mc_put_def split: list.splits if_splits)

lemma unreleased_message:
  assumes "gs_validate_messages C" and "\<not> rm_validated raw" and "unreleased own mid B"
  shows "unreleased own mid (handle_received_message E C p raw B)"
proof -
  let ?mid = "gs_message_id_fn C (message_of raw)"
  obtain valid raw' B' where v: "message_is_valid C ?mid raw p (broadcast_idontwant C ?mid raw p B) = (valid, raw', B')"
    by (cases "message_is_valid C ?mid raw p (broadcast_idontwant C ?mid raw p B)")
  have raw': "raw' = raw" using message_is_valid_raw [OF v] assms(1) by auto
  have "unreleased own mid (broadcast_idontwant C ?mid raw p B)" by (rule unreleased_sends [OF sends_broadcast _ assms(3)]) auto
  then have B': "unreleased own mid B'" using v
    by (auto simp: message_is_valid_def handle_invalid_message_def Let_def unreleased_def waiting_at_def split: if_splits)
  have "unreleased own mid (take_message E C ?mid p raw B')"
    by (rule unreleased_cong [OF _ _ _ B']) (use assms(1,2) in \<open>auto simp: take_message_def Let_def split_beta gs_push_event_def observe_duplicate_def
        dest: mc_put_entry split: if_splits option.splits\<close>)
  then show ?thesis using B' by (simp add: handle_received_message_cases [OF v] raw')
qed

lemma unreleased_iwant:
  assumes "unreleased own mid B"
  shows "unreleased own mid (answer_iwant C p mid' B)"
proof -
  obtain r mc where g: "get_with_iwant_counts mid' p (gb_mcache B) = (r, mc)" by (cases "get_with_iwant_counts mid' p (gb_mcache B)")
  have u: "unreleased own mid (B\<lparr>gb_mcache := mc\<rparr>)"
    by (rule unreleased_cong [OF _ _ _ assms]) (use g in \<open>auto simp: get_with_iwant_counts_def Let_def split: option.splits prod.splits if_splits\<close>)
  have "mid' \<noteq> mid" if "r \<noteq> None"
    using that g assms by (auto simp: get_with_iwant_counts_def unreleased_def Let_def split: option.splits prod.splits if_splits)
  then have "unreleased own mid (snd (send_message p (Publish mid' m) (B\<lparr>gb_mcache := mc\<rparr>)))" if "r \<noteq> None" for m
    using that by (intro unreleased_sends [OF sends_send_message [of _ "{Publish mid' m}"] _ u]) auto
  then show ?thesis using u by (auto simp: answer_iwant_def g Let_def split: option.split)
qed

lemma unreleased_report:
  assumes "mid' \<noteq> mid \<or> a \<noteq> Acceptance_Accept" and "unreleased own mid B"
  shows "unreleased own mid (snd (report_message_validation_result mid' p a B))"
proof (cases a)
  case Acceptance_Accept
  obtain r mc where g: "mc_validate mid' (gb_mcache B) = (r, mc)" by (cases "mc_validate mid' (gb_mcache B)")
  have u: "unreleased own mid (B\<lparr>gb_mcache := mc\<rparr>)"
    by (rule unreleased_cong [OF _ _ _ assms(2)])
      (use g assms(1) Acceptance_Accept in \<open>auto simp: mc_validate_def Let_def split: option.splits prod.splits if_splits\<close>)
  have "unreleased own mid (snd (forward_msg mid' raw (Some p) os (B\<lparr>gb_mcache := mc\<rparr>)))" for raw os
    using assms(1) Acceptance_Accept by (intro unreleased_sends [OF sends_forward_msg _ u]) auto
  then show ?thesis using u Acceptance_Accept by (simp add: report_message_validation_result_def g split: option.split)
qed (use assms(2) in \<open>auto simp: report_message_validation_result_def mc_remove_def unreleased_def waiting_at_def split: if_splits\<close>)

lemma unreleased_ihave: "unreleased own mid B \<Longrightarrow> unreleased own mid (handle_ihave E C p msgs B)"
proof -
  assume u: "unreleased own mid B"
  have "unreleased own mid (snd (send_message p (IWantOut ids) (B\<lparr>gb_count_received_ihave := n, gb_count_sent_iwant := k, gb_gossip_promises := gp\<rparr>)))" for ids n k gp
    by (rule unreleased_sends [OF sends_send_message [of _ "range IWantOut"]]) (use u in \<open>auto simp: unreleased_def waiting_at_def\<close>)
  moreover have "unreleased own mid (B\<lparr>gb_count_received_ihave := n\<rparr>)" for n using u by (simp add: unreleased_def waiting_at_def)
  ultimately show ?thesis by (simp add: handle_ihave_def ask_for_def Let_def)
qed

text \<open>The id of a message the node publishes is one of its own.\<close>

lemma built_raw:
  assumes "gb_publish_config B = Signing own key n" and "build_raw_message C a k t data B = (r, B1)"
  shows "\<exists>n. gb_publish_config B1 = Signing own key n" and "gb_connected_peers B1 = gb_connected_peers B" and "gb_mcache B1 = gb_mcache B"
    and "gb_gossip_promises B1 = gb_gossip_promises B" and "gb_duplicate_cache B1 = gb_duplicate_cache B" and "delivered B1 = delivered B"
    and "r = Inr raw \<Longrightarrow> ms_source (message_of raw) = Some own"
  using assms by (auto simp: build_raw_message_def Let_def message_of_def delivered_def split: if_splits option.splits)

lemma filter_candidates_rest:
  assumes "filter_publish_candidates E C t cs B = (recipients, B')"
  shows "gb_publish_config B' = gb_publish_config B" and "gb_connected_peers B' = gb_connected_peers B" and "gb_mcache B' = gb_mcache B"
    and "gb_gossip_promises B' = gb_gossip_promises B" and "gb_duplicate_cache B' = gb_duplicate_cache B" and "delivered B' = delivered B"
  using assms by (auto simp: filter_publish_candidates_def Let_def delivered_def split: if_splits option.splits)

lemma unreleased_publish:
  assumes "\<forall>m. ms_source m = Some own \<longrightarrow> gs_message_id_fn C m \<noteq> mid" and "unreleased own mid B"
  shows "unreleased own mid (snd (publish E C a k t data B))"
proof (rule publish_cases)
  obtain key n where pc: "gb_publish_config B = Signing own key n" using assms(2) by (auto simp: unreleased_def)
  show "unreleased own mid B" by (rule assms(2))
  show 1: "unreleased own mid B1" if "build_raw_message C a k t data B = (r, B1)" for r B1
    using built_raw [OF pc that] assms(2) by (auto simp: unreleased_def waiting_at_def)
  show 2: "unreleased own mid B2" if "build_raw_message C a k t data B = (Inr raw, B1)"
    and f: "filter_publish_candidates E C t (publish_peers t B1) B1 = (recipients, B2)" for raw B1 recipients B2
    using filter_candidates_rest [OF f] 1 [OF that(1)] by (auto simp: unreleased_def waiting_at_def)
  show "unreleased own mid (snd (fold (publish_to C (gs_message_id_fn C (message_of raw)) raw) (sorted_list_of_fset recipients)
              (False, publish_ready E (gs_message_id_fn C (message_of raw)) raw B2)))"
    if b: "build_raw_message C a k t data B = (Inr raw, B1)"
    and f: "filter_publish_candidates E C t (publish_peers t B1) B1 = (recipients, B2)" for raw B1 recipients B2
  proof (rule unreleased_sends [OF sends_publish_all])
    have ne: "gs_message_id_fn C (message_of raw) \<noteq> mid" using assms(1) built_raw(7) [OF pc b] by auto
    then show "\<forall>m. Publish mid m \<notin> insert (Publish (gs_message_id_fn C (message_of raw)) raw) (range IDontWantOut)" by auto
    show "unreleased own mid (publish_ready E (gs_message_id_fn C (message_of raw)) raw B2)"
      by (rule unreleased_cong [OF _ _ _ 2 [OF b f]]) (use ne in \<open>auto simp: publish_ready_def dest!: mc_put_entry\<close>)
  qed
qed

lemma unreleased_counts: "unreleased own mid (B\<lparr>gb_count_sent_iwant := n\<rparr>) = unreleased own mid B"
  by (simp add: unreleased_def waiting_at_def)

interpretation verdicts: memory_invariant C "\<lambda>E. no_verdict C own mid" "unreleased own mid" for C own mid
proof unfold_locales
  show "unreleased own mid B'" if "control_keeps B B'" and "unreleased own mid B" for B B'
  proof -
    have "Publish mid m \<notin> waiting_at B' p" for p m using that control_rpcs_simps(12) unfolding control_keeps_def unreleased_def by blast
    then show ?thesis using that by (simp add: control_keeps_def unreleased_def)
  qed
  show "unreleased own mid (B\<lparr>gb_mcache := mc_shift (gb_mcache B)\<rparr>)" if u: "unreleased own mid B" for B
  proof (rule unreleased_cong [OF _ _ _ u])
    show "\<exists>ps. fmlookup (mc_msgs (gb_mcache B)) mid = Some (m, ps)"
      if "fmlookup (mc_msgs (gb_mcache (B\<lparr>gb_mcache := mc_shift (gb_mcache B)\<rparr>))) mid = Some (m, ps)" for m ps
      using that by (auto simp: mc_shift_def Let_def fold_fmdrop split: if_splits)
  qed simp_all
qed (auto simp: no_verdict_def unreleased_counts
    intro: unreleased_message unreleased_iwant unreleased_report unreleased_publish unreleased_ihave)

section \<open>Duplicates\<close>

text \<open>In the span of time from \<open>start\<close> to \<open>start + ttl\<close>, every message shown to the node is remembered until the end of
  it.\<close>

definition shown_once :: "nat \<Rightarrow> nat \<Rightarrow> 'p gs_Behaviour \<Rightarrow> bool" where
  "shown_once start ttl B \<longleftrightarrow> tc_ttl (gb_duplicate_cache B) = ttl \<and> distinct (map (\<lambda>(p, mid, m). mid) (delivered B))
     \<and> (\<forall>mid \<in> set (map (\<lambda>(p, mid, m). mid) (delivered B)). \<exists>e. fmlookup (tc_map (gb_duplicate_cache B)) mid = Some ((), e) \<and> start + ttl \<le> e)"

definition in_span :: "nat \<Rightarrow> nat \<Rightarrow> 'p gs_env \<Rightarrow> bool" where
  "in_span start ttl E \<longleftrightarrow> start \<le> env_now E \<and> env_now E < start + ttl \<and> env_now E + ttl \<le> env_imax E"

lemma expire_keys_keeps: "fmlookup m k = Some (v, e) \<Longrightarrow> now < e \<Longrightarrow> fmlookup (snd (expire_keys now ks m)) k = Some (v, e)"
proof (induction now ks m rule: expire_keys.induct)
  case (2 now k' expires ks m)
  then show ?case by (cases "k' = k") (auto split: option.splits)
qed simp

lemma dc_insert_keeps:
  assumes "fmlookup (tc_map c) k = Some ((), e)" and "now < e"
  shows "fmlookup (tc_map (snd (dc_insert imax now key c))) k = Some ((), e)" and "key = k \<Longrightarrow> \<not> fst (dc_insert imax now key c)"
proof -
  have r: "fmlookup (tc_map (remove_expired_keys now c)) k = Some ((), e)"
    using expire_keys_keeps [OF assms, of "tc_list c"] by (simp add: remove_expired_keys_def split_beta)
  show "fmlookup (tc_map (snd (dc_insert imax now key c))) k = Some ((), e)"
    using r by (auto simp: dc_insert_def entry_or_insert_def Let_def split: option.splits)
  show "\<not> fst (dc_insert imax now key c)" if "key = k" using r that by (simp add: dc_insert_def entry_or_insert_def Let_def)
qed

lemma dc_insert_ttl: "tc_ttl (snd (dc_insert imax now key c)) = tc_ttl c"
  by (auto simp: dc_insert_def entry_or_insert_def remove_expired_keys_def Let_def split_beta split: option.split)

lemma dc_insert_new:
  assumes "fst (dc_insert imax now key c)" and "now + tc_ttl c \<le> imax"
  shows "fmlookup (tc_map (snd (dc_insert imax now key c))) key = Some ((), now + tc_ttl c)"
  using assms by (auto simp: dc_insert_def entry_or_insert_def remove_expired_keys_def checked_add_def Let_def split_beta split: option.splits)

lemma shown_cong:
  "delivered B' = delivered B \<Longrightarrow> gb_duplicate_cache B' = gb_duplicate_cache B \<Longrightarrow> shown_once start ttl B' = shown_once start ttl B"
  by (simp add: shown_once_def)

lemma shown_sends: "sends R B B' \<Longrightarrow> shown_once start ttl B' = shown_once start ttl B"
  by (rule shown_cong) (simp_all add: sends_views sends_fields)

lemma shown_insert:
  assumes "in_span start ttl E" and "shown_once start ttl B" and "delivered B' = delivered B"
    and "gb_duplicate_cache B' = snd (dc_insert (env_imax E) (env_now E) key (gb_duplicate_cache B))"
  shows "shown_once start ttl B'"
proof -
  have "\<exists>e. fmlookup (tc_map (gb_duplicate_cache B')) mid = Some ((), e) \<and> start + ttl \<le> e"
    if "mid \<in> set (map (\<lambda>(p, mid, m). mid) (delivered B))" for mid
  proof -
    from that assms(2) obtain e where e: "fmlookup (tc_map (gb_duplicate_cache B)) mid = Some ((), e)" "start + ttl \<le> e"
      unfolding shown_once_def by blast
    then have "env_now E < e" using assms(1) by (simp add: in_span_def)
    from dc_insert_keeps(1) [OF e(1) this] e(2) show ?thesis by (auto simp: assms(4))
  qed
  then show ?thesis using assms(2-4) by (simp add: shown_once_def dc_insert_ttl)
qed

lemma shown_take:
  assumes "in_span start ttl E" and "shown_once start ttl B"
  shows "shown_once start ttl (take_message E C mid p raw B)"
proof -
  obtain new dc where d: "dc_insert (env_imax E) (env_now E) mid (gb_duplicate_cache B) = (new, dc)"
    by (cases "dc_insert (env_imax E) (env_now E) mid (gb_duplicate_cache B)")
  define B1 where "B1 = B\<lparr>gb_duplicate_cache := dc, gb_gossip_promises := message_delivered mid (gb_gossip_promises B),
    gb_mcache := snd (mc_put mid raw (gb_mcache B))\<rparr>"
  have ins: "shown_once start ttl B'" if "delivered B' = delivered B" and "gb_duplicate_cache B' = dc" for B'
    by (rule shown_insert [OF assms that(1), of mid]) (simp add: that(2) d)
  have b1: "shown_once start ttl B1" by (rule ins) (simp_all add: B1_def delivered_def)
  have "shown_once start ttl (gs_push_event (Event_Message p mid (message_of raw)) B1)" if new
  proof -
    have "fmlookup (tc_map dc) mid = Some ((), env_now E + ttl)"
      using dc_insert_new [of "env_imax E" "env_now E" mid "gb_duplicate_cache B"] that assms by (simp add: d shown_once_def in_span_def)
    moreover have "mid \<notin> set (map (\<lambda>(p, mid, m). mid) (delivered B))"
    proof
      assume "mid \<in> set (map (\<lambda>(p, mid, m). mid) (delivered B))"
      with assms(2) obtain e where e: "fmlookup (tc_map (gb_duplicate_cache B)) mid = Some ((), e)" "start + ttl \<le> e"
        unfolding shown_once_def by blast
      then have "env_now E < e" using assms(1) by (simp add: in_span_def)
      from dc_insert_keeps(2) [OF e(1) this, of mid "env_imax E"] that show False by (simp add: d)
    qed
    moreover have "gb_duplicate_cache B1 = dc" "delivered B1 = delivered B" by (simp_all add: B1_def delivered_def)
    moreover have "gb_duplicate_cache (gs_push_event e B1) = gb_duplicate_cache B1" for e by (simp add: gs_push_event_def)
    ultimately show ?thesis using b1 assms(1) by (auto simp: shown_once_def in_span_def)
  qed
  moreover have "shown_once start ttl (B\<lparr>gb_duplicate_cache := dc, gb_mcache := mc\<rparr>)" for mc by (rule ins) (simp_all add: delivered_def)
  ultimately show ?thesis using b1
    by (simp add: take_message_def d Let_def B1_def [symmetric] shown_sends [OF sends_forward_msg])
qed

lemma shown_message:
  assumes "in_span start ttl E" and "shown_once start ttl B"
  shows "shown_once start ttl (handle_received_message E C p raw B)"
proof -
  let ?mid = "gs_message_id_fn C (message_of raw)"
  obtain valid raw' B' where v: "message_is_valid C ?mid raw p (broadcast_idontwant C ?mid raw p B) = (valid, raw', B')"
    by (cases "message_is_valid C ?mid raw p (broadcast_idontwant C ?mid raw p B)")
  have "shown_once start ttl B' = shown_once start ttl (broadcast_idontwant C ?mid raw p B)" using v
    by (intro shown_cong) (auto simp: message_is_valid_def handle_invalid_message_def Let_def delivered_def split: if_splits)
  then have "shown_once start ttl B'" using assms(2) by (simp add: shown_sends [OF sends_broadcast])
  then show ?thesis by (simp add: handle_received_message_cases [OF v] shown_take [OF assms(1)])
qed

lemma built_raw_any:
  assumes "build_raw_message C a k t data B = (r, B1)"
  shows "gb_duplicate_cache B1 = gb_duplicate_cache B" and "delivered B1 = delivered B"
  using assms by (auto simp: build_raw_message_def Let_def delivered_def split: if_splits option.splits PublishConfig.splits)

lemma shown_publish:
  assumes "in_span start ttl E" and "shown_once start ttl B"
  shows "shown_once start ttl (snd (publish E C a k t data B))"
proof (rule publish_cases)
  show "shown_once start ttl B" by (rule assms(2))
  show 1: "shown_once start ttl B1" if "build_raw_message C a k t data B = (r, B1)" for r B1
    using shown_cong [OF built_raw_any(2,1) [OF that]] assms(2) by simp
  show 2: "shown_once start ttl B2" if "build_raw_message C a k t data B = (Inr raw, B1)"
    and f: "filter_publish_candidates E C t (publish_peers t B1) B1 = (recipients, B2)" for raw B1 recipients B2
    using shown_cong [OF filter_candidates_rest(6,5) [OF f]] 1 [OF that(1)] by simp
  show "shown_once start ttl (snd (fold (publish_to C (gs_message_id_fn C (message_of raw)) raw) (sorted_list_of_fset recipients)
              (False, publish_ready E (gs_message_id_fn C (message_of raw)) raw B2)))"
    if "build_raw_message C a k t data B = (Inr raw, B1)"
    and "filter_publish_candidates E C t (publish_peers t B1) B1 = (recipients, B2)" for raw B1 recipients B2
    unfolding shown_sends [OF sends_publish_all]
    by (rule shown_insert [OF assms(1) 2 [OF that]]) (simp_all add: publish_ready_def delivered_def)
qed

lemma shown_ihave: "shown_once start ttl (handle_ihave E C p msgs B) = shown_once start ttl B"
proof -
  have "shown_once start ttl (B\<lparr>gb_count_received_ihave := n\<rparr>) = shown_once start ttl B"
    "shown_once start ttl (B\<lparr>gb_count_received_ihave := n, gb_count_sent_iwant := k, gb_gossip_promises := gp\<rparr>) = shown_once start ttl B" for n k gp
    by (simp_all add: shown_once_def delivered_def)
  then show ?thesis by (simp add: handle_ihave_def ask_for_def Let_def shown_sends [OF sends_send_message [of _ UNIV]])
qed

lemma shown_mcache: "shown_once start ttl (B\<lparr>gb_mcache := mc\<rparr>) = shown_once start ttl B"
  by (simp add: shown_once_def delivered_def)

lemma shown_iwant: "shown_once start ttl (answer_iwant C p mid B) = shown_once start ttl B"
  by (simp add: answer_iwant_def Let_def split_beta shown_mcache shown_sends [OF sends_send_message [of _ UNIV]] split: option.split)

lemma shown_report: "shown_once start ttl (snd (report_message_validation_result mid p a B)) = shown_once start ttl B"
  by (simp add: report_message_validation_result_def split_beta shown_mcache shown_sends [OF sends_forward_msg]
      split: MessageAcceptance.split option.split prod.split)

lemma shown_rest:
  "shown_once start ttl (B\<lparr>gb_count_sent_iwant := n\<rparr>) = shown_once start ttl B"
  "control_keeps B B' \<Longrightarrow> shown_once start ttl B' = shown_once start ttl B"
  by (rule shown_cong; simp add: delivered_def control_keeps_def)+

interpretation seen: memory_invariant C "\<lambda>E op. in_span start ttl E" "shown_once start ttl" for C start ttl
  by unfold_locales (simp_all add: shown_ihave shown_iwant shown_report shown_mcache shown_message shown_publish shown_rest)

section \<open>Requests\<close>

text \<open>The message \<open>mid\<close> has been asked for, and no request for it is waiting to be sent.\<close>

definition requested :: "'p \<Rightarrow> message_id \<Rightarrow> 'p gs_Behaviour \<Rightarrow> bool" where
  "requested own mid B \<longleftrightarrow> (\<exists>key n. gb_publish_config B = Signing own key n) \<and> promises_contains mid (gb_gossip_promises B)
     \<and> (\<forall>p mids. IWantOut mids \<in> waiting_at B p \<longrightarrow> mid \<notin> set mids)"

text \<open>Operations in which the message does not arrive, and which do not publish it.\<close>

definition unanswered :: "'p gs_Config \<Rightarrow> 'p \<Rightarrow> message_id \<Rightarrow> 'p gs_env \<Rightarrow> 'p gs_op \<Rightarrow> bool" where
  "unanswered C own mid E op \<longleftrightarrow> fair E \<and> (\<forall>m. ms_source m = Some own \<longrightarrow> gs_message_id_fn C m \<noteq> mid)
     \<and> (\<forall>p rpc invalid. op = Handler_event p (Handler_Message rpc invalid) \<longrightarrow>
          (\<forall>raw \<in> set (rpc_messages rpc). gs_message_id_fn C (message_of raw) \<noteq> mid))"

lemma requested_sends:
  assumes "sends R B B'" and "\<forall>mids. IWantOut mids \<in> R \<longrightarrow> mid \<notin> set mids" and "requested own mid B"
  shows "requested own mid B'"
proof -
  have "mid \<notin> set mids" if "IWantOut mids \<in> waiting_at B' p" for p mids using assms that unfolding sends_def requested_def by blast
  then show ?thesis using assms(3) sends_fields(1,13) [OF assms(1)] by (auto simp: requested_def)
qed

lemma requested_cong:
  "gb_publish_config B' = gb_publish_config B \<Longrightarrow> gb_connected_peers B' = gb_connected_peers B \<Longrightarrow> gb_gossip_promises B' = gb_gossip_promises B
   \<Longrightarrow> requested own mid B' = requested own mid B"
  by (simp add: requested_def waiting_at_def)

lemma reject_contains: "mid' \<noteq> mid \<Longrightarrow> promises_contains mid (promises_reject_message mid' r ps) = promises_contains mid ps"
  by (simp add: promises_contains_def promises_reject_message_def)

lemma add_promise_contains: "promises_contains mid ps \<Longrightarrow> promises_contains mid (add_promise p mids e ps)"
  unfolding add_promise_def by (induction mids arbitrary: ps) (simp_all add: promises_contains_def promise_one_def Let_def)

lemma requested_promises:
  "requested own mid B \<Longrightarrow> promises_contains mid gp \<Longrightarrow> requested own mid (B\<lparr>gb_gossip_promises := gp\<rparr>)"
  by (simp add: requested_def waiting_at_def)

lemma requested_message:
  assumes "gs_message_id_fn C (message_of raw) \<noteq> mid" and "requested own mid B"
  shows "requested own mid (handle_received_message E C p raw B)"
proof -
  let ?mid = "gs_message_id_fn C (message_of raw)"
  obtain valid raw' B' where v: "message_is_valid C ?mid raw p (broadcast_idontwant C ?mid raw p B) = (valid, raw', B')"
    by (cases "message_is_valid C ?mid raw p (broadcast_idontwant C ?mid raw p B)")
  have "requested own mid (broadcast_idontwant C ?mid raw p B)" by (rule requested_sends [OF sends_broadcast _ assms(2)]) auto
  then have B': "requested own mid B'" using v assms(1)
    by (auto simp: message_is_valid_def handle_invalid_message_def Let_def requested_def waiting_at_def reject_contains split: if_splits)
  have r1: "requested own mid (B'\<lparr>gb_duplicate_cache := dc, gb_gossip_promises := message_delivered ?mid (gb_gossip_promises B'), gb_mcache := mc\<rparr>)" for dc mc
    using B' assms(1) by (auto simp: requested_def waiting_at_def promises_contains_def message_delivered_def)
  have r2: "requested own mid (gs_push_event e (B'\<lparr>gb_duplicate_cache := dc, gb_gossip_promises := message_delivered ?mid (gb_gossip_promises B'), gb_mcache := mc\<rparr>))" for dc mc e
    using r1 [where dc = dc and mc = mc] by (simp add: gs_push_event_def requested_def waiting_at_def)
  have "requested own mid (snd (forward_msg ?mid raw' s os B2))" if "requested own mid B2" for s os B2
    by (rule requested_sends [OF sends_forward_msg _ that]) auto
  then have "requested own mid (take_message E C ?mid p raw' B')" using r1 r2 B'
    by (auto simp: take_message_def Let_def split_beta requested_cong [of "B'\<lparr>gb_duplicate_cache := _, gb_mcache := _\<rparr>" B'])
  then show ?thesis using B' by (simp add: handle_received_message_cases [OF v])
qed

lemma wanted_skips:
  assumes "promises_contains mid (gb_gossip_promises B)"
  shows "mid |\<notin>| wanted_ids B msgs"
proof -
  have "mid |\<notin>| fold (\<lambda>(t, ids) iwant_ids. if t |\<notin>| fmdom (gb_mesh B) then iwant_ids
     else iwant_ids |\<union>| fset_of_list (filter (\<lambda>mid. \<not> dc_contains mid (gb_duplicate_cache B)
        \<and> \<not> promises_contains mid (gb_gossip_promises B)) ids)) msgs W" if "mid |\<notin>| W" for W
    using that assms by (induction msgs arbitrary: W) (auto simp: split_beta fset_of_list_elem)
  then show ?thesis by (simp add: wanted_ids_def)
qed

lemma requested_ihave:
  assumes "fair E" and "requested own mid B"
  shows "requested own mid (handle_ihave E C p msgs B)"
proof -
  have c: "requested own mid (B\<lparr>gb_count_received_ihave := n\<rparr>)" for n using assms(2) by (simp add: requested_def waiting_at_def)
  have "requested own mid (ask_for E C p (wanted_ids B2 msgs) B2)" if r: "requested own mid B2" for B2
  proof -
    define mids where "mids = (let iasked = (case fmlookup (gb_count_sent_iwant B2) p of None \<Rightarrow> 0 | Some n \<Rightarrow> n); limit = gs_max_control_messages_sent C;
      iask = (if limit < iasked + fcard (wanted_ids B2 msgs) then limit - iasked else fcard (wanted_ids B2 msgs))
      in take iask (env_shuffle_ids E Draw_iwant (sorted_list_of_fset (wanted_ids B2 msgs))))"
    have "mid \<notin> set mids" using wanted_skips [of mid B2 msgs] r set_shuffle_ids(1) [OF assms(1)]
      by (auto simp: mids_def Let_def requested_def dest!: in_set_takeD)
    moreover have "requested own mid (B2\<lparr>gb_count_sent_iwant := k, gb_gossip_promises := add_promise p mids e (gb_gossip_promises B2)\<rparr>)" for k e
      using r add_promise_contains [of mid "gb_gossip_promises B2" p mids e] by (simp add: requested_def waiting_at_def)
    ultimately have "requested own mid (snd (send_message p (IWantOut mids) (B2\<lparr>gb_count_sent_iwant := k, gb_gossip_promises := add_promise p mids e (gb_gossip_promises B2)\<rparr>)))" for k e
      by (intro requested_sends [OF sends_send_message [of _ "{IWantOut mids}"]]) auto
    then show ?thesis by (simp add: ask_for_def mids_def Let_def)
  qed
  then show ?thesis using c by (simp add: handle_ihave_def Let_def)
qed

lemma requested_mcache: "requested own mid (B\<lparr>gb_mcache := mc\<rparr>) = requested own mid B"
  by (simp add: requested_def waiting_at_def)

lemma requested_send: "requested own mid B \<Longrightarrow> requested own mid (snd (send_message p (Publish mid' m) B))"
  by (rule requested_sends [OF sends_send_message [of _ "{Publish mid' m}"]]) auto

lemma requested_forward: "requested own mid B \<Longrightarrow> requested own mid (snd (forward_msg mid' raw s os B))"
  by (rule requested_sends [OF sends_forward_msg]) auto

lemma requested_iwant: "requested own mid B \<Longrightarrow> requested own mid (answer_iwant C p mid' B)"
  by (simp add: answer_iwant_def Let_def split_beta requested_mcache requested_send split: option.split)

lemma requested_report: "requested own mid B \<Longrightarrow> requested own mid (snd (report_message_validation_result mid' p a B))"
  by (simp add: report_message_validation_result_def split_beta requested_mcache requested_forward split: MessageAcceptance.split option.split prod.split)

lemma requested_publish:
  assumes "\<forall>m. ms_source m = Some own \<longrightarrow> gs_message_id_fn C m \<noteq> mid" and "requested own mid B"
  shows "requested own mid (snd (publish E C a k t data B))"
proof (rule publish_cases)
  obtain key n where pc: "gb_publish_config B = Signing own key n" using assms(2) by (auto simp: requested_def)
  show "requested own mid B" by (rule assms(2))
  show 1: "requested own mid B1" if "build_raw_message C a k t data B = (r, B1)" for r B1
    using built_raw [OF pc that] assms(2) by (auto simp: requested_def waiting_at_def)
  show 2: "requested own mid B2" if "build_raw_message C a k t data B = (Inr raw, B1)"
    and f: "filter_publish_candidates E C t (publish_peers t B1) B1 = (recipients, B2)" for raw B1 recipients B2
    using filter_candidates_rest [OF f] 1 [OF that(1)] by (auto simp: requested_def waiting_at_def)
  show "requested own mid (snd (fold (publish_to C (gs_message_id_fn C (message_of raw)) raw) (sorted_list_of_fset recipients)
              (False, publish_ready E (gs_message_id_fn C (message_of raw)) raw B2)))"
    if b: "build_raw_message C a k t data B = (Inr raw, B1)"
    and f: "filter_publish_candidates E C t (publish_peers t B1) B1 = (recipients, B2)" for raw B1 recipients B2
  proof (rule requested_sends [OF sends_publish_all])
    have "gs_message_id_fn C (message_of raw) \<noteq> mid" using assms(1) built_raw(7) [OF pc b] by auto
    then show "requested own mid (publish_ready E (gs_message_id_fn C (message_of raw)) raw B2)"
      using 2 [OF b f] by (auto simp: publish_ready_def requested_def waiting_at_def promises_contains_def message_delivered_def)
  qed auto
qed

lemma requested_keeps:
  assumes "control_keeps B B'" and "requested own mid B"
  shows "requested own mid B'"
proof -
  have "mid \<notin> set mids" if "IWantOut mids \<in> waiting_at B' p" for p mids
    using assms that control_rpcs_simps(7) unfolding control_keeps_def requested_def by blast
  then show ?thesis using assms by (auto simp: control_keeps_def requested_def)
qed

lemma requested_counts: "requested own mid (B\<lparr>gb_count_sent_iwant := n\<rparr>) = requested own mid B"
  by (simp add: requested_def waiting_at_def)

interpretation requests: memory_invariant C "unanswered C own mid" "requested own mid" for C own mid
  by unfold_locales (auto simp: unanswered_def requested_counts requested_mcache
      intro: requested_keeps requested_message requested_ihave requested_iwant requested_report requested_publish)

section \<open>Properties\<close>

lemma new_views:
  "in_mesh (gs_new pc C) t p = False" "in_fanout (gs_new pc C) t p = False" "conns_at (gs_new pc C) = (\<lambda>p. [])" "connected_ok (gs_new pc C)"
  "waiting_at (gs_new pc C) p = {}" "delivered (gs_new pc C) = []"
  by (simp_all add: gs_new_def in_mesh_def in_fanout_def conns_at_def connected_ok_def waiting_at_def delivered_def List.map_filter_def fun_eq_iff)

lemma router_new: "gs_history_gossip C \<le> gs_history_length C \<Longrightarrow> router_ok (\<lambda>p. []) (gs_new pc C)"
  by (simp add: router_ok_def mesh_ok_def new_views) (simp add: gs_new_def history_ok_def mcache_new_def)

text \<open>C36. The router does not panic, and its meshes are sound. Under a configuration with sensible mesh parameters, in
  every sequence of connections, received RPCs of any content, heartbeats, subscriptions, publications, verdicts and
  calls of the user, in which the swarm opens and closes connections consistently, no \<open>expect\<close> fails and no subtraction
  goes below 0; every peer in a mesh or fanout set is connected and subscribed to the topic; and the connections the
  router knows are the live ones.\<close>

theorem router_safe:
  assumes "mesh_params_ok C" and "gs_history_gossip C \<le> gs_history_length C" and "list_all (\<lambda>(E, op). fair E) ops"
    and "swarm_run (map snd ops) [] = Some L" and "seq + length ops < 2 ^ 64"
    and "B = gs_run C ops (gs_new (Signing own key seq) C)"
  shows "\<not> gb_panicked B \<and> (in_mesh B t p \<or> in_fanout B t p \<longrightarrow> conns_at B p \<noteq> [] \<and> t |\<in>| topics_at B p)
    \<and> set (conns_at B p) = {c. (p, c) \<in> set L}"
proof -
  have "\<And>E op. (E, op) \<in> set ops \<Longrightarrow> fair E" using assms(3) by (auto simp: list_all_iff)
  moreover have "seq_left (gs_new (Signing own key seq) C) (length ops)" using assms(5) by (simp add: seq_left_def gs_new_def)
  moreover have "linked [] (\<lambda>p. [])" by (simp add: linked_def)
  ultimately obtain K where k: "router_ok K B" "linked L K"
    using router_run [OF _ assms(1) router_new [OF assms(2)]] assms(4,6) by blast
  have "conns_at B p \<noteq> []" if "t |\<in>| topics_at B p" for t
    using that k(1) known_has_connection [of B p] by (auto simp: router_ok_def topics_at_def conns_at_def split: option.splits)
  moreover have "set (K p) = {c. (p, c) \<in> set L}"
  proof -
    have "mset (K p) = mset (map snd (filter (\<lambda>x. fst x = p) L))" using k(2) by (simp add: linked_def)
    from mset_eq_setD [OF this] show ?thesis by force
  qed
  moreover have "t |\<in>| topics_at B p" if "in_mesh B t p \<or> in_fanout B t p" using k(1) that by (auto simp: router_ok_def mesh_ok_def)
  ultimately show ?thesis using k(1) by (auto simp: router_ok_def)
qed

definition demo_env :: "nat \<Rightarrow> u8 gs_env" where
  "demo_env now = \<lparr>env_imax = 2 ^ 62, env_now = now, env_shuffle = (\<lambda>d xs. xs), env_shuffle_ids = (\<lambda>d xs. xs)\<rparr>"

definition demo_gs_config :: "u8 gs_Config" where
  "demo_gs_config = (gs_default (\<lambda>m. ms_data m) (\<lambda>m. length (rm_data m)) (\<lambda>p data seq t. Some [p]))\<lparr>gs_validate_messages := True,
     gs_message_id_fn := (\<lambda>m. (case ms_source m of None \<Rightarrow> 0 | Some p \<Rightarrow> p) # ms_data m)\<rparr>"

definition demo_rpc :: "u8 RpcIn" where
  "demo_rpc = \<lparr>rpc_messages = [\<lparr>rm_source = Some 7, rm_data = [1, 2], rm_sequence_number = Some 3, rm_topic = ''a'', rm_signature = None,
     rm_key = None, rm_validated = False\<rparr>], rpc_subscriptions = [\<lparr>sub_action = Subscribe_action, sub_topic_hash = ''a''\<rparr>],
     rpc_control_msgs = [Graft ''a'', IHave ''a'' [[8, 1]]]\<rparr>"

definition demo_ops :: "(u8 gs_env \<times> u8 gs_op) list" where
  "demo_ops = [(demo_env 1, Subscribe ''a''), (demo_env 2, Established_inbound 5 0), (demo_env 2, Connection_established 5 0),
     (demo_env 3, Handler_event 5 (Handler_Message demo_rpc [])), (demo_env 4, Heartbeat_tick), (demo_env 5, Connection_closed 5 0 0)]"

lemma fair_demo: "fair (demo_env now)"
  by (simp add: fair_def demo_env_def)

lemma demo_params: "mesh_params_ok demo_gs_config"
  by (simp add: mesh_params_ok_def demo_gs_config_def gs_default_def topic_mesh_params_def topic_mesh_default_def mesh_n_for_topic_def
      mesh_n_low_for_topic_def mesh_n_high_for_topic_def mesh_outbound_min_for_topic_def)

lemma router_safe_witness:
  "\<not> gb_panicked (gs_run demo_gs_config demo_ops (gs_new (Signing 1 None 0) demo_gs_config))
   \<and> set (conns_at (gs_run demo_gs_config demo_ops (gs_new (Signing 1 None 0) demo_gs_config)) 5) = {c. (5, c) \<in> set []}"
  using router_safe [of demo_gs_config demo_ops "[]" 0 _ 1 None "''a''" 5, OF demo_params _ _ _ _ refl]
  by (simp add: demo_ops_def fair_demo) (simp add: demo_gs_config_def gs_default_def)

text \<open>C37. Nothing is passed on before the node has accepted it. While no verdict has accepted the message \<open>mid\<close>, it is
  in no queue to any peer, in every sequence of operations: neither forwarding nor a request for it (IWANT) sends it.
  The ids of the node's own messages are excepted, as it publishes those; a received message is not yet validated.\<close>

theorem forwarded_was_accepted:
  assumes "gs_validate_messages C" and "\<And>m. ms_source m = Some own \<Longrightarrow> gs_message_id_fn C m \<noteq> mid"
    and "list_all (\<lambda>(E, op). \<forall>p rpc invalid. op = Handler_event p (Handler_Message rpc invalid) \<longrightarrow> list_all (\<lambda>raw. \<not> rm_validated raw) (rpc_messages rpc)) ops"
    and "\<And>p. Report mid p Acceptance_Accept \<notin> snd ` set ops"
  shows "Publish mid m \<notin> waiting_at (gs_run C ops (gs_new (Signing own key seq) C)) p"
proof -
  have "no_verdict C own mid op" if "(E, op) \<in> set ops" for E op
    unfolding no_verdict_def
  proof (intro conjI allI impI ballI)
    show "op \<noteq> Report mid p Acceptance_Accept" for p using assms(4) [of p] that by force
    show "\<not> rm_validated raw" if "op = Handler_event p (Handler_Message rpc invalid)" and "raw \<in> set (rpc_messages rpc)" for p rpc invalid raw
      using assms(3) \<open>(E, op) \<in> set ops\<close> that by (fastforce simp: list_all_iff)
  qed (use assms(1,2) in auto)
  moreover have "unreleased own mid (gs_new (Signing own key seq) C)"
    by (simp add: unreleased_def new_views) (simp add: gs_new_def mcache_new_def)
  ultimately have "unreleased own mid (gs_run C ops (gs_new (Signing own key seq) C))" by (rule verdicts.run_I)
  then show ?thesis by (simp add: unreleased_def)
qed

lemma forwarded_was_accepted_witness:
  "\<forall>m. Publish [7, 1, 2] m \<notin> waiting_at (gs_run demo_gs_config demo_ops (gs_new (Signing 1 None 0) demo_gs_config)) 5"
  by (rule allI, rule forwarded_was_accepted) (auto simp: demo_gs_config_def demo_ops_def demo_rpc_def)

text \<open>C38. The node sees a message once. During the time to live of the duplicate cache, whatever is received and however
  often, the messages handed to the node have different ids; the starting state is any in which no message waits to be
  handed over.\<close>

theorem message_shown_once:
  assumes "list_all (\<lambda>(E, op). in_span start (tc_ttl (gb_duplicate_cache B)) E) ops" and "delivered B = []"
  shows "distinct (map (\<lambda>(p, mid, m). mid) (delivered (gs_run C ops B)))"
proof -
  have "shown_once start (tc_ttl (gb_duplicate_cache B)) B" by (simp add: shown_once_def assms(2))
  then have "shown_once start (tc_ttl (gb_duplicate_cache B)) (gs_run C ops B)"
    using assms(1) by (intro seen.run_I) (auto simp: list_all_iff)
  then show ?thesis by (simp add: shown_once_def)
qed

lemma message_shown_once_witness:
  "distinct (map (\<lambda>(p, mid, m). mid) (delivered (gs_run demo_gs_config
     [(demo_env 1, Handler_event 5 (Handler_Message demo_rpc [])), (demo_env 2, Handler_event 6 (Handler_Message demo_rpc []))]
     ((gs_new (Signing 1 None 0) demo_gs_config)\<lparr>gb_mesh := fmupd ''a'' {||} fmempty\<rparr>))))"
  by (rule message_shown_once [where start = 0])
    (simp_all add: in_span_def demo_env_def demo_gs_config_def gs_default_def gs_new_def time_cache_new_def SECOND_def delivered_def List.map_filter_def)

text \<open>C40. A request that is not answered is never repeated. Once a peer has been asked for a message it announced, and
  until the message arrives on its own, no peer is asked for it again, however many announce it and however much time
  passes: promises are only given up in \<open>apply_iwant_penalties\<close>, which does nothing without peer scores, as in the
  node.\<close>

theorem unanswered_request_final:
  assumes "\<And>m. ms_source m = Some own \<Longrightarrow> gs_message_id_fn C m \<noteq> mid" and "list_all (\<lambda>(E, op). fair E) ops"
    and "list_all (\<lambda>(E, op). \<forall>p rpc invalid. op = Handler_event p (Handler_Message rpc invalid) \<longrightarrow>
           list_all (\<lambda>raw. gs_message_id_fn C (message_of raw) \<noteq> mid) (rpc_messages rpc)) ops"
    and "gb_publish_config B = Signing own key seq" and "promises_contains mid (gb_gossip_promises B)"
    and "\<And>p mids. IWantOut mids \<in> waiting_at B p \<Longrightarrow> mid \<notin> set mids"
  shows "promises_contains mid (gb_gossip_promises (gs_run C ops B))
    \<and> (\<forall>p mids. IWantOut mids \<in> waiting_at (gs_run C ops B) p \<longrightarrow> mid \<notin> set mids)"
proof -
  have "unanswered C own mid E op" if "(E, op) \<in> set ops" for E op
    unfolding unanswered_def
  proof (intro conjI allI impI ballI)
    show "fair E" using assms(2) that by (auto simp: list_all_iff)
    show "gs_message_id_fn C (message_of raw) \<noteq> mid" if "op = Handler_event p (Handler_Message rpc invalid)" and "raw \<in> set (rpc_messages rpc)" for p rpc invalid raw
      using assms(3) \<open>(E, op) \<in> set ops\<close> that by (fastforce simp: list_all_iff)
  qed (use assms(1) in auto)
  moreover have "requested own mid B" using assms(4-6) by (auto simp: requested_def)
  ultimately have "requested own mid (gs_run C ops B)" by (rule requests.run_I)
  then show ?thesis by (auto simp: requested_def)
qed

lemma unanswered_request_final_witness:
  "promises_contains [8, 1] (gb_gossip_promises (gs_run demo_gs_config demo_ops
     ((gs_new (Signing 1 None 0) demo_gs_config)\<lparr>gb_gossip_promises := add_promise 4 [[8, 1]] 9 fmempty\<rparr>)))"
  using unanswered_request_final [of 1 demo_gs_config "[8, 1]" demo_ops
      "(gs_new (Signing 1 None 0) demo_gs_config)\<lparr>gb_gossip_promises := add_promise 4 [[8, 1]] 9 fmempty\<rparr>" None 0]
  by (simp add: demo_ops_def fair_demo demo_rpc_def message_of_def promises_contains_def add_promise_def promise_one_def waiting_at_def gs_new_def)
    (simp add: demo_gs_config_def)

text \<open>The builder checks the mesh parameters only of topics that have a transmit size of their own: defaults that make the
  heartbeat subtract below 0 pass.\<close>

lemma unvalidated_mesh_panics:
  defines "C \<equiv> demo_gs_config\<lparr>gs_default_mesh_params := \<lparr>tm_mesh_n = 2, tm_mesh_n_low = 5, tm_mesh_n_high = 12, tm_mesh_outbound_min = 1\<rparr>\<rparr>"
  shows "gs_build False C = Inr C \<and> snd (snd (snd (maintain_mesh E C B t {|1, 2, 3|})))"
  by (simp add: C_def gs_build_def demo_gs_config_def gs_default_def maintain_mesh_def Let_def mesh_n_for_topic_def mesh_n_low_for_topic_def
      topic_mesh_params_def SECOND_def MILLISECOND_def fcard.rep_eq sorted_list_of_fset_def List.map_filter_def)

end
