(* ===== verification/Gossip_Mesh.thy ===== *)
theory Gossip_Mesh
  imports Gossip_Safety
begin

text \<open>
  What a heartbeat makes of the mesh of a topic: its size, its outbound peers, and whom it takes in.
\<close>

section \<open>Removing the excess\<close>

lemma excess_subset: "set (excess_loop out omin k ob ps) \<subseteq> set ps"
  by (induction out omin k ob ps rule: excess_loop.induct) auto

lemma excess_distinct: "distinct ps \<Longrightarrow> distinct (excess_loop out omin k ob ps)"
proof (induction ps arbitrary: k ob)
  case (Cons p ps)
  have "p \<notin> set (excess_loop out omin k' ob' ps)" for k' ob' using Cons.prems excess_subset [of out omin k' ob' ps] by auto
  then show ?case using Cons by simp
qed simp

lemma excess_length:
  "length (excess_loop out omin k ob ps) = min k (length (filter (\<lambda>p. \<not> out p) ps) + min (length (filter out ps)) (ob - omin))"
proof (induction ps arbitrary: k ob)
  case (Cons p ps)
  show ?case
  proof (cases "k = 0")
    case False
    then obtain k' where "k = Suc k'" by (cases k) auto
    then show ?thesis by (cases "out p"; cases "ob \<le> omin") (simp_all add: Cons.IH min_def, linarith?)
  qed simp
qed simp

lemma excess_outbound: "length (filter out (excess_loop out omin k ob ps)) \<le> ob - omin"
proof (induction ps arbitrary: k ob)
  case (Cons p ps)
  show ?case using Cons.IH [of "k - 1" "ob - 1"] Cons.IH [of k ob] Cons.IH [of "k - 1" ob] by auto
qed simp

lemma card_of_list: "distinct xs \<Longrightarrow> fcard (fset_of_list xs) = length xs"
  using distinct_card [of xs] by (simp add: fcard.rep_eq fset_of_list.rep_eq)

lemma set_retain: "fair E \<Longrightarrow> mset (retain_shuffle E r t ps) = mset ps"
  by (simp add: retain_shuffle_def fair_def) (metis append_take_drop_id mset_append)

definition outs :: "'p gs_Behaviour \<Rightarrow> 'p fset \<Rightarrow> 'p fset" where
  "outs B ps = ffilter (is_outbound (gb_connected_peers B)) ps"

lemma excess_peers_facts:
  fixes E :: "'p::linorder gs_env" and B :: "'p gs_Behaviour"
  assumes "fair E" and "mesh_params_ok C" and "mesh_n_high_for_topic C t \<le> fcard ps"
  defines "xs \<equiv> excess_peers E C B t ps"
  shows "fset_of_list xs |\<subseteq>| ps" and "distinct xs" and "fcard (ps |-| fset_of_list xs) = mesh_n_for_topic C t"
    and "min (mesh_outbound_min_for_topic C t) (fcard (outs B ps)) \<le> fcard (outs B (ps |-| fset_of_list xs))"
proof -
  let ?out = "is_outbound (gb_connected_peers B)" and ?omin = "mesh_outbound_min_for_topic C t" and ?n = "mesh_n_for_topic C t"
  define ys where "ys = retain_shuffle E (gs_retain_scores C) t (env_shuffle E (Draw_excess t) (sorted_list_of_fset ps))"
  have m: "mset ys = mset (sorted_list_of_fset ps)" using assms(1) by (simp add: ys_def set_retain) (simp add: fair_def)
  have dy: "distinct ys" and sy: "set ys = fset ps"
    using m mset_eq_imp_distinct_iff [OF m] mset_eq_setD [OF m] by (simp_all add: sorted_list_of_fset_def)
  have ly: "length ys = fcard ps" using distinct_card [OF dy] sy by (simp add: fcard.rep_eq)
  have xs: "xs = excess_loop ?out ?omin (fcard ps - ?n) (length (filter ?out ys)) ys"
    using assms(3) by (simp add: xs_def excess_peers_def ys_def Let_def)
  show sub: "fset_of_list xs |\<subseteq>| ps" using excess_subset [of ?out ?omin "fcard ps - ?n" "length (filter ?out ys)" ys] sy
    by (auto simp: less_eq_fset.rep_eq fset_of_list.rep_eq xs)
  show d: "distinct xs" unfolding xs by (rule excess_distinct [OF dy])
  have par: "?omin \<le> ?n" "?n \<le> fcard ps" using assms(2,3) unfolding mesh_params_ok_def by (meson le_trans)+
  have "length (filter ?out ys) + length (filter (\<lambda>p. \<not> ?out p) ys) = fcard ps" using sum_length_filter_compl [of ?out ys] ly by simp
  then have "length xs = fcard ps - ?n" unfolding xs excess_length using par by auto
  moreover have "fcard (ps |-| fset_of_list xs) = fcard ps - fcard (fset_of_list xs)" using sub
    by (simp add: fcard.rep_eq less_eq_fset.rep_eq card_Diff_subset)
  ultimately show "fcard (ps |-| fset_of_list xs) = ?n" using card_of_list [OF d] par by simp
  have o: "fcard (outs B ps) = length (filter ?out ys)"
  proof -
    have "fset_of_list (filter ?out ys) = outs B ps" by (rule fset_eqI) (simp add: outs_def fset_of_list_elem sy)
    then show ?thesis using card_of_list [of "filter ?out ys"] dy by simp
  qed
  have "outs B (ps |-| fset_of_list xs) = outs B ps |-| fset_of_list (filter ?out xs)"
    by (rule fset_eqI) (auto simp: outs_def fset_of_list_elem)
  moreover have "fset_of_list (filter ?out xs) |\<subseteq>| outs B ps" using sub
    by (auto simp: less_eq_fset.rep_eq fset_of_list.rep_eq outs_def)
  ultimately have "fcard (outs B (ps |-| fset_of_list xs)) = fcard (outs B ps) - length (filter ?out xs)"
    using card_of_list [of "filter ?out xs"] d by (simp add: fcard.rep_eq less_eq_fset.rep_eq card_Diff_subset)
  then show "min ?omin (fcard (outs B ps)) \<le> fcard (outs B (ps |-| fset_of_list xs))"
    using excess_outbound [of ?out ?omin "fcard ps - ?n" "length (filter ?out ys)" ys] o by (simp add: xs)
qed

section \<open>The mesh after maintenance\<close>

text \<open>Whom the mesh of a topic can take in.\<close>

definition candidates_for :: "'p gs_Behaviour \<Rightarrow> topic_hash \<Rightarrow> 'p fset \<Rightarrow> 'p fset" where
  "candidates_for B t ps = eligible (gb_connected_peers B) t (graftable B t ps)"

lemma candidates_disjoint: "candidates_for B t ps |\<inter>| ps = {||}"
  by (rule fset_eqI) (auto simp: candidates_for_def eligible_def graftable_def split: option.splits)

lemma fcard_disjoint:
  assumes "a |\<inter>| b = {||}"
  shows "fcard (a |\<union>| b) = fcard a + fcard b"
proof -
  have "fset a \<inter> fset b = {}" using assms by (metis bot_fset.rep_eq inf_fset.rep_eq)
  then show ?thesis by (simp add: fcard.rep_eq card_Un_disjoint)
qed

lemma fcard_union_le: "fcard (a |\<union>| b) \<le> fcard a + fcard b"
  by (simp add: fcard.rep_eq card_Un_le)

lemma candidates_mono:
  "p |\<in>| candidates_for B t ps \<longleftrightarrow> p |\<in>| candidates_for B t {||} \<and> p |\<notin>| ps"
  by (auto simp: candidates_for_def eligible_def graftable_def split: option.splits)

lemma outbound_draw:
  assumes "fair E" and "mesh_n_low_for_topic C t \<le> fcard ps"
  shows "outbound_peers E C B t ps |\<subseteq>| outs B (candidates_for B t ps)"
    and "min (mesh_outbound_min_for_topic C t) (fcard (outs B ps) + fcard (outs B (candidates_for B t ps)))
      \<le> fcard (outs B (ps |\<union>| outbound_peers E C B t ps))"
    and "fcard (outbound_peers E C B t ps) \<le> mesh_outbound_min_for_topic C t"
proof -
  let ?out = "is_outbound (gb_connected_peers B)" and ?omin = "mesh_outbound_min_for_topic C t"
  have e: "eligible (gb_connected_peers B) t (\<lambda>p. graftable B t ps p \<and> ?out p) = outs B (candidates_for B t ps)"
    by (rule fset_eqI) (auto simp: eligible_def outs_def candidates_for_def split: option.splits)
  note r = random_peers [OF assms(1), of "Draw_outbound t" "gb_connected_peers B" t "?omin - fcard (outs B ps)" "\<lambda>p. graftable B t ps p \<and> ?out p", unfolded e]
  have o: "outbound_peers E C B t ps = (if fcard (outs B ps) < ?omin then get_random_peers E (Draw_outbound t) (gb_connected_peers B) t
      (?omin - fcard (outs B ps)) (\<lambda>p. graftable B t ps p \<and> ?out p) else {||})"
    using assms(2) by (simp add: outbound_peers_def outs_def Let_def)
  show s: "outbound_peers E C B t ps |\<subseteq>| outs B (candidates_for B t ps)" using r(1) by (simp add: o)
  show "fcard (outbound_peers E C B t ps) \<le> ?omin" using r(2) by (auto simp: o fcard.rep_eq [of "{||}"])
  have "outs B (ps |\<union>| outbound_peers E C B t ps) = outbound_peers E C B t ps |\<union>| outs B ps"
    by (rule fset_eqI) (use s in \<open>auto simp: outs_def less_eq_fset.rep_eq\<close>)
  moreover have "outbound_peers E C B t ps |\<inter>| outs B ps = {||}"
    by (rule fset_eqI) (use s in \<open>auto simp: outs_def less_eq_fset.rep_eq candidates_mono [of _ B t ps]\<close>)
  ultimately have "fcard (outs B (ps |\<union>| outbound_peers E C B t ps)) = fcard (outbound_peers E C B t ps) + fcard (outs B ps)"
    by (simp add: fcard_disjoint)
  then show "min ?omin (fcard (outs B ps) + fcard (outs B (candidates_for B t ps))) \<le> fcard (outs B (ps |\<union>| outbound_peers E C B t ps))"
    using r(2) by (auto simp: o)
qed

text \<open>The three stages in a row.\<close>

lemma maintained:
  fixes E :: "'p::linorder gs_env" and B :: "'p gs_Behaviour"
  assumes "fair E" and "mesh_params_ok C" and "maintain_mesh E C B t ps = (ps', grafts, prunes, panic)"
  defines "n \<equiv> mesh_n_for_topic C t" and "low \<equiv> mesh_n_low_for_topic C t" and "high \<equiv> mesh_n_high_for_topic C t"
    and "omin \<equiv> mesh_outbound_min_for_topic C t" and "cand \<equiv> candidates_for B t ps"
  shows "min low (fcard ps + fcard cand) \<le> fcard ps'" and "fcard ps' \<le> max (high - 1) n + omin"
    and "low \<le> fcard ps' \<Longrightarrow> min omin (fcard (outs B (ps |\<union>| cand))) \<le> fcard (outs B ps')" and "ps' |\<subseteq>| ps |\<union>| cand"
proof -
  define new where "new = fill_mesh E C B t ps"
  define ps1 where "ps1 = ps |\<union>| new"
  define xs where "xs = excess_peers E C B t ps1"
  define ps2 where "ps2 = ps1 |-| fset_of_list xs"
  define out where "out = outbound_peers E C B t ps2"
  have ps': "ps' = ps2 |\<union>| out" using assms(3) by (auto simp: maintain_mesh_def Let_def new_def ps1_def xs_def ps2_def out_def)
  have par: "omin \<le> low" "low \<le> n" "n \<le> high" using assms(2) by (simp_all add: mesh_params_ok_def n_def low_def high_def omin_def)
  note r = random_peers [OF assms(1), of "Draw_low t" "gb_connected_peers B" t "n - fcard ps" "graftable B t ps", folded candidates_for_def cand_def]
  have new: "new |\<subseteq>| cand" "fcard new = (if fcard ps < low then min (fcard cand) (n - fcard ps) else 0)"
    using r by (simp_all add: new_def fill_mesh_def low_def n_def)
  have disj: "new |\<inter>| ps = {||}" using new(1) candidates_disjoint [of B t ps] unfolding cand_def by blast
  then have c1: "fcard ps1 = fcard ps + fcard new" using fcard_disjoint [OF disj] by (simp add: ps1_def sup_commute)
  have ps2: "ps2 |\<subseteq>| ps1" "fcard ps2 = (if high \<le> fcard ps1 then n else fcard ps1)"
    "min omin (fcard (outs B ps1)) \<le> fcard (outs B ps2)"
    using excess_peers_facts [OF assms(1,2), of t ps1 B] by (auto simp: ps2_def xs_def high_def n_def omin_def excess_peers_def)
  have none: "out = {||}" if "\<not> low \<le> fcard ps2" using that by (simp add: out_def outbound_peers_def low_def Let_def)
  have "out |\<subseteq>| candidates_for B t ps2 \<and> fcard out \<le> omin"
  proof (cases "low \<le> fcard ps2")
    case True
    have "outs B (candidates_for B t ps2) |\<subseteq>| candidates_for B t ps2" by (auto simp: outs_def)
    then show ?thesis using outbound_draw(1,3) [OF assms(1) True [unfolded low_def], of B] unfolding out_def omin_def by blast
  qed (simp add: none fcard.rep_eq [of "{||}"])
  then have out: "out |\<subseteq>| candidates_for B t ps2" "fcard out \<le> omin" by simp_all
  have c3: "fcard ps' = fcard ps2 + fcard out" unfolding ps' using fcard_disjoint [of ps2 out] out(1) candidates_disjoint [of B t ps2] by (metis inf_commute inf.absorb_iff2 inf_assoc inf_bot_right)
  show "min low (fcard ps + fcard cand) \<le> fcard ps'" using par new(2) c1 ps2(2) c3 by (auto simp: min_def split: if_splits)
  show "fcard ps' \<le> max (high - 1) n + omin" using ps2(2) c3 out(2) by (auto split: if_splits)
  show sub: "ps' |\<subseteq>| ps |\<union>| cand"
    using ps2(1) new(1) out(1) candidates_mono [of _ B t ps2] candidates_mono [of _ B t ps] unfolding ps' ps1_def cand_def by blast
  assume l: "low \<le> fcard ps'"
  show "min omin (fcard (outs B (ps |\<union>| cand))) \<le> fcard (outs B ps')"
  proof (cases "omin \<le> fcard (outs B ps2)")
    case True
    moreover have "fcard (outs B ps2) \<le> fcard (outs B ps')" unfolding ps' by (rule fcard_mono) (auto simp: outs_def)
    ultimately show ?thesis by simp
  next
    case False
    then have "fcard (outs B ps1) \<le> fcard (outs B ps2)" using ps2(3) by simp
    moreover have "outs B ps2 |\<subseteq>| outs B ps1" using ps2(1) by (auto simp: outs_def)
    ultimately have same: "outs B ps2 = outs B ps1" by (metis fcard_seteq)
    have "outs B (ps |\<union>| cand) |\<subseteq>| outs B ps2 |\<union>| outs B (candidates_for B t ps2)"
      unfolding same using ps2(1) new(1) candidates_mono [of _ B t ps2] candidates_mono [of _ B t ps] by (auto simp: outs_def ps1_def cand_def)
    then have "fcard (outs B (ps |\<union>| cand)) \<le> fcard (outs B ps2) + fcard (outs B (candidates_for B t ps2))"
      using fcard_mono [of "outs B (ps |\<union>| cand)"] fcard_union_le le_trans by blast
    moreover have "low \<le> fcard ps2"
      using l c3 none by (cases "low \<le> fcard ps2") (simp_all add: fcard.rep_eq [of "{||}"])
    ultimately show ?thesis using outbound_draw(2) [OF assms(1), of C t ps2 B] by (auto simp: low_def omin_def ps' out_def)
  qed
qed

section \<open>The heartbeat\<close>

lemma stage_frames:
  "fill_mesh E C (B\<lparr>gb_mesh := m, gb_panicked := x\<rparr>) t ps = fill_mesh E C B t ps"
  "excess_peers E C (B\<lparr>gb_mesh := m, gb_panicked := x\<rparr>) t ps = excess_peers E C B t ps"
  "outbound_peers E C (B\<lparr>gb_mesh := m, gb_panicked := x\<rparr>) t ps = outbound_peers E C B t ps"
proof -
  have g: "graftable (B\<lparr>gb_mesh := m, gb_panicked := x\<rparr>) t = graftable B t" by (simp add: graftable_def fun_eq_iff)
  show "fill_mesh E C (B\<lparr>gb_mesh := m, gb_panicked := x\<rparr>) t ps = fill_mesh E C B t ps" unfolding fill_mesh_def g by simp
  show "excess_peers E C (B\<lparr>gb_mesh := m, gb_panicked := x\<rparr>) t ps = excess_peers E C B t ps" unfolding excess_peers_def by simp
  show "outbound_peers E C (B\<lparr>gb_mesh := m, gb_panicked := x\<rparr>) t ps = outbound_peers E C B t ps" unfolding outbound_peers_def g by (simp add: Let_def)
qed

lemma maintain_mesh_frame: "maintain_mesh E C (B\<lparr>gb_mesh := m, gb_panicked := x\<rparr>) t ps = maintain_mesh E C B t ps"
  unfolding maintain_mesh_def stage_frames ..

lemma maintained_topics:
  assumes "distinct ts"
  shows "\<exists>tg' tp' m x. fold (maintain_topic E C) ts (tg, tp, B) = (tg', tp', B\<lparr>gb_mesh := m, gb_panicked := x\<rparr>)
    \<and> (\<forall>t. fmlookup m t = (if t \<in> set ts then Some (fst (maintain_mesh E C B t (mesh_peers B t))) else fmlookup (gb_mesh B) t))"
  using assms
proof (induction ts arbitrary: tg tp B)
  case Nil
  have "B = B\<lparr>gb_mesh := gb_mesh B, gb_panicked := gb_panicked B\<rparr>" by simp
  then show ?case by (metis empty_iff empty_set fold_simps(1))
next
  case (Cons t ts)
  obtain ps gs xs panic where m: "maintain_mesh E C B t (mesh_peers B t) = (ps, gs, xs, panic)" by (cases "maintain_mesh E C B t (mesh_peers B t)")
  define B1 where "B1 = B\<lparr>gb_mesh := fmupd t ps (gb_mesh B), gb_panicked := (gb_panicked B \<or> panic)\<rparr>"
  have 1: "fold (maintain_topic E C) (t # ts) (tg, tp, B) = fold (maintain_topic E C) ts (fold (add_topic t) gs tg, fold (add_topic t) xs tp, B1)"
    by (simp add: maintain_topic_def m B1_def)
  obtain tg' tp' m' x where f: "fold (maintain_topic E C) ts (fold (add_topic t) gs tg, fold (add_topic t) xs tp, B1) = (tg', tp', B1\<lparr>gb_mesh := m', gb_panicked := x\<rparr>)"
    and l: "\<forall>t. fmlookup m' t = (if t \<in> set ts then Some (fst (maintain_mesh E C B1 t (mesh_peers B1 t))) else fmlookup (gb_mesh B1) t)"
    using Cons.IH [of "fold (add_topic t) gs tg" "fold (add_topic t) xs tp" B1] Cons.prems by auto
  have "maintain_mesh E C B1 t' (mesh_peers B1 t') = maintain_mesh E C B t' (mesh_peers B t')" if "t' \<noteq> t" for t'
    using that by (simp add: B1_def maintain_mesh_frame) (simp add: mesh_peers_def)
  then have "\<forall>t'. fmlookup m' t' = (if t' \<in> set (t # ts) then Some (fst (maintain_mesh E C B t' (mesh_peers B t'))) else fmlookup (gb_mesh B) t')"
    using l Cons.prems m by (auto simp: B1_def [THEN arg_cong, of gb_mesh])
  moreover have "B1\<lparr>gb_mesh := m', gb_panicked := x\<rparr> = B\<lparr>gb_mesh := m', gb_panicked := x\<rparr>" by (simp add: B1_def)
  ultimately show ?case unfolding 1 f by metis
qed

lemma sends_mesh: "sends R B B' \<Longrightarrow> gb_mesh B' = gb_mesh B"
  by (auto simp: sends_def dest: arg_cong [of _ _ gb_mesh])

lemma heartbeat_mesh:
  fixes B :: "'p::linorder gs_Behaviour"
  assumes "t |\<in>| fmdom (gb_mesh B)"
  shows "mesh_peers (heartbeat E C B) t = fst (maintain_mesh E C (heartbeat_start E C B) t (mesh_peers B t))"
proof -
  define B0 where "B0 = heartbeat_start E C B"
  have m0: "gb_mesh B0 = gb_mesh B" using still_heartbeat_start [of B E C] by (simp add: B0_def still_def)
  obtain tg tp m x where 1: "fold (maintain_topic E C) (sorted_list_of_fset (fmdom (gb_mesh B0))) (fmempty, fmempty, B0) = (tg, tp, B0\<lparr>gb_mesh := m, gb_panicked := x\<rparr>)"
    and l: "fmlookup m t = Some (fst (maintain_mesh E C B0 t (mesh_peers B0 t)))"
    using maintained_topics [of "sorted_list_of_fset (fmdom (gb_mesh B0))" E C fmempty fmempty B0] assms by (auto simp: sorted_list_of_fset_def m0)
  define B1 where "B1 = B0\<lparr>gb_mesh := m, gb_panicked := x\<rparr>"
  define B2 where "B2 = maintain_fanouts E C (expire_fanout E C B1)"
  have "gb_mesh B2 = m" by (simp add: B2_def maintain_fanouts_def expire_fanout_def B1_def Let_def)
  moreover have "gb_mesh (emit_gossip E C B2) = gb_mesh B2"
    unfolding emit_gossip_def Let_def by (subst sends_mesh [OF sends_send_all [of _ UNIV]]) auto
  moreover have "gb_mesh (send_graft_prune E C tg tp B') = gb_mesh B'" for B' by (rule sends_mesh [OF sends_graft_prune [of UNIV]]) auto
  moreover have "gb_mesh (report_failed B') = gb_mesh B'" for B' :: "'p gs_Behaviour" using still_report_failed [of B'] by (simp add: still_def)
  ultimately have "gb_mesh (heartbeat E C B) = m"
    by (simp add: heartbeat_def Let_def B0_def [symmetric] 1 B1_def [symmetric] B2_def [symmetric])
  then show ?thesis using l by (simp add: mesh_peers_def m0 B0_def [symmetric])
qed

lemma connected_heartbeat_start: "gb_connected_peers (heartbeat_start E C B) = gb_connected_peers B"
proof -
  have f: "gb_connected_peers (fold check_explicit_peer_connection ps B') = gb_connected_peers B'" for ps B'
    by (induction ps arbitrary: B') (auto simp: check_explicit_peer_connection_def gs_push_event_def)
  show ?thesis by (simp add: heartbeat_start_def f Let_def)
qed

lemma outs_heartbeat_start: "outs (heartbeat_start E C B) ps = outs B ps"
  by (simp add: outs_def connected_heartbeat_start)


definition demo_lonely :: "u8 gs_Behaviour" where
  "demo_lonely = (gs_new (Signing 1 None 0) demo_gs_config)\<lparr>gb_mesh := fmupd ''a'' {||} fmempty,
     gb_connected_peers := fmupd 5 ((peer_details_new demo_gs_config True)\<lparr>pd_kind := Gossipsubv1_1, pd_connections := [0], pd_topics := {|''a''|}\<rparr>) fmempty\<rparr>"

lemma no_backoffs: "\<not> is_backoff_with_slack t p (backoff_heartbeat imax now (backoff_new a b c))"
  by (simp add: is_backoff_with_slack_def backoff_heartbeat_def backoff_new_def get_backoff_def Let_def sorted_list_of_fset_def)

lemma demo_candidates: "candidates_for (heartbeat_start (demo_env 9) demo_gs_config demo_lonely) ''a'' (mesh_peers demo_lonely ''a'') = {|5|}"
  by (rule fset_eqI) (auto simp: candidates_for_def eligible_def connected_heartbeat_start graftable_def mesh_peers_def demo_lonely_def
      heartbeat_start_def demo_gs_config_def gs_default_def gs_new_def is_gossipsub_def peer_details_new_def no_backoffs)


end
