(* ===== verification/Multiaddr.thy ===== *)
theory Multiaddr
  imports Externals
begin

text \<open>
  Multiaddresses as the sources use them, a sequence of protocol components, and the functions that
  classify and rewrite them: \<open>connectivity/addr.rs\<close>, \<open>connectivity/relay/address.rs\<close>,
  \<open>connectivity/webrtc.rs\<close>, \<open>node/config/listeners.rs\<close>, and the address helpers of
  \<open>connectivity/direct_upgrade.rs\<close>, \<open>connectivity/limits.rs\<close>, \<open>node/public_ip.rs\<close> and
  \<open>stack/dcutr.rs\<close>. An IPv4 address is its four octets, an IPv6 address its eight segments; the
  predicates of \<open>std::net\<close> are written out. The text of a multiaddress is a parameter
  (\<open>ma_ext\<close>), whose documented format is \<open>ma_text_law\<close>.
\<close>

unbundle bit_operations_syntax

section \<open>IP addresses\<close>

type_synonym u16 = "16 word"

datatype ipv4 = Ipv4 u8 u8 u8 u8
datatype ipv6 = Ipv6 u16 u16 u16 u16 u16 u16 u16 u16
datatype ip_addr = V4 ipv4 | V6 ipv6

fun v4_is_unspecified :: "ipv4 \<Rightarrow> bool" where
  "v4_is_unspecified (Ipv4 a b c d) \<longleftrightarrow> a = 0 \<and> b = 0 \<and> c = 0 \<and> d = 0"

fun v4_is_loopback :: "ipv4 \<Rightarrow> bool" where
  "v4_is_loopback (Ipv4 a b c d) \<longleftrightarrow> a = 127"

fun v4_is_private :: "ipv4 \<Rightarrow> bool" where
  "v4_is_private (Ipv4 a b c d) \<longleftrightarrow> a = 10 \<or> a = 172 \<and> 16 \<le> b \<and> b \<le> 31 \<or> a = 192 \<and> b = 168"

fun v4_is_link_local :: "ipv4 \<Rightarrow> bool" where
  "v4_is_link_local (Ipv4 a b c d) \<longleftrightarrow> a = 169 \<and> b = 254"

fun v4_is_multicast :: "ipv4 \<Rightarrow> bool" where
  "v4_is_multicast (Ipv4 a b c d) \<longleftrightarrow> 224 \<le> a \<and> a \<le> 239"

fun v4_is_broadcast :: "ipv4 \<Rightarrow> bool" where
  "v4_is_broadcast (Ipv4 a b c d) \<longleftrightarrow> a = 255 \<and> b = 255 \<and> c = 255 \<and> d = 255"

fun segments :: "ipv6 \<Rightarrow> u16 list" where
  "segments (Ipv6 a b c d e f g h) = [a, b, c, d, e, f, g, h]"

definition v6_is_unspecified :: "ipv6 \<Rightarrow> bool" where
  "v6_is_unspecified ip \<longleftrightarrow> segments ip = [0, 0, 0, 0, 0, 0, 0, 0]"

definition v6_is_loopback :: "ipv6 \<Rightarrow> bool" where
  "v6_is_loopback ip \<longleftrightarrow> segments ip = [0, 0, 0, 0, 0, 0, 0, 1]"

definition v6_is_multicast :: "ipv6 \<Rightarrow> bool" where
  "v6_is_multicast ip \<longleftrightarrow> segments ip ! 0 AND 0xff00 = 0xff00"

definition v6_is_unique_local :: "ipv6 \<Rightarrow> bool" where
  "v6_is_unique_local ip \<longleftrightarrow> segments ip ! 0 AND 0xfe00 = 0xfc00"

definition v6_is_unicast_link_local :: "ipv6 \<Rightarrow> bool" where
  "v6_is_unicast_link_local ip \<longleftrightarrow> segments ip ! 0 AND 0xffc0 = 0xfe80"

text \<open>The text of an address: dotted decimal, and for IPv6 the format of \<open>std::net\<close>, with an
  embedded IPv4 address for the mapped range and the first longest run of at least two zero segments
  written as two colons.\<close>

primrec join :: "string \<Rightarrow> string list \<Rightarrow> string" where
  "join sep [] = []"
| "join sep (s # ss) = (if ss = [] then s else s @ sep @ join sep ss)"

fun v4_to_string :: "ipv4 \<Rightarrow> string" where
  "v4_to_string (Ipv4 a b c d) = join ''.'' (map (\<lambda>x. show_nat (unat x)) [a, b, c, d])"

fun show_hex :: "nat \<Rightarrow> string" where
  "show_hex n = (if n < 16 then [nibble_char n] else show_hex (n div 16) @ [nibble_char (n mod 16)])"

declare show_hex.simps [simp del]

text \<open>Zero runs: (start, length) of the run that ends here and of the longest one so far.\<close>

fun zero_run :: "nat \<Rightarrow> nat \<times> nat \<Rightarrow> nat \<times> nat \<Rightarrow> u16 list \<Rightarrow> nat \<times> nat" where
  "zero_run i current longest [] = longest"
| "zero_run i current longest (s # ss) =
     (if s = 0
      then let start = (if snd current = 0 then i else fst current); len = Suc (snd current)
           in zero_run (Suc i) (start, len) (if snd longest < len then (start, len) else longest) ss
      else zero_run (Suc i) (0, 0) longest ss)"

definition v6_groups :: "u16 list \<Rightarrow> string" where
  "v6_groups ss = join '':'' (map (\<lambda>s. show_hex (unat s)) ss)"

definition v6_to_string :: "ipv6 \<Rightarrow> string" where
  "v6_to_string ip = (let ss = segments ip in
     if take 6 ss = [0, 0, 0, 0, 0, 0xffff]
     then ''::ffff:'' @ v4_to_string (Ipv4 (of_nat (unat (ss ! 6) div 256)) (of_nat (unat (ss ! 6) mod 256))
            (of_nat (unat (ss ! 7) div 256)) (of_nat (unat (ss ! 7) mod 256)))
     else let (start, len) = zero_run 0 (0, 0) (0, 0) ss in
       if 1 < len then v6_groups (take start ss) @ ''::'' @ v6_groups (drop (start + len) ss)
       else v6_groups ss)"

section \<open>Multiaddresses\<close>

datatype 'p protocol = Ip4 ipv4 | Ip6 ipv6
  | Dns string | Dns4 string | Dns6 string | Dnsaddr string
  | Tcp nat | Udp nat
  | Quic | QuicV1 | Ws string | Wss string | Tls
  | WebRTC | WebRTCDirect | P2pWebRtcDirect | Certhash string | WebTransport
  | P2p 'p | P2pCircuit
  | OtherProtocol string

type_synonym 'p multiaddr = "'p protocol list"

record 'p ma_ext =
  ma_to_string :: "'p multiaddr \<Rightarrow> string"
  ma_parse :: "string \<Rightarrow> 'p multiaddr option"

section \<open>Reachability (\<open>connectivity/addr.rs\<close>)\<close>

definition has_reachable_transport :: "'p multiaddr \<Rightarrow> bool" where
  "has_reachable_transport addr \<longleftrightarrow> list_ex (\<lambda>protocol. case protocol of
     Ip4 _ \<Rightarrow> True | Ip6 _ \<Rightarrow> True | Dns _ \<Rightarrow> True | Dns4 _ \<Rightarrow> True | Dns6 _ \<Rightarrow> True | _ \<Rightarrow> False) addr"

definition has_unspecified_ip :: "'p multiaddr \<Rightarrow> bool" where
  "has_unspecified_ip addr \<longleftrightarrow> list_ex (\<lambda>protocol. case protocol of
     Ip4 ip \<Rightarrow> v4_is_unspecified ip | Ip6 ip \<Rightarrow> v6_is_unspecified ip | _ \<Rightarrow> False) addr"

fun is_public_ipv4 :: "ipv4 \<Rightarrow> bool" where
  "is_public_ipv4 (Ipv4 a b c d) = (let ip = Ipv4 a b c d in
     if v4_is_unspecified ip \<or> v4_is_loopback ip \<or> v4_is_private ip \<or> v4_is_link_local ip
        \<or> v4_is_multicast ip \<or> v4_is_broadcast ip then False
     else if a = 100 \<and> 64 \<le> b \<and> b \<le> 127 then False
     else if (a, b, c) = (192, 0, 2) \<or> (a, b, c) = (198, 51, 100) \<or> (a, b, c) = (203, 0, 113) then False
     else True)"

definition is_public_ipv6 :: "ipv6 \<Rightarrow> bool" where
  "is_public_ipv6 ip = (let first = segments ip ! 0 in
     if v6_is_unspecified ip \<or> v6_is_loopback ip \<or> v6_is_multicast ip then False
     else if first AND 0xfe00 = 0xfc00 then False
     else if first AND 0xffc0 = 0xfe80 then False
     else if first = 0x2001 \<and> segments ip ! 1 = 0x0db8 then False
     else True)"

primrec is_public_ip :: "ip_addr \<Rightarrow> bool" where
  "is_public_ip (V4 ip) = is_public_ipv4 ip"
| "is_public_ip (V6 ip) = is_public_ipv6 ip"

fun public_direct_loop :: "bool \<Rightarrow> 'p multiaddr \<Rightarrow> bool" where
  "public_direct_loop has_routable_endpoint [] = has_routable_endpoint"
| "public_direct_loop has_routable_endpoint (protocol # rest) = (case protocol of
     Ip4 ip \<Rightarrow> if \<not> is_public_ipv4 ip then False else public_direct_loop True rest
   | Ip6 ip \<Rightarrow> if \<not> is_public_ipv6 ip then False else public_direct_loop True rest
   | Dns _ \<Rightarrow> public_direct_loop True rest
   | Dns4 _ \<Rightarrow> public_direct_loop True rest
   | Dns6 _ \<Rightarrow> public_direct_loop True rest
   | Dnsaddr _ \<Rightarrow> public_direct_loop True rest
   | _ \<Rightarrow> public_direct_loop has_routable_endpoint rest)"

definition is_public_direct_addr :: "'p multiaddr \<Rightarrow> bool" where
  "is_public_direct_addr addr = public_direct_loop False addr"

definition is_local_direct_addr :: "'p multiaddr \<Rightarrow> bool" where
  "is_local_direct_addr addr \<longleftrightarrow> list_ex (\<lambda>protocol. case protocol of
     Ip4 ip \<Rightarrow> \<not> is_public_ipv4 ip | Ip6 ip \<Rightarrow> \<not> is_public_ipv6 ip | _ \<Rightarrow> False) addr"

section \<open>Relayed addresses (\<open>connectivity/relay/address.rs\<close>)\<close>

definition is_p2p_circuit_addr :: "'p multiaddr \<Rightarrow> bool" where
  "is_p2p_circuit_addr addr \<longleftrightarrow> list_ex (\<lambda>protocol. case protocol of P2pCircuit \<Rightarrow> True | _ \<Rightarrow> False) addr"

definition has_p2p_peer_id :: "'p multiaddr \<Rightarrow> bool" where
  "has_p2p_peer_id addr \<longleftrightarrow> list_ex (\<lambda>protocol. case protocol of P2p _ \<Rightarrow> True | _ \<Rightarrow> False) addr"

definition relay_reservation_addr :: "'p multiaddr \<Rightarrow> 'p multiaddr option" where
  "relay_reservation_addr relay_addr =
     (if \<not> has_p2p_peer_id relay_addr \<or> is_p2p_circuit_addr relay_addr then None
      else Some (relay_addr @ [P2pCircuit]))"

fun relay_peer_id :: "'p multiaddr \<Rightarrow> 'p option" where
  "relay_peer_id [] = None"
| "relay_peer_id (protocol # rest) = (case protocol of
     P2p peer \<Rightarrow> Some peer
   | P2pCircuit \<Rightarrow> None
   | _ \<Rightarrow> relay_peer_id rest)"

fun target_loop :: "bool \<Rightarrow> 'p option \<Rightarrow> 'p multiaddr \<Rightarrow> 'p option" where
  "target_loop seen_circuit target_after_circuit [] = target_after_circuit"
| "target_loop seen_circuit target_after_circuit (protocol # rest) = (case protocol of
     P2pCircuit \<Rightarrow> target_loop True target_after_circuit rest
   | P2p peer \<Rightarrow> target_loop seen_circuit (if seen_circuit then Some peer else target_after_circuit) rest
   | _ \<Rightarrow> target_loop seen_circuit target_after_circuit rest)"

definition relay_dial_addr_for_peer :: "'p multiaddr \<Rightarrow> 'p \<Rightarrow> 'p multiaddr option" where
  "relay_dial_addr_for_peer addr target =
     (if \<not> is_p2p_circuit_addr addr then None
      else case target_loop False None addr of
             Some peer \<Rightarrow> if peer = target then Some addr else None
           | None \<Rightarrow> Some (addr @ [P2p target]))"

section \<open>Transports\<close>

fun direct_webrtc_loop :: "bool \<Rightarrow> 'p multiaddr \<Rightarrow> bool" where
  "direct_webrtc_loop webrtc [] = webrtc"
| "direct_webrtc_loop webrtc (protocol # rest) = (case protocol of
     P2pCircuit \<Rightarrow> False
   | WebRTCDirect \<Rightarrow> False
   | WebRTC \<Rightarrow> direct_webrtc_loop True rest
   | _ \<Rightarrow> direct_webrtc_loop webrtc rest)"

definition is_direct_browser_webrtc :: "'p multiaddr \<Rightarrow> bool" where
  "is_direct_browser_webrtc addr = direct_webrtc_loop False addr"

definition is_webrtc_direct_addr :: "'p multiaddr \<Rightarrow> bool" where
  "is_webrtc_direct_addr addr \<longleftrightarrow> list_ex (\<lambda>protocol. case protocol of
     WebRTCDirect \<Rightarrow> True | P2pWebRtcDirect \<Rightarrow> True | _ \<Rightarrow> False) addr"

fun certhash_loop :: "bool \<Rightarrow> 'p multiaddr \<Rightarrow> bool" where
  "certhash_loop saw_webrtc_direct [] = False"
| "certhash_loop saw_webrtc_direct (protocol # rest) = (case protocol of
     WebRTCDirect \<Rightarrow> certhash_loop True rest
   | P2pWebRtcDirect \<Rightarrow> certhash_loop True rest
   | Certhash _ \<Rightarrow> if saw_webrtc_direct then True else certhash_loop saw_webrtc_direct rest
   | _ \<Rightarrow> certhash_loop saw_webrtc_direct rest)"

definition has_webrtc_direct_certhash :: "'p multiaddr \<Rightarrow> bool" where
  "has_webrtc_direct_certhash addr = certhash_loop False addr"

record ListenerConfig =
  listen_tcp :: bool
  listen_quic :: bool
  listen_websocket :: bool
  listen_webrtc_direct :: bool

definition listener_config_default :: ListenerConfig where
  "listener_config_default = \<lparr>listen_tcp = True, listen_quic = True, listen_websocket = True, listen_webrtc_direct = True\<rparr>"

fun listener_loop :: "ListenerConfig \<Rightarrow> bool \<Rightarrow> 'p multiaddr \<Rightarrow> bool" where
  "listener_loop cfg is_tcp [] \<longleftrightarrow> \<not> is_tcp \<or> listen_tcp cfg"
| "listener_loop cfg is_tcp (protocol # rest) = (case protocol of
     Tcp _ \<Rightarrow> listener_loop cfg True rest
   | Quic \<Rightarrow> listen_quic cfg
   | QuicV1 \<Rightarrow> listen_quic cfg
   | Ws _ \<Rightarrow> listen_websocket cfg
   | Wss _ \<Rightarrow> listen_websocket cfg
   | WebRTCDirect \<Rightarrow> listen_webrtc_direct cfg
   | P2pWebRtcDirect \<Rightarrow> listen_webrtc_direct cfg
   | _ \<Rightarrow> listener_loop cfg is_tcp rest)"

definition listener_allows :: "ListenerConfig \<Rightarrow> 'p multiaddr \<Rightarrow> bool" where
  "listener_allows cfg addr = listener_loop cfg False addr"

text \<open>The candidates a hole punch may use (\<open>stack/dcutr.rs\<close>).\<close>

fun quic_candidate_loop :: "bool \<Rightarrow> bool \<Rightarrow> 'p multiaddr \<Rightarrow> bool" where
  "quic_candidate_loop has_udp has_quic [] \<longleftrightarrow> has_udp \<and> has_quic"
| "quic_candidate_loop has_udp has_quic (protocol # rest) = (case protocol of
     Udp _ \<Rightarrow> quic_candidate_loop True has_quic rest
   | QuicV1 \<Rightarrow> quic_candidate_loop has_udp True rest
   | Tcp _ \<Rightarrow> False
   | Ws _ \<Rightarrow> False
   | Wss _ \<Rightarrow> False
   | P2pCircuit \<Rightarrow> False
   | Ip4 ip \<Rightarrow> if v4_is_loopback ip \<or> v4_is_link_local ip then False
              else if v4_is_unspecified ip then False else quic_candidate_loop has_udp has_quic rest
   | Ip6 ip \<Rightarrow> if v6_is_loopback ip then False
              else if v6_is_unspecified ip then False else quic_candidate_loop has_udp has_quic rest
   | _ \<Rightarrow> quic_candidate_loop has_udp has_quic rest)"

definition is_quic_candidate :: "'p multiaddr \<Rightarrow> bool" where
  "is_quic_candidate addr = quic_candidate_loop False False addr"

text \<open>The key under which connections are counted (\<open>connectivity/limits.rs\<close>).\<close>

fun multiaddr_ip_key :: "'p multiaddr \<Rightarrow> string option" where
  "multiaddr_ip_key [] = None"
| "multiaddr_ip_key (protocol # rest) = (case protocol of
     Ip4 ip \<Rightarrow> Some (v4_to_string ip)
   | Ip6 ip \<Rightarrow> Some (v6_to_string ip)
   | _ \<Rightarrow> multiaddr_ip_key rest)"

text \<open>The external address a listen address has behind a public IP (\<open>node/public_ip.rs\<close>); the
  state of the loop is the address written so far and the three flags.\<close>

fun rewrite_loop :: "ip_addr \<Rightarrow> 'p multiaddr \<Rightarrow> bool \<Rightarrow> bool \<Rightarrow> bool \<Rightarrow> 'p multiaddr \<Rightarrow> 'p multiaddr option" where
  "rewrite_loop public_ip rewritten replaced_ip webrtc_direct certhash [] =
     (if replaced_ip \<and> (certhash \<or> \<not> webrtc_direct) then Some rewritten else None)"
| "rewrite_loop public_ip rewritten replaced_ip webrtc_direct certhash (protocol # rest) = (case protocol of
     Tcp port \<Rightarrow> if port = 0 then None
        else rewrite_loop public_ip (rewritten @ [Tcp port]) replaced_ip webrtc_direct certhash rest
   | Udp port \<Rightarrow> if port = 0 then None
        else rewrite_loop public_ip (rewritten @ [Udp port]) replaced_ip webrtc_direct certhash rest
   | WebRTCDirect \<Rightarrow> rewrite_loop public_ip (rewritten @ [WebRTCDirect]) replaced_ip True certhash rest
   | Certhash hash \<Rightarrow> rewrite_loop public_ip (rewritten @ [Certhash hash]) replaced_ip webrtc_direct True rest
   | Ip4 listen_ip \<Rightarrow> (case public_ip of
          V4 ip \<Rightarrow> if v4_is_loopback listen_ip then None
             else rewrite_loop public_ip (rewritten @ [Ip4 ip]) True webrtc_direct certhash rest
        | V6 _ \<Rightarrow> None)
   | Ip6 listen_ip \<Rightarrow> (case public_ip of
          V6 ip \<Rightarrow> if v6_is_loopback listen_ip then None
             else rewrite_loop public_ip (rewritten @ [Ip6 ip]) True webrtc_direct certhash rest
        | V4 _ \<Rightarrow> None)
   | Dns _ \<Rightarrow> None
   | Dns4 _ \<Rightarrow> None
   | Dns6 _ \<Rightarrow> None
   | other \<Rightarrow> rewrite_loop public_ip (rewritten @ [other]) replaced_ip webrtc_direct certhash rest)"

definition rewrite_listen_ip :: "'p multiaddr \<Rightarrow> ip_addr \<Rightarrow> 'p multiaddr option" where
  "rewrite_listen_ip addr public_ip = rewrite_loop public_ip [] False False False addr"

text \<open>The last peer component, the target of the address: the loop of
  \<open>connection_strategy.rs\<close> and \<open>peer_cache/addr_policy.rs\<close>.\<close>

definition extract_p2p_peer_id :: "'p multiaddr \<Rightarrow> 'p option" where
  "extract_p2p_peer_id addr = fold (\<lambda>protocol peer. case protocol of P2p id1 \<Rightarrow> Some id1 | _ \<Rightarrow> peer) addr None"

section \<open>The special-purpose IPv4 blocks\<close>

text \<open>The reference: an address as a 32-bit number, and CIDR blocks.\<close>

fun v4_number :: "ipv4 \<Rightarrow> nat" where
  "v4_number (Ipv4 a b c d) = unat a * 2 ^ 24 + unat b * 2 ^ 16 + unat c * 2 ^ 8 + unat d"

definition in_cidr :: "ipv4 \<times> nat \<Rightarrow> ipv4 \<Rightarrow> bool" where
  "in_cidr block ip \<longleftrightarrow> v4_number ip div 2 ^ (32 - snd block) = v4_number (fst block) div 2 ^ (32 - snd block)"

definition special_blocks :: "(ipv4 \<times> nat) list" where
  "special_blocks = [(Ipv4 0 0 0 0, 32), (Ipv4 127 0 0 0, 8), (Ipv4 10 0 0 0, 8), (Ipv4 172 16 0 0, 12),
     (Ipv4 192 168 0 0, 16), (Ipv4 169 254 0 0, 16), (Ipv4 224 0 0 0, 4), (Ipv4 255 255 255 255, 32),
     (Ipv4 100 64 0 0, 10), (Ipv4 192 0 2 0, 24), (Ipv4 198 51 100 0, 24), (Ipv4 203 0 113 0, 24)]"

lemma octet_less: "unat (a :: u8) < 256"
  using unsigned_less [of a] by simp

lemma octet_eq: "a = b \<longleftrightarrow> unat a = unat (b :: u8)"
  by (simp add: word_eq_iff_unsigned)

lemma octet_le: "a \<le> b \<longleftrightarrow> unat a \<le> unat (b :: u8)"
  by (rule word_le_nat_alt)

lemma digit_eq: "b < m \<Longrightarrow> b' < m \<Longrightarrow> a * m + b = a' * m + b' \<longleftrightarrow> a = a' \<and> b = (b' :: nat)"
  by (metis add_left_cancel add_lessD1 div_mult_self3 div_less add.right_neutral not_less_zero mult.commute)

lemma nat_base256:
  fixes a b c d :: nat
  assumes "b < 256" "c < 256" "d < 256"
  shows "(a * 2 ^ 24 + b * 2 ^ 16 + c * 2 ^ 8 + d) div 2 ^ 0 = ((a * 256 + b) * 256 + c) * 256 + d"
    and "(a * 2 ^ 24 + b * 2 ^ 16 + c * 2 ^ 8 + d) div 2 ^ 8 = (a * 256 + b) * 256 + c"
    and "(a * 2 ^ 24 + b * 2 ^ 16 + c * 2 ^ 8 + d) div 2 ^ 16 = a * 256 + b"
    and "(a * 2 ^ 24 + b * 2 ^ 16 + c * 2 ^ 8 + d) div 2 ^ 20 = a * 16 + b div 16"
    and "(a * 2 ^ 24 + b * 2 ^ 16 + c * 2 ^ 8 + d) div 2 ^ 22 = a * 4 + b div 64"
    and "(a * 2 ^ 24 + b * 2 ^ 16 + c * 2 ^ 8 + d) div 2 ^ 24 = a"
    and "(a * 2 ^ 24 + b * 2 ^ 16 + c * 2 ^ 8 + d) div 2 ^ 28 = a div 16"
  using assms by (simp_all; linarith)+

lemma cidr_octets:
  "in_cidr (Ipv4 a' b' c' d', 32) (Ipv4 a b c d) \<longleftrightarrow> a = a' \<and> b = b' \<and> c = c' \<and> d = d'"
  "in_cidr (Ipv4 a' b' c' d', 24) (Ipv4 a b c d) \<longleftrightarrow> a = a' \<and> b = b' \<and> c = c'"
  "in_cidr (Ipv4 a' b' c' d', 16) (Ipv4 a b c d) \<longleftrightarrow> a = a' \<and> b = b'"
  "in_cidr (Ipv4 a' b' c' d', 8) (Ipv4 a b c d) \<longleftrightarrow> a = a'"
  "in_cidr (Ipv4 a' b' c' d', 12) (Ipv4 a b c d) \<longleftrightarrow> a = a' \<and> unat b div 16 = unat b' div 16"
  "in_cidr (Ipv4 a' b' c' d', 10) (Ipv4 a b c d) \<longleftrightarrow> a = a' \<and> unat b div 64 = unat b' div 64"
  "in_cidr (Ipv4 a' b' c' d', 4) (Ipv4 a b c d) \<longleftrightarrow> unat a div 16 = unat a' div 16"
proof -
  have high: "unat x div 16 < 16" "unat x div 64 < 4" for x :: u8 using octet_less [of x] by simp_all
  have n: "in_cidr (Ipv4 a' b' c' d', n) (Ipv4 a b c d) \<longleftrightarrow>
      (unat a * 2 ^ 24 + unat b * 2 ^ 16 + unat c * 2 ^ 8 + unat d) div 2 ^ (32 - n) =
      (unat a' * 2 ^ 24 + unat b' * 2 ^ 16 + unat c' * 2 ^ 8 + unat d') div 2 ^ (32 - n)" for n
    by (simp add: in_cidr_def)
  have m: "32 - 32 = (0 :: nat)" "32 - 24 = (8 :: nat)" "32 - 16 = (16 :: nat)" "32 - 8 = (24 :: nat)"
    "32 - 12 = (20 :: nat)" "32 - 10 = (22 :: nat)" "32 - 4 = (28 :: nat)" by simp_all
  note rules = n m nat_base256 [OF octet_less octet_less octet_less] octet_eq digit_eq [OF octet_less octet_less]
    digit_eq [OF high(1) high(1)] digit_eq [OF high(2) high(2)] conj_assoc
  show "in_cidr (Ipv4 a' b' c' d', 32) (Ipv4 a b c d) \<longleftrightarrow> a = a' \<and> b = b' \<and> c = c' \<and> d = d'"
    "in_cidr (Ipv4 a' b' c' d', 24) (Ipv4 a b c d) \<longleftrightarrow> a = a' \<and> b = b' \<and> c = c'"
    "in_cidr (Ipv4 a' b' c' d', 16) (Ipv4 a b c d) \<longleftrightarrow> a = a' \<and> b = b'"
    "in_cidr (Ipv4 a' b' c' d', 8) (Ipv4 a b c d) \<longleftrightarrow> a = a'"
    "in_cidr (Ipv4 a' b' c' d', 12) (Ipv4 a b c d) \<longleftrightarrow> a = a' \<and> unat b div 16 = unat b' div 16"
    "in_cidr (Ipv4 a' b' c' d', 10) (Ipv4 a b c d) \<longleftrightarrow> a = a' \<and> unat b div 64 = unat b' div 64"
    "in_cidr (Ipv4 a' b' c' d', 4) (Ipv4 a b c d) \<longleftrightarrow> unat a div 16 = unat a' div 16"
    by (simp_all only: rules)
qed

text \<open>An IPv4 address is treated as globally routable exactly when it lies in none of the
  special-purpose blocks: unspecified, loopback, the three private blocks, link-local, multicast,
  broadcast, carrier-grade NAT and the three documentation networks, each as a CIDR block.\<close>

theorem public_ipv4_blocks:
  "is_public_ipv4 ip \<longleftrightarrow> \<not> list_ex (\<lambda>block. in_cidr block ip) special_blocks"
proof (cases ip)
  case (Ipv4 a b c d)
  have priv: "16 \<le> b \<and> b \<le> 31 \<longleftrightarrow> unat b div 16 = 1"
    and cgnat: "64 \<le> b \<and> b \<le> 127 \<longleftrightarrow> unat b div 64 = 1"
    and multi: "224 \<le> a \<and> a \<le> 239 \<longleftrightarrow> unat a div 16 = 14"
    unfolding octet_le using octet_less [of a] octet_less [of b] by (simp_all; linarith)+
  show ?thesis unfolding Ipv4
    by (simp only: is_public_ipv4.simps special_blocks_def list_ex_Nil_iff list_ex_Cons_iff cidr_octets Let_def
        v4_is_unspecified.simps v4_is_loopback.simps v4_is_private.simps v4_is_link_local.simps
        v4_is_multicast.simps v4_is_broadcast.simps priv cgnat multi prod.inject) auto
qed

section \<open>Public and local addresses\<close>

definition ip_ok :: "(ip_addr \<Rightarrow> bool) \<Rightarrow> 'p protocol \<Rightarrow> bool" where
  "ip_ok P protocol \<longleftrightarrow> (case protocol of Ip4 ip \<Rightarrow> P (V4 ip) | Ip6 ip \<Rightarrow> P (V6 ip) | _ \<Rightarrow> True)"

definition routable :: "'p protocol \<Rightarrow> bool" where
  "routable protocol \<longleftrightarrow> (case protocol of Ip4 _ \<Rightarrow> True | Ip6 _ \<Rightarrow> True | Dns _ \<Rightarrow> True | Dns4 _ \<Rightarrow> True
     | Dns6 _ \<Rightarrow> True | Dnsaddr _ \<Rightarrow> True | _ \<Rightarrow> False)"

lemma public_direct_loop_iff:
  "public_direct_loop found addr \<longleftrightarrow> list_all (ip_ok is_public_ip) addr \<and> (found \<or> list_ex routable addr)"
  by (induction found addr rule: public_direct_loop.induct) (auto simp: ip_ok_def routable_def split: protocol.split)

lemma is_public_direct_addr_iff:
  "is_public_direct_addr addr \<longleftrightarrow> list_all (ip_ok is_public_ip) addr \<and> list_ex routable addr"
  by (simp add: is_public_direct_addr_def public_direct_loop_iff)

lemma is_local_direct_addr_iff: "is_local_direct_addr addr \<longleftrightarrow> \<not> list_all (ip_ok is_public_ip) addr"
  by (induction addr) (auto simp: is_local_direct_addr_def ip_ok_def split: protocol.splits)

lemma public_not_local: "is_public_direct_addr addr \<Longrightarrow> \<not> is_local_direct_addr addr"
  by (simp add: is_public_direct_addr_iff is_local_direct_addr_iff)

text \<open>Two consequences of the code that its comments do not have: a relayed address counts as a
  public direct one when the relay's endpoint is public, and an IPv4-mapped IPv6 address is public
  whatever the IPv4 address is, here the mapped loopback address.\<close>

lemma circuit_addr_counts_as_public:
  "list_all (ip_ok is_public_ip) addr \<Longrightarrow> list_ex routable addr \<Longrightarrow> is_public_direct_addr (addr @ [P2p relay, P2pCircuit])"
  by (auto simp: is_public_direct_addr_iff ip_ok_def)

lemma mapped_loopback_counts_as_public: "is_public_ip (V6 (Ipv6 0 0 0 0 0 0xffff 0x7f00 1))"
  by (simp add: is_public_ipv6_def v6_is_unspecified_def v6_is_loopback_def v6_is_multicast_def)

section \<open>External addresses behind a public IP\<close>

definition swap_ip :: "ip_addr \<Rightarrow> 'p protocol \<Rightarrow> 'p protocol" where
  "swap_ip ip protocol = (case protocol of
     Ip4 _ \<Rightarrow> (case ip of V4 ip4 \<Rightarrow> Ip4 ip4 | V6 ip6 \<Rightarrow> Ip6 ip6)
   | Ip6 _ \<Rightarrow> (case ip of V4 ip4 \<Rightarrow> Ip4 ip4 | V6 ip6 \<Rightarrow> Ip6 ip6)
   | _ \<Rightarrow> protocol)"

definition unknown_port :: "'p protocol \<Rightarrow> bool" where
  "unknown_port protocol \<longleftrightarrow> (case protocol of Tcp port \<Rightarrow> port = 0 | Udp port \<Rightarrow> port = 0 | _ \<Rightarrow> False)"

definition is_ip :: "'p protocol \<Rightarrow> bool" where
  "is_ip protocol \<longleftrightarrow> (case protocol of Ip4 _ \<Rightarrow> True | Ip6 _ \<Rightarrow> True | _ \<Rightarrow> False)"

definition is_certhash :: "'p protocol \<Rightarrow> bool" where
  "is_certhash protocol \<longleftrightarrow> (case protocol of Certhash _ \<Rightarrow> True | _ \<Rightarrow> False)"

lemma rewrite_loop_Some:
  "rewrite_loop ip acc replaced webrtc hash addr = Some out \<Longrightarrow>
     out = acc @ map (swap_ip ip) addr \<and> \<not> list_ex unknown_port addr
     \<and> (replaced \<or> list_ex is_ip addr) \<and> (webrtc \<or> WebRTCDirect \<in> set addr \<longrightarrow> hash \<or> list_ex is_certhash addr)"
proof (induction ip acc replaced webrtc hash addr rule: rewrite_loop.induct)
  case (2 ip acc replaced webrtc hash protocol rest)
  note now = swap_ip_def [of ip protocol] unknown_port_def [of protocol] is_ip_def [of protocol] is_certhash_def [of protocol]
  show ?case
    by (cases protocol; cases ip) (use 2 now in \<open>auto split: if_splits\<close>)
qed (auto split: if_splits)

lemma swapped_ip_ok: "P ip \<Longrightarrow> ip_ok P (swap_ip ip protocol)"
  by (auto simp: ip_ok_def swap_ip_def split: protocol.splits ip_addr.splits)

lemma swap_ip_routable: "is_ip protocol \<Longrightarrow> routable (swap_ip ip protocol)"
  by (auto simp: routable_def is_ip_def swap_ip_def split: protocol.splits ip_addr.splits)

text \<open>The external address derived from a listen address and the node's public IP is the listen
  address with the public IP in place of its IP: it is a public direct address, it is not a local one,
  no port of it is the unknown port 0, and a WebRTC-direct address carries a certificate hash.\<close>

theorem rewritten_addr_dialable:
  assumes "rewrite_listen_ip addr ip = Some out" and "is_public_ip ip"
  shows "out = map (swap_ip ip) addr \<and> is_public_direct_addr out \<and> \<not> is_local_direct_addr out
    \<and> \<not> list_ex unknown_port addr \<and> (WebRTCDirect \<in> set addr \<longrightarrow> list_ex is_certhash addr)"
proof -
  from rewrite_loop_Some [OF assms(1) [unfolded rewrite_listen_ip_def]]
  have out: "out = map (swap_ip ip) addr" and ports: "\<not> list_ex unknown_port addr"
    and ip: "list_ex is_ip addr" and hash: "WebRTCDirect \<in> set addr \<longrightarrow> list_ex is_certhash addr" by auto
  have "is_public_direct_addr out" unfolding out is_public_direct_addr_iff
    using ip swapped_ip_ok [of is_public_ip, OF assms(2)]
    by (auto simp: list_all_iff list_ex_iff intro: swap_ip_routable)
  with public_not_local [OF this] show ?thesis using out ports hash by blast
qed

theorem rewritten_addr_dialable_witness:
  "is_public_direct_addr [Ip4 (Ipv4 8 8 8 8), Udp 4003, WebRTCDirect, Certhash ''uEi'', P2p (7 :: u8)]"
proof -
  have "rewrite_listen_ip [Ip4 (Ipv4 0 0 0 0), Udp 4003, WebRTCDirect, Certhash ''uEi'', P2p (7 :: u8)] (V4 (Ipv4 8 8 8 8))
      = Some [Ip4 (Ipv4 8 8 8 8), Udp 4003, WebRTCDirect, Certhash ''uEi'', P2p 7]"
    by (simp add: rewrite_listen_ip_def)
  moreover have "is_public_ip (V4 (Ipv4 8 8 8 8))" by simp
  ultimately show ?thesis using rewritten_addr_dialable by blast
qed

section \<open>Routes through a relay\<close>

lemma is_p2p_circuit_addr_iff: "is_p2p_circuit_addr addr \<longleftrightarrow> P2pCircuit \<in> set addr"
  by (induction addr) (auto simp: is_p2p_circuit_addr_def split: protocol.splits)

lemma relay_peer_id_prefix:
  "has_p2p_peer_id addr \<Longrightarrow> P2pCircuit \<notin> set addr \<Longrightarrow> \<exists>relay. relay_peer_id addr = Some relay \<and> relay_peer_id (addr @ rest) = Some relay"
  by (induction addr) (auto simp: has_p2p_peer_id_def split: protocol.splits)

lemma target_loop_direct: "P2pCircuit \<notin> set addr \<Longrightarrow> target_loop False t (addr @ rest) = target_loop False t rest"
  by (induction addr) (auto split: protocol.splits)

lemma extract_p2p_peer_id_last: "extract_p2p_peer_id (addr @ [P2p target]) = Some target"
  by (simp add: extract_p2p_peer_id_def)

text \<open>Routes through a relay. For every address a reservation is requested on, appending the
  target to the reservation address gives the dial route; asking again for the same target returns
  the route unchanged and any other target is refused; the relay read back from the route is the relay
  of the original address, its target is the target, and no second reservation is nested in it.\<close>

theorem relay_route:
  assumes "relay_reservation_addr addr = Some listen"
  shows "\<exists>relay route. relay_peer_id addr = Some relay
    \<and> relay_dial_addr_for_peer listen target = Some route \<and> route = addr @ [P2pCircuit, P2p target]
    \<and> relay_dial_addr_for_peer route target = Some route
    \<and> (other \<noteq> target \<longrightarrow> relay_dial_addr_for_peer route other = None)
    \<and> relay_peer_id route = Some relay \<and> extract_p2p_peer_id route = Some target
    \<and> relay_reservation_addr route = None"
proof -
  have peer: "has_p2p_peer_id addr" and direct: "P2pCircuit \<notin> set addr" and listen: "listen = addr @ [P2pCircuit]"
    using assms by (auto simp: relay_reservation_addr_def is_p2p_circuit_addr_iff split: if_splits)
  obtain relay where relay: "relay_peer_id addr = Some relay" "relay_peer_id (addr @ [P2pCircuit, P2p target]) = Some relay"
    using relay_peer_id_prefix [OF peer direct] by blast
  have "extract_p2p_peer_id (addr @ [P2pCircuit, P2p target]) = Some target"
    using extract_p2p_peer_id_last [of "addr @ [P2pCircuit]"] by simp
  with relay show ?thesis
    by (simp add: listen relay_dial_addr_for_peer_def relay_reservation_addr_def is_p2p_circuit_addr_iff
        target_loop_direct [OF direct])
qed

theorem relay_route_witness:
  "relay_dial_addr_for_peer [Ip4 (Ipv4 127 0 0 1), Tcp 4001, P2p 1, P2pCircuit] (2 :: u8)
     = Some [Ip4 (Ipv4 127 0 0 1), Tcp 4001, P2p 1, P2pCircuit, P2p 2]"
proof -
  have "relay_reservation_addr [Ip4 (Ipv4 127 0 0 1), Tcp 4001, P2p (1 :: u8)]
      = Some [Ip4 (Ipv4 127 0 0 1), Tcp 4001, P2p 1, P2pCircuit]"
    by (simp add: relay_reservation_addr_def has_p2p_peer_id_def is_p2p_circuit_addr_def)
  from relay_route [OF this, of 2 3] show ?thesis by auto
qed

end
