(* ===== verification/Connection_Limits.thy ===== *)
theory Connection_Limits
  imports Multiaddr
begin

text \<open>
  \<open>crates/connectivity/limits.rs\<close>: the configured connection caps with their validation, and the
  state that enforces the per-IP cap and knows the outgoing connections. A \<open>ConnectionId\<close> is a
  number libp2p never uses twice.
\<close>

section \<open>Configuration\<close>

record ConnectionLimitsConfig =
  cl_enabled :: bool
  cl_max_pending_incoming :: "nat option"
  cl_max_pending_outgoing :: "nat option"
  cl_max_established_incoming :: "nat option"
  cl_max_established_outgoing :: "nat option"
  cl_max_established :: "nat option"
  cl_max_established_per_peer :: "nat option"
  cl_max_established_per_ip :: "nat option"

definition connection_limits_default :: ConnectionLimitsConfig where
  "connection_limits_default = \<lparr>cl_enabled = True, cl_max_pending_incoming = Some 32,
     cl_max_pending_outgoing = Some 32, cl_max_established_incoming = Some 64,
     cl_max_established_outgoing = Some 64, cl_max_established = Some 128,
     cl_max_established_per_peer = Some 3, cl_max_established_per_ip = Some 8\<rparr>"

definition ensure_nonzero :: "string \<Rightarrow> nat option \<Rightarrow> net_error + unit" where
  "ensure_nonzero field v = check_that (v \<noteq> Some 0) (config_error (field @ '' must be null or at least 1''))"

definition ensure_at_most :: "string \<Rightarrow> nat option \<Rightarrow> nat option \<Rightarrow> net_error + unit" where
  "ensure_at_most message v limit = (case (v, limit) of
     (Some n, Some cap) \<Rightarrow> check_that (\<not> cap < n) (config_error message)
   | _ \<Rightarrow> Inr ())"

definition connection_limits_validate :: "ConnectionLimitsConfig \<Rightarrow> net_error + unit" where
  "connection_limits_validate cfg = (if \<not> cl_enabled cfg then Inr () else
     and_then (ensure_nonzero ''connection_limits.max_pending_incoming'' (cl_max_pending_incoming cfg)) (\<lambda>_.
     and_then (ensure_nonzero ''connection_limits.max_pending_outgoing'' (cl_max_pending_outgoing cfg)) (\<lambda>_.
     and_then (ensure_nonzero ''connection_limits.max_established_incoming'' (cl_max_established_incoming cfg)) (\<lambda>_.
     and_then (ensure_nonzero ''connection_limits.max_established_outgoing'' (cl_max_established_outgoing cfg)) (\<lambda>_.
     and_then (ensure_nonzero ''connection_limits.max_established'' (cl_max_established cfg)) (\<lambda>_.
     and_then (ensure_nonzero ''connection_limits.max_established_per_peer'' (cl_max_established_per_peer cfg)) (\<lambda>_.
     and_then (ensure_nonzero ''connection_limits.max_established_per_ip'' (cl_max_established_per_ip cfg)) (\<lambda>_.
     and_then (ensure_at_most
       ''connection_limits.max_established_per_peer must be <= connection_limits.max_established''
       (cl_max_established_per_peer cfg) (cl_max_established cfg)) (\<lambda>_.
     ensure_at_most
       ''connection_limits.max_established_per_ip must be <= connection_limits.max_established''
       (cl_max_established_per_ip cfg) (cl_max_established cfg))))))))))"

section \<open>The per-IP cap\<close>

record 'p ConnectionCapState =
  max_established_per_ip :: "nat option"
  max_established_outgoing :: "nat option"
  by_connection :: "(nat, string) fmap"
  outgoing_by_connection :: "(nat, 'p) fmap"
  by_ip :: "(string, nat) fmap"
  cap_disconnects :: nat

definition cap_state_new :: "ConnectionLimitsConfig \<Rightarrow> 'p ConnectionCapState" where
  "cap_state_new cfg = \<lparr>
     max_established_per_ip = (if cl_enabled cfg then cl_max_established_per_ip cfg else None),
     max_established_outgoing = (if cl_enabled cfg then cl_max_established_outgoing cfg else None),
     by_connection = fmempty, outgoing_by_connection = fmempty, by_ip = fmempty, cap_disconnects = 0\<rparr>"

definition record_established :: "nat \<Rightarrow> 'p \<Rightarrow> 'p multiaddr \<Rightarrow> bool \<Rightarrow> 'p ConnectionCapState \<Rightarrow> bool \<times> 'p ConnectionCapState" where
  "record_established connection_id peer_id remote_addr outgoing s =
     (let s1 = (if outgoing then s\<lparr>outgoing_by_connection := fmupd connection_id peer_id (outgoing_by_connection s)\<rparr> else s)
      in case multiaddr_ip_key remote_addr of
           None \<Rightarrow> (False, s1)
         | Some ip \<Rightarrow>
             let count = sat_add 32 (case fmlookup (by_ip s1) ip of None \<Rightarrow> 0 | Some n \<Rightarrow> n) 1;
                 s2 = s1\<lparr>by_connection := fmupd connection_id ip (by_connection s1),
                         by_ip := fmupd ip count (by_ip s1)\<rparr>
             in if (case max_established_per_ip s2 of None \<Rightarrow> False | Some limit \<Rightarrow> limit < count)
                then (True, s2\<lparr>cap_disconnects := sat_add 64 (cap_disconnects s2) 1\<rparr>)
                else (False, s2))"

definition record_closed :: "nat \<Rightarrow> 'p ConnectionCapState \<Rightarrow> 'p ConnectionCapState" where
  "record_closed connection_id s =
     (let s1 = s\<lparr>outgoing_by_connection := fmdrop connection_id (outgoing_by_connection s)\<rparr>
      in case fmlookup (by_connection s1) connection_id of
           None \<Rightarrow> s1
         | Some ip \<Rightarrow>
             let s2 = s1\<lparr>by_connection := fmdrop connection_id (by_connection s1)\<rparr>
             in case fmlookup (by_ip s2) ip of
                  None \<Rightarrow> s2
                | Some count \<Rightarrow>
                    if count - 1 = 0 then s2\<lparr>by_ip := fmdrop ip (by_ip s2)\<rparr>
                    else s2\<lparr>by_ip := fmupd ip (count - 1) (by_ip s2)\<rparr>)"

definition count_for_ip :: "'p ConnectionCapState \<Rightarrow> string \<Rightarrow> nat" where
  "count_for_ip s ip = (case fmlookup (by_ip s) ip of None \<Rightarrow> 0 | Some n \<Rightarrow> n)"

definition outgoing_connections_to_release :: "'p ConnectionCapState \<Rightarrow> nat \<Rightarrow> nat" where
  "outgoing_connections_to_release s desired_headroom = (case max_established_outgoing s of
     None \<Rightarrow> 0
   | Some limit \<Rightarrow>
       let current = min (fmsize (outgoing_by_connection s)) (2 ^ 32 - 1);
           available = limit - current
       in desired_headroom - available)"

definition outgoing_peers :: "'p ConnectionCapState \<Rightarrow> 'p list" where
  "outgoing_peers s = map (\<lambda>c. the (fmlookup (outgoing_by_connection s) c)) (sorted_list_of_fset (fmdom (outgoing_by_connection s)))"

section \<open>Validation\<close>

lemma ensure_nonzero_Inr [simp]: "ensure_nonzero field v = Inr u \<longleftrightarrow> v \<noteq> Some 0"
  by (simp add: ensure_nonzero_def)

lemma ensure_at_most_Inr [simp]:
  "ensure_at_most m v limit = Inr u \<longleftrightarrow> (\<forall>n cap. v = Some n \<longrightarrow> limit = Some cap \<longrightarrow> n \<le> cap)"
  by (auto simp: ensure_at_most_def not_less split: option.splits)

text \<open>A disabled limit is no limit; otherwise every cap that is set is positive and the per-peer and
  per-IP caps fit the total.\<close>

definition limits_sane :: "ConnectionLimitsConfig \<Rightarrow> bool" where
  "limits_sane cfg \<longleftrightarrow> (cl_enabled cfg \<longrightarrow>
     cl_max_pending_incoming cfg \<noteq> Some 0 \<and> cl_max_pending_outgoing cfg \<noteq> Some 0
     \<and> cl_max_established_incoming cfg \<noteq> Some 0 \<and> cl_max_established_outgoing cfg \<noteq> Some 0
     \<and> cl_max_established cfg \<noteq> Some 0 \<and> cl_max_established_per_peer cfg \<noteq> Some 0
     \<and> cl_max_established_per_ip cfg \<noteq> Some 0
     \<and> (\<forall>n total1. cl_max_established_per_peer cfg = Some n \<longrightarrow> cl_max_established cfg = Some total1 \<longrightarrow> n \<le> total1)
     \<and> (\<forall>n total1. cl_max_established_per_ip cfg = Some n \<longrightarrow> cl_max_established cfg = Some total1 \<longrightarrow> n \<le> total1))"

lemma connection_limits_validate_iff: "connection_limits_validate cfg = Inr () \<longleftrightarrow> limits_sane cfg"
  by (simp add: connection_limits_validate_def limits_sane_def)

lemma connection_limits_default_valid: "connection_limits_validate connection_limits_default = Inr ()"
  by (simp add: connection_limits_validate_iff limits_sane_def connection_limits_default_def)

section \<open>The counts are exact\<close>

text \<open>What happens to the connections of a node, and the connections open after it: the
  specification keeps a list of (identifier, IP) pairs.\<close>

datatype 'p conn_event = Established nat 'p "'p multiaddr" bool | Closed nat

primrec cap_step :: "'p conn_event \<Rightarrow> 'p ConnectionCapState \<Rightarrow> 'p ConnectionCapState" where
  "cap_step (Established c p addr outgoing) s = snd (record_established c p addr outgoing s)"
| "cap_step (Closed c) s = record_closed c s"

definition cap_run :: "ConnectionLimitsConfig \<Rightarrow> 'p conn_event list \<Rightarrow> 'p ConnectionCapState" where
  "cap_run cfg events = fold cap_step events (cap_state_new cfg)"

primrec open_step :: "'p conn_event \<Rightarrow> (nat \<times> string) list \<Rightarrow> (nat \<times> string) list" where
  "open_step (Established c p addr outgoing) conns = (case multiaddr_ip_key addr of None \<Rightarrow> conns | Some ip \<Rightarrow> (c, ip) # conns)"
| "open_step (Closed c) conns = filter (\<lambda>conn. fst conn \<noteq> c) conns"

definition open_conns :: "'p conn_event list \<Rightarrow> (nat \<times> string) list" where
  "open_conns events = fold open_step events []"

definition open_from :: "(nat \<times> string) list \<Rightarrow> string \<Rightarrow> nat" where
  "open_from conns ip = length (filter (\<lambda>conn. snd conn = ip) conns)"

definition established_ids :: "'p conn_event list \<Rightarrow> nat list" where
  "established_ids events = List.map_filter (\<lambda>e. case e of Established c p addr outgoing \<Rightarrow> Some c | Closed c \<Rightarrow> None) events"

text \<open>The simulation between the state and the specification.\<close>

definition caps_ok :: "'p ConnectionCapState \<Rightarrow> (nat \<times> string) list \<Rightarrow> bool" where
  "caps_ok s conns \<longleftrightarrow> distinct (map fst conns)
     \<and> (\<forall>c. fmlookup (by_connection s) c = map_of conns c)
     \<and> (\<forall>ip. fmlookup (by_ip s) ip = (if open_from conns ip = 0 then None else Some (open_from conns ip)))"

lemma caps_okD:
  "caps_ok s conns \<Longrightarrow> distinct (map fst conns)"
  "caps_ok s conns \<Longrightarrow> fmlookup (by_connection s) c = map_of conns c"
  "caps_ok s conns \<Longrightarrow> fmlookup (by_ip s) ip = (if open_from conns ip = 0 then None else Some (open_from conns ip))"
  by (simp_all add: caps_ok_def)

lemma caps_ok_count: "caps_ok s conns \<Longrightarrow> count_for_ip s ip = open_from conns ip"
  by (simp add: caps_okD(3) count_for_ip_def)

lemma open_from_Cons: "open_from ((c, ip') # conns) ip = (if ip' = ip then Suc (open_from conns ip) else open_from conns ip)"
  by (simp add: open_from_def)

lemma open_from_le: "open_from conns ip \<le> length conns"
  by (simp add: open_from_def)

lemma open_from_remove:
  "distinct (map fst conns) \<Longrightarrow> map_of conns c = Some ip' \<Longrightarrow>
     open_from (filter (\<lambda>conn. fst conn \<noteq> c) conns) ip = (if ip' = ip then open_from conns ip - 1 else open_from conns ip)
     \<and> 0 < open_from conns ip'"
proof (induction conns)
  case (Cons conn conns)
  show ?case
  proof (cases "fst conn = c")
    case True
    with Cons.prems have "snd conn = ip'" and "c \<notin> fst ` set conns" by auto
    moreover from this(2) have "filter (\<lambda>conn. fst conn \<noteq> c) conns = conns" by (auto simp: filter_id_conv)
    ultimately show ?thesis using True by (cases conn) (simp add: open_from_Cons)
  next
    case False
    with Cons.prems have "distinct (map fst conns)" and "map_of conns c = Some ip'" by (cases conn, auto)+
    with Cons.IH False show ?thesis by (cases conn) (auto simp: open_from_Cons)
  qed
qed simp

lemma map_of_remove: "map_of (filter (\<lambda>conn. fst conn \<noteq> c) conns) k = (if k = c then None else map_of conns k)"
  by (induction conns) auto

lemma caps_ok_new [simp]: "caps_ok (cap_state_new cfg) []"
  by (simp add: caps_ok_def cap_state_new_def open_from_def)

lemma caps_ok_outgoing [simp]: "caps_ok (s\<lparr>outgoing_by_connection := m\<rparr>) conns = caps_ok s conns"
  "caps_ok (s\<lparr>cap_disconnects := n\<rparr>) conns = caps_ok s conns"
  by (simp_all add: caps_ok_def)

lemma caps_ok_open:
  assumes "caps_ok s conns" and "c \<notin> fst ` set conns"
  shows "caps_ok (s\<lparr>by_connection := fmupd c ip (by_connection s), by_ip := fmupd ip (Suc (open_from conns ip)) (by_ip s)\<rparr>) ((c, ip) # conns)"
  using assms by (auto simp: caps_ok_def open_from_Cons)

text \<open>One established connection: the state follows the specification, and the result says whether
  the cap of the IP is exceeded.\<close>

lemma record_established_ok:
  assumes ok: "caps_ok s conns" and fresh: "c \<notin> fst ` set conns" and small: "length conns + 1 < 2 ^ 32"
  shows "caps_ok (snd (record_established c p addr outgoing s)) (open_step (Established c p addr outgoing) conns)"
    and "fst (record_established c p addr outgoing s) \<longleftrightarrow>
      (\<exists>ip limit. multiaddr_ip_key addr = Some ip \<and> max_established_per_ip s = Some limit \<and> limit < open_from conns ip + 1)"
proof -
  have "sat_add 32 (open_from conns ip) 1 = Suc (open_from conns ip)" for ip
    using sat_add_exact [of "open_from conns ip" 1 32] open_from_le [of conns ip] small by simp
  then have count: "sat_add 32 (case fmlookup (by_ip s) ip of None \<Rightarrow> 0 | Some n \<Rightarrow> n) 1 = Suc (open_from conns ip)" for ip
    using caps_okD(3) [OF ok, of ip] by (cases "open_from conns ip = 0") (simp, simp add: sat_add_def, simp)
  note opened = caps_ok_open [OF _ fresh]
  show "caps_ok (snd (record_established c p addr outgoing s)) (open_step (Established c p addr outgoing) conns)"
    using ok opened [OF ok]
      opened [of "s\<lparr>outgoing_by_connection := fmupd c p (outgoing_by_connection s)\<rparr>"]
    by (cases "multiaddr_ip_key addr") (simp_all add: record_established_def Let_def count [unfolded One_nat_def])
  show "fst (record_established c p addr outgoing s) \<longleftrightarrow>
      (\<exists>ip limit. multiaddr_ip_key addr = Some ip \<and> max_established_per_ip s = Some limit \<and> limit < open_from conns ip + 1)"
    by (cases "multiaddr_ip_key addr"; cases "max_established_per_ip s") (simp_all add: record_established_def Let_def count [unfolded One_nat_def])
qed

lemma record_closed_ok:
  assumes ok: "caps_ok s conns"
  shows "caps_ok (record_closed c s) (open_step (Closed c) conns)"
proof (cases "map_of conns c")
  case None
  then have "filter (\<lambda>conn. fst conn \<noteq> c) conns = conns" by (auto simp: map_of_eq_None_iff filter_id_conv)
  with None ok show ?thesis by (simp add: record_closed_def caps_okD(2) [OF ok])
next
  case (Some ip)
  note rem = open_from_remove [OF caps_okD(1) [OF ok] Some]
  have count: "fmlookup (by_ip s) ip = Some (open_from conns ip)"
    using caps_okD(3) [OF ok, of ip] rem by simp
  have "distinct (map fst (filter (\<lambda>conn. fst conn \<noteq> c) conns))"
    using caps_okD(1) [OF ok] by (simp add: distinct_map_filter)
  then show ?thesis
    using ok rem unfolding record_closed_def
    by (auto simp: Let_def count Some caps_okD(2) [OF ok] caps_ok_def map_of_remove)
qed

lemma established_ids_snoc [simp]:
  "established_ids [] = []"
  "established_ids (events @ [Established c p addr outgoing]) = established_ids events @ [c]"
  "established_ids (events @ [Closed c]) = established_ids events"
  by (simp_all add: established_ids_def List.map_filter_def)

lemma open_step_length: "length (open_step e conns) \<le> Suc (length conns)"
  by (cases e) (simp_all split: option.split add: le_SucI)

lemma cap_run_snoc: "cap_run cfg (events @ [e]) = cap_step e (cap_run cfg events)"
  by (simp add: cap_run_def)

lemma open_conns_snoc: "open_conns (events @ [e]) = open_step e (open_conns events)"
  by (simp add: open_conns_def)

lemma open_conns_ids: "fst ` set (open_conns events) \<subseteq> set (established_ids events)"
proof (induction events rule: rev_induct)
  case (snoc e events)
  then show ?case by (cases e) (auto simp: open_conns_snoc split: option.splits)
qed (simp add: open_conns_def)

lemma open_conns_length: "length (open_conns events) \<le> length events"
proof (induction events rule: rev_induct)
  case (snoc e events)
  then show ?case using open_step_length [of e "open_conns events"] by (simp add: open_conns_snoc)
qed (simp add: open_conns_def)

lemma cap_run_ok:
  "distinct (established_ids events) \<Longrightarrow> length events < 2 ^ 32 \<Longrightarrow> caps_ok (cap_run cfg events) (open_conns events)"
proof (induction events rule: rev_induct)
  case (snoc e events)
  show ?case
  proof (cases e)
    case (Established c p addr outgoing)
    with snoc.prems have "c \<notin> fst ` set (open_conns events)" using open_conns_ids [of events] by auto
    moreover have "length (open_conns events) + 1 < 2 ^ 32" using open_conns_length [of events] snoc.prems by simp
    moreover have "caps_ok (cap_run cfg events) (open_conns events)" using snoc Established by simp
    ultimately show ?thesis using record_established_ok(1) by (simp add: cap_run_snoc open_conns_snoc Established)
  next
    case (Closed c)
    with snoc have "caps_ok (cap_run cfg events) (open_conns events)" by simp
    from record_closed_ok [OF this] show ?thesis by (simp add: cap_run_snoc open_conns_snoc Closed)
  qed
qed (simp add: cap_run_def open_conns_def)

lemma cap_limits_kept:
  "max_established_per_ip (cap_step e s) = max_established_per_ip s"
  by (cases e) (simp_all add: record_established_def record_closed_def Let_def split: option.split)

lemma cap_run_limit: "max_established_per_ip (cap_run cfg events) = (if cl_enabled cfg then cl_max_established_per_ip cfg else None)"
  by (induction events rule: rev_induct) (simp_all add: cap_run_snoc cap_limits_kept, simp add: cap_run_def cap_state_new_def)

text \<open>C9. The per-IP connection cap is exact. After any history of fewer than 2^32 connection events
  with unique identifiers, the count of an IP is the number of connections from it that are open, and
  the next connection is reported as exceeding the cap exactly when limits are enabled and it is one
  more than the configured number open from its IP.\<close>

theorem per_ip_cap_exact:
  assumes "distinct (established_ids events @ [c])" and "length events + 1 < 2 ^ 32"
  shows "count_for_ip (cap_run cfg events) ip = open_from (open_conns events) ip
    \<and> (fst (record_established c p addr outgoing (cap_run cfg events)) \<longleftrightarrow>
        (\<exists>ip limit. multiaddr_ip_key addr = Some ip \<and> cl_enabled cfg \<and> cl_max_established_per_ip cfg = Some limit
           \<and> limit < open_from (open_conns events) ip + 1))"
proof -
  have ok: "caps_ok (cap_run cfg events) (open_conns events)" using assms by (intro cap_run_ok) simp_all
  have "c \<notin> fst ` set (open_conns events)" using open_conns_ids [of events] assms(1) by auto
  moreover have "length (open_conns events) + 1 < 2 ^ 32" using open_conns_length [of events] assms(2) by simp
  ultimately show ?thesis using record_established_ok(2) [OF ok] caps_ok_count [OF ok]
    by (simp add: cap_run_limit)
qed

theorem per_ip_cap_exact_witness:
  "fst (record_established 3 (7 :: u8) [Ip4 (Ipv4 10 0 0 1), Tcp 2] False
     (cap_run (connection_limits_default\<lparr>cl_max_established_per_ip := Some 1\<rparr>)
       [Established 0 5 [Ip4 (Ipv4 10 0 0 1), Tcp 1] False, Established 1 6 [Ip4 (Ipv4 10 0 0 1), Tcp 1] True, Closed 1]))"
  (is "fst (record_established 3 7 ?addr False (cap_run ?cfg ?events))")
proof -
  have "distinct (established_ids ?events @ [3])" by (simp add: established_ids_def List.map_filter_def)
  moreover have "length ?events + 1 < 2 ^ 32" by simp
  moreover have "open_from (open_conns ?events) (v4_to_string (Ipv4 10 0 0 1)) = 1"
    by (simp add: open_conns_def open_from_def)
  ultimately show ?thesis
    using per_ip_cap_exact [of ?events 3 ?cfg _ 7 ?addr False] by (simp add: connection_limits_default_def)
qed

end
