(* ===== verification/Text_Search.thy ===== *)
theory Text_Search
  imports P2P_Prelude
begin

text \<open>
  The operations of \<open>str\<close> the sources use to search, split and parse text, and what they decide on a
  text made of slash-separated segments.
\<close>

section \<open>Searching text\<close>

fun starts_with :: "string \<Rightarrow> string \<Rightarrow> bool" where
  "starts_with [] s = True"
| "starts_with (p # ps) [] = False"
| "starts_with (p # ps) (c # s) = (p = c \<and> starts_with ps s)"

primrec contains_str :: "string \<Rightarrow> string \<Rightarrow> bool" where
  "contains_str pat [] = (pat = [])"
| "contains_str pat (c # s) = (starts_with pat (c # s) \<or> contains_str pat s)"

definition ends_with :: "string \<Rightarrow> string \<Rightarrow> bool" where
  "ends_with pat s = starts_with (rev pat) (rev s)"

text \<open>The first piece of \<open>split\<close>.\<close>

primrec before :: "string \<Rightarrow> string \<Rightarrow> string" where
  "before pat [] = []"
| "before pat (c # s) = (if starts_with pat (c # s) then [] else c # before pat s)"

text \<open>\<open>split\<close> by a character, and \<open>parse\<close> of an unsigned integer: an optional plus sign and at least
  one digit, within the range of the type.\<close>

fun split_char :: "char \<Rightarrow> string \<Rightarrow> string list" where
  "split_char d [] = [[]]"
| "split_char d (c # s) = (if c = d then [] # split_char d s
     else case split_char d s of [] \<Rightarrow> [[c]] | piece # pieces \<Rightarrow> (c # piece) # pieces)"

definition is_digit :: "char \<Rightarrow> bool" where
  "is_digit c \<longleftrightarrow> 48 \<le> (of_char c :: nat) \<and> (of_char c :: nat) \<le> 57"

definition parse_unsigned :: "nat \<Rightarrow> string \<Rightarrow> nat option" where
  "parse_unsigned w s = (let digits = (case s of c # r \<Rightarrow> if c = CHR ''+'' then r else s | [] \<Rightarrow> s)
     in if digits = [] \<or> \<not> list_all is_digit digits then None
        else if 2 ^ w \<le> read_digits digits then None else Some (read_digits digits))"

lemma split_char_nonempty: "split_char d s \<noteq> []"
  by (induction s) (auto split: list.split)

lemma split_char_plain: "d \<notin> set s \<Longrightarrow> split_char d s = [s]"
  by (induction s) auto

lemma split_char_append: "d \<notin> set s \<Longrightarrow> split_char d (s @ d # r) = s # split_char d r"
  by (induction s) auto

lemma parse_unsigned_bound: "parse_unsigned w s = Some n \<Longrightarrow> n < 2 ^ w"
  by (auto simp: parse_unsigned_def Let_def split: if_splits)

text \<open>Parsing inverts printing.\<close>

lemma parse_show_nat: "n < 2 ^ w \<Longrightarrow> parse_unsigned w (show_nat n) = Some n"
proof -
  assume "n < 2 ^ w"
  have digits: "list_all is_digit (show_nat n)" using show_nat_digits by (auto simp: list_all_iff is_digit_def)
  obtain c r where s: "show_nat n = c # r" by (cases "show_nat n") (auto simp: show_nat.simps [of n] split: if_splits)
  then have "c \<noteq> CHR ''+''" using digits by (auto simp: is_digit_def)
  moreover have "read_digits (c # r) = n" using read_show_nat [of n] by (simp add: s)
  ultimately show ?thesis using digits \<open>n < 2 ^ w\<close> by (simp add: parse_unsigned_def s)
qed

section \<open>Slash-separated segments\<close>

definition slashed :: "string list \<Rightarrow> string" where
  "slashed ss = concat (map (\<lambda>s. CHR ''/'' # s) ss)"

text \<open>Searching for a text that begins with a slash is searching the segments.\<close>

definition no_slash :: "string \<Rightarrow> bool" where
  "no_slash s \<longleftrightarrow> CHR ''/'' \<notin> set s"

lemma slashed_simps [simp]: "slashed [] = []" "slashed (s # ss) = CHR ''/'' # s @ slashed ss"
  by (simp_all add: slashed_def)

lemma slashed_append: "slashed (ss @ ts) = slashed ss @ slashed ts"
  by (simp add: slashed_def)

lemma slashed_cases: "slashed ss = [] \<or> (\<exists>r. slashed ss = CHR ''/'' # r)"
  by (cases ss) simp_all

lemma starts_with_append: "starts_with (p @ q) s \<longleftrightarrow> (\<exists>r. s = p @ r \<and> starts_with q r)"
proof (induction p arbitrary: s)
  case (Cons c p)
  then show ?case by (cases s) auto
qed simp

lemma starts_with_segment:
  "no_slash p \<Longrightarrow> no_slash s \<Longrightarrow> starts_with p (s @ slashed ss) \<longleftrightarrow> starts_with p s"
proof (induction p s rule: starts_with.induct)
  case (2 p ps)
  then show ?case using slashed_cases [of ss] by (auto simp: no_slash_def)
qed (auto simp: no_slash_def)

lemma starts_with_slash: "starts_with (CHR ''/'' # p) (slashed ss) \<longleftrightarrow> (\<exists>s ts. ss = s # ts \<and> starts_with p (s @ slashed ts))"
  by (cases ss) auto

lemma contains_slash_skip:
  "no_slash s \<Longrightarrow> contains_str (CHR ''/'' # p) (s @ slashed ss) \<longleftrightarrow> contains_str (CHR ''/'' # p) (slashed ss)"
  by (induction s) (auto simp: no_slash_def)

lemma contains_segment:
  assumes "no_slash p"
  shows "list_all no_slash ss \<Longrightarrow> contains_str (CHR ''/'' # p) (slashed ss) \<longleftrightarrow> list_ex (starts_with p) ss"
proof (induction ss)
  case (Cons s ss)
  then show ?case using starts_with_segment [OF assms, of s ss] contains_slash_skip [of s p ss] by auto
qed simp

text \<open>A segment followed by a segment with a given beginning.\<close>

fun adjacent :: "string \<Rightarrow> string \<Rightarrow> string list \<Rightarrow> bool" where
  "adjacent p q (s # t # ss) = (s = p \<and> starts_with q t \<or> adjacent p q (t # ss))"
| "adjacent p q ss = False"

lemma starts_with_two:
  "no_slash p \<Longrightarrow> no_slash s \<Longrightarrow>
     starts_with (p @ CHR ''/'' # q) (s @ slashed ss) \<longleftrightarrow> s = p \<and> (\<exists>t ts. ss = t # ts \<and> starts_with q (t @ slashed ts))"
proof (induction p arbitrary: s)
  case Nil
  then show ?case by (cases s; cases ss) (auto simp: no_slash_def)
next
  case (Cons c p)
  show ?case
  proof (cases s)
    case Nil
    then show ?thesis using Cons.prems slashed_cases [of ss] by (auto simp: no_slash_def)
  next
    case (Cons d s')
    then show ?thesis using Cons.IH [of s'] Cons.prems by (auto simp: no_slash_def)
  qed
qed

lemma contains_two_segments:
  assumes "no_slash p" and "no_slash q"
  shows "list_all no_slash ss \<Longrightarrow> contains_str (CHR ''/'' # p @ CHR ''/'' # q) (slashed ss) \<longleftrightarrow> adjacent p q ss"
proof (induction ss)
  case (Cons s ss)
  have "starts_with (p @ CHR ''/'' # q) (s @ slashed ss) \<longleftrightarrow> s = p \<and> (\<exists>t ts. ss = t # ts \<and> starts_with q t)"
    using starts_with_two [OF assms(1), of s q ss] starts_with_segment [OF assms(2)] Cons.prems by auto
  then show ?case using Cons contains_slash_skip [of s "p @ CHR ''/'' # q" ss] by (cases ss) auto
qed simp

lemma ends_with_iff: "ends_with p s \<longleftrightarrow> (\<exists>r. s = r @ p)"
proof -
  have "starts_with (rev p) (rev s) \<longleftrightarrow> (\<exists>r. rev s = rev p @ r)"
    using starts_with_append [of "rev p" "[]" "rev s"] by simp
  also have "\<dots> \<longleftrightarrow> (\<exists>r. s = r @ p)" by (metis rev_append rev_rev_ident)
  finally show ?thesis by (simp add: ends_with_def)
qed

lemma append_slash_eq:
  "no_slash s \<Longrightarrow> no_slash p \<Longrightarrow> r @ CHR ''/'' # p = x @ CHR ''/'' # s \<longleftrightarrow> r = x \<and> p = s"
proof
  assume plain: "no_slash s" "no_slash p" and eq: "r @ CHR ''/'' # p = x @ CHR ''/'' # s"
  have first: "takeWhile (\<lambda>c. c \<noteq> CHR ''/'') (rev t @ CHR ''/'' # y) = rev t" if "no_slash t" for t y
    using that by (subst takeWhile_append2) (auto simp: no_slash_def)
  from arg_cong [OF eq, of rev] have "rev p @ CHR ''/'' # rev r = rev s @ CHR ''/'' # rev x" by simp
  from arg_cong [OF this, of "takeWhile (\<lambda>c. c \<noteq> CHR ''/'')"] have "rev p = rev s" using plain by (simp only: first)
  with eq show "r = x \<and> p = s" by simp
qed simp

lemma ends_with_segment:
  assumes "no_slash p" and "list_all no_slash ss"
  shows "ends_with (CHR ''/'' # p) (slashed ss) \<longleftrightarrow> ss \<noteq> [] \<and> last ss = p"
proof (cases ss rule: rev_cases)
  case (snoc ts s)
  then have plain: "no_slash s" using assms(2) by simp
  have "ends_with (CHR ''/'' # p) (slashed ss) \<longleftrightarrow> (\<exists>r. slashed ts @ CHR ''/'' # s = r @ CHR ''/'' # p)"
    by (simp add: ends_with_iff snoc slashed_append)
  then show ?thesis by (auto simp: snoc append_slash_eq [OF assms(1) plain])
qed (simp add: ends_with_iff)

lemma adjacent_or_last: "(ss \<noteq> [] \<and> last ss = p) \<or> adjacent p [] ss \<longleftrightarrow> p \<in> set ss"
proof (induction ss)
  case (Cons s ss)
  then show ?case by (cases ss) auto
qed simp

lemma before_skip: "no_slash s \<Longrightarrow> before (CHR ''/'' # p) (s @ slashed ss) = s @ before (CHR ''/'' # p) (slashed ss)"
  by (induction s) (auto simp: no_slash_def)

lemma before_segment:
  assumes "no_slash p"
  shows "list_all no_slash ss \<Longrightarrow> before (CHR ''/'' # p) (slashed ss) = slashed (takeWhile (\<lambda>s. \<not> starts_with p s) ss)"
proof (induction ss)
  case (Cons s ss)
  then show ?case using starts_with_segment [OF assms, of s ss] before_skip [of s p ss] by auto
qed simp

lemmas segment_search = contains_segment contains_two_segments ends_with_segment before_segment

end
