(* ===== verification/Connection_Strategy.thy ===== *)
theory Connection_Strategy
  imports Multiaddr Text_Search Peer_Book
begin

text \<open>
  \<open>crates/connectivity/connection_strategy.rs\<close> and the policy of \<open>crates/connectivity/dcutr.rs\<close>:
  which transports a platform can dial, the ordered plan of addresses for one peer, and the plans
  whose first attempt is under way. \<open>TransportCapabilities::allows\<close> searches the text of the address,
  as the source does.
\<close>

section \<open>Transport capabilities\<close>

record TransportCapabilities =
  cap_tcp :: bool
  cap_quic :: bool
  cap_webrtc_direct :: bool
  cap_secure_websocket :: bool
  cap_webtransport :: bool
  cap_circuit_relay :: bool
  cap_browser_webrtc :: bool
  cap_relay_assisted_upgrade :: bool

definition capabilities_native :: TransportCapabilities where
  "capabilities_native = \<lparr>cap_tcp = True, cap_quic = True, cap_webrtc_direct = True,
     cap_secure_websocket = True, cap_webtransport = False, cap_circuit_relay = True,
     cap_browser_webrtc = False, cap_relay_assisted_upgrade = True\<rparr>"

definition capabilities_browser :: TransportCapabilities where
  "capabilities_browser = \<lparr>cap_tcp = False, cap_quic = False, cap_webrtc_direct = True,
     cap_secure_websocket = True, cap_webtransport = True, cap_circuit_relay = True,
     cap_browser_webrtc = True, cap_relay_assisted_upgrade = True\<rparr>"

definition capabilities_default :: "bool \<Rightarrow> TransportCapabilities" where
  "capabilities_default wasm32 = (if wasm32 then capabilities_browser else capabilities_native)"

definition transport_allowed :: "TransportCapabilities \<Rightarrow> string \<Rightarrow> bool" where
  "transport_allowed caps transport =
     (if contains_str ''/webrtc-direct'' transport then cap_webrtc_direct caps
      else if contains_str ''/webtransport'' transport then cap_webtransport caps
      else if ends_with ''/webrtc'' transport \<or> contains_str ''/webrtc/'' transport then cap_browser_webrtc caps
      else if contains_str ''/wss'' transport \<or> contains_str ''/tls/ws'' transport then cap_secure_websocket caps
      else if contains_str ''/quic'' transport then cap_quic caps
      else if contains_str ''/tcp/'' transport then cap_tcp caps
      else caps = capabilities_native)"

definition allows :: "'p ma_ext \<Rightarrow> TransportCapabilities \<Rightarrow> 'p multiaddr \<Rightarrow> bool" where
  "allows M caps addr =
     (let raw = ma_to_string M addr;
          transport = before ''/p2p-circuit'' raw;
          is_relay = contains_str ''/p2p-circuit'' raw
      in if is_relay \<and> \<not> cap_circuit_relay caps then False else transport_allowed caps transport)"

section \<open>The upgrade policy (\<open>connectivity/dcutr.rs\<close>)\<close>

record DcutrPolicy =
  dcutr_enabled :: bool
  attempt_after_relay_connection :: bool
  dcutr_keep_relay_fallback :: bool
  retry_interval_secs :: nat
  max_attempts_per_peer :: nat

definition dcutr_policy_default :: DcutrPolicy where
  "dcutr_policy_default = \<lparr>dcutr_enabled = True, attempt_after_relay_connection = True,
     dcutr_keep_relay_fallback = True, retry_interval_secs = 60, max_attempts_per_peer = 3\<rparr>"

definition dcutr_validate :: "DcutrPolicy \<Rightarrow> net_error + unit" where
  "dcutr_validate policy = (if \<not> dcutr_enabled policy then Inr () else first_error
     [(retry_interval_secs policy = 0,
         config_error ''dcutr.retry_interval_secs must be at least 1 when DCUtR is enabled''),
      (max_attempts_per_peer policy = 0,
         config_error ''dcutr.max_attempts_per_peer must be at least 1 when DCUtR is enabled''),
      (attempt_after_relay_connection policy \<and> \<not> dcutr_keep_relay_fallback policy,
         config_error ''dcutr.keep_relay_fallback must be true when attempting upgrades after relayed connections'')])"

section \<open>Plans\<close>

datatype ConnectionAttemptKind = DirectQuic | Direct | Relay

primrec attempt_kind_as_str :: "ConnectionAttemptKind \<Rightarrow> string" where
  "attempt_kind_as_str DirectQuic = ''direct_quic''"
| "attempt_kind_as_str Direct = ''direct''"
| "attempt_kind_as_str Relay = ''relay''"

record 'p ConnectionAttempt =
  attempt_addr :: "'p multiaddr"
  attempt_kind :: ConnectionAttemptKind

record 'p ConnectionPlan =
  target_peer :: "'p option"
  attempts :: "'p ConnectionAttempt list"
  plan_relay_preferred :: bool
  attempt_dcutr_after_relay :: bool
  plan_keep_relay_fallback :: bool

definition first_attempt :: "'p ConnectionPlan \<Rightarrow> 'p ConnectionAttempt option" where
  "first_attempt plan = (case attempts plan of [] \<Rightarrow> None | a # _ \<Rightarrow> Some a)"

definition classify_addr :: "'p multiaddr \<Rightarrow> ConnectionAttemptKind" where
  "classify_addr addr =
     (if is_p2p_circuit_addr addr then Relay
      else if list_ex (\<lambda>protocol. case protocol of Quic \<Rightarrow> True | QuicV1 \<Rightarrow> True | _ \<Rightarrow> False) addr then DirectQuic
      else Direct)"

text \<open>The candidates found so far and the texts already seen.\<close>

definition push_candidate :: "'p ma_ext \<Rightarrow> 'p multiaddr \<Rightarrow> 'p multiaddr list \<times> string set \<Rightarrow> 'p multiaddr list \<times> string set" where
  "push_candidate M addr cs = (let (candidates, seen) = cs; text1 = ma_to_string M addr in
     if text1 \<in> seen then (candidates, seen) else (candidates @ [addr], insert text1 seen))"

definition push_parsed :: "'p ma_ext \<Rightarrow> string \<Rightarrow> 'p multiaddr list \<times> string set \<Rightarrow> 'p multiaddr list \<times> string set" where
  "push_parsed M text1 cs = (case ma_parse M text1 of Some addr \<Rightarrow> push_candidate M addr cs | None \<Rightarrow> cs)"

text \<open>The candidates after the addresses of the record, if there is one, have been pushed.\<close>

definition book_candidates :: "'p ma_ext \<Rightarrow> 'p PeerRecord option \<Rightarrow> 'p multiaddr list \<times> string set \<Rightarrow> 'p multiaddr list" where
  "book_candidates M known start = fst (case known of
     Some peer \<Rightarrow> fold (push_parsed M) (addresses peer) start
   | None \<Rightarrow> start)"

text \<open>The three lists of the loop, in the order direct QUIC, direct, relay.\<close>

fun split_attempts :: "'p multiaddr list \<Rightarrow> 'p ConnectionAttempt list \<times> 'p ConnectionAttempt list \<times> 'p ConnectionAttempt list" where
  "split_attempts [] = ([], [], [])"
| "split_attempts (addr # rest) =
     (let (direct_quic, direct, relay) = split_attempts rest;
          kind = classify_addr addr;
          attempt = \<lparr>attempt_addr = addr, attempt_kind = kind\<rparr>
      in case kind of
           DirectQuic \<Rightarrow> (attempt # direct_quic, direct, relay)
         | Direct \<Rightarrow> (direct_quic, attempt # direct, relay)
         | Relay \<Rightarrow> (direct_quic, direct, attempt # relay))"

definition ordered_attempts :: "'p multiaddr list \<Rightarrow> bool \<Rightarrow> 'p ConnectionAttempt list" where
  "ordered_attempts candidates relay_preferred1 =
     (let (direct_quic, direct, relay) = split_attempts candidates
      in if relay_preferred1 then relay @ direct_quic @ direct else direct_quic @ direct @ relay)"

definition build_peer_book_connection_plan_with_capabilities ::
    "'p ma_ext \<Rightarrow> 'p::linorder \<Rightarrow> 'p PeerBook \<Rightarrow> DcutrPolicy \<Rightarrow> TransportCapabilities \<Rightarrow> 'p ConnectionPlan" where
  "build_peer_book_connection_plan_with_capabilities M peer_id peer_book dcutr_policy capabilities =
     (let known = record_of peer_book peer_id;
          relay_preferred1 = (case known of Some record \<Rightarrow> relay_preferred record | None \<Rightarrow> False);
          candidates = filter (allows M capabilities) (book_candidates M known ([], {}))
      in \<lparr>target_peer = Some peer_id, attempts = ordered_attempts candidates relay_preferred1,
          plan_relay_preferred = relay_preferred1,
          attempt_dcutr_after_relay = (dcutr_enabled dcutr_policy \<and> attempt_after_relay_connection dcutr_policy),
          plan_keep_relay_fallback = dcutr_keep_relay_fallback dcutr_policy\<rparr>)"

definition build_peer_book_connection_plan ::
    "'p ma_ext \<Rightarrow> bool \<Rightarrow> 'p::linorder \<Rightarrow> 'p PeerBook \<Rightarrow> DcutrPolicy \<Rightarrow> 'p ConnectionPlan" where
  "build_peer_book_connection_plan M wasm32 peer_id peer_book dcutr_policy =
     build_peer_book_connection_plan_with_capabilities M peer_id peer_book dcutr_policy (capabilities_default wasm32)"

definition build_connection_plan_with_capabilities ::
    "'p ma_ext \<Rightarrow> 'p::linorder multiaddr \<Rightarrow> 'p PeerBook \<Rightarrow> DcutrPolicy \<Rightarrow> TransportCapabilities \<Rightarrow> 'p ConnectionPlan" where
  "build_connection_plan_with_capabilities M requested_addr peer_book dcutr_policy capabilities =
     (let target = extract_p2p_peer_id requested_addr;
          known = Option.bind target (record_of peer_book);
          relay_preferred1 = (case known of Some record \<Rightarrow> relay_preferred record | None \<Rightarrow> False);
          start = push_candidate M requested_addr ([], {});
          candidates = filter (allows M capabilities) (book_candidates M known start)
      in \<lparr>target_peer = target, attempts = ordered_attempts candidates relay_preferred1,
          plan_relay_preferred = relay_preferred1,
          attempt_dcutr_after_relay = (dcutr_enabled dcutr_policy \<and> attempt_after_relay_connection dcutr_policy),
          plan_keep_relay_fallback = dcutr_keep_relay_fallback dcutr_policy\<rparr>)"

definition build_connection_plan ::
    "'p ma_ext \<Rightarrow> bool \<Rightarrow> 'p::linorder multiaddr \<Rightarrow> 'p PeerBook \<Rightarrow> DcutrPolicy \<Rightarrow> 'p ConnectionPlan" where
  "build_connection_plan M wasm32 requested_addr peer_book dcutr_policy =
     build_connection_plan_with_capabilities M requested_addr peer_book dcutr_policy (capabilities_default wasm32)"

section \<open>Plans under way\<close>

type_synonym 'p PendingConnectionPlans = "('p, 'p ConnectionAttempt list) fmap"

fun remaining_after :: "'p ConnectionAttempt \<Rightarrow> bool \<Rightarrow> 'p ConnectionAttempt list \<Rightarrow> 'p ConnectionAttempt list" where
  "remaining_after attempted seen_attempted [] = []"
| "remaining_after attempted seen_attempted (candidate # rest) =
     (if \<not> seen_attempted then remaining_after attempted (candidate = attempted) rest
      else candidate # remaining_after attempted seen_attempted rest)"

definition track_remaining :: "'p ConnectionPlan \<Rightarrow> 'p ConnectionAttempt \<Rightarrow> 'p PendingConnectionPlans \<Rightarrow> 'p PendingConnectionPlans" where
  "track_remaining plan attempted pending = (case target_peer plan of
     None \<Rightarrow> pending
   | Some peer \<Rightarrow> fmupd peer (remaining_after attempted False (attempts plan)) pending)"

definition next_after_failure :: "'p \<Rightarrow> 'p PendingConnectionPlans \<Rightarrow> 'p ConnectionAttempt option \<times> 'p PendingConnectionPlans" where
  "next_after_failure peer pending =
     (let (next1, pending1) = (case fmlookup pending peer of
            Some (a # rest) \<Rightarrow> (Some a, fmupd peer rest pending)
          | _ \<Rightarrow> (None, pending));
          empty1 = (case fmlookup pending1 peer of Some rest \<Rightarrow> rest = [] | None \<Rightarrow> False)
      in (next1, if empty1 then fmdrop peer pending1 else pending1))"

definition plan_complete :: "'p \<Rightarrow> 'p PendingConnectionPlans \<Rightarrow> 'p PendingConnectionPlans" where
  "plan_complete peer pending = fmdrop peer pending"

definition is_pending :: "'p \<Rightarrow> 'p PendingConnectionPlans \<Rightarrow> bool" where
  "is_pending peer pending \<longleftrightarrow> fmlookup pending peer \<noteq> None"

definition pending_count :: "'p PendingConnectionPlans \<Rightarrow> nat" where
  "pending_count pending = fmsize pending"

section \<open>What the text search decides\<close>

text \<open>The documented text of a multiaddress: each component is a slash and its name, followed by a
  slash and its value if it has one.\<close>

primrec segs :: "'p ext \<Rightarrow> 'p protocol \<Rightarrow> string list" where
  "segs E (Ip4 ip) = [''ip4'', v4_to_string ip]"
| "segs E (Ip6 ip) = [''ip6'', v6_to_string ip]"
| "segs E (Dns h) = [''dns'', h]"
| "segs E (Dns4 h) = [''dns4'', h]"
| "segs E (Dns6 h) = [''dns6'', h]"
| "segs E (Dnsaddr h) = [''dnsaddr'', h]"
| "segs E (Tcp n) = [''tcp'', show_nat n]"
| "segs E (Udp n) = [''udp'', show_nat n]"
| "segs E Quic = [''quic'']"
| "segs E QuicV1 = [''quic-v1'']"
| "segs E (Ws path) = [''ws'']"
| "segs E (Wss path) = [''wss'']"
| "segs E Tls = [''tls'']"
| "segs E WebRTC = [''webrtc'']"
| "segs E WebRTCDirect = [''webrtc-direct'']"
| "segs E P2pWebRtcDirect = [''p2p-webrtc-direct'']"
| "segs E (Certhash h) = [''certhash'', h]"
| "segs E WebTransport = [''webtransport'']"
| "segs E (P2p p) = [''p2p'', pid_to_string E p]"
| "segs E P2pCircuit = [''p2p-circuit'']"
| "segs E (OtherProtocol t) = [t]"

text \<open>Components whose text is the plain one: a websocket path is the root path.\<close>

definition plain_text :: "'p protocol \<Rightarrow> bool" where
  "plain_text protocol \<longleftrightarrow> (case protocol of Ws path \<Rightarrow> path = ''/'' | Wss path \<Rightarrow> path = ''/'' | OtherProtocol _ \<Rightarrow> False | _ \<Rightarrow> True)"

definition ma_text_law :: "'p ext \<Rightarrow> 'p ma_ext \<Rightarrow> bool" where
  [laws]: "ma_text_law E M \<longleftrightarrow> (\<forall>addr. list_all plain_text addr \<longrightarrow> ma_to_string M addr = slashed (concat (map (segs E) addr)))"

text \<open>Texts that no transport name begins with.\<close>

definition value_text :: "string \<Rightarrow> bool" where
  "value_text s \<longleftrightarrow> no_slash s \<and> s \<noteq> [] \<and> hd s \<notin> {CHR ''w'', CHR ''q'', CHR ''t'', CHR ''p''}"

text \<open>Peer identifiers are written in base58; the text of an identity or SHA-256 multihash begins with
  a digit or an upper-case letter.\<close>

definition peer_name_law :: "'p ext \<Rightarrow> bool" where
  [laws]: "peer_name_law E \<longleftrightarrow> (\<forall>p. value_text (pid_to_string E p))"

definition plain_char :: "char \<Rightarrow> bool" where
  "plain_char c \<longleftrightarrow> is_ascii_hexdigit c \<or> c = CHR '':'' \<or> c = CHR ''.''"

lemma plain_char_text: "list_all plain_char s \<Longrightarrow> s \<noteq> [] \<Longrightarrow> value_text s"
proof -
  assume s: "list_all plain_char s" and "s \<noteq> []"
  have no: "\<not> plain_char (CHR ''/'')" "\<not> plain_char (CHR ''w'')" "\<not> plain_char (CHR ''q'')"
    "\<not> plain_char (CHR ''t'')" "\<not> plain_char (CHR ''p'')"
    by (simp_all add: plain_char_def is_ascii_hexdigit_def)
  have "hd s \<in> set s" using \<open>s \<noteq> []\<close> by simp
  with s no \<open>s \<noteq> []\<close> show ?thesis unfolding value_text_def no_slash_def list_all_iff by (metis insertE empty_iff)
qed

lemma demo_peer_name: "peer_name_law demo_ext"
proof -
  have "value_text (demo_hex [p])" for p
  proof (rule plain_char_text)
    show "list_all plain_char (demo_hex [p])"
      using demo_hex_digits [of "[p]"] by (auto simp: list_all_iff plain_char_def simp del: demo_hex.simps)
  qed simp
  then show ?thesis unfolding laws by (simp only: demo_ext_def ext.simps) blast
qed

lemma show_nat_plain: "list_all plain_char (show_nat n)" "show_nat n \<noteq> []"
proof -
  show "list_all plain_char (show_nat n)"
    using show_nat_digits by (auto simp: list_all_iff plain_char_def is_ascii_hexdigit_def)
  show "show_nat n \<noteq> []" by (subst show_nat.simps) simp
qed

lemma show_hex_plain: "list_all plain_char (show_hex n)"
proof (induction n rule: show_hex.induct)
  case (1 n)
  have "plain_char (nibble_char k)" if "k < 16" for k using nibble_hexdigit [OF that] by (simp add: plain_char_def)
  with 1 show ?case by (subst show_hex.simps) simp
qed

lemma join_plain: "list_all plain_char sep \<Longrightarrow> list_all (list_all plain_char) ss \<Longrightarrow> list_all plain_char (join sep ss)"
  by (induction ss) auto

lemma v4_to_string_plain: "list_all plain_char (v4_to_string ip)" "v4_to_string ip \<noteq> []"
  by (cases ip; simp add: show_nat_plain plain_char_def [of "CHR ''.''"])+

lemma v6_groups_plain: "list_all plain_char (v6_groups ss)"
  unfolding v6_groups_def by (rule join_plain) (simp_all add: list_all_iff [of _ "map _ _"] show_hex_plain plain_char_def [of "CHR '':''"])

lemma join_nonempty: "ss \<noteq> [] \<Longrightarrow> [] \<notin> set ss \<Longrightarrow> join sep ss \<noteq> []"
  by (cases ss) auto

lemma show_hex_nonempty: "show_hex n \<noteq> []"
  by (subst show_hex.simps) simp

lemma v6_to_string_plain: "list_all plain_char (v6_to_string ip)" "v6_to_string ip \<noteq> []"
proof -
  have colon: "list_all plain_char ''::ffff:''" "list_all plain_char ''::''"
    by (simp_all add: plain_char_def is_ascii_hexdigit_def)
  show "list_all plain_char (v6_to_string ip)"
    unfolding v6_to_string_def Let_def
    by (simp only: list_all_append colon v4_to_string_plain v6_groups_plain split: if_split prod.split) simp
  have "segments ip \<noteq> []" by (cases ip) simp
  then have "v6_groups (segments ip) \<noteq> []"
    unfolding v6_groups_def by (intro join_nonempty) (auto simp: show_hex_nonempty dest: sym)
  then show "v6_to_string ip \<noteq> []" by (simp add: v6_to_string_def Let_def split: prod.split)
qed

text \<open>Addresses whose host is an IP address, with the components the transports use.\<close>

definition ip_hosted :: "'p protocol \<Rightarrow> bool" where
  "ip_hosted protocol \<longleftrightarrow> (case protocol of
     Ip4 _ \<Rightarrow> True | Ip6 _ \<Rightarrow> True | Tcp _ \<Rightarrow> True | Udp _ \<Rightarrow> True | Quic \<Rightarrow> True | QuicV1 \<Rightarrow> True
   | Ws path \<Rightarrow> path = ''/'' | Wss path \<Rightarrow> path = ''/'' | WebRTC \<Rightarrow> True | WebRTCDirect \<Rightarrow> True
   | WebTransport \<Rightarrow> True | Certhash h \<Rightarrow> value_text h | P2p _ \<Rightarrow> True | P2pCircuit \<Rightarrow> True | _ \<Rightarrow> False)"

definition dial_rule :: "TransportCapabilities \<Rightarrow> 'p multiaddr \<Rightarrow> bool" where
  "dial_rule caps addr =
     (if WebRTCDirect \<in> set addr then cap_webrtc_direct caps
      else if WebTransport \<in> set addr then cap_webtransport caps
      else if WebRTC \<in> set addr then cap_browser_webrtc caps
      else if Wss ''/'' \<in> set addr then cap_secure_websocket caps
      else if Quic \<in> set addr \<or> QuicV1 \<in> set addr then cap_quic caps
      else if \<exists>n. Tcp n \<in> set addr then cap_tcp caps
      else caps = capabilities_native)"

lemma value_text_search:
  assumes "value_text s"
  shows "\<not> starts_with ''webrtc-direct'' s" "\<not> starts_with ''webtransport'' s" "\<not> starts_with ''wss'' s"
    "\<not> starts_with ''quic'' s" "\<not> starts_with ''p2p-circuit'' s" "s \<noteq> ''webrtc''" "s \<noteq> ''tcp''" "s \<noteq> ''tls''"
    "no_slash s"
proof -
  obtain c r where s: "s = c # r" using assms by (cases s) (auto simp: value_text_def)
  have c: "c \<noteq> CHR ''w''" "c \<noteq> CHR ''q''" "c \<noteq> CHR ''t''" "c \<noteq> CHR ''p''" and plain: "no_slash s"
    using assms by (simp_all add: value_text_def s)
  note c = c c [THEN not_sym]
  show "\<not> starts_with ''webrtc-direct'' s" "\<not> starts_with ''webtransport'' s" "\<not> starts_with ''wss'' s"
    "\<not> starts_with ''quic'' s" "\<not> starts_with ''p2p-circuit'' s"
    by (simp_all only: s starts_with.simps c simp_thms)
  show "s \<noteq> ''webrtc''" "s \<noteq> ''tcp''" "s \<noteq> ''tls''" by (simp_all only: s list.inject c simp_thms)
qed (use assms in \<open>simp add: value_text_def\<close>)

lemma ip_hosted_segs:
  assumes "peer_name_law E" and "ip_hosted protocol"
  shows "list_all no_slash (segs E protocol)"
    "list_ex (starts_with ''webrtc-direct'') (segs E protocol) \<longleftrightarrow> protocol = WebRTCDirect"
    "list_ex (starts_with ''webtransport'') (segs E protocol) \<longleftrightarrow> protocol = WebTransport"
    "''webrtc'' \<in> set (segs E protocol) \<longleftrightarrow> protocol = WebRTC"
    "list_ex (starts_with ''wss'') (segs E protocol) \<longleftrightarrow> protocol = Wss ''/''"
    "list_ex (starts_with ''quic'') (segs E protocol) \<longleftrightarrow> protocol = Quic \<or> protocol = QuicV1"
    "''tcp'' \<in> set (segs E protocol) \<longleftrightarrow> (\<exists>n. protocol = Tcp n)"
    "''tls'' \<notin> set (segs E protocol)"
    "list_ex (starts_with ''p2p-circuit'') (segs E protocol) \<longleftrightarrow> protocol = P2pCircuit"
    "plain_text protocol"
proof -
  note v4 = value_text_search [OF plain_char_text [OF v4_to_string_plain]]
  note v6 = value_text_search [OF plain_char_text [OF v6_to_string_plain]]
  note num = value_text_search [OF plain_char_text [OF show_nat_plain]]
  have pid: "value_text (pid_to_string E p)" for p using assms(1) unfolding laws by blast
  note pid = value_text_search [OF pid]
  note rules = v4 v6 num pid v4(6-8) [THEN not_sym] v6(6-8) [THEN not_sym] num(6-8) [THEN not_sym] pid(6-8) [THEN not_sym]
  show "list_all no_slash (segs E protocol)"
    "list_ex (starts_with ''webrtc-direct'') (segs E protocol) \<longleftrightarrow> protocol = WebRTCDirect"
    "list_ex (starts_with ''webtransport'') (segs E protocol) \<longleftrightarrow> protocol = WebTransport"
    "''webrtc'' \<in> set (segs E protocol) \<longleftrightarrow> protocol = WebRTC"
    "list_ex (starts_with ''wss'') (segs E protocol) \<longleftrightarrow> protocol = Wss ''/''"
    "list_ex (starts_with ''quic'') (segs E protocol) \<longleftrightarrow> protocol = Quic \<or> protocol = QuicV1"
    "''tcp'' \<in> set (segs E protocol) \<longleftrightarrow> (\<exists>n. protocol = Tcp n)"
    "''tls'' \<notin> set (segs E protocol)"
    "list_ex (starts_with ''p2p-circuit'') (segs E protocol) \<longleftrightarrow> protocol = P2pCircuit"
    "plain_text protocol"
    using assms(2) by (cases protocol; simp add: ip_hosted_def plain_text_def rules no_slash_def [of "_ # _"]
        value_text_search value_text_search(6-8) [THEN not_sym])+
qed

lemma list_ex_concat: "list_ex P (concat (map f xs)) \<longleftrightarrow> list_ex (\<lambda>x. list_ex P (f x)) xs"
  by (induction xs) auto

lemma adjacent_mem: "adjacent p q ss \<Longrightarrow> p \<in> set ss"
  by (induction p q ss rule: adjacent.induct) auto

lemma adjacent_append: "adjacent p q ss \<Longrightarrow> adjacent p q (xs @ ss)"
proof (induction xs)
  case (Cons x xs)
  then show ?case by (cases "xs @ ss") auto
qed simp

text \<open>The text up to the circuit marker is the text of the components before it.\<close>

lemma segs_before_circuit:
  assumes "peer_name_law E"
  shows "list_all ip_hosted addr \<Longrightarrow> takeWhile (\<lambda>s. \<not> starts_with ''p2p-circuit'' s) (concat (map (segs E) addr))
     = concat (map (segs E) (takeWhile (\<lambda>c. c \<noteq> P2pCircuit) addr))"
proof (induction addr)
  case (Cons c addr)
  show ?case
  proof (cases "c = P2pCircuit")
    case False
    with Cons.prems ip_hosted_segs(9) [OF assms, of c] have "\<not> list_ex (starts_with ''p2p-circuit'') (segs E c)" by simp
    then have "takeWhile (\<lambda>s. \<not> starts_with ''p2p-circuit'' s) (segs E c @ r)
        = segs E c @ takeWhile (\<lambda>s. \<not> starts_with ''p2p-circuit'' s) r" for r
      by (intro takeWhile_append2) (simp add: list_ex_iff)
    with Cons False show ?thesis by simp
  qed simp
qed simp

lemma search_ip_hosted:
  assumes "peer_name_law E" and "list_all ip_hosted addr"
  defines "text1 \<equiv> slashed (concat (map (segs E) addr))"
  shows "contains_str ''/webrtc-direct'' text1 \<longleftrightarrow> WebRTCDirect \<in> set addr"
    "contains_str ''/webtransport'' text1 \<longleftrightarrow> WebTransport \<in> set addr"
    "ends_with ''/webrtc'' text1 \<or> contains_str ''/webrtc/'' text1 \<longleftrightarrow> WebRTC \<in> set addr"
    "contains_str ''/wss'' text1 \<or> contains_str ''/tls/ws'' text1 \<longleftrightarrow> Wss ''/'' \<in> set addr"
    "contains_str ''/quic'' text1 \<longleftrightarrow> Quic \<in> set addr \<or> QuicV1 \<in> set addr"
    "contains_str ''/tcp/'' text1 \<longleftrightarrow> (\<exists>n. Tcp n \<in> set addr)"
    "contains_str ''/p2p-circuit'' text1 \<longleftrightarrow> P2pCircuit \<in> set addr"
proof -
  have hosted: "c \<in> set addr \<Longrightarrow> ip_hosted c" for c using assms(2) by (simp add: list_all_iff)
  note segs1 = ip_hosted_segs [OF assms(1) hosted]
  have plain: "list_all no_slash (concat (map (segs E) addr))" using segs1(1) by (auto simp: list_all_iff)
  have one: "contains_str (CHR ''/'' # p) text1 \<longleftrightarrow> (\<exists>c\<in>set addr. list_ex (starts_with p) (segs E c))" if "no_slash p" for p
    unfolding text1_def contains_segment [OF that plain] list_ex_concat by (simp add: list_ex_iff)
  show "contains_str ''/webrtc-direct'' text1 \<longleftrightarrow> WebRTCDirect \<in> set addr"
    using one [of "''webrtc-direct''"] segs1(2) by (auto simp: no_slash_def)
  show "contains_str ''/webtransport'' text1 \<longleftrightarrow> WebTransport \<in> set addr"
    using one [of "''webtransport''"] segs1(3) by (auto simp: no_slash_def)
  show "contains_str ''/quic'' text1 \<longleftrightarrow> Quic \<in> set addr \<or> QuicV1 \<in> set addr"
    using one [of "''quic''"] segs1(6) by (auto simp: no_slash_def)
  show "contains_str ''/p2p-circuit'' text1 \<longleftrightarrow> P2pCircuit \<in> set addr"
    using one [of "''p2p-circuit''"] segs1(9) by (auto simp: no_slash_def)
  have two: "contains_str (CHR ''/'' # p @ CHR ''/'' # q) text1 \<longleftrightarrow> adjacent p q (concat (map (segs E) addr))"
    if "no_slash p" "no_slash q" for p q
    unfolding text1_def by (rule contains_two_segments [OF that plain])
  have "\<not> adjacent ''tls'' ''ws'' (concat (map (segs E) addr))" using adjacent_mem segs1(8) by fastforce
  then show "contains_str ''/wss'' text1 \<or> contains_str ''/tls/ws'' text1 \<longleftrightarrow> Wss ''/'' \<in> set addr"
    using one [of "''wss''"] two [of "''tls''" "''ws''"] segs1(5) by (auto simp: no_slash_def)
  have "ends_with ''/webrtc'' text1 \<or> contains_str ''/webrtc/'' text1 \<longleftrightarrow> ''webrtc'' \<in> set (concat (map (segs E) addr))"
    using two [of "''webrtc''" "[]"] ends_with_segment [of "''webrtc''", OF _ plain, folded text1_def]
      adjacent_or_last [of "concat (map (segs E) addr)" "''webrtc''"] by (simp add: no_slash_def)
  then show "ends_with ''/webrtc'' text1 \<or> contains_str ''/webrtc/'' text1 \<longleftrightarrow> WebRTC \<in> set addr"
    using segs1(4) by auto
  have "adjacent ''tcp'' [] (concat (map (segs E) addr)) \<longleftrightarrow> (\<exists>n. Tcp n \<in> set addr)"
  proof
    assume "adjacent ''tcp'' [] (concat (map (segs E) addr))"
    then have "''tcp'' \<in> set (concat (map (segs E) addr))" by (rule adjacent_mem)
    then show "\<exists>n. Tcp n \<in> set addr" using segs1(7) by auto
  next
    assume "\<exists>n. Tcp n \<in> set addr"
    then obtain n xs ys where "addr = xs @ Tcp n # ys" by (auto dest: split_list)
    then show "adjacent ''tcp'' [] (concat (map (segs E) addr))" by (simp add: adjacent_append)
  qed
  then show "contains_str ''/tcp/'' text1 \<longleftrightarrow> (\<exists>n. Tcp n \<in> set addr)"
    using two [of "''tcp''" "[]"] by (simp add: no_slash_def)
qed

text \<open>What may be dialled. For an address whose host is an IP address, the search of its text
  decides by its components: a relayed address needs the relay capability, and the transport before
  the circuit marker, WebRTC direct, WebTransport, browser WebRTC, secure websocket, QUIC or TCP in this
  order, needs the capability of that transport.\<close>

theorem allows_by_transport:
  assumes "ma_text_law E M" and "peer_name_law E" and "list_all ip_hosted addr"
  shows "allows M caps addr \<longleftrightarrow> (P2pCircuit \<in> set addr \<longrightarrow> cap_circuit_relay caps)
    \<and> dial_rule caps (takeWhile (\<lambda>c. c \<noteq> P2pCircuit) addr)"
proof -
  let ?base = "takeWhile (\<lambda>c. c \<noteq> P2pCircuit) addr"
  have hosted: "c \<in> set addr \<Longrightarrow> ip_hosted c" for c using assms(3) by (simp add: list_all_iff)
  note segs1 = ip_hosted_segs [OF assms(2) hosted]
  have "list_all plain_text addr" using segs1(10) by (simp add: list_all_iff)
  with assms(1) have text1: "ma_to_string M addr = slashed (concat (map (segs E) addr))" unfolding laws by blast
  have "list_all no_slash (concat (map (segs E) addr))" using segs1(1) by (auto simp: list_all_iff)
  then have base: "before ''/p2p-circuit'' (ma_to_string M addr) = slashed (concat (map (segs E) ?base))"
    using before_segment [of "''p2p-circuit''"] segs_before_circuit [OF assms(2,3)] by (simp add: text1 no_slash_def)
  have "list_all ip_hosted ?base" using hosted by (auto simp: list_all_iff dest: set_takeWhileD)
  note whole = search_ip_hosted [OF assms(2,3)] and part = search_ip_hosted [OF assms(2) this]
  have "transport_allowed caps (slashed (concat (map (segs E) ?base))) = dial_rule caps ?base"
    by (simp only: transport_allowed_def dial_rule_def part)
  then show ?thesis by (simp add: allows_def Let_def base) (simp add: text1 whole)
qed

text \<open>A concrete rendering for the witness.\<close>

definition demo_ma :: "u8 ma_ext" where
  "demo_ma = \<lparr>ma_to_string = (\<lambda>addr. slashed (concat (map (segs demo_ext) addr))), ma_parse = (\<lambda>_. None)\<rparr>"

lemma demo_ma_text: "ma_text_law demo_ext demo_ma"
  unfolding laws by (simp add: demo_ma_def)

theorem allows_by_transport_witness:
  "\<not> allows demo_ma capabilities_browser [Ip4 (Ipv4 10 0 0 1), Udp 4001, QuicV1, P2p 7, P2pCircuit, P2p 9]"
proof -
  have "list_all ip_hosted [Ip4 (Ipv4 10 0 0 1), Udp 4001, QuicV1, P2p (7 :: u8), P2pCircuit, P2p 9]" by (simp add: ip_hosted_def)
  from allows_by_transport [OF demo_ma_text demo_peer_name this, of capabilities_browser] show ?thesis
    by (simp add: dial_rule_def capabilities_browser_def capabilities_native_def)
qed

text \<open>The same search reads host names: a native node, which dials TCP, refuses a TCP address whose
  host name begins with the name of a transport it does not have.\<close>

lemma native_refuses_host_name:
  assumes "ma_text_law E M" and "no_slash host"
  shows "\<not> allows M capabilities_native [Dns4 (''webtransport'' @ host), Tcp port]"
proof -
  let ?ss = "[''dns4'', ''webtransport'' @ host, ''tcp'', show_nat port]"
  have "list_all plain_text [Dns4 h, Tcp port]" for h :: string by (simp add: plain_text_def)
  with assms(1) have "ma_to_string M [Dns4 h, Tcp port] = slashed (concat (map (segs E) [Dns4 h, Tcp port]))" for h
    unfolding ma_text_law_def by blast
  then have text1: "ma_to_string M [Dns4 (''webtransport'' @ host), Tcp port] = slashed ?ss" by simp
  have num: "value_text (show_nat port)" by (rule plain_char_text [OF show_nat_plain])
  have slash: "no_slash ''p2p-circuit''" "no_slash ''webrtc-direct''" "no_slash ''webtransport''"
    by (simp_all add: no_slash_def)
  have plain: "list_all no_slash ?ss" using assms(2) value_text_search(9) [OF num] by (simp add: no_slash_def)
  have none: "\<not> list_ex (starts_with ''webrtc-direct'') ?ss" "\<not> list_ex (starts_with ''p2p-circuit'') ?ss"
    using value_text_search(1,5) [OF num] by simp_all
  from none(2) have all: "takeWhile (\<lambda>s. \<not> starts_with ''p2p-circuit'' s) ?ss = ?ss" by simp
  have some: "list_ex (starts_with ''webtransport'') ?ss" by simp
  note facts = before_segment [OF slash(1) plain, unfolded all] contains_segment [OF slash(1) plain]
    contains_segment [OF slash(2) plain] contains_segment [OF slash(3) plain]
  show ?thesis
    by (simp only: allows_def Let_def text1 facts none some transport_allowed_def if_False if_True simp_thms)
      (simp add: capabilities_native_def)
qed

section \<open>The plan\<close>

text \<open>The place of a kind in the plan.\<close>

definition plan_rank :: "bool \<Rightarrow> ConnectionAttemptKind \<Rightarrow> nat" where
  "plan_rank relay_first kind = (case kind of DirectQuic \<Rightarrow> 1 | Direct \<Rightarrow> 2 | Relay \<Rightarrow> if relay_first then 0 else 3)"

definition attempt_of :: "'p multiaddr \<Rightarrow> 'p ConnectionAttempt" where
  "attempt_of addr = \<lparr>attempt_addr = addr, attempt_kind = classify_addr addr\<rparr>"

lemma attempt_of_simps [simp]: "attempt_addr (attempt_of a) = a" "attempt_kind (attempt_of a) = classify_addr a"
  by (simp_all add: attempt_of_def)

definition of_kind :: "ConnectionAttemptKind \<Rightarrow> 'p multiaddr list \<Rightarrow> 'p multiaddr list" where
  "of_kind k addrs = filter (\<lambda>a. classify_addr a = k) addrs"

lemma set_of_kind [simp]: "set (of_kind k addrs) = {a \<in> set addrs. classify_addr a = k}"
  by (auto simp: of_kind_def)

lemma split_attempts_eq:
  "split_attempts addrs = (map attempt_of (of_kind DirectQuic addrs), map attempt_of (of_kind Direct addrs), map attempt_of (of_kind Relay addrs))"
  proof (induction addrs)
  case (Cons a addrs)
  then show ?case by (cases "classify_addr a") (simp_all add: Let_def of_kind_def attempt_of_def)
qed (simp add: of_kind_def)

lemma ordered_attempts_eq:
  "ordered_attempts addrs relay_first = map attempt_of
     (if relay_first then of_kind Relay addrs @ of_kind DirectQuic addrs @ of_kind Direct addrs
      else of_kind DirectQuic addrs @ of_kind Direct addrs @ of_kind Relay addrs)"
  by (simp add: ordered_attempts_def split_attempts_eq)

lemma ordered_attempts_set: "set (ordered_attempts addrs relay_first) = attempt_of ` set addrs"
proof -
  have "a \<in> set addrs \<Longrightarrow> classify_addr a \<in> {DirectQuic, Direct, Relay}" for a by (cases "classify_addr a") auto
  then show ?thesis by (auto simp: ordered_attempts_eq)
qed

lemma sorted_const: "list_all (\<lambda>a. f a = n) xs \<Longrightarrow> sorted (map f xs)" for n :: nat
  by (induction xs) (auto simp: list_all_iff)

lemma ordered_attempts_sorted:
  "sorted (map (plan_rank relay_first \<circ> attempt_kind) (ordered_attempts addrs relay_first))"
proof -
  have "sorted (map (\<lambda>a. plan_rank relay_first (classify_addr a)) (of_kind k addrs))" for k
    by (rule sorted_const [where n = "plan_rank relay_first k"]) (simp add: list_all_iff)
  then show ?thesis by (auto simp: ordered_attempts_eq sorted_append plan_rank_def comp_def)
qed

lemma ordered_attempts_distinct:
  "distinct (map f addrs) \<Longrightarrow> distinct (map (f \<circ> attempt_addr) (ordered_attempts addrs relay_first))"
  by (auto simp: ordered_attempts_eq of_kind_def comp_def distinct_map_filter distinct_map inj_on_def)

text \<open>The candidates: no two have the same text, and every text pushed is there.\<close>

definition candidates_ok :: "'p ma_ext \<Rightarrow> 'p multiaddr list \<times> string set \<Rightarrow> bool" where
  "candidates_ok M cs \<longleftrightarrow> distinct (map (ma_to_string M) (fst cs)) \<and> snd cs = ma_to_string M ` set (fst cs)"

lemma candidates_ok_empty [simp]: "candidates_ok M ([], {})"
  by (simp add: candidates_ok_def)

lemma push_candidate_ok: "candidates_ok M cs \<Longrightarrow> candidates_ok M (push_candidate M addr cs)"
  by (cases cs) (auto simp: candidates_ok_def push_candidate_def Let_def)

lemma push_candidate_set:
  "candidates_ok M cs \<Longrightarrow> set (fst cs) \<subseteq> set (fst (push_candidate M addr cs))
     \<and> set (fst (push_candidate M addr cs)) \<subseteq> insert addr (set (fst cs))
     \<and> ma_to_string M addr \<in> ma_to_string M ` set (fst (push_candidate M addr cs))"
  by (cases cs) (auto simp: candidates_ok_def push_candidate_def Let_def)

lemma push_parsed_step:
  assumes "candidates_ok M cs"
  shows "candidates_ok M (push_parsed M t cs)" and "set (fst cs) \<subseteq> set (fst (push_parsed M t cs))"
    and "set (fst (push_parsed M t cs)) \<subseteq> set (fst cs) \<union> {a. ma_parse M t = Some a}"
    and "ma_parse M t = Some a \<Longrightarrow> ma_to_string M a \<in> ma_to_string M ` set (fst (push_parsed M t cs))"
  using push_candidate_ok [OF assms] push_candidate_set [OF assms] assms
  by (auto simp: push_parsed_def split: option.split)

lemma push_parsed_fold:
  assumes "candidates_ok M cs"
  shows "candidates_ok M (fold (push_parsed M) texts cs)"
    and "set (fst cs) \<subseteq> set (fst (fold (push_parsed M) texts cs))"
    and "set (fst (fold (push_parsed M) texts cs)) \<subseteq> set (fst cs) \<union> {a. \<exists>t\<in>set texts. ma_parse M t = Some a}"
    and "t \<in> set texts \<Longrightarrow> ma_parse M t = Some a \<Longrightarrow> ma_to_string M a \<in> ma_to_string M ` set (fst (fold (push_parsed M) texts cs))"
  using assms
proof (induction texts arbitrary: cs)
  case (Cons u texts)
  { case 1 note step = push_parsed_step [OF 1] show ?case using Cons.IH(1) [OF step(1)] by simp }
  { case 2 note step = push_parsed_step [OF 2]
    show ?case using Cons.IH(2) [OF step(1), of u] step(2) [of u] by (simp add: subset_trans) }
  { case 3 note step = push_parsed_step [OF 3]
    show ?case using Cons.IH(3) [OF step(1), of u] step(3) [of u] by auto }
  { case 4 note step = push_parsed_step [OF 4(3)]
    show ?case
    proof (cases "t = u")
      case True
      from step(4) [of u a] 4 True have "ma_to_string M a \<in> ma_to_string M ` set (fst (push_parsed M u cs))" by simp
      then show ?thesis using Cons.IH(2) [OF step(1), of u] by auto
    next
      case False
      with 4 Cons.IH(4) [OF _ _ step(1)] show ?thesis by simp
    qed }
qed simp_all

text \<open>What the plan for a requested address may dial: the address and the parsed addresses the peer
  book has for its target.\<close>

definition known_addrs :: "'p ma_ext \<Rightarrow> 'p::linorder multiaddr \<Rightarrow> 'p PeerBook \<Rightarrow> 'p multiaddr set" where
  "known_addrs M requested book = (case Option.bind (extract_p2p_peer_id requested) (record_of book) of
     None \<Rightarrow> {} | Some r \<Rightarrow> {a. \<exists>t\<in>set (addresses r). ma_parse M t = Some a})"

lemma book_candidates_ok:
  assumes "candidates_ok M start"
  shows "distinct (map (ma_to_string M) (book_candidates M known start))"
    and "set (fst start) \<subseteq> set (book_candidates M known start)"
    and "set (book_candidates M known start) \<subseteq> set (fst start) \<union>
      (case known of None \<Rightarrow> {} | Some r \<Rightarrow> {a. \<exists>t\<in>set (addresses r). ma_parse M t = Some a})"
    and "a \<in> (case known of None \<Rightarrow> {} | Some r \<Rightarrow> {a. \<exists>t\<in>set (addresses r). ma_parse M t = Some a})
      \<Longrightarrow> ma_to_string M a \<in> ma_to_string M ` set (book_candidates M known start)"
proof -
  show "distinct (map (ma_to_string M) (book_candidates M known start))"
    using assms push_parsed_fold(1) [OF assms] by (cases known) (simp_all add: book_candidates_def candidates_ok_def)
  show "set (fst start) \<subseteq> set (book_candidates M known start)"
    using push_parsed_fold(2) [OF assms] by (cases known) (simp_all add: book_candidates_def)
  show "set (book_candidates M known start) \<subseteq> set (fst start) \<union>
      (case known of None \<Rightarrow> {} | Some r \<Rightarrow> {a. \<exists>t\<in>set (addresses r). ma_parse M t = Some a})"
    using push_parsed_fold(3) [OF assms] by (cases known) (simp_all add: book_candidates_def)
  show "ma_to_string M a \<in> ma_to_string M ` set (book_candidates M known start)"
    if "a \<in> (case known of None \<Rightarrow> {} | Some r \<Rightarrow> {a. \<exists>t\<in>set (addresses r). ma_parse M t = Some a})"
    using that push_parsed_fold(4) [OF assms] by (cases known) (auto simp: book_candidates_def)
qed

lemma allows_text: "ma_to_string M a = ma_to_string M b \<Longrightarrow> allows M caps a = allows M caps b"
  by (simp add: allows_def)

text \<open>C10. The plan for a requested address. Its attempts are addresses the platform can dial, the
  requested one or one the peer book knows for the target, each with its class and no two with the same
  text; none that can be dialled is missing; direct QUIC comes before other direct addresses, and relayed
  addresses come last, or first when the peer prefers a relay.\<close>

theorem plan_complete_and_ordered:
  "let plan1 = build_connection_plan_with_capabilities M requested book policy caps in
    distinct (map (ma_to_string M \<circ> attempt_addr) (attempts plan1))
    \<and> attempt_addr ` set (attempts plan1) \<subseteq> {a \<in> insert requested (known_addrs M requested book). allows M caps a}
    \<and> ma_to_string M ` {a \<in> insert requested (known_addrs M requested book). allows M caps a}
        = ma_to_string M ` attempt_addr ` set (attempts plan1)
    \<and> sorted (map (plan_rank (plan_relay_preferred plan1) \<circ> attempt_kind) (attempts plan1))
    \<and> list_all (\<lambda>a. attempt_kind a = classify_addr (attempt_addr a)) (attempts plan1)"
proof -
  define plan1 where "plan1 = build_connection_plan_with_capabilities M requested book policy caps"
  define cs where "cs = book_candidates M (Option.bind (extract_p2p_peer_id requested) (record_of book)) (push_candidate M requested ([], {}))"
  let ?known = "insert requested (known_addrs M requested book)"
  have start: "push_candidate M requested ([], {}) = ([requested], {ma_to_string M requested})"
    by (simp add: push_candidate_def)
  have "candidates_ok M (push_candidate M requested ([], {}))" by (rule push_candidate_ok) simp
  note cs = book_candidates_ok [OF this, where known = "Option.bind (extract_p2p_peer_id requested) (record_of book)",
      folded cs_def known_addrs_def, unfolded start, simplified]
  have plan: "attempts plan1 = ordered_attempts (filter (allows M caps) cs) (plan_relay_preferred plan1)"
    by (simp add: plan1_def build_connection_plan_with_capabilities_def Let_def cs_def)
  have addrs: "attempt_addr ` set (attempts plan1) = {a \<in> set cs. allows M caps a}"
    by (simp add: plan ordered_attempts_set image_image)
  have "distinct (map (ma_to_string M) (filter (allows M caps) cs))"
    using cs(1) by (simp add: distinct_map_filter)
  then have "distinct (map (ma_to_string M \<circ> attempt_addr) (attempts plan1))"
    unfolding plan by (rule ordered_attempts_distinct)
  moreover
  have sub: "attempt_addr ` set (attempts plan1) \<subseteq> {a \<in> ?known. allows M caps a}"
    unfolding addrs using cs(3) by blast
  have shown: "ma_to_string M a \<in> ma_to_string M ` {b \<in> set cs. allows M caps b}"
    if a: "a \<in> ?known" and ok: "allows M caps a" for a
  proof -
    have "ma_to_string M a \<in> ma_to_string M ` set cs" using a cs(2,4) by auto
    then obtain b where b: "b \<in> set cs" "ma_to_string M a = ma_to_string M b" by blast
    with ok allows_text [OF b(2), of caps] show ?thesis by blast
  qed
  moreover have "ma_to_string M ` {a \<in> ?known. allows M caps a} = ma_to_string M ` attempt_addr ` set (attempts plan1)"
  proof (intro equalityI)
    show "ma_to_string M ` {a \<in> ?known. allows M caps a} \<subseteq> ma_to_string M ` attempt_addr ` set (attempts plan1)"
      unfolding addrs by (rule image_subsetI) (use shown in simp)
    show "ma_to_string M ` attempt_addr ` set (attempts plan1) \<subseteq> ma_to_string M ` {a \<in> ?known. allows M caps a}"
      by (rule image_mono [OF sub])
  qed
  moreover have "sorted (map (plan_rank (plan_relay_preferred plan1) \<circ> attempt_kind) (attempts plan1))"
    unfolding plan by (rule ordered_attempts_sorted)
  moreover have "list_all (\<lambda>a. attempt_kind a = classify_addr (attempt_addr a)) (attempts plan1)"
    unfolding plan list_all_iff ordered_attempts_set by auto
  ultimately show ?thesis unfolding Let_def plan1_def [symmetric] using sub by (intro conjI)
qed

section \<open>Failover\<close>

text \<open>The answers to \<open>n\<close> failures in a row of one peer's attempts, and the plans left.\<close>

fun fail_times :: "nat \<Rightarrow> 'p \<Rightarrow> 'p PendingConnectionPlans \<Rightarrow> 'p ConnectionAttempt option list \<times> 'p PendingConnectionPlans" where
  "fail_times 0 peer pending = ([], pending)"
| "fail_times (Suc n) peer pending =
     (let (answer, pending1) = next_after_failure peer pending; (answers, pending2) = fail_times n peer pending1
      in (answer # answers, pending2))"

lemma remaining_after_seen: "remaining_after attempted True rest = rest"
  by (induction rest) simp_all

lemma remaining_after_found: "attempted \<notin> set earlier \<Longrightarrow> remaining_after attempted False (earlier @ attempted # rest) = rest"
  by (induction earlier) (auto simp: remaining_after_seen)

lemma next_after_failure_Cons:
  "fmlookup pending peer = Some (a # rest) \<Longrightarrow> next_after_failure peer pending =
     (Some a, if rest = [] then fmdrop peer pending else fmupd peer rest pending)"
  by (auto simp: next_after_failure_def fmap_ext)

lemma next_after_failure_None:
  "fmlookup pending peer = None \<Longrightarrow> next_after_failure peer pending = (None, pending)"
  "fmlookup pending peer = Some [] \<Longrightarrow> next_after_failure peer pending = (None, fmdrop peer pending)"
  by (simp_all add: next_after_failure_def)

lemma fail_times_all:
  "fmlookup pending peer = Some rest \<Longrightarrow> fail_times (Suc (length rest)) peer pending = (map Some rest @ [None], fmdrop peer pending)"
proof (induction rest arbitrary: pending)
  case (Cons a rest)
  show ?case
  proof (cases "rest = []")
    case True
    with Cons.prems show ?thesis by (simp add: next_after_failure_Cons next_after_failure_None)
  next
    case False
    have "fail_times (Suc (length rest)) peer (fmupd peer rest pending) = (map Some rest @ [None], fmdrop peer (fmupd peer rest pending))"
      by (rule Cons.IH) simp
    then show ?thesis using next_after_failure_Cons [OF Cons.prems] False
      by (subst list.size(4), subst fail_times.simps) (simp add: fmap_ext)
  qed
qed (simp add: next_after_failure_None)

text \<open>C11. Failover is exhaustive. After an attempt of a plan is under way, the failures that follow
  are answered by exactly the later attempts of the plan, each once and in order, and then by none; the
  plan is gone then, and the plans of other peers are as they were.\<close>

theorem failover_exhaustive:
  assumes "target_peer plan1 = Some peer" and "attempts plan1 = earlier @ attempted # rest"
    and "attempted \<notin> set earlier"
  shows "\<exists>left. fail_times (length rest + 1) peer (track_remaining plan1 attempted pending) = (map Some rest @ [None], left)
    \<and> \<not> is_pending peer left \<and> fst (next_after_failure peer left) = None
    \<and> (\<forall>other. other \<noteq> peer \<longrightarrow> fmlookup left other = fmlookup pending other)"
proof -
  let ?tracked = "track_remaining plan1 attempted pending"
  have tracked: "?tracked = fmupd peer rest pending"
    by (simp add: track_remaining_def assms(1,2) remaining_after_found [OF assms(3)])
  then have "fmlookup ?tracked peer = Some rest" by simp
  from fail_times_all [OF this] show ?thesis by (simp add: tracked is_pending_def next_after_failure_None(1))
qed

theorem failover_exhaustive_witness:
  "\<exists>left. fail_times 2 (9 :: u8) (track_remaining
      \<lparr>target_peer = Some 9, attempts = [attempt_of [Udp 1, QuicV1], attempt_of [Tcp 1]],
       plan_relay_preferred = False, attempt_dcutr_after_relay = True, plan_keep_relay_fallback = True\<rparr>
      (attempt_of [Udp 1, QuicV1]) fmempty) = ([Some (attempt_of [Tcp 1]), None], left)"
  (is "\<exists>left. fail_times 2 9 (track_remaining ?plan ?a fmempty) = _")
proof -
  have "target_peer ?plan = Some 9" "attempts ?plan = [] @ ?a # [attempt_of [Tcp 1]]" "?a \<notin> set []" by simp_all
  from failover_exhaustive [OF this, of fmempty] show ?thesis by (auto simp: numeral_2_eq_2)
qed

end
