(* ===== verification/Relay_Service.thy ===== *)
theory Relay_Service
  imports Externals Text_Search
begin

text \<open>
  The relay service as an operator configures it: \<open>connectivity/relay/schedule.rs\<close> (weekly opening
  windows), \<open>connectivity/relay/config.rs\<close> (limits, access lists, validation),
  \<open>connectivity/relay/policy.rs\<close> with the health states of \<open>connectivity/relay/state.rs\<close>, and
  \<open>connectivity/mediator.rs\<close> (the mediator policy mapped onto the relay limits). The clock is the
  number of seconds since the epoch, absent when the system clock is before it.
\<close>

section \<open>The schedule\<close>

record RelayWindow =
  days :: "string list"
  win_start :: string
  win_end :: string

record RelaySchedule =
  sched_enabled :: bool
  windows :: "RelayWindow list"

definition relay_schedule_default :: RelaySchedule where
  "relay_schedule_default = \<lparr>sched_enabled = False, windows = []\<rparr>"

definition parse_hhmm :: "string \<Rightarrow> nat option" where
  "parse_hhmm s = (case split_char (CHR '':'') s of
     [h, m] \<Rightarrow> Option.bind (parse_unsigned 16 h) (\<lambda>hour. Option.bind (parse_unsigned 16 m) (\<lambda>minute.
       if 24 \<le> hour \<or> 60 \<le> minute then None else Some (hour * 60 + minute)))
   | _ \<Rightarrow> None)"

definition is_valid_day :: "string \<Rightarrow> bool" where
  "is_valid_day raw \<longleftrightarrow> to_ascii_lowercase (trim raw) \<in> set [''all'', ''*'', ''sun'', ''sunday'', ''mon'', ''monday'',
     ''tue'', ''tues'', ''tuesday'', ''wed'', ''wednesday'', ''thu'', ''thur'', ''thurs'', ''thursday'',
     ''fri'', ''friday'', ''sat'', ''saturday'']"

definition day_matches :: "nat \<Rightarrow> string \<Rightarrow> bool" where
  "day_matches day raw = (let name = to_ascii_lowercase (trim raw) in
     if name \<in> set [''all'', ''*''] then True
     else if name \<in> set [''sun'', ''sunday''] then day = 0
     else if name \<in> set [''mon'', ''monday''] then day = 1
     else if name \<in> set [''tue'', ''tues'', ''tuesday''] then day = 2
     else if name \<in> set [''wed'', ''wednesday''] then day = 3
     else if name \<in> set [''thu'', ''thur'', ''thurs'', ''thursday''] then day = 4
     else if name \<in> set [''fri'', ''friday''] then day = 5
     else if name \<in> set [''sat'', ''saturday''] then day = 6
     else False)"

definition matches_day :: "RelayWindow \<Rightarrow> nat \<Rightarrow> bool" where
  "matches_day w day \<longleftrightarrow> list_ex (day_matches day) (days w)"

definition window_matches :: "RelayWindow \<Rightarrow> nat \<Rightarrow> nat \<Rightarrow> nat \<Rightarrow> bool" where
  "window_matches w day previous_day minute_of_day =
     (case parse_hhmm (win_start w) of None \<Rightarrow> False
      | Some start \<Rightarrow> (case parse_hhmm (win_end w) of None \<Rightarrow> False
        | Some finish \<Rightarrow>
            if start = finish then matches_day w day
            else if start < finish then matches_day w day \<and> start \<le> minute_of_day \<and> minute_of_day < finish
            else matches_day w day \<and> start \<le> minute_of_day \<or> matches_day w previous_day \<and> minute_of_day < finish))"

definition window_validate :: "RelayWindow \<Rightarrow> net_error + unit" where
  "window_validate w =
     and_then (check_that (days w \<noteq> []) (config_error ''relay.schedule.windows entries must include at least one day'')) (\<lambda>_.
     and_then (case find (\<lambda>d. \<not> is_valid_day d) (days w) of
         Some day \<Rightarrow> Inl (config_error (''relay.schedule.windows contains invalid day `'' @ day @ ''`''))
       | None \<Rightarrow> Inr ()) (\<lambda>_.
     and_then (check_that (parse_hhmm (win_start w) \<noteq> None)
       (config_error (''relay.schedule.windows contains invalid start time `'' @ win_start w @ ''`''))) (\<lambda>_.
     check_that (parse_hhmm (win_end w) \<noteq> None)
       (config_error (''relay.schedule.windows contains invalid end time `'' @ win_end w @ ''`'')))))"

primrec windows_validate :: "RelayWindow list \<Rightarrow> net_error + unit" where
  "windows_validate [] = Inr ()"
| "windows_validate (w # ws) = and_then (window_validate w) (\<lambda>_. windows_validate ws)"

definition schedule_validate :: "RelaySchedule \<Rightarrow> net_error + unit" where
  "schedule_validate s = windows_validate (windows s)"

definition is_open_at_utc :: "RelaySchedule \<Rightarrow> nat \<Rightarrow> nat \<Rightarrow> bool" where
  "is_open_at_utc s day minute_of_day =
     (if \<not> sched_enabled s then True
      else if windows s = [] \<or> 6 < day \<or> 1440 \<le> minute_of_day then False
      else let previous_day = (if day = 0 then 6 else day - 1)
           in list_ex (\<lambda>w. window_matches w day previous_day minute_of_day) (windows s))"

definition is_open_now_utc :: "RelaySchedule \<Rightarrow> nat option \<Rightarrow> bool" where
  "is_open_now_utc s now =
     (if \<not> sched_enabled s then True
      else case now of
        None \<Rightarrow> False
      | Some secs \<Rightarrow>
          let days_since_epoch = secs div 86400;
              minute_of_day = secs mod 86400 div 60;
              day = (days_since_epoch + 4) mod 7
          in is_open_at_utc s day minute_of_day)"

section \<open>Service limits and access\<close>

datatype RelayServiceHealth = HealthDisabled | HealthEnabled | ClosedBySchedule | AtCapacity | RateLimited | HealthError

primrec health_as_str :: "RelayServiceHealth \<Rightarrow> string" where
  "health_as_str HealthDisabled = ''disabled''"
| "health_as_str HealthEnabled = ''enabled''"
| "health_as_str ClosedBySchedule = ''closed_by_schedule''"
| "health_as_str AtCapacity = ''at_capacity''"
| "health_as_str RateLimited = ''rate_limited''"
| "health_as_str HealthError = ''error''"

datatype RelayAccess = AllowAll | AllowList | DenyList

record RelayServiceConfig =
  rs_enabled :: bool
  rs_access :: RelayAccess
  allow_peers :: "string list"
  deny_peers :: "string list"
  rs_max_reservations :: nat
  rs_max_reservations_per_peer :: nat
  reservation_duration_secs :: nat
  rs_max_circuits :: nat
  rs_max_circuits_per_peer :: nat
  max_circuit_duration_secs :: nat
  rs_max_circuit_bytes :: nat
  reservation_rate_per_peer_per_min :: nat
  reservation_rate_per_ip_per_min :: nat
  circuit_rate_per_peer_per_min :: nat
  circuit_rate_per_ip_per_min :: nat
  rs_schedule :: RelaySchedule

definition default_max_reservations :: nat where "default_max_reservations = 64"
definition default_max_reservations_per_peer :: nat where "default_max_reservations_per_peer = 1"
definition default_reservation_duration_secs :: nat where "default_reservation_duration_secs = 60 * 60"
definition default_max_circuits :: nat where "default_max_circuits = 128"
definition default_max_circuits_per_peer :: nat where "default_max_circuits_per_peer = 4"
definition default_max_circuit_duration_secs :: nat where "default_max_circuit_duration_secs = 2 * 60"
definition default_max_circuit_bytes :: nat where "default_max_circuit_bytes = 100 * 1024 * 1024"
definition default_reservation_rate_per_peer_per_min :: nat where "default_reservation_rate_per_peer_per_min = 4"
definition default_reservation_rate_per_ip_per_min :: nat where "default_reservation_rate_per_ip_per_min = 16"
definition default_circuit_rate_per_peer_per_min :: nat where "default_circuit_rate_per_peer_per_min = 16"
definition default_circuit_rate_per_ip_per_min :: nat where "default_circuit_rate_per_ip_per_min = 64"

definition relay_service_default :: RelayServiceConfig where
  "relay_service_default = \<lparr>rs_enabled = False, rs_access = AllowAll, allow_peers = [], deny_peers = [],
     rs_max_reservations = default_max_reservations,
     rs_max_reservations_per_peer = default_max_reservations_per_peer,
     reservation_duration_secs = default_reservation_duration_secs,
     rs_max_circuits = default_max_circuits,
     rs_max_circuits_per_peer = default_max_circuits_per_peer,
     max_circuit_duration_secs = default_max_circuit_duration_secs,
     rs_max_circuit_bytes = default_max_circuit_bytes,
     reservation_rate_per_peer_per_min = default_reservation_rate_per_peer_per_min,
     reservation_rate_per_ip_per_min = default_reservation_rate_per_ip_per_min,
     circuit_rate_per_peer_per_min = default_circuit_rate_per_peer_per_min,
     circuit_rate_per_ip_per_min = default_circuit_rate_per_ip_per_min,
     rs_schedule = relay_schedule_default\<rparr>"

primrec validate_peer_ids :: "'p ext \<Rightarrow> string \<Rightarrow> string list \<Rightarrow> net_error + unit" where
  "validate_peer_ids E field [] = Inr ()"
| "validate_peer_ids E field (raw # rest) = (case pid_parse E raw of
     Inl err \<Rightarrow> Inl (config_error (field @ '' contains invalid peer id `'' @ raw @ ''`: '' @ err))
   | Inr _ \<Rightarrow> validate_peer_ids E field rest)"

definition parse_ok :: "'p ext \<Rightarrow> string \<Rightarrow> 'p option" where
  "parse_ok E raw = (case pid_parse E raw of Inl _ \<Rightarrow> None | Inr p \<Rightarrow> Some p)"

definition parse_peer_ids :: "'p ext \<Rightarrow> string list \<Rightarrow> 'p list" where
  "parse_peer_ids E raws = List.map_filter (parse_ok E) raws"

definition contains_peer :: "'p ext \<Rightarrow> string list \<Rightarrow> 'p \<Rightarrow> bool" where
  "contains_peer E raws peer \<longleftrightarrow> list_ex (\<lambda>raw. parse_ok E raw = Some peer) raws"

definition relay_limit_guards :: "RelayServiceConfig \<Rightarrow> (bool \<times> net_error) list" where
  "relay_limit_guards cfg =
     [(rs_max_reservations cfg = 0, config_error ''relay.max_reservations must be at least 1''),
      (rs_max_reservations_per_peer cfg = 0, config_error ''relay.max_reservations_per_peer must be at least 1''),
      (rs_max_reservations cfg < rs_max_reservations_per_peer cfg,
         config_error ''relay.max_reservations_per_peer must be <= relay.max_reservations''),
      (rs_max_circuits cfg = 0, config_error ''relay.max_circuits must be at least 1''),
      (rs_max_circuits_per_peer cfg = 0, config_error ''relay.max_circuits_per_peer must be at least 1''),
      (rs_max_circuits cfg < rs_max_circuits_per_peer cfg,
         config_error ''relay.max_circuits_per_peer must be <= relay.max_circuits''),
      (reservation_duration_secs cfg = 0, config_error ''relay.reservation_duration_secs must be at least 1''),
      (max_circuit_duration_secs cfg = 0, config_error ''relay.max_circuit_duration_secs must be at least 1''),
      (rs_max_circuit_bytes cfg = 0, config_error ''relay.max_circuit_bytes must be at least 1'')]"

definition relay_service_validate :: "'p ext \<Rightarrow> RelayServiceConfig \<Rightarrow> net_error + unit" where
  "relay_service_validate E cfg =
     and_then (validate_peer_ids E ''relay.allow_peers'' (allow_peers cfg)) (\<lambda>_.
     and_then (validate_peer_ids E ''relay.deny_peers'' (deny_peers cfg)) (\<lambda>_.
     and_then (schedule_validate (rs_schedule cfg)) (\<lambda>_.
     first_error (relay_limit_guards cfg))))"

definition relay_is_active_now :: "RelayServiceConfig \<Rightarrow> nat option \<Rightarrow> bool" where
  "relay_is_active_now cfg now \<longleftrightarrow> rs_enabled cfg \<and> is_open_now_utc (rs_schedule cfg) now"

definition health_now :: "RelayServiceConfig \<Rightarrow> nat option \<Rightarrow> RelayServiceHealth" where
  "health_now cfg now =
     (if \<not> rs_enabled cfg then HealthDisabled
      else if \<not> is_open_now_utc (rs_schedule cfg) now then ClosedBySchedule
      else HealthEnabled)"

definition denied_peer_ids :: "'p ext \<Rightarrow> RelayServiceConfig \<Rightarrow> 'p list" where
  "denied_peer_ids E cfg = parse_peer_ids E (deny_peers cfg)"

definition allowed_peer_ids :: "'p ext \<Rightarrow> RelayServiceConfig \<Rightarrow> 'p list" where
  "allowed_peer_ids E cfg = parse_peer_ids E (allow_peers cfg)"

definition allows_peer :: "'p ext \<Rightarrow> RelayServiceConfig \<Rightarrow> 'p \<Rightarrow> bool" where
  "allows_peer E cfg peer =
     (if contains_peer E (deny_peers cfg) peer then False
      else case rs_access cfg of
        AllowAll \<Rightarrow> True
      | DenyList \<Rightarrow> True
      | AllowList \<Rightarrow> contains_peer E (allow_peers cfg) peer)"

definition classify_relay_denial :: "string \<Rightarrow> RelayServiceHealth" where
  "classify_relay_denial status_debug = (let lower = to_ascii_lowercase status_debug in
     if contains_str ''rate'' lower \<or> contains_str ''thrott'' lower then RateLimited
     else if contains_str ''resource'' lower \<or> contains_str ''limit'' lower \<or> contains_str ''capacity'' lower
        \<or> contains_str ''too'' lower \<or> contains_str ''no reservation'' lower then AtCapacity
     else HealthError)"

section \<open>The mediator\<close>

record MediatorConfig =
  med_enabled :: bool
  advertise_for_dcutr :: bool
  allow_reservations :: bool
  allow_circuits :: bool
  require_authenticated_peers :: bool
  max_mediated_peers :: nat
  med_max_reservations :: nat
  med_max_circuits :: nat

definition mediator_default :: MediatorConfig where
  "mediator_default = \<lparr>med_enabled = False, advertise_for_dcutr = True, allow_reservations = True,
     allow_circuits = True, require_authenticated_peers = False, max_mediated_peers = 64,
     med_max_reservations = 64, med_max_circuits = 128\<rparr>"

definition mediator_guards :: "MediatorConfig \<Rightarrow> RelayServiceConfig \<Rightarrow> (bool \<times> net_error) list" where
  "mediator_guards med relay =
     [(\<not> allow_reservations med, config_error_at ''<mediator>''
         ''mediator.allow_reservations must be true while mediator.enabled is true''),
      (\<not> allow_circuits med, config_error_at ''<mediator>''
         ''mediator.allow_circuits must be true while mediator.enabled is true''),
      (max_mediated_peers med = 0, config_error_at ''<mediator>'' ''mediator.max_mediated_peers must be at least 1''),
      (med_max_reservations med = 0, config_error_at ''<mediator>'' ''mediator.max_reservations must be at least 1''),
      (med_max_circuits med = 0, config_error_at ''<mediator>'' ''mediator.max_circuits must be at least 1''),
      (require_authenticated_peers med \<and> rs_access relay \<noteq> AllowList, config_error_at ''<mediator>''
         ''mediator.require_authenticated_peers requires relay.access = allow_list''),
      (require_authenticated_peers med \<and> allow_peers relay = [], config_error_at ''<mediator>''
         ''mediator.require_authenticated_peers requires relay.allow_peers to contain at least one trusted peer'')]"

definition mediator_validate :: "MediatorConfig \<Rightarrow> RelayServiceConfig \<Rightarrow> net_error + unit" where
  "mediator_validate med relay = (if \<not> med_enabled med then Inr () else first_error (mediator_guards med relay))"

definition mediator_is_active_now :: "MediatorConfig \<Rightarrow> RelayServiceConfig \<Rightarrow> nat option \<Rightarrow> bool" where
  "mediator_is_active_now med relay now \<longleftrightarrow> med_enabled med \<and> relay_is_active_now relay now"

definition apply_to_relay :: "MediatorConfig \<Rightarrow> RelayServiceConfig \<Rightarrow> RelayServiceConfig" where
  "apply_to_relay med relay = (if \<not> med_enabled med then relay else
     relay\<lparr>rs_enabled := True,
           rs_max_reservations := min (rs_max_reservations relay) (med_max_reservations med),
           rs_max_circuits := min (rs_max_circuits relay) (med_max_circuits med),
           rs_max_reservations_per_peer := max (min (rs_max_reservations_per_peer relay) (max_mediated_peers med)) 1,
           rs_max_circuits_per_peer := max (min (rs_max_circuits_per_peer relay) (max_mediated_peers med)) 1\<rparr>)"

section \<open>When the relay is open\<close>

text \<open>The reference: minutes of the week, counted from Sunday 00:00, modulo the week. A window with
  two different times is open from its start time on each listed day for the time up to its end time,
  which may be on the next day; with equal times it is open on the whole of each listed day.\<close>

definition in_window :: "nat \<Rightarrow> nat \<Rightarrow> nat \<Rightarrow> nat \<Rightarrow> nat \<Rightarrow> bool" where
  "in_window start finish listed day minute \<longleftrightarrow>
     (if start = finish then day = listed
      else (int (day * 1440 + minute) - int (listed * 1440 + start)) mod 10080 < (int finish - int start) mod 1440)"

lemma mod_near: "- N \<le> x \<Longrightarrow> x < N \<Longrightarrow> x mod N = (if x < 0 then x + N else x)" for x N :: int
  using mod_pos_pos_trivial [of x N] mod_pos_pos_trivial [of "x + N" N] by simp

lemma parse_hhmm_bound: "parse_hhmm s = Some t \<Longrightarrow> t < 1440"
  by (auto simp: parse_hhmm_def Option.bind_eq_Some_conv split: list.splits if_splits)

lemma week_distance:
  fixes d l m s :: int
  assumes "0 \<le> d" "d \<le> 6" "0 \<le> l" "l \<le> 6" "0 \<le> m" "m < 1440" "0 \<le> s" "s < 1440"
  shows "(d * 1440 + m - (l * 1440 + s)) mod 10080 =
    (if d * 1440 + m < l * 1440 + s then d * 1440 + m - (l * 1440 + s) + 10080 else d * 1440 + m - (l * 1440 + s))"
  using assms by (subst mod_near) auto

lemma in_window_same_day:
  assumes "start < finish" "finish < 1440" "day \<le> 6" "listed \<le> 6" "minute < 1440"
  shows "in_window start finish listed day minute \<longleftrightarrow> listed = day \<and> start \<le> minute \<and> minute < finish"
proof -
  have "(int finish - int start) mod 1440 = int finish - int start" using assms by simp
  moreover have "(int day * 1440 + int minute - (int listed * 1440 + int start)) mod 10080 < int finish - int start
      \<longleftrightarrow> listed = day \<and> start \<le> minute \<and> minute < finish"
  proof -
    note distance = week_distance [of "int day" "int listed" "int minute" "int start"]
    consider "listed = day" | "listed < day" | "day < listed" by linarith
    then show ?thesis using assms by cases (subst distance; simp; linarith)+
  qed
  ultimately show ?thesis using assms(1) by (simp add: in_window_def)
qed

lemma in_window_next_day:
  assumes "finish < start" "start < 1440" "day \<le> 6" "listed \<le> 6" "minute < 1440"
  shows "in_window start finish listed day minute \<longleftrightarrow>
    listed = day \<and> start \<le> minute \<or> listed = (if day = 0 then 6 else day - 1) \<and> minute < finish"
proof -
  have "(int finish - int start) mod 1440 = int finish - int start + 1440"
    using assms mod_near [of 1440 "int finish - int start"] by simp
  moreover have "(int day * 1440 + int minute - (int listed * 1440 + int start)) mod 10080 < int finish - int start + 1440
      \<longleftrightarrow> listed = day \<and> start \<le> minute \<or> listed = (if day = 0 then 6 else day - 1) \<and> minute < finish"
  proof -
    note distance = week_distance [of "int day" "int listed" "int minute" "int start"]
    consider "listed = day" | "Suc listed = day" | "Suc listed < day" | "day = 0" "listed = 6" | "day < listed" "day = 0 \<longrightarrow> listed < 6"
      using assms(3,4) by linarith
    then show ?thesis using assms by cases (subst distance; simp; linarith)+
  qed
  ultimately show ?thesis using assms(1) by (simp add: in_window_def)
qed

definition open_by_window :: "RelayWindow \<Rightarrow> nat \<Rightarrow> nat \<Rightarrow> bool" where
  "open_by_window w day minute \<longleftrightarrow> (\<exists>start finish listed. parse_hhmm (win_start w) = Some start
     \<and> parse_hhmm (win_end w) = Some finish \<and> listed \<le> 6 \<and> matches_day w listed \<and> in_window start finish listed day minute)"

lemma window_matches_iff:
  assumes "day \<le> 6" and "minute < 1440"
  shows "window_matches w day (if day = 0 then 6 else day - 1) minute \<longleftrightarrow> open_by_window w day minute"
proof (cases "parse_hhmm (win_start w)"; cases "parse_hhmm (win_end w)")
  fix start finish assume times: "parse_hhmm (win_start w) = Some start" "parse_hhmm (win_end w) = Some finish"
  note bounds = parse_hhmm_bound [OF times(1)] parse_hhmm_bound [OF times(2)]
  have spec: "open_by_window w day minute \<longleftrightarrow> (\<exists>listed. listed \<le> 6 \<and> matches_day w listed \<and> in_window start finish listed day minute)"
    by (simp add: open_by_window_def times)
  consider "start = finish" | "start < finish" | "finish < start" by linarith
  then show ?thesis
  proof cases
    case 1
    then show ?thesis using assms unfolding spec by (simp add: window_matches_def times in_window_def)
  next
    case 2
    then show ?thesis using assms unfolding spec
      by (simp add: window_matches_def times in_window_same_day [OF 2 bounds(2) assms(1) _ assms(2)] cong: conj_cong)
  next
    case 3
    have "(if day = 0 then 6 else day - 1) \<le> 6" using assms by auto
    then show ?thesis using 3 assms unfolding spec
      by (auto simp: window_matches_def times in_window_next_day [OF 3 bounds(1) assms(1) _ assms(2)] cong: conj_cong)
  qed
qed (simp_all add: window_matches_def open_by_window_def)

text \<open>C12. Opening times. At a minute of the week, a scheduled relay is open exactly when one of its
  windows is open by the reference: within the window's length of its start on a listed day, in time
  modulo the week, so that a window over midnight continues on the next day and Saturday night into
  Sunday.\<close>

theorem relay_schedule_weekly:
  assumes "sched_enabled s" and "day \<le> 6" and "minute < 1440"
  shows "is_open_at_utc s day minute \<longleftrightarrow> list_ex (\<lambda>w. open_by_window w day minute) (windows s)"
  using assms window_matches_iff [OF assms(2,3)]
  by (auto simp: is_open_at_utc_def Let_def list_ex_iff)

theorem relay_schedule_weekly_witness:
  "is_open_at_utc \<lparr>sched_enabled = True, windows = [\<lparr>days = [''sat''], win_start = ''22:00'', win_end = ''02:00''\<rparr>]\<rparr> 0 60
   \<and> list_ex (\<lambda>w. open_by_window w 0 60) [\<lparr>days = [''sat''], win_start = ''22:00'', win_end = ''02:00''\<rparr>]"
  (is "is_open_at_utc ?s 0 60 \<and> _")
proof -
  have "trim ''sat'' = ''sat''" by (rule trim_visible) (simp add: visible_char_def)
  moreover have "parse_hhmm ''22:00'' = Some 1320" "parse_hhmm ''02:00'' = Some 120"
    by (simp_all add: parse_hhmm_def parse_unsigned_def is_digit_def read_digits.simps)
  ultimately have "is_open_at_utc ?s 0 60"
    by (simp add: is_open_at_utc_def window_matches_def matches_day_def day_matches_def to_ascii_lowercase_def)
  then show ?thesis using relay_schedule_weekly [of ?s 0 60] by simp
qed

section \<open>Validation\<close>

lemma validate_peer_ids_Inr: "validate_peer_ids E field raws = Inr u \<longleftrightarrow> list_all (\<lambda>raw. parse_ok E raw \<noteq> None) raws"
  by (induction raws) (auto simp: parse_ok_def split: sum.split)

lemma windows_validate_Inr: "windows_validate ws = Inr u \<longleftrightarrow> list_all (\<lambda>w. window_validate w = Inr ()) ws"
  by (induction ws) auto

lemma window_validate_Inr:
  "window_validate w = Inr u \<longleftrightarrow> days w \<noteq> [] \<and> list_all is_valid_day (days w)
     \<and> parse_hhmm (win_start w) \<noteq> None \<and> parse_hhmm (win_end w) \<noteq> None"
proof (cases "find (\<lambda>d. \<not> is_valid_day d) (days w)")
  case None
  then have "list_all is_valid_day (days w)" by (auto simp: find_None_iff list_all_iff)
  with None show ?thesis by (auto simp: window_validate_def)
next
  case (Some d)
  then have "\<not> is_valid_day d" and "d \<in> set (days w)" by (auto simp: find_Some_iff)
  with Some show ?thesis by (auto simp: window_validate_def list_all_iff)
qed

definition relay_limits_ok :: "RelayServiceConfig \<Rightarrow> bool" where
  "relay_limits_ok cfg \<longleftrightarrow> 1 \<le> rs_max_reservations_per_peer cfg \<and> rs_max_reservations_per_peer cfg \<le> rs_max_reservations cfg
     \<and> 1 \<le> rs_max_circuits_per_peer cfg \<and> rs_max_circuits_per_peer cfg \<le> rs_max_circuits cfg
     \<and> 1 \<le> reservation_duration_secs cfg \<and> 1 \<le> max_circuit_duration_secs cfg \<and> 1 \<le> rs_max_circuit_bytes cfg"

definition relay_lists_ok :: "'p ext \<Rightarrow> RelayServiceConfig \<Rightarrow> bool" where
  "relay_lists_ok E cfg \<longleftrightarrow> list_all (\<lambda>raw. parse_ok E raw \<noteq> None) (allow_peers cfg @ deny_peers cfg)
     \<and> schedule_validate (rs_schedule cfg) = Inr ()"

lemma relay_service_validate_iff:
  "relay_service_validate E cfg = Inr () \<longleftrightarrow> relay_lists_ok E cfg \<and> relay_limits_ok cfg"
proof -
  have "first_error (relay_limit_guards cfg) = Inr () \<longleftrightarrow> relay_limits_ok cfg"
    unfolding first_error_ok by (auto simp: relay_limit_guards_def relay_limits_ok_def)
  then show ?thesis by (auto simp: relay_service_validate_def validate_peer_ids_Inr relay_lists_ok_def)
qed

lemma allows_peer_iff:
  "allows_peer E cfg peer \<longleftrightarrow> peer \<notin> set (denied_peer_ids E cfg)
     \<and> (rs_access cfg = AllowList \<longrightarrow> peer \<in> set (allowed_peer_ids E cfg))"
proof -
  have "contains_peer E raws peer \<longleftrightarrow> peer \<in> set (parse_peer_ids E raws)" for raws
    by (induction raws) (auto simp: contains_peer_def parse_peer_ids_def List.map_filter_def split: option.splits)
  then show ?thesis by (auto simp: allows_peer_def denied_peer_ids_def allowed_peer_ids_def split: RelayAccess.split)
qed

text \<open>The status libp2p reports for a circuit to a peer without reservation is classified as an error
  of the service, not as a matter of capacity.\<close>

lemma no_reservation_is_error: "classify_relay_denial ''NoReservation'' = HealthError"
  by code_simp

section \<open>The mediator's limits\<close>

lemma mediator_validate_Inr:
  "med_enabled med \<Longrightarrow> mediator_validate med relay = Inr () \<Longrightarrow>
     1 \<le> max_mediated_peers med \<and> 1 \<le> med_max_reservations med \<and> 1 \<le> med_max_circuits med"
  unfolding mediator_validate_def by (auto simp: first_error_ok [of "mediator_guards med relay"]) (auto simp: mediator_guards_def)

text \<open>Mapping a mediator onto the relay service. From a valid relay configuration and a valid
  mediator, the relay limits the node runs with never exceed either of the two, the service is on, the
  access rules and the schedule are those of the relay, and the resulting configuration passes
  validation exactly when the limits per peer still fit the mediator's totals.\<close>

theorem mediator_limits:
  assumes "med_enabled med" and "relay_service_validate E relay = Inr ()" and "mediator_validate med relay = Inr ()"
  defines "relay1 \<equiv> apply_to_relay med relay"
  shows "rs_max_reservations relay1 = min (rs_max_reservations relay) (med_max_reservations med)
    \<and> rs_max_circuits relay1 = min (rs_max_circuits relay) (med_max_circuits med)
    \<and> rs_enabled relay1 \<and> (\<forall>peer. allows_peer E relay1 peer = allows_peer E relay peer)
    \<and> (\<forall>now. is_open_now_utc (rs_schedule relay1) now = is_open_now_utc (rs_schedule relay) now)
    \<and> (relay_service_validate E relay1 = Inr () \<longleftrightarrow>
        min (rs_max_reservations_per_peer relay) (max_mediated_peers med) \<le> med_max_reservations med
        \<and> min (rs_max_circuits_per_peer relay) (max_mediated_peers med) \<le> med_max_circuits med)"
proof -
  have "relay_lists_ok E relay" "relay_limits_ok relay" using assms(2) by (simp_all add: relay_service_validate_iff)
  moreover have "relay_lists_ok E relay1 = relay_lists_ok E relay" using assms(1) by (simp add: relay1_def apply_to_relay_def relay_lists_ok_def)
  moreover have "allows_peer E relay1 peer = allows_peer E relay peer" for peer
    using assms(1) by (simp add: relay1_def apply_to_relay_def allows_peer_def split: RelayAccess.split)
  ultimately show ?thesis using mediator_validate_Inr [OF assms(1,3)] assms(1)
    by (auto simp: relay1_def apply_to_relay_def relay_service_validate_iff relay_limits_ok_def)
qed

lemmas relay_default_defs = relay_service_validate_iff relay_lists_ok_def relay_limits_ok_def relay_service_default_def
  schedule_validate_def relay_schedule_default_def default_max_reservations_def default_max_reservations_per_peer_def
  default_reservation_duration_secs_def default_max_circuits_def default_max_circuits_per_peer_def
  default_max_circuit_duration_secs_def default_max_circuit_bytes_def

lemma relay_service_default_valid: "relay_service_validate E relay_service_default = Inr ()"
  by (simp add: relay_default_defs)

lemma demo_mediator_valid:
  "1 \<le> n \<Longrightarrow> mediator_validate (mediator_default\<lparr>med_enabled := True, med_max_circuits := n\<rparr>) relay_service_default = Inr ()"
  by (simp add: mediator_validate_def mediator_guards_def mediator_default_def)

theorem mediator_limits_witness:
  "relay_service_validate demo_ext (apply_to_relay (mediator_default\<lparr>med_enabled := True, med_max_circuits := 10\<rparr>) relay_service_default) = Inr ()"
  (is "relay_service_validate demo_ext (apply_to_relay ?med _) = _")
proof -
  have "med_enabled ?med" by simp
  from mediator_limits [OF this relay_service_default_valid [of demo_ext] demo_mediator_valid [of 10]]
  show ?thesis by (simp add: mediator_default_def relay_service_default_def default_max_reservations_per_peer_def default_max_circuits_per_peer_def)
qed

text \<open>A valid relay configuration and a valid mediator whose combination validation refuses: the
  mediator's two circuits in total are fewer than the four circuits per peer of the relay.\<close>

lemma mediator_combination_refused:
  "\<exists>med. med_enabled med \<and> mediator_validate med relay_service_default = Inr ()
     \<and> relay_service_validate demo_ext (apply_to_relay med relay_service_default) \<noteq> Inr ()"
proof (intro exI conjI)
  let ?med = "mediator_default\<lparr>med_enabled := True, med_max_circuits := 2\<rparr>"
  show "med_enabled ?med" by simp
  show "mediator_validate ?med relay_service_default = Inr ()" by (rule demo_mediator_valid) simp
  show "relay_service_validate demo_ext (apply_to_relay ?med relay_service_default) \<noteq> Inr ()"
    by (simp add: relay_default_defs apply_to_relay_def mediator_default_def)
qed

end
