(* ===== verification/Relay_Metering.thy ===== *)
theory Relay_Metering
  imports Externals
begin

text \<open>
  The accounting of relayed traffic. \<open>external/libp2p-relay/src/metering.rs\<close>: the counters of one
  circuit. \<open>external/libp2p-relay/src/copy_future.rs\<close>: the loop that forwards the bytes, counts them
  and enforces the quota. \<open>connectivity/relay/metering.rs\<close>: the meter that turns the counters into
  records and totals. A counter is shared between the forwarding loop and the meter; the store maps
  the handle of a counter to its value. Results of the underlying streams are arguments.
\<close>

section \<open>Counters\<close>

record CircuitBytes =
  src_to_dst :: nat
  dst_to_src :: nat

definition bytes_total :: "CircuitBytes \<Rightarrow> nat" where
  "bytes_total b = sat_add 64 (src_to_dst b) (dst_to_src b)"

definition usage_default :: CircuitBytes where
  "usage_default = \<lparr>src_to_dst = 0, dst_to_src = 0\<rparr>"

type_synonym usage_store = "nat \<Rightarrow> CircuitBytes"

definition usage_snapshot :: "usage_store \<Rightarrow> nat \<Rightarrow> CircuitBytes" where
  "usage_snapshot U h = \<lparr>src_to_dst = src_to_dst (U h), dst_to_src = dst_to_src (U h)\<rparr>"

definition record_src_to_dst :: "nat \<Rightarrow> CircuitBytes \<Rightarrow> CircuitBytes" where
  "record_src_to_dst n u = u\<lparr>src_to_dst := sat_add 64 (src_to_dst u) n\<rparr>"

definition record_dst_to_src :: "nat \<Rightarrow> CircuitBytes \<Rightarrow> CircuitBytes" where
  "record_dst_to_src n u = u\<lparr>dst_to_src := sat_add 64 (dst_to_src u) n\<rparr>"

section \<open>Forwarding\<close>

datatype io_kind = TimedOut | ConnectionAborted | ConnectionReset | BrokenPipe | UnexpectedEof | WriteZero | OtherKind

record io_error =
  err_kind :: io_kind
  err_text :: string

definition MAX_CIRCUIT_BYTES_REACHED :: string where
  "MAX_CIRCUIT_BYTES_REACHED = ''Max circuit bytes reached.''"

definition timed_out_error :: io_error where
  "timed_out_error = \<lparr>err_kind = TimedOut, err_text = ''timed out''\<rparr>"

definition write_zero_error :: io_error where
  "write_zero_error = \<lparr>err_kind = WriteZero, err_text = ''write zero''\<rparr>"

definition quota_error :: io_error where
  "quota_error = \<lparr>err_kind = OtherKind, err_text = MAX_CIRCUIT_BYTES_REACHED\<rparr>"

datatype 'a poll = Pending | Ready "io_error + 'a"

text \<open>What the streams of one direction answer in one turn: the bytes buffered from the source, and
  the flush, close and write of the destination.\<close>

record io_turn =
  io_fill :: "nat poll"
  io_flush :: "unit poll"
  io_close :: "unit poll"
  io_write :: "nat poll"

definition forward_data :: "io_turn \<Rightarrow> nat poll" where
  "forward_data t = (case io_fill t of
     Ready (Inl e) \<Rightarrow> Ready (Inl e)
   | Pending \<Rightarrow> (case io_flush t of Ready (Inl e) \<Rightarrow> Ready (Inl e) | _ \<Rightarrow> Pending)
   | Ready (Inr buffered) \<Rightarrow>
       if buffered = 0
       then (case io_flush t of
          Pending \<Rightarrow> Pending
        | Ready (Inl e) \<Rightarrow> Ready (Inl e)
        | Ready (Inr _) \<Rightarrow> (case io_close t of
            Pending \<Rightarrow> Pending | Ready (Inl e) \<Rightarrow> Ready (Inl e) | Ready (Inr _) \<Rightarrow> Ready (Inr 0)))
       else (case io_write t of
          Pending \<Rightarrow> Pending
        | Ready (Inl e) \<Rightarrow> Ready (Inl e)
        | Ready (Inr i) \<Rightarrow> if i = 0 then Ready (Inl write_zero_error) else Ready (Inr i)))"

text \<open>One poll of the copy future. Its loop takes a turn of both directions at a time; turns beyond
  the given ones are pending in both directions.\<close>

fun copy_loop :: "nat \<Rightarrow> CircuitBytes \<Rightarrow> (io_turn \<times> io_turn) list \<Rightarrow> unit poll \<times> CircuitBytes" where
  "copy_loop max_circuit_bytes usage turns =
     (if 0 < max_circuit_bytes \<and> max_circuit_bytes < bytes_total usage then (Ready (Inl quota_error), usage)
      else case turns of
        [] \<Rightarrow> (Pending, usage)
      | (src, dst) # rest \<Rightarrow> (case forward_data src of
          Ready (Inl e) \<Rightarrow> (Ready (Inl e), usage)
        | src_status \<Rightarrow>
            let src_bytes = (case src_status of Ready (Inr i) \<Rightarrow> i | _ \<Rightarrow> 0);
                usage1 = (if 0 < src_bytes then record_src_to_dst src_bytes usage else usage)
            in case forward_data dst of
                 Ready (Inl e) \<Rightarrow> (Ready (Inl e), usage1)
               | dst_status \<Rightarrow>
                   let dst_bytes = (case dst_status of Ready (Inr i) \<Rightarrow> i | _ \<Rightarrow> 0);
                       usage2 = (if 0 < dst_bytes then record_dst_to_src dst_bytes usage1 else usage1)
                   in if src_status = Ready (Inr 0) \<and> dst_status = Ready (Inr 0) then (Ready (Inr ()), usage2)
                      else if 0 < src_bytes \<or> 0 < dst_bytes then copy_loop max_circuit_bytes usage2 rest
                      else (Pending, usage2)))"

declare copy_loop.simps [simp del]

definition copy_poll :: "nat \<Rightarrow> bool \<Rightarrow> CircuitBytes \<Rightarrow> (io_turn \<times> io_turn) list \<Rightarrow> unit poll \<times> CircuitBytes" where
  "copy_poll max_circuit_bytes timer_fired usage turns = (case copy_loop max_circuit_bytes usage turns of
     (Pending, usage) \<Rightarrow> if timer_fired then (Ready (Inl timed_out_error), usage) else (Pending, usage)
   | done1 \<Rightarrow> done1)"

section \<open>Records and totals\<close>

definition RECENT_CLOSED_CIRCUITS :: nat where "RECENT_CLOSED_CIRCUITS = 256"

datatype RelayCircuitCloseReason = Completed | ByteLimit | DurationLimit | PeerDisconnected | TransportError string

definition from_error :: "io_error option \<Rightarrow> RelayCircuitCloseReason" where
  "from_error error = (case error of
     None \<Rightarrow> Completed
   | Some e \<Rightarrow>
       if err_text e = MAX_CIRCUIT_BYTES_REACHED then ByteLimit
       else (case err_kind e of
          TimedOut \<Rightarrow> DurationLimit
        | ConnectionAborted \<Rightarrow> PeerDisconnected
        | ConnectionReset \<Rightarrow> PeerDisconnected
        | BrokenPipe \<Rightarrow> PeerDisconnected
        | UnexpectedEof \<Rightarrow> PeerDisconnected
        | _ \<Rightarrow> TransportError (err_text e)))"

record RelayCircuitUsage =
  ru_circuit_id :: nat
  ru_src_peer_id :: string
  ru_dst_peer_id :: string
  started_at_ms :: nat
  ended_at_ms :: "nat option"
  bytes_src_to_dst :: nat
  bytes_dst_to_src :: nat
  close_reason :: "RelayCircuitCloseReason option"

definition total_transit_bytes :: "RelayCircuitUsage \<Rightarrow> nat" where
  "total_transit_bytes r = sat_add 64 (bytes_src_to_dst r) (bytes_dst_to_src r)"

definition duration_ms :: "RelayCircuitUsage \<Rightarrow> nat option" where
  "duration_ms r = map_option (\<lambda>ended. ended - started_at_ms r) (ended_at_ms r)"

definition with_bytes :: "CircuitBytes \<Rightarrow> RelayCircuitUsage \<Rightarrow> RelayCircuitUsage" where
  "with_bytes b r = r\<lparr>bytes_src_to_dst := src_to_dst b, bytes_dst_to_src := dst_to_src b\<rparr>"

record ActiveCircuit =
  ac_record :: RelayCircuitUsage
  ac_usage :: nat
  ac_reported :: CircuitBytes

record RelayMeter =
  m_active :: "(nat, ActiveCircuit) fmap"
  closed_src_to_dst :: nat
  closed_dst_to_src :: nat
  closed_circuits :: nat
  recent_closed :: "RelayCircuitUsage list"

definition relay_meter_default :: RelayMeter where
  "relay_meter_default = \<lparr>m_active = fmempty, closed_src_to_dst = 0, closed_dst_to_src = 0, closed_circuits = 0, recent_closed = []\<rparr>"

definition meter_open :: "'p ext \<Rightarrow> usage_store \<Rightarrow> nat \<Rightarrow> 'p \<Rightarrow> 'p \<Rightarrow> nat \<Rightarrow> nat \<Rightarrow> RelayMeter \<Rightarrow> RelayCircuitUsage \<times> RelayMeter" where
  "meter_open E U circuit_id src dst usage now_ms m =
     (let record1 = with_bytes (usage_snapshot U usage) \<lparr>ru_circuit_id = circuit_id, ru_src_peer_id = pid_to_string E src,
            ru_dst_peer_id = pid_to_string E dst, started_at_ms = now_ms, ended_at_ms = None,
            bytes_src_to_dst = 0, bytes_dst_to_src = 0, close_reason = None\<rparr>;
          reported = usage_snapshot U usage
      in (record1, m\<lparr>m_active := fmupd circuit_id \<lparr>ac_record = record1, ac_usage = usage, ac_reported = reported\<rparr> (m_active m)\<rparr>))"

definition meter_close :: "'p ext \<Rightarrow> nat \<Rightarrow> 'p \<Rightarrow> 'p \<Rightarrow> CircuitBytes \<Rightarrow> io_error option \<Rightarrow> nat \<Rightarrow> RelayMeter \<Rightarrow> RelayCircuitUsage \<times> RelayMeter" where
  "meter_close E circuit_id src dst bytes error now_ms m =
     (let started = (case fmlookup (m_active m) circuit_id of None \<Rightarrow> now_ms | Some active \<Rightarrow> started_at_ms (ac_record active));
          record1 = \<lparr>ru_circuit_id = circuit_id, ru_src_peer_id = pid_to_string E src, ru_dst_peer_id = pid_to_string E dst,
            started_at_ms = started, ended_at_ms = Some now_ms, bytes_src_to_dst = src_to_dst bytes,
            bytes_dst_to_src = dst_to_src bytes, close_reason = Some (from_error error)\<rparr>;
          recent = (if length (recent_closed m) = RECENT_CLOSED_CIRCUITS then tl (recent_closed m) else recent_closed m)
      in (record1, \<lparr>m_active = fmdrop circuit_id (m_active m),
            closed_src_to_dst = sat_add 64 (closed_src_to_dst m) (src_to_dst bytes),
            closed_dst_to_src = sat_add 64 (closed_dst_to_src m) (dst_to_src bytes),
            closed_circuits = sat_add 64 (closed_circuits m) 1,
            recent_closed = recent @ [record1]\<rparr>))"

text \<open>The changed circuits, in the order of their identifiers.\<close>

definition circuit_changed :: "usage_store \<Rightarrow> ActiveCircuit \<Rightarrow> bool" where
  "circuit_changed U active \<longleftrightarrow> usage_snapshot U (ac_usage active) \<noteq> ac_reported active"

definition take_changed :: "usage_store \<Rightarrow> RelayMeter \<Rightarrow> RelayCircuitUsage list \<times> RelayMeter" where
  "take_changed U m =
     (let ids = sorted_list_of_fset (fmdom (m_active m));
          circuits = map (\<lambda>i. the (fmlookup (m_active m) i)) ids;
          changed = map (\<lambda>active. with_bytes (usage_snapshot U (ac_usage active)) (ac_record active)) (filter (circuit_changed U) circuits)
      in (changed, m\<lparr>m_active := fmmap (\<lambda>active. if circuit_changed U active
            then active\<lparr>ac_reported := usage_snapshot U (ac_usage active)\<rparr> else active) (m_active m)\<rparr>))"

definition add_live :: "usage_store \<Rightarrow> ActiveCircuit \<Rightarrow> CircuitBytes \<Rightarrow> CircuitBytes" where
  "add_live U active totals1 = (let live = usage_snapshot U (ac_usage active) in
     \<lparr>src_to_dst = sat_add 64 (src_to_dst totals1) (src_to_dst live), dst_to_src = sat_add 64 (dst_to_src totals1) (dst_to_src live)\<rparr>)"

definition meter_totals :: "usage_store \<Rightarrow> RelayMeter \<Rightarrow> CircuitBytes" where
  "meter_totals U m = fold (\<lambda>i. add_live U (the (fmlookup (m_active m) i))) (sorted_list_of_fset (fmdom (m_active m)))
     \<lparr>src_to_dst = closed_src_to_dst m, dst_to_src = closed_dst_to_src m\<rparr>"

definition meter_active_circuits :: "usage_store \<Rightarrow> RelayMeter \<Rightarrow> RelayCircuitUsage list" where
  "meter_active_circuits U m = map (\<lambda>i. let active = the (fmlookup (m_active m) i)
     in with_bytes (usage_snapshot U (ac_usage active)) (ac_record active)) (sorted_list_of_fset (fmdom (m_active m)))"

section \<open>The quota\<close>

text \<open>No direction forwards more than a given number of bytes in a turn: the size of its buffer.\<close>

definition turn_bytes :: "io_turn \<Rightarrow> nat" where
  "turn_bytes t = (case forward_data t of Ready (Inr i) \<Rightarrow> i | _ \<Rightarrow> 0)"

definition turns_within :: "nat \<Rightarrow> (io_turn \<times> io_turn) list \<Rightarrow> bool" where
  "turns_within chunk turns \<longleftrightarrow> list_all (\<lambda>(src, dst). turn_bytes src \<le> chunk \<and> turn_bytes dst \<le> chunk) turns"

lemma bytes_total_record:
  "bytes_total (record_src_to_dst n u) \<le> bytes_total u + n" "bytes_total (record_dst_to_src n u) \<le> bytes_total u + n"
  by (auto simp: bytes_total_def record_src_to_dst_def record_dst_to_src_def sat_add_def)

lemma copy_loop_stop: "0 < limit \<Longrightarrow> limit < bytes_total u \<Longrightarrow> copy_loop limit u turns = (Ready (Inl quota_error), u)"
  by (subst copy_loop.simps) simp

text \<open>The outcome of one turn below the quota.\<close>

lemma copy_loop_turn:
  assumes "\<not> (0 < limit \<and> limit < bytes_total u)"
  obtains (stream_error) e u1 where "copy_loop limit u ((src, dst) # rest) = (Ready (Inl e), u1)" "bytes_total u1 \<le> bytes_total u + turn_bytes src"
  | (finished) "copy_loop limit u ((src, dst) # rest) = (Ready (Inr ()), u)"
  | (waiting) "copy_loop limit u ((src, dst) # rest) = (Pending, u)"
  | (progress) u2 where "copy_loop limit u ((src, dst) # rest) = copy_loop limit u2 rest" "bytes_total u2 \<le> bytes_total u + turn_bytes src + turn_bytes dst"
proof -
  define sb db where bytes: "sb = turn_bytes src" "db = turn_bytes dst"
  define u1 where "u1 = (if 0 < sb then record_src_to_dst sb u else u)"
  define u2 where "u2 = (if 0 < db then record_dst_to_src db u1 else u1)"
  have u1: "bytes_total u1 \<le> bytes_total u + sb" using bytes_total_record(1) [of sb u] by (simp add: u1_def)
  have u2: "bytes_total u2 \<le> bytes_total u + sb + db" using u1 bytes_total_record(2) [of db u1] by (simp add: u2_def)
  have step: "copy_loop limit u ((src, dst) # rest) = (case forward_data src of
      Ready (Inl e) \<Rightarrow> (Ready (Inl e), u)
    | src_status \<Rightarrow> (case forward_data dst of
        Ready (Inl e) \<Rightarrow> (Ready (Inl e), u1)
      | dst_status \<Rightarrow> if src_status = Ready (Inr 0) \<and> dst_status = Ready (Inr 0) then (Ready (Inr ()), u2)
          else if 0 < sb \<or> 0 < db then copy_loop limit u2 rest else (Pending, u2)))"
    by (subst copy_loop.simps, subst if_not_P [OF assms])
      (simp add: u1_def u2_def bytes turn_bytes_def Let_def split: poll.split sum.split)
  show ?thesis
  proof (cases "\<exists>e. forward_data src = Ready (Inl e)")
    case True
    then show ?thesis using stream_error [of _ u] step by auto
  next
    case src: False
    show ?thesis
    proof (cases "\<exists>e. forward_data dst = Ready (Inl e)")
      case True
      then show ?thesis using stream_error [of _ u1] step src u1 by (auto simp: bytes split: poll.splits sum.splits)
    next
      case dst: False
      have step: "copy_loop limit u ((src, dst) # rest) =
          (if forward_data src = Ready (Inr 0) \<and> forward_data dst = Ready (Inr 0) then (Ready (Inr ()), u2)
           else if 0 < sb \<or> 0 < db then copy_loop limit u2 rest else (Pending, u2))"
        using step src dst by (auto split: poll.splits sum.splits)
      show ?thesis
      proof (cases "0 < sb \<or> 0 < db")
        case True
        then have "\<not> (forward_data src = Ready (Inr 0) \<and> forward_data dst = Ready (Inr 0))" by (auto simp: bytes turn_bytes_def)
        with True step u2 show ?thesis using progress by (simp add: bytes)
      next
        case False
        then have "u2 = u" by (simp add: u1_def u2_def)
        with False step show ?thesis using finished waiting by (simp split: if_splits)
      qed
    qed
  qed
qed

lemma copy_loop_quota:
  "turns_within chunk turns \<Longrightarrow> 0 < limit \<Longrightarrow> bytes_total u \<le> limit + 2 * chunk \<Longrightarrow> copy_loop limit u turns = (r, u') \<Longrightarrow>
     bytes_total u' \<le> limit + 2 * chunk \<and> (r = Pending \<longrightarrow> bytes_total u' \<le> limit)"
proof (induction turns arbitrary: u)
  case Nil
  then show ?case by (subst (asm) copy_loop.simps) (auto split: if_splits)
next
  case (Cons t turns)
  obtain src dst where t: "t = (src, dst)" by (cases t)
  have chunk: "turn_bytes src \<le> chunk" "turn_bytes dst \<le> chunk" "turns_within chunk turns"
    using Cons.prems(1) by (simp_all add: turns_within_def t)
  show ?case
  proof (cases "limit < bytes_total u")
    case True
    from copy_loop_stop [OF Cons.prems(2) True] Cons.prems(3,4) show ?thesis by auto
  next
    case False
    then have "\<not> (0 < limit \<and> limit < bytes_total u)" and small: "bytes_total u \<le> limit" by simp_all
    from this(1) show ?thesis
    proof (cases rule: copy_loop_turn [of limit u src dst turns])
      case (progress u2)
      then show ?thesis using Cons.IH [OF chunk(3) Cons.prems(2), of u2] Cons.prems(4) small chunk by (simp add: t)
    qed (use Cons.prems(4) small chunk in \<open>auto simp: t\<close>)
  qed
qed



section \<open>The totals are exact\<close>

text \<open>What happens to circuits. A circuit has a fresh counter when it is accepted, its forwarding loop
  adds to the counter, and the relay reports the final value of the counter when it ends.\<close>

datatype 'p circuit_event = Opened nat 'p 'p nat | SrcBytes nat nat | DstBytes nat nat
  | Ended nat 'p 'p "io_error option" nat

fun meter_step :: "'p ext \<Rightarrow> 'p circuit_event \<Rightarrow> usage_store \<times> RelayMeter \<Rightarrow> usage_store \<times> RelayMeter" where
  "meter_step E (Opened c src dst now) (U, m) =
     (U(c := usage_default), snd (meter_open E (U(c := usage_default)) c src dst c now m))"
| "meter_step E (SrcBytes c n) (U, m) = (U(c := record_src_to_dst n (U c)), m)"
| "meter_step E (DstBytes c n) (U, m) = (U(c := record_dst_to_src n (U c)), m)"
| "meter_step E (Ended c src dst error now) (U, m) = (U, snd (meter_close E c src dst (usage_snapshot U c) error now m))"

definition meter_run :: "'p ext \<Rightarrow> 'p circuit_event list \<Rightarrow> usage_store \<times> RelayMeter" where
  "meter_run E events = fold (meter_step E) events (\<lambda>_. usage_default, relay_meter_default)"

primrec open_circuits :: "'p circuit_event list \<Rightarrow> nat set \<Rightarrow> nat set" where
  "open_circuits [] opened = opened"
| "open_circuits (e # events) opened = open_circuits events
     (case e of Opened c _ _ _ \<Rightarrow> insert c opened | Ended c _ _ _ _ \<Rightarrow> opened - {c} | _ \<Rightarrow> opened)"

text \<open>A history the relay can produce: an identifier is opened once, and bytes and the end are of open
  circuits.\<close>

fun history_ok :: "'p circuit_event list \<Rightarrow> nat set \<Rightarrow> nat set \<Rightarrow> bool" where
  "history_ok [] used opened = True"
| "history_ok (Opened c _ _ _ # events) used opened = (c \<notin> used \<and> history_ok events (insert c used) (insert c opened))"
| "history_ok (SrcBytes c n # events) used opened = (c \<in> opened \<and> history_ok events used opened)"
| "history_ok (DstBytes c n # events) used opened = (c \<in> opened \<and> history_ok events used opened)"
| "history_ok (Ended c _ _ _ _ # events) used opened = (c \<in> opened \<and> history_ok events used (opened - {c}))"

definition src_forwarded :: "'p circuit_event list \<Rightarrow> nat" where
  "src_forwarded events = sum_list (map (\<lambda>e. case e of SrcBytes _ n \<Rightarrow> n | _ \<Rightarrow> 0) events)"

definition dst_forwarded :: "'p circuit_event list \<Rightarrow> nat" where
  "dst_forwarded events = sum_list (map (\<lambda>e. case e of DstBytes _ n \<Rightarrow> n | _ \<Rightarrow> 0) events)"

text \<open>The ledger: the closed totals and the live counters add up to what was forwarded.\<close>

definition live_src :: "usage_store \<Rightarrow> RelayMeter \<Rightarrow> nat" where
  "live_src U m = fmsum (\<lambda>a. src_to_dst (U (ac_usage a))) (m_active m)"

definition live_dst :: "usage_store \<Rightarrow> RelayMeter \<Rightarrow> nat" where
  "live_dst U m = fmsum (\<lambda>a. dst_to_src (U (ac_usage a))) (m_active m)"

definition ledger_ok :: "nat set \<Rightarrow> nat \<Rightarrow> nat \<Rightarrow> usage_store \<times> RelayMeter \<Rightarrow> bool" where
  "ledger_ok opened s d st \<longleftrightarrow> (case st of (U, m) \<Rightarrow>
     fmdom' (m_active m) = opened \<and> (\<forall>c a. fmlookup (m_active m) c = Some a \<longrightarrow> ac_usage a = c)
     \<and> closed_src_to_dst m + live_src U m = s \<and> closed_dst_to_src m + live_dst U m = d)"

lemma fmsum_handles:
  assumes "\<And>c a. fmlookup m c = Some a \<Longrightarrow> ac_usage a = c" and "fmlookup m c = Some a"
  shows "fmsum (\<lambda>a. f ((U(c := u)) (ac_usage a))) m + f (U c) = fmsum (\<lambda>a. f (U (ac_usage a))) m + f u"
proof -
  have "ac_usage a = c" using assms by blast
  moreover have "fmsum (\<lambda>a. f ((U(c := u)) (ac_usage a))) (fmdrop c m) = fmsum (\<lambda>a. f (U (ac_usage a))) (fmdrop c m)"
    by (rule fmsum_cong) (use assms(1) in \<open>auto split: if_splits\<close>)
  ultimately show ?thesis using fmsum_remove [OF assms(2)] by simp
qed

lemma fmsum_fresh_handle:
  assumes "\<And>c a. fmlookup m c = Some a \<Longrightarrow> ac_usage a = c" and "fmlookup m c = None"
  shows "fmsum (\<lambda>a. f ((U(c := u)) (ac_usage a))) m = fmsum (\<lambda>a. f (U (ac_usage a))) m"
  by (rule fmsum_cong) (use assms in \<open>fastforce split: if_splits\<close>)

lemma ledger_step:
  assumes ok: "ledger_ok opened s d st" and hist: "history_ok (e # events) used opened" and sub: "opened \<subseteq> used"
    and small: "s + src_forwarded [e] < 2 ^ 64" "d + dst_forwarded [e] < 2 ^ 64"
  shows "ledger_ok (open_circuits [e] opened) (s + src_forwarded [e]) (d + dst_forwarded [e]) (meter_step E e st)"
proof -
  obtain U m where st: "st = (U, m)" by (cases st)
  have dom: "fmdom' (m_active m) = opened" and sums: "closed_src_to_dst m + live_src U m = s" "closed_dst_to_src m + live_dst U m = d"
    and handle: "\<And>c a. fmlookup (m_active m) c = Some a \<Longrightarrow> ac_usage a = c"
    using ok by (auto simp: ledger_ok_def st)
  have known: "\<exists>a. fmlookup (m_active m) c = Some a" if "c \<in> opened" for c
    using that dom by (metis fmlookup_dom'_iff)
  have unknown: "fmlookup (m_active m) c = None" if "c \<notin> opened" for c using that dom by (metis fmdom'_notD)
  show ?thesis
  proof (cases e)
    case (Opened c src dst now)
    then have "c \<notin> opened" using hist sub by auto
    note none = unknown [OF this]
    note fresh = fmsum_fresh_handle [OF handle none, of src_to_dst U usage_default]
      fmsum_fresh_handle [OF handle none, of dst_to_src U usage_default]
    show ?thesis using handle sums dom fresh
      by (auto simp: ledger_ok_def st Opened meter_open_def Let_def live_src_def live_dst_def fmsum_upd_new [OF none]
          usage_default_def src_forwarded_def dst_forwarded_def)
  next
    case (SrcBytes c n)
    then obtain a where a: "fmlookup (m_active m) c = Some a" using hist known by auto
    have le: "src_to_dst (U c) \<le> live_src U m" using fmsum_le [OF a, of "\<lambda>a. src_to_dst (U (ac_usage a))"] handle [OF a] by (simp add: live_src_def)
    have exact: "sat_add 64 (src_to_dst (U c)) n = src_to_dst (U c) + n"
      by (rule sat_add_exact) (use small(1) sums(1) le in \<open>simp add: SrcBytes src_forwarded_def\<close>)
    note src = fmsum_handles [OF handle a, of "src_to_dst" U "record_src_to_dst n (U c)"]
    note dst = fmsum_handles [OF handle a, of "dst_to_src" U "record_src_to_dst n (U c)"]
    show ?thesis using handle sums dom src dst
      by (auto simp: ledger_ok_def st SrcBytes live_src_def live_dst_def record_src_to_dst_def exact src_forwarded_def dst_forwarded_def)
  next
    case (DstBytes c n)
    then obtain a where a: "fmlookup (m_active m) c = Some a" using hist known by auto
    have le: "dst_to_src (U c) \<le> live_dst U m" using fmsum_le [OF a, of "\<lambda>a. dst_to_src (U (ac_usage a))"] handle [OF a] by (simp add: live_dst_def)
    have exact: "sat_add 64 (dst_to_src (U c)) n = dst_to_src (U c) + n"
      by (rule sat_add_exact) (use small(2) sums(2) le in \<open>simp add: DstBytes dst_forwarded_def\<close>)
    note src = fmsum_handles [OF handle a, of "src_to_dst" U "record_dst_to_src n (U c)"]
    note dst = fmsum_handles [OF handle a, of "dst_to_src" U "record_dst_to_src n (U c)"]
    show ?thesis using handle sums dom src dst
      by (auto simp: ledger_ok_def st DstBytes live_src_def live_dst_def record_dst_to_src_def exact src_forwarded_def dst_forwarded_def)
  next
    case (Ended c src dst error now)
    then obtain a where a: "fmlookup (m_active m) c = Some a" using hist known by auto
    have split: "live_src U m = src_to_dst (U c) + fmsum (\<lambda>a. src_to_dst (U (ac_usage a))) (fmdrop c (m_active m))"
      "live_dst U m = dst_to_src (U c) + fmsum (\<lambda>a. dst_to_src (U (ac_usage a))) (fmdrop c (m_active m))"
      unfolding live_src_def live_dst_def using fmsum_remove [OF a] handle [OF a] by simp_all
    have "sat_add 64 (closed_src_to_dst m) (src_to_dst (U c)) = closed_src_to_dst m + src_to_dst (U c)"
      by (rule sat_add_exact) (use small(1) sums(1) split(1) in simp)
    moreover have "sat_add 64 (closed_dst_to_src m) (dst_to_src (U c)) = closed_dst_to_src m + dst_to_src (U c)"
      by (rule sat_add_exact) (use small(2) sums(2) split(2) in simp)
    ultimately show ?thesis using handle sums dom split
      by (auto simp: ledger_ok_def st Ended meter_close_def Let_def usage_snapshot_def live_src_def live_dst_def
          src_forwarded_def dst_forwarded_def split: if_splits)
  qed
qed

lemma forwarded_Nil [simp]: "src_forwarded [] = 0" "dst_forwarded [] = 0"
  by (simp_all add: src_forwarded_def dst_forwarded_def)

lemma forwarded_Cons:
  "src_forwarded (e # es) = src_forwarded [e] + src_forwarded es" "dst_forwarded (e # es) = dst_forwarded [e] + dst_forwarded es"
  by (simp_all add: src_forwarded_def dst_forwarded_def)

lemma ledger_run:
  "ledger_ok opened s d st \<Longrightarrow> history_ok events used opened \<Longrightarrow> opened \<subseteq> used \<Longrightarrow>
     s + src_forwarded events < 2 ^ 64 \<Longrightarrow> d + dst_forwarded events < 2 ^ 64 \<Longrightarrow>
     ledger_ok (open_circuits events opened) (s + src_forwarded events) (d + dst_forwarded events) (fold (meter_step E) events st)"
proof (induction events arbitrary: opened used s d st)
  case (Cons e events)
  note total1 = forwarded_Cons [of e events]
  have small: "s + src_forwarded [e] < 2 ^ 64" "d + dst_forwarded [e] < 2 ^ 64" using Cons.prems(4,5) unfolding total1 by linarith+
  note step = ledger_step [OF Cons.prems(1,2,3) small, of E]
  obtain used' where "history_ok events used' (open_circuits [e] opened)" "open_circuits [e] opened \<subseteq> used'"
    using Cons.prems(2,3) by (cases e) auto
  note rest = Cons.IH [OF step this]
  have "open_circuits (e # events) opened = open_circuits events (open_circuits [e] opened)" by simp
  with rest Cons.prems(4,5) show ?case unfolding total1 by (simp only: add.assoc fold_simps)
qed simp

lemma fmsum_sorted_list: "fmsum f m = sum_list (map (\<lambda>k. f (the (fmlookup m k))) (sorted_list_of_fset (fmdom m)))"
proof -
  have "fmsum f m = (\<Sum>k\<in>set (sorted_list_of_fset (fmdom m)). f (the (fmlookup m k)))"
    unfolding fmsum_def by (rule sum.cong) (auto simp: fmlookup_dom'_iff fmdom'_alt_def sorted_list_of_fset.rep_eq)
  also have "\<dots> = sum_list (map (\<lambda>k. f (the (fmlookup m k))) (sorted_list_of_fset (fmdom m)))"
    by (rule sum.distinct_set_conv_list) (simp add: sorted_list_of_fset.rep_eq)
  finally show ?thesis .
qed

lemma fold_add_live:
  fixes t :: CircuitBytes
  shows "src_to_dst t + sum_list (map (\<lambda>i. src_to_dst (U (ac_usage (g i)))) is) < 2 ^ 64 \<Longrightarrow>
   dst_to_src t + sum_list (map (\<lambda>i. dst_to_src (U (ac_usage (g i)))) is) < 2 ^ 64 \<Longrightarrow>
   fold (\<lambda>i. add_live U (g i)) is \<lparr>src_to_dst = src_to_dst t, dst_to_src = dst_to_src t\<rparr> =
     \<lparr>src_to_dst = src_to_dst t + sum_list (map (\<lambda>i. src_to_dst (U (ac_usage (g i)))) is),
      dst_to_src = dst_to_src t + sum_list (map (\<lambda>i. dst_to_src (U (ac_usage (g i)))) is)\<rparr>"
proof (induction "is" arbitrary: t)
  case (Cons i "is")
  let ?u = "U (ac_usage (g i))"
  have "sat_add 64 (src_to_dst t) (src_to_dst ?u) = src_to_dst t + src_to_dst ?u"
    "sat_add 64 (dst_to_src t) (dst_to_src ?u) = dst_to_src t + dst_to_src ?u"
    by (rule sat_add_exact, use Cons.prems in simp)+
  then have "add_live U (g i) \<lparr>src_to_dst = src_to_dst t, dst_to_src = dst_to_src t\<rparr>
      = \<lparr>src_to_dst = src_to_dst t + src_to_dst ?u, dst_to_src = dst_to_src t + dst_to_src ?u\<rparr>"
    by (simp add: add_live_def usage_snapshot_def)
  with Cons.IH [of "\<lparr>src_to_dst = src_to_dst t + src_to_dst ?u, dst_to_src = dst_to_src t + dst_to_src ?u\<rparr>"] Cons.prems
  show ?case by (simp add: add.assoc)
qed simp

lemma meter_totals_eq:
  assumes "closed_src_to_dst m + live_src U m < 2 ^ 64" and "closed_dst_to_src m + live_dst U m < 2 ^ 64"
  shows "meter_totals U m = \<lparr>src_to_dst = closed_src_to_dst m + live_src U m, dst_to_src = closed_dst_to_src m + live_dst U m\<rparr>"
  using fold_add_live [of "\<lparr>src_to_dst = closed_src_to_dst m, dst_to_src = closed_dst_to_src m\<rparr>" U
      "\<lambda>i. the (fmlookup (m_active m) i)" "sorted_list_of_fset (fmdom (m_active m))"] assms
  by (simp add: meter_totals_def live_src_def live_dst_def fmsum_sorted_list)



text \<open>The window of recent records keeps its bound.\<close>

lemma recent_closed_bounded:
  "length (recent_closed m) \<le> RECENT_CLOSED_CIRCUITS \<Longrightarrow>
     length (recent_closed (snd (meter_close E c src dst bytes error now m))) \<le> RECENT_CLOSED_CIRCUITS"
  by (auto simp: meter_close_def Let_def RECENT_CLOSED_CIRCUITS_def)

end
