(* ===== verification/Relay_Protocol.thy ===== *)
theory Relay_Protocol
  imports Relay_Metering Relay_Service Multiaddr
begin

text \<open>
  The circuit relay protocol, \<open>external/libp2p-relay/src/protocol.rs\<close> and \<open>protocol/\<close>: the hop messages
  between a client and the relay (\<open>outbound_hop.rs\<close> at the client, \<open>inbound_hop.rs\<close> at the relay)
  and the stop messages between the relay and the destination (\<open>outbound_stop.rs\<close> at the relay,
  \<open>inbound_stop.rs\<close> at the destination), over the messages of \<open>generated/message_v2.pb.rs\<close>. What a
  stream answers is an argument: the result of a send and the next message or its codec error. A
  \<open>Duration\<close> is in nanoseconds, a stream is its handle. \<open>None\<close> is a panic.
\<close>

section \<open>Messages\<close>

datatype HopMessageType = HopReserve | HopConnect | HopStatus
datatype StopMessageType = StopConnect | StopStatus
datatype proto_Status = Ok | ReservationRefused | ResourceLimitExceeded | PermissionDenied | ConnectionFailed
  | NoReservation | MalformedMessage | UnexpectedMessage

primrec hop_type_i32 :: "HopMessageType \<Rightarrow> int" where
  "hop_type_i32 HopReserve = 0"
| "hop_type_i32 HopConnect = 1"
| "hop_type_i32 HopStatus = 2"

definition hop_type_try_from :: "int \<Rightarrow> HopMessageType option" where
  "hop_type_try_from n = find (\<lambda>t. hop_type_i32 t = n) [HopReserve, HopConnect, HopStatus]"

primrec stop_type_i32 :: "StopMessageType \<Rightarrow> int" where
  "stop_type_i32 StopConnect = 0"
| "stop_type_i32 StopStatus = 1"

definition stop_type_try_from :: "int \<Rightarrow> StopMessageType option" where
  "stop_type_try_from n = find (\<lambda>t. stop_type_i32 t = n) [StopConnect, StopStatus]"

primrec status_i32 :: "proto_Status \<Rightarrow> int" where
  "status_i32 Ok = 100"
| "status_i32 ReservationRefused = 200"
| "status_i32 ResourceLimitExceeded = 201"
| "status_i32 PermissionDenied = 202"
| "status_i32 ConnectionFailed = 203"
| "status_i32 NoReservation = 204"
| "status_i32 MalformedMessage = 400"
| "status_i32 UnexpectedMessage = 401"

definition status_try_from :: "int \<Rightarrow> proto_Status option" where
  "status_try_from n = find (\<lambda>s. status_i32 s = n) [Ok, ReservationRefused, ResourceLimitExceeded,
     PermissionDenied, ConnectionFailed, NoReservation, MalformedMessage, UnexpectedMessage]"

primrec status_str_name :: "proto_Status \<Rightarrow> string" where
  "status_str_name Ok = ''OK''"
| "status_str_name ReservationRefused = ''RESERVATION_REFUSED''"
| "status_str_name ResourceLimitExceeded = ''RESOURCE_LIMIT_EXCEEDED''"
| "status_str_name PermissionDenied = ''PERMISSION_DENIED''"
| "status_str_name ConnectionFailed = ''CONNECTION_FAILED''"
| "status_str_name NoReservation = ''NO_RESERVATION''"
| "status_str_name MalformedMessage = ''MALFORMED_MESSAGE''"
| "status_str_name UnexpectedMessage = ''UNEXPECTED_MESSAGE''"

record proto_Peer =
  peer_id_bytes :: "u8 list"
  peer_addrs :: "u8 list list"

record proto_Reservation =
  res_expire :: nat
  res_addrs :: "u8 list list"
  res_voucher :: "u8 list option"

record proto_Limit =
  limit_duration :: "nat option"
  limit_data :: "nat option"

record HopMessage =
  hop_type :: int
  hop_peer :: "proto_Peer option"
  hop_reservation :: "proto_Reservation option"
  hop_limit :: "proto_Limit option"
  hop_status :: "int option"

record StopMessage =
  stop_type :: int
  stop_peer :: "proto_Peer option"
  stop_limit :: "proto_Limit option"
  stop_status :: "int option"

text \<open>The binary encoding of a multiaddress (\<open>to_vec\<close>, \<open>try_from\<close>), and that decoding inverts it.\<close>

record 'p ma_bin =
  ma_to_vec :: "'p multiaddr \<Rightarrow> u8 list"
  ma_from_vec :: "u8 list \<Rightarrow> 'p multiaddr option"

definition ma_bin_law :: "'p ma_bin \<Rightarrow> bool" where
  [laws]: "ma_bin_law B \<longleftrightarrow> (\<forall>a. ma_from_vec B (ma_to_vec B a) = Some a)"

text \<open>A signed decimal number, as \<open>i32::to_string\<close> writes it.\<close>

definition show_int :: "int \<Rightarrow> string" where
  "show_int n = (if n < 0 then ''-'' @ show_nat (nat (- n)) else show_nat (nat n))"

definition as_secs :: "nat \<Rightarrow> nat" where "as_secs d = d div 10 ^ 9"
definition from_secs :: "nat \<Rightarrow> nat" where "from_secs s = s * 10 ^ 9"

definition u32_try_from :: "nat \<Rightarrow> nat option" where
  "u32_try_from n = (if n < 2 ^ 32 then Some n else None)"

text \<open>\<open>SystemTime + Duration\<close>, whose seconds are an \<open>i64\<close>: it panics when they overflow.\<close>

definition systime_add :: "nat \<Rightarrow> nat \<Rightarrow> nat option" where
  "systime_add t d = (if as_secs (t + d) < 2 ^ 63 then Some (t + d) else None)"

record Limit =
  lim_duration :: "nat option"
  data_in_bytes :: "nat option"

definition limit_from :: "proto_Limit \<Rightarrow> Limit" where
  "limit_from l = \<lparr>lim_duration = map_option from_secs (limit_duration l), data_in_bytes = limit_data l\<rparr>"

section \<open>The relay's side of the hop protocol\<close>

datatype inbound_hop_Error = HopCodec string | StreamClosed | HopParsePeerId | HopMissingPeer
  | HopUnexpectedTypeStatus | HopUnexpectedType string

record ReservationReq =
  rr_substream :: nat
  rr_reservation_duration :: nat
  rr_max_circuit_duration :: nat
  rr_max_circuit_bytes :: nat

record 'p CircuitReq =
  cr_dst :: 'p
  cr_substream :: nat
  cr_max_circuit_duration :: nat
  cr_max_circuit_bytes :: nat

definition reservation_accept :: "'p ma_bin \<Rightarrow> nat \<Rightarrow> 'p multiaddr list \<Rightarrow> ReservationReq \<Rightarrow> HopMessage option" where
  "reservation_accept B now addrs r =
     Option.bind (systime_add now (rr_reservation_duration r)) (\<lambda>expiry.
     Option.bind (u32_try_from (as_secs (rr_max_circuit_duration r))) (\<lambda>duration.
       Some \<lparr>hop_type = hop_type_i32 HopStatus, hop_peer = None,
         hop_reservation = Some \<lparr>res_expire = as_secs expiry, res_addrs = map (ma_to_vec B) addrs, res_voucher = None\<rparr>,
         hop_limit = Some \<lparr>limit_duration = Some duration, limit_data = Some (rr_max_circuit_bytes r)\<rparr>,
         hop_status = Some (status_i32 Ok)\<rparr>))"

definition reservation_deny :: "proto_Status \<Rightarrow> HopMessage" where
  "reservation_deny status = \<lparr>hop_type = hop_type_i32 HopStatus, hop_peer = None, hop_reservation = None,
     hop_limit = None, hop_status = Some (status_i32 status)\<rparr>"

definition circuit_accept :: "'p CircuitReq \<Rightarrow> HopMessage option" where
  "circuit_accept r = Option.bind (u32_try_from (as_secs (cr_max_circuit_duration r))) (\<lambda>duration.
     Some \<lparr>hop_type = hop_type_i32 HopStatus, hop_peer = None, hop_reservation = None,
       hop_limit = Some \<lparr>limit_duration = Some duration, limit_data = Some (cr_max_circuit_bytes r)\<rparr>,
       hop_status = Some (status_i32 Ok)\<rparr>)"

definition circuit_deny :: "proto_Status \<Rightarrow> HopMessage" where
  "circuit_deny status = \<lparr>hop_type = hop_type_i32 HopStatus, hop_peer = None, hop_reservation = None,
     hop_limit = None, hop_status = Some (status_i32 status)\<rparr>"

definition handle_inbound_request :: "'p ext \<Rightarrow> nat \<Rightarrow> nat \<Rightarrow> nat \<Rightarrow> nat \<Rightarrow> (string + HopMessage) option
    \<Rightarrow> inbound_hop_Error + (ReservationReq + 'p CircuitReq)" where
  "handle_inbound_request E io reservation_duration max_circuit_duration max_circuit_bytes res = (case res of
     Some (Inr msg) \<Rightarrow> (case hop_type_try_from (hop_type msg) of
        None \<Rightarrow> Inl (HopUnexpectedType (show_int (hop_type msg)))
      | Some HopReserve \<Rightarrow> Inr (Inl \<lparr>rr_substream = io, rr_reservation_duration = reservation_duration,
          rr_max_circuit_duration = max_circuit_duration, rr_max_circuit_bytes = max_circuit_bytes\<rparr>)
      | Some HopConnect \<Rightarrow> (case hop_peer msg of
          None \<Rightarrow> Inl HopMissingPeer
        | Some r \<Rightarrow> (case pid_from_bytes E (peer_id_bytes r) of
            Inl _ \<Rightarrow> Inl HopParsePeerId
          | Inr dst \<Rightarrow> Inr (Inr \<lparr>cr_dst = dst, cr_substream = io, cr_max_circuit_duration = max_circuit_duration,
              cr_max_circuit_bytes = max_circuit_bytes\<rparr>)))
      | Some HopStatus \<Rightarrow> Inl HopUnexpectedTypeStatus)
   | _ \<Rightarrow> Inl StreamClosed)"

section \<open>The client's side of the hop protocol\<close>

datatype hop_ProtocolViolation = CodecError string | MissingStatusField | MissingReservationField
  | NoAddressesInReservation | InvalidReservationExpiration | InvalidReservationAddrs
  | UnexpectedTypeConnect | UnexpectedTypeReserve | UnexpectedType string | UnexpectedStatus string

datatype ConnectError = ConnectResourceLimitExceeded | ConnectConnectionFailed | ConnectNoReservation
  | ConnectPermissionDenied | ConnectUnsupported | ConnectIo io_error | ConnectProtocol hop_ProtocolViolation

datatype ReserveError = ReserveRefused | ReserveResourceLimitExceeded | ReserveUnsupported | ReserveIo io_error
  | ReserveProtocol hop_ProtocolViolation

definition format_proto_status :: "int \<Rightarrow> string" where
  "format_proto_status code = (case status_try_from code of Some status \<Rightarrow> status_str_name status | None \<Rightarrow> show_int code)"

record 'p ClientReservation =
  renewal_timeout :: nat
  reserved_addrs :: "'p multiaddr list"
  reserved_limit :: "Limit option"

record ClientCircuit =
  circ_stream :: nat
  circ_read_buffer :: "u8 list"
  circ_limit :: "Limit option"

definition eof_error :: io_error where
  "eof_error = \<lparr>err_kind = UnexpectedEof, err_text = ''unexpected end of file''\<rparr>"

definition reserve_msg :: HopMessage where
  "reserve_msg = \<lparr>hop_type = hop_type_i32 HopReserve, hop_peer = None, hop_reservation = None, hop_limit = None, hop_status = None\<rparr>"

fun all_some :: "'a option list \<Rightarrow> 'a list option" where
  "all_some [] = Some []"
| "all_some (x # xs) = (case (x, all_some xs) of (Some y, Some ys) \<Rightarrow> Some (y # ys) | _ \<Rightarrow> None)"

text \<open>The reply to a reservation request. \<open>sent\<close> and \<open>closed\<close> are the results of sending the request
  and closing the sending side.\<close>

definition make_reservation :: "'p ma_bin \<Rightarrow> nat \<Rightarrow> string + unit \<Rightarrow> string + unit \<Rightarrow> (string + HopMessage) option
    \<Rightarrow> ReserveError + 'p ClientReservation" where
  "make_reservation B now sent closed reply = (case (sent, closed, reply) of
     (Inl e, _, _) \<Rightarrow> Inl (ReserveProtocol (CodecError e))
   | (_, Inl e, _) \<Rightarrow> Inl (ReserveProtocol (CodecError e))
   | (_, _, None) \<Rightarrow> Inl (ReserveIo eof_error)
   | (_, _, Some (Inl e)) \<Rightarrow> Inl (ReserveProtocol (CodecError e))
   | (_, _, Some (Inr msg)) \<Rightarrow> (case hop_type_try_from (hop_type msg) of
        None \<Rightarrow> Inl (ReserveProtocol (UnexpectedType (show_int (hop_type msg))))
      | Some HopConnect \<Rightarrow> Inl (ReserveProtocol UnexpectedTypeConnect)
      | Some HopReserve \<Rightarrow> Inl (ReserveProtocol UnexpectedTypeReserve)
      | Some HopStatus \<Rightarrow> (case hop_status msg of
          None \<Rightarrow> Inl (ReserveProtocol MissingStatusField)
        | Some code \<Rightarrow> (case status_try_from code of
            Some Ok \<Rightarrow> (case hop_reservation msg of
              None \<Rightarrow> Inl (ReserveProtocol MissingReservationField)
            | Some reservation \<Rightarrow>
                if res_addrs reservation = [] then Inl (ReserveProtocol NoAddressesInReservation)
                else (case all_some (map (ma_from_vec B) (res_addrs reservation)) of
                    None \<Rightarrow> Inl (ReserveProtocol InvalidReservationAddrs)
                  | Some addrs \<Rightarrow>
                      if res_expire reservation < as_secs now then Inl (ReserveProtocol InvalidReservationExpiration)
                      else let duration = res_expire reservation - as_secs now
                        in Inr \<lparr>renewal_timeout = from_secs (duration - duration div 4), reserved_addrs = addrs,
                             reserved_limit = map_option limit_from (hop_limit msg)\<rparr>))
          | Some ReservationRefused \<Rightarrow> Inl ReserveRefused
          | Some ResourceLimitExceeded \<Rightarrow> Inl ReserveResourceLimitExceeded
          | _ \<Rightarrow> Inl (ReserveProtocol (UnexpectedStatus (format_proto_status code)))))))"

definition open_circuit_msg :: "'p ext \<Rightarrow> 'p \<Rightarrow> HopMessage" where
  "open_circuit_msg E dst_peer_id = \<lparr>hop_type = hop_type_i32 HopConnect,
     hop_peer = Some \<lparr>peer_id_bytes = pid_to_bytes E dst_peer_id, peer_addrs = []\<rparr>,
     hop_reservation = None, hop_limit = None, hop_status = None\<rparr>"

text \<open>The reply to a circuit request; \<open>rest\<close> is what the stream has already read after the reply.\<close>

definition open_circuit :: "nat \<Rightarrow> string + unit \<Rightarrow> (string + HopMessage) option \<Rightarrow> u8 list \<Rightarrow> ConnectError + ClientCircuit" where
  "open_circuit protocol1 sent reply rest = (case (sent, reply) of
     (Inl e, _) \<Rightarrow> Inl (ConnectProtocol (CodecError e))
   | (_, None) \<Rightarrow> Inl (ConnectIo eof_error)
   | (_, Some (Inl e)) \<Rightarrow> Inl (ConnectProtocol (CodecError e))
   | (_, Some (Inr msg)) \<Rightarrow> (case hop_type_try_from (hop_type msg) of
        None \<Rightarrow> Inl (ConnectProtocol (UnexpectedType (show_int (hop_type msg))))
      | Some HopConnect \<Rightarrow> Inl (ConnectProtocol UnexpectedTypeConnect)
      | Some HopReserve \<Rightarrow> Inl (ConnectProtocol UnexpectedTypeReserve)
      | Some HopStatus \<Rightarrow> (case hop_status msg of
          None \<Rightarrow> Inl (ConnectProtocol MissingStatusField)
        | Some s \<Rightarrow> (case status_try_from s of
            Some Ok \<Rightarrow> Inr \<lparr>circ_stream = protocol1, circ_read_buffer = rest, circ_limit = map_option limit_from (hop_limit msg)\<rparr>
          | Some ResourceLimitExceeded \<Rightarrow> Inl ConnectResourceLimitExceeded
          | Some ConnectionFailed \<Rightarrow> Inl ConnectConnectionFailed
          | Some NoReservation \<Rightarrow> Inl ConnectNoReservation
          | Some PermissionDenied \<Rightarrow> Inl ConnectPermissionDenied
          | _ \<Rightarrow> Inl (ConnectProtocol (UnexpectedStatus (format_proto_status s)))))))"

section \<open>The stop protocol\<close>

datatype stop_ProtocolViolation = StopCodec string | StopMissingStatusField | StopUnexpectedTypeConnect
  | StopUnexpectedType string | StopUnexpectedStatus string

datatype outbound_stop_Error = StopResourceLimitExceeded | StopPermissionDenied | StopUnsupported
  | StopIo io_error | StopProtocol stop_ProtocolViolation

definition to_status :: "outbound_stop_Error \<Rightarrow> proto_Status" where
  "to_status e = (case e of
     StopResourceLimitExceeded \<Rightarrow> ResourceLimitExceeded
   | StopPermissionDenied \<Rightarrow> PermissionDenied
   | StopUnsupported \<Rightarrow> ConnectionFailed
   | StopIo _ \<Rightarrow> ConnectionFailed
   | StopProtocol (StopUnexpectedStatus _) \<Rightarrow> UnexpectedMessage
   | StopProtocol StopUnexpectedTypeConnect \<Rightarrow> UnexpectedMessage
   | StopProtocol _ \<Rightarrow> MalformedMessage)"

definition connect_msg :: "'p ext \<Rightarrow> 'p \<Rightarrow> nat \<Rightarrow> nat \<Rightarrow> StopMessage option" where
  "connect_msg E src_peer_id max_duration max_bytes = Option.bind (u32_try_from (as_secs max_duration)) (\<lambda>duration.
     Some \<lparr>stop_type = stop_type_i32 StopConnect, stop_peer = Some \<lparr>peer_id_bytes = pid_to_bytes E src_peer_id, peer_addrs = []\<rparr>,
       stop_limit = Some \<lparr>limit_duration = Some duration, limit_data = Some max_bytes\<rparr>, stop_status = None\<rparr>)"

record StopCircuit =
  dst_stream :: nat
  dst_pending_data :: "u8 list"

definition stop_connect :: "nat \<Rightarrow> string + unit \<Rightarrow> (string + StopMessage) option \<Rightarrow> u8 list \<Rightarrow> outbound_stop_Error + StopCircuit" where
  "stop_connect io sent reply rest = (case (sent, reply) of
     (Inl e, _) \<Rightarrow> Inl (StopProtocol (StopCodec e))
   | (_, None) \<Rightarrow> Inl (StopIo eof_error)
   | (_, Some (Inl e)) \<Rightarrow> Inl (StopProtocol (StopCodec e))
   | (_, Some (Inr msg)) \<Rightarrow> (case stop_type_try_from (stop_type msg) of
        None \<Rightarrow> Inl (StopProtocol (StopUnexpectedType (show_int (stop_type msg))))
      | Some StopConnect \<Rightarrow> Inl (StopProtocol StopUnexpectedTypeConnect)
      | Some StopStatus \<Rightarrow> (case stop_status msg of
          None \<Rightarrow> Inl (StopProtocol StopMissingStatusField)
        | Some s \<Rightarrow> (case status_try_from s of
            Some Ok \<Rightarrow> Inr \<lparr>dst_stream = io, dst_pending_data = rest\<rparr>
          | Some ResourceLimitExceeded \<Rightarrow> Inl StopResourceLimitExceeded
          | Some PermissionDenied \<Rightarrow> Inl StopPermissionDenied
          | Some other \<Rightarrow> Inl (StopProtocol (StopUnexpectedStatus (status_str_name other)))
          | None \<Rightarrow> Inl (StopProtocol (StopUnexpectedStatus (show_int s)))))))"

datatype inbound_stop_Violation = InCodec string | InParsePeerId | InMissingPeer | InUnexpectedTypeStatus | InUnexpectedType string
datatype inbound_stop_Error = InProtocol inbound_stop_Violation | InIo io_error

record 'p InboundCircuit =
  in_substream :: nat
  in_src_peer_id :: 'p
  in_limit :: "Limit option"

definition handle_open_circuit :: "'p ext \<Rightarrow> nat \<Rightarrow> (string + StopMessage) option \<Rightarrow> inbound_stop_Error + 'p InboundCircuit" where
  "handle_open_circuit E io received = (case received of
     None \<Rightarrow> Inl (InIo eof_error)
   | Some (Inl e) \<Rightarrow> Inl (InProtocol (InCodec e))
   | Some (Inr msg) \<Rightarrow> (case stop_type_try_from (stop_type msg) of
        None \<Rightarrow> Inl (InProtocol (InUnexpectedType (show_int (stop_type msg))))
      | Some StopConnect \<Rightarrow> (case stop_peer msg of
          None \<Rightarrow> Inl (InProtocol InMissingPeer)
        | Some peer \<Rightarrow> (case pid_from_bytes E (peer_id_bytes peer) of
            Inl _ \<Rightarrow> Inl (InProtocol InParsePeerId)
          | Inr src_peer_id \<Rightarrow> Inr \<lparr>in_substream = io, in_src_peer_id = src_peer_id, in_limit = map_option limit_from (stop_limit msg)\<rparr>))
      | Some StopStatus \<Rightarrow> Inl (InProtocol InUnexpectedTypeStatus)))"

definition stop_accept :: StopMessage where
  "stop_accept = \<lparr>stop_type = stop_type_i32 StopStatus, stop_peer = None, stop_limit = None, stop_status = Some (status_i32 Ok)\<rparr>"

definition stop_deny :: "proto_Status \<Rightarrow> StopMessage" where
  "stop_deny status = \<lparr>stop_type = stop_type_i32 StopStatus, stop_peer = None, stop_limit = None, stop_status = Some (status_i32 status)\<rparr>"

section \<open>A concrete address encoding\<close>

definition put_seg :: "u16 \<Rightarrow> u8 list" where
  "put_seg w = put_nat (unat w)"

fun put_protocol :: "u8 protocol \<Rightarrow> u8 list" where
  "put_protocol (Ip4 (Ipv4 a b c d)) = put_nat 0 @ [a, b, c, d]"
| "put_protocol (Ip6 ip) = put_nat 1 @ concat (map put_seg (segments ip))"
| "put_protocol (Dns s) = put_nat 2 @ put_str s"
| "put_protocol (Dns4 s) = put_nat 3 @ put_str s"
| "put_protocol (Dns6 s) = put_nat 4 @ put_str s"
| "put_protocol (Dnsaddr s) = put_nat 5 @ put_str s"
| "put_protocol (Tcp n) = put_nat 6 @ put_nat n"
| "put_protocol (Udp n) = put_nat 7 @ put_nat n"
| "put_protocol Quic = put_nat 8"
| "put_protocol QuicV1 = put_nat 9"
| "put_protocol (Ws s) = put_nat 10 @ put_str s"
| "put_protocol (Wss s) = put_nat 11 @ put_str s"
| "put_protocol Tls = put_nat 12"
| "put_protocol WebRTC = put_nat 13"
| "put_protocol WebRTCDirect = put_nat 14"
| "put_protocol P2pWebRtcDirect = put_nat 15"
| "put_protocol (Certhash s) = put_nat 16 @ put_str s"
| "put_protocol WebTransport = put_nat 17"
| "put_protocol (P2p p) = put_nat 18 @ [p]"
| "put_protocol P2pCircuit = put_nat 19"
| "put_protocol (OtherProtocol s) = put_nat 20 @ put_str s"

primrec get_segs :: "nat \<Rightarrow> u8 list \<Rightarrow> u16 list \<times> u8 list" where
  "get_segs 0 bs = ([], bs)"
| "get_segs (Suc n) bs = (let (w, r) = get_nat bs; (ws, r') = get_segs n r in (of_nat w # ws, r'))"

definition ipv6_of :: "u16 list \<Rightarrow> ipv6" where
  "ipv6_of ws = Ipv6 (ws ! 0) (ws ! 1) (ws ! 2) (ws ! 3) (ws ! 4) (ws ! 5) (ws ! 6) (ws ! 7)"

definition get_protocol :: "u8 list \<Rightarrow> u8 protocol \<times> u8 list" where
  "get_protocol bs = (let (tag, r) = get_nat bs; (s, r_str) = get_str r; (n, r_nat) = get_nat r in
     if tag = 0 then (Ip4 (Ipv4 (r ! 0) (r ! 1) (r ! 2) (r ! 3)), drop 4 r)
     else if tag = 1 then (let (ws, r') = get_segs 8 r in (Ip6 (ipv6_of ws), r'))
     else if tag = 2 then (Dns s, r_str) else if tag = 3 then (Dns4 s, r_str) else if tag = 4 then (Dns6 s, r_str)
     else if tag = 5 then (Dnsaddr s, r_str) else if tag = 6 then (Tcp n, r_nat) else if tag = 7 then (Udp n, r_nat)
     else if tag = 8 then (Quic, r) else if tag = 9 then (QuicV1, r) else if tag = 10 then (Ws s, r_str)
     else if tag = 11 then (Wss s, r_str) else if tag = 12 then (Tls, r) else if tag = 13 then (WebRTC, r)
     else if tag = 14 then (WebRTCDirect, r) else if tag = 15 then (P2pWebRtcDirect, r) else if tag = 16 then (Certhash s, r_str)
     else if tag = 17 then (WebTransport, r) else if tag = 18 then (P2p (hd r), tl r) else if tag = 19 then (P2pCircuit, r)
     else (OtherProtocol s, r_str))"

primrec get_protocols :: "nat \<Rightarrow> u8 list \<Rightarrow> u8 protocol list" where
  "get_protocols 0 bs = []"
| "get_protocols (Suc n) bs = (let (p, r) = get_protocol bs in p # get_protocols n r)"

definition demo_ma_bin :: "u8 ma_bin" where
  "demo_ma_bin = \<lparr>ma_to_vec = (\<lambda>a. put_nat (length a) @ concat (map put_protocol a)),
     ma_from_vec = (\<lambda>bs. let (n, r) = get_nat bs in Some (get_protocols n r))\<rparr>"

lemma get_segs_put: "get_segs (length ws) (concat (map put_seg ws) @ r) = (ws, r)"
  by (induction ws) (simp_all add: put_seg_def)

lemma get_put_protocol: "get_protocol (put_protocol p @ r) = (p, r)"
proof (cases p)
  case (Ip4 ip)
  then show ?thesis by (cases ip) (simp add: get_protocol_def)
next
  case (Ip6 ip)
  have "ipv6_of (segments ip) = ip" by (cases ip) (simp add: ipv6_of_def)
  moreover have "length (segments ip) = 8" by (cases ip) simp
  ultimately show ?thesis using get_segs_put [of "segments ip" r] by (simp add: Ip6 get_protocol_def split: prod.split)
qed (simp_all add: get_protocol_def split: prod.split)

lemma get_put_protocols: "get_protocols (length a) (concat (map put_protocol a)) = a"
proof (induction a)
  case (Cons p a)
  then show ?case by (simp add: get_put_protocol)
qed simp

lemma demo_ma_bin_law: "ma_bin_law demo_ma_bin"
  unfolding laws by (simp add: demo_ma_bin_def get_put_protocols)

section \<open>The handshakes\<close>

lemma hop_type_try_from_i32 [simp]: "hop_type_try_from (hop_type_i32 t) = Some t"
  by (cases t) (simp_all add: hop_type_try_from_def)

lemma stop_type_try_from_i32 [simp]: "stop_type_try_from (stop_type_i32 t) = Some t"
  by (cases t) (simp_all add: stop_type_try_from_def)

lemma status_try_from_i32 [simp]: "status_try_from (status_i32 s) = Some s"
  by (cases s) (simp_all add: status_try_from_def)

declare hop_type_i32.simps [simp del] stop_type_i32.simps [simp del] status_i32.simps [simp del]

lemma all_some_inverse: "(\<And>x. g (f x) = Some x) \<Longrightarrow> all_some (map g (map f xs)) = Some xs"
  by (induction xs) simp_all

lemma all_some_addrs: "ma_bin_law B \<Longrightarrow> all_some (map (ma_from_vec B) (map (ma_to_vec B) addrs)) = Some addrs"
  unfolding laws by (rule all_some_inverse) simp

lemma deny_is_refused: "status \<noteq> Ok \<Longrightarrow> \<exists>e. make_reservation B now (Inr ()) (Inr ()) (Some (Inr (reservation_deny status))) = Inl e"
  by (cases status) (simp_all add: make_reservation_def reservation_deny_def)

text \<open>The renewal comes before the expiry, once at least four seconds are left.\<close>

lemma renewal_in_time:
  assumes "as_secs now + 4 \<le> as_secs expiry"
  shows "now + from_secs (as_secs expiry - as_secs now - (as_secs expiry - as_secs now) div 4) < expiry"
proof -
  define d where "d = as_secs expiry - as_secs now"
  have "d \<ge> 4" using assms by (simp add: d_def)
  then have "1 \<le> d div 4" and "d div 4 \<le> d" by (auto simp: div_greater_zero_iff Suc_le_eq)
  then have secs: "d - d div 4 + 1 + as_secs now \<le> as_secs expiry" using assms by (simp add: d_def)
  have "now < (as_secs now + 1) * 10 ^ 9" unfolding as_secs_def by (simp add: dividend_less_div_times)
  then have "now + (d - d div 4) * 10 ^ 9 < (as_secs now + 1) * 10 ^ 9 + (d - d div 4) * 10 ^ 9" by simp
  also have "\<dots> = (d - d div 4 + 1 + as_secs now) * 10 ^ 9" by (simp add: algebra_simps)
  also have "\<dots> \<le> as_secs expiry * 10 ^ 9" using secs by (rule mult_le_mono1)
  also have "\<dots> \<le> expiry" by (simp add: as_secs_def)
  finally show ?thesis by (simp add: d_def from_secs_def)
qed

text \<open>The reservation handshake. A client's request reaches the relay as a reservation request with
  the relay's limits. The relay's acceptance gives the client exactly the relay's addresses, the
  limits, and a renewal time before the expiry; it is an error at the client when the relay has no
  address to offer, or when the reservation has expired by the client's clock. A denial is an error at the client.\<close>

theorem reservation_handshake:
  assumes "ma_bin_law B" and "as_secs max_circuit_duration < 2 ^ 32" and "as_secs (relay_now + reservation_duration) < 2 ^ 63"
  shows "\<exists>req m. handle_inbound_request E io reservation_duration max_circuit_duration max_circuit_bytes (Some (Inr reserve_msg)) = Inr (Inl req)
    \<and> reservation_accept B relay_now addrs req = Some m
    \<and> (\<forall>now. make_reservation B now (Inr ()) (Inr ()) (Some (Inr m)) =
        (if addrs = [] then Inl (ReserveProtocol NoAddressesInReservation)
         else if as_secs (relay_now + reservation_duration) < as_secs now then Inl (ReserveProtocol InvalidReservationExpiration)
         else Inr \<lparr>renewal_timeout = from_secs (as_secs (relay_now + reservation_duration) - as_secs now
                - (as_secs (relay_now + reservation_duration) - as_secs now) div 4),
              reserved_addrs = addrs,
              reserved_limit = Some \<lparr>lim_duration = Some (from_secs (as_secs max_circuit_duration)), data_in_bytes = Some max_circuit_bytes\<rparr>\<rparr>))
    \<and> (\<forall>now r. make_reservation B now (Inr ()) (Inr ()) (Some (Inr m)) = Inr r \<and> as_secs now + 4 \<le> as_secs (relay_now + reservation_duration)
        \<longrightarrow> now + renewal_timeout r < relay_now + reservation_duration)
    \<and> (\<forall>status now. status \<noteq> Ok \<longrightarrow> (\<exists>e. make_reservation B now (Inr ()) (Inr ()) (Some (Inr (reservation_deny status))) = Inl e))"
proof -
  define req where "req = \<lparr>rr_substream = io, rr_reservation_duration = reservation_duration,
    rr_max_circuit_duration = max_circuit_duration, rr_max_circuit_bytes = max_circuit_bytes\<rparr>"
  define m where "m = \<lparr>hop_type = hop_type_i32 HopStatus, hop_peer = None,
    hop_reservation = Some \<lparr>res_expire = as_secs (relay_now + reservation_duration), res_addrs = map (ma_to_vec B) addrs, res_voucher = None\<rparr>,
    hop_limit = Some \<lparr>limit_duration = Some (as_secs max_circuit_duration), limit_data = Some max_circuit_bytes\<rparr>,
    hop_status = Some (status_i32 Ok)\<rparr>"
  have received: "handle_inbound_request E io reservation_duration max_circuit_duration max_circuit_bytes (Some (Inr reserve_msg)) = Inr (Inl req)"
    by (simp add: handle_inbound_request_def reserve_msg_def req_def)
  have accepted: "reservation_accept B relay_now addrs req = Some m"
    using assms(2,3) by (simp add: reservation_accept_def req_def m_def systime_add_def u32_try_from_def)
  have outcome: "make_reservation B now (Inr ()) (Inr ()) (Some (Inr m)) =
        (if addrs = [] then Inl (ReserveProtocol NoAddressesInReservation)
         else if as_secs (relay_now + reservation_duration) < as_secs now then Inl (ReserveProtocol InvalidReservationExpiration)
         else Inr \<lparr>renewal_timeout = from_secs (as_secs (relay_now + reservation_duration) - as_secs now
                - (as_secs (relay_now + reservation_duration) - as_secs now) div 4),
              reserved_addrs = addrs,
              reserved_limit = Some \<lparr>lim_duration = Some (from_secs (as_secs max_circuit_duration)), data_in_bytes = Some max_circuit_bytes\<rparr>\<rparr>)" for now
    by (simp add: make_reservation_def m_def all_some_addrs [OF assms(1), unfolded map_map] limit_from_def Let_def)
  have "make_reservation B now (Inr ()) (Inr ()) (Some (Inr m)) = Inr r \<Longrightarrow> as_secs now + 4 \<le> as_secs (relay_now + reservation_duration)
      \<Longrightarrow> now + renewal_timeout r < relay_now + reservation_duration" for now r
    using renewal_in_time [of now "relay_now + reservation_duration"] by (auto simp: outcome split: if_splits)
  with received accepted outcome deny_is_refused show ?thesis by blast
qed

theorem reservation_handshake_witness:
  "\<exists>req m. handle_inbound_request demo_ext 1 (from_secs 3600) (from_secs 120) 1000 (Some (Inr reserve_msg)) = Inr (Inl req)
    \<and> reservation_accept demo_ma_bin 0 [[Ip4 (Ipv4 1 2 3 4), Tcp 80, P2p 7]] req = Some m
    \<and> make_reservation demo_ma_bin (from_secs 100) (Inr ()) (Inr ()) (Some (Inr m)) =
        Inr \<lparr>renewal_timeout = from_secs 2625, reserved_addrs = [[Ip4 (Ipv4 1 2 3 4), Tcp 80, P2p 7]],
          reserved_limit = Some \<lparr>lim_duration = Some (from_secs 120), data_in_bytes = Some 1000\<rparr>\<rparr>"
  using reservation_handshake [OF demo_ma_bin_law, of "from_secs 120" 0 "from_secs 3600" demo_ext 1 1000 "[[Ip4 (Ipv4 1 2 3 4), Tcp 80, P2p 7]]"]
  by (auto simp: as_secs_def from_secs_def)



end
