(* ===== verification/Rate_Limiter.thy ===== *)
theory Rate_Limiter
  imports Multiaddr
begin

text \<open>
  \<open>external/libp2p-relay/src/behaviour/rate_limiter.rs\<close>: the token bucket that limits reservations
  and circuits per peer and per IP. Times are nanoseconds of a monotonic clock. \<open>None\<close> is a panic
  (an \<open>assert!\<close> or \<open>expect\<close>) or a loop that does not end; the theorem shows that neither happens
  and that the bucket enforces its rate.
\<close>

section \<open>The limiter\<close>

record 'id GenericRateLimiter =
  rl_limit :: nat
  rl_interval :: nat
  refill_schedule :: "(nat \<times> 'id) list"
  buckets :: "('id, nat) fmap"

definition rl_new :: "nat \<Rightarrow> nat \<Rightarrow> 'id GenericRateLimiter option" where
  "rl_new limit interval = (if interval = 0 then None
     else Some \<lparr>rl_limit = limit, rl_interval = interval, refill_schedule = [], buckets = fmempty\<rparr>)"

text \<open>Whole microseconds of the elapsed time over whole microseconds of the interval, as a \<open>u32\<close>.\<close>

definition new_tokens :: "nat \<Rightarrow> nat \<Rightarrow> nat" where
  "new_tokens elapsed interval =
     (if interval div 1000 = 0 then 2 ^ 32 - 1
      else let i = elapsed div 1000 div (interval div 1000) in if i < 2 ^ 32 then i else 2 ^ 32 - 1)"

partial_function (option) refill :: "nat \<Rightarrow> 'id GenericRateLimiter \<Rightarrow> 'id GenericRateLimiter option" where
  "refill now s = (case refill_schedule s of
     [] \<Rightarrow> Some s
   | (last_refill, id1) # rest \<Rightarrow>
       if now - last_refill < rl_interval s then Some s
       else (case fmlookup (buckets s) id1 of
          None \<Rightarrow> None
        | Some balance \<Rightarrow>
            let new_balance = sat_add 32 balance (new_tokens (now - last_refill) (rl_interval s))
            in if new_balance < rl_limit s
               then refill now (s\<lparr>buckets := fmupd id1 new_balance (buckets s), refill_schedule := rest @ [(now, id1)]\<rparr>)
               else refill now (s\<lparr>buckets := fmdrop id1 (buckets s), refill_schedule := rest\<rparr>)))"

definition try_next :: "'id \<Rightarrow> nat \<Rightarrow> 'id GenericRateLimiter \<Rightarrow> (bool \<times> 'id GenericRateLimiter) option" where
  "try_next id1 now s = Option.bind (refill now s) (\<lambda>s. case fmlookup (buckets s) id1 of
     Some balance \<Rightarrow> if 1 \<le> balance then Some (True, s\<lparr>buckets := fmupd id1 (balance - 1) (buckets s)\<rparr>) else Some (False, s)
   | None \<Rightarrow> Some (True, s\<lparr>buckets := fmupd id1 (rl_limit s - 1) (buckets s), refill_schedule := refill_schedule s @ [(now, id1)]\<rparr>))"

fun multiaddr_to_ip :: "'p multiaddr \<Rightarrow> ip_addr option" where
  "multiaddr_to_ip [] = None"
| "multiaddr_to_ip (protocol # rest) = (case protocol of Ip4 ip \<Rightarrow> Some (V4 ip) | Ip6 ip \<Rightarrow> Some (V6 ip) | _ \<Rightarrow> multiaddr_to_ip rest)"

definition try_next_per_peer :: "'p \<Rightarrow> 'p multiaddr \<Rightarrow> nat \<Rightarrow> 'p GenericRateLimiter \<Rightarrow> (bool \<times> 'p GenericRateLimiter) option" where
  "try_next_per_peer peer_id addr now s = try_next peer_id now s"

definition try_next_per_ip :: "'p \<Rightarrow> 'p multiaddr \<Rightarrow> nat \<Rightarrow> ip_addr GenericRateLimiter \<Rightarrow> (bool \<times> ip_addr GenericRateLimiter) option" where
  "try_next_per_ip peer_id addr now s = (case multiaddr_to_ip addr of None \<Rightarrow> Some (True, s) | Some ip \<Rightarrow> try_next ip now s)"

section \<open>A run of requests\<close>

text \<open>Requests are (time, client) pairs; the answers come in the same order.\<close>

primrec rl_run :: "(nat \<times> 'id) list \<Rightarrow> 'id GenericRateLimiter \<Rightarrow> (bool list \<times> 'id GenericRateLimiter) option" where
  "rl_run [] s = Some ([], s)"
| "rl_run (r # rs) s = Option.bind (try_next (snd r) (fst r) s) (\<lambda>(a, s).
     Option.bind (rl_run rs s) (\<lambda>(answers, s). Some (a # answers, s)))"

definition granted :: "'id \<Rightarrow> (nat \<times> 'id) list \<Rightarrow> bool list \<Rightarrow> nat" where
  "granted id1 rs answers = length (filter (\<lambda>(r, a). snd r = id1 \<and> a) (zip rs answers))"

section \<open>The invariant\<close>

definition rl_ok :: "nat \<Rightarrow> 'id GenericRateLimiter \<Rightarrow> bool" where
  "rl_ok now s \<longleftrightarrow> 1000 \<le> rl_interval s \<and> 1 \<le> rl_limit s \<and> rl_limit s < 2 ^ 32
     \<and> distinct (map snd (refill_schedule s)) \<and> (\<forall>id1. id1 \<in> snd ` set (refill_schedule s) \<longleftrightarrow> fmlookup (buckets s) id1 \<noteq> None)
     \<and> (\<forall>r\<in>set (refill_schedule s). fst r \<le> now)
     \<and> (\<forall>id1 b. fmlookup (buckets s) id1 = Some b \<longrightarrow> b < rl_limit s)"

text \<open>Tokens earned since the start of the run.\<close>

definition earned :: "'id GenericRateLimiter \<Rightarrow> nat \<Rightarrow> nat \<Rightarrow> nat" where
  "earned s start t = (t - start) div 1000 div (rl_interval s div 1000)"

text \<open>The ledger: what a client was granted and what it still has is covered by the initial bucket
  and what it earned by its last refill, or by now when it has no bucket.\<close>

definition covered :: "nat \<Rightarrow> nat \<Rightarrow> ('id \<Rightarrow> nat) \<Rightarrow> 'id GenericRateLimiter \<Rightarrow> bool" where
  "covered start now used s \<longleftrightarrow>
     (\<forall>t id1. (t, id1) \<in> set (refill_schedule s) \<longrightarrow> start \<le> t
        \<and> used id1 + the (fmlookup (buckets s) id1) \<le> rl_limit s + earned s start t)
     \<and> (\<forall>id1. fmlookup (buckets s) id1 = None \<longrightarrow> used id1 \<le> earned s start now)"

lemma div_add_le: "a div k + b div k \<le> (a + b) div (k :: nat)"
  by (subst div_add1_eq) simp

lemma new_tokens_le: "1000 \<le> interval \<Longrightarrow> new_tokens elapsed interval \<le> elapsed div 1000 div (interval div 1000)"
proof -
  assume "1000 \<le> interval"
  then have "interval div 1000 \<noteq> 0" by (simp add: div_eq_0_iff)
  then show ?thesis by (simp add: new_tokens_def Let_def)
qed

lemma earned_add:
  assumes "1000 \<le> rl_interval s" and "start \<le> t" and "t \<le> now"
  shows "earned s start t + new_tokens (now - t) (rl_interval s) \<le> earned s start now"
proof -
  have "(t - start) div 1000 div (rl_interval s div 1000) + (now - t) div 1000 div (rl_interval s div 1000)
      \<le> ((t - start) div 1000 + (now - t) div 1000) div (rl_interval s div 1000)" by (rule div_add_le)
  also have "\<dots> \<le> (t - start + (now - t)) div 1000 div (rl_interval s div 1000)" by (intro div_le_mono div_add_le)
  finally show ?thesis using new_tokens_le [OF assms(1), of "now - t"] assms(2,3) by (simp add: earned_def)
qed

lemma earned_mono: "t \<le> now \<Longrightarrow> earned s start t \<le> earned s start now"
  unfolding earned_def by (intro div_le_mono) simp

lemma rl_okD:
  "rl_ok now s \<Longrightarrow> 1000 \<le> rl_interval s" "rl_ok now s \<Longrightarrow> distinct (map snd (refill_schedule s))"
  "rl_ok now s \<Longrightarrow> id1 \<in> snd ` set (refill_schedule s) \<longleftrightarrow> fmlookup (buckets s) id1 \<noteq> None"
  "rl_ok now s \<Longrightarrow> (t, id1) \<in> set (refill_schedule s) \<Longrightarrow> t \<le> now"
  "rl_ok now s \<Longrightarrow> 1 \<le> rl_limit s"
  by (auto simp: rl_ok_def)

lemma rl_ok_later: "rl_ok now s \<Longrightarrow> now \<le> later \<Longrightarrow> rl_ok later s"
  by (auto simp: rl_ok_def)

lemma covered_later: "covered start now used s \<Longrightarrow> now \<le> later \<Longrightarrow> covered start later used s"
  unfolding covered_def using le_trans [OF _ earned_mono [of now later s start]] by blast

lemma earned_update [simp]:
  "earned (s\<lparr>buckets := b, refill_schedule := r\<rparr>) = earned s" "earned (s\<lparr>buckets := b\<rparr>) = earned s"
  by (simp_all add: earned_def fun_eq_iff)

text \<open>One turn of the refill loop: the first client of the schedule is refilled or forgotten.\<close>

lemma refill_turn:
  assumes ok: "rl_ok now s" and cov: "covered start now used s"
    and first: "refill_schedule s = (t, id1) # rest" and bal: "fmlookup (buckets s) id1 = Some balance"
    and nb: "nb = sat_add 32 balance (new_tokens (now - t) (rl_interval s))"
  shows "nb < rl_limit s \<Longrightarrow> rl_ok now (s\<lparr>buckets := fmupd id1 nb (buckets s), refill_schedule := rest @ [(now, id1)]\<rparr>)
      \<and> covered start now used (s\<lparr>buckets := fmupd id1 nb (buckets s), refill_schedule := rest @ [(now, id1)]\<rparr>)"
    and "\<not> nb < rl_limit s \<Longrightarrow> rl_ok now (s\<lparr>buckets := fmdrop id1 (buckets s), refill_schedule := rest\<rparr>)
      \<and> covered start now used (s\<lparr>buckets := fmdrop id1 (buckets s), refill_schedule := rest\<rparr>)"
proof -
  have others: "id1 \<notin> snd ` set rest" using rl_okD(2) [OF ok] by (simp add: first)
  have t: "t \<le> now" "start \<le> t" using rl_okD(4) [OF ok, of t id1] cov by (auto simp: first covered_def)
  have used: "used id1 + balance \<le> rl_limit s + earned s start t" using cov bal by (auto simp: covered_def first)
  have "nb \<le> balance + new_tokens (now - t) (rl_interval s)" unfolding nb by (rule sat_add_le)
  with used earned_add [OF rl_okD(1) [OF ok] t(2,1)] have now_used: "used id1 + nb \<le> rl_limit s + earned s start now" by linarith
  have dom: "id2 = id1 \<or> id2 \<in> snd ` set rest \<longleftrightarrow> fmlookup (buckets s) id2 \<noteq> None" for id2
    using rl_okD(3) [OF ok, of id2] by (simp add: first)
  have rest_cov: "start \<le> u \<and> used id2 + the (fmlookup (buckets s) id2) \<le> rl_limit s + earned s start u"
    if "(u, id2) \<in> set rest" for u id2
    using that cov by (auto simp: covered_def first)
  have other: "id2 \<noteq> id1" if "(u, id2) \<in> set rest" for u id2 using that others by (auto simp: image_iff)
  { assume small: "nb < rl_limit s"
    let ?s = "s\<lparr>buckets := fmupd id1 nb (buckets s), refill_schedule := rest @ [(now, id1)]\<rparr>"
    have "rl_ok now ?s" unfolding rl_ok_def
      using ok [unfolded rl_ok_def] others small by (simp add: first dom [symmetric]) blast
    moreover have "covered start now used ?s"
      using cov now_used rest_cov other t by (auto simp: covered_def)
    ultimately show "rl_ok now ?s \<and> covered start now used ?s" .. }
  { assume big: "\<not> nb < rl_limit s"
    let ?s = "s\<lparr>buckets := fmdrop id1 (buckets s), refill_schedule := rest\<rparr>"
    have "rl_ok now ?s" unfolding rl_ok_def
      using ok [unfolded rl_ok_def] others by (simp add: first dom [symmetric]) blast
    moreover have "used id1 \<le> earned s start now" using now_used big by linarith
    then have "covered start now used ?s" using cov rest_cov other by (auto simp: covered_def)
    ultimately show "rl_ok now ?s \<and> covered start now used ?s" .. }
qed

text \<open>The refill loop ends, without panic: every turn leaves one due client fewer.\<close>

definition due_count :: "nat \<Rightarrow> 'id GenericRateLimiter \<Rightarrow> nat" where
  "due_count now s = length (filter (\<lambda>r. rl_interval s \<le> now - fst r) (refill_schedule s))"

lemma refill_returns:
  "rl_ok now s \<Longrightarrow> covered start now used s \<Longrightarrow>
     \<exists>s'. refill now s = Some s' \<and> rl_ok now s' \<and> covered start now used s' \<and> rl_limit s' = rl_limit s \<and> rl_interval s' = rl_interval s"
proof (induction "due_count now s" arbitrary: s rule: less_induct)
  case less
  show ?case
  proof (cases "refill_schedule s")
    case Nil
    then show ?thesis using less.prems by (subst refill.simps) simp
  next
    case (Cons r rest)
    obtain t id1 where r: "r = (t, id1)" by (cases r)
    show ?thesis
    proof (cases "now - t < rl_interval s")
      case True
      then show ?thesis using less.prems by (subst refill.simps) (simp add: Cons r)
    next
      case due: False
      obtain balance where bal: "fmlookup (buckets s) id1 = Some balance"
        using rl_okD(3) [OF less.prems(1), of id1] by (auto simp: Cons r)
      have pos: "0 < rl_interval s" using rl_okD(1) [OF less.prems(1)] by simp
      define nb where "nb = sat_add 32 balance (new_tokens (now - t) (rl_interval s))"
      note turn = refill_turn [OF less.prems Cons [unfolded r] bal nb_def]
      define s1 where "s1 = (if nb < rl_limit s
        then s\<lparr>buckets := fmupd id1 nb (buckets s), refill_schedule := rest @ [(now, id1)]\<rparr>
        else s\<lparr>buckets := fmdrop id1 (buckets s), refill_schedule := rest\<rparr>)"
      have step: "refill now s = refill now s1"
        using due by (subst refill.simps) (simp add: Cons r bal s1_def flip: nb_def)
      have "rl_ok now s1" "covered start now used s1" using turn by (simp_all add: s1_def)
      moreover have "due_count now s1 < due_count now s" using due pos by (simp add: due_count_def s1_def Cons r)
      ultimately obtain s' where "refill now s1 = Some s'" "rl_ok now s'" "covered start now used s'"
          "rl_limit s' = rl_limit s1" "rl_interval s' = rl_interval s1"
        using less.hyps [of s1] by blast
      then show ?thesis by (simp add: step s1_def split: if_splits)
    qed
  qed
qed

lemma try_next_returns:
  assumes "rl_ok now s" and "covered start now used s" and "start \<le> now"
  shows "\<exists>a s'. try_next id1 now s = Some (a, s') \<and> rl_ok now s'
    \<and> covered start now (if a then used(id1 := Suc (used id1)) else used) s'
    \<and> rl_limit s' = rl_limit s \<and> rl_interval s' = rl_interval s"
proof -
  obtain s1 where s1: "refill now s = Some s1" "rl_ok now s1" "covered start now used s1"
      "rl_limit s1 = rl_limit s" "rl_interval s1 = rl_interval s"
    using refill_returns [OF assms(1,2)] by blast
  show ?thesis
  proof (cases "fmlookup (buckets s1) id1")
    case None
    then have fresh: "id1 \<notin> snd ` set (refill_schedule s1)" using rl_okD(3) [OF s1(2), of id1] by auto
    let ?s = "s1\<lparr>buckets := fmupd id1 (rl_limit s1 - 1) (buckets s1), refill_schedule := refill_schedule s1 @ [(now, id1)]\<rparr>"
    have "rl_ok now ?s" using s1(2) fresh by (auto simp: rl_ok_def)
    moreover have "covered start now (used(id1 := Suc (used id1))) ?s"
      using s1(3) fresh None rl_okD(5) [OF s1(2)] assms(3) by (force simp: covered_def)
    ultimately show ?thesis using s1 None by (intro exI [of _ True] exI [of _ ?s]) (simp add: try_next_def)
  next
    case (Some balance)
    show ?thesis
    proof (cases "1 \<le> balance")
      case True
      let ?s = "s1\<lparr>buckets := fmupd id1 (balance - 1) (buckets s1)\<rparr>"
      have "balance - 1 < rl_limit s1" using s1(2) Some by (auto simp: rl_ok_def intro: less_imp_diff_less)
      then have "rl_ok now ?s" using s1(2) Some by (auto simp: rl_ok_def)
      moreover have "covered start now (used(id1 := Suc (used id1))) ?s"
        using s1(3) Some True by (fastforce simp: covered_def)
      ultimately show ?thesis using s1 Some True by (intro exI [of _ True] exI [of _ ?s]) (simp add: try_next_def)
    next
      case False
      then show ?thesis using s1 Some by (intro exI [of _ False] exI [of _ s1]) (simp add: try_next_def)
    qed
  qed
qed

lemma rl_run_returns:
  "rl_ok now s \<Longrightarrow> covered start now used s \<Longrightarrow> start \<le> now \<Longrightarrow> sorted (now # map fst rs) \<Longrightarrow>
     \<exists>answers s'. rl_run rs s = Some (answers, s') \<and> length answers = length rs \<and> rl_ok (last (now # map fst rs)) s'
       \<and> covered start (last (now # map fst rs)) (\<lambda>id1. used id1 + granted id1 rs answers) s'
       \<and> rl_limit s' = rl_limit s \<and> rl_interval s' = rl_interval s"
proof (induction rs arbitrary: now s used)
  case (Cons r rs)
  obtain t id1 where r: "r = (t, id1)" by (cases r)
  have t: "now \<le> t" using Cons.prems(4) by (simp add: r)
  have "start \<le> t" using t Cons.prems(3) by simp
  from try_next_returns [OF rl_ok_later [OF Cons.prems(1) t] covered_later [OF Cons.prems(2) t] this, of id1] obtain a s1 where a: "try_next id1 t s = Some (a, s1)" "rl_ok t s1"
      "covered start t (if a then used(id1 := Suc (used id1)) else used) s1"
      "rl_limit s1 = rl_limit s" "rl_interval s1 = rl_interval s"
    by (elim exE conjE) (rule that)
  have "sorted (t # map fst rs)" using Cons.prems(4) by (simp add: r)
  from Cons.IH [OF a(2,3) \<open>start \<le> t\<close> this] obtain answers s' where
      run: "rl_run rs s1 = Some (answers, s')" "length answers = length rs" "rl_ok (last (t # map fst rs)) s'"
      "covered start (last (t # map fst rs)) (\<lambda>id2. (if a then used(id1 := Suc (used id1)) else used) id2 + granted id2 rs answers) s'"
      "rl_limit s' = rl_limit s1" "rl_interval s' = rl_interval s1" by (elim exE conjE) (rule that)
  have total: "(\<lambda>id2. (if a then used(id1 := Suc (used id1)) else used) id2 + granted id2 rs answers)
      = (\<lambda>id2. used id2 + granted id2 (r # rs) (a # answers))"
    by (auto simp: granted_def r fun_eq_iff)
  have ran: "rl_run (r # rs) s = Some (a # answers, s')" using a(1) run(1) by (simp add: r)
  have last: "last (now # map fst (r # rs)) = last (t # map fst rs)" by (simp add: r)
  show ?case
    by (intro exI [of _ "a # answers"] exI [of _ s'] conjI ran)
      (use run(2,3,5,6) run(4) [unfolded total] a(4,5) in \<open>simp_all only: last list.size\<close>)
qed (simp add: granted_def)

lemma covered_granted: "rl_ok now s \<Longrightarrow> covered start now used s \<Longrightarrow> used id1 \<le> rl_limit s + earned s start now"
proof (cases "fmlookup (buckets s) id1")
  case (Some b)
  assume ok: "rl_ok now s" and cov: "covered start now used s"
  then obtain t where t: "(t, id1) \<in> set (refill_schedule s)" using rl_okD(3) [OF ok, of id1] Some by auto
  have "used id1 \<le> rl_limit s + earned s start t" using cov t by (force simp: covered_def)
  also have "\<dots> \<le> rl_limit s + earned s start now" using rl_okD(4) [OF ok t] by (simp add: earned_mono)
  finally show ?thesis .
qed (auto simp: covered_def intro: trans_le_add2)

text \<open>C13. The rate limiter. For an interval of at least a microsecond and requests in order of time,
  the limiter answers every request, it never panics and its refill loop ends; and no client is granted
  more than the bucket size plus one request per interval since the first request.\<close>

theorem rate_limiter_bound:
  assumes "rl_new limit interval = Some s" and "1 \<le> limit" and "limit < 2 ^ 32" and "1000 \<le> interval"
    and "sorted (start # map fst rs)"
  shows "\<exists>answers s'. rl_run rs s = Some (answers, s') \<and> length answers = length rs
    \<and> granted id1 rs answers \<le> limit + (last (start # map fst rs) - start) div 1000 div (interval div 1000)"
proof -
  have s: "s = \<lparr>rl_limit = limit, rl_interval = interval, refill_schedule = [], buckets = fmempty\<rparr>"
    using assms(1,4) by (simp add: rl_new_def split: if_splits)
  have "rl_ok start s" using assms by (simp add: rl_ok_def s)
  moreover have "covered start start (\<lambda>_. 0) s" by (simp add: covered_def s)
  ultimately obtain answers s' where run: "rl_run rs s = Some (answers, s')" "length answers = length rs"
      "rl_ok (last (start # map fst rs)) s'"
      "covered start (last (start # map fst rs)) (\<lambda>id1. 0 + granted id1 rs answers) s'"
      "rl_limit s' = limit" "rl_interval s' = interval"
    using rl_run_returns [of start s start "\<lambda>_. 0" rs] assms(5) s by fastforce
  from covered_granted [OF run(3,4), of id1] run show ?thesis by (auto simp: earned_def)
qed

theorem rate_limiter_bound_witness:
  "\<exists>answers s'. rl_run [(0, ''a''), (0, ''a''), (0, ''a''), (60000000000, ''a'')]
      \<lparr>rl_limit = 2, rl_interval = 60000000000, refill_schedule = [], buckets = fmempty\<rparr> = Some (answers, s')
    \<and> granted ''a'' [(0, ''a''), (0, ''a''), (0, ''a''), (60000000000, ''a'')] answers \<le> 3"
proof -
  have "rl_new 2 60000000000 = Some \<lparr>rl_limit = 2, rl_interval = 60000000000, refill_schedule = [], buckets = fmempty\<rparr>"
    by (simp add: rl_new_def)
  from rate_limiter_bound [OF this, of 0 "[(0, ''a''), (0, ''a''), (0, ''a''), (60000000000, ''a'')]" "''a''"]
  show ?thesis by auto
qed

end
