(* ===== verification/Relay_Server.thy ===== *)
theory Relay_Server
  imports Relay_Protocol Rate_Limiter
begin

text \<open>
  The relay server, \<open>external/libp2p-relay/src/behaviour.rs\<close>: which reservations and circuits it
  admits, what it tells the connection handlers and which events it reports, and
  \<open>connectivity/relay/config.rs\<close> (\<open>to_libp2p_config\<close>), which configures it. The table of external
  addresses belongs to libp2p: its content after an event, and whether the event changed it, are
  arguments. The counters of a circuit are read through their handle from a store. \<open>None\<close> is a panic
  (\<open>assert!\<close>, \<open>expect\<close>, \<open>unreachable!\<close>). The waker of the behaviour has no effect on its state.
\<close>

section \<open>Configuration\<close>

datatype 'p RateLimiter = PerPeer "'p GenericRateLimiter" | PerIp "ip_addr GenericRateLimiter"

definition new_per_peer :: "nat \<Rightarrow> nat \<Rightarrow> 'p RateLimiter option" where
  "new_per_peer limit interval = map_option PerPeer (rl_new limit interval)"

definition new_per_ip :: "nat \<Rightarrow> nat \<Rightarrow> 'p RateLimiter option" where
  "new_per_ip limit interval = map_option PerIp (rl_new limit interval)"

definition limiter_try_next :: "'p \<Rightarrow> 'p multiaddr \<Rightarrow> nat \<Rightarrow> 'p RateLimiter \<Rightarrow> (bool \<times> 'p RateLimiter) option" where
  "limiter_try_next peer addr now l = (case l of
     PerPeer s \<Rightarrow> map_option (\<lambda>(ok, s). (ok, PerPeer s)) (try_next_per_peer peer addr now s)
   | PerIp s \<Rightarrow> map_option (\<lambda>(ok, s). (ok, PerIp s)) (try_next_per_ip peer addr now s))"

text \<open>\<open>iter_mut().all(...)\<close>: the limiters after the first refusal are not asked.\<close>

fun limiters_try_next :: "'p \<Rightarrow> 'p multiaddr \<Rightarrow> nat \<Rightarrow> 'p RateLimiter list \<Rightarrow> (bool \<times> 'p RateLimiter list) option" where
  "limiters_try_next peer addr now [] = Some (True, [])"
| "limiters_try_next peer addr now (l # ls) = Option.bind (limiter_try_next peer addr now l) (\<lambda>(ok, l).
     if ok then map_option (\<lambda>(ok, ls). (ok, l # ls)) (limiters_try_next peer addr now ls) else Some (False, l # ls))"

record 'p relay_Config =
  max_reservations :: nat
  max_reservations_per_peer :: nat
  reservation_duration :: nat
  reservation_rate_limiters :: "'p RateLimiter list"
  max_circuits :: nat
  max_circuits_per_peer :: nat
  max_circuit_duration :: nat
  max_circuit_bytes :: nat
  circuit_src_rate_limiters :: "'p RateLimiter list"

definition reservation_rate_per_peer :: "nat \<Rightarrow> nat \<Rightarrow> 'p relay_Config \<Rightarrow> 'p relay_Config option" where
  "reservation_rate_per_peer limit interval c = map_option (\<lambda>l. c\<lparr>reservation_rate_limiters := reservation_rate_limiters c @ [l]\<rparr>) (new_per_peer limit interval)"

definition circuit_src_per_peer :: "nat \<Rightarrow> nat \<Rightarrow> 'p relay_Config \<Rightarrow> 'p relay_Config option" where
  "circuit_src_per_peer limit interval c = map_option (\<lambda>l. c\<lparr>circuit_src_rate_limiters := circuit_src_rate_limiters c @ [l]\<rparr>) (new_per_peer limit interval)"

definition reservation_rate_per_ip :: "nat \<Rightarrow> nat \<Rightarrow> 'p relay_Config \<Rightarrow> 'p relay_Config option" where
  "reservation_rate_per_ip limit interval c = map_option (\<lambda>l. c\<lparr>reservation_rate_limiters := reservation_rate_limiters c @ [l]\<rparr>) (new_per_ip limit interval)"

definition circuit_src_per_ip :: "nat \<Rightarrow> nat \<Rightarrow> 'p relay_Config \<Rightarrow> 'p relay_Config option" where
  "circuit_src_per_ip limit interval c = map_option (\<lambda>l. c\<lparr>circuit_src_rate_limiters := circuit_src_rate_limiters c @ [l]\<rparr>) (new_per_ip limit interval)"

definition relay_config_default :: "'p relay_Config option" where
  "relay_config_default =
     Option.bind (new_per_peer 30 (from_secs (60 * 2))) (\<lambda>r1. Option.bind (new_per_ip 60 (from_secs 60)) (\<lambda>r2.
     Option.bind (new_per_peer 30 (from_secs (60 * 2))) (\<lambda>c1. Option.bind (new_per_ip 60 (from_secs 60)) (\<lambda>c2.
       Some \<lparr>max_reservations = 128, max_reservations_per_peer = 4, reservation_duration = from_secs (60 * 60),
         reservation_rate_limiters = [r1, r2], max_circuits = 16, max_circuits_per_peer = 4,
         max_circuit_duration = from_secs (2 * 60), max_circuit_bytes = 2 ^ 17, circuit_src_rate_limiters = [c1, c2]\<rparr>))))"

definition per_minute :: "(nat \<Rightarrow> nat \<Rightarrow> 'p relay_Config \<Rightarrow> 'p relay_Config option) \<Rightarrow> nat \<Rightarrow> 'p relay_Config \<Rightarrow> 'p relay_Config option" where
  "per_minute add rate c = (if rate = 0 then Some c else add rate (from_secs 60) c)"

definition to_libp2p_config :: "RelayServiceConfig \<Rightarrow> 'p relay_Config option" where
  "to_libp2p_config r =
     Option.bind (per_minute reservation_rate_per_peer (reservation_rate_per_peer_per_min r)
       \<lparr>max_reservations = rs_max_reservations r, max_reservations_per_peer = rs_max_reservations_per_peer r,
        reservation_duration = from_secs (reservation_duration_secs r), reservation_rate_limiters = [],
        max_circuits = rs_max_circuits r, max_circuits_per_peer = rs_max_circuits_per_peer r,
        max_circuit_duration = from_secs (min (max_circuit_duration_secs r) (2 ^ 32 - 1)),
        max_circuit_bytes = rs_max_circuit_bytes r, circuit_src_rate_limiters = []\<rparr>) (\<lambda>c.
     Option.bind (per_minute reservation_rate_per_ip (reservation_rate_per_ip_per_min r) c) (\<lambda>c.
     Option.bind (per_minute circuit_src_per_peer (circuit_rate_per_peer_per_min r) c) (\<lambda>c.
       per_minute circuit_src_per_ip (circuit_rate_per_ip_per_min r) c)))"

section \<open>Messages and events\<close>

datatype Status = Enable | Disable

datatype Reservation = Active | NoReservationYet

definition is_active :: "Reservation \<Rightarrow> bool" where
  "is_active r \<longleftrightarrow> r = Active"

text \<open>Both ends of a connection as libp2p reports them.\<close>

datatype 'p ConnectedPoint = Dialer "'p multiaddr" | Listener "'p multiaddr" "'p multiaddr"

primrec get_remote_address :: "'p ConnectedPoint \<Rightarrow> 'p multiaddr" where
  "get_remote_address (Dialer address) = address"
| "get_remote_address (Listener local_addr send_back_addr) = send_back_addr"

definition is_relayed :: "'p multiaddr \<Rightarrow> bool" where
  "is_relayed a \<longleftrightarrow> list_ex (\<lambda>p. p = P2pCircuit) a"

primrec endpoint_is_relayed :: "'p ConnectedPoint \<Rightarrow> bool" where
  "endpoint_is_relayed (Dialer address) = is_relayed address"
| "endpoint_is_relayed (Listener local_addr send_back_addr) = is_relayed local_addr"

datatype 'p handler_In =
    AcceptReservationReq ReservationReq "'p multiaddr list"
  | DenyReservationReq ReservationReq proto_Status
  | DenyCircuitReq "nat option" "'p CircuitReq" proto_Status
  | NegotiateOutboundConnect nat "'p CircuitReq" 'p nat
  | AcceptAndDriveCircuit nat 'p "'p CircuitReq" nat "u8 list"
  | SetStatus Status

datatype 'p handler_Event =
    HReservationReqReceived ReservationReq "'p ConnectedPoint" bool
  | HReservationReqAccepted bool
  | HReservationReqAcceptFailed inbound_hop_Error
  | HReservationReqDenied proto_Status
  | HReservationReqDenyFailed inbound_hop_Error
  | HReservationTimedOut
  | HCircuitReqReceived "'p CircuitReq" "'p ConnectedPoint"
  | HCircuitReqDenied "nat option" 'p proto_Status
  | HCircuitReqDenyFailed "nat option" 'p inbound_hop_Error
  | HCircuitReqAccepted nat 'p nat
  | HCircuitReqAcceptFailed nat 'p inbound_hop_Error
  | HOutboundConnectNegotiated nat 'p nat "'p CircuitReq" nat "u8 list"
  | HOutboundConnectNegotiationFailed nat 'p nat "'p CircuitReq" proto_Status outbound_stop_Error
  | HCircuitClosed nat 'p "io_error option"

datatype StatusCode = SC_OK | SC_ReservationRefused | SC_ResourceLimitExceeded | SC_PermissionDenied
  | SC_ConnectionFailed | SC_NoReservation | SC_MalformedMessage | SC_UnexpectedMessage

primrec status_code_from :: "proto_Status \<Rightarrow> StatusCode" where
  "status_code_from Ok = SC_OK"
| "status_code_from ReservationRefused = SC_ReservationRefused"
| "status_code_from ResourceLimitExceeded = SC_ResourceLimitExceeded"
| "status_code_from PermissionDenied = SC_PermissionDenied"
| "status_code_from ConnectionFailed = SC_ConnectionFailed"
| "status_code_from NoReservation = SC_NoReservation"
| "status_code_from MalformedMessage = SC_MalformedMessage"
| "status_code_from UnexpectedMessage = SC_UnexpectedMessage"

datatype 'p relay_Event =
    ReservationReqAccepted 'p bool
  | ReservationReqAcceptFailed 'p inbound_hop_Error
  | ReservationReqDenied 'p StatusCode
  | ReservationReqDenyFailed 'p inbound_hop_Error
  | ReservationClosed 'p
  | ReservationTimedOut 'p
  | CircuitReqDenied 'p 'p StatusCode
  | CircuitReqDenyFailed 'p 'p inbound_hop_Error
  | CircuitReqAccepted 'p 'p nat nat
  | CircuitReqOutboundConnectFailed 'p 'p outbound_stop_Error
  | CircuitReqAcceptFailed 'p 'p inbound_hop_Error
  | CircuitClosed 'p 'p nat CircuitBytes "io_error option"
  | StatusChanged Status

datatype 'p ToSwarm = NotifyHandler 'p nat "'p handler_In" | GenerateEvent "'p relay_Event"

section \<open>Circuits\<close>

datatype CircuitStatus = Accepting | Accepted nat

record 'p Circuit =
  c_src_peer_id :: 'p
  c_src_connection_id :: nat
  c_dst_peer_id :: 'p
  c_dst_connection_id :: nat
  c_status :: CircuitStatus

record 'p CircuitsTracker =
  next_id :: nat
  tracked :: "(nat, 'p Circuit) fmap"

definition tracker_default :: "'p CircuitsTracker" where
  "tracker_default = \<lparr>next_id = 0, tracked = fmempty\<rparr>"

definition tracker_len :: "'p CircuitsTracker \<Rightarrow> nat" where
  "tracker_len t = fmsize (tracked t)"

definition tracker_insert :: "'p Circuit \<Rightarrow> 'p CircuitsTracker \<Rightarrow> nat \<times> 'p CircuitsTracker" where
  "tracker_insert circuit t = (next_id t, \<lparr>next_id = (next_id t + 1) mod 2 ^ 64, tracked = fmupd (next_id t) circuit (tracked t)\<rparr>)"

definition tracker_accepted :: "nat \<Rightarrow> nat \<Rightarrow> 'p CircuitsTracker \<Rightarrow> 'p CircuitsTracker" where
  "tracker_accepted circuit_id usage t = (case fmlookup (tracked t) circuit_id of
     None \<Rightarrow> t | Some c \<Rightarrow> t\<lparr>tracked := fmupd circuit_id (c\<lparr>c_status := Accepted usage\<rparr>) (tracked t)\<rparr>)"

definition tracker_remove :: "nat \<Rightarrow> 'p CircuitsTracker \<Rightarrow> 'p Circuit option \<times> 'p CircuitsTracker" where
  "tracker_remove circuit_id t = (fmlookup (tracked t) circuit_id, t\<lparr>tracked := fmdrop circuit_id (tracked t)\<rparr>)"

definition uses_connection :: "'p \<Rightarrow> nat \<Rightarrow> 'p Circuit \<Rightarrow> bool" where
  "uses_connection peer_id connection_id c \<longleftrightarrow> c_src_peer_id c = peer_id \<and> c_src_connection_id c = connection_id
     \<or> c_dst_peer_id c = peer_id \<and> c_dst_connection_id c = connection_id"

definition remove_by_connection :: "'p \<Rightarrow> nat \<Rightarrow> 'p CircuitsTracker \<Rightarrow> (nat \<times> 'p Circuit) list \<times> 'p CircuitsTracker" where
  "remove_by_connection peer_id connection_id t =
     (filter (\<lambda>(i, c). uses_connection peer_id connection_id c) (map (\<lambda>i. (i, the (fmlookup (tracked t) i))) (sorted_list_of_fset (fmdom (tracked t)))),
      t\<lparr>tracked := fmretain (\<lambda>i c. \<not> uses_connection peer_id connection_id c) (tracked t)\<rparr>)"

definition num_circuits_of_peer :: "'p \<Rightarrow> 'p CircuitsTracker \<Rightarrow> nat" where
  "num_circuits_of_peer peer t = fmsize (fmretain (\<lambda>i c. c_src_peer_id c = peer \<or> c_dst_peer_id c = peer) (tracked t))"

section \<open>The behaviour\<close>

record 'p Behaviour =
  b_config :: "'p relay_Config"
  local_peer_id :: 'p
  connections :: "('p, (nat, Reservation) fmap) fmap"
  circuits :: "'p CircuitsTracker"
  queued_actions :: "'p ToSwarm list"
  external_addresses :: "'p multiaddr list"
  b_status :: Status
  auto_status_change :: bool

definition behaviour_new :: "'p \<Rightarrow> 'p relay_Config \<Rightarrow> 'p Behaviour" where
  "behaviour_new local config = \<lparr>b_config = config, local_peer_id = local, connections = fmempty, circuits = tracker_default,
     queued_actions = [], external_addresses = [], b_status = Disable, auto_status_change = True\<rparr>"

definition push_action :: "'p ToSwarm \<Rightarrow> 'p Behaviour \<Rightarrow> 'p Behaviour" where
  "push_action a b = b\<lparr>queued_actions := queued_actions b @ [a]\<rparr>"

definition push_event :: "'p relay_Event \<Rightarrow> 'p Behaviour \<Rightarrow> 'p Behaviour" where
  "push_event e b = push_action (GenerateEvent e) b"

definition reconfigure_relay_status :: "'p::linorder Behaviour \<Rightarrow> 'p Behaviour" where
  "reconfigure_relay_status b = b\<lparr>queued_actions := queued_actions b @
     concat (map (\<lambda>p. map (\<lambda>i. NotifyHandler p i (SetStatus (b_status b))) (sorted_list_of_fset (fmdom (the (fmlookup (connections b) p)))))
       (sorted_list_of_fset (fmdom (connections b))))\<rparr>"

definition determine_relay_status_from_external_address :: "'p::linorder Behaviour \<Rightarrow> 'p Behaviour" where
  "determine_relay_status_from_external_address b =
     (let old = b_status b;
          new = (if external_addresses b = [] then Disable else Enable);
          b = b\<lparr>b_status := new\<rparr>
      in if new \<noteq> old then push_event (StatusChanged new) (reconfigure_relay_status b) else b)"

definition set_status :: "Status option \<Rightarrow> 'p::linorder Behaviour \<Rightarrow> 'p Behaviour" where
  "set_status status b = (case status of
     Some status \<Rightarrow> let b = b\<lparr>auto_status_change := False\<rparr>
       in if b_status b \<noteq> status then reconfigure_relay_status (b\<lparr>b_status := status\<rparr>) else b
   | None \<Rightarrow> determine_relay_status_from_external_address (b\<lparr>auto_status_change := True\<rparr>))"

definition connections_of :: "'p \<Rightarrow> 'p Behaviour \<Rightarrow> (nat, Reservation) fmap" where
  "connections_of p b = (case fmlookup (connections b) p of None \<Rightarrow> fmempty | Some cs \<Rightarrow> cs)"

definition put_reservation :: "'p \<Rightarrow> nat \<Rightarrow> Reservation \<Rightarrow> 'p Behaviour \<Rightarrow> 'p Behaviour" where
  "put_reservation p i r b = b\<lparr>connections := fmupd p (fmupd i r (connections_of p b)) (connections b)\<rparr>"

definition drop_connection :: "'p \<Rightarrow> nat \<Rightarrow> 'p Behaviour \<Rightarrow> 'p Behaviour" where
  "drop_connection p i b = (let cs = fmdrop i (connections_of p b) in
     b\<lparr>connections := (if fmsize cs = 0 then fmdrop p (connections b) else fmupd p cs (connections b))\<rparr>)"

definition on_connection_established :: "'p \<Rightarrow> nat \<Rightarrow> 'p Behaviour \<Rightarrow> 'p Behaviour" where
  "on_connection_established peer_id connection_id b = put_reservation peer_id connection_id NoReservationYet b"

definition aborted_error :: io_error where
  "aborted_error = \<lparr>err_kind = ConnectionAborted, err_text = ''connection aborted''\<rparr>"

definition close_circuit_event :: "usage_store \<Rightarrow> nat \<times> 'p Circuit \<Rightarrow> 'p ToSwarm list" where
  "close_circuit_event U ic = (case c_status (snd ic) of
     Accepting \<Rightarrow> []
   | Accepted usage \<Rightarrow> [GenerateEvent (CircuitClosed (c_src_peer_id (snd ic)) (c_dst_peer_id (snd ic)) (fst ic) (usage_snapshot U usage) (Some aborted_error))])"

definition on_connection_closed :: "usage_store \<Rightarrow> 'p \<Rightarrow> nat \<Rightarrow> 'p Behaviour \<Rightarrow> 'p Behaviour" where
  "on_connection_closed U peer_id connection_id b =
     (let b = (if fmlookup (connections b) peer_id = None then b
               else let b' = drop_connection peer_id connection_id b
                 in if fmlookup (connections_of peer_id b) connection_id \<noteq> None then push_event (ReservationClosed peer_id) b' else b');
          (removed, t) = remove_by_connection peer_id connection_id (circuits b)
      in b\<lparr>circuits := t, queued_actions := queued_actions b @ concat (map (close_circuit_event U) removed)\<rparr>)"

datatype 'p FromSwarm = ConnectionEstablished 'p nat | ConnectionClosed 'p nat | OtherSwarmEvent

definition on_swarm_event :: "usage_store \<Rightarrow> 'p::linorder multiaddr list \<Rightarrow> bool \<Rightarrow> 'p FromSwarm \<Rightarrow> 'p Behaviour \<Rightarrow> 'p Behaviour" where
  "on_swarm_event U addrs changed event b =
     (let b = b\<lparr>external_addresses := addrs\<rparr>;
          b = (if auto_status_change b \<and> changed then determine_relay_status_from_external_address b else b)
      in case event of
           ConnectionEstablished peer_id connection_id \<Rightarrow> on_connection_established peer_id connection_id b
         | ConnectionClosed peer_id connection_id \<Rightarrow> on_connection_closed U peer_id connection_id b
         | OtherSwarmEvent \<Rightarrow> b)"

definition num_active :: "(nat, Reservation) fmap \<Rightarrow> nat" where
  "num_active cs = fmsum (\<lambda>r. if is_active r then 1 else 0) cs"

definition total_active :: "'p Behaviour \<Rightarrow> nat" where
  "total_active b = fmsum num_active (connections b)"

definition advertised_addr :: "'p \<Rightarrow> 'p multiaddr \<Rightarrow> 'p multiaddr option" where
  "advertised_addr local a = (if a = [] then None else case last a of P2p _ \<Rightarrow> Some a | _ \<Rightarrow> Some (a @ [P2p local]))"

definition on_reservation_req :: "nat \<Rightarrow> 'p::linorder \<Rightarrow> nat \<Rightarrow> ReservationReq \<Rightarrow> 'p ConnectedPoint \<Rightarrow> bool \<Rightarrow> 'p Behaviour \<Rightarrow> 'p Behaviour option" where
  "on_reservation_req now event_source connection req endpoint renewed b =
     (if endpoint_is_relayed endpoint then None
      else let deny = NotifyHandler event_source connection (DenyReservationReq req ResourceLimitExceeded) in
        if \<not> renewed \<and> max_reservations_per_peer (b_config b) < num_active (connections_of event_source b)
          \<or> max_reservations (b_config b) \<le> total_active b
        then Some (push_action deny b)
        else map_option (\<lambda>(ok, limiters).
            let b = b\<lparr>b_config := (b_config b)\<lparr>reservation_rate_limiters := limiters\<rparr>\<rparr> in
            if ok then push_action (NotifyHandler event_source connection
                (AcceptReservationReq req (List.map_filter (advertised_addr (local_peer_id b)) (external_addresses b))))
                (put_reservation event_source connection Active b)
            else push_action deny b)
          (limiters_try_next event_source (get_remote_address endpoint) now (reservation_rate_limiters (b_config b))))"

definition on_circuit_req :: "nat \<Rightarrow> 'p::linorder \<Rightarrow> nat \<Rightarrow> 'p CircuitReq \<Rightarrow> 'p ConnectedPoint \<Rightarrow> 'p Behaviour \<Rightarrow> 'p Behaviour option" where
  "on_circuit_req now event_source connection req endpoint b =
     (if endpoint_is_relayed endpoint then None
      else let deny = (\<lambda>status. NotifyHandler event_source connection (DenyCircuitReq None req status)) in
        if max_circuits_per_peer (b_config b) < num_circuits_of_peer event_source (circuits b)
          \<or> max_circuits (b_config b) \<le> tracker_len (circuits b)
        then Some (push_action (deny ResourceLimitExceeded) b)
        else map_option (\<lambda>(ok, limiters).
            let b = b\<lparr>b_config := (b_config b)\<lparr>circuit_src_rate_limiters := limiters\<rparr>\<rparr> in
            if \<not> ok then push_action (deny ResourceLimitExceeded) b
            else (case find (\<lambda>i. fmlookup (connections_of (cr_dst req) b) i = Some Active) (sorted_list_of_fset (fmdom (connections_of (cr_dst req) b))) of
                Some dst_conn \<Rightarrow>
                  let (circuit_id, t) = tracker_insert \<lparr>c_src_peer_id = event_source, c_src_connection_id = connection,
                        c_dst_peer_id = cr_dst req, c_dst_connection_id = dst_conn, c_status = Accepting\<rparr> (circuits b)
                  in push_action (NotifyHandler event_source dst_conn (NegotiateOutboundConnect circuit_id req event_source connection)) (b\<lparr>circuits := t\<rparr>)
              | None \<Rightarrow> push_action (deny NoReservation) b))
          (limiters_try_next event_source (get_remote_address endpoint) now (circuit_src_rate_limiters (b_config b))))"

definition forget_circuit :: "nat option \<Rightarrow> 'p Behaviour \<Rightarrow> 'p Behaviour" where
  "forget_circuit circuit_id b = (case circuit_id of None \<Rightarrow> b | Some i \<Rightarrow> b\<lparr>circuits := snd (tracker_remove i (circuits b))\<rparr>)"

definition on_connection_handler_event :: "usage_store \<Rightarrow> nat \<Rightarrow> 'p::linorder \<Rightarrow> nat \<Rightarrow> 'p handler_Event \<Rightarrow> 'p Behaviour \<Rightarrow> 'p Behaviour option" where
  "on_connection_handler_event U now event_source connection event b = (case event of
     HReservationReqReceived req endpoint renewed \<Rightarrow> on_reservation_req now event_source connection req endpoint renewed b
   | HReservationReqAccepted renewed \<Rightarrow>
       if fmlookup (connections b) event_source = None then None
       else Some (push_event (ReservationReqAccepted event_source renewed) (put_reservation event_source connection Active b))
   | HReservationReqAcceptFailed error \<Rightarrow> Some (push_event (ReservationReqAcceptFailed event_source error) b)
   | HReservationReqDenied status \<Rightarrow> Some (push_event (ReservationReqDenied event_source (status_code_from status)) b)
   | HReservationReqDenyFailed error \<Rightarrow> Some (push_event (ReservationReqDenyFailed event_source error) b)
   | HReservationTimedOut \<Rightarrow>
       if fmlookup (connections b) event_source = None then None
       else Some (push_event (ReservationTimedOut event_source) (drop_connection event_source connection b))
   | HCircuitReqReceived req endpoint \<Rightarrow> on_circuit_req now event_source connection req endpoint b
   | HCircuitReqDenied circuit_id dst status \<Rightarrow>
       Some (push_event (CircuitReqDenied event_source dst (status_code_from status)) (forget_circuit circuit_id b))
   | HCircuitReqDenyFailed circuit_id dst error \<Rightarrow>
       Some (push_event (CircuitReqDenyFailed event_source dst error) (forget_circuit circuit_id b))
   | HOutboundConnectNegotiated circuit_id src src_connection req stream pending_data \<Rightarrow>
       Some (push_action (NotifyHandler src src_connection (AcceptAndDriveCircuit circuit_id event_source req stream pending_data)) b)
   | HOutboundConnectNegotiationFailed circuit_id src src_connection req status error \<Rightarrow>
       Some (push_event (CircuitReqOutboundConnectFailed src event_source error)
         (push_action (NotifyHandler src src_connection (DenyCircuitReq (Some circuit_id) req status)) b))
   | HCircuitReqAccepted circuit_id dst usage \<Rightarrow>
       Some (push_event (CircuitReqAccepted event_source dst circuit_id usage) (b\<lparr>circuits := tracker_accepted circuit_id usage (circuits b)\<rparr>))
   | HCircuitReqAcceptFailed circuit_id dst error \<Rightarrow>
       Some (push_event (CircuitReqAcceptFailed event_source dst error) (forget_circuit (Some circuit_id) b))
   | HCircuitClosed circuit_id dst error \<Rightarrow>
       let (removed, t) = tracker_remove circuit_id (circuits b);
           bytes = (case map_option c_status removed of Some (Accepted usage) \<Rightarrow> usage_snapshot U usage | _ \<Rightarrow> usage_default)
       in Some (push_event (CircuitClosed event_source dst circuit_id bytes error) (b\<lparr>circuits := t\<rparr>)))"

definition behaviour_poll :: "'p Behaviour \<Rightarrow> 'p ToSwarm option \<times> 'p Behaviour" where
  "behaviour_poll b = (case queued_actions b of [] \<Rightarrow> (None, b) | a # as \<Rightarrow> (Some a, b\<lparr>queued_actions := as\<rparr>))"

end
