(* ===== verification/Relay_Handler.thy ===== *)
theory Relay_Handler
  imports Relay_Server
begin

text \<open>
  The handler of one connection of the relay server, \<open>external/libp2p-relay/src/behaviour/handler.rs\<close>.
  Its futures are kept as the data they were made from; what they answer when they are polled
  is an argument of the poll (\<open>poll_answers\<close>), as are the clock, the timer of the reservation and the handle of a
  fresh counter. \<open>None\<close> is a panic (\<open>expect\<close>).
\<close>

section \<open>State\<close>

definition MAX_CONCURRENT_STREAMS_PER_CONNECTION :: nat where "MAX_CONCURRENT_STREAMS_PER_CONNECTION = 10"
definition STREAM_TIMEOUT :: nat where "STREAM_TIMEOUT = from_secs 60"

record handler_Config =
  hc_reservation_duration :: nat
  hc_max_circuit_duration :: nat
  hc_max_circuit_bytes :: nat

record 'p PendingConnect =
  pc_circuit_id :: nat
  pc_inbound_circuit_req :: "'p CircuitReq"
  pc_src_peer_id :: 'p
  pc_src_connection_id :: nat
  pc_max_circuit_duration :: nat
  pc_max_circuit_bytes :: nat

definition pending_connect_new :: "nat \<Rightarrow> 'p CircuitReq \<Rightarrow> 'p \<Rightarrow> nat \<Rightarrow> handler_Config \<Rightarrow> 'p PendingConnect" where
  "pending_connect_new circuit_id req src_peer_id src_connection_id config = \<lparr>pc_circuit_id = circuit_id, pc_inbound_circuit_req = req,
     pc_src_peer_id = src_peer_id, pc_src_connection_id = src_connection_id,
     pc_max_circuit_duration = hc_max_circuit_duration config, pc_max_circuit_bytes = hc_max_circuit_bytes config\<rparr>"

datatype 'p ReservationRequestFuture = FAccepting ReservationReq "'p multiaddr list" | FDenying ReservationReq proto_Status

datatype 'p handler_output = NotifyBehaviour "'p handler_Event" | OutboundSubstreamRequest

record 'p accept_future =
  af_circuit_id :: nat
  af_dst_peer_id :: 'p
  af_req :: "'p CircuitReq"
  af_dst_stream :: nat
  af_dst_pending_data :: "u8 list"

record 'p deny_future =
  df_circuit_id :: "nat option"
  df_dst_peer_id :: 'p
  df_req :: "'p CircuitReq"
  df_status :: proto_Status

record 'p Handler =
  h_endpoint :: "'p ConnectedPoint"
  h_config :: handler_Config
  queued_events :: "'p handler_output list"
  idle_at :: "nat option"
  reservation_request_future :: "'p ReservationRequestFuture option"
  active_reservation :: "nat option"
  circuit_accept_futures :: "'p accept_future list"
  circuit_deny_futures :: "'p deny_future list"
  h_circuits :: "(nat \<times> 'p \<times> nat) list"
  pending_connect_requests :: "'p PendingConnect list"
  active_connect_requests :: "(nat, 'p PendingConnect) fmap"
  inbound_workers :: "nat list"
  outbound_workers :: "(nat \<times> nat) list"
  h_status :: Status

definition handler_new :: "handler_Config \<Rightarrow> 'p ConnectedPoint \<Rightarrow> Status \<Rightarrow> 'p Handler" where
  "handler_new config endpoint status = \<lparr>h_endpoint = endpoint, h_config = config, queued_events = [], idle_at = None,
     reservation_request_future = None, active_reservation = None, circuit_accept_futures = [], circuit_deny_futures = [],
     h_circuits = [], pending_connect_requests = [], active_connect_requests = fmempty, inbound_workers = [], outbound_workers = [],
     h_status = status\<rparr>"

text \<open>The handler a connection gets: none that speaks the protocol over a relayed connection.\<close>

definition established_handler :: "'p Behaviour \<Rightarrow> 'p ConnectedPoint \<Rightarrow> 'p Handler option" where
  "established_handler b endpoint = (if endpoint_is_relayed endpoint then None
     else Some (handler_new \<lparr>hc_reservation_duration = reservation_duration (b_config b),
       hc_max_circuit_duration = max_circuit_duration (b_config b), hc_max_circuit_bytes = max_circuit_bytes (b_config b)\<rparr> endpoint (b_status b)))"

section \<open>Streams\<close>

definition on_fully_negotiated_inbound :: "nat \<Rightarrow> 'p Handler \<Rightarrow> 'p Handler" where
  "on_fully_negotiated_inbound stream h =
     (if length (inbound_workers h) < MAX_CONCURRENT_STREAMS_PER_CONNECTION then h\<lparr>inbound_workers := inbound_workers h @ [stream]\<rparr> else h)"

definition on_fully_negotiated_outbound :: "nat \<Rightarrow> 'p Handler \<Rightarrow> 'p Handler option" where
  "on_fully_negotiated_outbound stream h = (case pending_connect_requests h of
     [] \<Rightarrow> None
   | connect # rest \<Rightarrow>
       let h = h\<lparr>pending_connect_requests := rest\<rparr>;
           h = (if length (outbound_workers h) < MAX_CONCURRENT_STREAMS_PER_CONNECTION
                then h\<lparr>outbound_workers := outbound_workers h @ [(pc_circuit_id connect, stream)]\<rparr> else h)
       in Some (h\<lparr>active_connect_requests := fmupd (pc_circuit_id connect) connect (active_connect_requests h)\<rparr>))"

datatype StreamUpgradeError = UpgradeTimeout | UpgradeNegotiationFailed | UpgradeIo io_error

definition upgrade_stop_error :: "StreamUpgradeError \<Rightarrow> outbound_stop_Error" where
  "upgrade_stop_error e = (case e of
     UpgradeTimeout \<Rightarrow> StopIo timed_out_error | UpgradeNegotiationFailed \<Rightarrow> StopUnsupported | UpgradeIo e \<Rightarrow> StopIo e)"

definition on_dial_upgrade_error :: "StreamUpgradeError \<Rightarrow> 'p Handler \<Rightarrow> 'p Handler option" where
  "on_dial_upgrade_error error h = (case pending_connect_requests h of
     [] \<Rightarrow> None
   | stop_command # rest \<Rightarrow> Some (h\<lparr>pending_connect_requests := rest,
       queued_events := queued_events h @ [NotifyBehaviour (HOutboundConnectNegotiationFailed (pc_circuit_id stop_command)
         (pc_src_peer_id stop_command) (pc_src_connection_id stop_command) (pc_inbound_circuit_req stop_command)
         ConnectionFailed (upgrade_stop_error error))]\<rparr>))"

datatype connection_event = FullyNegotiatedInbound nat | FullyNegotiatedOutbound nat | DialUpgradeError StreamUpgradeError

definition on_connection_event :: "connection_event \<Rightarrow> 'p Handler \<Rightarrow> 'p Handler option" where
  "on_connection_event event h = (case event of
     FullyNegotiatedInbound stream \<Rightarrow> Some (on_fully_negotiated_inbound stream h)
   | FullyNegotiatedOutbound stream \<Rightarrow> on_fully_negotiated_outbound stream h
   | DialUpgradeError error \<Rightarrow> on_dial_upgrade_error error h)"

definition listens :: "'p Handler \<Rightarrow> bool" where
  "listens h \<longleftrightarrow> h_status h = Enable"

section \<open>Commands of the behaviour\<close>

definition on_behaviour_event :: "'p handler_In \<Rightarrow> 'p Handler \<Rightarrow> 'p Handler" where
  "on_behaviour_event event h = (case event of
     AcceptReservationReq req addrs \<Rightarrow> h\<lparr>reservation_request_future := Some (FAccepting req addrs)\<rparr>
   | DenyReservationReq req status \<Rightarrow> h\<lparr>reservation_request_future := Some (FDenying req status)\<rparr>
   | NegotiateOutboundConnect circuit_id req src_peer_id src_connection_id \<Rightarrow>
       h\<lparr>pending_connect_requests := pending_connect_requests h @ [pending_connect_new circuit_id req src_peer_id src_connection_id (h_config h)],
         queued_events := queued_events h @ [OutboundSubstreamRequest]\<rparr>
   | DenyCircuitReq circuit_id req status \<Rightarrow>
       h\<lparr>circuit_deny_futures := circuit_deny_futures h @ [\<lparr>df_circuit_id = circuit_id, df_dst_peer_id = cr_dst req, df_req = req, df_status = status\<rparr>]\<rparr>
   | AcceptAndDriveCircuit circuit_id dst_peer_id req stream pending_data \<Rightarrow>
       h\<lparr>circuit_accept_futures := circuit_accept_futures h @ [\<lparr>af_circuit_id = circuit_id, af_dst_peer_id = dst_peer_id, af_req = req,
         af_dst_stream = stream, af_dst_pending_data = pending_data\<rparr>]\<rparr>
   | SetStatus status \<Rightarrow> h\<lparr>h_status := status\<rparr>)"

definition connection_keep_alive :: "nat \<Rightarrow> 'p Handler \<Rightarrow> bool" where
  "connection_keep_alive now h \<longleftrightarrow> (case idle_at h of None \<Rightarrow> True | Some at \<Rightarrow> now - at \<le> from_secs 10)"

section \<open>Polling\<close>

text \<open>What the futures answer. A finished future of a list is named by its position.\<close>

record 'p poll_answers =
  circuits_next :: "(nat \<times> (io_error + unit)) option"
  inbound_next :: "(nat \<times> (inbound_hop_Error + (ReservationReq + 'p CircuitReq)) option) list"
  outbound_next :: "(nat \<times> (outbound_stop_Error + StopCircuit) option) option"
  deny_next :: "(nat \<times> (inbound_hop_Error + unit)) option"
  accept_next :: "(nat \<times> (inbound_hop_Error + unit)) option"
  reservation_fired :: bool
  request_result :: "(inbound_hop_Error + unit) option"
  fresh_usage :: nat
  poll_now :: nat

definition remove_nth :: "nat \<Rightarrow> 'a list \<Rightarrow> 'a list" where
  "remove_nth k xs = take k xs @ drop (Suc k) xs"

text \<open>The loop over the inbound workers: timeouts and failures are dropped.\<close>

fun poll_inbound :: "(nat \<times> (inbound_hop_Error + (ReservationReq + 'p CircuitReq)) option) list \<Rightarrow> 'p Handler \<Rightarrow> 'p handler_Event option \<times> 'p Handler" where
  "poll_inbound [] h = (None, h)"
| "poll_inbound ((k, r) # rs) h =
     (let h = h\<lparr>inbound_workers := remove_nth k (inbound_workers h)\<rparr> in case r of
        Some (Inr (Inl req)) \<Rightarrow> (Some (HReservationReqReceived req (h_endpoint h) (active_reservation h \<noteq> None)), h)
      | Some (Inr (Inr req)) \<Rightarrow> (Some (HCircuitReqReceived req (h_endpoint h)), h)
      | _ \<Rightarrow> poll_inbound rs h)"

definition negotiation_failed :: "'p PendingConnect \<Rightarrow> proto_Status \<Rightarrow> outbound_stop_Error \<Rightarrow> 'p handler_Event" where
  "negotiation_failed connect status error = HOutboundConnectNegotiationFailed (pc_circuit_id connect) (pc_src_peer_id connect)
     (pc_src_connection_id connect) (pc_inbound_circuit_req connect) status error"

definition poll_outbound :: "nat \<Rightarrow> (outbound_stop_Error + StopCircuit) option \<Rightarrow> 'p Handler \<Rightarrow> ('p handler_Event \<times> 'p Handler) option" where
  "poll_outbound id1 result h = (case fmlookup (active_connect_requests h) id1 of
     None \<Rightarrow> None
   | Some connect \<Rightarrow>
       let h = h\<lparr>active_connect_requests := fmdrop id1 (active_connect_requests h), outbound_workers := filter (\<lambda>w. fst w \<noteq> id1) (outbound_workers h)\<rparr>
       in case result of
            Some (Inr circuit) \<Rightarrow> Some (HOutboundConnectNegotiated id1 (pc_src_peer_id connect) (pc_src_connection_id connect)
              (pc_inbound_circuit_req connect) (dst_stream circuit) (dst_pending_data circuit), h)
          | Some (Inl error) \<Rightarrow> Some (negotiation_failed connect (to_status error) error, h)
          | None \<Rightarrow> Some (negotiation_failed connect ConnectionFailed (StopIo timed_out_error), h))"

definition poll_deny :: "nat \<Rightarrow> inbound_hop_Error + unit \<Rightarrow> 'p Handler \<Rightarrow> 'p handler_Event \<times> 'p Handler" where
  "poll_deny k result h = (let f = circuit_deny_futures h ! k; h = h\<lparr>circuit_deny_futures := remove_nth k (circuit_deny_futures h)\<rparr> in
     case result of
       Inr _ \<Rightarrow> (HCircuitReqDenied (df_circuit_id f) (df_dst_peer_id f) (df_status f), h)
     | Inl error \<Rightarrow> (HCircuitReqDenyFailed (df_circuit_id f) (df_dst_peer_id f) error, h))"

definition poll_accept :: "nat \<Rightarrow> inbound_hop_Error + unit \<Rightarrow> nat \<Rightarrow> 'p Handler \<Rightarrow> 'p handler_Event \<times> 'p Handler" where
  "poll_accept k result usage h = (let f = circuit_accept_futures h ! k; h = h\<lparr>circuit_accept_futures := remove_nth k (circuit_accept_futures h)\<rparr> in
     case result of
       Inr _ \<Rightarrow> (HCircuitReqAccepted (af_circuit_id f) (af_dst_peer_id f) usage,
          h\<lparr>h_circuits := h_circuits h @ [(af_circuit_id f, af_dst_peer_id f, usage)]\<rparr>)
     | Inl error \<Rightarrow> (HCircuitReqAcceptFailed (af_circuit_id f) (af_dst_peer_id f) error, h))"

definition poll_request :: "inbound_hop_Error + unit \<Rightarrow> 'p Handler \<Rightarrow> 'p handler_Event \<times> 'p Handler" where
  "poll_request result h = (case reservation_request_future h of
     Some (FAccepting req addrs) \<Rightarrow> (let h = h\<lparr>reservation_request_future := None\<rparr> in case result of
        Inr _ \<Rightarrow> (HReservationReqAccepted (active_reservation h \<noteq> None), h\<lparr>active_reservation := Some (hc_reservation_duration (h_config h))\<rparr>)
      | Inl error \<Rightarrow> (HReservationReqAcceptFailed error, h))
   | Some (FDenying req status) \<Rightarrow> (let h = h\<lparr>reservation_request_future := None\<rparr> in case result of
        Inr _ \<Rightarrow> (HReservationReqDenied status, h)
      | Inl error \<Rightarrow> (HReservationReqDenyFailed error, h)))"

definition poll_idle :: "nat \<Rightarrow> 'p Handler \<Rightarrow> 'p Handler" where
  "poll_idle now h = (if active_reservation h = None then (if idle_at h = None then h\<lparr>idle_at := Some now\<rparr> else h) else h\<lparr>idle_at := None\<rparr>)"

definition handler_poll :: "'p poll_answers \<Rightarrow> 'p Handler \<Rightarrow> ('p handler_output option \<times> 'p Handler) option" where
  "handler_poll a h = (case queued_events h of
     event # rest \<Rightarrow> Some (Some event, h\<lparr>queued_events := rest\<rparr>)
   | [] \<Rightarrow> (case circuits_next a of
       Some (k, result) \<Rightarrow>
         let (circuit_id, dst_peer_id, usage) = h_circuits h ! k
         in Some (Some (NotifyBehaviour (HCircuitClosed circuit_id dst_peer_id (case result of Inr _ \<Rightarrow> None | Inl e \<Rightarrow> Some e))),
              h\<lparr>h_circuits := remove_nth k (h_circuits h)\<rparr>)
     | None \<Rightarrow> (case poll_inbound (inbound_next a) h of
         (Some event, h) \<Rightarrow> Some (Some (NotifyBehaviour event), h)
       | (None, h) \<Rightarrow> (case outbound_next a of
           Some (id1, result) \<Rightarrow> map_option (\<lambda>(event, h). (Some (NotifyBehaviour event), h)) (poll_outbound id1 result h)
         | None \<Rightarrow> (case deny_next a of
             Some (k, result) \<Rightarrow> let (event, h) = poll_deny k result h in Some (Some (NotifyBehaviour event), h)
           | None \<Rightarrow> (case accept_next a of
               Some (k, result) \<Rightarrow> let (event, h) = poll_accept k result (fresh_usage a) h in Some (Some (NotifyBehaviour event), h)
             | None \<Rightarrow>
                 if active_reservation h \<noteq> None \<and> reservation_fired a
                 then Some (Some (NotifyBehaviour HReservationTimedOut), h\<lparr>active_reservation := None\<rparr>)
                 else (case (reservation_request_future h, request_result a) of
                     (Some f, Some result) \<Rightarrow> let (event, h) = poll_request result h in Some (Some (NotifyBehaviour event), h)
                   | _ \<Rightarrow> Some (None, poll_idle (poll_now a) h))))))))"

text \<open>The start of a circuit: data that arrived early is written first and metered once it is written.\<close>

definition drive_pending :: "io_error + unit \<Rightarrow> io_error + unit \<Rightarrow> nat \<Rightarrow> nat \<Rightarrow> CircuitBytes \<Rightarrow> (io_error + unit) \<times> CircuitBytes" where
  "drive_pending result_1 result_2 dst_pending src_pending u =
     (let u = (case result_1 of Inr _ \<Rightarrow> record_dst_to_src dst_pending u | Inl _ \<Rightarrow> u);
          u = (case result_2 of Inr _ \<Rightarrow> record_src_to_dst src_pending u | Inl _ \<Rightarrow> u)
      in (case result_1 of Inl e \<Rightarrow> Inl e | Inr _ \<Rightarrow> result_2, u))"

end
