(* ===== verification/Relay_Limits.thy ===== *)
theory Relay_Limits
  imports Relay_Server
begin

text \<open>
  The invariant of the relay server: its limits on reservations and circuits. Every operation of the
  server keeps it and returns without panic, handler events provided the handler reports honestly.
\<close>

section \<open>Honest reports\<close>

text \<open>What a handler reports: requests come over direct connections; a request is a renewal only while the
  server counts a reservation for the connection; the server still counts the reservation when
  its acceptance has been sent to the client; only a known peer's reservation times out.\<close>

definition reserved :: "'p \<Rightarrow> nat \<Rightarrow> 'p Behaviour \<Rightarrow> bool" where
  "reserved p i b \<longleftrightarrow> fmlookup (connections_of p b) i = Some Active"

definition honest :: "'p \<Rightarrow> nat \<Rightarrow> 'p handler_Event \<Rightarrow> 'p Behaviour \<Rightarrow> bool" where
  "honest p i event b \<longleftrightarrow> (case event of
     HReservationReqReceived req endpoint renewed \<Rightarrow> \<not> endpoint_is_relayed endpoint \<and> (renewed \<longrightarrow> reserved p i b)
   | HReservationReqAccepted renewed \<Rightarrow> reserved p i b
   | HReservationTimedOut \<Rightarrow> fmlookup (connections b) p \<noteq> None
   | HCircuitReqReceived req endpoint \<Rightarrow> \<not> endpoint_is_relayed endpoint
   | _ \<Rightarrow> True)"

section \<open>The rate limiters\<close>

primrec limiter_ok :: "nat \<Rightarrow> 'p RateLimiter \<Rightarrow> bool" where
  "limiter_ok now (PerPeer s) \<longleftrightarrow> rl_ok now s"
| "limiter_ok now (PerIp s) \<longleftrightarrow> rl_ok now s"

lemma limiter_ok_later: "limiter_ok now l \<Longrightarrow> now \<le> later \<Longrightarrow> limiter_ok later l"
  by (cases l) (simp_all add: rl_ok_later)

lemma rl_ok_covered: "rl_ok now s \<Longrightarrow> covered 0 now (\<lambda>_. 0) s"
proof -
  assume ok: "rl_ok now s"
  have "the (fmlookup (buckets s) id1) \<le> rl_limit s" if "(t, id1) \<in> set (refill_schedule s)" for t id1
  proof -
    have "id1 \<in> snd ` set (refill_schedule s)" using that by force
    then obtain v where "fmlookup (buckets s) id1 = Some v" using rl_okD(3) [OF ok, of id1] by auto
    then show ?thesis using ok by (auto simp: rl_ok_def intro: less_imp_le)
  qed
  then show ?thesis by (simp add: covered_def trans_le_add1)
qed

lemma try_next_ok: "rl_ok now s \<Longrightarrow> \<exists>a s'. try_next id1 now s = Some (a, s') \<and> rl_ok now s'"
  using try_next_returns [OF _ rl_ok_covered, of now s id1] by blast

lemma limiter_try_next_ok: "limiter_ok now l \<Longrightarrow> \<exists>a l'. limiter_try_next p addr now l = Some (a, l') \<and> limiter_ok now l'"
proof (cases l)
  case (PerPeer s)
  assume "limiter_ok now l"
  with PerPeer obtain a s' where "try_next p now s = Some (a, s')" "rl_ok now s'" using try_next_ok [of now s p] by auto
  then show ?thesis by (simp add: PerPeer limiter_try_next_def try_next_per_peer_def)
next
  case (PerIp s)
  assume ok: "limiter_ok now l"
  show ?thesis
  proof (cases "multiaddr_to_ip addr")
    case (Some ip)
    from ok PerIp obtain a s' where "try_next ip now s = Some (a, s')" "rl_ok now s'" using try_next_ok [of now s ip] by auto
    then show ?thesis by (simp add: PerIp Some limiter_try_next_def try_next_per_ip_def)
  next
    case None
    then show ?thesis using ok
      by (intro exI [of _ True] exI [of _ l]) (simp add: PerIp limiter_try_next_def try_next_per_ip_def)
  qed
qed

lemma limiters_try_next_ok:
  "list_all (limiter_ok now) ls \<Longrightarrow> \<exists>a ls'. limiters_try_next p addr now ls = Some (a, ls') \<and> list_all (limiter_ok now) ls'"
proof (induction ls)
  case (Cons l ls)
  obtain a l' where l: "limiter_try_next p addr now l = Some (a, l')" "limiter_ok now l'"
    using Cons.prems limiter_try_next_ok [of now l p addr] by auto
  obtain a2 ls' where ls: "limiters_try_next p addr now ls = Some (a2, ls')" "list_all (limiter_ok now) ls'"
    using Cons by auto
  show ?case
  proof (cases a)
    case False
    then show ?thesis using l Cons.prems by (intro exI [of _ False] exI [of _ "l' # ls"]) simp
  qed (use l ls in simp)
qed (rule exI [of _ True], simp)

section \<open>Counting\<close>

lemma fmsize_mono: "fmdom m |\<subseteq>| fmdom m' \<Longrightarrow> fmsize m \<le> fmsize m'"
  by (rule fcard_mono)

lemma fmretain_fmupd: "fmretain P (fmupd k v m) = (if P k v then fmupd k v (fmretain P m) else fmdrop k (fmretain P m))"
  by (rule fmap_ext) (auto split: option.splits)

lemma fmsize_fmupd_le: "fmsize (fmupd k v m) \<le> Suc (fmsize m)"
  unfolding fmsize_fmupd by simp

lemma fmsize_fmdrop_le: "fmsize (fmdrop k m) \<le> fmsize m"
  by (rule fmsize_mono) auto

lemma fmdom_fmretain: "fmdom (fmretain P m) |\<subseteq>| fmdom m"
  by (auto simp: fmlookup_dom_iff split: option.splits)

definition sourced :: "'p \<Rightarrow> 'p CircuitsTracker \<Rightarrow> nat" where
  "sourced p t = fmsize (fmretain (\<lambda>i c. c_src_peer_id c = p) (tracked t))"

lemma sourced_le_num: "sourced p t \<le> num_circuits_of_peer p t"
  unfolding sourced_def num_circuits_of_peer_def
  by (rule fmsize_mono) (auto simp: fmlookup_dom_iff split: option.splits if_splits)

lemma num_active_fmupd: "num_active (fmupd i r cs) = (if is_active r then 1 else 0) + num_active (fmdrop i cs)"
  by (simp add: num_active_def fmsum_upd)

lemma num_active_fmdrop: "num_active (fmdrop i cs) \<le> num_active cs"
  by (simp add: num_active_def fmsum_fmdrop)

lemma num_active_reserved: "fmlookup cs i = Some Active \<Longrightarrow> num_active cs = Suc (num_active (fmdrop i cs))"
  by (simp add: num_active_def fmsum_remove is_active_def)

lemma num_active_empty [simp]: "num_active fmempty = 0"
  by (simp add: num_active_def)

lemma connections_of_put: "connections_of q (put_reservation p i r b) = (if q = p then fmupd i r (connections_of p b) else connections_of q b)"
  by (simp add: put_reservation_def connections_of_def)

lemma fmsize_0: "fmsize m = 0 \<longleftrightarrow> m = fmempty"
  by (metis fcard_0_eq fmdom_empty fmrestrict_fset_dom fmrestrict_fset_null)

lemma connections_of_drop: "connections_of q (drop_connection p i b) = (if q = p then fmdrop i (connections_of p b) else connections_of q b)"
  by (auto simp: drop_connection_def connections_of_def Let_def fmsize_0 simp del: fcard_0_eq split: option.splits)

lemma total_active_split: "total_active b = num_active (connections_of p b) + fmsum num_active (fmdrop p (connections b))"
  by (cases "fmlookup (connections b) p") (simp_all add: total_active_def connections_of_def fmsum_remove fmdrop_absent)

lemma total_active_put: "total_active (put_reservation p i r b) = num_active (fmupd i r (connections_of p b)) + fmsum num_active (fmdrop p (connections b))"
  by (simp add: total_active_def put_reservation_def fmsum_upd)

lemma total_active_drop: "total_active (drop_connection p i b) \<le> total_active b"
proof -
  have "total_active (drop_connection p i b) = num_active (fmdrop i (connections_of p b)) + fmsum num_active (fmdrop p (connections b))"
    by (auto simp: total_active_def drop_connection_def Let_def fmsum_upd fmsize_0 simp del: fcard_0_eq)
  then show ?thesis using num_active_fmdrop [of i "connections_of p b"] total_active_split [of b p] by simp
qed

section \<open>The invariant\<close>

definition admits :: "'p Behaviour \<Rightarrow> bool" where
  "admits b \<longleftrightarrow> tracker_len (circuits b) \<le> max_circuits (b_config b) \<and> total_active b \<le> max_reservations (b_config b)
     \<and> (\<forall>p. num_active (connections_of p b) \<le> Suc (max_reservations_per_peer (b_config b)))
     \<and> (\<forall>p. sourced p (circuits b) \<le> Suc (max_circuits_per_peer (b_config b)))"

definition same_limits :: "'p Behaviour \<Rightarrow> 'p Behaviour \<Rightarrow> bool" where
  "same_limits b b' \<longleftrightarrow> max_circuits (b_config b') = max_circuits (b_config b) \<and> max_reservations (b_config b') = max_reservations (b_config b)
     \<and> max_reservations_per_peer (b_config b') = max_reservations_per_peer (b_config b)
     \<and> max_circuits_per_peer (b_config b') = max_circuits_per_peer (b_config b)"

definition limiters_ok :: "nat \<Rightarrow> 'p Behaviour \<Rightarrow> bool" where
  "limiters_ok now b \<longleftrightarrow> list_all (limiter_ok now) (reservation_rate_limiters (b_config b))
     \<and> list_all (limiter_ok now) (circuit_src_rate_limiters (b_config b))"

definition fresh_ids :: "nat \<Rightarrow> 'p Behaviour \<Rightarrow> bool" where
  "fresh_ids n b \<longleftrightarrow> next_id (circuits b) \<le> n \<and> (\<forall>i. fmlookup (tracked (circuits b)) i \<noteq> None \<longrightarrow> i < next_id (circuits b))"

lemma limiters_ok_later: "limiters_ok now b \<Longrightarrow> now \<le> later \<Longrightarrow> limiters_ok later b"
  by (auto simp: limiters_ok_def list_all_iff intro: limiter_ok_later)

text \<open>A step that only queues actions or changes the addresses and the status.\<close>

definition keeps :: "'p Behaviour \<Rightarrow> 'p Behaviour \<Rightarrow> bool" where
  "keeps b b' \<longleftrightarrow> b_config b' = b_config b \<and> connections b' = connections b \<and> circuits b' = circuits b"

lemma keeps_refl [simp]: "keeps b b"
  by (simp add: keeps_def)

lemma keeps_trans: "keeps a b \<Longrightarrow> keeps b c \<Longrightarrow> keeps a c"
  by (simp add: keeps_def)

lemma keeps_push [simp]: "keeps b (push_action a b)" "keeps b (push_event e b)"
  by (simp_all add: keeps_def push_action_def push_event_def)

lemma keeps_status [simp]: "keeps b (reconfigure_relay_status b)" "keeps b (determine_relay_status_from_external_address b)"
    "keeps b (set_status s b)" "keeps b (snd (behaviour_poll b))"
  by (simp_all add: keeps_def reconfigure_relay_status_def determine_relay_status_from_external_address_def set_status_def
      behaviour_poll_def push_event_def push_action_def Let_def split: option.split list.split)

definition relay_inv :: "nat \<Rightarrow> nat \<Rightarrow> 'p Behaviour \<Rightarrow> bool" where
  "relay_inv now n b \<longleftrightarrow> admits b \<and> limiters_ok now b \<and> fresh_ids n b"

definition inv_step :: "nat \<Rightarrow> nat \<Rightarrow> 'p Behaviour \<Rightarrow> 'p Behaviour \<Rightarrow> bool" where
  "inv_step now n b b' \<longleftrightarrow> same_limits b b' \<and> relay_inv now n b'"

lemma inv_stepI: "relay_inv now n b' \<Longrightarrow> same_limits b b' \<Longrightarrow> inv_step now n b b'"
  by (simp add: inv_step_def)

lemma keeps_inv: "keeps b b' \<Longrightarrow> relay_inv now n b \<Longrightarrow> relay_inv now n b'"
  by (simp add: keeps_def relay_inv_def admits_def limiters_ok_def fresh_ids_def total_active_def connections_of_def)

lemma keeps_inv_step: "keeps b b' \<Longrightarrow> relay_inv now n b \<Longrightarrow> inv_step now n b b'"
  by (simp add: keeps_inv inv_step_def same_limits_def keeps_def)

lemma inv_step_keeps: "inv_step now n a b \<Longrightarrow> keeps b c \<Longrightarrow> inv_step now n a c"
  using keeps_inv [of b c now n] by (simp add: inv_step_def same_limits_def keeps_def)

lemma inv_step_push [intro]: "inv_step now n a b \<Longrightarrow> inv_step now n a (push_action x b)" "inv_step now n a b \<Longrightarrow> inv_step now n a (push_event e b)"
  by (auto intro: inv_step_keeps)

lemma relay_inv_mono: "relay_inv now n b \<Longrightarrow> n \<le> m \<Longrightarrow> relay_inv now m b"
  by (auto simp: relay_inv_def fresh_ids_def)

subsection \<open>Reservations\<close>

lemma connection_fields [simp]:
  "b_config (put_reservation p i r b) = b_config b" "circuits (put_reservation p i r b) = circuits b"
  "b_config (drop_connection p i b) = b_config b" "circuits (drop_connection p i b) = circuits b"
  by (simp_all add: put_reservation_def drop_connection_def Let_def)

lemma drop_connection_inv: "relay_inv now n b \<Longrightarrow> inv_step now n b (drop_connection p i b)"
proof (rule inv_stepI)
  assume inv: "relay_inv now n b"
  have "num_active (connections_of q (drop_connection p i b)) \<le> num_active (connections_of q b)" for q
    using num_active_fmdrop [of i] by (simp add: connections_of_drop)
  then show "relay_inv now n (drop_connection p i b)"
    using inv total_active_drop [of p i b] unfolding relay_inv_def admits_def limiters_ok_def fresh_ids_def by (auto intro: order_trans)
qed (simp add: same_limits_def)

lemma put_inactive_inv: "relay_inv now n b \<Longrightarrow> inv_step now n b (put_reservation p i NoReservationYet b)"
proof (rule inv_stepI)
  assume inv: "relay_inv now n b"
  have less: "num_active (fmupd i NoReservationYet (connections_of p b)) \<le> num_active (connections_of p b)"
    using num_active_fmdrop [of i "connections_of p b"] by (simp add: num_active_fmupd is_active_def)
  then have "num_active (connections_of q (put_reservation p i NoReservationYet b)) \<le> num_active (connections_of q b)" for q
    by (simp add: connections_of_put)
  moreover have "total_active (put_reservation p i NoReservationYet b) \<le> total_active b"
    using less by (simp add: total_active_put total_active_split [of b p])
  ultimately show "relay_inv now n (put_reservation p i NoReservationYet b)"
    using inv unfolding relay_inv_def admits_def limiters_ok_def fresh_ids_def by (auto intro: order_trans)
qed (simp add: same_limits_def)

lemma put_active_inv:
  assumes "relay_inv now n b"
    and "reserved p i b \<or> total_active b < max_reservations (b_config b) \<and> num_active (connections_of p b) \<le> max_reservations_per_peer (b_config b)"
  shows "inv_step now n b (put_reservation p i Active b)"
proof (rule inv_stepI)
  have le: "num_active (fmupd i Active (connections_of p b)) \<le> Suc (num_active (connections_of p b))"
    using num_active_fmdrop [of i "connections_of p b"] by (simp add: num_active_fmupd is_active_def)
  have same: "num_active (fmupd i Active (connections_of p b)) = num_active (connections_of p b)" if "reserved p i b"
    using num_active_reserved [of "connections_of p b" i] that by (simp add: num_active_fmupd is_active_def reserved_def)
  have "total_active (put_reservation p i Active b) \<le> max_reservations (b_config b)"
    using assms le same total_active_split [of b p] by (auto simp: total_active_put relay_inv_def admits_def)
  moreover have "num_active (connections_of q (put_reservation p i Active b)) \<le> Suc (max_reservations_per_peer (b_config b))" for q
    using assms le same by (auto simp: connections_of_put relay_inv_def admits_def)
  ultimately show "relay_inv now n (put_reservation p i Active b)"
    using assms(1) by (simp add: relay_inv_def admits_def limiters_ok_def fresh_ids_def)
qed (simp add: same_limits_def)

lemma inv_step_trans: "inv_step now n a b \<Longrightarrow> inv_step now n b c \<Longrightarrow> inv_step now n a c"
  by (simp add: inv_step_def same_limits_def)

lemma inv_stepD: "inv_step now n a b \<Longrightarrow> relay_inv now n b"
  by (simp add: inv_step_def)

lemma set_reservation_limiters:
  "relay_inv now n b \<Longrightarrow> list_all (limiter_ok now) ls \<Longrightarrow> inv_step now n b (b\<lparr>b_config := (b_config b)\<lparr>reservation_rate_limiters := ls\<rparr>\<rparr>)"
  by (simp add: inv_step_def same_limits_def relay_inv_def admits_def limiters_ok_def fresh_ids_def total_active_def connections_of_def)

lemma set_circuit_limiters:
  "relay_inv now n b \<Longrightarrow> list_all (limiter_ok now) ls \<Longrightarrow> inv_step now n b (b\<lparr>b_config := (b_config b)\<lparr>circuit_src_rate_limiters := ls\<rparr>\<rparr>)"
  by (simp add: inv_step_def same_limits_def relay_inv_def admits_def limiters_ok_def fresh_ids_def total_active_def connections_of_def)

lemma reservation_req_inv:
  assumes inv: "relay_inv now n b" and direct: "\<not> endpoint_is_relayed endpoint" and renewed: "renewed \<longrightarrow> reserved p i b"
  shows "\<exists>b'. on_reservation_req now p i req endpoint renewed b = Some b' \<and> inv_step now n b b'"
proof (cases "\<not> renewed \<and> max_reservations_per_peer (b_config b) < num_active (connections_of p b) \<or> max_reservations (b_config b) \<le> total_active b")
  case True
  then show ?thesis using inv direct by (auto simp: on_reservation_req_def Let_def intro: keeps_inv_step)
next
  case False
  obtain ok ls where ls: "limiters_try_next p (get_remote_address endpoint) now (reservation_rate_limiters (b_config b)) = Some (ok, ls)"
      "list_all (limiter_ok now) ls"
    using limiters_try_next_ok [of now "reservation_rate_limiters (b_config b)" p "get_remote_address endpoint"] inv
    by (auto simp: relay_inv_def limiters_ok_def)
  define b1 where "b1 = b\<lparr>b_config := (b_config b)\<lparr>reservation_rate_limiters := ls\<rparr>\<rparr>"
  have b1: "inv_step now n b b1" unfolding b1_def by (rule set_reservation_limiters [OF inv ls(2)])
  have room: "reserved p i b1 \<or> total_active b1 < max_reservations (b_config b1) \<and> num_active (connections_of p b1) \<le> max_reservations_per_peer (b_config b1)"
    using False renewed by (auto simp: b1_def reserved_def connections_of_def total_active_def)
  have accepted: "inv_step now n b (put_reservation p i Active b1)"
    by (rule inv_step_trans [OF b1 put_active_inv [OF inv_stepD [OF b1] room]])
  show ?thesis
    using False direct ls(1) accepted b1 by (auto simp: on_reservation_req_def Let_def simp flip: b1_def)
qed

subsection \<open>Circuits\<close>

lemma fewer_circuits_inv:
  assumes inv: "relay_inv now n b" and fewer: "tracked t = fmretain P (tracked (circuits b))" "next_id t = next_id (circuits b)"
  shows "inv_step now n b (b\<lparr>circuits := t\<rparr>)"
proof -
  have "tracker_len t \<le> tracker_len (circuits b)"
    unfolding tracker_len_def fewer(1) by (rule fmsize_mono) (rule fmdom_fmretain)
  moreover have "sourced p t \<le> sourced p (circuits b)" for p
    unfolding sourced_def fewer(1) by (rule fmsize_mono) (auto simp: fmlookup_dom_iff split: option.splits if_splits)
  then have "sourced p t \<le> Suc (max_circuits_per_peer (b_config b))" for p
    using inv order_trans unfolding relay_inv_def admits_def by blast
  ultimately show ?thesis using inv fewer
    unfolding inv_step_def same_limits_def relay_inv_def admits_def limiters_ok_def fresh_ids_def total_active_def connections_of_def
    by (auto split: option.splits if_splits)
qed

lemma fmdrop_retain: "fmdrop k m = fmretain (\<lambda>i _. i \<noteq> k) m"
  by (rule fmap_ext) (auto split: option.splits)

lemma forget_circuit_inv: "relay_inv now n b \<Longrightarrow> inv_step now n b (forget_circuit i b)"
proof (cases i)
  case (Some k)
  assume inv: "relay_inv now n b"
  show ?thesis unfolding forget_circuit_def Some option.simps
    by (rule fewer_circuits_inv [OF inv, of _ "\<lambda>i _. i \<noteq> k"]) (simp_all add: tracker_remove_def fmdrop_retain)
qed (simp add: forget_circuit_def keeps_inv_step)

lemma accepted_inv: "relay_inv now n b \<Longrightarrow> inv_step now n b (b\<lparr>circuits := tracker_accepted i usage (circuits b)\<rparr>)"
proof (cases "fmlookup (tracked (circuits b)) i")
  case None
  assume "relay_inv now n b"
  then show ?thesis by (auto simp: tracker_accepted_def None intro: keeps_inv_step simp: keeps_def)
next
  case (Some c)
  assume inv: "relay_inv now n b"
  define t where "t = tracker_accepted i usage (circuits b)"
  have t: "tracked t = fmupd i (c\<lparr>c_status := Accepted usage\<rparr>) (tracked (circuits b))" "next_id t = next_id (circuits b)"
    by (simp_all add: t_def tracker_accepted_def Some)
  have "fmdom (tracked t) = fmdom (tracked (circuits b))" using Some by (auto simp: t fmlookup_dom_iff)
  then have "tracker_len t = tracker_len (circuits b)" by (simp add: tracker_len_def)
  moreover have "fmdom (fmretain (\<lambda>i c. c_src_peer_id c = p) (tracked t)) = fmdom (fmretain (\<lambda>i c. c_src_peer_id c = p) (tracked (circuits b)))" for p
    using Some by (auto simp: t fmlookup_dom_iff split: option.splits if_splits)
  then have "sourced p t = sourced p (circuits b)" for p by (simp add: sourced_def)
  moreover have "fmlookup (tracked t) k \<noteq> None \<Longrightarrow> k < next_id t" for k
    using inv Some by (auto simp: t relay_inv_def fresh_ids_def split: if_splits)
  ultimately show ?thesis using inv t(2) unfolding t_def [symmetric]
    by (simp add: inv_step_def same_limits_def relay_inv_def admits_def limiters_ok_def fresh_ids_def total_active_def connections_of_def)
qed

lemma insert_inv:
  assumes inv: "relay_inv now n b" and small: "n + 1 < 2 ^ 64"
    and room: "tracker_len (circuits b) < max_circuits (b_config b)"
    and peer: "num_circuits_of_peer (c_src_peer_id c) (circuits b) \<le> max_circuits_per_peer (b_config b)"
  shows "inv_step now (n + 1) b (b\<lparr>circuits := snd (tracker_insert c (circuits b))\<rparr>)"
proof -
  define t where "t = snd (tracker_insert c (circuits b))"
  have "next_id (circuits b) \<le> n" using inv by (simp add: relay_inv_def fresh_ids_def)
  then have next_id: "next_id t = next_id (circuits b) + 1" using small by (simp add: t_def tracker_insert_def)
  have t: "tracked t = fmupd (next_id (circuits b)) c (tracked (circuits b))" by (simp add: t_def tracker_insert_def)
  have "tracker_len t \<le> max_circuits (b_config b)"
    using room fmsize_fmupd_le [of "next_id (circuits b)" c "tracked (circuits b)"] unfolding tracker_len_def t by linarith
  moreover have "sourced p t \<le> Suc (max_circuits_per_peer (b_config b))" for p
  proof (cases "p = c_src_peer_id c")
    case True
    have "sourced p t \<le> Suc (sourced p (circuits b))"
      unfolding sourced_def t fmretain_fmupd using fmsize_fmupd_le [of "next_id (circuits b)" c] True by simp
    also have "\<dots> \<le> Suc (max_circuits_per_peer (b_config b))"
      using sourced_le_num [of p "circuits b"] peer True by simp
    finally show ?thesis .
  next
    case False
    then have "sourced p t \<le> sourced p (circuits b)"
      unfolding sourced_def t fmretain_fmupd using fmsize_fmdrop_le by simp
    also have "\<dots> \<le> Suc (max_circuits_per_peer (b_config b))" using inv by (simp add: relay_inv_def admits_def)
    finally show ?thesis .
  qed
  moreover have "fmlookup (tracked t) k \<noteq> None \<Longrightarrow> k < next_id t" for k
    using inv unfolding next_id by (auto simp: t relay_inv_def fresh_ids_def split: if_splits)
  ultimately show ?thesis using inv next_id unfolding t_def [symmetric]
    by (simp add: inv_step_def same_limits_def relay_inv_def admits_def limiters_ok_def fresh_ids_def total_active_def connections_of_def)
qed

lemma circuit_req_inv:
  assumes inv: "relay_inv now n b" and direct: "\<not> endpoint_is_relayed endpoint" and small: "n + 1 < 2 ^ 64"
  shows "\<exists>b'. on_circuit_req now p i req endpoint b = Some b' \<and> inv_step now (n + 1) b b'"
proof (cases "max_circuits_per_peer (b_config b) < num_circuits_of_peer p (circuits b) \<or> max_circuits (b_config b) \<le> tracker_len (circuits b)")
  case True
  then show ?thesis using relay_inv_mono [OF inv, of "n + 1"] direct by (auto simp: on_circuit_req_def Let_def intro: keeps_inv_step)
next
  case False
  obtain ok ls where ls: "limiters_try_next p (get_remote_address endpoint) now (circuit_src_rate_limiters (b_config b)) = Some (ok, ls)"
      "list_all (limiter_ok now) ls"
    using limiters_try_next_ok [of now "circuit_src_rate_limiters (b_config b)" p "get_remote_address endpoint"] inv
    by (auto simp: relay_inv_def limiters_ok_def)
  define b1 where "b1 = b\<lparr>b_config := (b_config b)\<lparr>circuit_src_rate_limiters := ls\<rparr>\<rparr>"
  have b1: "inv_step now n b b1" unfolding b1_def by (rule set_circuit_limiters [OF inv ls(2)])
  have b1': "inv_step now (n + 1) b b1" using b1 relay_inv_mono [of now n b1 "n + 1"] by (simp add: inv_step_def)
  have room: "tracker_len (circuits b1) < max_circuits (b_config b1)" "num_circuits_of_peer p (circuits b1) \<le> max_circuits_per_peer (b_config b1)"
    using False by (simp_all add: b1_def)
  have inserted: "inv_step now (n + 1) b (b1\<lparr>circuits := snd (tracker_insert c (circuits b1))\<rparr>)" if "c_src_peer_id c = p" for c
    using insert_inv [OF inv_stepD [OF b1] small room(1), of c] room(2) that b1 by (simp add: inv_step_def same_limits_def)
  define found where "found = find (\<lambda>i. fmlookup (connections_of (cr_dst req) b1) i = Some Active) (sorted_list_of_fset (fmdom (connections_of (cr_dst req) b1)))"
  have outcome: "on_circuit_req now p i req endpoint b = Some (
      if \<not> ok then push_action (NotifyHandler p i (DenyCircuitReq None req ResourceLimitExceeded)) b1
      else (case found of
          Some dst_conn \<Rightarrow>
            let (circuit_id, t) = tracker_insert \<lparr>c_src_peer_id = p, c_src_connection_id = i,
                  c_dst_peer_id = cr_dst req, c_dst_connection_id = dst_conn, c_status = Accepting\<rparr> (circuits b1)
            in push_action (NotifyHandler p dst_conn (NegotiateOutboundConnect circuit_id req p i)) (b1\<lparr>circuits := t\<rparr>)
        | None \<Rightarrow> push_action (NotifyHandler p i (DenyCircuitReq None req NoReservation)) b1))"
    unfolding found_def b1_def using False direct ls(1) by (simp add: on_circuit_req_def Let_def)
  show ?thesis unfolding outcome using b1' inserted
    by (auto simp: split_beta split: option.split)
qed

subsection \<open>Every step\<close>

lemma connection_closed_inv:
  assumes inv: "relay_inv now n b" shows "inv_step now n b (on_connection_closed U p i b)"
proof -
  define b1 where "b1 = (if fmlookup (connections b) p = None then b
    else let b' = drop_connection p i b in if fmlookup (connections_of p b) i \<noteq> None then push_event (ReservationClosed p) b' else b')"
  have b1: "inv_step now n b b1"
    using inv drop_connection_inv [OF inv, of p i] by (auto simp: b1_def Let_def keeps_inv_step)
  define t where "t = snd (remove_by_connection p i (circuits b1))"
  have "inv_step now n b1 (b1\<lparr>circuits := t\<rparr>)"
    by (rule fewer_circuits_inv [OF inv_stepD [OF b1], of _ "\<lambda>_ c. \<not> uses_connection p i c"]) (simp_all add: t_def remove_by_connection_def)
  then have "inv_step now n b (b1\<lparr>circuits := t\<rparr>)" by (rule inv_step_trans [OF b1])
  moreover have "keeps (b1\<lparr>circuits := t\<rparr>) (on_connection_closed U p i b)"
    unfolding on_connection_closed_def b1_def [symmetric] by (simp add: keeps_def t_def Let_def split_beta)
  ultimately show ?thesis by (rule inv_step_keeps)
qed

lemma swarm_event_inv:
  assumes inv: "relay_inv now n b" shows "inv_step now n b (on_swarm_event U addrs changed event b)"
proof -
  define b1 where "b1 = (let b = b\<lparr>external_addresses := addrs\<rparr>
    in if auto_status_change b \<and> changed then determine_relay_status_from_external_address b else b)"
  have "keeps b (b\<lparr>external_addresses := addrs\<rparr>)" by (simp add: keeps_def)
  moreover from this have "keeps b (determine_relay_status_from_external_address (b\<lparr>external_addresses := addrs\<rparr>))"
    by (rule keeps_trans) simp
  ultimately have "keeps b b1" unfolding b1_def Let_def by simp
  then have b1: "inv_step now n b b1" using inv by (rule keeps_inv_step)
  have "inv_step now n b1 (on_connection_established p i b1)" for p i
    unfolding on_connection_established_def by (rule put_inactive_inv [OF inv_stepD [OF b1]])
  moreover have "inv_step now n b1 (on_connection_closed U p i b1)" for p i
    by (rule connection_closed_inv [OF inv_stepD [OF b1]])
  ultimately have "inv_step now n b1 (on_swarm_event U addrs changed event b)"
    using keeps_inv_step [OF keeps_refl inv_stepD [OF b1]]
    unfolding on_swarm_event_def b1_def Let_def by (cases event) simp_all
  then show ?thesis by (rule inv_step_trans [OF b1])
qed

lemma handler_event_inv:
  assumes inv: "relay_inv now n b" and small: "n + 1 < 2 ^ 64" and honest: "honest p i event b"
  shows "\<exists>b'. on_connection_handler_event U now p i event b = Some b' \<and> inv_step now (n + 1) b b'"
proof -
  have inv1: "relay_inv now (n + 1) b" by (rule relay_inv_mono [OF inv]) simp
  note steps = keeps_inv_step [OF keeps_refl inv1] forget_circuit_inv [OF inv1] accepted_inv [OF inv1]
  show ?thesis
  proof (cases event)
    case (HReservationReqReceived req endpoint renewed)
    then show ?thesis using reservation_req_inv [OF inv1] honest by (simp add: on_connection_handler_event_def honest_def)
  next
    case (HReservationReqAccepted renewed)
    then have "reserved p i b" using honest by (simp add: honest_def)
    moreover from this have "fmlookup (connections b) p \<noteq> None" by (auto simp: reserved_def connections_of_def split: option.splits)
    ultimately show ?thesis using put_active_inv [OF inv1, of p i] HReservationReqAccepted
      by (auto simp: on_connection_handler_event_def)
  next
    case HReservationTimedOut
    then show ?thesis using honest drop_connection_inv [OF inv1, of p i] by (auto simp: on_connection_handler_event_def honest_def)
  next
    case (HCircuitReqReceived req endpoint)
    then show ?thesis using circuit_req_inv [OF inv _ small] honest by (simp add: on_connection_handler_event_def honest_def)
  next
    case (HCircuitClosed circuit_id dst error)
    have "inv_step now (n + 1) b (b\<lparr>circuits := snd (tracker_remove circuit_id (circuits b))\<rparr>)"
      using steps(2) [of "Some circuit_id"] by (simp add: forget_circuit_def)
    then show ?thesis using HCircuitClosed by (auto simp: on_connection_handler_event_def split_beta Let_def)
  qed (use steps in \<open>auto simp: on_connection_handler_event_def\<close>)
qed

section \<open>The configured server\<close>

definition rates_fit :: "RelayServiceConfig \<Rightarrow> bool" where
  "rates_fit r \<longleftrightarrow> reservation_rate_per_peer_per_min r < 2 ^ 32 \<and> reservation_rate_per_ip_per_min r < 2 ^ 32
     \<and> circuit_rate_per_peer_per_min r < 2 ^ 32 \<and> circuit_rate_per_ip_per_min r < 2 ^ 32"

definition limiters_fresh :: "'p relay_Config \<Rightarrow> bool" where
  "limiters_fresh c \<longleftrightarrow> list_all (limiter_ok 0) (reservation_rate_limiters c) \<and> list_all (limiter_ok 0) (circuit_src_rate_limiters c)"

definition limits_of :: "'p relay_Config \<Rightarrow> nat \<times> nat \<times> nat \<times> nat \<times> nat \<times> nat" where
  "limits_of c = (max_reservations c, max_reservations_per_peer c, max_circuits c, max_circuits_per_peer c, max_circuit_duration c, max_circuit_bytes c)"

lemma rl_new_ok: "0 < limit \<Longrightarrow> limit < 2 ^ 32 \<Longrightarrow> 1000 \<le> interval \<Longrightarrow> \<exists>s. rl_new limit interval = Some s \<and> rl_ok now s"
  by (simp add: rl_new_def rl_ok_def)

lemma per_minute_ok:
  fixes c :: "'p relay_Config"
  assumes "limiters_fresh c" and "rate < 2 ^ 32"
    and "add = reservation_rate_per_peer \<or> add = reservation_rate_per_ip \<or> add = circuit_src_per_peer \<or> add = circuit_src_per_ip"
  shows "\<exists>c'. per_minute add rate c = Some c' \<and> limiters_fresh c' \<and> limits_of c' = limits_of c"
proof (cases "rate = 0")
  case True
  then show ?thesis using assms(1) by (simp add: per_minute_def)
next
  case False
  have "1000 \<le> from_secs 60" by (simp add: from_secs_def)
  with False assms(2) obtain s :: "'p GenericRateLimiter" and s' :: "ip_addr GenericRateLimiter"
    where "rl_new rate (from_secs 60) = Some s" "rl_ok 0 s" "rl_new rate (from_secs 60) = Some s'" "rl_ok 0 s'"
    using rl_new_ok [of rate "from_secs 60" 0] by (metis neq0_conv)
  then show ?thesis using assms(1,3) False
    by (auto simp: per_minute_def reservation_rate_per_peer_def reservation_rate_per_ip_def circuit_src_per_peer_def circuit_src_per_ip_def
        new_per_peer_def new_per_ip_def limiters_fresh_def limits_of_def)
qed

lemma to_libp2p_config_ok:
  assumes "rates_fit r"
  shows "\<exists>c :: 'p relay_Config. to_libp2p_config r = Some c \<and> limiters_fresh c \<and> max_reservations c = rs_max_reservations r
    \<and> max_reservations_per_peer c = rs_max_reservations_per_peer r \<and> max_circuits c = rs_max_circuits r
    \<and> max_circuits_per_peer c = rs_max_circuits_per_peer r \<and> as_secs (max_circuit_duration c) < 2 ^ 32
    \<and> max_circuit_bytes c = rs_max_circuit_bytes r"
proof -
  define c0 :: "'p relay_Config" where "c0 = \<lparr>max_reservations = rs_max_reservations r, max_reservations_per_peer = rs_max_reservations_per_peer r,
        reservation_duration = from_secs (reservation_duration_secs r), reservation_rate_limiters = [],
        max_circuits = rs_max_circuits r, max_circuits_per_peer = rs_max_circuits_per_peer r,
        max_circuit_duration = from_secs (min (max_circuit_duration_secs r) (2 ^ 32 - 1)),
        max_circuit_bytes = rs_max_circuit_bytes r, circuit_src_rate_limiters = []\<rparr>"
  have fresh: "limiters_fresh c0" by (simp add: c0_def limiters_fresh_def)
  note fit = assms [unfolded rates_fit_def]
  from per_minute_ok [OF fresh, of "reservation_rate_per_peer_per_min r" reservation_rate_per_peer] fit
  obtain c1 where c1: "per_minute reservation_rate_per_peer (reservation_rate_per_peer_per_min r) c0 = Some c1" "limiters_fresh c1"
    "limits_of c1 = limits_of c0" by auto
  from per_minute_ok [OF c1(2), of "reservation_rate_per_ip_per_min r" reservation_rate_per_ip] fit
  obtain c2 where c2: "per_minute reservation_rate_per_ip (reservation_rate_per_ip_per_min r) c1 = Some c2" "limiters_fresh c2"
    "limits_of c2 = limits_of c1" by auto
  from per_minute_ok [OF c2(2), of "circuit_rate_per_peer_per_min r" circuit_src_per_peer] fit
  obtain c3 where c3: "per_minute circuit_src_per_peer (circuit_rate_per_peer_per_min r) c2 = Some c3" "limiters_fresh c3"
    "limits_of c3 = limits_of c2" by auto
  from per_minute_ok [OF c3(2), of "circuit_rate_per_ip_per_min r" circuit_src_per_ip] fit
  obtain c4 where c4: "per_minute circuit_src_per_ip (circuit_rate_per_ip_per_min r) c3 = Some c4" "limiters_fresh c4"
    "limits_of c4 = limits_of c3" by auto
  have "to_libp2p_config r = Some c4" unfolding to_libp2p_config_def c0_def [symmetric] by (simp add: c1 c2 c3 c4)
  then show ?thesis using c1(3) c2(3) c3(3) c4(2,3) by (auto simp: limits_of_def c0_def as_secs_def from_secs_def)
qed

lemma behaviour_new_inv: "limiters_fresh c \<Longrightarrow> relay_inv 0 0 (behaviour_new p c)"
  by (simp add: relay_inv_def admits_def limiters_ok_def limiters_fresh_def fresh_ids_def behaviour_new_def tracker_default_def
      tracker_len_def sourced_def total_active_def connections_of_def fmretain_def fcard_fempty)

section \<open>A concrete configuration\<close>

definition demo_relay :: RelayServiceConfig where
  "demo_relay = relay_service_default\<lparr>reservation_rate_per_peer_per_min := 0, reservation_rate_per_ip_per_min := 0,
     circuit_rate_per_peer_per_min := 0, circuit_rate_per_ip_per_min := 0\<rparr>"

definition demo_config :: "nat relay_Config" where
  "demo_config = \<lparr>max_reservations = 64, max_reservations_per_peer = 1, reservation_duration = from_secs 3600, reservation_rate_limiters = [],
     max_circuits = 128, max_circuits_per_peer = 4, max_circuit_duration = from_secs 120, max_circuit_bytes = 104857600,
     circuit_src_rate_limiters = []\<rparr>"

definition demo_req :: ReservationReq where
  "demo_req = \<lparr>rr_substream = 1, rr_reservation_duration = from_secs 3600, rr_max_circuit_duration = from_secs 120, rr_max_circuit_bytes = 1000\<rparr>"

definition demo_circuit_req :: "nat CircuitReq" where
  "demo_circuit_req = \<lparr>cr_dst = 5, cr_substream = 2, cr_max_circuit_duration = from_secs 120, cr_max_circuit_bytes = 1000\<rparr>"

lemma demo_config: "to_libp2p_config demo_relay = Some demo_config"
  by (simp add: to_libp2p_config_def per_minute_def demo_relay_def demo_config_def relay_service_default_def
      default_max_reservations_def default_max_reservations_per_peer_def default_reservation_duration_secs_def default_max_circuits_def
      default_max_circuits_per_peer_def default_max_circuit_duration_secs_def default_max_circuit_bytes_def)

lemma fmretain_empty [simp]: "fmretain P fmempty = fmempty"
  by (rule fmap_ext) simp

end
