(* ===== verification/Relay_System.thy ===== *)
theory Relay_System
  imports Relay_Handler Relay_Limits
begin

text \<open>
  The relay server and its connection handlers together: the swarm opens and closes connections, delivers
  the commands of the behaviour to the handler of the named connection and the events of a handler to
  the behaviour. The handlers turn out to report honestly, so that the limits of the server hold for
  the composition, as long as no reservation expires while its renewal is being accepted; if one
  does, the server panics.
\<close>

section \<open>The composition\<close>

record 'p relay_system =
  sys_b :: "'p Behaviour"
  sys_handlers :: "(nat, 'p \<times> 'p Handler) fmap"
  sys_used :: "nat fset"

datatype 'p sys_step =
    SysConnect 'p nat "'p ConnectedPoint" "'p multiaddr list" bool
  | SysClose 'p nat "'p multiaddr list" bool
  | SysAddresses "'p multiaddr list" bool
  | SysStatus "Status option"
  | SysDeliver
  | SysStream nat connection_event
  | SysPoll nat nat "'p poll_answers"

definition system_new :: "'p \<Rightarrow> 'p relay_Config \<Rightarrow> 'p relay_system" where
  "system_new p c = \<lparr>sys_b = behaviour_new p c, sys_handlers = fmempty, sys_used = {||}\<rparr>"

definition put_handler :: "nat \<Rightarrow> 'p \<Rightarrow> 'p Handler \<Rightarrow> 'p relay_system \<Rightarrow> 'p relay_system" where
  "put_handler i p h s = s\<lparr>sys_handlers := fmupd i (p, h) (sys_handlers s)\<rparr>"

definition deliver :: "'p ToSwarm option \<Rightarrow> 'p relay_system \<Rightarrow> 'p relay_system" where
  "deliver a s = (case a of
     Some (NotifyHandler q i msg) \<Rightarrow> (case fmlookup (sys_handlers s) i of
        None \<Rightarrow> s | Some (p, h) \<Rightarrow> put_handler i p (on_behaviour_event msg h) s)
   | _ \<Rightarrow> s)"

definition sys_step :: "usage_store \<Rightarrow> 'p::linorder sys_step \<Rightarrow> 'p relay_system \<Rightarrow> 'p relay_system option" where
  "sys_step U st s = (case st of
     SysConnect p i endpoint addrs changed \<Rightarrow>
       let s' = s\<lparr>sys_b := on_swarm_event U addrs changed (ConnectionEstablished p i) (sys_b s), sys_used := finsert i (sys_used s)\<rparr>
       in Some (case established_handler (sys_b s) endpoint of None \<Rightarrow> s' | Some h \<Rightarrow> put_handler i p h s')
   | SysClose p i addrs changed \<Rightarrow>
       Some (s\<lparr>sys_b := on_swarm_event U addrs changed (ConnectionClosed p i) (sys_b s), sys_handlers := fmdrop i (sys_handlers s)\<rparr>)
   | SysAddresses addrs changed \<Rightarrow> Some (s\<lparr>sys_b := on_swarm_event U addrs changed OtherSwarmEvent (sys_b s)\<rparr>)
   | SysStatus status \<Rightarrow> Some (s\<lparr>sys_b := set_status status (sys_b s)\<rparr>)
   | SysDeliver \<Rightarrow> let (a, b) = behaviour_poll (sys_b s) in Some (deliver a (s\<lparr>sys_b := b\<rparr>))
   | SysStream i event \<Rightarrow> (case fmlookup (sys_handlers s) i of
        None \<Rightarrow> Some s | Some (p, h) \<Rightarrow> map_option (\<lambda>h. put_handler i p h s) (on_connection_event event h))
   | SysPoll i now answers \<Rightarrow> (case fmlookup (sys_handlers s) i of
        None \<Rightarrow> Some s
      | Some (p, h) \<Rightarrow> Option.bind (handler_poll answers h) (\<lambda>(out, h). case out of
            Some (NotifyBehaviour event) \<Rightarrow>
              map_option (\<lambda>b. put_handler i p h (s\<lparr>sys_b := b\<rparr>)) (on_connection_handler_event U now p i event (sys_b s))
          | _ \<Rightarrow> Some (put_handler i p h s))))"

primrec sys_run :: "usage_store \<Rightarrow> 'p::linorder sys_step list \<Rightarrow> 'p relay_system \<Rightarrow> 'p relay_system option" where
  "sys_run U [] s = Some s"
| "sys_run U (st # ss) s = Option.bind (sys_step U st s) (sys_run U ss)"

section \<open>The environment\<close>

text \<open>Connection identifiers are not reused, a connection is closed under the peer it was opened for, streams
  are opened as requested, and the answers of a poll belong to futures of the handler.\<close>

definition answers_fit :: "'p poll_answers \<Rightarrow> 'p Handler \<Rightarrow> bool" where
  "answers_fit a h \<longleftrightarrow> (case outbound_next a of None \<Rightarrow> True | Some (id1, r) \<Rightarrow> id1 \<in> fst ` set (outbound_workers h))"

definition accepts :: "nat \<Rightarrow> 'p ToSwarm \<Rightarrow> bool" where
  "accepts i a \<longleftrightarrow> (case a of NotifyHandler q j (AcceptReservationReq req addrs) \<Rightarrow> j = i | _ \<Rightarrow> False)"

definition accept_queued :: "nat \<Rightarrow> 'p Behaviour \<Rightarrow> bool" where
  "accept_queued i b \<longleftrightarrow> list_ex (accepts i) (queued_actions b)"

definition accepting :: "'p Handler \<Rightarrow> bool" where
  "accepting h \<longleftrightarrow> (case reservation_request_future h of Some (FAccepting req addrs) \<Rightarrow> True | _ \<Rightarrow> False)"

text \<open>No reservation of the connection expires while an acceptance is on its way.\<close>

definition no_expiry_race :: "nat \<Rightarrow> 'p poll_answers \<Rightarrow> 'p Handler \<Rightarrow> 'p Behaviour \<Rightarrow> bool" where
  "no_expiry_race i a h b \<longleftrightarrow> reservation_fired a \<longrightarrow> \<not> accepting h \<and> \<not> accept_queued i b"

definition env_ok :: "nat \<Rightarrow> 'p sys_step \<Rightarrow> 'p relay_system \<Rightarrow> bool" where
  "env_ok t st s \<longleftrightarrow> (case st of
     SysConnect p i endpoint addrs changed \<Rightarrow> i |\<notin>| sys_used s
   | SysClose p i addrs changed \<Rightarrow> i |\<in>| sys_used s \<and> (case fmlookup (sys_handlers s) i of None \<Rightarrow> True | Some (q, h) \<Rightarrow> q = p)
   | SysStream i event \<Rightarrow> (case fmlookup (sys_handlers s) i of None \<Rightarrow> True
       | Some (p, h) \<Rightarrow> (case event of FullyNegotiatedInbound stream \<Rightarrow> True | _ \<Rightarrow> pending_connect_requests h \<noteq> []))
   | SysPoll i now a \<Rightarrow> t \<le> now \<and> (case fmlookup (sys_handlers s) i of None \<Rightarrow> True
       | Some (p, h) \<Rightarrow> answers_fit a h \<and> no_expiry_race i a h (sys_b s))
   | _ \<Rightarrow> True)"

definition sys_time :: "nat \<Rightarrow> 'p sys_step \<Rightarrow> nat" where
  "sys_time t st = (case st of SysPoll i now a \<Rightarrow> max t now | _ \<Rightarrow> t)"

primrec env_run :: "usage_store \<Rightarrow> nat \<Rightarrow> 'p::linorder sys_step list \<Rightarrow> 'p relay_system \<Rightarrow> bool" where
  "env_run U t [] s \<longleftrightarrow> True"
| "env_run U t (st # ss) s \<longleftrightarrow> env_ok t st s \<and> (case sys_step U st s of None \<Rightarrow> True | Some s' \<Rightarrow> env_run U (sys_time t st) ss s')"

section \<open>What the behaviour does to reservations\<close>

text \<open>The reservations of all connections but one stay as they are, and nothing new is accepted.\<close>

definition frame :: "'p \<Rightarrow> nat \<Rightarrow> 'p Behaviour \<Rightarrow> 'p Behaviour \<Rightarrow> bool" where
  "frame p i b b' \<longleftrightarrow> (\<forall>q j. (q, j) \<noteq> (p, i) \<longrightarrow> reserved q j b' = reserved q j b) \<and> (\<forall>j. accept_queued j b' = accept_queued j b)"

text \<open>All reservations stay, and an acceptance is only queued for a reserved connection.\<close>

definition grows :: "'p \<Rightarrow> nat \<Rightarrow> 'p Behaviour \<Rightarrow> 'p Behaviour \<Rightarrow> bool" where
  "grows p i b b' \<longleftrightarrow> (\<forall>q j. reserved q j b \<longrightarrow> reserved q j b')
     \<and> (\<forall>j. accept_queued j b' \<longrightarrow> accept_queued j b \<or> j = i \<and> reserved p i b')"

definition plain :: "'p ToSwarm \<Rightarrow> bool" where
  "plain a \<longleftrightarrow> (case a of NotifyHandler q j (AcceptReservationReq req addrs) \<Rightarrow> False | _ \<Rightarrow> True)"

lemma plain_simps [simp]: "plain (GenerateEvent e)" "plain (NotifyHandler q j (DenyReservationReq r st))" "plain (NotifyHandler q j (DenyCircuitReq c cr st))"
    "plain (NotifyHandler q j (NegotiateOutboundConnect n cr p k))" "plain (NotifyHandler q j (AcceptAndDriveCircuit n p cr k bs))"
    "plain (NotifyHandler q j (SetStatus s))"
  by (simp_all add: plain_def)

lemma plain_accepts: "plain a \<Longrightarrow> \<not> accepts j a"
  by (simp add: plain_def accepts_def split: ToSwarm.splits handler_In.splits)

lemma accept_queued_append: "list_all plain as \<Longrightarrow> queued_actions b' = queued_actions b @ as \<Longrightarrow> accept_queued j b' = accept_queued j b"
  using plain_accepts by (auto simp: accept_queued_def list_all_iff list_ex_iff)

lemma accept_queued_update [simp]:
  "accept_queued j (b\<lparr>circuits := t\<rparr>) = accept_queued j b" "accept_queued j (b\<lparr>b_config := c\<rparr>) = accept_queued j b"
  "accept_queued j (b\<lparr>b_status := st\<rparr>) = accept_queued j b" "accept_queued j (b\<lparr>external_addresses := ea\<rparr>) = accept_queued j b"
  "accept_queued j (b\<lparr>auto_status_change := au\<rparr>) = accept_queued j b"
  "accept_queued j (put_reservation p i r b) = accept_queued j b" "accept_queued j (drop_connection p i b) = accept_queued j b"
  by (simp_all add: accept_queued_def put_reservation_def drop_connection_def Let_def)

lemma reserved_update [simp]:
  "reserved q j (b\<lparr>circuits := t\<rparr>) = reserved q j b" "reserved q j (b\<lparr>b_config := c\<rparr>) = reserved q j b"
  "reserved q j (b\<lparr>b_status := st\<rparr>) = reserved q j b" "reserved q j (b\<lparr>external_addresses := ea\<rparr>) = reserved q j b"
  "reserved q j (b\<lparr>auto_status_change := au\<rparr>) = reserved q j b" "reserved q j (b\<lparr>queued_actions := qa\<rparr>) = reserved q j b"
  "reserved q j (push_action a b) = reserved q j b" "reserved q j (push_event e b) = reserved q j b"
  by (simp_all add: reserved_def connections_of_def push_action_def push_event_def)

lemma reserved_put: "reserved q j (put_reservation p i r b) = (if q = p \<and> j = i then r = Active else reserved q j b)"
  by (auto simp: reserved_def connections_of_put)

lemma reserved_drop: "reserved q j (drop_connection p i b) = (if q = p \<and> j = i then False else reserved q j b)"
  by (auto simp: reserved_def connections_of_drop)

lemma accept_queued_push [simp]: "plain a \<Longrightarrow> accept_queued j (push_action a b) = accept_queued j b" "accept_queued j (push_event e b) = accept_queued j b"
  by (auto simp: push_event_def push_action_def intro!: accept_queued_append [of "[_]"])

lemma accept_queued_accept [simp]:
  "accept_queued j (push_action (NotifyHandler q i (AcceptReservationReq req addrs)) b) \<longleftrightarrow> j = i \<or> accept_queued j b"
  by (auto simp: accept_queued_def push_action_def accepts_def)

lemma reconfigure_frame [simp]: "accept_queued j (reconfigure_relay_status b) = accept_queued j b" "reserved q j (reconfigure_relay_status b) = reserved q j b"
  by (rule accept_queued_append [of _ "reconfigure_relay_status b" b], unfold reconfigure_relay_status_def, auto simp: list_all_iff)

lemma determine_frame [simp]:
  "accept_queued j (determine_relay_status_from_external_address b) = accept_queued j b"
  "reserved q j (determine_relay_status_from_external_address b) = reserved q j b"
  by (simp_all add: determine_relay_status_from_external_address_def Let_def)

lemma set_status_frame [simp]: "accept_queued j (set_status st b) = accept_queued j b" "reserved q j (set_status st b) = reserved q j b"
  by (simp_all add: set_status_def Let_def split: option.split)

lemma closed_frame: "frame p i b (on_connection_closed U p i b)"
proof -
  define b1 where "b1 = (if fmlookup (connections b) p = None then b
    else let b' = drop_connection p i b in if fmlookup (connections_of p b) i \<noteq> None then push_event (ReservationClosed p) b' else b')"
  define t rs where "t = snd (remove_by_connection p i (circuits b1))" and "rs = fst (remove_by_connection p i (circuits b1))"
  have closed: "on_connection_closed U p i b = b1\<lparr>circuits := t, queued_actions := queued_actions b1 @ concat (map (close_circuit_event U) rs)\<rparr>"
    unfolding on_connection_closed_def b1_def [symmetric] by (simp add: t_def rs_def Let_def split_beta)
  have "list_all plain (concat (map (close_circuit_event U) rs))"
    by (auto simp: list_all_iff close_circuit_event_def split: CircuitStatus.splits)
  then have "accept_queued j (on_connection_closed U p i b) = accept_queued j b1" for j
    by (rule accept_queued_append) (simp add: closed)
  moreover have "reserved q j (on_connection_closed U p i b) = reserved q j b1" for q j by (simp add: closed)
  moreover have "frame p i b b1" by (auto simp: frame_def b1_def Let_def reserved_drop)
  ultimately show ?thesis by (simp add: frame_def)
qed

lemma swarm_frame: "event = ConnectionEstablished p i \<or> event = ConnectionClosed p i \<Longrightarrow> frame p i b (on_swarm_event U addrs changed event b)"
proof -
  assume event: "event = ConnectionEstablished p i \<or> event = ConnectionClosed p i"
  define b1 where "b1 = (let b = b\<lparr>external_addresses := addrs\<rparr>
    in if auto_status_change b \<and> changed then determine_relay_status_from_external_address b else b)"
  have "frame p i b b1" by (simp add: frame_def b1_def Let_def)
  moreover have "on_swarm_event U addrs changed event b = (case event of
      ConnectionEstablished p i \<Rightarrow> on_connection_established p i b1 | ConnectionClosed p i \<Rightarrow> on_connection_closed U p i b1 | OtherSwarmEvent \<Rightarrow> b1)"
    unfolding b1_def on_swarm_event_def Let_def by (rule refl)
  moreover have "frame p i b1 (on_connection_established p i b1)" by (simp add: frame_def on_connection_established_def reserved_put)
  ultimately show ?thesis using event closed_frame [of p i b1 U] by (auto simp: frame_def)
qed

lemma other_frame [simp]:
  "accept_queued j (on_swarm_event U addrs changed OtherSwarmEvent b) = accept_queued j b"
  "reserved q j (on_swarm_event U addrs changed OtherSwarmEvent b) = reserved q j b"
  by (simp_all add: on_swarm_event_def Let_def)

lemma grows_refl: "(\<And>q j. reserved q j b' = reserved q j b) \<Longrightarrow> (\<And>j. accept_queued j b' = accept_queued j b) \<Longrightarrow> grows p i b b'"
  by (simp add: grows_def)

lemma reservation_req_grows: "on_reservation_req now p i req endpoint renewed b = Some b' \<Longrightarrow> grows p i b b'"
  by (auto simp: on_reservation_req_def Let_def grows_def reserved_put split: if_splits prod.splits)

lemma circuit_req_grows: "on_circuit_req now p i req endpoint b = Some b' \<Longrightarrow> grows p i b b'"
  by (auto simp: on_circuit_req_def Let_def intro!: grows_refl split: if_splits prod.splits option.splits)

lemma forget_frame [simp]: "reserved q j (forget_circuit c b) = reserved q j b" "accept_queued j (forget_circuit c b) = accept_queued j b"
  by (simp_all add: forget_circuit_def split: option.split)

lemma handler_event_grows:
  assumes "on_connection_handler_event U now p i event b = Some b'" and "event \<noteq> HReservationTimedOut"
  shows "grows p i b b'"
proof (cases event)
  case (HReservationReqReceived req endpoint renewed)
  then show ?thesis using assms(1) reservation_req_grows by (simp add: on_connection_handler_event_def)
next
  case (HCircuitReqReceived req endpoint)
  then show ?thesis using assms(1) circuit_req_grows by (simp add: on_connection_handler_event_def)
qed (use assms in \<open>auto simp: on_connection_handler_event_def grows_def reserved_put Let_def split_beta split: if_splits\<close>)

lemma timed_out_frame: "on_connection_handler_event U now p i HReservationTimedOut b = Some b' \<Longrightarrow> frame p i b b'"
  by (auto simp: on_connection_handler_event_def frame_def reserved_drop split: if_splits)

section \<open>What a handler does\<close>

definition reservation_event :: "'p handler_output \<Rightarrow> bool" where
  "reservation_event e \<longleftrightarrow> (case e of
     NotifyBehaviour (HReservationReqReceived req endpoint renewed) \<Rightarrow> True
   | NotifyBehaviour (HReservationReqAccepted renewed) \<Rightarrow> True
   | NotifyBehaviour HReservationTimedOut \<Rightarrow> True
   | NotifyBehaviour (HCircuitReqReceived req endpoint) \<Rightarrow> True
   | _ \<Rightarrow> False)"

definition handler_wf :: "'p Handler \<Rightarrow> bool" where
  "handler_wf h \<longleftrightarrow> \<not> endpoint_is_relayed (h_endpoint h) \<and> (\<forall>e\<in>set (queued_events h). \<not> reservation_event e)
     \<and> (\<forall>w\<in>set (outbound_workers h). fmlookup (active_connect_requests h) (fst w) \<noteq> None)"

text \<open>A handler holds a reservation, or is about to.\<close>

definition holds :: "'p Handler \<Rightarrow> bool" where
  "holds h \<longleftrightarrow> active_reservation h \<noteq> None \<or> accepting h"

text \<open>What an event says about the handler that reports it.\<close>

definition reports :: "'p Handler \<Rightarrow> bool \<Rightarrow> 'p handler_Event \<Rightarrow> bool" where
  "reports h fired e \<longleftrightarrow> (case e of
     HReservationReqReceived req endpoint renewed \<Rightarrow> endpoint = h_endpoint h \<and> renewed = (active_reservation h \<noteq> None)
   | HReservationReqAccepted renewed \<Rightarrow> accepting h
   | HReservationTimedOut \<Rightarrow> active_reservation h \<noteq> None \<and> fired
   | HCircuitReqReceived req endpoint \<Rightarrow> endpoint = h_endpoint h
   | _ \<Rightarrow> True)"

definition same_reservation :: "'p Handler \<Rightarrow> 'p Handler \<Rightarrow> bool" where
  "same_reservation h h' \<longleftrightarrow> active_reservation h' = active_reservation h \<and> reservation_request_future h' = reservation_request_future h
     \<and> h_endpoint h' = h_endpoint h"

lemma same_reservation_holds: "same_reservation h h' \<Longrightarrow> holds h' = holds h" "same_reservation h h' \<Longrightarrow> reports h' fired e = reports h fired e"
  by (simp_all add: same_reservation_def holds_def accepting_def reports_def split: handler_Event.split)

lemma same_reservation_trans: "same_reservation h h' \<Longrightarrow> same_reservation h' h'' \<Longrightarrow> same_reservation h h''"
  by (simp add: same_reservation_def)

lemma queued_reports: "\<not> reservation_event (NotifyBehaviour e) \<Longrightarrow> reports h fired e \<and> e \<noteq> HReservationTimedOut"
  by (cases e) (simp_all add: reservation_event_def reports_def)

lemma poll_inbound_outcome:
  "poll_inbound rs h = (e, h') \<Longrightarrow> handler_wf h \<Longrightarrow> handler_wf h' \<and> same_reservation h h' \<and> outbound_workers h' = outbound_workers h
     \<and> (\<forall>ev. e = Some ev \<longrightarrow> reports h fired ev \<and> ev \<noteq> HReservationTimedOut)"
proof (induction rs h arbitrary: e h' rule: poll_inbound.induct)
  case (2 k r rs h)
  define h1 where "h1 = h\<lparr>inbound_workers := remove_nth k (inbound_workers h)\<rparr>"
  have wf: "handler_wf h1" using "2.prems"(2) by (simp add: handler_wf_def h1_def)
  have same: "same_reservation h h1" "outbound_workers h1 = outbound_workers h" by (simp_all add: h1_def same_reservation_def)
  consider (req) req where "r = Some (Inr (Inl req))" | (circuit) req where "r = Some (Inr (Inr req))" | (none) "r = None" | (failed) err where "r = Some (Inl err)"
    by (metis option.exhaust sum.exhaust)
  then show ?case
  proof cases
    case req
    then have "e = Some (HReservationReqReceived req (h_endpoint h1) (active_reservation h1 \<noteq> None))" "h' = h1"
      using "2.prems"(1) by (auto simp: h1_def)
    then show ?thesis using wf same by (simp add: reports_def same_reservation_def)
  next
    case circuit
    then have "e = Some (HCircuitReqReceived req (h_endpoint h1))" "h' = h1" using "2.prems"(1) by (auto simp: h1_def)
    then show ?thesis using wf same by (simp add: reports_def same_reservation_def)
  next
    case none
    then have "poll_inbound rs h1 = (e, h')" using "2.prems"(1) by (simp add: h1_def)
    from "2.IH"(1) [OF h1_def none this wf] show ?thesis using same same_reservation_trans [OF same(1)] same_reservation_holds(2) [OF same(1)] by simp
  next
    case failed
    then have "poll_inbound rs h1 = (e, h')" using "2.prems"(1) by (simp add: h1_def)
    from "2.IH"(2) [OF h1_def failed refl this wf] show ?thesis using same same_reservation_trans [OF same(1)] same_reservation_holds(2) [OF same(1)] by simp
  qed
qed (simp add: same_reservation_def)

definition poll_good :: "'p Handler \<Rightarrow> bool \<Rightarrow> 'p handler_output option \<times> 'p Handler \<Rightarrow> bool" where
  "poll_good h fired r \<longleftrightarrow> handler_wf (snd r) \<and> (holds (snd r) \<longrightarrow> holds h)
     \<and> (\<forall>e. fst r = Some (NotifyBehaviour e) \<longrightarrow> reports h fired e \<and> (e = HReservationTimedOut \<longrightarrow> holds (snd r) \<longrightarrow> accepting h))"

lemma poll_good_same:
  "handler_wf h' \<Longrightarrow> same_reservation h h' \<Longrightarrow> (\<And>e. out = Some (NotifyBehaviour e) \<Longrightarrow> reports h fired e \<and> e \<noteq> HReservationTimedOut) \<Longrightarrow> poll_good h fired (out, h')"
  using same_reservation_holds(1) [of h h'] by (simp add: poll_good_def)

lemma poll_good_after: "same_reservation h h1 \<Longrightarrow> poll_good h1 fired r \<Longrightarrow> poll_good h fired r"
  using same_reservation_holds [of h h1] by (auto simp: poll_good_def same_reservation_def accepting_def)

lemma poll_outbound_good:
  assumes "handler_wf h" and "id1 \<in> fst ` set (outbound_workers h)"
  shows "\<exists>e h'. poll_outbound id1 result h = Some (e, h') \<and> poll_good h fired (Some (NotifyBehaviour e), h')"
proof -
  obtain connect where connect: "fmlookup (active_connect_requests h) id1 = Some connect" using assms by (auto simp: handler_wf_def)
  define h1 where "h1 = h\<lparr>active_connect_requests := fmdrop id1 (active_connect_requests h), outbound_workers := filter (\<lambda>w. fst w \<noteq> id1) (outbound_workers h)\<rparr>"
  have "handler_wf h1" using assms(1) by (auto simp: handler_wf_def h1_def)
  moreover have "same_reservation h h1" by (simp add: same_reservation_def h1_def)
  ultimately have good: "reports h fired e \<Longrightarrow> e \<noteq> HReservationTimedOut \<Longrightarrow> poll_good h fired (Some (NotifyBehaviour e), h1)" for e
    by (auto intro: poll_good_same)
  show ?thesis
    by (auto simp: poll_outbound_def connect Let_def reports_def negotiation_failed_def simp flip: h1_def intro!: good split: option.split sum.split)
qed

lemma handler_wf_update [simp]:
  "handler_wf (h\<lparr>circuit_deny_futures := ds\<rparr>) = handler_wf h" "handler_wf (h\<lparr>circuit_accept_futures := afs\<rparr>) = handler_wf h"
  "handler_wf (h\<lparr>h_circuits := cs\<rparr>) = handler_wf h" "handler_wf (h\<lparr>idle_at := ia\<rparr>) = handler_wf h"
  "handler_wf (h\<lparr>active_reservation := ar\<rparr>) = handler_wf h" "handler_wf (h\<lparr>reservation_request_future := rf\<rparr>) = handler_wf h"
  "handler_wf (h\<lparr>inbound_workers := iw\<rparr>) = handler_wf h" "handler_wf (h\<lparr>h_status := hs\<rparr>) = handler_wf h"
  "handler_wf (h\<lparr>pending_connect_requests := pcr\<rparr>) = handler_wf h"
  by (simp_all add: handler_wf_def)

lemma poll_deny_good: "handler_wf h \<Longrightarrow> poll_deny k result h = (e, h') \<Longrightarrow> poll_good h fired (Some (NotifyBehaviour e), h')"
  by (rule poll_good_same) (auto simp: poll_deny_def Let_def same_reservation_def reports_def split: sum.splits)

lemma poll_accept_good: "handler_wf h \<Longrightarrow> poll_accept k result u h = (e, h') \<Longrightarrow> poll_good h fired (Some (NotifyBehaviour e), h')"
  by (rule poll_good_same) (auto simp: poll_accept_def Let_def same_reservation_def reports_def split: sum.splits)

lemma poll_request_good:
  "handler_wf h \<Longrightarrow> reservation_request_future h = Some f \<Longrightarrow> poll_request result h = (e, h') \<Longrightarrow> poll_good h fired (Some (NotifyBehaviour e), h')"
  by (cases f; cases result) (auto simp: poll_request_def poll_good_def holds_def accepting_def reports_def)

lemma poll_idle_good: "handler_wf h \<Longrightarrow> poll_good h fired (None, poll_idle now h)"
  by (rule poll_good_same) (auto simp: poll_idle_def same_reservation_def)

lemma poll_reservation_good:
  assumes "handler_wf h"
  shows "\<exists>r. (if active_reservation h \<noteq> None \<and> fired
       then Some (Some (NotifyBehaviour HReservationTimedOut), h\<lparr>active_reservation := None\<rparr>)
       else (case (reservation_request_future h, result) of
           (Some f, Some result) \<Rightarrow> let (event, h) = poll_request result h in Some (Some (NotifyBehaviour event), h)
         | _ \<Rightarrow> Some (None, poll_idle now h))) = Some r \<and> poll_good h fired r"
proof (cases "active_reservation h \<noteq> None \<and> fired")
  case True
  then show ?thesis using assms by (auto simp: poll_good_def holds_def accepting_def reports_def)
next
  case False
  show ?thesis
  proof (cases "\<exists>f x. reservation_request_future h = Some f \<and> result = Some x")
    case True
    then obtain f x where f: "reservation_request_future h = Some f" "result = Some x" by (elim exE conjE)
    obtain e h' where "poll_request x h = (e, h')" by fastforce
    then show ?thesis using False f poll_request_good [OF assms f(1), of x e h' fired] by auto
  next
    case None: False
    then show ?thesis using False poll_idle_good [OF assms, of fired now] by (auto split: option.splits)
  qed
qed

lemma handler_poll_good:
  assumes wf: "handler_wf h" and fit: "answers_fit a h"
  shows "\<exists>r. handler_poll a h = Some r \<and> poll_good h (reservation_fired a) r"
proof (cases "queued_events h")
  case (Cons e es)
  have "handler_wf (h\<lparr>queued_events := es\<rparr>)" "\<not> reservation_event e" using wf by (simp_all add: handler_wf_def Cons)
  then have "poll_good h (reservation_fired a) (Some e, h\<lparr>queued_events := es\<rparr>)"
    by (intro poll_good_same) (auto simp: same_reservation_def dest: queued_reports)
  then show ?thesis by (simp add: handler_poll_def Cons)
next
  case queue: Nil
  show ?thesis
  proof (cases "circuits_next a")
    case (Some kr)
    have "poll_good h (reservation_fired a) (Some (NotifyBehaviour (HCircuitClosed c d e)), h\<lparr>h_circuits := x\<rparr>)" for c d e x
      using wf by (intro poll_good_same) (auto simp: same_reservation_def reports_def)
    then show ?thesis by (auto simp: handler_poll_def queue Some split_beta Let_def)
  next
    case circuits: None
    obtain e h1 where inbound: "poll_inbound (inbound_next a) h = (e, h1)" by fastforce
    note h1 = poll_inbound_outcome [OF inbound wf, of "reservation_fired a"]
    show ?thesis
    proof (cases e)
      case (Some ev)
      then have "poll_good h (reservation_fired a) (Some (NotifyBehaviour ev), h1)" using h1 by (intro poll_good_same) auto
      then show ?thesis by (simp add: handler_poll_def queue circuits inbound Some)
    next
      case none: None
      have poll: "handler_poll a h = (case outbound_next a of
           Some (id1, result) \<Rightarrow> map_option (\<lambda>(event, h). (Some (NotifyBehaviour event), h)) (poll_outbound id1 result h1)
         | None \<Rightarrow> (case deny_next a of
             Some (k, result) \<Rightarrow> let (event, h) = poll_deny k result h1 in Some (Some (NotifyBehaviour event), h)
           | None \<Rightarrow> (case accept_next a of
               Some (k, result) \<Rightarrow> let (event, h) = poll_accept k result (fresh_usage a) h1 in Some (Some (NotifyBehaviour event), h)
             | None \<Rightarrow>
                 if active_reservation h1 \<noteq> None \<and> reservation_fired a
                 then Some (Some (NotifyBehaviour HReservationTimedOut), h1\<lparr>active_reservation := None\<rparr>)
                 else (case (reservation_request_future h1, request_result a) of
                     (Some f, Some result) \<Rightarrow> let (event, h) = poll_request result h1 in Some (Some (NotifyBehaviour event), h)
                   | _ \<Rightarrow> Some (None, poll_idle (poll_now a) h1)))))"
        by (simp add: handler_poll_def queue circuits inbound none)
      have wf1: "handler_wf h1" and same: "same_reservation h h1" and workers: "outbound_workers h1 = outbound_workers h" using h1 by simp_all
      have "\<exists>r. handler_poll a h = Some r \<and> poll_good h1 (reservation_fired a) r"
      proof (cases "outbound_next a")
        case (Some ir)
        obtain id1 r where ir: "ir = (id1, r)" by (cases ir)
        have "id1 \<in> fst ` set (outbound_workers h1)" using fit by (simp add: answers_fit_def Some ir workers)
        from poll_outbound_good [OF wf1 this, of r "reservation_fired a"] show ?thesis by (auto simp: poll Some ir)
      next
        case outbound: None
        show ?thesis
        proof (cases "deny_next a")
          case (Some kr)
          then show ?thesis using poll_deny_good [OF wf1] by (cases kr) (auto simp: poll outbound Let_def split: prod.split)
        next
          case deny: None
          show ?thesis
          proof (cases "accept_next a")
            case (Some kr)
            then show ?thesis using poll_accept_good [OF wf1] by (cases kr) (auto simp: poll outbound deny Let_def split: prod.split)
          next
            case None
            show ?thesis unfolding poll outbound deny None option.simps by (rule poll_reservation_good [OF wf1])
          qed
        qed
      qed
      then show ?thesis using poll_good_after [OF same] by blast
    qed
  qed
qed

lemma on_behaviour_event_wf: "handler_wf h \<Longrightarrow> handler_wf (on_behaviour_event msg h)"
  by (cases msg) (auto simp: on_behaviour_event_def handler_wf_def reservation_event_def)

lemma on_behaviour_event_holds: "holds (on_behaviour_event msg h) \<Longrightarrow> holds h \<or> (\<exists>req addrs. msg = AcceptReservationReq req addrs)"
  by (cases msg) (auto simp: on_behaviour_event_def holds_def accepting_def)

lemma connection_event_good:
  assumes "handler_wf h" and "case event of FullyNegotiatedInbound stream \<Rightarrow> True | _ \<Rightarrow> pending_connect_requests h \<noteq> []"
  shows "\<exists>h'. on_connection_event event h = Some h' \<and> handler_wf h' \<and> holds h' = holds h"
proof (cases event)
  case (FullyNegotiatedInbound stream)
  then show ?thesis using assms(1) by (simp add: on_connection_event_def on_fully_negotiated_inbound_def holds_def accepting_def)
next
  case (FullyNegotiatedOutbound stream)
  then obtain c cs where "pending_connect_requests h = c # cs" using assms(2) by (cases "pending_connect_requests h") auto
  then show ?thesis using assms(1) FullyNegotiatedOutbound
    by (simp add: on_connection_event_def on_fully_negotiated_outbound_def Let_def handler_wf_def holds_def accepting_def)
next
  case (DialUpgradeError e)
  then obtain c cs where "pending_connect_requests h = c # cs" using assms(2) by (cases "pending_connect_requests h") auto
  then show ?thesis using assms(1) DialUpgradeError
    by (simp add: on_connection_event_def on_dial_upgrade_error_def handler_wf_def holds_def accepting_def reservation_event_def)
qed

section \<open>The invariant of the system\<close>

definition conn_ok :: "'p \<Rightarrow> nat \<Rightarrow> 'p Handler \<Rightarrow> 'p Behaviour \<Rightarrow> bool" where
  "conn_ok p i h b \<longleftrightarrow> handler_wf h \<and> (holds h \<or> accept_queued i b \<longrightarrow> reserved p i b)"

definition sys_inv :: "'p relay_system \<Rightarrow> bool" where
  "sys_inv s \<longleftrightarrow> (\<forall>i p h. fmlookup (sys_handlers s) i = Some (p, h) \<longrightarrow> i |\<in>| sys_used s \<and> conn_ok p i h (sys_b s))
     \<and> (\<forall>j. accept_queued j (sys_b s) \<longrightarrow> j |\<in>| sys_used s)"

lemma sys_invD: "sys_inv s \<Longrightarrow> fmlookup (sys_handlers s) i = Some (p, h) \<Longrightarrow> i |\<in>| sys_used s \<and> conn_ok p i h (sys_b s)"
  by (simp add: sys_inv_def)

text \<open>A handler's event changes its own connection only.\<close>

lemma sys_inv_grows:
  assumes inv: "sys_inv s" and own: "fmlookup (sys_handlers s) i = Some (p, h)" and grows: "grows p i (sys_b s) b'"
    and good: "handler_wf h'" "holds h' \<longrightarrow> holds h"
  shows "sys_inv (put_handler i p h' (s\<lparr>sys_b := b'\<rparr>))"
proof -
  have used: "i |\<in>| sys_used s" and ok: "conn_ok p i h (sys_b s)" using sys_invD [OF inv own] by simp_all
  have "conn_ok p i h' b'" using ok good grows by (auto simp: conn_ok_def grows_def)
  moreover have "conn_ok q j g b'" if "fmlookup (sys_handlers s) j = Some (q, g)" "j \<noteq> i" for q j g
    using sys_invD [OF inv that(1)] that(2) grows by (auto simp: conn_ok_def grows_def)
  moreover have "j |\<in>| sys_used s" if "accept_queued j b'" for j
    using that grows inv used by (auto simp: grows_def sys_inv_def)
  ultimately show ?thesis using inv used by (auto simp: sys_inv_def put_handler_def)
qed

lemma sys_inv_frame:
  assumes inv: "sys_inv s" and own: "fmlookup (sys_handlers s) i = Some (p, h)" and frame: "frame p i (sys_b s) b'"
    and good: "handler_wf h'" "\<not> holds h'" "\<not> accept_queued i (sys_b s)"
  shows "sys_inv (put_handler i p h' (s\<lparr>sys_b := b'\<rparr>))"
proof -
  have "conn_ok p i h' b'" using good frame by (auto simp: conn_ok_def frame_def)
  moreover have "conn_ok q j g b'" if "fmlookup (sys_handlers s) j = Some (q, g)" "j \<noteq> i" for q j g
    using sys_invD [OF inv that(1)] that(2) frame by (auto simp: conn_ok_def frame_def)
  ultimately show ?thesis using inv own frame by (auto simp: sys_inv_def put_handler_def frame_def)
qed

lemma poll_step:
  assumes inv: "sys_inv s" and own: "fmlookup (sys_handlers s) i = Some (p, h)" and relay: "relay_inv now n (sys_b s)" and small: "n + 1 < 2 ^ 64"
    and fit: "answers_fit a h" and race: "no_expiry_race i a h (sys_b s)"
  shows "\<exists>s'. sys_step U (SysPoll i now a) s = Some s' \<and> sys_inv s' \<and> inv_step now (n + 1) (sys_b s) (sys_b s')"
proof -
  have ok: "conn_ok p i h (sys_b s)" using sys_invD [OF inv own] by simp
  then have wf: "handler_wf h" by (simp add: conn_ok_def)
  obtain out h' where poll: "handler_poll a h = Some (out, h')" "poll_good h (reservation_fired a) (out, h')"
    using handler_poll_good [OF wf fit] by auto
  then have h': "handler_wf h'" "holds h' \<longrightarrow> holds h" by (simp_all add: poll_good_def)
  have same: "inv_step now (n + 1) (sys_b s) (sys_b s)"
    using keeps_inv_step [OF keeps_refl relay_inv_mono [OF relay, of "n + 1"]] by simp
  show ?thesis
  proof (cases "\<exists>e. out = Some (NotifyBehaviour e)")
    case True
    then obtain e where e: "out = Some (NotifyBehaviour e)" by (rule exE)
    have reports: "reports h (reservation_fired a) e" "e = HReservationTimedOut \<longrightarrow> holds h' \<longrightarrow> accepting h"
      using poll(2) by (simp_all add: poll_good_def e)
    have "honest p i e (sys_b s)"
      using reports(1) ok wf by (cases e) (auto simp: honest_def reports_def conn_ok_def holds_def handler_wf_def reserved_def connections_of_def split: option.splits)
    from handler_event_inv [OF relay small this, of U] obtain b' where
      b': "on_connection_handler_event U now p i e (sys_b s) = Some b'" "inv_step now (n + 1) (sys_b s) b'" by blast
    have step: "sys_step U (SysPoll i now a) s = Some (put_handler i p h' (s\<lparr>sys_b := b'\<rparr>))"
      by (simp add: sys_step_def own poll(1) e b'(1))
    have "sys_inv (put_handler i p h' (s\<lparr>sys_b := b'\<rparr>))"
    proof (cases "e = HReservationTimedOut")
      case True
      then have "reservation_fired a" using reports(1) by (simp add: reports_def)
      then have "\<not> accepting h" "\<not> accept_queued i (sys_b s)" using race by (simp_all add: no_expiry_race_def)
      then show ?thesis using sys_inv_frame [OF inv own timed_out_frame h'(1)] b'(1) True reports(2) by blast
    next
      case False
      then show ?thesis by (rule sys_inv_grows [OF inv own handler_event_grows [OF b'(1)] h'])
    qed
    then show ?thesis using step b'(2) by (simp add: put_handler_def)
  next
    case False
    have "grows p i (sys_b s) (sys_b s)" by (simp add: grows_def)
    then have "sys_inv (put_handler i p h' (s\<lparr>sys_b := sys_b s\<rparr>))" by (rule sys_inv_grows [OF inv own _ h'])
    moreover have "sys_step U (SysPoll i now a) s = Some (put_handler i p h' s)"
      using False by (auto simp: sys_step_def own poll(1) split: option.splits handler_output.splits)
    ultimately show ?thesis using same by (simp add: put_handler_def)
  qed
qed

lemma handler_new_good: "\<not> endpoint_is_relayed endpoint \<Longrightarrow> handler_wf (handler_new c endpoint st) \<and> \<not> holds (handler_new c endpoint st)"
  by (simp add: handler_new_def handler_wf_def holds_def accepting_def)

lemma connect_step:
  assumes inv: "sys_inv s" and fresh: "i |\<notin>| sys_used s"
  shows "\<exists>s'. sys_step U (SysConnect p i endpoint addrs changed) s = Some s' \<and> sys_inv s'
    \<and> sys_b s' = on_swarm_event U addrs changed (ConnectionEstablished p i) (sys_b s)"
proof -
  define b' where "b' = on_swarm_event U addrs changed (ConnectionEstablished p i) (sys_b s)"
  define s1 where "s1 = s\<lparr>sys_b := b', sys_used := finsert i (sys_used s)\<rparr>"
  have frame: "frame p i (sys_b s) b'" unfolding b'_def by (rule swarm_frame) simp
  have quiet: "\<not> accept_queued i b'" using inv fresh frame by (auto simp: sys_inv_def frame_def)
  have others: "j |\<in>| sys_used s \<and> conn_ok q j g b'" if "fmlookup (sys_handlers s) j = Some (q, g)" for q j g
  proof -
    have "j \<noteq> i" using sys_invD [OF inv that] fresh by auto
    then show ?thesis using sys_invD [OF inv that] frame by (auto simp: conn_ok_def frame_def)
  qed
  then have "sys_inv s1" using inv frame by (auto simp: sys_inv_def s1_def frame_def)
  moreover have "sys_inv (put_handler i p h s1)" if "handler_wf h" "\<not> holds h" for h
    using others inv frame quiet that by (auto simp: sys_inv_def s1_def put_handler_def frame_def conn_ok_def)
  ultimately show ?thesis using handler_new_good
    by (auto simp: sys_step_def established_handler_def Let_def s1_def put_handler_def simp flip: b'_def)
qed

lemma close_step:
  assumes inv: "sys_inv s" and used: "i |\<in>| sys_used s" and own: "case fmlookup (sys_handlers s) i of None \<Rightarrow> True | Some (q, h) \<Rightarrow> q = p"
  shows "sys_inv (s\<lparr>sys_b := on_swarm_event U addrs changed (ConnectionClosed p i) (sys_b s), sys_handlers := fmdrop i (sys_handlers s)\<rparr>)"
proof -
  define b' where "b' = on_swarm_event U addrs changed (ConnectionClosed p i) (sys_b s)"
  have frame: "frame p i (sys_b s) b'" unfolding b'_def by (rule swarm_frame) simp
  have "j |\<in>| sys_used s \<and> conn_ok q j g b'" if "fmlookup (sys_handlers s) j = Some (q, g)" "j \<noteq> i" for q j g
    using sys_invD [OF inv that(1)] frame that(2) by (auto simp: conn_ok_def frame_def)
  then show ?thesis unfolding b'_def [symmetric] using inv frame by (auto simp: sys_inv_def frame_def)
qed

lemma sys_inv_same:
  assumes "sys_inv s" and "\<And>q j. reserved q j b' = reserved q j (sys_b s)" and "\<And>j. accept_queued j b' \<Longrightarrow> accept_queued j (sys_b s)"
  shows "sys_inv (s\<lparr>sys_b := b'\<rparr>)"
proof -
  have "conn_ok p i h (sys_b s) \<Longrightarrow> conn_ok p i h b'" for p i h using assms(2,3) by (auto simp: conn_ok_def)
  then show ?thesis using assms(1,3) by (auto simp: sys_inv_def)
qed

lemma deliver_step:
  assumes inv: "sys_inv s" and poll: "behaviour_poll (sys_b s) = (a, b')"
  shows "sys_inv (deliver a (s\<lparr>sys_b := b'\<rparr>)) \<and> sys_b (deliver a (s\<lparr>sys_b := b'\<rparr>)) = b'"
proof -
  have res: "reserved q j b' = reserved q j (sys_b s)" for q j
    using poll by (auto simp: behaviour_poll_def reserved_def connections_of_def split: list.splits)
  have queue: "accept_queued j b' \<Longrightarrow> accept_queued j (sys_b s)" for j
    using poll by (auto simp: behaviour_poll_def accept_queued_def split: list.splits)
  have front: "a = Some (NotifyHandler q i (AcceptReservationReq req addrs)) \<Longrightarrow> accept_queued i (sys_b s)" for q i req addrs
    using poll by (auto simp: behaviour_poll_def accept_queued_def accepts_def split: list.splits)
  have inv1: "sys_inv (s\<lparr>sys_b := b'\<rparr>)" using sys_inv_same [OF inv res queue] .
  have "sys_inv (put_handler i p (on_behaviour_event msg h) (s\<lparr>sys_b := b'\<rparr>))"
    if a: "a = Some (NotifyHandler q i msg)" and own: "fmlookup (sys_handlers s) i = Some (p, h)" for q i msg p h
  proof -
    have ok: "i |\<in>| sys_used s" "conn_ok p i h (sys_b s)" using sys_invD [OF inv own] by simp_all
    have "conn_ok p i (on_behaviour_event msg h) b'"
      using ok(2) on_behaviour_event_wf [of h msg] on_behaviour_event_holds [of msg h] front a queue [of i] by (auto simp: conn_ok_def res)
    then show ?thesis using inv1 ok(1) by (auto simp: sys_inv_def put_handler_def)
  qed
  then show ?thesis using inv1 by (auto simp: deliver_def put_handler_def split: option.split ToSwarm.split)
qed

lemma stream_step:
  assumes inv: "sys_inv s" and own: "fmlookup (sys_handlers s) i = Some (p, h)"
    and asked: "case event of FullyNegotiatedInbound stream \<Rightarrow> True | _ \<Rightarrow> pending_connect_requests h \<noteq> []"
  shows "\<exists>s'. sys_step U (SysStream i event) s = Some s' \<and> sys_inv s' \<and> sys_b s' = sys_b s"
proof -
  have ok: "i |\<in>| sys_used s" "conn_ok p i h (sys_b s)" using sys_invD [OF inv own] by simp_all
  obtain h' where h': "on_connection_event event h = Some h'" "handler_wf h'" "holds h' = holds h"
    using connection_event_good [OF _ asked] ok(2) by (auto simp: conn_ok_def)
  then have "sys_inv (put_handler i p h' s)" using inv ok by (auto simp: sys_inv_def put_handler_def conn_ok_def)
  then show ?thesis using own h'(1) by (simp add: sys_step_def put_handler_def)
qed

lemma sys_step_inv:
  assumes inv: "sys_inv s" and relay: "relay_inv t n (sys_b s)" and env: "env_ok t st s" and small: "n + 1 < 2 ^ 64"
  shows "\<exists>s'. sys_step U st s = Some s' \<and> sys_inv s' \<and> inv_step (sys_time t st) (n + 1) (sys_b s) (sys_b s')"
proof -
  have relay1: "relay_inv t (n + 1) (sys_b s)" by (rule relay_inv_mono [OF relay]) simp
  note same = keeps_inv_step [OF keeps_refl relay1]
  show ?thesis
  proof (cases st)
    case (SysConnect p i endpoint addrs changed)
    then show ?thesis using connect_step [OF inv, of i U p endpoint addrs changed] swarm_event_inv [OF relay1] env
      by (auto simp: env_ok_def sys_time_def)
  next
    case (SysClose p i addrs changed)
    then show ?thesis using close_step [OF inv, of i p U addrs changed] swarm_event_inv [OF relay1] env
      by (simp add: env_ok_def sys_time_def sys_step_def)
  next
    case (SysAddresses addrs changed)
    then show ?thesis using sys_inv_same [OF inv, of "on_swarm_event U addrs changed OtherSwarmEvent (sys_b s)"] swarm_event_inv [OF relay1]
      by (simp add: sys_step_def sys_time_def)
  next
    case (SysStatus status)
    then show ?thesis using sys_inv_same [OF inv, of "set_status status (sys_b s)"] keeps_inv_step [OF _ relay1, of "set_status status (sys_b s)"]
      by (simp add: sys_step_def sys_time_def)
  next
    case SysDeliver
    obtain a b' where poll: "behaviour_poll (sys_b s) = (a, b')" by fastforce
    have "inv_step t (n + 1) (sys_b s) b'" using keeps_inv_step [OF _ relay1] keeps_status(4) [of "sys_b s"] by (simp add: poll)
    then show ?thesis using SysDeliver deliver_step [OF inv poll] by (simp add: sys_step_def sys_time_def poll)
  next
    case (SysStream i event)
    show ?thesis
    proof (cases "fmlookup (sys_handlers s) i")
      case None
      then show ?thesis using SysStream inv same by (simp add: sys_step_def sys_time_def)
    next
      case (Some ph)
      obtain p h where "ph = (p, h)" by (cases ph)
      then show ?thesis using stream_step [OF inv, of i p h event U] Some SysStream env same by (auto simp: env_ok_def sys_time_def)
    qed
  next
    case (SysPoll i now a)
    have later: "t \<le> now" using env SysPoll by (simp add: env_ok_def)
    then have time: "sys_time t st = now" by (simp add: sys_time_def SysPoll)
    have relay2: "relay_inv now n (sys_b s)" using relay later limiters_ok_later by (auto simp: relay_inv_def)
    show ?thesis
    proof (cases "fmlookup (sys_handlers s) i")
      case None
      then show ?thesis using SysPoll inv keeps_inv_step [OF keeps_refl relay_inv_mono [OF relay2, of "n + 1"]]
        unfolding time by (simp add: sys_step_def)
    next
      case (Some ph)
      obtain p h where ph: "ph = (p, h)" by (cases ph)
      then show ?thesis using poll_step [OF inv _ relay2 small, of i p h a U] Some SysPoll env unfolding time by (simp add: env_ok_def)
    qed
  qed
qed

lemma sys_run_inv:
  "sys_inv s \<Longrightarrow> relay_inv t n (sys_b s) \<Longrightarrow> env_run U t ss s \<Longrightarrow> n + length ss < 2 ^ 64 \<Longrightarrow>
     \<exists>s' t'. sys_run U ss s = Some s' \<and> sys_inv s' \<and> same_limits (sys_b s) (sys_b s') \<and> relay_inv t' (n + length ss) (sys_b s')"
proof (induction ss arbitrary: t n s)
  case (Cons st ss)
  have "n + 1 < 2 ^ 64" using Cons.prems(4) by simp
  from sys_step_inv [OF Cons.prems(1,2) _ this, of st U] Cons.prems(3) obtain s1
    where s1: "sys_step U st s = Some s1" "sys_inv s1" "inv_step (sys_time t st) (n + 1) (sys_b s) (sys_b s1)" by auto
  have "env_run U (sys_time t st) ss s1" using Cons.prems(3) s1(1) by simp
  from Cons.IH [OF s1(2) inv_stepD [OF s1(3)] this] Cons.prems(4) obtain s' t'
    where "sys_run U ss s1 = Some s'" "sys_inv s'" "same_limits (sys_b s1) (sys_b s')" "relay_inv t' (n + 1 + length ss) (sys_b s')" by auto
  then show ?case using s1 by (auto simp: inv_step_def same_limits_def)
qed (auto simp: same_limits_def)


section \<open>Concrete runs\<close>

definition demo_answers :: "nat poll_answers" where
  "demo_answers = \<lparr>circuits_next = None, inbound_next = [], outbound_next = None, deny_next = None, accept_next = None,
     reservation_fired = False, request_result = None, fresh_usage = 0, poll_now = 0\<rparr>"

definition demo_request :: "nat poll_answers" where
  "demo_request = demo_answers\<lparr>inbound_next := [(0, Some (Inr (Inl demo_req)))]\<rparr>"

definition demo_sent :: "nat poll_answers" where
  "demo_sent = demo_answers\<lparr>request_result := Some (Inr ())\<rparr>"

definition demo_expired :: "nat poll_answers" where
  "demo_expired = demo_answers\<lparr>reservation_fired := True\<rparr>"

definition demo_addr :: "nat multiaddr" where
  "demo_addr = [Ip4 (Ipv4 1 2 3 4), Tcp 80]"

definition demo_usage :: usage_store where
  "demo_usage = (\<lambda>_. usage_default)"

text \<open>Peer 5 connects, asks for a reservation, gets it and asks for a renewal, which the server accepts.\<close>

definition renewal_steps :: "nat sys_step list" where
  "renewal_steps = [SysAddresses [demo_addr] True, SysDeliver, SysConnect 5 1 (Dialer []) [demo_addr] False, SysStream 1 (FullyNegotiatedInbound 7), SysPoll 1 10 demo_request, SysDeliver,
     SysPoll 1 11 demo_sent, SysDeliver, SysStream 1 (FullyNegotiatedInbound 8), SysPoll 1 20 demo_request, SysDeliver]"

lemmas behaviour_eval = on_swarm_event_def on_connection_established_def put_reservation_def connections_of_def behaviour_new_def
  on_connection_handler_event_def on_reservation_req_def on_circuit_req_def push_action_def push_event_def tracker_default_def
  total_active_def num_active_def is_active_def fmsum_upd fmsize_fmupd fmdrop_fmupd is_relayed_def Let_def demo_config_def

lemmas system_eval = sys_step_def deliver_def put_handler_def established_handler_def handler_new_def system_new_def behaviour_poll_def
  on_behaviour_event_def on_connection_event_def on_fully_negotiated_inbound_def MAX_CONCURRENT_STREAMS_PER_CONNECTION_def
  handler_poll_def poll_request_def demo_request_def demo_sent_def demo_expired_def demo_answers_def remove_nth_def

lemma sorted_list_of_fset_empty [simp]: "sorted_list_of_fset {||} = []"
  by (simp add: sorted_list_of_fset.rep_eq)

lemma renewal_run: "\<exists>s. sys_run demo_usage renewal_steps (system_new 1 demo_config) = Some s
    \<and> env_run demo_usage 0 renewal_steps (system_new 1 demo_config)
    \<and> (\<exists>h. fmlookup (sys_handlers s) 1 = Some (5, h) \<and> queued_events h = [] \<and> active_reservation h \<noteq> None \<and> accepting h)
    \<and> fmdom (connections_of 5 (sys_b s)) = {|1|}"
  by (simp add: renewal_steps_def system_eval behaviour_eval determine_relay_status_from_external_address_def reconfigure_relay_status_def
      env_ok_def sys_time_def answers_fit_def no_expiry_race_def accepting_def accept_queued_def accepts_def advertised_addr_def demo_addr_def map_filter_simps)


text \<open>The limit per peer is compared with \<open>>\<close>: a peer with a limit of one reservation gets two, over two connections.\<close>

lemma per_peer_limit_exceeded:
  "map_option (\<lambda>s. num_active (connections_of 5 (sys_b s))) (sys_run demo_usage
     [SysConnect 5 1 (Dialer []) [] False, SysConnect 5 2 (Dialer []) [] False, SysStream 1 (FullyNegotiatedInbound 7),
      SysStream 2 (FullyNegotiatedInbound 8), SysPoll 1 10 demo_request, SysPoll 2 11 demo_request] (system_new 1 demo_config)) = Some 2
   \<and> max_reservations_per_peer demo_config = 1"
  by (simp add: system_eval behaviour_eval)

text \<open>A connection without a reservation is reported as a closed reservation when it closes.\<close>

lemma closed_without_reservation:
  "map_option (\<lambda>s. queued_actions (sys_b s)) (sys_run demo_usage
     [SysConnect 5 1 (Dialer []) [] False, SysClose 5 1 [] False] (system_new 1 demo_config)) = Some [GenerateEvent (ReservationClosed 5)]"
  by (simp add: system_eval behaviour_eval on_connection_closed_def drop_connection_def remove_by_connection_def)

section \<open>The expiry race\<close>

text \<open>C18. A reservation that expires during its renewal crashes the server. If the timer of the active
  reservation fires while the handler is sending the acceptance of its renewal, the handler first reports the
  expiry, on which the server forgets the peer's only connection, and then the acceptance, on which the server
  panics, because it expects to know the connection.\<close>

theorem expiry_race_panics:
  assumes "fmlookup (sys_handlers s) i = Some (p, h)" and "queued_events h = []" and "active_reservation h \<noteq> None" and "accepting h"
    and "fmdom (connections_of p (sys_b s)) = {|i|}"
    and "circuits_next a = None" "inbound_next a = []" "outbound_next a = None" "deny_next a = None" "accept_next a = None" "reservation_fired a"
    and "circuits_next a' = None" "inbound_next a' = []" "outbound_next a' = None" "deny_next a' = None" "accept_next a' = None" "request_result a' = Some (Inr ())"
  shows "(\<exists>s'. sys_step U (SysPoll i now a) s = Some s') \<and> sys_run U [SysPoll i now a, SysPoll i now' a'] s = None"
proof -
  obtain cs where cs: "fmlookup (connections (sys_b s)) p = Some cs" using assms(5) by (auto simp: connections_of_def split: option.splits)
  have alone: "fmdrop i cs = fmempty"
    using assms(5) by (intro fmap_ext) (auto simp: connections_of_def cs intro!: fmdom_notD)
  define b1 where "b1 = push_event (ReservationTimedOut p) (drop_connection p i (sys_b s))"
  define h1 where "h1 = h\<lparr>active_reservation := None\<rparr>"
  have "handler_poll a h = Some (Some (NotifyBehaviour HReservationTimedOut), h1)"
    using assms(2,3,6-11) by (simp add: handler_poll_def h1_def)
  then have first: "sys_step U (SysPoll i now a) s = Some (put_handler i p h1 (s\<lparr>sys_b := b1\<rparr>))"
    using assms(1) cs by (simp add: sys_step_def on_connection_handler_event_def b1_def)
  obtain req addrs where "reservation_request_future h = Some (FAccepting req addrs)"
    using assms(4) by (auto simp: accepting_def split: option.splits ReservationRequestFuture.splits)
  then have "\<exists>h2. handler_poll a' h1 = Some (Some (NotifyBehaviour (HReservationReqAccepted False)), h2)"
    using assms(2,12-17) by (simp add: handler_poll_def h1_def poll_request_def)
  moreover have "fmlookup (connections b1) p = None"
    using cs alone by (simp add: b1_def drop_connection_def connections_of_def push_event_def push_action_def)
  ultimately have "sys_step U (SysPoll i now' a') (put_handler i p h1 (s\<lparr>sys_b := b1\<rparr>)) = None"
    by (auto simp: sys_step_def put_handler_def on_connection_handler_event_def)
  then show ?thesis using first by simp
qed

theorem expiry_race_panics_witness:
  "sys_run demo_usage (renewal_steps @ [SysPoll 1 30 demo_expired, SysPoll 1 31 demo_sent]) (system_new 1 demo_config) = None
   \<and> (\<exists>s. sys_run demo_usage renewal_steps (system_new 1 demo_config) = Some s)"
proof -
  have append: "sys_run U (xs @ ys) s = Option.bind (sys_run U xs s) (sys_run U ys)" for U xs ys and s :: "nat relay_system"
    by (induction xs arbitrary: s) (simp_all split: Option.bind_split)
  from renewal_run obtain s h where s: "sys_run demo_usage renewal_steps (system_new 1 demo_config) = Some s"
      "fmlookup (sys_handlers s) 1 = Some (5, h)" "queued_events h = []" "active_reservation h \<noteq> None" "accepting h"
      "fmdom (connections_of 5 (sys_b s)) = {|1|}" by blast
  from expiry_race_panics [OF s(2-6), of demo_expired demo_sent demo_usage 30 31] s(1)
  show ?thesis by (simp add: append demo_expired_def demo_sent_def demo_answers_def)
qed

end
