(* ===== verification/Relay_Node.thy ===== *)
theory Relay_Node
  imports Relay_System
begin

text \<open>
  How the node follows its relay server: \<open>connectivity/relay/state.rs\<close>, the totals of
  \<open>connectivity/relay/metering.rs\<close> and \<open>node/events/relay_server.rs\<close>, which turns the events of the server into
  counters, a health state, the records of the meter and events for the application. The fields of
  \<open>RelayState\<close> that this code uses form the record; the log lines and the copy of the fields into the
  snapshot of the node are left out.
\<close>

section \<open>State\<close>

record RelayState =
  server_enabled :: bool
  rs_health :: RelayServiceHealth
  accepted_reservations :: nat
  accepted_reservations_total :: nat
  active_circuits :: nat
  denied_reservations :: nat
  denied_circuits :: nat
  rate_limited_events :: nat
  at_capacity_events :: nat
  server_errors :: nat
  relay_bytes_forwarded :: nat
  relay_bytes_src_to_dst :: nat
  relay_bytes_dst_to_src :: nat
  relay_meter :: RelayMeter

definition relay_state_default :: RelayState where
  "relay_state_default = \<lparr>server_enabled = False, rs_health = HealthDisabled, accepted_reservations = 0, accepted_reservations_total = 0,
     active_circuits = 0, denied_reservations = 0, denied_circuits = 0, rate_limited_events = 0, at_capacity_events = 0, server_errors = 0,
     relay_bytes_forwarded = 0, relay_bytes_src_to_dst = 0, relay_bytes_dst_to_src = 0, relay_meter = relay_meter_default\<rparr>"

definition record_reservation_accepted :: "bool \<Rightarrow> RelayState \<Rightarrow> RelayState" where
  "record_reservation_accepted renewed s = (if renewed then s
     else s\<lparr>accepted_reservations := sat_add 64 (accepted_reservations s) 1, accepted_reservations_total := sat_add 64 (accepted_reservations_total s) 1\<rparr>)"

definition record_reservation_closed :: "RelayState \<Rightarrow> RelayState" where
  "record_reservation_closed s = s\<lparr>accepted_reservations := accepted_reservations s - 1\<rparr>"

definition refresh_relay_totals :: "usage_store \<Rightarrow> RelayState \<Rightarrow> RelayState" where
  "refresh_relay_totals U s = (let totals = meter_totals U (relay_meter s) in
     s\<lparr>relay_bytes_src_to_dst := src_to_dst totals, relay_bytes_dst_to_src := dst_to_src totals, relay_bytes_forwarded := bytes_total totals\<rparr>)"

record RelayUsageSnapshot =
  us_bytes_src_to_dst :: nat
  us_bytes_dst_to_src :: nat
  completed_circuits :: nat
  us_active_circuits :: "RelayCircuitUsage list"
  recent_closed_circuits :: "RelayCircuitUsage list"

definition relay_usage_snapshot :: "usage_store \<Rightarrow> RelayState \<Rightarrow> RelayUsageSnapshot" where
  "relay_usage_snapshot U s = \<lparr>us_bytes_src_to_dst = relay_bytes_src_to_dst s, us_bytes_dst_to_src = relay_bytes_dst_to_src s,
     completed_circuits = closed_circuits (relay_meter s), us_active_circuits = meter_active_circuits U (relay_meter s),
     recent_closed_circuits = recent_closed (relay_meter s)\<rparr>"

section \<open>Events\<close>

record LocalNodeBinding =
  lb_peer_id :: string
  lb_dial_addresses :: "string list"

datatype NodeEvent =
    LocalBindingChanged LocalNodeBinding
  | PeerConnected string
  | PeerDisconnected string
  | Online
  | Offline
  | RelayCircuitOpened nat string string
  | RelayCircuitUsageEvent nat nat nat
  | RelayCircuitClosed nat string string nat nat nat RelayCircuitCloseReason

text \<open>The derived debug text of a status code is the name of its constructor.\<close>

primrec status_code_debug :: "StatusCode \<Rightarrow> string" where
  "status_code_debug SC_OK = ''OK''"
| "status_code_debug SC_ReservationRefused = ''ReservationRefused''"
| "status_code_debug SC_ResourceLimitExceeded = ''ResourceLimitExceeded''"
| "status_code_debug SC_PermissionDenied = ''PermissionDenied''"
| "status_code_debug SC_ConnectionFailed = ''ConnectionFailed''"
| "status_code_debug SC_NoReservation = ''NoReservation''"
| "status_code_debug SC_MalformedMessage = ''MalformedMessage''"
| "status_code_debug SC_UnexpectedMessage = ''UnexpectedMessage''"

definition apply_denial_health :: "string \<Rightarrow> RelayState \<Rightarrow> RelayState" where
  "apply_denial_health status_debug s = (case classify_relay_denial status_debug of
     RateLimited \<Rightarrow> s\<lparr>rate_limited_events := sat_add 64 (rate_limited_events s) 1, rs_health := RateLimited\<rparr>
   | AtCapacity \<Rightarrow> s\<lparr>at_capacity_events := sat_add 64 (at_capacity_events s) 1, rs_health := AtCapacity\<rparr>
   | _ \<Rightarrow> s\<lparr>server_errors := sat_add 64 (server_errors s) 1, rs_health := HealthError\<rparr>)"

definition relay_wake :: "RelayState \<Rightarrow> RelayState" where
  "relay_wake s = (let s = s\<lparr>server_enabled := True\<rparr> in if rs_health s = HealthDisabled then s\<lparr>rs_health := HealthEnabled\<rparr> else s)"

definition on_circuit_opened :: "'p ext \<Rightarrow> usage_store \<Rightarrow> nat \<Rightarrow> 'p \<Rightarrow> 'p \<Rightarrow> nat \<Rightarrow> nat \<Rightarrow> RelayState \<Rightarrow> NodeEvent list \<times> RelayState" where
  "on_circuit_opened E U now_ms src dst circuit_id usage s =
     ([RelayCircuitOpened circuit_id (pid_to_string E src) (pid_to_string E dst)],
      s\<lparr>active_circuits := sat_add 64 (active_circuits s) 1, rs_health := HealthEnabled,
        relay_meter := snd (meter_open E U circuit_id src dst usage now_ms (relay_meter s))\<rparr>)"

definition on_circuit_closed :: "'p ext \<Rightarrow> nat \<Rightarrow> 'p \<Rightarrow> 'p \<Rightarrow> nat \<Rightarrow> CircuitBytes \<Rightarrow> io_error option \<Rightarrow> RelayState \<Rightarrow> NodeEvent list \<times> RelayState" where
  "on_circuit_closed E now_ms src dst circuit_id bytes error s =
     (let (usage, meter) = meter_close E circuit_id src dst bytes error now_ms (relay_meter s);
          s = s\<lparr>active_circuits := active_circuits s - 1, relay_meter := meter\<rparr>;
          s = (case close_reason usage of
                 Some (TransportError _) \<Rightarrow> s\<lparr>server_errors := sat_add 64 (server_errors s) 1, rs_health := HealthError\<rparr>
               | _ \<Rightarrow> s)
      in ([RelayCircuitClosed (ru_circuit_id usage) (ru_src_peer_id usage) (ru_dst_peer_id usage) (bytes_src_to_dst usage) (bytes_dst_to_src usage)
             (case duration_ms usage of None \<Rightarrow> 0 | Some d \<Rightarrow> d) (case close_reason usage of None \<Rightarrow> Completed | Some r \<Rightarrow> r)], s))"

definition server_handle_event :: "'p ext \<Rightarrow> usage_store \<Rightarrow> nat \<Rightarrow> 'p relay_Event \<Rightarrow> RelayState \<Rightarrow> NodeEvent list \<times> RelayState" where
  "server_handle_event E U now_ms ev s0 =
     (let s = relay_wake s0;
          (events, s) = (case ev of
             ReservationReqAccepted src renewed \<Rightarrow> ([], (record_reservation_accepted renewed s)\<lparr>rs_health := HealthEnabled\<rparr>)
           | ReservationReqDenied src status \<Rightarrow>
               ([], apply_denial_health (status_code_debug status) (s\<lparr>denied_reservations := sat_add 64 (denied_reservations s) 1\<rparr>))
           | ReservationClosed src \<Rightarrow> ([], record_reservation_closed s)
           | ReservationTimedOut src \<Rightarrow> ([], record_reservation_closed s)
           | CircuitReqAccepted src dst circuit_id usage \<Rightarrow> on_circuit_opened E U now_ms src dst circuit_id usage s
           | CircuitReqDenied src dst status \<Rightarrow>
               ([], apply_denial_health (status_code_debug status) (s\<lparr>denied_circuits := sat_add 64 (denied_circuits s) 1\<rparr>))
           | CircuitClosed src dst circuit_id bytes error \<Rightarrow> on_circuit_closed E now_ms src dst circuit_id bytes error s
           | _ \<Rightarrow> ([], s))
      in (events, refresh_relay_totals U s))"

text \<open>The observability tick.\<close>

definition report_relay_usage :: "usage_store \<Rightarrow> RelayState \<Rightarrow> bool \<times> NodeEvent list \<times> RelayState" where
  "report_relay_usage U s = (let (changed, meter) = take_changed U (relay_meter s); s = s\<lparr>relay_meter := meter\<rparr> in
     if changed = [] then (False, [], s)
     else (True, map (\<lambda>u. RelayCircuitUsageEvent (ru_circuit_id u) (bytes_src_to_dst u) (bytes_dst_to_src u)) changed, refresh_relay_totals U s))"

text \<open>The schedule tick: the peers to disconnect, and the new state.\<close>

definition enforce_relay_schedule :: "RelayServiceHealth \<Rightarrow> bool \<Rightarrow> 'p list \<Rightarrow> RelayState \<Rightarrow> 'p list \<times> RelayState" where
  "enforce_relay_schedule next_health cfg_enabled connected_peers s =
     (let was_open = (rs_health s = HealthEnabled); is_open = (next_health = HealthEnabled);
          s = s\<lparr>rs_health := next_health, server_enabled := is_open\<rparr>
      in (if cfg_enabled \<and> was_open \<and> \<not> is_open then connected_peers else [], s))"

section \<open>Runs\<close>

text \<open>The events of the server, each with the state of the byte counters and the clock it is handled at.\<close>

type_synonym 'p timed_event = "usage_store \<times> nat \<times> 'p relay_Event"

primrec relay_events :: "'p ext \<Rightarrow> 'p timed_event list \<Rightarrow> RelayState \<Rightarrow> RelayState" where
  "relay_events E [] s = s"
| "relay_events E (e # es) s = relay_events E es (snd (server_handle_event E (fst e) (fst (snd e)) (snd (snd e)) s))"

text \<open>The states of the node's relay: events of the server, usage ticks and schedule ticks in any order.\<close>

inductive relay_reachable :: "'p ext \<Rightarrow> RelayState \<Rightarrow> bool" for E :: "'p ext" where
  start: "relay_reachable E relay_state_default"
| server: "relay_reachable E s \<Longrightarrow> relay_reachable E (snd (server_handle_event E U now_ms ev s))"
| usage: "relay_reachable E s \<Longrightarrow> relay_reachable E (snd (snd (report_relay_usage U s)))"
| schedule: "relay_reachable E s \<Longrightarrow> relay_reachable E (snd (enforce_relay_schedule next_health cfg_enabled (peers :: 'p list) s))"

definition is_denial :: "'p relay_Event \<Rightarrow> bool" where
  "is_denial e \<longleftrightarrow> (case e of ReservationReqDenied src st \<Rightarrow> True | CircuitReqDenied src dst st \<Rightarrow> True | _ \<Rightarrow> False)"

definition is_full_denial :: "'p relay_Event \<Rightarrow> bool" where
  "is_full_denial e \<longleftrightarrow> (case e of ReservationReqDenied src st \<Rightarrow> st = SC_ResourceLimitExceeded
     | CircuitReqDenied src dst st \<Rightarrow> st = SC_ResourceLimitExceeded | _ \<Rightarrow> False)"

definition is_new_reservation :: "'p relay_Event \<Rightarrow> bool" where
  "is_new_reservation e \<longleftrightarrow> (case e of ReservationReqAccepted src renewed \<Rightarrow> \<not> renewed | _ \<Rightarrow> False)"

definition is_closed_circuit :: "'p relay_Event \<Rightarrow> bool" where
  "is_closed_circuit e \<longleftrightarrow> (case e of CircuitClosed src dst i bytes error \<Rightarrow> True | _ \<Rightarrow> False)"

definition is_transport_failure :: "'p relay_Event \<Rightarrow> bool" where
  "is_transport_failure e \<longleftrightarrow> (case e of
     CircuitClosed src dst i bytes error \<Rightarrow> (case from_error error of TransportError t \<Rightarrow> True | _ \<Rightarrow> False) | _ \<Rightarrow> False)"

definition count_events :: "('p relay_Event \<Rightarrow> bool) \<Rightarrow> 'p timed_event list \<Rightarrow> nat" where
  "count_events P es = length (filter (\<lambda>e. P (snd (snd e))) es)"

section \<open>Denials\<close>

lemma lower_case_letters:
  "char_of (114::nat) = CHR ''r''" "char_of (108::nat) = CHR ''l''" "char_of (110::nat) = CHR ''n''"
  by code_simp+

lemma status_classified:
  "classify_relay_denial (status_code_debug st) = (if st = SC_ResourceLimitExceeded then AtCapacity else HealthError)"
  by (cases st) (simp_all add: classify_relay_denial_def to_ascii_lowercase_def lower_case_letters)

lemma denial_health:
  "apply_denial_health (status_code_debug st) s = (if st = SC_ResourceLimitExceeded
     then s\<lparr>at_capacity_events := sat_add 64 (at_capacity_events s) 1, rs_health := AtCapacity\<rparr>
     else s\<lparr>server_errors := sat_add 64 (server_errors s) 1, rs_health := HealthError\<rparr>)"
  by (simp add: apply_denial_health_def status_classified)

section \<open>The published state is well formed\<close>

definition fits_u64 :: "nat \<Rightarrow> bool" where
  "fits_u64 n \<longleftrightarrow> n < 2 ^ 64"

lemma fits_u64_simps [simp]: "fits_u64 (sat_add 64 a b)" "fits_u64 0" "fits_u64 a \<Longrightarrow> fits_u64 (a - b)"
  using sat_add_bound [of 64 a b] by (simp_all add: fits_u64_def)

definition meter_ok :: "RelayMeter \<Rightarrow> bool" where
  "meter_ok m \<longleftrightarrow> length (recent_closed m) \<le> RECENT_CLOSED_CIRCUITS
     \<and> (\<forall>r\<in>set (recent_closed m). ended_at_ms r \<noteq> None \<and> close_reason r \<noteq> None)
     \<and> (\<forall>i a. fmlookup (m_active m) i = Some a \<longrightarrow> ru_circuit_id (ac_record a) = i \<and> ended_at_ms (ac_record a) = None \<and> close_reason (ac_record a) = None)
     \<and> fits_u64 (closed_src_to_dst m) \<and> fits_u64 (closed_dst_to_src m) \<and> fits_u64 (closed_circuits m)"

definition relay_state_ok :: "RelayState \<Rightarrow> bool" where
  "relay_state_ok s \<longleftrightarrow> meter_ok (relay_meter s)
     \<and> list_all fits_u64 [accepted_reservations s, accepted_reservations_total s, active_circuits s, denied_reservations s,
          denied_circuits s, rate_limited_events s, at_capacity_events s, server_errors s,
          relay_bytes_forwarded s, relay_bytes_src_to_dst s, relay_bytes_dst_to_src s]"

lemma meter_open_ok: "meter_ok m \<Longrightarrow> meter_ok (snd (meter_open E U i src dst usage now_ms m))"
  by (auto simp: meter_ok_def meter_open_def with_bytes_def Let_def)

lemma set_tl: "x \<in> set (tl xs) \<Longrightarrow> x \<in> set xs"
  by (cases xs) simp_all

lemma meter_close_ok: "meter_ok m \<Longrightarrow> meter_ok (snd (meter_close E i src dst bytes error now_ms m))"
  by (auto simp: meter_ok_def meter_close_def Let_def RECENT_CLOSED_CIRCUITS_def dest: set_tl)

lemma take_changed_ok: "meter_ok m \<Longrightarrow> meter_ok (snd (take_changed U m))"
  by (auto simp: meter_ok_def take_changed_def Let_def)

lemma add_live_bound: "fits_u64 (src_to_dst (add_live U a t))" "fits_u64 (dst_to_src (add_live U a t))"
  by (simp_all add: add_live_def Let_def)

lemma fold_add_live_bound:
  "fits_u64 (src_to_dst t) \<Longrightarrow> fits_u64 (src_to_dst (fold (\<lambda>i. add_live U (f i)) xs t))"
  "fits_u64 (dst_to_src t) \<Longrightarrow> fits_u64 (dst_to_src (fold (\<lambda>i. add_live U (f i)) xs t))"
  by (induction xs arbitrary: t) (simp_all add: add_live_bound)

lemma meter_totals_bound: "meter_ok m \<Longrightarrow> fits_u64 (src_to_dst (meter_totals U m)) \<and> fits_u64 (dst_to_src (meter_totals U m))"
  unfolding meter_totals_def by (intro conjI fold_add_live_bound) (simp_all add: meter_ok_def)

lemma refresh_ok: "relay_state_ok s \<Longrightarrow> relay_state_ok (refresh_relay_totals U s)"
  using meter_totals_bound [of "relay_meter s" U]
  by (simp add: relay_state_ok_def refresh_relay_totals_def Let_def bytes_total_def)

lemma relay_wake_ok [simp]: "relay_state_ok (relay_wake s) = relay_state_ok s"
  by (simp add: relay_wake_def Let_def relay_state_ok_def)

lemma relay_state_ok_update [simp]:
  "relay_state_ok (s\<lparr>rs_health := h\<rparr>) = relay_state_ok s"
  "relay_state_ok (s\<lparr>server_enabled := e\<rparr>) = relay_state_ok s"
  by (simp_all add: relay_state_ok_def)

lemma counter_ok: "relay_state_ok s \<Longrightarrow>
    relay_state_ok (s\<lparr>denied_reservations := sat_add 64 a n\<rparr>) \<and> relay_state_ok (s\<lparr>denied_circuits := sat_add 64 a n\<rparr>)
  \<and> relay_state_ok (s\<lparr>at_capacity_events := sat_add 64 a n\<rparr>) \<and> relay_state_ok (s\<lparr>server_errors := sat_add 64 a n\<rparr>)
  \<and> relay_state_ok (s\<lparr>active_circuits := sat_add 64 a n\<rparr>)"
  by (simp add: relay_state_ok_def)

lemma denial_ok: "relay_state_ok s \<Longrightarrow> relay_state_ok (apply_denial_health (status_code_debug st) s)"
  by (simp add: denial_health counter_ok)

lemma reservations_ok: "relay_state_ok s \<Longrightarrow> relay_state_ok (record_reservation_accepted renewed s) \<and> relay_state_ok (record_reservation_closed s)"
  by (auto simp: relay_state_ok_def record_reservation_accepted_def record_reservation_closed_def)

lemma opened_ok: "relay_state_ok s \<Longrightarrow> relay_state_ok (snd (on_circuit_opened E U now_ms src dst i usage s))"
  using meter_open_ok [of "relay_meter s"] by (simp add: on_circuit_opened_def relay_state_ok_def)

lemma closed_ok: "relay_state_ok s \<Longrightarrow> relay_state_ok (snd (on_circuit_closed E now_ms src dst i bytes error s))"
  using meter_close_ok [of "relay_meter s" E i src dst bytes error now_ms]
  by (auto simp: on_circuit_closed_def relay_state_ok_def split_beta Let_def split: option.split RelayCircuitCloseReason.split)

lemma server_event_ok: "relay_state_ok s \<Longrightarrow> relay_state_ok (snd (server_handle_event E U now_ms ev s))"
  by (cases ev) (simp_all add: server_handle_event_def split_beta Let_def refresh_ok reservations_ok denial_ok counter_ok opened_ok closed_ok)

lemma report_ok: "relay_state_ok s \<Longrightarrow> relay_state_ok (snd (snd (report_relay_usage U s)))"
proof -
  assume ok: "relay_state_ok s"
  have "relay_state_ok (s\<lparr>relay_meter := snd (take_changed U (relay_meter s))\<rparr>)"
    using ok take_changed_ok [of "relay_meter s" U] by (simp add: relay_state_ok_def)
  then show ?thesis by (simp add: report_relay_usage_def split_beta Let_def refresh_ok)
qed

lemma relay_reachable_ok: "relay_reachable E s \<Longrightarrow> relay_state_ok s"
proof (induction rule: relay_reachable.induct)
  case start
  show ?case by (simp add: relay_state_ok_def relay_state_default_def meter_ok_def relay_meter_default_def)
next
  case (schedule s next_health cfg_enabled peers)
  then show ?case by (simp add: enforce_relay_schedule_def Let_def)
qed (simp_all add: server_event_ok report_ok)

lemma active_view_ids: "meter_ok m \<Longrightarrow> map ru_circuit_id (meter_active_circuits U m) = sorted_list_of_fset (fmdom (m_active m))"
  by (auto simp: meter_active_circuits_def Let_def with_bytes_def meter_ok_def fmlookup_dom_iff intro!: map_idI)

text \<open>C19. The published relay state is well formed. In every state the node reaches by server events, usage ticks
  and schedule ticks, all counters and totals fit their machine width, and the usage view lists the open circuits in
  strictly increasing order of identifier, none of them with an end, and at most 256 closed circuits, each with its
  end and its reason.\<close>

theorem relay_state_typed:
  assumes "relay_reachable E s"
  shows "relay_state_ok s
    \<and> sorted_wrt (<) (map ru_circuit_id (us_active_circuits (relay_usage_snapshot U s)))
    \<and> (\<forall>r\<in>set (us_active_circuits (relay_usage_snapshot U s)). ended_at_ms r = None \<and> close_reason r = None)
    \<and> length (recent_closed_circuits (relay_usage_snapshot U s)) \<le> RECENT_CLOSED_CIRCUITS
    \<and> (\<forall>r\<in>set (recent_closed_circuits (relay_usage_snapshot U s)). duration_ms r \<noteq> None \<and> close_reason r \<noteq> None)"
proof -
  have ok: "relay_state_ok s" using assms by (rule relay_reachable_ok)
  then have m: "meter_ok (relay_meter s)" by (simp add: relay_state_ok_def)
  have "ended_at_ms r = None \<and> close_reason r = None" if "r \<in> set (meter_active_circuits U (relay_meter s))" for r
    using that m by (auto simp: meter_active_circuits_def Let_def with_bytes_def meter_ok_def fmlookup_dom_iff)
  moreover have "sorted_wrt (<) (sorted_list_of_fset (fmdom (m_active (relay_meter s))))"
    by (simp add: strict_sorted_iff sorted_list_of_fset.rep_eq)
  ultimately show ?thesis using ok m by (simp add: relay_usage_snapshot_def active_view_ids) (auto simp: meter_ok_def duration_ms_def)
qed

section \<open>The counters\<close>

text \<open>A counter of the relay state that follows one class of events.\<close>

locale event_counter =
  fixes counter :: "RelayState \<Rightarrow> nat" and counts :: "'p relay_Event \<Rightarrow> bool"
  assumes step: "counter (snd (server_handle_event E U now_ms ev s)) = (if counts ev then sat_add 64 (counter s) 1 else counter s)"
begin

lemma run: "counter s + length es < 2 ^ 64 \<Longrightarrow> counter (relay_events E es s) = counter s + count_events counts es"
proof (induction es arbitrary: s)
  case (Cons e es)
  define s1 where "s1 = snd (server_handle_event E (fst e) (fst (snd e)) (snd (snd e)) s)"
  have "counter s1 = counter s + of_bool (counts (snd (snd e)))"
    using Cons.prems sat_add_exact [of "counter s" 1 64] by (simp add: s1_def step)
  with Cons.IH [of s1] Cons.prems show ?case by (simp add: count_events_def flip: s1_def)
qed (simp add: count_events_def)

end

definition is_denied_reservation :: "'p relay_Event \<Rightarrow> bool" where
  "is_denied_reservation e \<longleftrightarrow> (case e of ReservationReqDenied src st \<Rightarrow> True | _ \<Rightarrow> False)"

definition is_denied_circuit :: "'p relay_Event \<Rightarrow> bool" where
  "is_denied_circuit e \<longleftrightarrow> (case e of CircuitReqDenied src dst st \<Rightarrow> True | _ \<Rightarrow> False)"

definition is_server_error :: "'p relay_Event \<Rightarrow> bool" where
  "is_server_error e \<longleftrightarrow> is_denial e \<and> \<not> is_full_denial e \<or> is_transport_failure e"

lemmas event_classes = is_denial_def is_full_denial_def is_new_reservation_def is_closed_circuit_def is_transport_failure_def
  is_denied_reservation_def is_denied_circuit_def is_server_error_def

lemma closed_counters:
  "accepted_reservations_total (snd (on_circuit_closed E now_ms src dst i bytes error s)) = accepted_reservations_total s"
  "denied_reservations (snd (on_circuit_closed E now_ms src dst i bytes error s)) = denied_reservations s"
  "denied_circuits (snd (on_circuit_closed E now_ms src dst i bytes error s)) = denied_circuits s"
  "rate_limited_events (snd (on_circuit_closed E now_ms src dst i bytes error s)) = rate_limited_events s"
  "at_capacity_events (snd (on_circuit_closed E now_ms src dst i bytes error s)) = at_capacity_events s"
  "server_errors (snd (on_circuit_closed E now_ms src dst i bytes error s)) =
     (if is_transport_failure (CircuitClosed src dst i bytes error) then sat_add 64 (server_errors s) 1 else server_errors s)"
  "closed_circuits (relay_meter (snd (on_circuit_closed E now_ms src dst i bytes error s))) = sat_add 64 (closed_circuits (relay_meter s)) 1"
  by (simp_all add: on_circuit_closed_def meter_close_def is_transport_failure_def Let_def split: RelayCircuitCloseReason.split)

lemmas event_eval = server_handle_event_def refresh_relay_totals_def relay_wake_def record_reservation_accepted_def
  record_reservation_closed_def denial_health on_circuit_opened_def meter_open_def closed_counters event_classes split_beta Let_def

interpretation new_reservations: event_counter accepted_reservations_total is_new_reservation
  by unfold_locales (simp add: event_eval split: relay_Event.split)

interpretation refused_reservations: event_counter denied_reservations is_denied_reservation
  by unfold_locales (simp add: event_eval split: relay_Event.split)

interpretation refused_circuits: event_counter denied_circuits is_denied_circuit
  by unfold_locales (simp add: event_eval split: relay_Event.split)

interpretation rate_limits: event_counter rate_limited_events "\<lambda>e. False"
  by unfold_locales (simp add: event_eval split: relay_Event.split)

interpretation full_denials: event_counter at_capacity_events is_full_denial
  by unfold_locales (simp add: event_eval split: relay_Event.split)

interpretation errors: event_counter server_errors is_server_error
  by unfold_locales (simp add: event_eval split: relay_Event.split)

interpretation completed: event_counter "\<lambda>s. closed_circuits (relay_meter s)" is_closed_circuit
  by unfold_locales (simp add: event_eval split: relay_Event.split)

lemma count_errors:
  "count_events is_full_denial es + count_events is_server_error es = count_events is_denial es + count_events is_transport_failure es"
proof -
  have "length (filter (\<lambda>e. is_full_denial (f e)) xs) + length (filter (\<lambda>e. is_server_error (f e)) xs)
      = length (filter (\<lambda>e. is_denial (f e)) xs) + length (filter (\<lambda>e. is_transport_failure (f e)) xs)" for f and xs :: "'a timed_event list"
    by (induction xs) (auto simp: event_classes split: relay_Event.splits RelayCircuitCloseReason.splits)
  then show ?thesis unfolding count_events_def .
qed

lemma active_le_total_step:
  "accepted_reservations s \<le> accepted_reservations_total s \<Longrightarrow>
   accepted_reservations (snd (server_handle_event E U now_ms ev s)) \<le> accepted_reservations_total (snd (server_handle_event E U now_ms ev s))"
  by (simp add: server_handle_event_def refresh_relay_totals_def relay_wake_def record_reservation_accepted_def record_reservation_closed_def
      denial_health on_circuit_opened_def on_circuit_closed_def split_beta Let_def sat_add_mono le_diff_conv trans_le_add1 split: relay_Event.split RelayCircuitCloseReason.split option.split)

lemma active_le_total:
  "accepted_reservations s \<le> accepted_reservations_total s \<Longrightarrow> accepted_reservations (relay_events E es s) \<le> accepted_reservations_total (relay_events E es s)"
  by (induction es arbitrary: s) (simp_all add: active_le_total_step)

text \<open>C20. The relay counters of the node are exact. After any sequence of server events from the start, each
  total is the number of events of its class: new reservations, refused reservations and circuits, and closed
  circuits. Every refusal and every circuit that ended by a transport error counts once, either as a capacity event
  or as an error; capacity events are exactly the refusals for exceeded resource limits, and none counts as rate
  limited. The active reservations never exceed the total.\<close>

theorem relay_accounting:
  assumes "length es < 2 ^ 64"
  shows "let s = relay_events E es relay_state_default in
      accepted_reservations_total s = count_events is_new_reservation es
    \<and> denied_reservations s = count_events is_denied_reservation es \<and> denied_circuits s = count_events is_denied_circuit es
    \<and> closed_circuits (relay_meter s) = count_events is_closed_circuit es
    \<and> at_capacity_events s + server_errors s = count_events is_denial es + count_events is_transport_failure es
    \<and> at_capacity_events s = count_events is_full_denial es \<and> rate_limited_events s = 0
    \<and> accepted_reservations s \<le> accepted_reservations_total s"
proof -
  let ?s = relay_state_default
  have zero: "c = 0 \<Longrightarrow> c + length es < 2 ^ 64" for c using assms by simp
  have "accepted_reservations_total ?s = 0" "denied_reservations ?s = 0" "denied_circuits ?s = 0" "rate_limited_events ?s = 0"
      "at_capacity_events ?s = 0" "server_errors ?s = 0" "closed_circuits (relay_meter ?s) = 0" "accepted_reservations ?s = 0"
    by (simp_all add: relay_state_default_def relay_meter_default_def)
  then show ?thesis
    using new_reservations.run [OF zero, of ?s E] refused_reservations.run [OF zero, of ?s E] refused_circuits.run [OF zero, of ?s E]
      rate_limits.run [OF zero, of ?s E] full_denials.run [OF zero, of ?s E] errors.run [OF zero, of ?s E] completed.run [OF zero, of ?s E]
      active_le_total [of ?s E es] count_errors [of es] by (simp add: Let_def count_events_def)
qed

section \<open>The schedule\<close>

text \<open>The end of a schedule window disconnects the peers only if the health state is still \<open>Enabled\<close>: after a
  refusal or a transport error since the last tick it does not, nor does any later tick before the window opens again.\<close>

lemma schedule_close_skipped:
  assumes "server_handle_event E U now_ms ev s = (evs, s1)" and "is_denial ev \<or> is_transport_failure ev"
    and "enforce_relay_schedule ClosedBySchedule enabled peers s1 = (gone, s2)"
    and "enforce_relay_schedule ClosedBySchedule enabled peers' s2 = (gone', s3)"
  shows "gone = [] \<and> gone' = []"
proof -
  have "rs_health (snd (server_handle_event E U now_ms ev s)) \<noteq> HealthEnabled"
    using assms(2) by (cases ev) (auto simp: event_classes server_handle_event_def refresh_relay_totals_def relay_wake_def
        denial_health on_circuit_closed_def meter_close_def split_beta Let_def split: RelayCircuitCloseReason.splits)
  then show ?thesis using assms(1,3,4) by (auto simp: enforce_relay_schedule_def Let_def)
qed

text \<open>The disconnections of a schedule close report closed reservations, and handling one marks the server as enabled again.\<close>

lemma schedule_close_undone:
  "server_enabled (snd (server_handle_event E U now_ms (ReservationClosed p) (snd (enforce_relay_schedule ClosedBySchedule enabled peers s))))"
  by (simp add: server_handle_event_def enforce_relay_schedule_def refresh_relay_totals_def relay_wake_def record_reservation_closed_def Let_def)

section \<open>A circuit is closed twice\<close>

definition generated :: "'p Behaviour \<Rightarrow> 'p relay_Event list" where
  "generated b = List.map_filter (\<lambda>a. case a of GenerateEvent e \<Rightarrow> Some e | _ \<Rightarrow> None) (queued_actions b)"

definition closes :: "nat \<Rightarrow> 'p relay_Event \<Rightarrow> bool" where
  "closes k e \<longleftrightarrow> (case e of CircuitClosed src dst i bytes error \<Rightarrow> i = k | _ \<Rightarrow> False)"

definition closings :: "nat \<Rightarrow> 'p ToSwarm list \<Rightarrow> 'p relay_Event list" where
  "closings k as = filter (closes k) (List.map_filter (\<lambda>a. case a of GenerateEvent e \<Rightarrow> Some e | _ \<Rightarrow> None) as)"

lemma closings_simps [simp]:
  "closings k [] = []" "closings k (as @ bs) = closings k as @ closings k bs"
  "closings k (GenerateEvent e # as) = (if closes k e then e # closings k as else closings k as)"
  "closings k (NotifyHandler p i msg # as) = closings k as"
  by (simp_all add: closings_def List.map_filter_def)

lemma closings_concat: "(\<And>x. x \<in> set xs \<Longrightarrow> closings k (f x) = []) \<Longrightarrow> closings k (concat (map f xs)) = []"
  by (induction xs) simp_all

lemma status_closings: "closings k (concat (map (\<lambda>p. map (\<lambda>i. NotifyHandler p i (SetStatus st)) (f p)) ps)) = []"
proof -
  have "closings k (map (\<lambda>i. NotifyHandler p i (SetStatus st)) is) = []" for p :: 'a and "is" by (induction "is") simp_all
  then show ?thesis by (intro closings_concat)
qed

lemma reconfigure_closings: "closings k (queued_actions (reconfigure_relay_status b)) = closings k (queued_actions b)"
  by (simp add: reconfigure_relay_status_def status_closings)

lemma determine_closings [simp]:
  "closings k (queued_actions (determine_relay_status_from_external_address b)) = closings k (queued_actions b)"
  "circuits (determine_relay_status_from_external_address b) = circuits b"
  by (simp_all add: determine_relay_status_from_external_address_def Let_def push_event_def push_action_def reconfigure_closings closes_def)
    (simp_all add: reconfigure_relay_status_def)

lemma close_event_closings: "i \<noteq> k \<Longrightarrow> closings k (close_circuit_event U (i, c)) = []"
  by (simp add: close_circuit_event_def closes_def split: CircuitStatus.split)

lemma removed_closings:
  assumes "fmlookup (tracked t) k = Some c" and "c_status c = Accepted usage" and "uses_connection p j c"
  shows "closings k (concat (map (close_circuit_event U) (fst (remove_by_connection p j t))))
    = [CircuitClosed (c_src_peer_id c) (c_dst_peer_id c) k (usage_snapshot U usage) (Some aborted_error)]"
proof -
  define ids where "ids = sorted_list_of_fset (fmdom (tracked t))"
  have "k \<in> set ids" "distinct ids" using assms(1) by (auto simp: ids_def fmdomI sorted_list_of_fset.rep_eq)
  then obtain xs ys where ids: "ids = xs @ k # ys" "k \<notin> set xs" "k \<notin> set ys" by (auto dest: split_list)
  have other: "closings k (concat (map (close_circuit_event U) (filter (\<lambda>(i, c). uses_connection p j c) (map (\<lambda>i. (i, the (fmlookup (tracked t) i))) zs)))) = []"
    if "k \<notin> set zs" for zs
    using that by (intro closings_concat) (auto intro!: close_event_closings)
  have "closings k (close_circuit_event U (k, c)) = [CircuitClosed (c_src_peer_id c) (c_dst_peer_id c) k (usage_snapshot U usage) (Some aborted_error)]"
    by (simp add: close_circuit_event_def assms(2) closes_def)
  then show ?thesis using assms(1,3) other ids(2,3) by (simp add: remove_by_connection_def ids(1) flip: ids_def)
qed

lemma on_connection_closed_closings:
  assumes "fmlookup (tracked (circuits b)) k = Some c" and "c_status c = Accepted usage" and "uses_connection p j c"
  shows "closings k (queued_actions (on_connection_closed U p j b)) = closings k (queued_actions b)
      @ [CircuitClosed (c_src_peer_id c) (c_dst_peer_id c) k (usage_snapshot U usage) (Some aborted_error)]"
    and "fmlookup (tracked (circuits (on_connection_closed U p j b))) k = None"
  using removed_closings [OF assms, of U] assms(1,3)
  by (simp_all add: on_connection_closed_def drop_connection_def push_event_def push_action_def split_beta Let_def closes_def)
    (simp_all add: remove_by_connection_def)

lemma sat_add_twice: "sat_add 64 (sat_add 64 a (Suc 0)) (Suc 0) = sat_add 64 a 2" "sat_add 64 (sat_add 64 a b) 0 = sat_add 64 a b"
  by (simp_all add: sat_add_def)

lemma closed_step:
  "active_circuits (snd (server_handle_event E U now_ms (CircuitClosed src dst k bytes error) s)) = active_circuits s - 1"
  "relay_meter (snd (server_handle_event E U now_ms (CircuitClosed src dst k bytes error) s)) =
     snd (meter_close E k src dst bytes error now_ms (relay_meter s))"
  by (simp_all add: server_handle_event_def on_circuit_closed_def refresh_relay_totals_def relay_wake_def split_beta Let_def
      split: option.split RelayCircuitCloseReason.split)

lemma meter_close_totals:
  "closed_circuits (snd (meter_close E k src dst bytes error now_ms m)) = sat_add 64 (closed_circuits m) 1"
  "closed_src_to_dst (snd (meter_close E k src dst bytes error now_ms m)) = sat_add 64 (closed_src_to_dst m) (src_to_dst bytes)"
  by (simp_all add: meter_close_def Let_def)

text \<open>A circuit whose destination disconnects is reported closed twice. The server reports it when the
  connection of the destination closes, with its exact bytes, and again when the handler of the source, which drives
  the circuit, reports its end, now with no bytes. The node counts both: the active circuits go down by two and
  the completed circuits up by two for the one circuit, while its bytes are counted once.\<close>

theorem circuit_closed_twice:
  assumes "fmlookup (tracked (circuits b)) k = Some c" and "c_status c = Accepted usage" and "filter (closes k) (generated b) = []"
  shows "\<exists>b2. on_connection_handler_event U now (c_src_peer_id c) (c_src_connection_id c) (HCircuitClosed k (c_dst_peer_id c) error)
        (on_swarm_event U addrs changed (ConnectionClosed (c_dst_peer_id c) (c_dst_connection_id c)) b) = Some b2
    \<and> filter (closes k) (generated b2) =
        [CircuitClosed (c_src_peer_id c) (c_dst_peer_id c) k (usage_snapshot U usage) (Some aborted_error),
         CircuitClosed (c_src_peer_id c) (c_dst_peer_id c) k usage_default error]
    \<and> (let s' = relay_events E (map (\<lambda>e. (U, now_ms, e)) (filter (closes k) (generated b2))) s in
         active_circuits s' = active_circuits s - 2
       \<and> closed_circuits (relay_meter s') = sat_add 64 (closed_circuits (relay_meter s)) 2
       \<and> closed_src_to_dst (relay_meter s') = sat_add 64 (closed_src_to_dst (relay_meter s)) (src_to_dst (usage_snapshot U usage)))"
proof -
  define b0 where "b0 = (let b = b\<lparr>external_addresses := addrs\<rparr> in if auto_status_change b \<and> changed then determine_relay_status_from_external_address b else b)"
  define b1 where "b1 = on_connection_closed U (c_dst_peer_id c) (c_dst_connection_id c) b0"
  have b0: "circuits b0 = circuits b" "closings k (queued_actions b0) = []"
    using assms(3) by (simp_all add: b0_def Let_def generated_def flip: closings_def)
  have uses: "uses_connection (c_dst_peer_id c) (c_dst_connection_id c) c" by (simp add: uses_connection_def)
  have swarm: "on_swarm_event U addrs changed (ConnectionClosed (c_dst_peer_id c) (c_dst_connection_id c)) b = b1"
    by (simp add: on_swarm_event_def b1_def b0_def Let_def)
  have b1: "closings k (queued_actions b1) = [CircuitClosed (c_src_peer_id c) (c_dst_peer_id c) k (usage_snapshot U usage) (Some aborted_error)]"
      "fmlookup (tracked (circuits b1)) k = None"
    using on_connection_closed_closings [of b0 k c, OF _ assms(2) uses, of U] assms(1) by (simp_all add: b1_def b0)
  define b2 where "b2 = push_event (CircuitClosed (c_src_peer_id c) (c_dst_peer_id c) k usage_default error)
    (b1\<lparr>circuits := snd (tracker_remove k (circuits b1))\<rparr>)"
  have "on_connection_handler_event U now (c_src_peer_id c) (c_src_connection_id c) (HCircuitClosed k (c_dst_peer_id c) error) b1 = Some b2"
    by (simp add: on_connection_handler_event_def tracker_remove_def b1(2) b2_def)
  moreover have closings: "filter (closes k) (generated b2) = [CircuitClosed (c_src_peer_id c) (c_dst_peer_id c) k (usage_snapshot U usage) (Some aborted_error),
      CircuitClosed (c_src_peer_id c) (c_dst_peer_id c) k usage_default error]"
    using b1(1) by (simp add: b2_def generated_def push_event_def push_action_def closes_def flip: closings_def)
  ultimately show ?thesis unfolding swarm numeral_2_eq_2 [symmetric]
    by (intro exI [of _ b2]) (simp add: Let_def closed_step meter_close_totals usage_default_def sat_add_twice)
qed

section \<open>Concrete histories\<close>

definition demo_history :: "u8 timed_event list" where
  "demo_history = map (\<lambda>e. (demo_usage, 7, e)) [ReservationReqAccepted 5 False, ReservationReqAccepted 5 True, CircuitReqAccepted 6 5 0 3,
     CircuitReqDenied 6 5 SC_ResourceLimitExceeded, ReservationReqDenied 9 SC_NoReservation,
     CircuitClosed 6 5 0 usage_default (Some \<lparr>err_kind = OtherKind, err_text = ''reset''\<rparr>)]"

theorem relay_accounting_witness:
  "let s = relay_events demo_ext demo_history relay_state_default in
     accepted_reservations_total s = 1 \<and> at_capacity_events s = 1 \<and> server_errors s = 2 \<and> closed_circuits (relay_meter s) = 1"
  using relay_accounting [of demo_history demo_ext]
  by (simp add: Let_def demo_history_def count_events_def event_classes from_error_def MAX_CIRCUIT_BYTES_REACHED_def)

definition demo_open :: RelayState where
  "demo_open = relay_events demo_ext (map (\<lambda>e. (demo_usage, 7, e)) [CircuitReqAccepted 6 5 0 3, CircuitReqAccepted 6 5 1 4,
     CircuitClosed 6 5 0 usage_default None]) relay_state_default"

theorem relay_state_typed_witness:
  "relay_state_ok demo_open \<and> length (us_active_circuits (relay_usage_snapshot demo_usage demo_open)) = 1
     \<and> length (recent_closed_circuits (relay_usage_snapshot demo_usage demo_open)) = 1"
proof -
  have "relay_reachable demo_ext demo_open" unfolding demo_open_def by (simp add: relay_reachable.intros)
  from relay_state_typed [OF this, of demo_usage] have "relay_state_ok demo_open" by blast
  moreover have "length (meter_active_circuits demo_usage (relay_meter demo_open)) = 1"
      "length (recent_closed (relay_meter demo_open)) = 1"
    by (simp_all add: demo_open_def closed_step meter_close_def Let_def RECENT_CLOSED_CIRCUITS_def)
      (simp_all add: event_eval meter_active_circuits_def relay_state_default_def relay_meter_default_def fmdrop_fmupd sorted_list_of_fset.rep_eq)
  ultimately show ?thesis by (simp add: relay_usage_snapshot_def)
qed

definition demo_serving :: "u8 Behaviour" where
  "demo_serving = (behaviour_new 1 \<lparr>max_reservations = 64, max_reservations_per_peer = 1, reservation_duration = from_secs 3600,
       reservation_rate_limiters = [], max_circuits = 128, max_circuits_per_peer = 4, max_circuit_duration = from_secs 120,
       max_circuit_bytes = 104857600, circuit_src_rate_limiters = []\<rparr>)\<lparr>circuits := \<lparr>next_id = 1, tracked = fmupd 0 \<lparr>c_src_peer_id = 6, c_src_connection_id = 2,
     c_dst_peer_id = 5, c_dst_connection_id = 1, c_status = Accepted 3\<rparr> fmempty\<rparr>\<rparr>"

theorem circuit_closed_twice_witness:
  "map_option (\<lambda>b. length (filter (closes 0) (generated b))) (on_connection_handler_event demo_usage 9 6 2 (HCircuitClosed 0 5 None)
     (on_swarm_event demo_usage [] False (ConnectionClosed 5 1) demo_serving)) = Some 2"
proof -
  let ?c = "\<lparr>c_src_peer_id = 6 :: u8, c_src_connection_id = 2, c_dst_peer_id = 5, c_dst_connection_id = 1, c_status = Accepted 3\<rparr>"
  have "fmlookup (tracked (circuits demo_serving)) 0 = Some ?c" by (simp add: demo_serving_def)
  moreover have "filter (closes 0) (generated demo_serving) = []" by (simp add: demo_serving_def behaviour_new_def generated_def map_filter_simps)
  ultimately show ?thesis
    using circuit_closed_twice [of demo_serving 0 ?c 3 demo_usage 9 None "[]" False demo_ext 7 relay_state_default] by fastforce
qed

end
