(* ===== verification/Bounded_Memory.thy ===== *)
theory Bounded_Memory
  imports P2P_Prelude
begin

text \<open>
  A bounded memory: a hash set with a queue of its members, oldest first. The node uses the pattern for the addresses
  it announces, the peers it dials and the providers it discovered. This theory holds the two helpers of
  \<open>connectivity/dht/state.rs\<close> that maintain such a pair, the invariant all of them keep, and the contract of a memory
  with insertion and removal as a locale.
\<close>

section \<open>The helpers\<close>

fun prune_peer_set :: "'a fset \<Rightarrow> 'a list \<Rightarrow> nat \<Rightarrow> 'a fset \<times> 'a list" where
  "prune_peer_set seen order max_entries =
     (if max_entries < fcard seen then
        (case order of [] \<Rightarrow> (seen, []) | evicted # rest \<Rightarrow> prune_peer_set (seen |-| {|evicted|}) rest max_entries)
      else (seen, order))"

declare prune_peer_set.simps [simp del]

definition remove_peer_from_bounded_set :: "'a \<Rightarrow> 'a fset \<Rightarrow> 'a list \<Rightarrow> bool \<times> 'a fset \<times> 'a list" where
  "remove_peer_from_bounded_set peer seen order =
     (if peer |\<in>| seen then (True, seen |-| {|peer|}, filter (\<lambda>queued. queued \<noteq> peer) order) else (False, seen, order))"

text \<open>Insert, queue and prune, as \<open>mark_auto_connect_attempted\<close>, \<open>mark_awaiting_address\<close> and \<open>suppress_peer\<close> do.\<close>

definition insert_pruned :: "nat \<Rightarrow> 'a \<Rightarrow> 'a fset \<Rightarrow> 'a list \<Rightarrow> 'a fset \<times> 'a list" where
  "insert_pruned max_entries peer seen order =
     (if peer |\<in>| seen then prune_peer_set seen order max_entries else prune_peer_set (finsert peer seen) (order @ [peer]) max_entries)"

section \<open>The invariant\<close>

definition memory_ok :: "nat \<Rightarrow> 'a fset \<Rightarrow> 'a list \<Rightarrow> bool" where
  "memory_ok max_entries seen order \<longleftrightarrow> distinct order \<and> fset_of_list order = seen \<and> length order \<le> max_entries"

lemma memory_card: "distinct order \<Longrightarrow> fcard (fset_of_list order) = length order"
  by (simp add: fcard.rep_eq fset_of_list.rep_eq distinct_card)

lemma memory_ok_empty [simp]: "memory_ok n {||} []"
  by (simp add: memory_ok_def)

lemma memory_ok_card: "memory_ok n seen order \<Longrightarrow> fcard seen = length order"
  using memory_card by (auto simp: memory_ok_def)

lemma memory_ok_snoc:
  assumes "memory_ok n seen order" and "x |\<notin>| seen" and "length order < n"
  shows "memory_ok n (finsert x seen) (order @ [x])"
proof -
  have seen: "seen = fset_of_list order" "distinct order" using assms(1) by (simp_all add: memory_ok_def)
  then show ?thesis using assms(2,3) by (auto simp: memory_ok_def fset_of_list_elem)
qed

lemma prune_within: "memory_ok n seen order \<Longrightarrow> prune_peer_set seen order n = (seen, order)"
  using memory_ok_card [of n seen order] by (subst prune_peer_set.simps) (simp add: memory_ok_def)

lemma insert_pruned_eq:
  assumes "memory_ok n seen order" and "0 < n"
  shows "insert_pruned n x seen order =
    (if x |\<in>| seen then (seen, order)
     else if length order < n then (finsert x seen, order @ [x])
     else (fset_of_list (tl order @ [x]), tl order @ [x]))"
proof (cases "x |\<in>| seen")
  case True
  then show ?thesis using prune_within [OF assms(1)] by (simp add: insert_pruned_def)
next
  case False
  have order: "distinct (order @ [x])" "fset_of_list (order @ [x]) = finsert x seen"
    using assms(1) False by (auto simp: memory_ok_def fset_of_list_elem)
  show ?thesis
  proof (cases "length order < n")
    case True
    then have "memory_ok n (finsert x seen) (order @ [x])" using order by (simp add: memory_ok_def)
    then show ?thesis using True False prune_within by (simp add: insert_pruned_def)
  next
    case full: False
    then obtain y ys where y: "order = y # ys" using assms(2) by (cases order) simp_all
    have len: "length order = n" using full assms(1) by (simp add: memory_ok_def)
    have "finsert x seen |-| {|y|} = fset_of_list (ys @ [x])" using order by (auto simp: y fset_of_list_elem)
    moreover have "memory_ok n (fset_of_list (ys @ [x])) (ys @ [x])" using order(1) len by (simp add: memory_ok_def y)
    moreover have "fcard (finsert x seen) = n + 1" using memory_card [OF order(1)] order(2) len by simp
    ultimately show ?thesis using False full prune_within
      by (simp add: insert_pruned_def y) (subst prune_peer_set.simps, simp)
  qed
qed

lemma insert_pruned_ok:
  assumes "memory_ok n seen order" and "0 < n" and "insert_pruned n x seen order = (seen', order')"
  shows "memory_ok n seen' order'" and "x |\<in>| seen'" and "seen' |\<subseteq>| finsert x seen"
proof -
  note eq = assms(3) [unfolded insert_pruned_eq [OF assms(1,2)]]
  show "memory_ok n seen' order'"
    using assms(1,2) eq by (cases order) (auto simp: memory_ok_def fset_of_list_elem split: if_splits)
  show "x |\<in>| seen'" using eq by (auto split: if_splits)
  show "seen' |\<subseteq>| finsert x seen"
    using assms(1) eq by (cases order) (auto simp: memory_ok_def fset_of_list_elem split: if_splits)
qed

lemma remove_ok:
  assumes "memory_ok n seen order" and "remove_peer_from_bounded_set x seen order = (r, seen', order')"
  shows "memory_ok n seen' order'" and "seen' = seen |-| {|x|}" and "r \<longleftrightarrow> x |\<in>| seen"
proof -
  show "memory_ok n seen' order'"
    using assms by (auto simp: memory_ok_def remove_peer_from_bounded_set_def fset_of_list_elem intro: le_trans [OF length_filter_le] split: if_splits)
  show "seen' = seen |-| {|x|}" "r \<longleftrightarrow> x |\<in>| seen" using assms(2) by (auto simp: remove_peer_from_bounded_set_def split: if_splits)
qed

text \<open>A map with a queue of its keys, pruned in the same way.\<close>

fun prune_map :: "('a, 'b) fmap \<Rightarrow> 'a list \<Rightarrow> nat \<Rightarrow> ('a, 'b) fmap \<times> 'a list" where
  "prune_map m order max_entries =
     (if max_entries < fmsize m then (case order of [] \<Rightarrow> (m, []) | evicted # rest \<Rightarrow> prune_map (fmdrop evicted m) rest max_entries)
      else (m, order))"

declare prune_map.simps [simp del]

lemma prune_map_within: "fmsize m \<le> n \<Longrightarrow> prune_map m order n = (m, order)"
  by (subst prune_map.simps) simp

lemma prune_map_upd:
  assumes "memory_ok n (fmdom m) order" and "fmlookup m k = None" and "0 < n"
    and "prune_map (fmupd k v m) (order @ [k]) n = (m', order')"
  shows "memory_ok n (fmdom m') order'" and "fmlookup m' k = Some v" and "fmdom m' |\<subseteq>| finsert k (fmdom m)"
proof -
  have dom: "fmsize m = length order" "k |\<notin>| fmdom m" using memory_ok_card [OF assms(1)] assms(2) by (simp_all add: fmdom_notI)
  have "memory_ok n (fmdom m') order' \<and> fmlookup m' k = Some v \<and> fmdom m' |\<subseteq>| finsert k (fmdom m)"
  proof (cases "length order < n")
    case True
    then have "fmsize (fmupd k v m) \<le> n" using dom by (simp only: fmsize_fmupd assms(2)) simp
    then have "m' = fmupd k v m" "order' = order @ [k]" using assms(4) by (simp_all add: prune_map_within)
    moreover have "distinct order" "fmdom m = fset_of_list order" using assms(1) by (simp_all add: memory_ok_def)
    moreover from this have "k \<notin> set order" using dom(2) by (simp add: fset_of_list_elem)
    ultimately show ?thesis using True by (simp add: memory_ok_def funion_commute)
  next
    case False
    then obtain y ys where y: "order = y # ys" using assms(3) by (cases order) simp_all
    have len: "length order = n" using False assms(1) by (simp add: memory_ok_def)
    have y_in: "y |\<in>| fmdom m" "y \<noteq> k" using assms(1) dom(2) by (auto simp: memory_ok_def y fset_of_list_elem)
    have "fmsize (fmupd k v m) = Suc n" using dom len by (simp only: fmsize_fmupd assms(2)) simp
    moreover from y_in(1) obtain w where "fmlookup m y = Some w" by (auto simp: fmlookup_dom_iff)
    with y_in(2) have "fmlookup (fmupd k v m) y = Some w" by simp
    note fmsize_fmdrop [OF this]
    ultimately have size: "n < fmsize (fmupd k v m)" "fmsize (fmdrop y (fmupd k v m)) \<le> n" by simp_all
    have "prune_map (fmupd k v m) (order @ [k]) n = prune_map (fmdrop y (fmupd k v m)) (ys @ [k]) n"
      by (subst prune_map.simps) (simp only: size(1) if_True y append.simps list.case)
    also have "\<dots> = (fmdrop y (fmupd k v m), ys @ [k])" by (rule prune_map_within [OF size(2)])
    finally have "prune_map (fmupd k v m) (order @ [k]) n = (fmdrop y (fmupd k v m), ys @ [k])" .
    then have res: "m' = fmdrop y (fmupd k v m)" "order' = ys @ [k]" using assms(4) by simp_all
    have old: "fmdom m = finsert y (fset_of_list ys)" "y |\<notin>| fset_of_list ys" "distinct ys" "length ys < n"
      using assms(1) len by (simp_all add: memory_ok_def y fset_of_list_elem)
    have new: "fmdom m' = fset_of_list (ys @ [k])" using old(2) y_in(2) by (auto simp: res(1) old(1))
    have "k \<notin> set ys" using old(1) dom(2) by (simp add: fset_of_list_elem)
    then have "memory_ok n (fmdom m') order'" using old(3,4) by (simp add: memory_ok_def new res(2))
    moreover have "fmdom m' |\<subseteq>| finsert k (fmdom m)" by (auto simp: new old(1))
    moreover have "fmlookup m' k = Some v" using y_in(2) by (simp add: res(1))
    ultimately show ?thesis by (intro conjI)
  qed
  then show "memory_ok n (fmdom m') order'" "fmlookup m' k = Some v" "fmdom m' |\<subseteq>| finsert k (fmdom m)" by simp_all
qed

section \<open>The contract\<close>

locale bounded_memory =
  fixes add :: "'a \<Rightarrow> 's \<Rightarrow> 's" and del :: "'a \<Rightarrow> 's \<Rightarrow> 's" and members :: "'s \<Rightarrow> 'a fset" and inv :: "'s \<Rightarrow> bool" and cap :: nat
  assumes add_inv: "inv s \<Longrightarrow> inv (add x s)" and add_member: "inv s \<Longrightarrow> x |\<in>| members (add x s)"
    and add_others: "inv s \<Longrightarrow> y |\<in>| members (add x s) \<Longrightarrow> y \<noteq> x \<Longrightarrow> y |\<in>| members s"
    and del_inv: "inv s \<Longrightarrow> inv (del x s)" and del_members: "inv s \<Longrightarrow> members (del x s) = members s |-| {|x|}"
    and inv_cap: "inv s \<Longrightarrow> fcard (members s) \<le> cap"
begin

primrec run :: "(bool \<times> 'a) list \<Rightarrow> 's \<Rightarrow> 's" where
  "run [] s = s"
| "run (e # es) s = run es (if fst e then add (snd e) s else del (snd e) s)"

lemma run_inv: "inv s \<Longrightarrow> inv (run es s)"
  by (induction es arbitrary: s) (simp_all add: add_inv del_inv)

lemma run_bounded: "inv s \<Longrightarrow> fcard (members (run es s)) \<le> cap"
  by (rule inv_cap [OF run_inv])

lemma run_members: "inv s \<Longrightarrow> x |\<in>| members (run es s) \<Longrightarrow> x |\<in>| members s \<or> (True, x) \<in> set es"
proof (induction es arbitrary: s)
  case (Cons e es)
  define s1 where "s1 = (if fst e then add (snd e) s else del (snd e) s)"
  have "inv s1" using Cons.prems(1) by (simp add: s1_def add_inv del_inv)
  then have "x |\<in>| members s1 \<or> (True, x) \<in> set es" using Cons.IH [of s1] Cons.prems(2) by (simp add: s1_def)
  then show ?case using Cons.prems(1) add_others [of s x "snd e"] by (cases e) (auto simp: s1_def del_members split: if_splits)
qed simp

lemma removed_stays_out: "inv s \<Longrightarrow> (True, x) \<notin> set es \<Longrightarrow> x |\<notin>| members (run es (del x s))"
  using run_members [of "del x s" x es] by (auto simp: del_inv del_members)

end

text \<open>A state that holds such a pair of set and queue meets the contract.\<close>

lemma paired_memory:
  assumes add: "\<And>x s. memory_ok n (members s) (order s) \<Longrightarrow> (members (add x s), order (add x s)) = insert_pruned n x (members s) (order s)"
    and del: "\<And>x s. (members (del x s), order (del x s)) = snd (remove_peer_from_bounded_set x (members s) (order s))"
    and cap: "0 < n"
  shows "bounded_memory add del members (\<lambda>s. memory_ok n (members s) (order s)) n"
proof
  fix s x y
  assume s: "memory_ok n (members s) (order s)"
  note added = insert_pruned_ok [OF s cap add [OF s, of x, symmetric]]
  obtain r where "remove_peer_from_bounded_set x (members s) (order s) = (r, members (del x s), order (del x s))"
    using del [of x s] by (metis prod.collapse)
  note removed = remove_ok [OF s this]
  show "memory_ok n (members (add x s)) (order (add x s))" "x |\<in>| members (add x s)" using added by simp_all
  show "y |\<in>| members (add x s) \<Longrightarrow> y \<noteq> x \<Longrightarrow> y |\<in>| members s" using added(3) by auto
  show "memory_ok n (members (del x s)) (order (del x s))" "members (del x s) = members s |-| {|x|}" using removed by simp_all
  show "fcard (members s) \<le> n" using s memory_ok_card [OF s] by (simp add: memory_ok_def)
qed

end
