(* ===== verification/External_Addresses.thy ===== *)
theory External_Addresses
  imports Multiaddr Bounded_Memory
begin

text \<open>
  The external addresses a node announces: \<open>stack/external_addresses.rs\<close>. Two bounded memories of
  addresses, oldest out first, feed a queue of actions for the swarm. The hash set of a memory is a finite
  set and its order queue a list; the platform test of the code is the argument \<open>win\<close>. The swarm's own view,
  the set of addresses it holds as confirmed, is what the actions make of it.
\<close>

section \<open>The behaviour\<close>

definition MAX_EXTERNAL_ADDRESS_CACHE :: nat where "MAX_EXTERNAL_ADDRESS_CACHE = 32"

datatype 'p ExternalAddressAction = Candidate "'p multiaddr" | Confirm "'p multiaddr" | Expire "'p multiaddr"

record 'p ExternalAddressCandidates =
  ea_pending :: "'p ExternalAddressAction list"
  candidate_seen :: "'p multiaddr fset"
  candidate_order :: "'p multiaddr list"
  confirmed_seen :: "'p multiaddr fset"
  confirmed_order :: "'p multiaddr list"

definition external_addresses_new :: "'p ExternalAddressCandidates" where
  "external_addresses_new = \<lparr>ea_pending = [], candidate_seen = {||}, candidate_order = [], confirmed_seen = {||}, confirmed_order = []\<rparr>"

text \<open>The eviction loop pops until it removes a member of the set.\<close>

fun evict_loop :: "nat \<Rightarrow> 'p multiaddr \<Rightarrow> 'p multiaddr fset \<Rightarrow> 'p multiaddr list \<Rightarrow> 'p multiaddr \<times> 'p multiaddr fset \<times> 'p multiaddr list" where
  "evict_loop max_entries address seen order =
     (if max_entries < fcard seen then
        (case order of
           [] \<Rightarrow> (address, seen, [])
         | evicted # rest \<Rightarrow> if evicted |\<in>| seen then (evicted, seen |-| {|evicted|}, rest) else evict_loop max_entries address seen rest)
      else (address, seen, order))"

declare evict_loop.simps [simp del]

definition remember_bounded ::
    "'p multiaddr fset \<Rightarrow> 'p multiaddr list \<Rightarrow> 'p multiaddr \<Rightarrow> nat \<Rightarrow> 'p multiaddr option \<times> 'p multiaddr fset \<times> 'p multiaddr list" where
  "remember_bounded seen order address max_entries =
     (if address |\<in>| seen then (None, seen, order)
      else let (evicted, seen, order) = evict_loop max_entries address (finsert address seen) (order @ [address]) in (Some evicted, seen, order))"

definition supports_dcutr_port_reuse :: "bool \<Rightarrow> 'p multiaddr \<Rightarrow> bool" where
  "supports_dcutr_port_reuse win address \<longleftrightarrow> \<not> win \<or> \<not> list_ex (\<lambda>protocol. case protocol of Tcp _ \<Rightarrow> True | _ \<Rightarrow> False) address"

definition add_candidate :: "bool \<Rightarrow> 'p multiaddr \<Rightarrow> 'p ExternalAddressCandidates \<Rightarrow> 'p ExternalAddressCandidates" where
  "add_candidate win address s =
     (if \<not> supports_dcutr_port_reuse win address then s
      else let (remembered, seen, order) = remember_bounded (candidate_seen s) (candidate_order s) address MAX_EXTERNAL_ADDRESS_CACHE;
               s = s\<lparr>candidate_seen := seen, candidate_order := order\<rparr>
           in if remembered \<noteq> None then s\<lparr>ea_pending := ea_pending s @ [Candidate address]\<rparr> else s)"

definition add_confirmed :: "bool \<Rightarrow> 'p multiaddr \<Rightarrow> 'p ExternalAddressCandidates \<Rightarrow> 'p ExternalAddressCandidates" where
  "add_confirmed win address s0 =
     (let s = add_candidate win address s0;
          (remembered, seen, order) = remember_bounded (confirmed_seen s) (confirmed_order s) address MAX_EXTERNAL_ADDRESS_CACHE;
          s = s\<lparr>confirmed_seen := seen, confirmed_order := order\<rparr>
      in case remembered of
           None \<Rightarrow> s
         | Some evicted \<Rightarrow> s\<lparr>ea_pending := ea_pending s @ (if evicted \<noteq> address then [Expire evicted] else []) @ [Confirm address]\<rparr>)"

definition external_addresses_poll :: "'p ExternalAddressCandidates \<Rightarrow> 'p ExternalAddressAction option \<times> 'p ExternalAddressCandidates" where
  "external_addresses_poll s = (case ea_pending s of [] \<Rightarrow> (None, s) | a # rest \<Rightarrow> (Some a, s\<lparr>ea_pending := rest\<rparr>))"

section \<open>The swarm's view\<close>

primrec swarm_apply :: "'p ExternalAddressAction \<Rightarrow> 'p multiaddr fset \<Rightarrow> 'p multiaddr fset" where
  "swarm_apply (Candidate a) view = view"
| "swarm_apply (Confirm a) view = finsert a view"
| "swarm_apply (Expire a) view = view |-| {|a|}"

datatype 'p address_step = AddCandidate "'p multiaddr" | AddConfirmed "'p multiaddr" | PollAddresses

definition address_step :: "bool \<Rightarrow> 'p address_step \<Rightarrow> 'p ExternalAddressCandidates \<times> 'p multiaddr fset \<Rightarrow> 'p ExternalAddressCandidates \<times> 'p multiaddr fset" where
  "address_step win st sv = (case st of
     AddCandidate a \<Rightarrow> (add_candidate win a (fst sv), snd sv)
   | AddConfirmed a \<Rightarrow> (add_confirmed win a (fst sv), snd sv)
   | PollAddresses \<Rightarrow> (case external_addresses_poll (fst sv) of
        (None, s) \<Rightarrow> (s, snd sv) | (Some a, s) \<Rightarrow> (s, swarm_apply a (snd sv))))"

definition address_run :: "bool \<Rightarrow> 'p address_step list \<Rightarrow> 'p ExternalAddressCandidates \<times> 'p multiaddr fset" where
  "address_run win steps = fold (address_step win) steps (external_addresses_new, {||})"

section \<open>The memories\<close>

text \<open>What remembering an address does: nothing for a known address, else it is appended, and the oldest goes when
  the memory is full.\<close>

lemma remember_bounded_eq:
  assumes "memory_ok MAX_EXTERNAL_ADDRESS_CACHE seen order"
  shows "remember_bounded seen order a MAX_EXTERNAL_ADDRESS_CACHE =
    (if a |\<in>| seen then (None, seen, order)
     else if length order < MAX_EXTERNAL_ADDRESS_CACHE then (Some a, finsert a seen, order @ [a])
     else (Some (hd order), fset_of_list (tl order @ [a]), tl order @ [a]))"
proof (cases "a |\<in>| seen")
  case False
  have order: "distinct (order @ [a])" "fset_of_list (order @ [a]) = finsert a seen"
    using assms False by (auto simp: memory_ok_def fset_of_list_elem)
  then have card: "fcard (finsert a seen) = length order + 1" using memory_card [OF order(1)] by simp
  show ?thesis
  proof (cases "length order < MAX_EXTERNAL_ADDRESS_CACHE")
    case True
    then show ?thesis using False card by (simp add: remember_bounded_def) (subst evict_loop.simps, simp)
  next
    case full: False
    then obtain x xs where x: "order = x # xs" by (cases order) (simp_all add: MAX_EXTERNAL_ADDRESS_CACHE_def)
    have "x |\<in>| seen" "x \<noteq> a" using assms False by (auto simp: memory_ok_def x fset_of_list_elem)
    moreover have "finsert a seen |-| {|x|} = fset_of_list (xs @ [a])" using order by (auto simp: x fset_of_list_elem)
    ultimately show ?thesis using False full card
      by (simp add: remember_bounded_def x) (subst evict_loop.simps, simp)
  qed
qed (simp add: remember_bounded_def)

lemma remember_bounded_ok:
  assumes "memory_ok MAX_EXTERNAL_ADDRESS_CACHE seen order" and "remember_bounded seen order a MAX_EXTERNAL_ADDRESS_CACHE = (r, seen', order')"
  shows "memory_ok MAX_EXTERNAL_ADDRESS_CACHE seen' order'" and "a |\<in>| seen'"
    and "case r of None \<Rightarrow> seen' = seen | Some e \<Rightarrow> seen' = (if e = a then finsert a seen else finsert a (seen |-| {|e|}))"
proof -
  note eq = assms(2) [unfolded remember_bounded_eq [OF assms(1)]]
  show "memory_ok MAX_EXTERNAL_ADDRESS_CACHE seen' order'"
    using assms(1) eq by (cases order) (auto simp: memory_ok_def fset_of_list_elem MAX_EXTERNAL_ADDRESS_CACHE_def split: if_splits)
  show "a |\<in>| seen'" using eq by (auto split: if_splits)
  show "case r of None \<Rightarrow> seen' = seen | Some e \<Rightarrow> seen' = (if e = a then finsert a seen else finsert a (seen |-| {|e|}))"
    using assms(1) eq by (cases order) (auto simp: memory_ok_def fset_of_list_elem MAX_EXTERNAL_ADDRESS_CACHE_def split: if_splits)
qed

section \<open>The announced addresses\<close>

definition announced :: "'p ExternalAddressCandidates \<times> 'p multiaddr fset \<Rightarrow> 'p multiaddr fset" where
  "announced sv = fold swarm_apply (ea_pending (fst sv)) (snd sv)"

definition addresses_ok :: "'p ExternalAddressCandidates \<times> 'p multiaddr fset \<Rightarrow> bool" where
  "addresses_ok sv \<longleftrightarrow> memory_ok MAX_EXTERNAL_ADDRESS_CACHE (candidate_seen (fst sv)) (candidate_order (fst sv)) \<and> memory_ok MAX_EXTERNAL_ADDRESS_CACHE (confirmed_seen (fst sv)) (confirmed_order (fst sv))
     \<and> announced sv = confirmed_seen (fst sv)"

lemma add_candidate_frame:
  "confirmed_seen (add_candidate win a s) = confirmed_seen s" "confirmed_order (add_candidate win a s) = confirmed_order s"
  "fold swarm_apply (ea_pending (add_candidate win a s)) view = fold swarm_apply (ea_pending s) view"
  by (simp_all add: add_candidate_def split_beta Let_def)

lemma add_candidate_memory:
  "memory_ok MAX_EXTERNAL_ADDRESS_CACHE (candidate_seen s) (candidate_order s) \<Longrightarrow>
   memory_ok MAX_EXTERNAL_ADDRESS_CACHE (candidate_seen (add_candidate win a s)) (candidate_order (add_candidate win a s))"
  using remember_bounded_ok(1) [of "candidate_seen s" "candidate_order s" a]
  by (auto simp: add_candidate_def split_beta Let_def prod_eq_iff)

lemma add_confirmed_ok:
  assumes "addresses_ok (s, view)"
  shows "addresses_ok (add_confirmed win a s, view)" and "a |\<in>| confirmed_seen (add_confirmed win a s)"
proof -
  define s1 where "s1 = add_candidate win a s"
  have mem: "memory_ok MAX_EXTERNAL_ADDRESS_CACHE (candidate_seen s1) (candidate_order s1)" "memory_ok MAX_EXTERNAL_ADDRESS_CACHE (confirmed_seen s1) (confirmed_order s1)"
      and view: "fold swarm_apply (ea_pending s1) view = confirmed_seen s1"
    using assms add_candidate_memory [of s win a] by (simp_all add: s1_def addresses_ok_def announced_def add_candidate_frame)
  obtain r seen order where r: "remember_bounded (confirmed_seen s1) (confirmed_order s1) a MAX_EXTERNAL_ADDRESS_CACHE = (r, seen, order)"
    by (metis prod_cases3)
  note kept = remember_bounded_ok [OF mem(2) r]
  show "addresses_ok (add_confirmed win a s, view)"
    using mem(1) kept view by (auto simp: add_confirmed_def r addresses_ok_def announced_def split: option.splits simp flip: s1_def)
  show "a |\<in>| confirmed_seen (add_confirmed win a s)"
    using kept(2) by (simp add: add_confirmed_def r Let_def split: option.split flip: s1_def)
qed

lemma address_step_ok: "addresses_ok sv \<Longrightarrow> addresses_ok (address_step win st sv)"
proof (cases st)
  case (AddCandidate a)
  then show "addresses_ok sv \<Longrightarrow> addresses_ok (address_step win st sv)"
    by (simp add: address_step_def addresses_ok_def announced_def add_candidate_frame add_candidate_memory)
next
  case (AddConfirmed a)
  then show "addresses_ok sv \<Longrightarrow> addresses_ok (address_step win st sv)"
    using add_confirmed_ok(1) [of "fst sv" "snd sv"] by (simp add: address_step_def)
next
  case PollAddresses
  then show "addresses_ok sv \<Longrightarrow> addresses_ok (address_step win st sv)"
    by (cases "ea_pending (fst sv)") (simp_all add: address_step_def external_addresses_poll_def addresses_ok_def announced_def)
qed

lemma address_run_ok: "addresses_ok (address_run win steps)"
proof -
  have "addresses_ok (external_addresses_new, {||})"
    by (simp add: addresses_ok_def announced_def external_addresses_new_def memory_ok_def)
  moreover have "addresses_ok sv \<Longrightarrow> addresses_ok (fold (address_step win) steps sv)" for sv
    by (induction steps arbitrary: sv) (simp_all add: address_step_ok)
  ultimately show ?thesis by (simp add: address_run_def)
qed



end
