(* ===== verification/Relay_Client.thy ===== *)
theory Relay_Client
  imports External_Addresses Relay_Protocol
begin

text \<open>
  The node as a client of relays: \<open>connectivity/relay/reservation_retry.rs\<close>, \<open>connectivity/relay/requested.rs\<close>,
  \<open>node/events/relay_client.rs\<close>, and the listen addresses of \<open>node/events/connection.rs\<close>, together with the external
  addresses they feed. The fields of \<open>RelayState\<close> that this code uses form the record \<open>RelayClientState\<close>.
  A \<open>BTreeSet\<close> of addresses is a list without repetitions; only its members matter. The clock, the identifiers of new
  listeners and the answers of \<open>listen_on\<close>, which is the swarm's, are arguments.
\<close>

section \<open>Reservation retries\<close>

definition BASE_DELAY :: nat where "BASE_DELAY = from_secs 5"
definition MAX_DELAY :: nat where "MAX_DELAY = from_secs 120"

record 'p ReservationRetries =
  rr_listeners :: "(nat, 'p multiaddr) fmap"
  rr_closes :: "('p multiaddr, nat) fmap"
  rr_due :: "(nat \<times> 'p multiaddr) list"

definition retries_default :: "'p ReservationRetries" where
  "retries_default = \<lparr>rr_listeners = fmempty, rr_closes = fmempty, rr_due = []\<rparr>"

definition retries_track :: "nat \<Rightarrow> 'p multiaddr \<Rightarrow> 'p ReservationRetries \<Rightarrow> 'p ReservationRetries" where
  "retries_track listener addr r = r\<lparr>rr_listeners := fmupd listener addr (rr_listeners r)\<rparr>"

definition closes_of :: "'p multiaddr \<Rightarrow> 'p ReservationRetries \<Rightarrow> nat" where
  "closes_of addr r = (case fmlookup (rr_closes r) addr of None \<Rightarrow> 0 | Some n \<Rightarrow> n)"

definition retries_closed :: "nat \<Rightarrow> nat \<Rightarrow> 'p ReservationRetries \<Rightarrow> ('p multiaddr \<times> nat) option \<times> 'p ReservationRetries" where
  "retries_closed listener now r = (case fmlookup (rr_listeners r) listener of
     None \<Rightarrow> (None, r)
   | Some addr \<Rightarrow>
       let closes = closes_of addr r;
           delay = min (BASE_DELAY * 2 ^ min closes 5) MAX_DELAY
       in (Some (addr, delay), r\<lparr>rr_listeners := fmdrop listener (rr_listeners r),
             rr_closes := fmupd addr (sat_add 32 closes 1) (rr_closes r), rr_due := rr_due r @ [(now + delay, addr)]\<rparr>))"

definition retries_accepted :: "'p \<Rightarrow> 'p ReservationRetries \<Rightarrow> 'p ReservationRetries" where
  "retries_accepted relay r = r\<lparr>rr_closes := fmretain (\<lambda>addr _. relay_peer_id addr \<noteq> Some relay) (rr_closes r)\<rparr>"

definition take_due :: "nat \<Rightarrow> 'p ReservationRetries \<Rightarrow> 'p multiaddr list \<times> 'p ReservationRetries" where
  "take_due now r = (map snd (filter (\<lambda>(at, _). at \<le> now) (rr_due r)), r\<lparr>rr_due := filter (\<lambda>(at, _). \<not> at \<le> now) (rr_due r)\<rparr>)"

section \<open>The client's state\<close>

record 'p RelayClientState =
  reservation_attempted :: bool
  relay_client_reservations :: "'p fset"
  relay_client_reservation_attempts :: nat
  relay_client_reservation_failures :: nat
  pending_relay_listen_addrs :: "('p, string list) fmap"
  relayed_listen_addrs :: "string list"
  private_relayed_listen_addrs :: "string list"
  requested_relay_listen_addrs :: "('p, 'p multiaddr list) fmap"
  reservation_retries :: "'p ReservationRetries"

definition client_default :: "'p RelayClientState" where
  "client_default = \<lparr>reservation_attempted = False, relay_client_reservations = {||}, relay_client_reservation_attempts = 0,
     relay_client_reservation_failures = 0, pending_relay_listen_addrs = fmempty, relayed_listen_addrs = [],
     private_relayed_listen_addrs = [], requested_relay_listen_addrs = fmempty, reservation_retries = retries_default\<rparr>"

definition note_requested_reservation :: "'p multiaddr \<Rightarrow> 'p RelayClientState \<Rightarrow> 'p RelayClientState" where
  "note_requested_reservation addr s = (case relay_peer_id addr of
     None \<Rightarrow> s
   | Some relay \<Rightarrow>
       let known = (case fmlookup (requested_relay_listen_addrs s) relay of None \<Rightarrow> [] | Some as \<Rightarrow> as)
       in s\<lparr>requested_relay_listen_addrs := fmupd relay (List.insert addr known) (requested_relay_listen_addrs s)\<rparr>)"

definition requested_routes :: "'p \<Rightarrow> 'p \<Rightarrow> 'p RelayClientState \<Rightarrow> 'p multiaddr list" where
  "requested_routes relay local s = (case fmlookup (requested_relay_listen_addrs s) relay of
     None \<Rightarrow> [] | Some as \<Rightarrow> map (\<lambda>addr. addr @ [P2p local]) as)"

definition relayed_route_has_public_relay_endpoint :: "'p multiaddr \<Rightarrow> bool" where
  "relayed_route_has_public_relay_endpoint addr =
     (let relay_route = takeWhile (\<lambda>protocol. protocol \<noteq> P2pCircuit) addr
      in has_reachable_transport relay_route \<and> \<not> is_local_direct_addr relay_route)"

section \<open>The published addresses\<close>

datatype ListenAddrClass = PublicDirect | Relayed | LocalOnly

definition advertise_as_external :: "ListenAddrClass \<Rightarrow> bool" where
  "advertise_as_external c \<longleftrightarrow> c = PublicDirect \<or> c = Relayed"

definition classify_listen_addr :: "'p multiaddr \<Rightarrow> ListenAddrClass" where
  "classify_listen_addr addr = (if is_p2p_circuit_addr addr then Relayed else if is_public_direct_addr addr then PublicDirect else LocalOnly)"

text \<open>The addresses in the node's snapshot.\<close>

definition MAX_SNAPSHOT_ADDRS :: nat where "MAX_SNAPSHOT_ADDRS = 16"

record listen_view =
  public_addr :: "string option"
  public_direct_listen_addresses :: "string list"
  relayed_listen_addresses :: "string list"
  private_relayed_listen_addresses :: "string list"
  local_listen_addresses :: "string list"

definition listen_view_default :: listen_view where
  "listen_view_default = \<lparr>public_addr = None, public_direct_listen_addresses = [], relayed_listen_addresses = [],
     private_relayed_listen_addresses = [], local_listen_addresses = []\<rparr>"

definition push_unique_recent :: "string \<Rightarrow> string list \<Rightarrow> string list" where
  "push_unique_recent value values = take MAX_SNAPSHOT_ADDRS (value # filter (\<lambda>existing. existing \<noteq> value) values)"

definition record_listen_addr_snapshot :: "'p ma_ext \<Rightarrow> 'p multiaddr \<Rightarrow> ListenAddrClass \<Rightarrow> listen_view \<Rightarrow> listen_view" where
  "record_listen_addr_snapshot M addr cls v = (let addr_string = ma_to_string M addr in case cls of
     PublicDirect \<Rightarrow> v\<lparr>public_direct_listen_addresses := push_unique_recent addr_string (public_direct_listen_addresses v), public_addr := Some addr_string\<rparr>
   | Relayed \<Rightarrow> v\<lparr>relayed_listen_addresses := push_unique_recent addr_string (relayed_listen_addresses v), public_addr := Some addr_string\<rparr>
   | LocalOnly \<Rightarrow> if is_local_direct_addr addr then v\<lparr>local_listen_addresses := push_unique_recent addr_string (local_listen_addresses v)\<rparr> else v)"

definition remove_listen_addr_snapshot :: "'p ma_ext \<Rightarrow> 'p multiaddr \<Rightarrow> ListenAddrClass \<Rightarrow> listen_view \<Rightarrow> listen_view" where
  "remove_listen_addr_snapshot M addr cls v0 =
     (let text = ma_to_string M addr; keep = filter (\<lambda>v. v \<noteq> text);
          v = (case cls of
             PublicDirect \<Rightarrow> v0\<lparr>public_direct_listen_addresses := keep (public_direct_listen_addresses v0)\<rparr>
           | Relayed \<Rightarrow> v0\<lparr>relayed_listen_addresses := keep (relayed_listen_addresses v0)\<rparr>
           | LocalOnly \<Rightarrow> v0\<lparr>local_listen_addresses := keep (local_listen_addresses v0)\<rparr>);
          first = (\<lambda>xs. case xs of [] \<Rightarrow> None | x # _ \<Rightarrow> Some x)
      in v\<lparr>public_addr := (case first (relayed_listen_addresses v) of Some a \<Rightarrow> Some a | None \<Rightarrow> first (public_direct_listen_addresses v))\<rparr>)"

text \<open>The part of \<open>apply_relay_state\<close> and \<open>apply_private_relayed\<close> that concerns addresses.\<close>

definition apply_relay_state :: "'p RelayClientState \<Rightarrow> listen_view \<Rightarrow> listen_view" where
  "apply_relay_state c v0 =
     (let v = v0\<lparr>relayed_listen_addresses := relayed_listen_addrs c, private_relayed_listen_addresses := private_relayed_listen_addrs c\<rparr>
      in if public_addr v = None then v\<lparr>public_addr := (case relayed_listen_addresses v of [] \<Rightarrow> None | a # _ \<Rightarrow> Some a)\<rparr> else v)"

definition local_dial_addresses :: "listen_view \<Rightarrow> string list" where
  "local_dial_addresses v =
     (let public = remdups_adj (sort (public_direct_listen_addresses v @ relayed_listen_addresses v));
          private = remdups_adj (sort (private_relayed_listen_addresses v))
      in public @ filter (\<lambda>addr. addr \<notin> set public) private)"

section \<open>The node's addresses\<close>

text \<open>The client state, the behaviour that queues external addresses, the external addresses the swarm holds, and the
  addresses the node publishes.\<close>

record 'p address_state =
  as_client :: "'p RelayClientState"
  as_candidates :: "'p ExternalAddressCandidates"
  as_external :: "'p multiaddr fset"
  as_view :: listen_view

definition refresh_view :: "'p address_state \<Rightarrow> 'p address_state" where
  "refresh_view n = n\<lparr>as_view := apply_relay_state (as_client n) (as_view n)\<rparr>"

definition confirm_relayed_listen_addr :: "bool \<Rightarrow> 'p ma_ext \<Rightarrow> 'p multiaddr \<Rightarrow> 'p address_state \<Rightarrow> 'p address_state" where
  "confirm_relayed_listen_addr win M address n =
     (if relayed_route_has_public_relay_endpoint address
      then n\<lparr>as_candidates := add_confirmed win address (as_candidates n),
             as_client := (as_client n)\<lparr>relayed_listen_addrs := bset_insert (ma_to_string M address) (relayed_listen_addrs (as_client n))\<rparr>\<rparr>
      else n\<lparr>as_client := (as_client n)\<lparr>private_relayed_listen_addrs := bset_insert (ma_to_string M address) (private_relayed_listen_addrs (as_client n))\<rparr>\<rparr>)"

datatype 'p client_Event = ClientReservationReqAccepted 'p bool | OutboundCircuitEstablished 'p | InboundCircuitEstablished 'p

definition client_handle_event :: "bool \<Rightarrow> 'p ma_ext \<Rightarrow> 'p \<Rightarrow> 'p client_Event \<Rightarrow> 'p address_state \<Rightarrow> 'p address_state" where
  "client_handle_event win M local ev n = refresh_view (case ev of
     ClientReservationReqAccepted relay renewal \<Rightarrow>
       let c = as_client n;
           c = c\<lparr>reservation_attempted := True, relay_client_reservations := finsert relay (relay_client_reservations c),
                 reservation_retries := retries_accepted relay (reservation_retries c)\<rparr>;
           n = fold (confirm_relayed_listen_addr win M) (requested_routes relay local c) (n\<lparr>as_client := c\<rparr>);
           pending = fmlookup (pending_relay_listen_addrs (as_client n)) relay;
           n = n\<lparr>as_client := (as_client n)\<lparr>pending_relay_listen_addrs := fmdrop relay (pending_relay_listen_addrs (as_client n))\<rparr>\<rparr>
       in case pending of
            None \<Rightarrow> n
          | Some addresses \<Rightarrow> fold (\<lambda>address n. case ma_parse M address of None \<Rightarrow> n | Some addr \<Rightarrow> confirm_relayed_listen_addr win M addr n) addresses n
   | _ \<Rightarrow> n)"

definition handle_listener_closed :: "nat \<Rightarrow> string option \<Rightarrow> nat \<Rightarrow> 'p address_state \<Rightarrow> 'p address_state" where
  "handle_listener_closed listener error now n = (case retries_closed listener now (reservation_retries (as_client n)) of
     (None, _) \<Rightarrow> n
   | (Some _, r) \<Rightarrow>
       let c = (as_client n)\<lparr>reservation_retries := r\<rparr>;
           c = (if error \<noteq> None then c\<lparr>relay_client_reservation_failures := sat_add 64 (relay_client_reservation_failures c) 1\<rparr> else c)
       in refresh_view (n\<lparr>as_client := c\<rparr>))"

text \<open>One re-request: the swarm either returns a new listener or an error.\<close>

definition re_request :: "'p multiaddr \<times> nat option \<Rightarrow> 'p RelayClientState \<Rightarrow> 'p RelayClientState" where
  "re_request aa c = (case snd aa of
     Some listener \<Rightarrow> c\<lparr>reservation_retries := retries_track listener (fst aa) (reservation_retries c),
         relay_client_reservation_attempts := sat_add 64 (relay_client_reservation_attempts c) 1\<rparr>
   | None \<Rightarrow> c\<lparr>relay_client_reservation_failures := sat_add 64 (relay_client_reservation_failures c) 1\<rparr>)"

definition retry_due_reservations :: "nat \<Rightarrow> nat option list \<Rightarrow> 'p RelayClientState \<Rightarrow> 'p RelayClientState" where
  "retry_due_reservations now answers c =
     (let (due, r) = take_due now (reservation_retries c)
      in fold re_request (zip due answers) (c\<lparr>reservation_retries := r\<rparr>))"

definition handle_new_listen_addr :: "bool \<Rightarrow> 'p ma_ext \<Rightarrow> 'p multiaddr \<Rightarrow> 'p address_state \<Rightarrow> 'p address_state" where
  "handle_new_listen_addr win M address n =
     (let cls = classify_listen_addr address;
          n = (if cls = PublicDirect then n\<lparr>as_candidates := add_confirmed win address (as_candidates n)\<rparr>
               else if cls = LocalOnly then n\<lparr>as_candidates := add_candidate win address (as_candidates n)\<rparr> else n);
          (confirmed, n) = (if cls = Relayed then
             (case relay_peer_id address of
                None \<Rightarrow> (False, n)
              | Some relay \<Rightarrow>
                  if relay |\<in>| relay_client_reservations (as_client n)
                  then (relayed_route_has_public_relay_endpoint address, confirm_relayed_listen_addr win M address n)
                  else let c = as_client n;
                           known = (case fmlookup (pending_relay_listen_addrs c) relay of None \<Rightarrow> [] | Some as \<Rightarrow> as)
                       in (False, n\<lparr>as_client := c\<lparr>pending_relay_listen_addrs := fmupd relay (bset_insert (ma_to_string M address) known) (pending_relay_listen_addrs c)\<rparr>\<rparr>))
             else (False, n));
          n = (if cls \<noteq> Relayed \<or> confirmed then n\<lparr>as_view := record_listen_addr_snapshot M address cls (as_view n)\<rparr> else n)
      in refresh_view n)"

definition handle_expired_listen_addr :: "'p ma_ext \<Rightarrow> 'p multiaddr \<Rightarrow> 'p address_state \<Rightarrow> 'p address_state" where
  "handle_expired_listen_addr M address n =
     (let cls = classify_listen_addr address;
          n = (if advertise_as_external cls then n\<lparr>as_external := as_external n |-| {|address|}\<rparr> else n);
          c = as_client n; text = ma_to_string M address;
          n = (if cls = Relayed then n\<lparr>as_client := c\<lparr>relayed_listen_addrs := bset_remove text (relayed_listen_addrs c),
                 private_relayed_listen_addrs := bset_remove text (private_relayed_listen_addrs c),
                 pending_relay_listen_addrs := fmretain (\<lambda>_ pending. pending \<noteq> []) (fmmap (bset_remove text) (pending_relay_listen_addrs c))\<rparr>\<rparr>
               else n)
      in n\<lparr>as_view := remove_listen_addr_snapshot M address cls (as_view n)\<rparr>)"

definition poll_candidates :: "'p address_state \<Rightarrow> 'p address_state" where
  "poll_candidates n = (case external_addresses_poll (as_candidates n) of
     (None, s) \<Rightarrow> n\<lparr>as_candidates := s\<rparr> | (Some a, s) \<Rightarrow> n\<lparr>as_candidates := s, as_external := swarm_apply a (as_external n)\<rparr>)"

text \<open>A reservation is requested: the part of \<open>maybe_reserve_dht_relay\<close> after \<open>listen_on\<close> has returned a listener.\<close>

definition request_reservation :: "nat \<Rightarrow> 'p multiaddr \<Rightarrow> 'p RelayClientState \<Rightarrow> 'p RelayClientState" where
  "request_reservation listener addr c0 =
     (let c = note_requested_reservation addr c0
      in c\<lparr>reservation_retries := retries_track listener addr (reservation_retries c),
           relay_client_reservation_attempts := sat_add 64 (relay_client_reservation_attempts c) 1\<rparr>)"

section \<open>Runs\<close>

datatype 'p client_step =
    Requested nat "'p multiaddr"
  | ListenerClosed nat "string option" nat
  | RetryTick nat "nat option list"
  | ClientEvent "'p client_Event"
  | NewListenAddr "'p multiaddr"
  | ExpiredListenAddr "'p multiaddr"
  | PollCandidates

definition client_step :: "bool \<Rightarrow> 'p ma_ext \<Rightarrow> 'p \<Rightarrow> 'p client_step \<Rightarrow> 'p address_state \<Rightarrow> 'p address_state" where
  "client_step win M local st n = (case st of
     Requested listener addr \<Rightarrow> n\<lparr>as_client := request_reservation listener addr (as_client n)\<rparr>
   | ListenerClosed listener error now \<Rightarrow> handle_listener_closed listener error now n
   | RetryTick now answers \<Rightarrow> n\<lparr>as_client := retry_due_reservations now answers (as_client n)\<rparr>
   | ClientEvent ev \<Rightarrow> client_handle_event win M local ev n
   | NewListenAddr addr \<Rightarrow> handle_new_listen_addr win M addr n
   | ExpiredListenAddr addr \<Rightarrow> handle_expired_listen_addr M addr n
   | PollCandidates \<Rightarrow> poll_candidates n)"

primrec client_run :: "bool \<Rightarrow> 'p ma_ext \<Rightarrow> 'p \<Rightarrow> 'p client_step list \<Rightarrow> 'p address_state \<Rightarrow> 'p address_state" where
  "client_run win M local [] n = n"
| "client_run win M local (st # steps) n = client_run win M local steps (client_step win M local st n)"

definition address_state_new :: "'p address_state" where
  "address_state_new = \<lparr>as_client = client_default, as_candidates = external_addresses_new, as_external = {||}, as_view = listen_view_default\<rparr>"

section \<open>No reservation is lost\<close>

abbreviation retries :: "'p address_state \<Rightarrow> 'p ReservationRetries" where
  "retries n \<equiv> reservation_retries (as_client n)"

definition live_listeners :: "'p multiaddr \<Rightarrow> 'p ReservationRetries \<Rightarrow> nat" where
  "live_listeners a r = fmsum (\<lambda>b. if b = a then 1 else 0) (rr_listeners r)"

definition waiting :: "'p multiaddr \<Rightarrow> 'p ReservationRetries \<Rightarrow> nat" where
  "waiting a r = length (filter (\<lambda>(at, b). b = a) (rr_due r))"

definition requests :: "'p multiaddr \<Rightarrow> 'p client_step list \<Rightarrow> nat" where
  "requests a steps = length (filter (\<lambda>st. case st of Requested listener b \<Rightarrow> b = a | _ \<Rightarrow> False) steps)"

text \<open>The swarm returns a new listener for every request.\<close>

definition fresh_listeners :: "nat option list \<Rightarrow> 'p multiaddr list \<Rightarrow> 'p ReservationRetries \<Rightarrow> bool" where
  "fresh_listeners answers due r \<longleftrightarrow> length answers = length due \<and> list_all (\<lambda>x. x \<noteq> None) answers \<and> distinct answers
     \<and> list_all (\<lambda>x. the x |\<notin>| fmdom (rr_listeners r)) answers"

definition granted :: "'p client_step \<Rightarrow> 'p ReservationRetries \<Rightarrow> bool" where
  "granted st r \<longleftrightarrow> (case st of
     Requested listener addr \<Rightarrow> listener |\<notin>| fmdom (rr_listeners r)
   | RetryTick now answers \<Rightarrow> fresh_listeners answers (fst (take_due now r)) r
   | _ \<Rightarrow> True)"

primrec granted_run :: "bool \<Rightarrow> 'p ma_ext \<Rightarrow> 'p \<Rightarrow> 'p client_step list \<Rightarrow> 'p address_state \<Rightarrow> bool" where
  "granted_run win M local [] n \<longleftrightarrow> True"
| "granted_run win M local (st # steps) n \<longleftrightarrow> granted st (retries n) \<and> granted_run win M local steps (client_step win M local st n)"

definition closed_by :: "nat \<Rightarrow> 'p client_step list \<Rightarrow> bool" where
  "closed_by T steps \<longleftrightarrow> list_all (\<lambda>st. case st of ListenerClosed listener error now \<Rightarrow> now \<le> T | _ \<Rightarrow> True) steps"

definition due_by :: "nat \<Rightarrow> 'p ReservationRetries \<Rightarrow> bool" where
  "due_by T r \<longleftrightarrow> list_all (\<lambda>(at, b). at \<le> T + MAX_DELAY) (rr_due r)"

lemma backoff_schedule:
  "retries_closed listener now r = (Some (addr, delay), r') \<Longrightarrow> delay = min (from_secs 5 * 2 ^ closes_of addr r) (from_secs 120)"
proof -
  have "min (from_secs 5 * 2 ^ min k 5) (from_secs 120) = min (from_secs 5 * 2 ^ k) (from_secs 120)" for k
  proof (cases "k \<le> 5")
    case False
    then have "(2::nat) ^ 5 \<le> 2 ^ k" by (intro power_increasing) simp_all
    then show ?thesis by (simp add: from_secs_def min_def)
  qed (simp add: min_absorb1)
  then show "retries_closed listener now r = (Some (addr, delay), r') \<Longrightarrow> delay = min (from_secs 5 * 2 ^ closes_of addr r) (from_secs 120)"
    by (auto simp: retries_closed_def BASE_DELAY_def MAX_DELAY_def Let_def split: option.splits)
qed

text \<open>The address handling does not touch the retries; accepting a reservation only resets the backoff.\<close>

lemma refresh_view_simps [simp]:
  "as_client (refresh_view n) = as_client n" "as_candidates (refresh_view n) = as_candidates n" "as_external (refresh_view n) = as_external n"
  by (simp_all add: refresh_view_def)

lemma confirm_retries [simp]: "retries (confirm_relayed_listen_addr win M a n) = retries n"
  by (simp add: confirm_relayed_listen_addr_def)

lemma fold_confirm_retries [simp]: "retries (fold (confirm_relayed_listen_addr win M) as n) = retries n"
  by (induction as arbitrary: n) simp_all

lemma fold_parsed_retries [simp]:
  "retries (fold (\<lambda>a n. case ma_parse M a of None \<Rightarrow> n | Some addr \<Rightarrow> confirm_relayed_listen_addr win M addr n) as n) = retries n"
  by (induction as arbitrary: n) (simp_all split: option.split)

lemma client_event_retries:
  "retries (client_handle_event win M local ev n) = (case ev of ClientReservationReqAccepted relay renewal \<Rightarrow> retries_accepted relay (retries n) | _ \<Rightarrow> retries n)"
  by (simp add: client_handle_event_def Let_def split: client_Event.split option.split)

lemma listen_addr_retries [simp]:
  "retries (handle_new_listen_addr win M a n) = retries n" "retries (handle_expired_listen_addr M a n) = retries n"
  "retries (poll_candidates n) = retries n"
  by (simp_all add: handle_new_listen_addr_def handle_expired_listen_addr_def poll_candidates_def Let_def split: option.split prod.split)

lemma request_retries [simp]: "reservation_retries (request_reservation l a c) = retries_track l a (reservation_retries c)"
  by (simp add: request_reservation_def note_requested_reservation_def Let_def split: option.split)

lemma listener_closed_retries [simp]:
  "retries (handle_listener_closed l e now n) = snd (retries_closed l now (retries n))"
  by (auto simp: handle_listener_closed_def retries_closed_def Let_def split: option.split)

lemma track_fresh: "l |\<notin>| fmdom (rr_listeners r) \<Longrightarrow> live_listeners a (retries_track l b r) = live_listeners a r + (if b = a then 1 else 0)"
  by (simp add: live_listeners_def retries_track_def fmsum_upd_new fmdom_notD)

lemma re_request_retries:
  "reservation_retries (re_request (b, Some l) c) = retries_track l b (reservation_retries c)"
  by (simp add: re_request_def)

lemma re_requests:
  assumes "fresh_listeners answers due (reservation_retries c)"
  shows "live_listeners a (reservation_retries (fold re_request (zip due answers) c)) = live_listeners a (reservation_retries c) + length (filter (\<lambda>b. b = a) due)
    \<and> rr_due (reservation_retries (fold re_request (zip due answers) c)) = rr_due (reservation_retries c)"
  using assms
proof (induction due arbitrary: answers c)
  case (Cons b due)
  then obtain l answers' where answers: "answers = Some l # answers'" by (auto simp: fresh_listeners_def length_Suc_conv)
  define c1 where "c1 = re_request (b, Some l) c"
  have c1: "reservation_retries c1 = retries_track l b (reservation_retries c)" by (simp add: c1_def re_request_retries)
  have "fresh_listeners answers' due (reservation_retries c1)"
    using Cons.prems unfolding c1 by (fastforce simp: fresh_listeners_def answers retries_track_def list_all_iff)
  moreover have "l |\<notin>| fmdom (rr_listeners (reservation_retries c))" using Cons.prems by (simp add: fresh_listeners_def answers)
  ultimately show ?case using Cons.IH [of answers' c1] by (simp add: answers c1 track_fresh flip: c1_def) (simp add: retries_track_def)
qed simp

lemma filter_pair_partition:
  "length (filter (\<lambda>(at, b). b = a) xs) =
     length (filter (\<lambda>b. b = a) (map snd (filter (\<lambda>(at, _). at \<le> now) xs))) + length (filter (\<lambda>(at, b). b = a) (filter (\<lambda>(at, _). \<not> at \<le> now) xs))"
  by (induction xs) auto

lemma retry_tick_counts:
  assumes "fresh_listeners answers (fst (take_due now (reservation_retries c))) (reservation_retries c)"
  shows "live_listeners a (reservation_retries (retry_due_reservations now answers c)) + waiting a (reservation_retries (retry_due_reservations now answers c))
      = live_listeners a (reservation_retries c) + waiting a (reservation_retries c)"
    and "rr_due (reservation_retries (retry_due_reservations now answers c)) = filter (\<lambda>(at, _). \<not> at \<le> now) (rr_due (reservation_retries c))"
proof -
  define r where "r = reservation_retries c"
  define c1 where "c1 = c\<lparr>reservation_retries := snd (take_due now r)\<rparr>"
  have c1: "reservation_retries c1 = r\<lparr>rr_due := filter (\<lambda>(at, _). \<not> at \<le> now) (rr_due r)\<rparr>" by (simp add: c1_def take_due_def)
  have tick: "retry_due_reservations now answers c = fold re_request (zip (fst (take_due now r)) answers) c1"
    by (simp add: retry_due_reservations_def split_beta c1_def r_def)
  have "fresh_listeners answers (fst (take_due now r)) (reservation_retries c1)" using assms by (simp add: fresh_listeners_def c1 r_def)
  note re = re_requests [OF this, of a]
  show "rr_due (reservation_retries (retry_due_reservations now answers c)) = filter (\<lambda>(at, _). \<not> at \<le> now) (rr_due (reservation_retries c))"
    using re by (simp add: tick c1 flip: r_def)
  show "live_listeners a (reservation_retries (retry_due_reservations now answers c)) + waiting a (reservation_retries (retry_due_reservations now answers c))
      = live_listeners a (reservation_retries c) + waiting a (reservation_retries c)"
    using re filter_pair_partition [of a "rr_due r" now]
    by (simp add: tick c1 waiting_def flip: r_def) (simp add: live_listeners_def take_due_def)
qed

lemma closed_counts: "live_listeners a (snd (retries_closed l now r)) + waiting a (snd (retries_closed l now r)) = live_listeners a r + waiting a r"
proof (cases "fmlookup (rr_listeners r) l")
  case (Some b)
  then show ?thesis
    using fmsum_remove [of "rr_listeners r" l b "\<lambda>b. if b = a then 1 else 0"]
    by (auto simp: retries_closed_def live_listeners_def waiting_def Let_def)
qed (simp add: retries_closed_def)

lemma closed_due: "due_by T r \<Longrightarrow> now \<le> T \<Longrightarrow> due_by T (snd (retries_closed l now r))"
  by (auto simp: due_by_def retries_closed_def Let_def split: option.split)

lemma client_step_counts:
  assumes "granted st (retries n)"
  shows "live_listeners a (retries (client_step win M local st n)) + waiting a (retries (client_step win M local st n))
      = live_listeners a (retries n) + waiting a (retries n) + requests a [st]"
proof (cases st)
  case (Requested l b)
  then show ?thesis using assms by (simp add: client_step_def requests_def granted_def track_fresh) (simp add: waiting_def retries_track_def)
next
  case (RetryTick now answers)
  then show ?thesis using assms retry_tick_counts(1) [of answers now "as_client n" a] by (simp add: client_step_def requests_def granted_def)
qed (simp_all add: client_step_def requests_def closed_counts client_event_retries split: client_Event.split,
     simp add: retries_accepted_def live_listeners_def waiting_def)

lemma client_step_due:
  assumes "granted st (retries n)" and "due_by T (retries n)" and "closed_by T [st]"
  shows "due_by T (retries (client_step win M local st n))"
proof (cases st)
  case (RetryTick now answers)
  then show ?thesis using assms retry_tick_counts(2) [of answers now "as_client n"]
    by (auto simp: client_step_def granted_def due_by_def list_all_iff)
next
  case (Requested l b)
  then show ?thesis using assms(2) by (simp add: client_step_def due_by_def retries_track_def)
next
  case (ListenerClosed l e now)
  then show ?thesis using assms(2,3) by (simp add: client_step_def closed_by_def closed_due)
next
  case (ClientEvent ev)
  then show ?thesis using assms(2) by (simp add: client_step_def client_event_retries split: client_Event.split) (simp add: due_by_def retries_accepted_def)
qed (use assms(2) in \<open>simp_all add: client_step_def\<close>)

lemma client_run_counts:
  "granted_run win M local steps n \<Longrightarrow>
     live_listeners a (retries (client_run win M local steps n)) + waiting a (retries (client_run win M local steps n))
       = live_listeners a (retries n) + waiting a (retries n) + requests a steps"
proof (induction steps arbitrary: n)
  case (Cons st steps)
  have "requests a (st # steps) = requests a [st] + requests a steps" by (simp add: requests_def)
  then show ?case using Cons.IH [of "client_step win M local st n"] client_step_counts [of st n a win M local] Cons.prems by simp
qed (simp add: requests_def)

lemma client_run_due:
  "granted_run win M local steps n \<Longrightarrow> due_by T (retries n) \<Longrightarrow> closed_by T steps \<Longrightarrow> due_by T (retries (client_run win M local steps n))"
proof (induction steps arbitrary: n)
  case (Cons st steps)
  have "closed_by T [st]" "closed_by T steps" using Cons.prems(3) by (simp_all add: closed_by_def)
  then show ?case using Cons.IH [of "client_step win M local st n"] client_step_due [of st n T win M local] Cons.prems by simp
qed simp

text \<open>C22. No reservation is lost or doubled while the swarm grants the requests. After any history of requests,
  closed listeners, retries, client events and address events, each requested address has, counted over its live
  listeners and pending retries together, exactly as many as it was requested times; and the first retry tick two minutes
  or more after the last close puts all of them back on live listeners.\<close>

theorem reservations_retried:
  assumes "granted_run win M local steps address_state_new" and "closed_by T steps" and "T + MAX_DELAY \<le> now"
    and "granted (RetryTick now answers) (retries (client_run win M local steps address_state_new))"
  shows "let n = client_run win M local steps address_state_new; n' = client_step win M local (RetryTick now answers) n in
      (\<forall>a. live_listeners a (retries n) + waiting a (retries n) = requests a steps)
    \<and> rr_due (retries n') = [] \<and> (\<forall>a. live_listeners a (retries n') = requests a steps)"
proof -
  define n where "n = client_run win M local steps address_state_new"
  define n' where "n' = client_step win M local (RetryTick now answers) n"
  have start: "live_listeners a (retries address_state_new) = 0" "waiting a (retries address_state_new) = 0" "due_by T (retries address_state_new)" for a :: "'a multiaddr"
    by (simp_all add: address_state_new_def client_default_def retries_default_def live_listeners_def waiting_def due_by_def)
  have count: "live_listeners a (retries n) + waiting a (retries n) = requests a steps" for a
    using client_run_counts [OF assms(1), of a] by (simp add: n_def start)
  have "due_by T (retries n)" using client_run_due [OF assms(1) start(3) assms(2)] by (simp add: n_def)
  then have none: "rr_due (retries n') = []"
    using assms(3,4) retry_tick_counts(2) [of answers now "as_client n"]
    by (auto simp: n'_def client_step_def granted_def due_by_def list_all_iff filter_empty_conv simp flip: n_def)
  then have "live_listeners a (retries n') = requests a steps" for a
    using client_step_counts [OF assms(4) [folded n_def], of a win M local] count [of a] by (simp add: waiting_def requests_def flip: n'_def)
  with count none show ?thesis by (simp add: Let_def flip: n_def n'_def)
qed

text \<open>A re-request the swarm refuses is gone: nothing schedules it again.\<close>

lemma refused_request_dropped:
  assumes "rr_due r = [(at, b)]" and "at \<le> now" and "rr_listeners r = fmempty" and "reservation_retries c = r"
  shows "live_listeners b (reservation_retries (retry_due_reservations now [None] c)) = 0
    \<and> waiting b (reservation_retries (retry_due_reservations now [None] c)) = 0"
  using assms by (simp add: retry_due_reservations_def take_due_def re_request_def live_listeners_def waiting_def)

text \<open>A relay stays in the set of reservations whatever happens to its reservation.\<close>

lemma confirm_reservations [simp]:
  "relay_client_reservations (as_client (confirm_relayed_listen_addr win M a n)) = relay_client_reservations (as_client n)"
  by (simp add: confirm_relayed_listen_addr_def)

lemma fold_confirm_reservations [simp]:
  "relay_client_reservations (as_client (fold (confirm_relayed_listen_addr win M) as n)) = relay_client_reservations (as_client n)"
  by (induction as arbitrary: n) simp_all

lemma fold_parsed_reservations [simp]:
  "relay_client_reservations (as_client (fold (\<lambda>a n. case ma_parse M a of None \<Rightarrow> n | Some addr \<Rightarrow> confirm_relayed_listen_addr win M addr n) as n))
    = relay_client_reservations (as_client n)"
  by (induction as arbitrary: n) (simp_all split: option.split)

lemma re_request_reservations [simp]: "relay_client_reservations (fold re_request xs c) = relay_client_reservations c"
  by (induction xs arbitrary: c) (simp_all add: re_request_def split: option.split)

lemma reservation_never_dropped:
  assumes "relay |\<in>| relay_client_reservations (as_client n)"
  shows "relay |\<in>| relay_client_reservations (as_client (client_step win M local st n))"
  using assms
  by (cases st) (auto simp: client_step_def request_reservation_def note_requested_reservation_def handle_listener_closed_def
      retry_due_reservations_def client_handle_event_def handle_new_listen_addr_def handle_expired_listen_addr_def poll_candidates_def
      split_beta Let_def split: option.splits client_Event.splits)

section \<open>No private address is announced\<close>

definition announceable :: "'p multiaddr \<Rightarrow> bool" where
  "announceable a \<longleftrightarrow> is_public_direct_addr a \<or> relayed_route_has_public_relay_endpoint a"

definition announces_only :: "'p address_state \<Rightarrow> bool" where
  "announces_only n \<longleftrightarrow> (\<forall>a. a |\<in>| as_external n \<longrightarrow> announceable a)
     \<and> list_all (\<lambda>x. case x of Confirm a \<Rightarrow> announceable a | _ \<Rightarrow> True) (ea_pending (as_candidates n))"

lemma add_candidate_announces: "announces_only (n\<lparr>as_candidates := add_candidate win a (as_candidates n)\<rparr>) = announces_only n"
  by (auto simp: announces_only_def add_candidate_def split_beta Let_def)

lemma add_confirmed_announces:
  assumes "announces_only n" and "announceable a"
  shows "announces_only (n\<lparr>as_candidates := add_confirmed win a (as_candidates n)\<rparr>)"
proof -
  define s where "s = add_candidate win a (as_candidates n)"
  have "list_all (\<lambda>x. case x of Confirm a \<Rightarrow> announceable a | _ \<Rightarrow> True) (ea_pending s)"
    using assms(1) add_candidate_announces [where n = n and win = win and a = a] by (simp add: announces_only_def s_def)
  then show ?thesis using assms by (auto simp: announces_only_def add_confirmed_def split_beta Let_def split: option.split simp flip: s_def)
qed

lemma announces_only_client [simp]:
  "announces_only (n\<lparr>as_client := c\<rparr>) = announces_only n" "announces_only (n\<lparr>as_view := v\<rparr>) = announces_only n"
  "announces_only (refresh_view n) = announces_only n"
  by (simp_all add: announces_only_def)

lemma confirm_announces: "announces_only n \<Longrightarrow> announces_only (confirm_relayed_listen_addr win M a n)"
  using add_confirmed_announces [of n a win] by (simp add: confirm_relayed_listen_addr_def announceable_def announces_only_def)

lemma fold_announces: "(\<And>x n. announces_only n \<Longrightarrow> announces_only (f x n)) \<Longrightarrow> announces_only n \<Longrightarrow> announces_only (fold f xs n)"
  by (induction xs arbitrary: n) simp_all

lemma client_event_announces: "announces_only n \<Longrightarrow> announces_only (client_handle_event win M local ev n)"
  by (auto simp: client_handle_event_def Let_def split: client_Event.split option.split intro!: fold_announces confirm_announces)

lemma new_listen_addr_announces: "announces_only n \<Longrightarrow> announces_only (handle_new_listen_addr win M a n)"
proof -
  assume n: "announces_only n"
  have "classify_listen_addr a = PublicDirect \<Longrightarrow> announceable a" by (simp add: classify_listen_addr_def announceable_def split: if_splits)
  then show ?thesis using n
    by (auto simp: handle_new_listen_addr_def Let_def add_candidate_announces add_confirmed_announces confirm_announces split: option.split)
qed

lemma expired_announces: "announces_only n \<Longrightarrow> announces_only (handle_expired_listen_addr M a n)"
  by (auto simp: handle_expired_listen_addr_def announces_only_def Let_def)

lemma poll_announces: "announces_only n \<Longrightarrow> announces_only (poll_candidates n)"
  by (cases "ea_pending (as_candidates n)")
    (auto simp: poll_candidates_def external_addresses_poll_def announces_only_def split: ExternalAddressAction.splits)

lemma listener_closed_announces: "announces_only n \<Longrightarrow> announces_only (handle_listener_closed l e now n)"
  by (simp add: handle_listener_closed_def Let_def split: prod.split option.split)

lemma client_step_announces: "announces_only n \<Longrightarrow> announces_only (client_step win M local st n)"
  by (cases st) (simp_all add: client_step_def client_event_announces new_listen_addr_announces expired_announces poll_announces
      listener_closed_announces)


text \<open>A circuit address through a private relay that expires is still published as one to dial: the handler of the expiry
  removes it from the client state, but not from the addresses the node publishes.\<close>

lemma expired_private_address_published:
  assumes "ma_to_string M a \<in> set (private_relayed_listen_addresses (as_view n))"
  shows "ma_to_string M a \<in> set (local_dial_addresses (as_view (handle_expired_listen_addr M a n)))"
  using assms by (auto simp: handle_expired_listen_addr_def remove_listen_addr_snapshot_def local_dial_addresses_def Let_def split: ListenAddrClass.split)

section \<open>An expired address is not announced again\<close>

lemma poll_known:
  assumes "a |\<notin>| as_external n" and "Confirm a \<notin> set (ea_pending (as_candidates n))"
  shows "a |\<notin>| as_external (poll_candidates n) \<and> Confirm a \<notin> set (ea_pending (as_candidates (poll_candidates n)))"
  using assms by (cases "ea_pending (as_candidates n)")
    (auto simp: poll_candidates_def external_addresses_poll_def split: ExternalAddressAction.splits, case_tac aa, auto)

lemma polls_known:
  assumes "a |\<notin>| as_external n" and "Confirm a \<notin> set (ea_pending (as_candidates n))"
  shows "a |\<notin>| as_external ((poll_candidates ^^ k) n)"
proof -
  have "a |\<notin>| as_external ((poll_candidates ^^ k) n) \<and> Confirm a \<notin> set (ea_pending (as_candidates ((poll_candidates ^^ k) n)))"
    using assms by (induction k) (simp_all add: poll_known)
  then show ?thesis ..
qed

lemma known_not_confirmed:
  assumes "a |\<in>| confirmed_seen s" and "Confirm a \<notin> set (ea_pending s)"
  shows "Confirm a \<notin> set (ea_pending (add_confirmed win a s))"
  using assms by (simp add: add_confirmed_def remember_bounded_def add_candidate_def split_beta Let_def)

text \<open>An external address that expires is not announced again. If a public listen address, or a circuit address of
  an accepted reservation, expires and then comes back, the swarm drops it from the external addresses on expiry, but
  the memory of confirmed addresses still has it, so its return confirms nothing: however often the swarm polls, the
  address is not among the external addresses.\<close>

theorem expired_address_lost:
  assumes "a |\<in>| confirmed_seen (as_candidates n)" and "ea_pending (as_candidates n) = []" and "advertise_as_external (classify_listen_addr a)"
  shows "a |\<notin>| as_external ((poll_candidates ^^ k) (handle_new_listen_addr win M a (handle_expired_listen_addr M a n)))"
proof -
  define n1 where "n1 = handle_expired_listen_addr M a n"
  have n1: "a |\<notin>| as_external n1" "as_candidates n1 = as_candidates n"
    using assms(3) by (auto simp: n1_def handle_expired_listen_addr_def advertise_as_external_def Let_def)
  define n2 where "n2 = handle_new_listen_addr win M a n1"
  have "as_external n2 = as_external n1"
    by (simp add: n2_def handle_new_listen_addr_def confirm_relayed_listen_addr_def Let_def split: option.split)
  moreover have "Confirm a \<notin> set (ea_pending (as_candidates n2))"
    using known_not_confirmed [of a "as_candidates n" win] assms n1(2)
    by (auto simp: n2_def handle_new_listen_addr_def confirm_relayed_listen_addr_def advertise_as_external_def Let_def split: option.split)
  ultimately show ?thesis using n1(1) polls_known [of a n2 k] by (simp add: n1_def n2_def)
qed

section \<open>Concrete histories\<close>

definition demo_reservation :: "u8 multiaddr" where
  "demo_reservation = [Ip4 (Ipv4 8 8 8 8), Tcp 80, P2p 5, P2pCircuit]"

definition demo_client_steps :: "u8 client_step list" where
  "demo_client_steps = [Requested 1 demo_reservation, ListenerClosed 1 None 10]"

definition demo_client_ma :: "u8 ma_ext" where
  "demo_client_ma = \<lparr>ma_to_string = (\<lambda>a. ''address''), ma_parse = (\<lambda>s. None)\<rparr>"

lemmas client_eval = demo_client_steps_def client_step_def address_state_new_def client_default_def retries_default_def
  request_reservation_def note_requested_reservation_def retries_track_def handle_listener_closed_def retries_closed_def
  closes_of_def take_due_def fmdrop_fmupd Let_def

theorem reservations_retried_witness:
  "let n = client_run False demo_client_ma 9 demo_client_steps address_state_new;
       n' = client_step False demo_client_ma 9 (RetryTick (from_secs 121) [Some 2]) n in
     live_listeners demo_reservation (retries n) = 0 \<and> live_listeners demo_reservation (retries n') = 1"
proof -
  have "relay_peer_id demo_reservation = Some 5" by (simp add: demo_reservation_def)
  then have run: "granted_run False demo_client_ma 9 demo_client_steps address_state_new"
      "granted (RetryTick (from_secs 121) [Some 2]) (retries (client_run False demo_client_ma 9 demo_client_steps address_state_new))"
      "live_listeners demo_reservation (retries (client_run False demo_client_ma 9 demo_client_steps address_state_new)) = 0"
    by (simp_all add: client_eval granted_def fresh_listeners_def live_listeners_def)
      (simp_all add: BASE_DELAY_def MAX_DELAY_def from_secs_def)
  have "closed_by 10 demo_client_steps" "10 + MAX_DELAY \<le> from_secs 121" "requests demo_reservation demo_client_steps = 1"
    by (simp_all add: closed_by_def demo_client_steps_def MAX_DELAY_def from_secs_def requests_def)
  from reservations_retried [OF run(1) this(1,2) run(2)] run(3) this(3) show ?thesis by (simp add: Let_def)
qed

definition demo_listen :: "u8 multiaddr" where
  "demo_listen = [Ip4 (Ipv4 8 8 8 8), Tcp 80]"

lemma demo_listen_public: "is_public_direct_addr demo_listen" "classify_listen_addr demo_listen = PublicDirect"
  by (simp_all add: demo_listen_def is_public_direct_addr_def classify_listen_addr_def is_p2p_circuit_addr_def)

definition demo_announced :: "u8 address_state" where
  "demo_announced = client_run False demo_client_ma 9 [NewListenAddr demo_listen, PollCandidates, PollCandidates] address_state_new"

lemma demo_announced_state:
  "as_external demo_announced = {|demo_listen|}" "confirmed_seen (as_candidates demo_announced) = {|demo_listen|}" "ea_pending (as_candidates demo_announced) = []"
proof -
  have "remember_bounded {||} [] demo_listen MAX_EXTERNAL_ADDRESS_CACHE = (Some demo_listen, {|demo_listen|}, [demo_listen])"
    by (subst remember_bounded_eq) (simp_all add: memory_ok_def MAX_EXTERNAL_ADDRESS_CACHE_def)
  then show "as_external demo_announced = {|demo_listen|}" "confirmed_seen (as_candidates demo_announced) = {|demo_listen|}" "ea_pending (as_candidates demo_announced) = []"
    by (simp_all add: demo_announced_def client_step_def handle_new_listen_addr_def demo_listen_public address_state_new_def add_confirmed_def
        add_candidate_def supports_dcutr_port_reuse_def external_addresses_new_def poll_candidates_def external_addresses_poll_def Let_def)
qed


theorem expired_address_lost_witness:
  "demo_listen |\<in>| as_external demo_announced \<and>
   demo_listen |\<notin>| as_external ((poll_candidates ^^ 5) (handle_new_listen_addr False demo_client_ma demo_listen (handle_expired_listen_addr demo_client_ma demo_listen demo_announced)))"
  using expired_address_lost [of demo_listen demo_announced 5 False demo_client_ma]
  by (simp add: demo_announced_state demo_listen_public advertise_as_external_def)

end
