(* ===== verification/Direct_Upgrade.thy ===== *)
theory Direct_Upgrade
  imports Multiaddr
begin

text \<open>
  Moving a peer's traffic from a relayed to a direct connection: \<open>connectivity/direct_upgrade.rs\<close> and
  \<open>node/events/direct_upgrade.rs\<close>. The log lines are left out; closing connections
  is the list of connections the handler asks the swarm to close. The contract is a history of the connections
  themselves: which are open, to whom, and of what kind.
\<close>

section \<open>State\<close>

record 'p DirectUpgradeState =
  du_relayed :: "('p, nat list) fmap"
  pending_direct :: "('p, nat) fmap"
  upgrades_succeeded :: nat
  upgrades_failed :: nat
  paths_migrated :: nat

definition direct_upgrade_default :: "'p DirectUpgradeState" where
  "direct_upgrade_default = \<lparr>du_relayed = fmempty, pending_direct = fmempty, upgrades_succeeded = 0, upgrades_failed = 0, paths_migrated = 0\<rparr>"

definition relayed_to :: "'p \<Rightarrow> 'p DirectUpgradeState \<Rightarrow> nat list" where
  "relayed_to peer s = (case fmlookup (du_relayed s) peer of None \<Rightarrow> [] | Some cs \<Rightarrow> cs)"

definition relayed_established :: "'p \<Rightarrow> nat \<Rightarrow> 'p DirectUpgradeState \<Rightarrow> 'p DirectUpgradeState" where
  "relayed_established peer connection s =
     (let connections = relayed_to peer s
      in s\<lparr>du_relayed := fmupd peer (if connection \<in> set connections then connections else connections @ [connection]) (du_relayed s)\<rparr>)"

definition direct_established :: "'p \<Rightarrow> nat \<Rightarrow> 'p DirectUpgradeState \<Rightarrow> 'p DirectUpgradeState" where
  "direct_established peer connection s = s\<lparr>pending_direct := fmupd peer connection (pending_direct s)\<rparr>"

definition take_relayed :: "'p \<Rightarrow> 'p DirectUpgradeState \<Rightarrow> nat list \<times> 'p DirectUpgradeState" where
  "take_relayed peer s = (relayed_to peer s, s\<lparr>du_relayed := fmdrop peer (du_relayed s)\<rparr>)"

definition confirm_direct :: "'p \<Rightarrow> nat \<Rightarrow> 'p DirectUpgradeState \<Rightarrow> nat list option \<times> 'p DirectUpgradeState" where
  "confirm_direct peer connection s =
     (if fmlookup (pending_direct s) peer \<noteq> Some connection then (None, s)
      else let (replaced, s) = take_relayed peer (s\<lparr>pending_direct := fmdrop peer (pending_direct s)\<rparr>) in (Some replaced, s))"

definition upgrade_connection_closed :: "'p \<Rightarrow> nat \<Rightarrow> 'p DirectUpgradeState \<Rightarrow> 'p DirectUpgradeState" where
  "upgrade_connection_closed peer connection s0 =
     (let s = (if fmlookup (pending_direct s0) peer = Some connection then s0\<lparr>pending_direct := fmdrop peer (pending_direct s0)\<rparr> else s0)
      in case fmlookup (du_relayed s) peer of
           None \<Rightarrow> s
         | Some connections \<Rightarrow>
             let kept = filter (\<lambda>existing. existing \<noteq> connection) connections
             in s\<lparr>du_relayed := (if kept = [] then fmdrop peer (du_relayed s) else fmupd peer kept (du_relayed s))\<rparr>)"

definition has_relayed :: "'p \<Rightarrow> 'p DirectUpgradeState \<Rightarrow> bool" where
  "has_relayed peer s \<longleftrightarrow> fmlookup (du_relayed s) peer \<noteq> None"

record DirectUpgradeSnapshot =
  ds_upgrades_succeeded :: nat
  ds_upgrades_failed :: nat
  ds_paths_migrated :: nat
  ds_relayed_peers :: nat

definition direct_upgrade_snapshot :: "'p DirectUpgradeState \<Rightarrow> DirectUpgradeSnapshot" where
  "direct_upgrade_snapshot s = \<lparr>ds_upgrades_succeeded = upgrades_succeeded s, ds_upgrades_failed = upgrades_failed s,
     ds_paths_migrated = paths_migrated s, ds_relayed_peers = fmsize (du_relayed s)\<rparr>"

section \<open>Events\<close>

definition upgrade_on_established :: "'p \<Rightarrow> nat \<Rightarrow> 'p multiaddr \<Rightarrow> bool \<Rightarrow> 'p DirectUpgradeState \<Rightarrow> 'p DirectUpgradeState" where
  "upgrade_on_established peer connection remote_addr relayed s =
     (if relayed then relayed_established peer connection s
      else if is_direct_browser_webrtc remote_addr
      then (let s = direct_established peer connection s in s\<lparr>upgrades_succeeded := sat_add 64 (upgrades_succeeded s) 1\<rparr>)
      else s)"

definition on_identify_received :: "'p \<Rightarrow> nat \<Rightarrow> 'p DirectUpgradeState \<Rightarrow> nat list \<times> 'p DirectUpgradeState" where
  "on_identify_received peer connection s = (case confirm_direct peer connection s of
     (None, s) \<Rightarrow> ([], s)
   | (Some replaced, s) \<Rightarrow> (replaced, if replaced \<noteq> [] then s\<lparr>paths_migrated := sat_add 64 (paths_migrated s) 1\<rparr> else s))"

text \<open>Of the signaling events only the failure changes the state; it answers whether the relayed path stays as the fallback.\<close>

definition on_signaling_error :: "'p \<Rightarrow> 'p DirectUpgradeState \<Rightarrow> bool \<times> 'p DirectUpgradeState" where
  "on_signaling_error peer s = (has_relayed peer s, s\<lparr>upgrades_failed := sat_add 64 (upgrades_failed s) 1\<rparr>)"

section \<open>The history of the connections\<close>

datatype path_kind = RelayedPath | DirectPath | OtherPath

datatype 'p path_event = PathOpened 'p nat "'p multiaddr" bool | PathIdentified 'p nat | PathClosed 'p nat | SignalingFailed 'p

definition path_kind_of :: "'p multiaddr \<Rightarrow> bool \<Rightarrow> path_kind" where
  "path_kind_of addr relayed = (if relayed then RelayedPath else if is_direct_browser_webrtc addr then DirectPath else OtherPath)"

record 'p path_history =
  ph_open :: "(nat, 'p \<times> path_kind) fmap"
  ph_retired :: "nat fset"
  ph_used :: "nat fset"

definition path_step :: "'p path_event \<Rightarrow> 'p DirectUpgradeState \<times> 'p path_history \<Rightarrow> 'p DirectUpgradeState \<times> 'p path_history" where
  "path_step e sh = (let (s, h) = sh in case e of
     PathOpened p c addr relayed \<Rightarrow> (upgrade_on_established p c addr relayed s,
        h\<lparr>ph_open := fmupd c (p, path_kind_of addr relayed) (ph_open h), ph_used := finsert c (ph_used h)\<rparr>)
   | PathIdentified p c \<Rightarrow> (let (closed, s) = on_identify_received p c s in (s, h\<lparr>ph_retired := ph_retired h |\<union>| fset_of_list closed\<rparr>))
   | PathClosed p c \<Rightarrow> (upgrade_connection_closed p c s, h\<lparr>ph_open := fmdrop c (ph_open h)\<rparr>)
   | SignalingFailed p \<Rightarrow> (snd (on_signaling_error p s), h))"

text \<open>What the swarm guarantees: connection identifiers are never reused, and only an open connection closes or identifies.\<close>

definition path_event_ok :: "'p path_event \<Rightarrow> 'p path_history \<Rightarrow> bool" where
  "path_event_ok e h \<longleftrightarrow> (case e of
     PathOpened p c addr relayed \<Rightarrow> c |\<notin>| ph_used h
   | PathIdentified p c \<Rightarrow> map_option fst (fmlookup (ph_open h) c) = Some p
   | PathClosed p c \<Rightarrow> map_option fst (fmlookup (ph_open h) c) = Some p
   | SignalingFailed p \<Rightarrow> True)"

inductive path_reachable :: "'p DirectUpgradeState \<times> 'p path_history \<Rightarrow> bool" where
  path_start: "path_reachable (direct_upgrade_default, \<lparr>ph_open = fmempty, ph_retired = {||}, ph_used = {||}\<rparr>)"
| path_next: "path_reachable sh \<Longrightarrow> path_event_ok e (snd sh) \<Longrightarrow> path_reachable (path_step e sh)"

inductive_cases path_reachableE: "path_reachable sh"

text \<open>The relayed connections on record are the open relayed ones that no migration has retired, and a pending direct
  connection is open.\<close>

definition path_inv :: "'p DirectUpgradeState \<times> 'p path_history \<Rightarrow> bool" where
  "path_inv sh \<longleftrightarrow> (let (s, h) = sh in
     (\<forall>p c. c \<in> set (relayed_to p s) \<longleftrightarrow> fmlookup (ph_open h) c = Some (p, RelayedPath) \<and> c |\<notin>| ph_retired h)
   \<and> (\<forall>p. distinct (relayed_to p s)) \<and> (\<forall>p. fmlookup (du_relayed s) p \<noteq> Some [])
   \<and> (\<forall>p c. fmlookup (pending_direct s) p = Some c \<longrightarrow> fmlookup (ph_open h) c = Some (p, DirectPath))
   \<and> fmdom (ph_open h) |\<subseteq>| ph_used h \<and> ph_retired h |\<subseteq>| ph_used h)"

lemma relayed_to_upd [simp]:
  "relayed_to p (s\<lparr>du_relayed := fmupd q cs m\<rparr>) = (if p = q then cs else relayed_to p (s\<lparr>du_relayed := m\<rparr>))"
  "relayed_to p (s\<lparr>du_relayed := fmdrop q m\<rparr>) = (if p = q then [] else relayed_to p (s\<lparr>du_relayed := m\<rparr>))"
  "relayed_to p (s\<lparr>pending_direct := d\<rparr>) = relayed_to p s" "relayed_to p (s\<lparr>upgrades_succeeded := n\<rparr>) = relayed_to p s"
  "relayed_to p (s\<lparr>upgrades_failed := n\<rparr>) = relayed_to p s" "relayed_to p (s\<lparr>paths_migrated := n\<rparr>) = relayed_to p s"
  by (simp_all add: relayed_to_def)

lemma relayed_to_same [simp]: "relayed_to p (s\<lparr>du_relayed := du_relayed s\<rparr>) = relayed_to p s"
  by (simp add: relayed_to_def)

lemma opened_inv:
  assumes "path_inv (s, h)" and "c |\<notin>| ph_used h"
  shows "path_inv (path_step (PathOpened p c addr relayed) (s, h))"
proof -
  have "fmlookup (ph_open h) c = None" using assms by (auto simp: path_inv_def intro!: fmdom_notD)
  moreover have "c |\<notin>| ph_retired h" using assms by (auto simp: path_inv_def)
  moreover have "c \<notin> set (relayed_to q s)" "fmlookup (pending_direct s) q \<noteq> Some c" for q
    using assms(1) calculation by (auto simp: path_inv_def)
  ultimately have fresh: "fmlookup (ph_open h) c = None" "c |\<notin>| ph_retired h" "\<And>q. c \<notin> set (relayed_to q s)" "\<And>q. fmlookup (pending_direct s) q \<noteq> Some c"
    by blast+
  then show ?thesis using assms(1)
    by (auto simp: path_inv_def path_step_def upgrade_on_established_def relayed_established_def direct_established_def path_kind_of_def Let_def)
qed

lemma closed_inv:
  assumes "path_inv (s, h)" and "map_option fst (fmlookup (ph_open h) c) = Some p"
  shows "path_inv (path_step (PathClosed p c) (s, h))"
proof -
  have other: "c \<notin> set (relayed_to q s)" "fmlookup (pending_direct s) q \<noteq> Some c" if "q \<noteq> p" for q
    using assms that by (auto simp: path_inv_def)
  define s1 where "s1 = upgrade_connection_closed p c s"
  have relayed: "relayed_to q s1 = filter (\<lambda>d. d \<noteq> c) (relayed_to q s)" for q
  proof (cases "q = p")
    case True
    then show ?thesis
      by (auto simp: s1_def upgrade_connection_closed_def relayed_to_def Let_def filter_empty_conv split: option.split)
  next
    case False
    then have "filter (\<lambda>d. d \<noteq> c) (relayed_to q s) = relayed_to q s" using other(1) by (auto simp: filter_id_conv)
    moreover have "relayed_to q s1 = relayed_to q s" using False
      by (auto simp: s1_def upgrade_connection_closed_def Let_def relayed_to_def split: option.split)
    ultimately show ?thesis by simp
  qed
  moreover have "fmlookup (du_relayed s1) q \<noteq> Some []" for q
    using assms(1) by (auto simp: s1_def path_inv_def upgrade_connection_closed_def Let_def split: option.split)
  moreover have "fmlookup (pending_direct s1) q = Some d \<longleftrightarrow> fmlookup (pending_direct s) q = Some d \<and> d \<noteq> c" for q d
    using other(2) [of q] by (auto simp: s1_def upgrade_connection_closed_def Let_def split: option.split)
  ultimately show ?thesis using assms(1) by (auto simp: path_step_def path_inv_def simp flip: s1_def)
qed

lemma identified_inv:
  assumes "path_inv (s, h)"
  shows "path_inv (path_step (PathIdentified p c) (s, h))"
proof (cases "fmlookup (pending_direct s) p = Some c")
  case True
  have "d |\<in>| ph_used h" if "d \<in> set (relayed_to p s)" for d using assms that fmdomI [of "ph_open h" d] by (auto simp: path_inv_def)
  with True show ?thesis using assms
    by (auto simp: path_inv_def path_step_def on_identify_received_def confirm_direct_def take_relayed_def Let_def fset_of_list_elem)
next
  case False
  then show ?thesis using assms by (simp add: path_step_def on_identify_received_def confirm_direct_def)
qed

lemma path_reachable_inv: "path_reachable sh \<Longrightarrow> path_inv sh"
proof (induction rule: path_reachable.induct)
  case path_start
  show ?case by (simp add: path_inv_def direct_upgrade_default_def relayed_to_def)
next
  case (path_next sh e)
  obtain s h where sh: "sh = (s, h)" by fastforce
  show ?case
  proof (cases e)
    case (PathOpened p c addr relayed)
    then show ?thesis using path_next opened_inv [of s h c p addr relayed] by (simp add: sh path_event_ok_def)
  next
    case (PathIdentified p c)
    then show ?thesis using path_next identified_inv [of s h p c] by (simp add: sh)
  next
    case (PathClosed p c)
    then show ?thesis using path_next closed_inv [of s h c p] by (simp add: sh path_event_ok_def)
  next
    case (SignalingFailed p)
    then show ?thesis using path_next by (simp add: sh path_step_def on_signaling_error_def path_inv_def)
  qed
qed

text \<open>C24. A migration never cuts a peer off. In every state the node reaches, when identify arrives over a connection,
  the connections the node asks to close are either none, or exactly the open relayed connections to that peer that no
  earlier migration retired; and they are only closed if the identify came over an open direct connection to that peer,
  which is not among them. Connections to other peers are never closed, and a failed upgrade keeps the relayed path.\<close>

theorem migration_keeps_peer_connected:
  assumes "path_reachable (s, h)" and "on_identify_received p c s = (replaced, s')"
  shows "(replaced \<noteq> [] \<longrightarrow> fmlookup (ph_open h) c = Some (p, DirectPath)
        \<and> set replaced = {d. fmlookup (ph_open h) d = Some (p, RelayedPath) \<and> d |\<notin>| ph_retired h} \<and> c \<notin> set replaced)
    \<and> distinct replaced \<and> (\<forall>q d. q \<noteq> p \<longrightarrow> fmlookup (ph_open h) d = Some (q, k) \<longrightarrow> d \<notin> set replaced)
    \<and> (\<forall>q. relayed_to q (snd (on_signaling_error p s)) = relayed_to q s)
    \<and> (fst (on_signaling_error p s) \<longleftrightarrow> (\<exists>d. fmlookup (ph_open h) d = Some (p, RelayedPath) \<and> d |\<notin>| ph_retired h))"
proof -
  have inv: "path_inv (s, h)" using assms(1) by (rule path_reachable_inv)
  then have relayed: "\<And>q d. d \<in> set (relayed_to q s) \<longleftrightarrow> fmlookup (ph_open h) d = Some (q, RelayedPath) \<and> d |\<notin>| ph_retired h"
      and pending: "fmlookup (pending_direct s) p = Some c \<Longrightarrow> fmlookup (ph_open h) c = Some (p, DirectPath)"
      and dist: "distinct (relayed_to p s)" and nonempty: "fmlookup (du_relayed s) p \<noteq> Some []"
    by (simp_all add: path_inv_def)
  have replaced: "replaced = (if fmlookup (pending_direct s) p = Some c then relayed_to p s else [])"
    using assms(2) by (auto simp: on_identify_received_def confirm_direct_def take_relayed_def)
  have "has_relayed p s \<longleftrightarrow> relayed_to p s \<noteq> []" using nonempty by (auto simp: has_relayed_def relayed_to_def split: option.splits)
  also have "\<dots> \<longleftrightarrow> (\<exists>d. d \<in> set (relayed_to p s))" by (cases "relayed_to p s") auto
  finally show ?thesis using relayed pending dist by (auto simp: replaced on_signaling_error_def)
qed

definition demo_path :: "nat DirectUpgradeState \<times> nat path_history" where
  "demo_path = path_step (PathOpened 5 2 [WebRTC] False) (path_step (PathOpened 5 1 [P2pCircuit] True)
     (direct_upgrade_default, \<lparr>ph_open = fmempty, ph_retired = {||}, ph_used = {||}\<rparr>))"

theorem migration_keeps_peer_connected_witness:
  "fst (on_identify_received 5 2 (fst demo_path)) = [1] \<and> fmlookup (ph_open (snd demo_path)) 2 = Some (5, DirectPath)"
proof -
  have "path_reachable demo_path" unfolding demo_path_def
    by (intro path_next path_start) (simp_all add: path_event_ok_def path_step_def)
  then have reach: "path_reachable (fst demo_path, snd demo_path)" by simp
  obtain s' where id: "on_identify_received 5 2 (fst demo_path) = ([1], s')"
    by (simp add: demo_path_def path_step_def upgrade_on_established_def relayed_established_def direct_established_def is_direct_browser_webrtc_def
        on_identify_received_def confirm_direct_def take_relayed_def direct_upgrade_default_def relayed_to_def Let_def)
  from migration_keeps_peer_connected [OF reach id] id show ?thesis by simp
qed

end
