(* ===== verification/Dial.thy ===== *)
theory Dial
  imports Bounded_Memory Connection_Strategy
begin

text \<open>
  Dialling peers: \<open>node/dial.rs\<close>. The swarm is a parameter: which peers it is connected to, and what it answers when an
  address or a peer is dialled (an error text, or none). The description of a plan, which only goes into messages, is a
  parameter as well.
\<close>

section \<open>Statistics of automatic dialling\<close>

definition MAX_AUTO_DIAL_AWAITING_PEERS :: nat where "MAX_AUTO_DIAL_AWAITING_PEERS = 2048"

record 'p AutoDialStats =
  dial_attempts :: nat
  dial_failures :: nat
  awaiting_address_peers :: "'p fset"
  awaiting_address_order :: "'p list"
  suppressed_peers :: "'p fset"
  suppressed_order :: "'p list"

definition auto_dial_stats_default :: "'p AutoDialStats" where
  "auto_dial_stats_default = \<lparr>dial_attempts = 0, dial_failures = 0, awaiting_address_peers = {||}, awaiting_address_order = [],
     suppressed_peers = {||}, suppressed_order = []\<rparr>"

datatype AutoDialOutcome = OutcomeDisabled | LocalPeer | AlreadyConnected | AlreadyPending | AwaitingAddress
  | AddressResolutionStarted string | DialStarted string | DialFailed string

definition remove_awaiting :: "'p \<Rightarrow> 'p AutoDialStats \<Rightarrow> 'p AutoDialStats" where
  "remove_awaiting peer s = (let (removed, seen, order) = remove_peer_from_bounded_set peer (awaiting_address_peers s) (awaiting_address_order s)
     in s\<lparr>awaiting_address_peers := seen, awaiting_address_order := order\<rparr>)"

definition remove_suppressed :: "'p \<Rightarrow> 'p AutoDialStats \<Rightarrow> 'p AutoDialStats" where
  "remove_suppressed peer s = (let (removed, seen, order) = remove_peer_from_bounded_set peer (suppressed_peers s) (suppressed_order s)
     in s\<lparr>suppressed_peers := seen, suppressed_order := order\<rparr>)"

definition mark_awaiting_address :: "'p \<Rightarrow> 'p AutoDialStats \<Rightarrow> 'p AutoDialStats" where
  "mark_awaiting_address peer s = (let (seen, order) = insert_pruned MAX_AUTO_DIAL_AWAITING_PEERS peer (awaiting_address_peers s) (awaiting_address_order s)
     in s\<lparr>awaiting_address_peers := seen, awaiting_address_order := order\<rparr>)"

definition suppress_peer :: "'p \<Rightarrow> 'p AutoDialStats \<Rightarrow> 'p AutoDialStats" where
  "suppress_peer peer s = (let (seen, order) = insert_pruned MAX_AUTO_DIAL_AWAITING_PEERS peer (suppressed_peers s) (suppressed_order s)
     in s\<lparr>suppressed_peers := seen, suppressed_order := order\<rparr>)"

definition allow_peer :: "'p \<Rightarrow> 'p AutoDialStats \<Rightarrow> 'p AutoDialStats" where
  "allow_peer = remove_suppressed"

definition is_suppressed :: "'p \<Rightarrow> 'p AutoDialStats \<Rightarrow> bool" where
  "is_suppressed peer s \<longleftrightarrow> peer |\<in>| suppressed_peers s"

definition clear_awaiting :: "'p \<Rightarrow> 'p AutoDialStats \<Rightarrow> 'p AutoDialStats" where
  "clear_awaiting = remove_awaiting"

definition awaiting_address_count :: "'p AutoDialStats \<Rightarrow> nat" where
  "awaiting_address_count s = fcard (awaiting_address_peers s)"

definition record_async_failure :: "'p \<Rightarrow> 'p AutoDialStats \<Rightarrow> 'p AutoDialStats" where
  "record_async_failure peer s = remove_awaiting peer (s\<lparr>dial_failures := sat_add 64 (dial_failures s) 1\<rparr>)"

definition record_outcome :: "'p \<Rightarrow> AutoDialOutcome \<Rightarrow> 'p AutoDialStats \<Rightarrow> 'p AutoDialStats" where
  "record_outcome peer outcome s = (case outcome of
     DialStarted _ \<Rightarrow> remove_awaiting peer (s\<lparr>dial_attempts := sat_add 64 (dial_attempts s) 1\<rparr>)
   | DialFailed _ \<Rightarrow> remove_awaiting peer (s\<lparr>dial_attempts := sat_add 64 (dial_attempts s) 1, dial_failures := sat_add 64 (dial_failures s) 1\<rparr>)
   | AwaitingAddress \<Rightarrow> mark_awaiting_address peer s
   | AddressResolutionStarted _ \<Rightarrow> mark_awaiting_address peer (s\<lparr>dial_attempts := sat_add 64 (dial_attempts s) 1\<rparr>)
   | AlreadyConnected \<Rightarrow> remove_awaiting peer s
   | _ \<Rightarrow> s)"

section \<open>Dialling a plan\<close>

record 'p dialer =
  connected_peers :: "'p set"
  dial_addr :: "'p multiaddr \<Rightarrow> string option"
  dial_peer :: "'p \<Rightarrow> string option"
  plan_describe :: "'p ConnectionPlan \<Rightarrow> string"

definition dial_connection_attempt :: "'p ma_ext \<Rightarrow> 'p dialer \<Rightarrow> 'p ConnectionAttempt \<Rightarrow> string option" where
  "dial_connection_attempt M D attempt = map_option (\<lambda>err. attempt_kind_as_str (attempt_kind attempt) @ '' '' @
     ma_to_string M (attempt_addr attempt) @ '' failed immediately: '' @ err) (dial_addr D (attempt_addr attempt))"

text \<open>The attempts dialled, in order, come first in the result.\<close>

fun dial_loop :: "'p ma_ext \<Rightarrow> 'p dialer \<Rightarrow> 'p ConnectionPlan \<Rightarrow> string list \<Rightarrow> 'p ConnectionAttempt list \<Rightarrow> 'p PendingConnectionPlans \<Rightarrow>
    'p ConnectionAttempt list \<times> (string list + unit) \<times> 'p PendingConnectionPlans" where
  "dial_loop M D plan errors [] pending = ([], Inl errors, pending)"
| "dial_loop M D plan errors (attempt # rest) pending = (case dial_connection_attempt M D attempt of
     None \<Rightarrow> ([attempt], Inr (), track_remaining plan attempt pending)
   | Some err \<Rightarrow> let (dialled, result) = dial_loop M D plan (errors @ [err]) rest pending in (attempt # dialled, result))"

definition dial_connection_plan ::
    "'p ext \<Rightarrow> 'p ma_ext \<Rightarrow> 'p dialer \<Rightarrow> 'p ConnectionPlan \<Rightarrow> 'p PendingConnectionPlans \<Rightarrow>
     'p ConnectionAttempt list \<times> (net_error + unit) \<times> 'p PendingConnectionPlans" where
  "dial_connection_plan E M D plan pending = (case dial_loop M D plan [] (attempts plan) pending of
     (dialled, Inr _, pending) \<Rightarrow> (dialled, Inr (), pending)
   | (dialled, Inl errors, pending) \<Rightarrow>
       (dialled, Inl (Dial (case target_peer plan of Some peer \<Rightarrow> pid_to_string E peer | None \<Rightarrow> ''<unknown>'')
          (if errors = [] then ''connection plan had no dial attempts: '' @ plan_describe D plan else join ''; '' errors)), pending))"

text \<open>The display text of an error.\<close>

primrec net_error_to_string :: "net_error \<Rightarrow> string" where
  "net_error_to_string (Build reason) = ''libp2p build failed: '' @ reason"
| "net_error_to_string (Listen addr reason) = ''listen failed for '' @ addr @ '': '' @ reason"
| "net_error_to_string (Heartbeat reason) = ''heartbeat generation failed: '' @ reason"
| "net_error_to_string (GossipCodec reason) = ''gossip message encode/decode failed: '' @ reason"
| "net_error_to_string (Config path reason) = ''config failed for '' @ path @ '': '' @ reason"
| "net_error_to_string (Identity path reason) = ''identity key failed for '' @ path @ '': '' @ reason"
| "net_error_to_string (ApiCommand reason) = ''api command failed: '' @ reason"
| "net_error_to_string (Dial target1 reason) = ''dial failed for '' @ target1 @ '': '' @ reason"
| "net_error_to_string (AppTopic topic reason) = ''app topic `'' @ topic @ ''` is invalid: '' @ reason"
| "net_error_to_string (AppMessageErr topic reason) = ''app message for topic `'' @ topic @ ''` failed: '' @ reason"

definition auto_dial_peer_from_book :: "'p ext \<Rightarrow> 'p ma_ext \<Rightarrow> bool \<Rightarrow> 'p dialer \<Rightarrow> 'p::linorder \<Rightarrow> 'p \<Rightarrow> bool \<Rightarrow> 'p PeerBook \<Rightarrow> DcutrPolicy \<Rightarrow>
    'p PendingConnectionPlans \<Rightarrow> AutoDialOutcome \<times> 'p PendingConnectionPlans" where
  "auto_dial_peer_from_book E M wasm32 D peer local_peer enabled1 peer_book dcutr_policy pending =
     (if \<not> enabled1 then (OutcomeDisabled, pending)
      else if peer = local_peer then (LocalPeer, pending)
      else if peer \<in> connected_peers D then (AlreadyConnected, pending)
      else if is_pending peer pending then (AlreadyPending, pending)
      else let plan = build_peer_book_connection_plan_with_capabilities M peer peer_book dcutr_policy (capabilities_default wasm32) in
        if attempts plan = [] then (AwaitingAddress, pending)
        else case dial_connection_plan E M D plan pending of
               (_, Inr _, pending) \<Rightarrow> (DialStarted (plan_describe D plan), pending)
             | (_, Inl err, pending) \<Rightarrow> (DialFailed (net_error_to_string err), pending))"

definition auto_dial_dht_provider :: "'p ext \<Rightarrow> 'p ma_ext \<Rightarrow> bool \<Rightarrow> 'p dialer \<Rightarrow> 'p::linorder \<Rightarrow> 'p \<Rightarrow> bool \<Rightarrow> 'p PeerBook \<Rightarrow> DcutrPolicy \<Rightarrow>
    'p PendingConnectionPlans \<Rightarrow> AutoDialOutcome \<times> 'p PendingConnectionPlans" where
  "auto_dial_dht_provider E M wasm32 D peer local_peer enabled1 peer_book dcutr_policy pending =
     (let (outcome, pending) = auto_dial_peer_from_book E M wasm32 D peer local_peer enabled1 peer_book dcutr_policy pending in
      if outcome \<noteq> AwaitingAddress then (outcome, pending)
      else if capabilities_default wasm32 = capabilities_browser then (AwaitingAddress, pending)
      else if dial_peer D peer = None then (AddressResolutionStarted ''source=kademlia address_resolution=behaviour'', pending)
      else (AwaitingAddress, pending))"

primrec should_pulse :: "AutoDialOutcome \<Rightarrow> bool" where
  "should_pulse OutcomeDisabled = False"
| "should_pulse LocalPeer = False"
| "should_pulse AlreadyConnected = False"
| "should_pulse AlreadyPending = False"
| "should_pulse AwaitingAddress = True"
| "should_pulse (AddressResolutionStarted plan) = True"
| "should_pulse (DialStarted plan) = True"
| "should_pulse (DialFailed reason) = True"

primrec outcome_describe :: "'p ext \<Rightarrow> 'p \<Rightarrow> AutoDialOutcome \<Rightarrow> string" where
  "outcome_describe E peer OutcomeDisabled = ''auto-connect disabled peer='' @ pid_to_string E peer"
| "outcome_describe E peer LocalPeer = ''auto-connect skipped local peer='' @ pid_to_string E peer"
| "outcome_describe E peer AlreadyConnected = ''auto-connect skipped connected peer='' @ pid_to_string E peer"
| "outcome_describe E peer AlreadyPending = ''auto-connect skipped pending peer='' @ pid_to_string E peer"
| "outcome_describe E peer AwaitingAddress = ''auto-connect awaiting dialable address peer='' @ pid_to_string E peer @
     ''; peer is known/discovered but not yet dialable''"
| "outcome_describe E peer (AddressResolutionStarted plan) =
     ''auto-connect address resolution started peer='' @ pid_to_string E peer @ '' '' @ plan"
| "outcome_describe E peer (DialStarted plan) = ''auto-connect dial started peer='' @ pid_to_string E peer @ '' '' @ plan"
| "outcome_describe E peer (DialFailed reason) = ''auto-connect dial failed peer='' @ pid_to_string E peer @ '' reason='' @ reason"

text \<open>The loop of \<open>handle_outgoing_connection_error\<close>: the attempts dialled and the one that was accepted, if any.\<close>

function fallback_loop :: "'p dialer \<Rightarrow> 'p \<Rightarrow> 'p PendingConnectionPlans \<Rightarrow> 'p ConnectionAttempt list \<times> 'p ConnectionAttempt option \<times> 'p PendingConnectionPlans" where
  "fallback_loop D peer pending = (case next_after_failure peer pending of
     (None, pending) \<Rightarrow> ([], None, pending)
   | (Some attempt, pending) \<Rightarrow>
       if dial_addr D (attempt_addr attempt) = None then ([attempt], Some attempt, pending)
       else let (tried, accepted, pending) = fallback_loop D peer pending in (attempt # tried, accepted, pending))"
  by pat_completeness auto

lemma next_after_failure_shrinks:
  "next_after_failure peer pending = (Some a, pending') \<Longrightarrow>
     (case fmlookup pending' peer of None \<Rightarrow> 0 | Some xs \<Rightarrow> length xs) < (case fmlookup pending peer of None \<Rightarrow> 0 | Some xs \<Rightarrow> length xs)"
  by (auto simp: next_after_failure_def Let_def split: option.splits list.splits if_splits)

termination fallback_loop
  by (relation "measure (\<lambda>(D, peer, pending). case fmlookup pending peer of None \<Rightarrow> 0 | Some xs \<Rightarrow> length xs)")
    (auto dest!: next_after_failure_shrinks [OF sym])

declare fallback_loop.simps [simp del]

section \<open>What is dialled\<close>

definition refused :: "'p dialer \<Rightarrow> 'p ConnectionAttempt \<Rightarrow> bool" where
  "refused D a \<longleftrightarrow> dial_addr D (attempt_addr a) \<noteq> None"

text \<open>What a caller dials from a list of attempts: all it is refused, and the first it is granted.\<close>

definition dialled_from :: "'p dialer \<Rightarrow> 'p ConnectionAttempt list \<Rightarrow> nat" where
  "dialled_from D as = (if list_all (refused D) as then length as else Suc (length (takeWhile (refused D) as)))"

lemma dialled_from_simps [simp]:
  "dialled_from D [] = 0" "dialled_from D (a # as) = (if refused D a then Suc (dialled_from D as) else 1)"
  by (auto simp: dialled_from_def)

lemma dialled_from_le: "dialled_from D as \<le> length as"
  by (induction as) auto

lemma dial_loop_dials:
  "\<exists>result. dial_loop M D plan errors as pending = (take (dialled_from D as) as, result,
      if list_all (refused D) as then pending else track_remaining plan (as ! (dialled_from D as - 1)) pending)
   \<and> (result = Inr () \<longleftrightarrow> \<not> list_all (refused D) as)"
proof (induction as arbitrary: errors)
  case (Cons a as)
  show ?case
  proof (cases "dial_addr D (attempt_addr a)")
    case None
    then show ?thesis by (simp add: dial_connection_attempt_def refused_def)
  next
    case (Some e)
    define err where "err = the (dial_connection_attempt M D a)"
    have step: "dial_loop M D plan errors (a # as) pending = (case dial_loop M D plan (errors @ [err]) as pending of (d, r) \<Rightarrow> (a # d, r))"
      by (simp add: dial_connection_attempt_def Some err_def)
    have "\<not> list_all (refused D) as \<Longrightarrow> 0 < dialled_from D as" by (simp add: dialled_from_def)
    moreover have "refused D a" by (simp add: refused_def Some)
    ultimately show ?thesis using Cons.IH [of "errors @ [err]"] unfolding step by (auto simp: nth_Cons split: nat.split)
  qed
qed simp

lemma fallback_loop_dials:
  assumes "(case fmlookup pending peer of None \<Rightarrow> [] | Some xs \<Rightarrow> xs) = as"
  shows "\<exists>accepted pending'. fallback_loop D peer pending = (take (dialled_from D as) as, accepted, pending')
   \<and> (accepted = None \<longleftrightarrow> list_all (refused D) as)
   \<and> (case fmlookup pending' peer of None \<Rightarrow> [] | Some xs \<Rightarrow> xs) = drop (dialled_from D as) as
   \<and> (\<forall>q. q \<noteq> peer \<longrightarrow> fmlookup pending' q = fmlookup pending q)"
  using assms
proof (induction as arbitrary: pending)
  case Nil
  then have "fst (next_after_failure peer pending) = None"
    "(case fmlookup (snd (next_after_failure peer pending)) peer of None \<Rightarrow> [] | Some xs \<Rightarrow> xs) = []"
    "\<forall>q. q \<noteq> peer \<longrightarrow> fmlookup (snd (next_after_failure peer pending)) q = fmlookup pending q"
    by (auto simp: next_after_failure_def Let_def split: option.splits list.splits)
  then show ?case by (subst fallback_loop.simps) (cases "next_after_failure peer pending", simp)
next
  case (Cons a as)
  define pending1 where "pending1 = snd (next_after_failure peer pending)"
  have lookup: "fmlookup pending peer = Some (a # as)" using Cons.prems by (simp split: option.splits)
  then have next1: "next_after_failure peer pending = (Some a, pending1)" by (simp add: pending1_def next_after_failure_def Let_def)
  have pending1: "(case fmlookup pending1 peer of None \<Rightarrow> [] | Some xs \<Rightarrow> xs) = as" "\<And>q. q \<noteq> peer \<Longrightarrow> fmlookup pending1 q = fmlookup pending q"
    using lookup by (auto simp: pending1_def next_after_failure_def Let_def)
  show ?case
  proof (cases "dial_addr D (attempt_addr a)")
    case None
    then have "fallback_loop D peer pending = ([a], Some a, pending1)" by (subst fallback_loop.simps) (simp add: next1)
    then show ?thesis using None pending1 by (simp add: refused_def)
  next
    case (Some e)
    have loop: "fallback_loop D peer pending = (case fallback_loop D peer pending1 of (tried, accepted, p) \<Rightarrow> (a # tried, accepted, p))"
      using Some by (subst fallback_loop.simps) (simp add: next1)
    show ?thesis using Cons.IH [OF pending1(1)] Some pending1(2) unfolding loop by (auto simp: refused_def)
  qed
qed

text \<open>A plan under way: the first dial, and what each later connection error dials, with the swarm's answers at that time.\<close>

fun plan_failures :: "'p dialer list \<Rightarrow> 'p \<Rightarrow> 'p PendingConnectionPlans \<Rightarrow> 'p ConnectionAttempt list \<times> 'p PendingConnectionPlans" where
  "plan_failures [] peer pending = ([], pending)"
| "plan_failures (D # Ds) peer pending =
     (let (tried, accepted, pending) = fallback_loop D peer pending; (later, pending) = plan_failures Ds peer pending in (tried @ later, pending))"

lemma plan_failures_dial:
  "(case fmlookup pending peer of None \<Rightarrow> [] | Some xs \<Rightarrow> xs) = as \<Longrightarrow>
   \<exists>k pending'. plan_failures Ds peer pending = (take k as, pending') \<and> k \<le> length as \<and> (as \<noteq> [] \<and> Ds \<noteq> [] \<longrightarrow> 0 < k)
     \<and> (length as \<le> length Ds \<longrightarrow> k = length as)
     \<and> (case fmlookup pending' peer of None \<Rightarrow> [] | Some xs \<Rightarrow> xs) = drop k as"
proof (induction Ds arbitrary: pending as)
  case Nil
  then show ?case by (intro exI [of _ 0] exI [of _ pending]) auto
next
  case (Cons D Ds)
  define n where "n = dialled_from D as"
  from fallback_loop_dials [OF Cons.prems, of D] obtain accepted p where p: "fallback_loop D peer pending = (take n as, accepted, p)"
    "(case fmlookup p peer of None \<Rightarrow> [] | Some xs \<Rightarrow> xs) = drop n as" unfolding n_def by blast
  from Cons.IH [OF p(2)] obtain k p' where k: "plan_failures Ds peer p = (take k (drop n as), p')" "k \<le> length (drop n as)"
    "length (drop n as) \<le> length Ds \<longrightarrow> k = length (drop n as)" "(case fmlookup p' peer of None \<Rightarrow> [] | Some xs \<Rightarrow> xs) = drop k (drop n as)" by blast
  have n: "n \<le> length as" "as \<noteq> [] \<Longrightarrow> 0 < n" by (simp_all add: n_def dialled_from_le) (cases as, simp_all add: n_def)
  show ?case
  proof (intro exI conjI impI)
    show "plan_failures (D # Ds) peer pending = (take (n + k) as, p')" by (simp add: p(1) k(1) take_add)
    show "n + k \<le> length as" using k(2) n(1) by simp
    show "as \<noteq> [] \<and> D # Ds \<noteq> [] \<Longrightarrow> 0 < n + k" using n(2) by simp
    show "length as \<le> length (D # Ds) \<Longrightarrow> n + k = length as" using n k(3) by (cases as) auto
    show "(case fmlookup p' peer of None \<Rightarrow> [] | Some xs \<Rightarrow> xs) = drop (n + k) as" using k(4) by (simp add: drop_drop add.commute)
  qed
qed

text \<open>C25. Dialling goes through a plan in order, once. The first dial and the dials after any number of connection errors,
  whatever the swarm answers at each, together are a prefix of the plan's attempts: none is skipped, repeated or dialled
  out of order. The first dial fails only if the swarm refuses every attempt; after as many errors as there are attempts all
  have been dialled; and what is still pending is exactly the rest.\<close>

theorem plan_dialled_in_order:
  assumes "target_peer plan1 = Some peer" and "distinct (attempts plan1)" and "\<not> is_pending peer pending"
    and "dial_connection_plan E M D plan1 pending = (dialled, result, pending1)" and "plan_failures Ds peer pending1 = (later, pending2)"
  shows "(result = Inr () \<longleftrightarrow> \<not> list_all (refused D) (attempts plan1))
    \<and> (result = Inr () \<longrightarrow> (\<exists>k. dialled @ later = take k (attempts plan1)
         \<and> (case fmlookup pending2 peer of None \<Rightarrow> [] | Some xs \<Rightarrow> xs) = drop k (attempts plan1)
         \<and> (length (attempts plan1) \<le> Suc (length Ds) \<longrightarrow> dialled @ later = attempts plan1)))
    \<and> (result \<noteq> Inr () \<longrightarrow> dialled = attempts plan1 \<and> pending1 = pending \<and> later = [])"
proof -
  define as where "as = attempts plan1"
  define n where "n = dialled_from D as"
  from dial_loop_dials [of M D plan1 "[]" as pending] obtain r where loop: "dial_loop M D plan1 [] as pending = (take n as, r,
      if list_all (refused D) as then pending else track_remaining plan1 (as ! (n - 1)) pending)" "r = Inr () \<longleftrightarrow> \<not> list_all (refused D) as"
    unfolding n_def by blast
  have eqs: "dialled = take n as" "result = Inr () \<longleftrightarrow> \<not> list_all (refused D) as"
      "pending1 = (if list_all (refused D) as then pending else track_remaining plan1 (as ! (n - 1)) pending)"
    using assms(4) loop by (auto simp: dial_connection_plan_def as_def split: sum.splits)
  have n: "n \<le> length as" by (simp add: n_def dialled_from_le)
  show ?thesis
  proof (cases "list_all (refused D) as")
    case True
    have "later = []" using plan_failures_dial [of pending peer "[]" Ds] assms(3,5) eqs True by (simp add: is_pending_def)
    moreover have "n = length as" using True by (simp add: n_def dialled_from_def)
    ultimately show ?thesis using eqs True by (simp flip: as_def)
  next
    case False
    then have "0 < n" by (simp add: n_def dialled_from_def)
    then have split: "as = take (n - 1) as @ as ! (n - 1) # drop n as" using n id_take_nth_drop [of "n - 1" as] by simp
    then have "as ! (n - 1) \<notin> set (take (n - 1) as)" using assms(2) n \<open>0 < n\<close>
      by (metis as_def distinct_append not_distinct_conv_prefix distinct.simps(2) disjoint_insert(1) list.simps(15))
    then have "remaining_after (as ! (n - 1)) False as = drop n as" using remaining_after_found [of "as ! (n - 1)" "take (n - 1) as" "drop n as"] split by simp
    then have "fmlookup pending1 peer = Some (drop n as)" using False assms(1) by (simp add: eqs(3) track_remaining_def flip: as_def)
    then have "(case fmlookup pending1 peer of None \<Rightarrow> [] | Some xs \<Rightarrow> xs) = drop n as" by simp
    from plan_failures_dial [OF this, of Ds] assms(5) obtain k where k: "later = take k (drop n as)" "k \<le> length (drop n as)"
      "length (drop n as) \<le> length Ds \<longrightarrow> k = length (drop n as)" "(case fmlookup pending2 peer of None \<Rightarrow> [] | Some xs \<Rightarrow> xs) = drop k (drop n as)" by auto
    have "dialled @ later = take (n + k) as" by (simp add: eqs(1) k(1) take_add)
    moreover have "drop k (drop n as) = drop (n + k) as" by (simp add: drop_drop add.commute)
    moreover have "length as \<le> Suc (length Ds) \<Longrightarrow> n + k = length as" using k(2,3) n \<open>0 < n\<close> by auto
    ultimately show ?thesis using eqs(2) False k(4) by (auto simp flip: as_def)
  qed
qed

definition demo_dialer :: "u8 multiaddr list \<Rightarrow> u8 dialer" where
  "demo_dialer refusing = \<lparr>connected_peers = {}, dial_addr = (\<lambda>a. if a \<in> set refusing then Some ''refused'' else None),
     dial_peer = (\<lambda>p. None), plan_describe = (\<lambda>p. ''plan'')\<rparr>"

definition demo_plan :: "u8 ConnectionPlan" where
  "demo_plan = \<lparr>target_peer = Some 9, attempts = [attempt_of [Udp 1, QuicV1], attempt_of [Tcp 1], attempt_of [Tcp 2], attempt_of [Tcp 3]],
     plan_relay_preferred = False, attempt_dcutr_after_relay = True, plan_keep_relay_fallback = True\<rparr>"

theorem plan_dialled_in_order_witness:
  "\<exists>dialled result pending1 later pending2.
     dial_connection_plan demo_ext demo_ma (demo_dialer [[Udp 1, QuicV1]]) demo_plan fmempty = (dialled, result, pending1)
   \<and> plan_failures [demo_dialer [[Tcp 2]], demo_dialer []] 9 pending1 = (later, pending2) \<and> result = Inr ()
   \<and> (\<exists>k. dialled @ later = take k (attempts demo_plan))"
proof -
  obtain dialled result pending1 where dial: "dial_connection_plan demo_ext demo_ma (demo_dialer [[Udp 1, QuicV1]]) demo_plan fmempty = (dialled, result, pending1)"
    by (metis prod_cases3)
  obtain later pending2 where later: "plan_failures [demo_dialer [[Tcp 2]], demo_dialer []] 9 pending1 = (later, pending2)" by (metis surj_pair)
  have plan: "target_peer demo_plan = Some 9" "distinct (attempts demo_plan)" "\<not> is_pending 9 (fmempty :: u8 PendingConnectionPlans)"
      "\<not> list_all (refused (demo_dialer [[Udp 1, QuicV1]])) (attempts demo_plan)"
    by (simp_all add: demo_plan_def attempt_of_def is_pending_def refused_def demo_dialer_def)
  from plan_dialled_in_order [OF plan(1-3) dial later] plan(4) have "result = Inr ()" "\<exists>k. dialled @ later = take k (attempts demo_plan)" by blast+
  with dial later show ?thesis by blast
qed

section \<open>The memories of automatic dialling\<close>

abbreviation awaiting_ok :: "'p AutoDialStats \<Rightarrow> bool" where
  "awaiting_ok s \<equiv> memory_ok MAX_AUTO_DIAL_AWAITING_PEERS (awaiting_address_peers s) (awaiting_address_order s)"

abbreviation suppressed_ok :: "'p AutoDialStats \<Rightarrow> bool" where
  "suppressed_ok s \<equiv> memory_ok MAX_AUTO_DIAL_AWAITING_PEERS (suppressed_peers s) (suppressed_order s)"

interpretation awaiting: bounded_memory mark_awaiting_address remove_awaiting awaiting_address_peers awaiting_ok MAX_AUTO_DIAL_AWAITING_PEERS
  by (rule paired_memory) (simp_all add: mark_awaiting_address_def remove_awaiting_def MAX_AUTO_DIAL_AWAITING_PEERS_def split_beta)

interpretation suppressed: bounded_memory suppress_peer remove_suppressed suppressed_peers suppressed_ok MAX_AUTO_DIAL_AWAITING_PEERS
  by (rule paired_memory) (simp_all add: suppress_peer_def remove_suppressed_def MAX_AUTO_DIAL_AWAITING_PEERS_def split_beta)

text \<open>A peer the application allows again stays allowed until it is suppressed again.\<close>

lemma allowed_stays_allowed: "suppressed_ok s \<Longrightarrow> (True, p) \<notin> set es \<Longrightarrow> \<not> is_suppressed p (suppressed.run es (allow_peer p s))"
  using suppressed.removed_stays_out by (simp add: is_suppressed_def allow_peer_def)

end
