(* ===== verification/Dht_State.thy ===== *)
theory Dht_State
  imports Bounded_Memory
begin

text \<open>
  What the node remembers of its provider records: \<open>connectivity/dht/state.rs\<close>. The bookkeeping of automatic connections
  (attempted, waiting, retry history), of discovered providers, and of the queries under way. Query identifiers are those
  Kademlia hands out; the clock is an argument.
\<close>

section \<open>The state\<close>

definition MAX_TRACKED_PROVIDER_PEERS :: nat where "MAX_TRACKED_PROVIDER_PEERS = 2048"
definition PROVIDER_ADDR_LOOKUP_COOLDOWN_SECS :: nat where "PROVIDER_ADDR_LOOKUP_COOLDOWN_SECS = 30"
definition AUTO_CONNECT_RETRY_COOLDOWN_SECS :: nat where "AUTO_CONNECT_RETRY_COOLDOWN_SECS = 5"
definition AUTO_CONNECT_RETRY_WINDOW_SECS :: nat where "AUTO_CONNECT_RETRY_WINDOW_SECS = 300"
definition MAX_AUTO_CONNECT_ATTEMPTS_PER_WINDOW :: nat where "MAX_AUTO_CONNECT_ATTEMPTS_PER_WINDOW = 8"

record AutoConnectRetryState =
  retry_attempts :: nat
  window_started_unix_secs :: nat
  last_attempt_unix_secs :: nat

definition retry_default :: AutoConnectRetryState where
  "retry_default = \<lparr>retry_attempts = 0, window_started_unix_secs = 0, last_attempt_unix_secs = 0\<rparr>"

type_synonym query_id = nat
type_synonym record_key = "u8 list"

record 'p DhtProviderState =
  announce_attempts :: nat
  announce_failures :: nat
  namespaces_announced :: "string list"
  provider_queries :: nat
  provider_query_failures :: nat
  provider_records_found :: nat
  provider_queries_finished :: nat
  discovered_provider_peers :: "('p, string list) fmap"
  auto_connect_attempted_peers :: "'p fset"
  auto_connect_waiting_for_addrs :: "'p fset"
  auto_connect_retry :: "('p, AutoConnectRetryState) fmap"
  auto_connect_retry_order :: "'p list"
  discovered_provider_order :: "'p list"
  auto_connect_attempted_order :: "'p list"
  auto_connect_waiting_order :: "'p list"
  provider_announce_started_unix_secs :: "(string, nat) fmap"
  provider_query_started_unix_secs :: "(string, nat) fmap"
  provider_addr_lookup_started_unix_secs :: "('p, nat) fmap"
  provider_keys_by_namespace :: "(string, (string \<times> record_key) list) fmap"
  start_providing_queries :: "(query_id, string) fmap"
  start_providing_query_keys :: "(query_id, string) fmap"
  get_provider_queries :: "(query_id, string) fmap"
  get_provider_query_keys :: "(query_id, string) fmap"
  provider_addr_lookup_queries :: "(query_id, 'p) fmap"
  address_record_put_queries :: "(query_id, string \<times> string) fmap"
  address_record_get_queries :: "(query_id, 'p \<times> string) fmap"
  address_record_last_fingerprint :: "(string, string) fmap"
  address_record_published_unix_secs :: "(string, nat) fmap"
  address_record_lookup_started_unix_secs :: "('p \<times> string, nat) fmap"

definition dht_default :: "'p DhtProviderState" where
  "dht_default = \<lparr>announce_attempts = 0, announce_failures = 0, namespaces_announced = [], provider_queries = 0,
     provider_query_failures = 0, provider_records_found = 0, provider_queries_finished = 0,
     discovered_provider_peers = fmempty, auto_connect_attempted_peers = {||}, auto_connect_waiting_for_addrs = {||},
     auto_connect_retry = fmempty, auto_connect_retry_order = [], discovered_provider_order = [],
     auto_connect_attempted_order = [], auto_connect_waiting_order = [], provider_announce_started_unix_secs = fmempty,
     provider_query_started_unix_secs = fmempty, provider_addr_lookup_started_unix_secs = fmempty,
     provider_keys_by_namespace = fmempty, start_providing_queries = fmempty, start_providing_query_keys = fmempty,
     get_provider_queries = fmempty, get_provider_query_keys = fmempty, provider_addr_lookup_queries = fmempty,
     address_record_put_queries = fmempty, address_record_get_queries = fmempty, address_record_last_fingerprint = fmempty,
     address_record_published_unix_secs = fmempty, address_record_lookup_started_unix_secs = fmempty\<rparr>"

section \<open>Automatic connections\<close>

definition remove_waiting :: "'p \<Rightarrow> 'p DhtProviderState \<Rightarrow> bool \<times> 'p DhtProviderState" where
  "remove_waiting peer s = (let (removed, seen, order) =
       remove_peer_from_bounded_set peer (auto_connect_waiting_for_addrs s) (auto_connect_waiting_order s)
     in (removed, s\<lparr>auto_connect_waiting_for_addrs := seen, auto_connect_waiting_order := order\<rparr>))"

definition remove_attempted :: "'p \<Rightarrow> 'p DhtProviderState \<Rightarrow> bool \<times> 'p DhtProviderState" where
  "remove_attempted peer s = (let (removed, seen, order) =
       remove_peer_from_bounded_set peer (auto_connect_attempted_peers s) (auto_connect_attempted_order s)
     in (removed, s\<lparr>auto_connect_attempted_peers := seen, auto_connect_attempted_order := order\<rparr>))"

text \<open>The retry history of a peer after an attempt at \<open>now\<close>.\<close>

definition retry_attempted :: "nat \<Rightarrow> AutoConnectRetryState \<Rightarrow> AutoConnectRetryState" where
  "retry_attempted now retry =
     (let retry = (if window_started_unix_secs retry = 0 \<or> AUTO_CONNECT_RETRY_WINDOW_SECS \<le> now - window_started_unix_secs retry
                   then retry\<lparr>retry_attempts := 0, window_started_unix_secs := now\<rparr> else retry)
      in retry\<lparr>retry_attempts := sat_add 32 (retry_attempts retry) 1, last_attempt_unix_secs := now\<rparr>)"

definition record_retry :: "nat \<Rightarrow> 'p \<Rightarrow> 'p DhtProviderState \<Rightarrow> 'p DhtProviderState" where
  "record_retry now peer s =
     (let first_retry = fmlookup (auto_connect_retry s) peer = None;
          retry = (case fmlookup (auto_connect_retry s) peer of None \<Rightarrow> retry_default | Some retry \<Rightarrow> retry);
          order = (if first_retry then auto_connect_retry_order s @ [peer] else auto_connect_retry_order s);
          (retries, order) = prune_map (fmupd peer (retry_attempted now retry) (auto_connect_retry s)) order MAX_TRACKED_PROVIDER_PEERS
      in s\<lparr>auto_connect_retry := retries, auto_connect_retry_order := order\<rparr>)"

definition mark_auto_connect_attempted :: "nat \<Rightarrow> 'p \<Rightarrow> 'p DhtProviderState \<Rightarrow> bool \<times> 'p DhtProviderState" where
  "mark_auto_connect_attempted now peer s =
     (let s = snd (remove_waiting peer s) in
      if peer |\<in>| auto_connect_attempted_peers s then (False, s)
      else let s = record_retry now peer s;
               (seen, order) = prune_peer_set (finsert peer (auto_connect_attempted_peers s)) (auto_connect_attempted_order s @ [peer]) MAX_TRACKED_PROVIDER_PEERS
           in (True, s\<lparr>auto_connect_attempted_peers := seen, auto_connect_attempted_order := order\<rparr>))"

definition mark_auto_connect_waiting_for_addrs :: "'p \<Rightarrow> 'p DhtProviderState \<Rightarrow> bool \<times> 'p DhtProviderState" where
  "mark_auto_connect_waiting_for_addrs peer s =
     (if peer |\<in>| auto_connect_attempted_peers s then (False, s)
      else if peer |\<in>| auto_connect_waiting_for_addrs s then (False, s)
      else let (seen, order) = prune_peer_set (finsert peer (auto_connect_waiting_for_addrs s)) (auto_connect_waiting_order s @ [peer]) MAX_TRACKED_PROVIDER_PEERS
           in (True, s\<lparr>auto_connect_waiting_for_addrs := seen, auto_connect_waiting_order := order\<rparr>))"

definition mark_auto_connect_failed :: "'p \<Rightarrow> 'p DhtProviderState \<Rightarrow> bool \<times> 'p DhtProviderState" where
  "mark_auto_connect_failed peer s = remove_attempted peer (snd (remove_waiting peer s))"

definition mark_auto_connect_disconnected :: "'p \<Rightarrow> 'p DhtProviderState \<Rightarrow> 'p DhtProviderState" where
  "mark_auto_connect_disconnected peer s = snd (remove_attempted peer (snd (remove_waiting peer s)))"

definition auto_connect_retry_allowed :: "nat \<Rightarrow> 'p \<Rightarrow> 'p DhtProviderState \<Rightarrow> bool \<times> 'p DhtProviderState" where
  "auto_connect_retry_allowed now peer s =
     (if peer |\<in>| auto_connect_attempted_peers s then (False, s)
      else case fmlookup (auto_connect_retry s) peer of
        None \<Rightarrow> (True, s)
      | Some retry \<Rightarrow>
          if AUTO_CONNECT_RETRY_WINDOW_SECS \<le> now - window_started_unix_secs retry
          then (True, s\<lparr>auto_connect_retry := fmupd peer (retry_default\<lparr>window_started_unix_secs := now\<rparr>) (auto_connect_retry s)\<rparr>)
          else (retry_attempts retry < MAX_AUTO_CONNECT_ATTEMPTS_PER_WINDOW
                \<and> AUTO_CONNECT_RETRY_COOLDOWN_SECS \<le> now - last_attempt_unix_secs retry, s))"

definition should_auto_connect_provider_result :: "nat \<Rightarrow> 'p \<Rightarrow> 'p DhtProviderState \<Rightarrow> bool \<times> 'p DhtProviderState" where
  "should_auto_connect_provider_result now peer s =
     (if peer |\<in>| auto_connect_waiting_for_addrs s then (False, s) else auto_connect_retry_allowed now peer s)"

definition should_auto_connect_after_addr_update :: "nat \<Rightarrow> 'p \<Rightarrow> 'p DhtProviderState \<Rightarrow> bool \<times> 'p DhtProviderState" where
  "should_auto_connect_after_addr_update = auto_connect_retry_allowed"

section \<open>Discovered providers\<close>

definition provider_peer_count :: "'p DhtProviderState \<Rightarrow> nat" where
  "provider_peer_count s = fmsize (discovered_provider_peers s)"

text \<open>Everything kept about a provider goes with it, the retry history apart.\<close>

definition forget_provider :: "'p \<Rightarrow> 'p DhtProviderState \<Rightarrow> 'p DhtProviderState" where
  "forget_provider evicted s =
     (let s = s\<lparr>discovered_provider_peers := fmdrop evicted (discovered_provider_peers s)\<rparr>;
          s = snd (remove_attempted evicted s);
          s = snd (remove_waiting evicted s)
      in s\<lparr>provider_addr_lookup_started_unix_secs := fmdrop evicted (provider_addr_lookup_started_unix_secs s),
           provider_addr_lookup_queries := fmretain (\<lambda>_ peer. peer \<noteq> evicted) (provider_addr_lookup_queries s),
           address_record_lookup_started_unix_secs := fmretain (\<lambda>(peer, _) _. peer \<noteq> evicted) (address_record_lookup_started_unix_secs s),
           address_record_get_queries := fmretain (\<lambda>_ (peer, _). peer \<noteq> evicted) (address_record_get_queries s)\<rparr>)"

fun prune_providers :: "'p list \<Rightarrow> 'p DhtProviderState \<Rightarrow> 'p DhtProviderState" where
  "prune_providers [] s = s\<lparr>discovered_provider_order := []\<rparr>"
| "prune_providers (evicted # rest) s =
     (if MAX_TRACKED_PROVIDER_PEERS < fmsize (discovered_provider_peers s)
      then prune_providers rest (if fmlookup (discovered_provider_peers s) evicted = None then s else forget_provider evicted s)
      else s\<lparr>discovered_provider_order := evicted # rest\<rparr>)"

definition prune_provider_tracking :: "'p DhtProviderState \<Rightarrow> 'p DhtProviderState" where
  "prune_provider_tracking s = prune_providers (discovered_provider_order s) s"

definition record_provider_peer :: "'p \<Rightarrow> string \<Rightarrow> 'p DhtProviderState \<Rightarrow> bool \<times> 'p DhtProviderState" where
  "record_provider_peer peer namespace s =
     (let first_seen = fmlookup (discovered_provider_peers s) peer = None;
          known = (case fmlookup (discovered_provider_peers s) peer of None \<Rightarrow> [] | Some namespaces \<Rightarrow> namespaces);
          s = s\<lparr>discovered_provider_peers := fmupd peer (bset_insert namespace known) (discovered_provider_peers s)\<rparr>;
          s = (if first_seen then prune_provider_tracking (s\<lparr>discovered_provider_order := discovered_provider_order s @ [peer]\<rparr>) else s)
      in (namespace \<notin> set known, s))"

section \<open>Queries\<close>

definition track_start_providing_for_key :: "query_id \<Rightarrow> string \<Rightarrow> string \<Rightarrow> 'p DhtProviderState \<Rightarrow> 'p DhtProviderState" where
  "track_start_providing_for_key qid namespace query_key s =
     s\<lparr>start_providing_queries := fmupd qid namespace (start_providing_queries s),
       start_providing_query_keys := fmupd qid query_key (start_providing_query_keys s)\<rparr>"

definition track_get_providers_for_key :: "query_id \<Rightarrow> string \<Rightarrow> string \<Rightarrow> 'p DhtProviderState \<Rightarrow> 'p DhtProviderState" where
  "track_get_providers_for_key qid namespace query_key s =
     s\<lparr>get_provider_queries := fmupd qid namespace (get_provider_queries s),
       get_provider_query_keys := fmupd qid query_key (get_provider_query_keys s)\<rparr>"

definition complete_start_providing :: "query_id \<Rightarrow> 'p DhtProviderState \<Rightarrow> string option \<times> 'p DhtProviderState" where
  "complete_start_providing qid s =
     (fmlookup (start_providing_queries s) qid,
      s\<lparr>start_providing_query_keys := fmdrop qid (start_providing_query_keys s),
        start_providing_queries := fmdrop qid (start_providing_queries s)\<rparr>)"

definition provider_namespace :: "query_id \<Rightarrow> 'p DhtProviderState \<Rightarrow> string option" where
  "provider_namespace qid s = fmlookup (get_provider_queries s) qid"

definition complete_get_providers :: "query_id \<Rightarrow> 'p DhtProviderState \<Rightarrow> string option \<times> 'p DhtProviderState" where
  "complete_get_providers qid s =
     (fmlookup (get_provider_queries s) qid,
      s\<lparr>get_provider_query_keys := fmdrop qid (get_provider_query_keys s), get_provider_queries := fmdrop qid (get_provider_queries s)\<rparr>)"

definition provider_query_key_inflight :: "string \<Rightarrow> 'p DhtProviderState \<Rightarrow> bool" where
  "provider_query_key_inflight query_key s \<longleftrightarrow> query_key |\<in>| fmran (get_provider_query_keys s)"

definition provider_announce_key_inflight :: "string \<Rightarrow> 'p DhtProviderState \<Rightarrow> bool" where
  "provider_announce_key_inflight query_key s \<longleftrightarrow> query_key |\<in>| fmran (start_providing_query_keys s)"

text \<open>Whether \<open>now\<close> is at least \<open>interval\<close> after the time recorded for a key, if any.\<close>

definition due_since :: "nat option \<Rightarrow> nat \<Rightarrow> nat \<Rightarrow> bool" where
  "due_since started now interval = (case started of None \<Rightarrow> True | Some started1 \<Rightarrow> interval \<le> now - started1)"

definition should_announce_key :: "string \<Rightarrow> string \<Rightarrow> nat \<Rightarrow> nat \<Rightarrow> 'p DhtProviderState \<Rightarrow> bool" where
  "should_announce_key query_key namespace now refresh_interval s \<longleftrightarrow>
     \<not> provider_announce_key_inflight query_key s \<and>
     (namespace \<notin> set (namespaces_announced s) \<or> due_since (fmlookup (provider_announce_started_unix_secs s) query_key) now refresh_interval)"

definition should_query_key :: "string \<Rightarrow> nat \<Rightarrow> nat \<Rightarrow> 'p DhtProviderState \<Rightarrow> bool" where
  "should_query_key query_key now refresh_interval s \<longleftrightarrow>
     \<not> provider_query_key_inflight query_key s \<and> due_since (fmlookup (provider_query_started_unix_secs s) query_key) now refresh_interval"

definition start_provider_addr_lookup :: "query_id \<Rightarrow> 'p \<Rightarrow> nat \<Rightarrow> 'p DhtProviderState \<Rightarrow> 'p DhtProviderState" where
  "start_provider_addr_lookup qid peer now s =
     s\<lparr>provider_addr_lookup_queries := fmupd qid peer (provider_addr_lookup_queries s),
       provider_addr_lookup_started_unix_secs := fmupd peer now (provider_addr_lookup_started_unix_secs s)\<rparr>"

definition provider_addr_lookup_peer :: "query_id \<Rightarrow> 'p DhtProviderState \<Rightarrow> 'p option" where
  "provider_addr_lookup_peer qid s = fmlookup (provider_addr_lookup_queries s) qid"

definition complete_provider_addr_lookup :: "query_id \<Rightarrow> 'p DhtProviderState \<Rightarrow> 'p option \<times> 'p DhtProviderState" where
  "complete_provider_addr_lookup qid s =
     (fmlookup (provider_addr_lookup_queries s) qid, s\<lparr>provider_addr_lookup_queries := fmdrop qid (provider_addr_lookup_queries s)\<rparr>)"

definition should_lookup_provider_addrs :: "'p \<Rightarrow> nat \<Rightarrow> 'p DhtProviderState \<Rightarrow> bool" where
  "should_lookup_provider_addrs peer now s \<longleftrightarrow>
     peer |\<notin>| fmran (provider_addr_lookup_queries s)
     \<and> due_since (fmlookup (provider_addr_lookup_started_unix_secs s) peer) now PROVIDER_ADDR_LOOKUP_COOLDOWN_SECS"

section \<open>Signed address records\<close>

definition should_publish_address_record :: "nat \<Rightarrow> string \<Rightarrow> string \<Rightarrow> nat \<Rightarrow> 'p DhtProviderState \<Rightarrow> bool" where
  "should_publish_address_record now namespace fingerprint refresh_interval s \<longleftrightarrow>
     \<not> fBex (fmran (address_record_put_queries s)) (\<lambda>(active_namespace, _). active_namespace = namespace) \<and>
     (fmlookup (address_record_last_fingerprint s) namespace \<noteq> Some fingerprint
      \<or> due_since (fmlookup (address_record_published_unix_secs s) namespace) now (max refresh_interval 1))"

definition track_put_address_record :: "query_id \<Rightarrow> string \<Rightarrow> string \<Rightarrow> 'p DhtProviderState \<Rightarrow> 'p DhtProviderState" where
  "track_put_address_record qid namespace fingerprint s =
     s\<lparr>address_record_put_queries := fmupd qid (namespace, fingerprint) (address_record_put_queries s)\<rparr>"

definition complete_put_address_record :: "nat \<Rightarrow> query_id \<Rightarrow> bool \<Rightarrow> 'p DhtProviderState \<Rightarrow> string option \<times> 'p DhtProviderState" where
  "complete_put_address_record now qid success s = (case fmlookup (address_record_put_queries s) qid of
     None \<Rightarrow> (None, s)
   | Some (namespace, fingerprint) \<Rightarrow>
       let s = s\<lparr>address_record_put_queries := fmdrop qid (address_record_put_queries s)\<rparr>;
           s = (if success then s\<lparr>address_record_last_fingerprint := fmupd namespace fingerprint (address_record_last_fingerprint s),
                                  address_record_published_unix_secs := fmupd namespace now (address_record_published_unix_secs s)\<rparr> else s)
       in (Some namespace, s))"

definition should_lookup_address_record :: "nat \<Rightarrow> 'p \<Rightarrow> string \<Rightarrow> 'p DhtProviderState \<Rightarrow> bool" where
  "should_lookup_address_record now peer namespace s \<longleftrightarrow>
     (peer, namespace) |\<notin>| fmran (address_record_get_queries s)
     \<and> due_since (fmlookup (address_record_lookup_started_unix_secs s) (peer, namespace)) now AUTO_CONNECT_RETRY_COOLDOWN_SECS"

definition track_get_address_record :: "nat \<Rightarrow> query_id \<Rightarrow> 'p \<Rightarrow> string \<Rightarrow> 'p DhtProviderState \<Rightarrow> 'p DhtProviderState" where
  "track_get_address_record now qid peer namespace s =
     s\<lparr>address_record_lookup_started_unix_secs := fmupd (peer, namespace) now (address_record_lookup_started_unix_secs s),
       address_record_get_queries := fmupd qid (peer, namespace) (address_record_get_queries s)\<rparr>"

definition address_record_lookup :: "query_id \<Rightarrow> 'p DhtProviderState \<Rightarrow> ('p \<times> string) option" where
  "address_record_lookup qid s = fmlookup (address_record_get_queries s) qid"

definition complete_get_address_record :: "query_id \<Rightarrow> 'p DhtProviderState \<Rightarrow> ('p \<times> string) option \<times> 'p DhtProviderState" where
  "complete_get_address_record qid s =
     (fmlookup (address_record_get_queries s) qid, s\<lparr>address_record_get_queries := fmdrop qid (address_record_get_queries s)\<rparr>)"

section \<open>Bounded tracking\<close>

text \<open>What the events of the node do to the tracking state: a gated attempt reads the clock twice, when the gate is asked
  and when the dial has begun; the gate alone is asked when the dial is not begun.\<close>

datatype 'p dht_op = Connect nat nat 'p bool | Ask nat 'p bool | Wait 'p | Fail 'p | Disconnect 'p | Provide 'p string

definition gate :: "nat \<Rightarrow> 'p \<Rightarrow> bool \<Rightarrow> 'p DhtProviderState \<Rightarrow> bool \<times> 'p DhtProviderState" where
  "gate now peer address_updated s =
     (if address_updated then should_auto_connect_after_addr_update now peer s else should_auto_connect_provider_result now peer s)"

primrec dht_op_step :: "'p dht_op \<Rightarrow> 'p DhtProviderState \<Rightarrow> ('p \<times> nat) list \<times> 'p DhtProviderState" where
  "dht_op_step (Connect asked begun peer address_updated) s = (let (allowed, s) = gate asked peer address_updated s in
     if allowed then ([(peer, begun)], snd (mark_auto_connect_attempted begun peer s)) else ([], s))"
| "dht_op_step (Ask now peer address_updated) s = ([], snd (gate now peer address_updated s))"
| "dht_op_step (Wait peer) s = ([], snd (mark_auto_connect_waiting_for_addrs peer s))"
| "dht_op_step (Fail peer) s = ([], snd (mark_auto_connect_failed peer s))"
| "dht_op_step (Disconnect peer) s = ([], mark_auto_connect_disconnected peer s)"
| "dht_op_step (Provide peer namespace) s = ([], snd (record_provider_peer peer namespace s))"

primrec dht_ops :: "'p dht_op list \<Rightarrow> 'p DhtProviderState \<Rightarrow> ('p \<times> nat) list \<times> 'p DhtProviderState" where
  "dht_ops [] s = ([], s)"
| "dht_ops (a # as) s = (let (log1, s) = dht_op_step a s; (log2, s) = dht_ops as s in (log1 @ log2, s))"

definition dht_ok :: "'p DhtProviderState \<Rightarrow> bool" where
  "dht_ok s \<longleftrightarrow>
     memory_ok MAX_TRACKED_PROVIDER_PEERS (auto_connect_attempted_peers s) (auto_connect_attempted_order s)
   \<and> memory_ok MAX_TRACKED_PROVIDER_PEERS (auto_connect_waiting_for_addrs s) (auto_connect_waiting_order s)
   \<and> memory_ok MAX_TRACKED_PROVIDER_PEERS (fmdom (auto_connect_retry s)) (auto_connect_retry_order s)
   \<and> memory_ok MAX_TRACKED_PROVIDER_PEERS (fmdom (discovered_provider_peers s)) (discovered_provider_order s)
   \<and> auto_connect_attempted_peers s |\<inter>| auto_connect_waiting_for_addrs s = {||}"

lemma dht_ok_default [simp]: "dht_ok dht_default"
  by (simp add: dht_ok_def dht_default_def)

lemma tracked_positive: "0 < MAX_TRACKED_PROVIDER_PEERS"
  by (simp add: MAX_TRACKED_PROVIDER_PEERS_def)

text \<open>What removal and insertion leave untouched.\<close>

lemma remove_waiting_fields [simp]:
  "auto_connect_attempted_peers (snd (remove_waiting p s)) = auto_connect_attempted_peers s"
  "auto_connect_attempted_order (snd (remove_waiting p s)) = auto_connect_attempted_order s"
  "auto_connect_retry (snd (remove_waiting p s)) = auto_connect_retry s"
  "auto_connect_retry_order (snd (remove_waiting p s)) = auto_connect_retry_order s"
  "discovered_provider_peers (snd (remove_waiting p s)) = discovered_provider_peers s"
  "discovered_provider_order (snd (remove_waiting p s)) = discovered_provider_order s"
  by (simp_all add: remove_waiting_def Let_def split: prod.split)

lemma remove_attempted_fields [simp]:
  "auto_connect_waiting_for_addrs (snd (remove_attempted p s)) = auto_connect_waiting_for_addrs s"
  "auto_connect_waiting_order (snd (remove_attempted p s)) = auto_connect_waiting_order s"
  "auto_connect_retry (snd (remove_attempted p s)) = auto_connect_retry s"
  "auto_connect_retry_order (snd (remove_attempted p s)) = auto_connect_retry_order s"
  "discovered_provider_peers (snd (remove_attempted p s)) = discovered_provider_peers s"
  "discovered_provider_order (snd (remove_attempted p s)) = discovered_provider_order s"
  by (simp_all add: remove_attempted_def Let_def split: prod.split)

lemma remove_waiting_ok:
  assumes "memory_ok n (auto_connect_waiting_for_addrs s) (auto_connect_waiting_order s)"
  shows "memory_ok n (auto_connect_waiting_for_addrs (snd (remove_waiting p s))) (auto_connect_waiting_order (snd (remove_waiting p s)))"
    and "auto_connect_waiting_for_addrs (snd (remove_waiting p s)) = auto_connect_waiting_for_addrs s |-| {|p|}"
proof -
  obtain r seen order where r: "remove_peer_from_bounded_set p (auto_connect_waiting_for_addrs s) (auto_connect_waiting_order s) = (r, seen, order)"
    by (metis prod_cases3)
  from remove_ok [OF assms r] show "memory_ok n (auto_connect_waiting_for_addrs (snd (remove_waiting p s))) (auto_connect_waiting_order (snd (remove_waiting p s)))"
    "auto_connect_waiting_for_addrs (snd (remove_waiting p s)) = auto_connect_waiting_for_addrs s |-| {|p|}"
    by (simp_all add: remove_waiting_def r)
qed

lemma remove_attempted_ok:
  assumes "memory_ok n (auto_connect_attempted_peers s) (auto_connect_attempted_order s)"
  shows "memory_ok n (auto_connect_attempted_peers (snd (remove_attempted p s))) (auto_connect_attempted_order (snd (remove_attempted p s)))"
    and "auto_connect_attempted_peers (snd (remove_attempted p s)) = auto_connect_attempted_peers s |-| {|p|}"
proof -
  obtain r seen order where r: "remove_peer_from_bounded_set p (auto_connect_attempted_peers s) (auto_connect_attempted_order s) = (r, seen, order)"
    by (metis prod_cases3)
  from remove_ok [OF assms r] show "memory_ok n (auto_connect_attempted_peers (snd (remove_attempted p s))) (auto_connect_attempted_order (snd (remove_attempted p s)))"
    "auto_connect_attempted_peers (snd (remove_attempted p s)) = auto_connect_attempted_peers s |-| {|p|}"
    by (simp_all add: remove_attempted_def r)
qed

lemma dht_ok_remove_waiting: "dht_ok s \<Longrightarrow> dht_ok (snd (remove_waiting p s))"
  using remove_waiting_ok [of MAX_TRACKED_PROVIDER_PEERS s p] by (auto simp: dht_ok_def)

lemma dht_ok_remove_attempted: "dht_ok s \<Longrightarrow> dht_ok (snd (remove_attempted p s))"
  using remove_attempted_ok [of MAX_TRACKED_PROVIDER_PEERS s p] by (auto simp: dht_ok_def)

lemma dht_ok_failed: "dht_ok s \<Longrightarrow> dht_ok (snd (mark_auto_connect_failed p s))"
  by (simp add: mark_auto_connect_failed_def dht_ok_remove_waiting dht_ok_remove_attempted)

lemma dht_ok_disconnected: "dht_ok s \<Longrightarrow> dht_ok (mark_auto_connect_disconnected p s)"
  by (simp add: mark_auto_connect_disconnected_def dht_ok_remove_waiting dht_ok_remove_attempted)

lemma record_retry_fields [simp]:
  "auto_connect_attempted_peers (record_retry t p s) = auto_connect_attempted_peers s"
  "auto_connect_attempted_order (record_retry t p s) = auto_connect_attempted_order s"
  "auto_connect_waiting_for_addrs (record_retry t p s) = auto_connect_waiting_for_addrs s"
  "auto_connect_waiting_order (record_retry t p s) = auto_connect_waiting_order s"
  "discovered_provider_peers (record_retry t p s) = discovered_provider_peers s"
  "discovered_provider_order (record_retry t p s) = discovered_provider_order s"
  by (simp_all add: record_retry_def Let_def split: prod.split)

lemma record_retry_ok:
  assumes "memory_ok MAX_TRACKED_PROVIDER_PEERS (fmdom (auto_connect_retry s)) (auto_connect_retry_order s)"
  shows "memory_ok MAX_TRACKED_PROVIDER_PEERS (fmdom (auto_connect_retry (record_retry t p s))) (auto_connect_retry_order (record_retry t p s))"
proof (cases "fmlookup (auto_connect_retry s) p")
  case None
  obtain m order where m: "prune_map (fmupd p (retry_attempted t retry_default) (auto_connect_retry s)) (auto_connect_retry_order s @ [p]) MAX_TRACKED_PROVIDER_PEERS = (m, order)"
    by (metis surj_pair)
  from prune_map_upd(1) [OF assms None tracked_positive m] show ?thesis by (simp add: record_retry_def None m)
next
  case (Some r)
  then have dom: "fmdom (fmupd p v (auto_connect_retry s)) = fmdom (auto_connect_retry s)" for v
    using fmdomI [OF Some] by auto
  moreover have "fmsize (auto_connect_retry s) \<le> MAX_TRACKED_PROVIDER_PEERS"
    using memory_ok_card [OF assms] assms by (simp add: memory_ok_def)
  ultimately have "prune_map (fmupd p v (auto_connect_retry s)) (auto_connect_retry_order s) MAX_TRACKED_PROVIDER_PEERS
      = (fmupd p v (auto_connect_retry s), auto_connect_retry_order s)" for v
    by (intro prune_map_within) simp
  then show ?thesis using assms dom by (simp add: record_retry_def Some)
qed

lemma dht_ok_attempted:
  assumes "dht_ok s"
  shows "dht_ok (snd (mark_auto_connect_attempted t p s))"
proof -
  define s1 where "s1 = snd (remove_waiting p s)"
  have s1: "dht_ok s1" using dht_ok_remove_waiting [OF assms] by (simp add: s1_def)
  have not_waiting: "p |\<notin>| auto_connect_waiting_for_addrs s1"
    using remove_waiting_ok(2) [of MAX_TRACKED_PROVIDER_PEERS s p] assms by (simp add: s1_def dht_ok_def)
  show ?thesis
  proof (cases "p |\<in>| auto_connect_attempted_peers s1")
    case True
    then show ?thesis using s1 by (simp add: mark_auto_connect_attempted_def s1_def Let_def)
  next
    case False
    define s2 where "s2 = record_retry t p s1"
    obtain seen order where ins: "prune_peer_set (finsert p (auto_connect_attempted_peers s1)) (auto_connect_attempted_order s1 @ [p]) MAX_TRACKED_PROVIDER_PEERS = (seen, order)"
      by (metis surj_pair)
    have "memory_ok MAX_TRACKED_PROVIDER_PEERS (auto_connect_attempted_peers s1) (auto_connect_attempted_order s1)" using s1 by (simp add: dht_ok_def)
    from insert_pruned_ok [OF this tracked_positive, of p seen order] False ins
    have seen: "memory_ok MAX_TRACKED_PROVIDER_PEERS seen order" "seen |\<subseteq>| finsert p (auto_connect_attempted_peers s1)"
      by (simp_all add: insert_pruned_def)
    have "snd (mark_auto_connect_attempted t p s) = s2\<lparr>auto_connect_attempted_peers := seen, auto_connect_attempted_order := order\<rparr>"
      using False ins by (simp add: mark_auto_connect_attempted_def s2_def Let_def flip: s1_def)
    moreover have "seen |\<inter>| auto_connect_waiting_for_addrs s1 = {||}"
      using s1 seen(2) not_waiting by (auto simp: dht_ok_def)
    ultimately show ?thesis using s1 seen(1) record_retry_ok [of s1 t p] by (simp add: dht_ok_def s2_def)
  qed
qed

lemma dht_ok_waiting:
  assumes "dht_ok s"
  shows "dht_ok (snd (mark_auto_connect_waiting_for_addrs p s))"
proof (cases "p |\<in>| auto_connect_attempted_peers s \<or> p |\<in>| auto_connect_waiting_for_addrs s")
  case True
  then show ?thesis using assms by (auto simp: mark_auto_connect_waiting_for_addrs_def)
next
  case False
  obtain seen order where ins: "prune_peer_set (finsert p (auto_connect_waiting_for_addrs s)) (auto_connect_waiting_order s @ [p]) MAX_TRACKED_PROVIDER_PEERS = (seen, order)"
    by (metis surj_pair)
  have "memory_ok MAX_TRACKED_PROVIDER_PEERS (auto_connect_waiting_for_addrs s) (auto_connect_waiting_order s)" using assms by (simp add: dht_ok_def)
  from insert_pruned_ok [OF this tracked_positive, of p seen order] False ins
  have "memory_ok MAX_TRACKED_PROVIDER_PEERS seen order" "seen |\<subseteq>| finsert p (auto_connect_waiting_for_addrs s)" by (simp_all add: insert_pruned_def)
  moreover from this have "auto_connect_attempted_peers s |\<inter>| seen = {||}" using assms False by (auto simp: dht_ok_def)
  ultimately show ?thesis using assms False ins by (simp add: mark_auto_connect_waiting_for_addrs_def dht_ok_def)
qed

lemma dht_ok_allowed:
  assumes "dht_ok s"
  shows "dht_ok (snd (auto_connect_retry_allowed t p s))"
proof (cases "fmlookup (auto_connect_retry s) p")
  case (Some r)
  then have "finsert p (fmdom (auto_connect_retry s)) = fmdom (auto_connect_retry s)" using fmdomI [OF Some] by auto
  then show ?thesis using assms by (simp add: auto_connect_retry_allowed_def Some dht_ok_def)
qed (simp add: auto_connect_retry_allowed_def assms)

lemma dht_ok_gate: "dht_ok s \<Longrightarrow> dht_ok (snd (gate t p u s))"
  by (simp add: gate_def should_auto_connect_after_addr_update_def should_auto_connect_provider_result_def dht_ok_allowed)

lemma forget_provider_fields [simp]:
  "discovered_provider_peers (forget_provider p s) = fmdrop p (discovered_provider_peers s)"
  "discovered_provider_order (forget_provider p s) = discovered_provider_order s"
  "auto_connect_retry (forget_provider p s) = auto_connect_retry s"
  "auto_connect_retry_order (forget_provider p s) = auto_connect_retry_order s"
  by (simp_all add: forget_provider_def Let_def)

text \<open>The auto-connect part of the invariant, without the discovered providers.\<close>

definition auto_ok :: "'p DhtProviderState \<Rightarrow> bool" where
  "auto_ok s \<longleftrightarrow>
     memory_ok MAX_TRACKED_PROVIDER_PEERS (auto_connect_attempted_peers s) (auto_connect_attempted_order s)
   \<and> memory_ok MAX_TRACKED_PROVIDER_PEERS (auto_connect_waiting_for_addrs s) (auto_connect_waiting_order s)
   \<and> memory_ok MAX_TRACKED_PROVIDER_PEERS (fmdom (auto_connect_retry s)) (auto_connect_retry_order s)
   \<and> auto_connect_attempted_peers s |\<inter>| auto_connect_waiting_for_addrs s = {||}"

lemma dht_ok_auto: "dht_ok s \<longleftrightarrow> auto_ok s
    \<and> memory_ok MAX_TRACKED_PROVIDER_PEERS (fmdom (discovered_provider_peers s)) (discovered_provider_order s)"
  by (auto simp: dht_ok_def auto_ok_def)

lemma auto_ok_discovered [simp]:
  "auto_ok (s\<lparr>discovered_provider_peers := d\<rparr>) = auto_ok s" "auto_ok (s\<lparr>discovered_provider_order := os\<rparr>) = auto_ok s"
  by (simp_all add: auto_ok_def)

lemma auto_ok_remove: "auto_ok s \<Longrightarrow> auto_ok (snd (remove_waiting p s))" "auto_ok s \<Longrightarrow> auto_ok (snd (remove_attempted p s))"
  using remove_waiting_ok [of MAX_TRACKED_PROVIDER_PEERS s p] remove_attempted_ok [of MAX_TRACKED_PROVIDER_PEERS s p]
  by (auto simp: auto_ok_def)

lemma auto_ok_forget: "auto_ok s \<Longrightarrow> auto_ok (forget_provider p s)"
proof -
  define s1 where "s1 = snd (remove_waiting p (snd (remove_attempted p (s\<lparr>discovered_provider_peers := fmdrop p (discovered_provider_peers s)\<rparr>))))"
  assume "auto_ok s"
  then have "auto_ok s1" by (simp add: s1_def auto_ok_remove)
  then show ?thesis by (simp add: forget_provider_def Let_def auto_ok_def flip: s1_def)
qed

lemma prune_providers_within:
  "fmsize (discovered_provider_peers s) \<le> MAX_TRACKED_PROVIDER_PEERS \<Longrightarrow> prune_providers os s = s\<lparr>discovered_provider_order := os\<rparr>"
  by (cases os) simp_all

lemma record_provider_full:
  assumes "memory_ok MAX_TRACKED_PROVIDER_PEERS (fmdom (discovered_provider_peers s)) (y # ys)" and "discovered_provider_order s = y # ys"
    and "fmlookup (discovered_provider_peers s) p = None" and "Suc (length ys) = MAX_TRACKED_PROVIDER_PEERS"
  shows "snd (record_provider_peer p n s) =
      (forget_provider y (s\<lparr>discovered_provider_peers := fmupd p [n] (discovered_provider_peers s), discovered_provider_order := y # ys @ [p]\<rparr>))
        \<lparr>discovered_provider_order := ys @ [p]\<rparr>"
    and "memory_ok MAX_TRACKED_PROVIDER_PEERS (fmdom (fmdrop y (fmupd p [n] (discovered_provider_peers s)))) (ys @ [p])"
proof -
  define d where "d = discovered_provider_peers s"
  define s1 where "s1 = s\<lparr>discovered_provider_peers := fmupd p [n] d, discovered_provider_order := y # ys @ [p]\<rparr>"
  have mem: "fmdom d = finsert y (fset_of_list ys)" "y \<notin> set ys" "distinct ys"
    using assms(1) by (simp_all add: memory_ok_def d_def)
  have p: "p |\<notin>| fmdom d" using assms(3) by (simp add: d_def fmdom_notI)
  then have "p \<noteq> y" "p \<notin> set ys" using mem(1) by (auto simp: fset_of_list_elem)
  then have dom: "fmdom (fmdrop y (fmupd p [n] d)) = fset_of_list (ys @ [p])" using mem by (auto simp: fset_of_list_elem)
  have ok: "memory_ok MAX_TRACKED_PROVIDER_PEERS (fmdom (fmdrop y (fmupd p [n] d))) (ys @ [p])"
    using mem(3) \<open>p \<notin> set ys\<close> assms(4) unfolding dom by (simp add: memory_ok_def)
  then show "memory_ok MAX_TRACKED_PROVIDER_PEERS (fmdom (fmdrop y (fmupd p [n] (discovered_provider_peers s)))) (ys @ [p])" by (simp add: d_def)
  obtain v where v: "fmlookup d y = Some v" using mem(1) by (metis finsertI1 fmlookup_dom_iff)
  have "fmsize (fmdrop y (fmupd p [n] d)) \<le> MAX_TRACKED_PROVIDER_PEERS" using memory_ok_card [OF ok] assms(4) by simp
  then have within: "fmsize (discovered_provider_peers (forget_provider y s1)) \<le> MAX_TRACKED_PROVIDER_PEERS" by (simp add: s1_def)
  have "fmsize d = MAX_TRACKED_PROVIDER_PEERS" using memory_ok_card [OF assms(1)] assms(4) by (simp add: d_def)
  then have "MAX_TRACKED_PROVIDER_PEERS < fmsize (fmupd p [n] d)" using fmsize_fmupd [of p "[n]" d] assms(3) by (simp add: d_def)
  then have "prune_providers (y # ys @ [p]) s1 = prune_providers (ys @ [p]) (forget_provider y s1)"
    using v \<open>p \<noteq> y\<close> unfolding prune_providers.simps by (simp add: s1_def)
  also have "\<dots> = (forget_provider y s1)\<lparr>discovered_provider_order := ys @ [p]\<rparr>" by (rule prune_providers_within [OF within])
  finally have "prune_provider_tracking s1 = (forget_provider y s1)\<lparr>discovered_provider_order := ys @ [p]\<rparr>"
    by (simp add: prune_provider_tracking_def s1_def)
  moreover have "snd (record_provider_peer p n s) = prune_provider_tracking s1"
    using assms(2,3) by (simp add: record_provider_peer_def s1_def d_def)
  ultimately show "snd (record_provider_peer p n s) =
      (forget_provider y (s\<lparr>discovered_provider_peers := fmupd p [n] (discovered_provider_peers s), discovered_provider_order := y # ys @ [p]\<rparr>))
        \<lparr>discovered_provider_order := ys @ [p]\<rparr>" by (simp add: s1_def d_def)
qed

lemma dht_ok_provider:
  assumes "dht_ok s"
  shows "dht_ok (snd (record_provider_peer p n s))"
proof -
  define d where "d = discovered_provider_peers s"
  define os where "os = discovered_provider_order s"
  have mem: "memory_ok MAX_TRACKED_PROVIDER_PEERS (fmdom d) os" and auto: "auto_ok s" using assms by (simp_all add: dht_ok_auto d_def os_def)
  consider (known) v where "fmlookup d p = Some v" | (room) "fmlookup d p = None" "length os < MAX_TRACKED_PROVIDER_PEERS"
    | (full) "fmlookup d p = None" "length os = MAX_TRACKED_PROVIDER_PEERS"
    using mem by (cases "fmlookup d p") (auto simp: memory_ok_def le_less)
  then show ?thesis
  proof cases
    case known
    then have "finsert p (fmdom d) = fmdom d" using fmdomI [OF known] by (simp add: finsert_absorb)
    then show ?thesis using known mem auto by (simp add: record_provider_peer_def dht_ok_auto d_def os_def)
  next
    case room
    have "fmsize (fmupd p [n] d) \<le> MAX_TRACKED_PROVIDER_PEERS"
      using fmsize_fmupd [of p "[n]" d] room memory_ok_card [OF mem] by simp
    then have "snd (record_provider_peer p n s) = s\<lparr>discovered_provider_peers := fmupd p [n] d, discovered_provider_order := os @ [p]\<rparr>"
      using room(1) by (simp add: record_provider_peer_def d_def os_def prune_provider_tracking_def prune_providers_within)
    moreover have "memory_ok MAX_TRACKED_PROVIDER_PEERS (finsert p (fmdom d)) (os @ [p])"
      by (rule memory_ok_snoc [OF mem fmdom_notI [OF room(1)] room(2)])
    ultimately show ?thesis using auto by (simp add: dht_ok_auto)
  next
    case full
    then obtain y ys where os: "os = y # ys" using tracked_positive by (cases os) simp_all
    have prem: "memory_ok MAX_TRACKED_PROVIDER_PEERS (fmdom (discovered_provider_peers s)) (y # ys)" "discovered_provider_order s = y # ys"
      "fmlookup (discovered_provider_peers s) p = None" "Suc (length ys) = MAX_TRACKED_PROVIDER_PEERS"
      using mem full by (simp_all add: os_def [symmetric] d_def [symmetric] os)
    show ?thesis unfolding record_provider_full(1) [OF prem]
      using record_provider_full(2) [OF prem, of n] auto by (simp add: dht_ok_auto auto_ok_forget)
  qed
qed

lemma dht_ok_op: "dht_ok s \<Longrightarrow> dht_ok (snd (dht_op_step a s))"
  by (cases a) (simp_all add: case_prod_beta dht_ok_gate dht_ok_attempted dht_ok_waiting dht_ok_failed dht_ok_disconnected dht_ok_provider)

lemma dht_ok_ops: "dht_ok s \<Longrightarrow> dht_ok (snd (dht_ops as s))"
proof (induction as arbitrary: s)
  case (Cons a as)
  from Cons.IH [OF dht_ok_op [OF Cons.prems, of a]] show ?case by (simp add: Let_def case_prod_beta)
qed simp

lemma attempted_insert:
  assumes "memory_ok MAX_TRACKED_PROVIDER_PEERS (auto_connect_attempted_peers s) (auto_connect_attempted_order s)"
  shows "(auto_connect_attempted_peers (snd (mark_auto_connect_attempted t p s)), auto_connect_attempted_order (snd (mark_auto_connect_attempted t p s)))
    = insert_pruned MAX_TRACKED_PROVIDER_PEERS p (auto_connect_attempted_peers s) (auto_connect_attempted_order s)"
  using prune_within [OF assms] by (simp add: mark_auto_connect_attempted_def insert_pruned_def Let_def case_prod_beta)

lemma attempted_remove:
  "(auto_connect_attempted_peers (mark_auto_connect_disconnected p s), auto_connect_attempted_order (mark_auto_connect_disconnected p s))
    = snd (remove_peer_from_bounded_set p (auto_connect_attempted_peers s) (auto_connect_attempted_order s))"
  by (simp add: mark_auto_connect_disconnected_def remove_attempted_def case_prod_beta)

interpretation attempted: bounded_memory "\<lambda>p s. snd (mark_auto_connect_attempted t p s)" mark_auto_connect_disconnected
    auto_connect_attempted_peers
    "\<lambda>s. memory_ok MAX_TRACKED_PROVIDER_PEERS (auto_connect_attempted_peers s) (auto_connect_attempted_order s)" MAX_TRACKED_PROVIDER_PEERS for t
  by (rule paired_memory [OF attempted_insert attempted_remove tracked_positive])

text \<open>A peer that disconnected is not attempted again by itself: only a new attempt brings it back, however many other
  peers are attempted and disconnected meanwhile.\<close>

lemma disconnected_eligible:
  "memory_ok MAX_TRACKED_PROVIDER_PEERS (auto_connect_attempted_peers s) (auto_connect_attempted_order s) \<Longrightarrow> (True, p) \<notin> set es \<Longrightarrow>
   p |\<notin>| auto_connect_attempted_peers (attempted.run t es (mark_auto_connect_disconnected p s))"
  by (rule attempted.removed_stays_out)

text \<open>C27. The tracking of peers stays bounded and consistent under every sequence of attempts, failures, disconnections,
  waiting peers and discovered providers: each of the four memories holds at most 2048 peers and its queue lists exactly its
  members, each once; and no peer is at the same time attempted and waiting for addresses.\<close>

theorem dht_tracking_bounded:
  fixes as :: "'p dht_op list"
  defines "s \<equiv> snd (dht_ops as (dht_default :: 'p DhtProviderState))"
  shows "fmsize (discovered_provider_peers s) \<le> 2048 \<and> fmsize (auto_connect_retry s) \<le> 2048
    \<and> fcard (auto_connect_attempted_peers s) \<le> 2048 \<and> fcard (auto_connect_waiting_for_addrs s) \<le> 2048
    \<and> distinct (discovered_provider_order s) \<and> set (discovered_provider_order s) = fset (fmdom (discovered_provider_peers s))
    \<and> distinct (auto_connect_retry_order s) \<and> set (auto_connect_retry_order s) = fset (fmdom (auto_connect_retry s))
    \<and> distinct (auto_connect_attempted_order s) \<and> set (auto_connect_attempted_order s) = fset (auto_connect_attempted_peers s)
    \<and> distinct (auto_connect_waiting_order s) \<and> set (auto_connect_waiting_order s) = fset (auto_connect_waiting_for_addrs s)
    \<and> auto_connect_attempted_peers s |\<inter>| auto_connect_waiting_for_addrs s = {||}"
proof -
  have ok: "dht_ok s" unfolding s_def by (rule dht_ok_ops [OF dht_ok_default])
  have memory: "fcard m \<le> 2048" "distinct os" "set os = fset m" if "memory_ok MAX_TRACKED_PROVIDER_PEERS m os" for m and os :: "'p list"
    using that memory_ok_card [OF that] fset_of_list.rep_eq [of os] by (simp_all add: memory_ok_def MAX_TRACKED_PROVIDER_PEERS_def)
  note parts = ok [unfolded dht_ok_def, THEN conjunct1] ok [unfolded dht_ok_def, THEN conjunct2, THEN conjunct1]
    ok [unfolded dht_ok_def, THEN conjunct2, THEN conjunct2, THEN conjunct1] ok [unfolded dht_ok_def, THEN conjunct2, THEN conjunct2, THEN conjunct2, THEN conjunct1]
  show ?thesis using parts [THEN memory(1)] parts [THEN memory(2)] parts [THEN memory(3)] ok by (simp add: dht_ok_def)
qed

section \<open>The rate of automatic connections\<close>

definition attempts_when :: "(nat \<Rightarrow> bool) \<Rightarrow> nat list \<Rightarrow> nat" where
  "attempts_when P ts = length (filter P ts)"

lemma attempts_when_simps [simp]:
  "attempts_when P [] = 0" "attempts_when P (ts @ [t]) = attempts_when P ts + (if P t then 1 else 0)"
  by (simp_all add: attempts_when_def)

lemma attempts_when_none: "\<forall>t\<in>set ts. \<not> P t \<Longrightarrow> attempts_when P ts = 0"
  by (simp add: attempts_when_def filter_empty_conv)

lemma attempts_when_mono: "\<forall>t\<in>set ts. P t \<longrightarrow> Q t \<Longrightarrow> attempts_when P ts \<le> attempts_when Q ts"
  by (induction ts) (auto simp: attempts_when_def)

lemma attempts_when_split: "\<forall>t\<in>set ts. P t \<longrightarrow> Q t \<or> R t \<Longrightarrow> attempts_when P ts \<le> attempts_when Q ts + attempts_when R ts"
  by (induction ts) (auto simp: attempts_when_def)

text \<open>The history of one peer: the attempts since the window began are those counted, at most 8; the window before saw at
  most 8; and any 300 seconds at most 16.\<close>

definition history_ok :: "nat \<Rightarrow> AutoConnectRetryState option \<Rightarrow> nat list \<Rightarrow> bool" where
  "history_ok now retry ts = (case retry of
     None \<Rightarrow> ts = []
   | Some r \<Rightarrow> let start = window_started_unix_secs r in
       0 < start \<and> start \<le> now \<and> (\<forall>t\<in>set ts. t < start + 300 \<and> t \<le> now)
     \<and> retry_attempts r = attempts_when (\<lambda>t. start \<le> t) ts \<and> retry_attempts r \<le> 8
     \<and> attempts_when (\<lambda>t. start \<le> t + 300 \<and> t < start) ts \<le> 8
     \<and> (\<forall>T. attempts_when (\<lambda>t. T \<le> t \<and> t < T + 300) ts \<le> 16))"

lemma history_later: "history_ok now retry ts \<Longrightarrow> now \<le> now' \<Longrightarrow> history_ok now' retry ts"
  by (auto simp: history_ok_def Let_def split: option.splits)

text \<open>A window that has run out can be restarted.\<close>

lemma history_restart:
  assumes "history_ok now (Some r) ts" and "now \<le> t" and "300 \<le> t - window_started_unix_secs r"
  shows "history_ok t (Some (r\<lparr>retry_attempts := 0, window_started_unix_secs := t, last_attempt_unix_secs := l\<rparr>)) ts"
proof -
  define start where "start = window_started_unix_secs r"
  have h: "0 < start" "\<forall>t\<in>set ts. t < start + 300 \<and> t \<le> now" "retry_attempts r = attempts_when (\<lambda>t. start \<le> t) ts" "retry_attempts r \<le> 8"
      "\<forall>T. attempts_when (\<lambda>t. T \<le> t \<and> t < T + 300) ts \<le> 16"
    using assms(1) by (simp_all add: history_ok_def Let_def start_def)
  have t: "start + 300 \<le> t" using assms(3) h(1) by (simp add: start_def)
  have "attempts_when (\<lambda>x. t \<le> x + 300 \<and> x < t) ts \<le> attempts_when (\<lambda>t. start \<le> t) ts" using t by (intro attempts_when_mono) auto
  moreover have "attempts_when (\<lambda>x. t \<le> x) ts = 0" using h(2) t by (intro attempts_when_none) auto
  ultimately show ?thesis using h t assms(2) by (auto simp: history_ok_def Let_def)
qed

lemma history_counted:
  assumes "history_ok now (Some r) ts" and "now \<le> t" and "t < window_started_unix_secs r + 300" and "retry_attempts r < 8"
  shows "history_ok t (Some (r\<lparr>retry_attempts := retry_attempts r + 1, last_attempt_unix_secs := l\<rparr>)) (ts @ [t])"
proof -
  define start where "start = window_started_unix_secs r"
  have h: "0 < start" "start \<le> now" "\<forall>t\<in>set ts. t < start + 300 \<and> t \<le> now" "retry_attempts r = attempts_when (\<lambda>t. start \<le> t) ts"
      "attempts_when (\<lambda>t. start \<le> t + 300 \<and> t < start) ts \<le> 8" "\<forall>T. attempts_when (\<lambda>t. T \<le> t \<and> t < T + 300) ts \<le> 16"
    using assms(1) by (simp_all add: history_ok_def Let_def start_def)
  have "attempts_when (\<lambda>x. T \<le> x \<and> x < T + 300) ts \<le> 15" if "T \<le> t" "t < T + 300" for T
  proof -
    have "attempts_when (\<lambda>x. T \<le> x \<and> x < T + 300) ts \<le> attempts_when (\<lambda>x. start \<le> x) ts + attempts_when (\<lambda>x. start \<le> x + 300 \<and> x < start) ts"
      using that h(2) assms(2) by (intro attempts_when_split) auto
    then show ?thesis using h(4,5) assms(4) by simp
  qed
  then have "\<forall>T. attempts_when (\<lambda>x. T \<le> x \<and> x < T + 300) (ts @ [t]) \<le> 16" using h(6) by (auto simp: Suc_le_eq [symmetric])
  moreover have "start \<le> t" "\<forall>x\<in>set ts. x \<le> t" "t < start + 300" using h(2,3) assms(2,3) by (auto simp: start_def)
  ultimately show ?thesis using h assms(4) by (auto simp: history_ok_def Let_def start_def [symmetric])
qed

lemma history_first:
  assumes "0 < t"
  shows "history_ok t (Some (retry_attempted t retry_default)) [t]"
proof -
  have "retry_attempted t retry_default = \<lparr>retry_attempts = 1, window_started_unix_secs = t, last_attempt_unix_secs = t\<rparr>"
    by (simp add: retry_attempted_def retry_default_def sat_add_def)
  then show ?thesis using assms by (simp add: history_ok_def attempts_when_def)
qed

lemma retry_attempted_later:
  "0 < window_started_unix_secs r \<Longrightarrow> retry_attempts r < 8 \<Longrightarrow> retry_attempted t r =
     (if 300 \<le> t - window_started_unix_secs r then r\<lparr>retry_attempts := 1, window_started_unix_secs := t, last_attempt_unix_secs := t\<rparr>
      else r\<lparr>retry_attempts := retry_attempts r + 1, last_attempt_unix_secs := t\<rparr>)"
  by (simp add: retry_attempted_def AUTO_CONNECT_RETRY_WINDOW_SECS_def sat_add_def)

lemma history_attempted:
  assumes "history_ok now retry ts" and "now \<le> t" and "0 < t" and "retry_attempts (case retry of None \<Rightarrow> retry_default | Some r \<Rightarrow> r) < 8"
  shows "history_ok t (Some (retry_attempted t (case retry of None \<Rightarrow> retry_default | Some r \<Rightarrow> r))) (ts @ [t])"
proof (cases retry)
  case None
  then show ?thesis using assms(1) history_first [OF assms(3)] by (simp add: history_ok_def)
next
  case (Some r)
  have start: "0 < window_started_unix_secs r" using assms(1) by (simp add: Some history_ok_def Let_def)
  show ?thesis
  proof (cases "300 \<le> t - window_started_unix_secs r")
    case True
    define r' where "r' = r\<lparr>retry_attempts := 0, window_started_unix_secs := t, last_attempt_unix_secs := t\<rparr>"
    have "history_ok t (Some r') ts" using history_restart [OF _ assms(2) True] assms(1) by (simp add: Some r'_def)
    from history_counted [OF this, of t t] have "history_ok t (Some (r'\<lparr>retry_attempts := 1, last_attempt_unix_secs := t\<rparr>)) (ts @ [t])" by (simp add: r'_def)
    then show ?thesis using start True assms(4) by (cases r) (simp add: Some retry_attempted_later r'_def)
  next
    case False
    then show ?thesis using history_counted [of now r ts t t] assms start by (simp add: Some retry_attempted_later)
  qed
qed

text \<open>The gate keeps the history, and lets an attempt through only if the window has room.\<close>

lemma history_gate:
  assumes "history_ok now (fmlookup (auto_connect_retry s) p) ts" and "now \<le> t" and "gate t q u s = (allowed, s')"
  shows "history_ok t (fmlookup (auto_connect_retry s') p) ts"
    and "allowed \<Longrightarrow> q = p \<Longrightarrow> retry_attempts (case fmlookup (auto_connect_retry s') p of None \<Rightarrow> retry_default | Some r \<Rightarrow> r) < 8"
proof -
  note gate = assms(3) [unfolded gate_def should_auto_connect_after_addr_update_def should_auto_connect_provider_result_def
      auto_connect_retry_allowed_def AUTO_CONNECT_RETRY_WINDOW_SECS_def MAX_AUTO_CONNECT_ATTEMPTS_PER_WINDOW_def]
  have later: "history_ok t (fmlookup (auto_connect_retry s) p) ts" by (rule history_later [OF assms(1,2)])
  show "history_ok t (fmlookup (auto_connect_retry s') p) ts"
  proof (cases "s' = s")
    case False
    then obtain r where r: "fmlookup (auto_connect_retry s) q = Some r" "300 \<le> t - window_started_unix_secs r"
        "auto_connect_retry s' = fmupd q (retry_default\<lparr>window_started_unix_secs := t\<rparr>) (auto_connect_retry s)"
      using gate by (auto split: if_splits option.splits)
    show ?thesis
    proof (cases "q = p")
      case True
      then have "history_ok t (Some (r\<lparr>retry_attempts := 0, window_started_unix_secs := t, last_attempt_unix_secs := 0\<rparr>)) ts"
        using assms(1,2) r(1,2) by (intro history_restart) simp_all
      then show ?thesis using True by (cases r) (simp add: r(3) retry_default_def)
    qed (use later r(3) in simp)
  qed (use later in simp)
  show "retry_attempts (case fmlookup (auto_connect_retry s') p of None \<Rightarrow> retry_default | Some r \<Rightarrow> r) < 8" if "allowed" "q = p"
    using gate that by (auto simp: retry_default_def split: if_splits option.splits)
qed

text \<open>The clock is read in order and is past the epoch; the peers an attempt can be made for.\<close>

primrec op_times :: "'p dht_op \<Rightarrow> nat list" where
  "op_times (Connect asked begun peer u) = [asked, begun]"
| "op_times (Ask now peer u) = [now]"
| "op_times (Wait peer) = []"
| "op_times (Fail peer) = []"
| "op_times (Disconnect peer) = []"
| "op_times (Provide peer namespace) = []"

definition clock_ok :: "nat \<Rightarrow> 'p dht_op list \<Rightarrow> bool" where
  "clock_ok start as \<longleftrightarrow> 0 < start \<and> sorted (start # concat (map op_times as))"

primrec dialled_peers :: "'p dht_op list \<Rightarrow> 'p list" where
  "dialled_peers [] = []"
| "dialled_peers (a # as) = (case a of Connect _ _ peer _ \<Rightarrow> [peer] | _ \<Rightarrow> []) @ dialled_peers as"

definition log_times :: "'p \<Rightarrow> ('p \<times> nat) list \<Rightarrow> nat list" where
  "log_times p log = map snd (filter (\<lambda>(q, _). q = p) log)"

lemma log_times_simps [simp]:
  "log_times p [] = []" "log_times p (l1 @ l2) = log_times p l1 @ log_times p l2"
  "log_times p [(q, t)] = (if q = p then [t] else [])"
  by (simp_all add: log_times_def)

definition rate_inv :: "'p set \<Rightarrow> nat \<Rightarrow> ('p \<times> nat) list \<Rightarrow> 'p DhtProviderState \<Rightarrow> bool" where
  "rate_inv P now log s \<longleftrightarrow> (\<forall>p. history_ok now (fmlookup (auto_connect_retry s) p) (log_times p log)) \<and> fset (fmdom (auto_connect_retry s)) \<subseteq> P"

lemma forget_provider_retry: "auto_connect_retry (prune_providers os s) = auto_connect_retry s"
  by (induction os arbitrary: s) simp_all

lemma quiet_ops_retry [simp]:
  "auto_connect_retry (snd (mark_auto_connect_waiting_for_addrs p s)) = auto_connect_retry s"
  "auto_connect_retry (snd (mark_auto_connect_failed p s)) = auto_connect_retry s"
  "auto_connect_retry (mark_auto_connect_disconnected p s) = auto_connect_retry s"
  "auto_connect_retry (snd (record_provider_peer p n s)) = auto_connect_retry s"
  by (simp_all add: mark_auto_connect_waiting_for_addrs_def mark_auto_connect_failed_def mark_auto_connect_disconnected_def
      record_provider_peer_def prune_provider_tracking_def forget_provider_retry Let_def case_prod_beta)

lemma gate_keeps:
  assumes "gate t p u s = (allowed, s')"
  shows "allowed \<Longrightarrow> p |\<notin>| auto_connect_attempted_peers s'" and "fmdom (auto_connect_retry s') = fmdom (auto_connect_retry s)"
proof -
  note gate = assms [unfolded gate_def should_auto_connect_after_addr_update_def should_auto_connect_provider_result_def auto_connect_retry_allowed_def]
  show "p |\<notin>| auto_connect_attempted_peers s'" if allowed using gate that by (auto split: if_splits option.splits)
  show "fmdom (auto_connect_retry s') = fmdom (auto_connect_retry s)"
  proof (cases "fmlookup (auto_connect_retry s) p")
    case (Some r)
    then show ?thesis using gate fmdomI [OF Some] by (auto simp: finsert_absorb split: if_splits)
  qed (use gate in \<open>auto split: if_splits\<close>)
qed

lemma attempted_retry:
  assumes "p |\<notin>| auto_connect_attempted_peers s" and "finite P" "card P \<le> MAX_TRACKED_PROVIDER_PEERS"
    and "fset (fmdom (auto_connect_retry s)) \<subseteq> P" "p \<in> P"
  shows "auto_connect_retry (snd (mark_auto_connect_attempted t p s)) = fmupd p (retry_attempted t
      (case fmlookup (auto_connect_retry s) p of None \<Rightarrow> retry_default | Some r \<Rightarrow> r)) (auto_connect_retry s)"
proof -
  define s1 where "s1 = snd (remove_waiting p s)"
  have within: "fmsize (fmupd p v (auto_connect_retry s)) \<le> MAX_TRACKED_PROVIDER_PEERS" for v
  proof -
    have "fset (fmdom (fmupd p v (auto_connect_retry s))) \<subseteq> P" using assms(4,5) by simp
    from card_mono [OF assms(2) this] show ?thesis using assms(3) by (simp add: fcard.rep_eq)
  qed
  have "auto_connect_retry (record_retry t p s1) = fmupd p (retry_attempted t
      (case fmlookup (auto_connect_retry s) p of None \<Rightarrow> retry_default | Some r \<Rightarrow> r)) (auto_connect_retry s)"
    unfolding record_retry_def Let_def by (simp add: s1_def prune_map_within [OF within])
  moreover have "auto_connect_retry (snd (mark_auto_connect_attempted t p s)) = auto_connect_retry (record_retry t p s1)"
    using assms(1) by (simp add: mark_auto_connect_attempted_def s1_def Let_def case_prod_beta)
  ultimately show ?thesis by simp
qed

lemma rate_step:
  assumes "rate_inv P now log s" and "finite P" "card P \<le> MAX_TRACKED_PROVIDER_PEERS" and "set (dialled_peers [a]) \<subseteq> P"
    and "clock_ok now [a]" and "dht_op_step a s = (log', s')"
  shows "rate_inv P (last (now # op_times a)) (log @ log') s'"
proof (cases a)
  case (Connect asked begun p u)
  obtain allowed s1 where gate: "gate asked p u s = (allowed, s1)" by (metis surj_pair)
  have times: "now \<le> asked" "asked \<le> begun" "0 < begun" using assms(5) by (auto simp: Connect clock_ok_def)
  have inv: "history_ok now (fmlookup (auto_connect_retry s) q) (log_times q log)" "fset (fmdom (auto_connect_retry s)) \<subseteq> P" for q
    using assms(1) by (simp_all add: rate_inv_def)
  note h = history_gate(1) [OF inv(1) times(1) gate]
  have sub: "fset (fmdom (auto_connect_retry s1)) \<subseteq> P" using inv(2) gate_keeps(2) [OF gate] by simp
  show ?thesis
  proof (cases allowed)
    case False
    then show ?thesis using assms(6) gate sub history_later [OF h times(2)] by (simp add: Connect rate_inv_def Let_def)
  next
    case True
    define s2 where "s2 = snd (mark_auto_connect_attempted begun p s1)"
    have p: "p \<in> P" using assms(4) by (simp add: Connect)
    note retry = attempted_retry [OF gate_keeps(1) [OF gate True] assms(2,3) sub p, of begun, folded s2_def]
    have "history_ok begun (fmlookup (auto_connect_retry s2) q) (log_times q (log @ [(p, begun)]))" for q
    proof (cases "q = p")
      case True2: True
      show ?thesis using history_attempted [OF h times(2,3) history_gate(2) [OF inv(1) times(1) gate True refl]] by (simp add: retry True2)
    qed (use history_later [OF h times(2)] in \<open>simp add: retry\<close>)
    moreover have "fset (fmdom (auto_connect_retry s2)) \<subseteq> P" using sub p by (simp add: retry)
    moreover have "log' = [(p, begun)]" "s' = s2" using assms(6) gate True by (simp_all add: Connect s2_def Let_def)
    ultimately show ?thesis unfolding rate_inv_def by (simp add: Connect)
  qed
next
  case (Ask t p u)
  obtain allowed s1 where gate: "gate t p u s = (allowed, s1)" by (metis surj_pair)
  have "now \<le> t" using assms(5) by (simp add: Ask clock_ok_def)
  then show ?thesis using assms(1,6) gate history_gate(1) [OF _ _ gate] gate_keeps(2) [OF gate] by (auto simp: Ask rate_inv_def)
qed (use assms(1,6) in \<open>auto simp: rate_inv_def\<close>)

lemma rate_ops:
  assumes "rate_inv P now log s" and "finite P" "card P \<le> MAX_TRACKED_PROVIDER_PEERS" and "set (dialled_peers as) \<subseteq> P"
    and "clock_ok now as" and "dht_ops as s = (log', s')"
  shows "\<exists>later. rate_inv P later (log @ log') s'"
  using assms(1,4-6)
proof (induction as arbitrary: now log s log')
  case (Cons a as)
  obtain l1 s1 where step: "dht_op_step a s = (l1, s1)" by (metis surj_pair)
  obtain l2 where rest: "dht_ops as s1 = (l2, s')" "log' = l1 @ l2" using Cons.prems(4) by (auto simp: step case_prod_beta Let_def prod_eq_iff)
  have split: "set (dialled_peers [a]) \<subseteq> P" "set (dialled_peers as) \<subseteq> P" using Cons.prems(2) by simp_all
  have clock: "clock_ok now [a]" "clock_ok (last (now # op_times a)) as"
    using Cons.prems(3) by (cases a; auto simp: clock_ok_def)+
  from Cons.IH [OF rate_step [OF Cons.prems(1) assms(2,3) split(1) clock(1) step] split(2) clock(2) rest(1)] show ?case by (simp add: rest(2))
qed auto



text \<open>The cooldown of 5 seconds and the cap of 8 attempts hold within a window only: when a window runs out, an attempt is
  allowed however recent the last one was.\<close>

lemma cooldown_bypassed:
  assumes "fmlookup (auto_connect_retry s) p = Some r" and "p |\<notin>| auto_connect_attempted_peers s" "p |\<notin>| auto_connect_waiting_for_addrs s"
    and "AUTO_CONNECT_RETRY_WINDOW_SECS \<le> now - window_started_unix_secs r"
  shows "fst (gate now p u s)"
  using assms by (simp add: gate_def should_auto_connect_after_addr_update_def should_auto_connect_provider_result_def auto_connect_retry_allowed_def)

end
