(* ===== verification/Namespace.thy ===== *)
theory Namespace
  imports App_Message
begin

text \<open>
  The discovery namespaces of applications: \<open>connectivity/namespace.rs\<close>, and the fallback to public infrastructure,
  \<open>connectivity/public_fallback.rs\<close>. Strings are UTF-8 bytes. The loop over the characters of a segment maps every
  character outside the ASCII set to one dash; on bytes that is one dash per byte, and the loop that follows collapses them.
\<close>

section \<open>Namespaces\<close>

definition DISCOVERY_NAMESPACE_PREFIX :: string where "DISCOVERY_NAMESPACE_PREFIX = ''p2p-net''"
definition DISCOVERY_NAMESPACE_HASH_CONTEXT :: string where "DISCOVERY_NAMESPACE_HASH_CONTEXT = ''p2p-net.discovery.namespace.v1''"
definition DEFAULT_DISCOVERY_TAG :: string where "DEFAULT_DISCOVERY_TAG = ''__default_application_mesh__''"
definition MAX_DISCOVERY_APP_ID_LEN :: nat where "MAX_DISCOVERY_APP_ID_LEN = 64"
definition MAX_DISCOVERY_TAG_LEN :: nat where "MAX_DISCOVERY_TAG_LEN = 256"
definition MAX_DISCOVERY_TAGS :: nat where "MAX_DISCOVERY_TAGS = 64"

datatype DiscoveryNamespacePrivacy = Hashed | ReadableUnsafe

primrec privacy_as_str :: "DiscoveryNamespacePrivacy \<Rightarrow> string" where
  "privacy_as_str Hashed = ''hashed''"
| "privacy_as_str ReadableUnsafe = ''readable_unsafe''"

record DiscoveryNamespaceConfig =
  ns_app_id :: string
  ns_tags :: "string list"
  ns_privacy :: DiscoveryNamespacePrivacy
  allow_readable_tags :: bool

definition namespace_config_default :: DiscoveryNamespaceConfig where
  "namespace_config_default = \<lparr>ns_app_id = ''p2p-net'', ns_tags = [], ns_privacy = Hashed, allow_readable_tags = False\<rparr>"

record DiscoveryNamespace =
  dn_network_id :: nat
  dn_app_id :: string
  dn_namespace :: string
  tag_fingerprint_hex :: string
  dn_privacy :: DiscoveryNamespacePrivacy

definition validate_app_id :: "string \<Rightarrow> string \<Rightarrow> net_error + unit" where
  "validate_app_id value1 field1 = (let trimmed = trim value1 in first_error
     [(trimmed = [], config_error (field1 @ '' must not be empty'')),
      (MAX_DISCOVERY_APP_ID_LEN < length trimmed, config_error (field1 @ '' must be at most '' @ show_nat MAX_DISCOVERY_APP_ID_LEN @ '' bytes''))])"

definition validate_tag :: "string \<Rightarrow> string \<Rightarrow> net_error + unit" where
  "validate_tag value1 field1 = (let trimmed = trim value1 in first_error
     [(trimmed = [], config_error (field1 @ '' must not be empty'')),
      (MAX_DISCOVERY_TAG_LEN < length trimmed, config_error (field1 @ '' must be at most '' @ show_nat MAX_DISCOVERY_TAG_LEN @ '' bytes''))])"

subsection \<open>Segments\<close>

definition segment_char :: "char \<Rightarrow> char" where
  "segment_char ch = (if is_ascii_alphanumeric ch then hd (to_ascii_lowercase [ch]) else if ch \<in> {CHR ''-'', CHR ''_'', CHR ''.''} then ch else CHR ''-'')"

text \<open>\<open>str::contains\<close> and \<open>str::replace\<close> for two dashes: matches do not overlap and are found from the left.\<close>

fun contains_dashes :: "string \<Rightarrow> bool" where
  "contains_dashes (a # b # s) = (a = CHR ''-'' \<and> b = CHR ''-'' \<or> contains_dashes (b # s))"
| "contains_dashes _ = False"

fun replace_dashes :: "string \<Rightarrow> string" where
  "replace_dashes (a # b # s) = (if a = CHR ''-'' \<and> b = CHR ''-'' then CHR ''-'' # replace_dashes s else a # replace_dashes (b # s))"
| "replace_dashes s = s"

lemma replace_dashes_le: "length (replace_dashes s) \<le> length s"
  by (induction s rule: replace_dashes.induct) auto

lemma replace_dashes_shrinks: "contains_dashes s \<Longrightarrow> length (replace_dashes s) < length s"
proof (induction s rule: replace_dashes.induct)
  case (1 a b s)
  then show ?case using replace_dashes_le [of s] by (auto split: if_splits)
qed auto

function collapse_dashes :: "string \<Rightarrow> string" where
  "collapse_dashes out = (if contains_dashes out then collapse_dashes (replace_dashes out) else out)"
  by pat_completeness auto
termination by (relation "measure length") (simp_all add: replace_dashes_shrinks)

declare collapse_dashes.simps [simp del]

definition trim_dashes :: "string \<Rightarrow> string" where
  "trim_dashes s = rev (dropWhile (\<lambda>c. c = CHR ''-'') (rev (dropWhile (\<lambda>c. c = CHR ''-'') s)))"

definition normalize_namespace_segment :: "string \<Rightarrow> net_error + string" where
  "normalize_namespace_segment value1 = (let trimmed = trim value1 in
     if trimmed = [] then Inl (config_error ''namespace segment must not be empty'')
     else let out = trim_dashes (collapse_dashes (map segment_char trimmed)) in
       if out = [] then Inl (config_error ''namespace segment must contain at least one alphanumeric character'') else Inr out)"

subsection \<open>Derivation\<close>

definition as_bytes :: "string \<Rightarrow> u8 list" where
  "as_bytes s = map (\<lambda>c. of_nat (of_char c)) s"

definition discovery_tag_hash_hex :: "'p ext \<Rightarrow> nat \<Rightarrow> string \<Rightarrow> string \<Rightarrow> string" where
  "discovery_tag_hash_hex E network_id app_id tag = blake3_hex E
     (as_bytes DISCOVERY_NAMESPACE_HASH_CONTEXT @ to_be_bytes 4 network_id @ [0] @ as_bytes app_id @ [0] @ as_bytes tag)"

definition build_discovery_namespace ::
    "'p ext \<Rightarrow> nat \<Rightarrow> string \<Rightarrow> string \<Rightarrow> DiscoveryNamespacePrivacy \<Rightarrow> bool \<Rightarrow> net_error + DiscoveryNamespace" where
  "build_discovery_namespace E network_id app_id tag privacy allow_readable =
     and_then (validate_app_id app_id ''app_id'') (\<lambda>_.
     and_then (validate_tag tag ''tag'') (\<lambda>_.
     and_then (check_that (\<not> (privacy = ReadableUnsafe \<and> \<not> allow_readable)) (config_error ''readable discovery namespaces require allow_readable_tags=true'')) (\<lambda>_.
     and_then (normalize_namespace_segment app_id) (\<lambda>app_id.
     let fingerprint = discovery_tag_hash_hex E network_id app_id tag in
     and_then (case privacy of Hashed \<Rightarrow> Inr fingerprint | ReadableUnsafe \<Rightarrow> normalize_namespace_segment tag) (\<lambda>tag_segment.
     Inr \<lparr>dn_network_id = network_id, dn_app_id = app_id,
          dn_namespace = DISCOVERY_NAMESPACE_PREFIX @ ''/'' @ show_nat network_id @ ''/'' @ app_id @ ''/'' @ tag_segment,
          tag_fingerprint_hex = fingerprint, dn_privacy = privacy\<rparr>)))))"

definition default_discovery_namespace :: "'p ext \<Rightarrow> nat \<Rightarrow> string \<Rightarrow> net_error + DiscoveryNamespace" where
  "default_discovery_namespace E network_id app_id = build_discovery_namespace E network_id app_id DEFAULT_DISCOVERY_TAG Hashed False"

fun validate_tags :: "nat \<Rightarrow> string list \<Rightarrow> net_error + unit" where
  "validate_tags idx [] = Inr ()"
| "validate_tags idx (tag # rest) =
     and_then (validate_tag tag (''discovery.namespace.tags['' @ show_nat idx @ '']'')) (\<lambda>_. validate_tags (idx + 1) rest)"

definition namespace_config_validate :: "DiscoveryNamespaceConfig \<Rightarrow> net_error + unit" where
  "namespace_config_validate c =
     and_then (validate_app_id (ns_app_id c) ''discovery.namespace.app_id'') (\<lambda>_.
     and_then (first_error
       [(MAX_DISCOVERY_TAGS < length (ns_tags c), config_error (''discovery.namespace.tags supports at most '' @ show_nat MAX_DISCOVERY_TAGS @ '' entries'')),
        (ns_privacy c = ReadableUnsafe \<and> \<not> allow_readable_tags c,
         config_error ''discovery.namespace.privacy=readable_unsafe requires allow_readable_tags=true'')]) (\<lambda>_.
     validate_tags 0 (ns_tags c)))"

definition namespace_config_is_enabled :: "DiscoveryNamespaceConfig \<Rightarrow> bool" where
  "namespace_config_is_enabled c \<longleftrightarrow> ns_tags c \<noteq> []"

fun derive_loop :: "'p ext \<Rightarrow> nat \<Rightarrow> DiscoveryNamespaceConfig \<Rightarrow> DiscoveryNamespace list \<Rightarrow> string list \<Rightarrow> net_error + DiscoveryNamespace list" where
  "derive_loop E network_id c namespaces [] = Inr namespaces"
| "derive_loop E network_id c namespaces (tag # rest) =
     and_then (build_discovery_namespace E network_id (ns_app_id c) tag (ns_privacy c) (allow_readable_tags c)) (\<lambda>namespace1.
     derive_loop E network_id c (if list_ex (\<lambda>known. dn_namespace known = dn_namespace namespace1) namespaces then namespaces
       else namespaces @ [namespace1]) rest)"

definition derived_namespaces :: "'p ext \<Rightarrow> DiscoveryNamespaceConfig \<Rightarrow> nat \<Rightarrow> net_error + DiscoveryNamespace list" where
  "derived_namespaces E c network_id = and_then (namespace_config_validate c) (\<lambda>_. derive_loop E network_id c [] (ns_tags c))"

section \<open>Public fallback\<close>

datatype PublicFallbackMode = FallbackDisabled | FallbackOnly | Always

primrec fallback_mode_as_str :: "PublicFallbackMode \<Rightarrow> string" where
  "fallback_mode_as_str FallbackDisabled = ''disabled''"
| "fallback_mode_as_str FallbackOnly = ''fallback_only''"
| "fallback_mode_as_str Always = ''always''"

definition fallback_is_enabled :: "PublicFallbackMode \<Rightarrow> bool" where
  "fallback_is_enabled mode \<longleftrightarrow> mode \<noteq> FallbackDisabled"

record PublicBootstrapConfig =
  pb_mode :: PublicFallbackMode
  pb_bootstrap_seed_peers :: "string list"
  pb_rendezvous_peers :: "string list"
  pb_relay_peers :: "string list"
  auto_connect_discovered_peers :: bool

definition private_infrastructure_only :: PublicBootstrapConfig where
  "private_infrastructure_only = \<lparr>pb_mode = FallbackDisabled, pb_bootstrap_seed_peers = [], pb_rendezvous_peers = [],
     pb_relay_peers = [], auto_connect_discovered_peers = False\<rparr>"

definition has_rendezvous_candidates :: "PublicBootstrapConfig \<Rightarrow> bool" where
  "has_rendezvous_candidates c \<longleftrightarrow> fallback_is_enabled (pb_mode c) \<and> pb_rendezvous_peers c \<noteq> []"

definition has_relay_candidates :: "PublicBootstrapConfig \<Rightarrow> bool" where
  "has_relay_candidates c \<longleftrightarrow> fallback_is_enabled (pb_mode c) \<and> pb_relay_peers c \<noteq> []"

definition public_bootstrap_validate :: "PublicBootstrapConfig \<Rightarrow> net_error + unit" where
  "public_bootstrap_validate c = check_that
     (\<not> (fallback_is_enabled (pb_mode c) \<and> pb_bootstrap_seed_peers c = [] \<and> pb_rendezvous_peers c = [] \<and> pb_relay_peers c = []))
     (config_error ''discovery.public_bootstrap mode is enabled but no public bootstrap, rendezvous, or relay peers are configured'')"

record PublicFallbackDecision =
  fd_mode :: PublicFallbackMode
  fd_used :: bool
  fd_reason :: string

text \<open>The three decisions differ in the list they look at and in the reason.\<close>

definition fallback_decision :: "PublicFallbackMode \<Rightarrow> nat \<Rightarrow> string list \<Rightarrow> string \<Rightarrow> PublicFallbackDecision" where
  "fallback_decision mode owned peers none_owned =
     (let use_public = (case mode of FallbackDisabled \<Rightarrow> False | FallbackOnly \<Rightarrow> owned = 0 | Always \<Rightarrow> True) \<and> peers \<noteq> []
      in \<lparr>fd_mode = mode, fd_used = use_public,
          fd_reason = (if use_public then (if mode = Always then ''always'' else none_owned) else ''not_used'')\<rparr>)"

definition bootstrap_decision :: "PublicBootstrapConfig \<Rightarrow> nat \<Rightarrow> PublicFallbackDecision" where
  "bootstrap_decision c owned = fallback_decision (pb_mode c) owned (pb_bootstrap_seed_peers c) ''no_operator_or_cached_startup_candidates''"

definition rendezvous_decision :: "PublicBootstrapConfig \<Rightarrow> nat \<Rightarrow> PublicFallbackDecision" where
  "rendezvous_decision c owned = fallback_decision (pb_mode c) owned (pb_rendezvous_peers c) ''no_operator_or_cached_rendezvous_candidates''"

definition relay_decision :: "PublicBootstrapConfig \<Rightarrow> nat \<Rightarrow> PublicFallbackDecision" where
  "relay_decision c owned = fallback_decision (pb_mode c) owned (pb_relay_peers c) ''no_operator_cached_or_rendezvous_relay_candidates''"

section \<open>Normalised segments\<close>

definition segment_ok :: "string \<Rightarrow> bool" where
  "segment_ok s \<longleftrightarrow> s \<noteq> [] \<and> \<not> contains_dashes s \<and> hd s \<noteq> CHR ''-'' \<and> last s \<noteq> CHR ''-'' \<and> (\<forall>c\<in>set s. segment_char c = c)"

lemma to_lower_char: "hd (to_ascii_lowercase [c]) = (let n = (of_char c :: nat) in if 65 \<le> n \<and> n \<le> 90 then char_of (n + 32) else c)"
  by (simp add: to_ascii_lowercase_def)

lemma segment_char_idem [simp]: "segment_char (segment_char c) = segment_char c"
  unfolding segment_char_def is_ascii_alphanumeric_def to_lower_char Let_def by (auto simp: of_char_of)

lemma segment_char_fixed:
  "segment_char c = c \<Longrightarrow> is_ascii_alphanumeric c \<or> c \<in> {CHR ''-'', CHR ''_'', CHR ''.''}"
  by (auto simp: segment_char_def split: if_splits)

lemma segment_char_visible: "segment_char c = c \<Longrightarrow> visible_char c \<and> c \<noteq> CHR ''/''"
  by (drule segment_char_fixed) (auto simp: is_ascii_alphanumeric_def visible_char_def Let_def)

lemma set_replace_dashes: "set (replace_dashes s) \<subseteq> set s"
  by (induction s rule: replace_dashes.induct) auto

lemma collapse_dashes_props: "\<not> contains_dashes (collapse_dashes s)" "set (collapse_dashes s) \<subseteq> set s"
proof (induction s rule: collapse_dashes.induct)
  case (1 out)
  { case 1 then show ?case using "1.IH"(1) by (subst collapse_dashes.simps) simp }
  { case 2 then show ?case using "1.IH"(2) set_replace_dashes [of out] by (subst collapse_dashes.simps) auto }
qed

lemma contains_dashes_append: "contains_dashes xs \<or> contains_dashes ys \<Longrightarrow> contains_dashes (xs @ ys)"
  by (induction xs rule: contains_dashes.induct) (auto split: list.splits elim: contains_dashes.elims)

lemma trim_dashes_split: "\<exists>pre post. s = pre @ trim_dashes s @ post"
proof -
  define t where "t = dropWhile (\<lambda>c. c = CHR ''-'') s"
  have "s = takeWhile (\<lambda>c. c = CHR ''-'') s @ t" by (simp add: t_def)
  moreover have "t = trim_dashes s @ rev (takeWhile (\<lambda>c. c = CHR ''-'') (rev t))"
    unfolding trim_dashes_def t_def [symmetric] by (metis rev_append rev_rev_ident takeWhile_dropWhile_id)
  ultimately show ?thesis by metis
qed

lemma trim_dashes_ends: "trim_dashes s \<noteq> [] \<Longrightarrow> hd (trim_dashes s) \<noteq> CHR ''-'' \<and> last (trim_dashes s) \<noteq> CHR ''-''"
proof -
  define t where "t = dropWhile (\<lambda>c. c = CHR ''-'') s"
  define u where "u = dropWhile (\<lambda>c. c = CHR ''-'') (rev t)"
  assume "trim_dashes s \<noteq> []"
  then have u: "u \<noteq> []" "trim_dashes s = rev u" by (simp_all add: trim_dashes_def u_def t_def)
  have "hd u \<noteq> CHR ''-''" using hd_dropWhile [of "\<lambda>c. c = CHR ''-''" "rev t"] u(1) by (simp add: u_def)
  moreover have "t \<noteq> []" using u(1) by (auto simp: u_def)
  then have "hd t \<noteq> CHR ''-''" using hd_dropWhile [of "\<lambda>c. c = CHR ''-''" s] by (simp add: t_def)
  moreover have "last u = hd t"
  proof -
    have "rev t = takeWhile (\<lambda>c. c = CHR ''-'') (rev t) @ u" by (simp add: u_def)
    then have "last (rev t) = last u" using u(1) by (metis last_appendR)
    then show ?thesis using \<open>t \<noteq> []\<close> by (simp add: last_rev)
  qed
  ultimately show ?thesis using u by (simp add: hd_rev last_rev)
qed

lemma segment_normalised: "normalize_namespace_segment v = Inr out \<Longrightarrow> segment_ok out"
proof -
  define c where "c = collapse_dashes (map segment_char (trim v))"
  assume "normalize_namespace_segment v = Inr out"
  then have out: "out = trim_dashes c" "out \<noteq> []" by (auto simp: normalize_namespace_segment_def c_def Let_def split: if_splits)
  obtain pre post where split: "c = pre @ out @ post" using trim_dashes_split [of c] out(1) by blast
  have "\<not> contains_dashes out" using collapse_dashes_props(1) [of "map segment_char (trim v)"] contains_dashes_append [of pre "out @ post"]
      contains_dashes_append [of out post] split by (auto simp: c_def)
  moreover have "\<forall>x\<in>set out. segment_char x = x" using collapse_dashes_props(2) [of "map segment_char (trim v)"] split by (auto simp: c_def)
  ultimately show ?thesis using trim_dashes_ends [of c] out by (simp add: segment_ok_def)
qed

lemma segment_fixed: "segment_ok s \<Longrightarrow> normalize_namespace_segment s = Inr s"
proof -
  assume s: "segment_ok s"
  have "trim s = s" using s segment_char_visible by (intro trim_visible) (auto simp: segment_ok_def)
  moreover have "map segment_char s = s" using s by (simp add: segment_ok_def map_idI)
  moreover have "collapse_dashes s = s" using s by (subst collapse_dashes.simps) (simp add: segment_ok_def)
  moreover have "dropWhile (\<lambda>c. c = CHR ''-'') s = s" "dropWhile (\<lambda>c. c = CHR ''-'') (rev s) = rev s"
    using s by (simp_all add: segment_ok_def dropWhile_eq_self_iff hd_rev)
  ultimately show ?thesis using s by (simp add: normalize_namespace_segment_def trim_dashes_def segment_ok_def)
qed

text \<open>Normalisation is idempotent and its results are exactly the canonical segments.\<close>

lemma segment_canonical: "(\<exists>v. normalize_namespace_segment v = Inr s) \<longleftrightarrow> segment_ok s"
  using segment_normalised segment_fixed by blast

section \<open>Namespaces separate networks, applications and tags\<close>

lemma hex_encode_inject: "hex_law E \<Longrightarrow> hex_encode E xs = hex_encode E ys \<Longrightarrow> xs = ys"
  unfolding laws by (metis option.inject)

lemma as_bytes_inject: "as_bytes s = as_bytes t \<Longrightarrow> s = t"
proof -
  have "inj (\<lambda>c. of_nat (of_char c) :: u8)"
  proof (rule injI)
    fix c d
    assume "(of_nat (of_char c) :: u8) = of_nat (of_char d)"
    then have "of_char c mod 256 = (of_char d :: nat) mod 256" by (simp add: word_unat_eq_iff unsigned_of_nat take_bit_eq_mod)
    then show "c = d" using of_char_eq_iff by (metis char_of_mod_256 char_of_char)
  qed
  then show "as_bytes s = as_bytes t \<Longrightarrow> s = t" by (simp add: as_bytes_def inj_map_eq_map)
qed

lemma hexdigit_no_slash: "list_all is_ascii_hexdigit s \<Longrightarrow> CHR ''/'' \<notin> set s"
  by (auto simp: list_all_iff is_ascii_hexdigit_def)

lemma segment_no_slash: "segment_ok s \<Longrightarrow> CHR ''/'' \<notin> set s"
  using segment_char_visible by (auto simp: segment_ok_def)

text \<open>The parts of a namespace.\<close>

lemma build_discovery_namespace_Inr:
  assumes "build_discovery_namespace E n app tag privacy allow = Inr d"
  shows "\<exists>segment. normalize_namespace_segment app = Inr (dn_app_id d)
    \<and> (privacy = Hashed \<longrightarrow> segment = discovery_tag_hash_hex E n (dn_app_id d) tag)
    \<and> (privacy = ReadableUnsafe \<longrightarrow> allow \<and> normalize_namespace_segment tag = Inr segment)
    \<and> dn_namespace d = DISCOVERY_NAMESPACE_PREFIX @ ''/'' @ show_nat n @ ''/'' @ dn_app_id d @ ''/'' @ segment \<and> dn_network_id d = n"
  using assms by (cases privacy) (auto simp: build_discovery_namespace_def Let_def)

text \<open>A discovery namespace determines what it was derived from: equal namespaces have the same network and the same
  normalised application id, and if both tags were hashed then the tags are equal byte for byte or BLAKE3 has a collision; if
  both were readable, their normalised forms are equal.\<close>

theorem namespace_separates:
  assumes "hex_law E" and "blake3_law E"
    and "build_discovery_namespace E n1 app1 tag1 privacy1 allow1 = Inr d1" and "build_discovery_namespace E n2 app2 tag2 privacy2 allow2 = Inr d2"
    and "dn_namespace d1 = dn_namespace d2"
  shows "n1 = n2 \<and> normalize_namespace_segment app1 = normalize_namespace_segment app2
    \<and> (privacy1 = Hashed \<and> privacy2 = Hashed \<longrightarrow> tag1 = tag2 \<or> (\<exists>x y. x \<noteq> y \<and> blake3 E x = blake3 E y))
    \<and> (privacy1 = ReadableUnsafe \<and> privacy2 = ReadableUnsafe \<longrightarrow> normalize_namespace_segment tag1 = normalize_namespace_segment tag2)"
proof -
  from build_discovery_namespace_Inr [OF assms(3)] obtain s1 where d1: "normalize_namespace_segment app1 = Inr (dn_app_id d1)"
      "privacy1 = Hashed \<Longrightarrow> s1 = discovery_tag_hash_hex E n1 (dn_app_id d1) tag1" "privacy1 = ReadableUnsafe \<Longrightarrow> normalize_namespace_segment tag1 = Inr s1"
      "dn_namespace d1 = DISCOVERY_NAMESPACE_PREFIX @ ''/'' @ show_nat n1 @ ''/'' @ dn_app_id d1 @ ''/'' @ s1" by blast
  from build_discovery_namespace_Inr [OF assms(4)] obtain s2 where d2: "normalize_namespace_segment app2 = Inr (dn_app_id d2)"
      "privacy2 = Hashed \<Longrightarrow> s2 = discovery_tag_hash_hex E n2 (dn_app_id d2) tag2" "privacy2 = ReadableUnsafe \<Longrightarrow> normalize_namespace_segment tag2 = Inr s2"
      "dn_namespace d2 = DISCOVERY_NAMESPACE_PREFIX @ ''/'' @ show_nat n2 @ ''/'' @ dn_app_id d2 @ ''/'' @ s2" by blast
  have "show_nat n1 @ ''/'' @ (dn_app_id d1 @ ''/'' @ s1) = show_nat n2 @ ''/'' @ (dn_app_id d2 @ ''/'' @ s2)" using assms(5) d1(4) d2(4) by simp
  from split_at_slash [OF show_nat_no_slash show_nat_no_slash this] have n: "n1 = n2" and rest: "dn_app_id d1 @ ''/'' @ s1 = dn_app_id d2 @ ''/'' @ s2"
    by (auto simp: show_nat_inject)
  from split_at_slash [OF segment_no_slash segment_no_slash rest] have same: "dn_app_id d1 = dn_app_id d2" "s1 = s2"
    using segment_normalised [OF d1(1)] segment_normalised [OF d2(1)] by simp_all
  have "tag1 = tag2 \<or> (\<exists>x y. x \<noteq> y \<and> blake3 E x = blake3 E y)" if "privacy1 = Hashed" "privacy2 = Hashed"
  proof -
    define pre where "pre = as_bytes DISCOVERY_NAMESPACE_HASH_CONTEXT @ to_be_bytes 4 n1 @ [0] @ as_bytes (dn_app_id d1) @ [0]"
    have "blake3_hex E (pre @ as_bytes tag1) = blake3_hex E (pre @ as_bytes tag2)"
      using d1(2) [OF that(1)] d2(2) [OF that(2)] same n by (simp add: discovery_tag_hash_hex_def pre_def)
    then have "blake3 E (pre @ as_bytes tag1) = blake3 E (pre @ as_bytes tag2)"
      using hex_encode_inject [OF assms(1)] assms(2) by (simp add: blake3_law_def)
    then show ?thesis using as_bytes_inject by (metis same_append_eq)
  qed
  then show ?thesis using n same d1 d2 by auto
qed

lemma build_namespace_demo: "\<exists>d. build_discovery_namespace demo_ext 7 ''hydra-msg'' ''room-1'' Hashed False = Inr d"
proof -
  have "segment_ok ''hydra-msg''"
    by (simp add: segment_ok_def segment_char_def is_ascii_alphanumeric_def to_ascii_lowercase_def)
  moreover have "trim ''hydra-msg'' = ''hydra-msg''" by (rule trim_visible) (simp add: visible_char_def)
  moreover have "trim ''room-1'' = ''room-1''" by (rule trim_visible) (simp add: visible_char_def)
  ultimately show ?thesis
    by (simp add: build_discovery_namespace_def validate_app_id_def validate_tag_def MAX_DISCOVERY_APP_ID_LEN_def MAX_DISCOVERY_TAG_LEN_def segment_fixed Let_def)
qed

theorem namespace_separates_witness:
  "\<exists>d. build_discovery_namespace demo_ext 7 ''hydra-msg'' ''room-1'' Hashed False = Inr d
    \<and> (\<forall>n app tag privacy allow d'. build_discovery_namespace demo_ext n app tag privacy allow = Inr d' \<longrightarrow> dn_namespace d' = dn_namespace d \<longrightarrow> n = 7)"
proof -
  obtain d where d: "build_discovery_namespace demo_ext 7 ''hydra-msg'' ''room-1'' Hashed False = Inr d" using build_namespace_demo by blast
  have "n = 7" if "build_discovery_namespace demo_ext n app tag privacy allow = Inr d'" "dn_namespace d' = dn_namespace d" for n app tag privacy allow d'
    using namespace_separates [OF demo_hex_law demo_blake3 that(1) d that(2)] by blast
  then show ?thesis using d by blast
qed

text \<open>The namespaces of a configuration: one per tag, in order, without repetition.\<close>

lemma derive_loop_Inr:
  "derive_loop E n c acc tags = Inr ds \<Longrightarrow> distinct (map dn_namespace acc) \<Longrightarrow>
     distinct (map dn_namespace ds) \<and> prefix acc ds
   \<and> (\<forall>d\<in>set ds. d \<in> set acc \<or> (\<exists>tag\<in>set tags. build_discovery_namespace E n (ns_app_id c) tag (ns_privacy c) (allow_readable_tags c) = Inr d))
   \<and> (\<forall>tag\<in>set tags. \<exists>d. build_discovery_namespace E n (ns_app_id c) tag (ns_privacy c) (allow_readable_tags c) = Inr d \<and> dn_namespace d \<in> dn_namespace ` set ds)"
proof (induction tags arbitrary: acc)
  case (Cons tag tags)
  from Cons.prems(1) obtain d where d: "build_discovery_namespace E n (ns_app_id c) tag (ns_privacy c) (allow_readable_tags c) = Inr d"
    and rest: "derive_loop E n c (if list_ex (\<lambda>known. dn_namespace known = dn_namespace d) acc then acc else acc @ [d]) tags = Inr ds" by auto
  define acc' where "acc' = (if list_ex (\<lambda>known. dn_namespace known = dn_namespace d) acc then acc else acc @ [d])"
  have acc': "distinct (map dn_namespace acc')" "prefix acc acc'" "set acc' \<subseteq> insert d (set acc)" "dn_namespace d \<in> dn_namespace ` set acc'"
    using Cons.prems(2) by (auto simp: acc'_def list_ex_iff intro: rev_image_eqI)
  define built where "built t e \<longleftrightarrow> build_discovery_namespace E n (ns_app_id c) t (ns_privacy c) (allow_readable_tags c) = Inr e" for t e
  note ih = Cons.IH [OF rest [folded acc'_def] acc'(1), folded built_def]
  then have ih1: "distinct (map dn_namespace ds)" "prefix acc' ds" "\<And>e. e \<in> set ds \<Longrightarrow> e \<in> set acc' \<or> (\<exists>t\<in>set tags. built t e)"
    "\<And>t. t \<in> set tags \<Longrightarrow> \<exists>e. built t e \<and> dn_namespace e \<in> dn_namespace ` set ds" by simp_all
  have "prefix acc ds" using acc'(2) ih1(2) by (rule prefix_order.trans)
  moreover have "\<forall>e\<in>set ds. e \<in> set acc \<or> (\<exists>t\<in>set (tag # tags). built t e)" using ih1(3) acc'(3) d by (auto simp: built_def)
  moreover have "dn_namespace d \<in> dn_namespace ` set ds" using set_mono_prefix [OF ih1(2)] acc'(4) by auto
  then have "\<forall>t\<in>set (tag # tags). \<exists>e. built t e \<and> dn_namespace e \<in> dn_namespace ` set ds" using ih1(4) d by (auto simp: built_def)
  ultimately show ?case using ih1(1) by (simp add: built_def)
qed auto

lemma derived_namespaces_distinct: "derived_namespaces E c n = Inr ds \<Longrightarrow> distinct (map dn_namespace ds)"
  using derive_loop_Inr [of E n c "[]" "ns_tags c" ds] by (auto simp: derived_namespaces_def)

end
