(* ===== verification/Discovery_Config.thy ===== *)
theory Discovery_Config
  imports Namespace
begin

text \<open>
  The discovery configuration: \<open>connectivity/discovery.rs\<close> with the configurations of rendezvous
  (\<open>connectivity/rendezvous.rs\<close>), of the DHT (\<open>connectivity/dht.rs\<close>), of LAN beacons (\<open>connectivity/lan.rs\<close>) and of relay
  discovery (\<open>connectivity/relay_discovery.rs\<close>). \<open>rendezvous::Namespace::new\<close> is a parameter: the error text of a namespace
  it refuses, if it does.
\<close>

section \<open>Configurations\<close>

record RendezvousConfig =
  rv_client_enabled :: bool
  rv_server_enabled :: bool
  rv_namespace :: string
  rv_register :: bool
  rv_discover :: bool
  register_ttl_secs :: nat
  rv_discover_limit :: nat
  server_min_ttl_secs :: nat
  server_max_ttl_secs :: nat
  server_max_registrations_per_peer :: nat
  server_max_registrations_total :: nat
  server_max_stored_cookies :: nat

definition rendezvous_namespace :: "(string \<Rightarrow> string option) \<Rightarrow> RendezvousConfig \<Rightarrow> net_error + unit" where
  "rendezvous_namespace ns_new c = (case ns_new (rv_namespace c) of None \<Rightarrow> Inr ()
     | Some err \<Rightarrow> Inl (config_error (''discovery.rendezvous.namespace `'' @ rv_namespace c @ ''` is invalid: '' @ err)))"

definition discover_limit :: "RendezvousConfig \<Rightarrow> nat option" where
  "discover_limit c = (if 0 < rv_discover_limit c then Some (rv_discover_limit c) else None)"

definition rendezvous_validate :: "(string \<Rightarrow> string option) \<Rightarrow> RendezvousConfig \<Rightarrow> net_error + unit" where
  "rendezvous_validate ns_new c =
     and_then (check_that (trim (rv_namespace c) \<noteq> []) (config_error ''discovery.rendezvous.namespace must not be empty'')) (\<lambda>_.
     and_then (rendezvous_namespace ns_new c) (\<lambda>_. first_error
     [(register_ttl_secs c = 0, config_error ''discovery.rendezvous.register_ttl_secs must be at least 1''),
      (server_min_ttl_secs c = 0, config_error ''discovery.rendezvous.server_min_ttl_secs must be at least 1''),
      (server_max_ttl_secs c < server_min_ttl_secs c, config_error ''discovery.rendezvous.server_max_ttl_secs must be >= server_min_ttl_secs''),
      (server_max_registrations_per_peer c = 0, config_error ''discovery.rendezvous.server_max_registrations_per_peer must be at least 1''),
      (server_max_registrations_total c = 0, config_error ''discovery.rendezvous.server_max_registrations_total must be at least 1''),
      (server_max_registrations_total c < server_max_registrations_per_peer c,
       config_error ''discovery.rendezvous.server_max_registrations_per_peer cannot exceed server_max_registrations_total''),
      (server_max_stored_cookies c = 0, config_error ''discovery.rendezvous.server_max_stored_cookies must be at least 1'')]))"

record DhtDiscoveryConfig =
  dht_enabled :: bool
  dht_announce :: bool
  dht_discover :: bool
  discover_with_rendezvous_peers :: bool
  refresh_interval_secs :: nat
  periodic_bootstrap_interval_secs :: "nat option"
  query_parallelism :: nat
  provider_key_replicas :: nat
  max_namespaces_per_refresh :: nat

definition dht_config_default :: DhtDiscoveryConfig where
  "dht_config_default = \<lparr>dht_enabled = True, dht_announce = True, dht_discover = True, discover_with_rendezvous_peers = True,
     refresh_interval_secs = 300, periodic_bootstrap_interval_secs = Some 300, query_parallelism = 3,
     provider_key_replicas = 3, max_namespaces_per_refresh = 16\<rparr>"

definition dht_config_validate :: "DhtDiscoveryConfig \<Rightarrow> net_error + unit" where
  "dht_config_validate c = first_error
     [(dht_enabled c \<and> \<not> dht_announce c \<and> \<not> dht_discover c, config_error ''discovery.dht must enable announce, discover, or be disabled''),
      (max_namespaces_per_refresh c = 0, config_error ''discovery.dht.max_namespaces_per_refresh must be at least 1''),
      (query_parallelism c = 0, config_error ''discovery.dht.query_parallelism must be at least 1''),
      (\<not> (1 \<le> provider_key_replicas c \<and> provider_key_replicas c \<le> 3), config_error ''discovery.dht.provider_key_replicas must be between 1 and 3''),
      (periodic_bootstrap_interval_secs c = Some 0, config_error ''discovery.dht.periodic_bootstrap_interval_secs must be null or at least 1''),
      (refresh_interval_secs c = 0, config_error ''discovery.dht.refresh_interval_secs must be at least 1'')]"

definition should_discover :: "DhtDiscoveryConfig \<Rightarrow> nat \<Rightarrow> bool" where
  "should_discover c rendezvous_peer_count \<longleftrightarrow>
     dht_enabled c \<and> dht_discover c \<and> (discover_with_rendezvous_peers c \<or> rendezvous_peer_count = 0)"

record LanDiscoveryConfig =
  lan_enabled :: bool
  lan_port :: nat
  announce_interval_secs :: nat

definition lan_config_default :: LanDiscoveryConfig where
  "lan_config_default = \<lparr>lan_enabled = True, lan_port = 44777, announce_interval_secs = 2\<rparr>"

definition lan_config_validate :: "LanDiscoveryConfig \<Rightarrow> net_error + unit" where
  "lan_config_validate c = first_error
     [(lan_enabled c \<and> lan_port c = 0, config_error ''discovery.lan.port must be at least 1''),
      (lan_enabled c \<and> announce_interval_secs c = 0, config_error ''discovery.lan.announce_interval_secs must be at least 1'')]"

record RelayDiscoveryPolicy =
  rd_enabled :: bool
  use_configured_relays :: bool
  use_cached_relays :: bool
  use_rendezvous_relays :: bool
  use_dht_relays :: bool
  rd_min_reservations :: nat
  rd_max_reservations :: nat
  prefer_configured_relays :: bool
  replace_failed_relays :: bool

definition relay_discovery_default :: RelayDiscoveryPolicy where
  "relay_discovery_default = \<lparr>rd_enabled = True, use_configured_relays = True, use_cached_relays = True,
     use_rendezvous_relays = True, use_dht_relays = True, rd_min_reservations = 3, rd_max_reservations = 8,
     prefer_configured_relays = True, replace_failed_relays = True\<rparr>"

definition relay_discovery_validate :: "RelayDiscoveryPolicy \<Rightarrow> net_error + unit" where
  "relay_discovery_validate c = (if \<not> rd_enabled c then Inr () else first_error
     [(rd_max_reservations c = 0, config_error ''discovery.relay_discovery.max_reservations must be at least 1''),
      (rd_max_reservations c < rd_min_reservations c, config_error ''discovery.relay_discovery.min_reservations must be <= max_reservations''),
      (\<not> use_configured_relays c \<and> \<not> use_cached_relays c \<and> \<not> use_rendezvous_relays c \<and> \<not> use_dht_relays c,
       config_error ''discovery.relay_discovery must enable at least one relay source'')])"

record DiscoveryConfig =
  peer_cache_path :: string
  peer_cache_max_entries :: nat
  peer_cache_max_age_secs :: nat
  peer_identity_max_age_secs :: nat
  peer_cache_public_addr_max_age_secs :: nat
  peer_cache_relay_addr_max_age_secs :: nat
  peer_cache_persist_local_addrs :: bool
  peer_cache_local_addr_max_age_secs :: nat
  peer_cache_max_failures :: nat
  bootstrap_seed_peers :: "string list"
  cfg_rendezvous_peers :: "string list"
  cfg_namespace :: DiscoveryNamespaceConfig
  cfg_lan :: LanDiscoveryConfig
  public_bootstrap :: PublicBootstrapConfig
  cfg_dht :: DhtDiscoveryConfig
  relay_discovery :: RelayDiscoveryPolicy
  cfg_rendezvous :: RendezvousConfig

section \<open>Namespaces of a configuration\<close>

definition DEFAULT_RENDEZVOUS_NAMESPACE :: string where "DEFAULT_RENDEZVOUS_NAMESPACE = ''p2p-net''"
definition APPLICATION_COMPATIBILITY_CONTEXT :: string where "APPLICATION_COMPATIBILITY_CONTEXT = ''p2p-net.application.compatibility.v1''"

definition rendezvous_namespaces :: "'p ext \<Rightarrow> DiscoveryConfig \<Rightarrow> nat \<Rightarrow> net_error + string list" where
  "rendezvous_namespaces E c network_id =
     (if namespace_config_is_enabled (cfg_namespace c)
      then and_then (derived_namespaces E (cfg_namespace c) network_id) (\<lambda>items. Inr (map dn_namespace items))
      else if rv_namespace (cfg_rendezvous c) = DEFAULT_RENDEZVOUS_NAMESPACE
      then and_then (default_discovery_namespace E network_id (ns_app_id (cfg_namespace c))) (\<lambda>item. Inr [dn_namespace item])
      else Inr [rv_namespace (cfg_rendezvous c)])"

definition derived_app_namespaces :: "'p ext \<Rightarrow> DiscoveryConfig \<Rightarrow> nat \<Rightarrow> net_error + DiscoveryNamespace list" where
  "derived_app_namespaces E c network_id = derived_namespaces E (cfg_namespace c) network_id"

fun check_namespaces :: "(string \<Rightarrow> string option) \<Rightarrow> string list \<Rightarrow> net_error + unit" where
  "check_namespaces ns_new [] = Inr ()"
| "check_namespaces ns_new (ns # rest) = (case ns_new ns of None \<Rightarrow> check_namespaces ns_new rest
     | Some err \<Rightarrow> Inl (config_error (''derived discovery namespace is invalid for rendezvous: '' @ err)))"

definition discovery_validate :: "'p ext \<Rightarrow> (string \<Rightarrow> string option) \<Rightarrow> DiscoveryConfig \<Rightarrow> net_error + unit" where
  "discovery_validate E ns_new c =
     and_then (first_error
     [(trim (peer_cache_path c) = [], config_error ''discovery.peer_cache_path must not be empty''),
      (peer_cache_max_entries c = 0, config_error ''discovery.peer_cache_max_entries must be at least 1''),
      (peer_identity_max_age_secs c = 0, config_error ''discovery.peer_identity_max_age_secs must be at least 1''),
      (peer_cache_public_addr_max_age_secs c = 0, config_error ''discovery.peer_cache_public_addr_max_age_secs must be at least 1''),
      (peer_cache_relay_addr_max_age_secs c = 0, config_error ''discovery.peer_cache_relay_addr_max_age_secs must be at least 1'')]) (\<lambda>_.
     and_then (namespace_config_validate (cfg_namespace c)) (\<lambda>_.
     and_then (lan_config_validate (cfg_lan c)) (\<lambda>_.
     and_then (public_bootstrap_validate (public_bootstrap c)) (\<lambda>_.
     and_then (dht_config_validate (cfg_dht c)) (\<lambda>_.
     and_then (relay_discovery_validate (relay_discovery c)) (\<lambda>_.
     and_then (rendezvous_validate ns_new (cfg_rendezvous c)) (\<lambda>_.
     and_then (rendezvous_namespaces E c 0) (check_namespaces ns_new))))))))"

text \<open>The version two nodes compare: a hash over the network and the set of namespaces, sorted.\<close>

definition compatibility_input :: "nat \<Rightarrow> string list \<Rightarrow> u8 list" where
  "compatibility_input network_id namespaces = as_bytes APPLICATION_COMPATIBILITY_CONTEXT @ to_be_bytes 4 network_id
     @ concat (map (\<lambda>namespace1. 0 # as_bytes namespace1) (remdups_adj (sort namespaces)))"

definition application_protocol_version :: "'p ext \<Rightarrow> DiscoveryConfig \<Rightarrow> nat \<Rightarrow> net_error + string" where
  "application_protocol_version E c network_id = and_then (rendezvous_namespaces E c network_id) (\<lambda>namespaces.
     Inr (''/p2p-net/net-'' @ show_nat network_id @ ''/app-'' @ blake3_hex E (compatibility_input network_id namespaces) @ ''/1.0.0''))"

section \<open>What a valid configuration guarantees\<close>

lemma discovery_validate_Inr:
  "discovery_validate E ns_new c = Inr u \<longleftrightarrow>
     trim (peer_cache_path c) \<noteq> [] \<and> 0 < peer_cache_max_entries c \<and> 0 < peer_identity_max_age_secs c
   \<and> 0 < peer_cache_public_addr_max_age_secs c \<and> 0 < peer_cache_relay_addr_max_age_secs c
   \<and> namespace_config_validate (cfg_namespace c) = Inr () \<and> lan_config_validate (cfg_lan c) = Inr ()
   \<and> public_bootstrap_validate (public_bootstrap c) = Inr () \<and> dht_config_validate (cfg_dht c) = Inr ()
   \<and> relay_discovery_validate (relay_discovery c) = Inr () \<and> rendezvous_validate ns_new (cfg_rendezvous c) = Inr ()
   \<and> (\<exists>namespaces. rendezvous_namespaces E c 0 = Inr namespaces \<and> check_namespaces ns_new namespaces = Inr ())"
  by (simp add: discovery_validate_def first_error_ok)

lemma check_namespaces_Inr: "check_namespaces ns_new ns = Inr u \<longleftrightarrow> (\<forall>n\<in>set ns. ns_new n = None)"
  by (induction ns) (auto split: option.splits)

section \<open>Application compatibility\<close>

lemma distinct_remdups_adj_sorted: "sorted xs \<Longrightarrow> distinct (remdups_adj xs)"
  by (induction xs rule: remdups_adj.induct) (auto simp: less_le)

lemma sorted_dedup_set:
  "remdups_adj (sort xs) = remdups_adj (sort ys) \<longleftrightarrow> set xs = set ys" for xs ys :: "'a::linorder list"
proof
  assume "set xs = set ys"
  then have "set (remdups_adj (sort xs)) = set (remdups_adj (sort ys))" by simp
  moreover have "sorted (remdups_adj (sort zs))" "distinct (remdups_adj (sort zs))" for zs :: "'a list"
    by (simp_all add: sorted_remdups_adj distinct_remdups_adj_sorted)
  ultimately show "remdups_adj (sort xs) = remdups_adj (sort ys)" by (intro sorted_distinct_set_unique)
qed (metis remdups_adj_set set_sort)

definition nul_free :: "string \<Rightarrow> bool" where
  "nul_free s \<longleftrightarrow> CHR 0x00 \<notin> set s"

lemma as_bytes_nul: "nul_free s \<Longrightarrow> 0 \<notin> set (as_bytes s)"
proof
  assume s: "nul_free s" and "0 \<in> set (as_bytes s)"
  then obtain c where c: "c \<in> set s" "(of_nat (of_char c) :: u8) = 0" by (auto simp: as_bytes_def)
  then have "as_bytes [c] = as_bytes [CHR 0x00]" by (simp add: as_bytes_def)
  then show False using as_bytes_inject c(1) s by (auto simp: nul_free_def)
qed

text \<open>The hash input lists the namespaces behind zero bytes, so it determines them.\<close>

lemma framing_inject:
  "(\<forall>s\<in>set xs \<union> set ys. nul_free s) \<Longrightarrow> concat (map (\<lambda>n. 0 # as_bytes n) xs) = concat (map (\<lambda>n. 0 # as_bytes n) ys) \<Longrightarrow> xs = ys"
proof (induction xs arbitrary: ys)
  case Nil
  then show ?case by (cases ys) auto
next
  case (Cons x xs)
  define frame where "frame ns = concat (map (\<lambda>n. (0 :: u8) # as_bytes n) ns)" for ns
  from Cons.prems(2) obtain y ys' where ys: "ys = y # ys'" by (cases ys) auto
  have eq: "as_bytes x @ frame xs = as_bytes y @ frame ys'" using Cons.prems(2) by (simp add: ys frame_def)
  have take: "takeWhile (\<lambda>b. b \<noteq> 0) (as_bytes s @ frame ns) = as_bytes s" if "nul_free s" for s ns
  proof -
    have all: "\<forall>b\<in>set (as_bytes s). b \<noteq> 0" using as_bytes_nul [OF that] by auto
    show ?thesis using all by (cases ns) (auto simp: frame_def takeWhile_append2 takeWhile_tail takeWhile_eq_all_conv)
  qed
  have "as_bytes x = as_bytes y" using take [of x xs] take [of y ys'] eq Cons.prems(1) by (simp add: ys)
  then have "x = y" "frame xs = frame ys'" using eq as_bytes_inject by auto
  then show ?case using Cons.IH [of ys'] Cons.prems(1) by (simp add: ys frame_def)
qed

lemma compatibility_input_inject:
  assumes "compatibility_input n ns1 = compatibility_input n ns2" and "\<forall>s\<in>set ns1 \<union> set ns2. nul_free s"
  shows "set ns1 = set ns2"
  using framing_inject [of "remdups_adj (sort ns1)" "remdups_adj (sort ns2)"] assms sorted_dedup_set [of ns1 ns2] by (simp add: compatibility_input_def)

text \<open>The protocol version by which a connection proves that it belongs to the same application is exact. Two nodes
  with the same network and the same set of namespaces, in any order and with repetitions, have the same version; and nodes
  with the same version have the same network and the same set of namespaces, unless BLAKE3 has a collision. Namespaces
  with a zero byte, which only an operator's own rendezvous namespace can have, are excluded.\<close>

theorem compatibility_exact:
  assumes "hex_law E" and "blake3_law E" and "rendezvous_namespaces E c1 n1 = Inr ns1" and "rendezvous_namespaces E c2 n2 = Inr ns2"
    and "\<forall>s\<in>set ns1 \<union> set ns2. nul_free s"
  shows "(n1 = n2 \<and> set ns1 = set ns2 \<longrightarrow> application_protocol_version E c1 n1 = application_protocol_version E c2 n2)
    \<and> (application_protocol_version E c1 n1 = application_protocol_version E c2 n2 \<longrightarrow>
         n1 = n2 \<and> (set ns1 = set ns2 \<or> (\<exists>x y. x \<noteq> y \<and> blake3 E x = blake3 E y)))"
proof (intro conjI impI)
  assume "n1 = n2 \<and> set ns1 = set ns2"
  then show "application_protocol_version E c1 n1 = application_protocol_version E c2 n2"
    using sorted_dedup_set [of ns1 ns2] assms(3,4) by (simp add: application_protocol_version_def compatibility_input_def)
next
  assume "application_protocol_version E c1 n1 = application_protocol_version E c2 n2"
  then have eq: "show_nat n1 @ ''/'' @ (''app-'' @ blake3_hex E (compatibility_input n1 ns1) @ ''/1.0.0'')
      = show_nat n2 @ ''/'' @ (''app-'' @ blake3_hex E (compatibility_input n2 ns2) @ ''/1.0.0'')"
    using assms(3,4) by (simp add: application_protocol_version_def)
  note split = split_at_slash [OF show_nat_no_slash show_nat_no_slash eq]
  then show n: "n1 = n2" by (simp add: show_nat_inject)
  have "blake3 E (compatibility_input n1 ns1) = blake3 E (compatibility_input n1 ns2)"
    using split hex_encode_inject [OF assms(1)] assms(2) n by (simp add: blake3_law_def)
  then show "set ns1 = set ns2 \<or> (\<exists>x y. x \<noteq> y \<and> blake3 E x = blake3 E y)"
    using compatibility_input_inject [OF _ assms(5)] by blast
qed

definition demo_discovery :: "string \<Rightarrow> DiscoveryConfig" where
  "demo_discovery ns = \<lparr>peer_cache_path = ''cache.json'', peer_cache_max_entries = 64, peer_cache_max_age_secs = 2592000,
     peer_identity_max_age_secs = 2592000, peer_cache_public_addr_max_age_secs = 600, peer_cache_relay_addr_max_age_secs = 7200,
     peer_cache_persist_local_addrs = False, peer_cache_local_addr_max_age_secs = 0, peer_cache_max_failures = 3,
     bootstrap_seed_peers = [], cfg_rendezvous_peers = [], cfg_namespace = namespace_config_default, cfg_lan = lan_config_default,
     public_bootstrap = private_infrastructure_only, cfg_dht = dht_config_default, relay_discovery = relay_discovery_default,
     cfg_rendezvous = \<lparr>rv_client_enabled = True, rv_server_enabled = False, rv_namespace = ns, rv_register = True, rv_discover = True,
       register_ttl_secs = 7200, rv_discover_limit = 64, server_min_ttl_secs = 7200, server_max_ttl_secs = 259200,
       server_max_registrations_per_peer = 32, server_max_registrations_total = 10000, server_max_stored_cookies = 10000\<rparr>\<rparr>"

lemma demo_rendezvous_namespaces: "ns \<noteq> ''p2p-net'' \<Longrightarrow> rendezvous_namespaces E (demo_discovery ns) n = Inr [ns]"
  by (simp add: rendezvous_namespaces_def demo_discovery_def namespace_config_is_enabled_def namespace_config_default_def DEFAULT_RENDEZVOUS_NAMESPACE_def)

theorem compatibility_exact_witness:
  "application_protocol_version demo_ext (demo_discovery ''mesh-a'') 7 \<noteq> application_protocol_version demo_ext (demo_discovery ''mesh-a'') 8"
proof -
  have ns: "rendezvous_namespaces demo_ext (demo_discovery ''mesh-a'') n = Inr [''mesh-a'']" for n by (rule demo_rendezvous_namespaces) simp
  have "\<forall>s\<in>set [''mesh-a''] \<union> set [''mesh-a'']. nul_free s" by (simp add: nul_free_def)
  from compatibility_exact [OF demo_hex_law demo_blake3 ns ns this, of 7 8] show ?thesis by simp
qed

end
