(* ===== verification/Peer_Cache.thy ===== *)
theory Peer_Cache
  imports Discovery_Config Relay_Protocol
begin

text \<open>
  The peer cache on disk: \<open>connectivity/peer_cache/\<close> (model, address policy, store). Identities are remembered for long,
  dialable addresses for a time that depends on their kind. The storage of the platform and the JSON codec are parameters;
  the clock is an argument.
\<close>

section \<open>The file\<close>

definition CACHE_VERSION :: nat where "CACHE_VERSION = 3"
definition MAX_PENDING_CACHE_MUTATIONS :: nat where "MAX_PENDING_CACHE_MUTATIONS = 4096"

datatype CachedDialAddrKind = CachedPublicDirect | RelayReservation | LocalSession

record CachedPeerIdentity =
  ci_peer_id :: string
  ci_last_seen_unix_secs :: nat

record CachedPeerAddr =
  ca_peer_id :: string
  ca_addr :: string
  ca_last_seen_unix_secs :: nat
  ca_failures :: nat
  ca_addr_kind :: CachedDialAddrKind
  expires_unix_secs :: "nat option"

record PeerCacheFile =
  cache_version :: nat
  identities :: "CachedPeerIdentity list"
  dialable_addrs :: "CachedPeerAddr list"
  cache_entries :: "CachedPeerAddr list"
  cache_addrs :: "string list"

definition cache_file_default :: PeerCacheFile where
  "cache_file_default = \<lparr>cache_version = 0, identities = [], dialable_addrs = [], cache_entries = [], cache_addrs = []\<rparr>"

text \<open>The storage and the codec: what reading a path returns, what writing it leaves, and JSON texts.\<close>

record ('d, 'j) cache_ext =
  st_read :: "string \<Rightarrow> 'd \<Rightarrow> 'j option"
  st_write_public :: "string \<Rightarrow> 'j \<Rightarrow> 'd \<Rightarrow> 'd"
  cache_from_json :: "'j \<Rightarrow> PeerCacheFile option"
  cache_to_json :: "PeerCacheFile \<Rightarrow> 'j option"

section \<open>Address policy\<close>

definition contains_any_p2p :: "'p multiaddr \<Rightarrow> bool" where
  "contains_any_p2p addr \<longleftrightarrow> list_ex (\<lambda>protocol. case protocol of P2p _ \<Rightarrow> True | _ \<Rightarrow> False) addr"

definition contains_dnsaddr :: "'p multiaddr \<Rightarrow> bool" where
  "contains_dnsaddr addr \<longleftrightarrow> list_ex (\<lambda>protocol. case protocol of Dnsaddr _ \<Rightarrow> True | _ \<Rightarrow> False) addr"

definition is_local_ipv4 :: "ipv4 \<Rightarrow> bool" where
  "is_local_ipv4 ip \<longleftrightarrow> v4_is_loopback ip \<or> v4_is_private ip \<or> v4_is_link_local ip"

definition is_local_ipv6 :: "ipv6 \<Rightarrow> bool" where
  "is_local_ipv6 ip \<longleftrightarrow> v6_is_loopback ip \<or> v6_is_unique_local ip \<or> v6_is_unicast_link_local ip"

definition contains_local_ip :: "'p multiaddr \<Rightarrow> bool" where
  "contains_local_ip addr \<longleftrightarrow> list_ex (\<lambda>protocol. case protocol of Ip4 ip \<Rightarrow> is_local_ipv4 ip | Ip6 ip \<Rightarrow> is_local_ipv6 ip | _ \<Rightarrow> False) addr"

definition is_cacheable_peer_addr :: "'p multiaddr \<Rightarrow> 'p option \<Rightarrow> bool" where
  "is_cacheable_peer_addr addr expected_peer = (case extract_p2p_peer_id addr of
     None \<Rightarrow> False
   | Some peer \<Rightarrow>
       if expected_peer \<noteq> None \<and> expected_peer \<noteq> Some peer then False
       else if has_unspecified_ip addr \<or> contains_dnsaddr addr then False
       else has_reachable_transport addr)"

definition classify_dialable_addr :: "'p multiaddr \<Rightarrow> CachedDialAddrKind option" where
  "classify_dialable_addr addr =
     (if \<not> has_reachable_transport addr \<or> has_unspecified_ip addr \<or> contains_dnsaddr addr then None
      else if is_p2p_circuit_addr addr then Some RelayReservation
      else if contains_local_ip addr then Some LocalSession
      else Some CachedPublicDirect)"

primrec is_persistable_dialable_addr_kind :: "DiscoveryConfig \<Rightarrow> CachedDialAddrKind \<Rightarrow> bool" where
  "is_persistable_dialable_addr_kind cfg CachedPublicDirect = True"
| "is_persistable_dialable_addr_kind cfg RelayReservation = True"
| "is_persistable_dialable_addr_kind cfg LocalSession = peer_cache_persist_local_addrs cfg"

definition is_persistable_dialable_peer_addr :: "DiscoveryConfig \<Rightarrow> 'p multiaddr \<Rightarrow> bool" where
  "is_persistable_dialable_peer_addr cfg addr =
     (if \<not> is_cacheable_peer_addr addr None then False
      else case classify_dialable_addr addr of None \<Rightarrow> False | Some kind \<Rightarrow> is_persistable_dialable_addr_kind cfg kind)"

definition normalize_peer_addr :: "'p \<Rightarrow> 'p multiaddr \<Rightarrow> 'p multiaddr option" where
  "normalize_peer_addr peer addr =
     (if is_cacheable_peer_addr addr (Some peer) then Some addr
      else if contains_any_p2p addr \<or> \<not> has_reachable_transport addr \<or> has_unspecified_ip addr then None
      else Some (addr @ [P2p peer]))"

fun min_nonzero :: "nat option \<Rightarrow> nat \<Rightarrow> nat option" where
  "min_nonzero None global_max = (if global_max = 0 then None else Some global_max)"
| "min_nonzero (Some kind) global_max = (if global_max = 0 then Some kind else Some (min kind global_max))"

definition effective_dialable_max_age_secs :: "DiscoveryConfig \<Rightarrow> CachedDialAddrKind \<Rightarrow> nat option" where
  "effective_dialable_max_age_secs cfg addr_kind = min_nonzero
     (case addr_kind of
        CachedPublicDirect \<Rightarrow> Some (peer_cache_public_addr_max_age_secs cfg)
      | RelayReservation \<Rightarrow> Some (peer_cache_relay_addr_max_age_secs cfg)
      | LocalSession \<Rightarrow> if peer_cache_local_addr_max_age_secs cfg = 0 then None else Some (peer_cache_local_addr_max_age_secs cfg))
     (peer_cache_max_age_secs cfg)"

definition inferred_expiry_secs :: "DiscoveryConfig \<Rightarrow> CachedDialAddrKind \<Rightarrow> nat \<Rightarrow> nat option" where
  "inferred_expiry_secs cfg addr_kind now = map_option (\<lambda>ttl. sat_add 64 now ttl) (effective_dialable_max_age_secs cfg addr_kind)"

definition normalize_entry_kind :: "'p ma_ext \<Rightarrow> CachedPeerAddr \<Rightarrow> CachedPeerAddr option" where
  "normalize_entry_kind M entry = Option.bind (ma_parse M (ca_addr entry)) (\<lambda>addr.
     map_option (\<lambda>kind. entry\<lparr>ca_addr_kind := kind\<rparr>) (classify_dialable_addr addr))"

definition is_valid_cache_entry :: "'p ext \<Rightarrow> 'p ma_ext \<Rightarrow> DiscoveryConfig \<Rightarrow> CachedPeerAddr \<Rightarrow> nat \<Rightarrow> bool" where
  "is_valid_cache_entry E M cfg entry now = (case (pid_parse E (ca_peer_id entry), ma_parse M (ca_addr entry)) of
     (Inr peer, Some addr) \<Rightarrow>
       if \<not> is_cacheable_peer_addr addr (Some peer) then False
       else (case classify_dialable_addr addr of
         None \<Rightarrow> False
       | Some kind \<Rightarrow>
           if \<not> is_persistable_dialable_addr_kind cfg kind then False
           else if (case expires_unix_secs entry of Some expires \<Rightarrow> expires \<le> now | None \<Rightarrow> False) then False
           else if (case effective_dialable_max_age_secs cfg kind of
                      Some max_age_secs \<Rightarrow> 0 < ca_last_seen_unix_secs entry \<and> max_age_secs < now - ca_last_seen_unix_secs entry
                    | None \<Rightarrow> False) then False
           else \<not> (0 < peer_cache_max_failures cfg \<and> peer_cache_max_failures cfg \<le> ca_failures entry))
   | _ \<Rightarrow> False)"

section \<open>Reading and writing\<close>

definition is_valid_identity_entry :: "'p ext \<Rightarrow> DiscoveryConfig \<Rightarrow> CachedPeerIdentity \<Rightarrow> nat \<Rightarrow> bool" where
  "is_valid_identity_entry E cfg identity1 now = (case pid_parse E (ci_peer_id identity1) of
     Inl _ \<Rightarrow> False
   | Inr _ \<Rightarrow> \<not> (0 < ci_last_seen_unix_secs identity1 \<and> peer_identity_max_age_secs cfg < now - ci_last_seen_unix_secs identity1))"

definition older_format_entries :: "'p ext \<Rightarrow> 'p ma_ext \<Rightarrow> PeerCacheFile \<Rightarrow> CachedPeerAddr list" where
  "older_format_entries E M file = List.map_filter (\<lambda>addr.
     Option.bind (Option.bind (ma_parse M addr) extract_p2p_peer_id) (\<lambda>peer.
     Some \<lparr>ca_peer_id = pid_to_string E peer, ca_addr = addr, ca_last_seen_unix_secs = 0, ca_failures = 0,
           ca_addr_kind = CachedPublicDirect, expires_unix_secs = None\<rparr>)) (cache_addrs file)"

text \<open>The first entry of each peer and address, with its kind.\<close>

fun normalize_entries :: "'p ma_ext \<Rightarrow> (string \<times> string) set \<Rightarrow> CachedPeerAddr list \<Rightarrow> CachedPeerAddr list" where
  "normalize_entries M seen [] = []"
| "normalize_entries M seen (entry # rest) = (case normalize_entry_kind M entry of
     None \<Rightarrow> normalize_entries M seen rest
   | Some entry \<Rightarrow>
       if (ca_peer_id entry, ca_addr entry) \<in> seen then normalize_entries M seen rest
       else entry # normalize_entries M (insert (ca_peer_id entry, ca_addr entry) seen) rest)"

definition valid_dialable_entries_from_file :: "'p ext \<Rightarrow> 'p ma_ext \<Rightarrow> DiscoveryConfig \<Rightarrow> PeerCacheFile \<Rightarrow> nat \<Rightarrow> CachedPeerAddr list" where
  "valid_dialable_entries_from_file E M cfg file now =
     (if cache_version file < CACHE_VERSION then []
      else take (peer_cache_max_entries cfg) (filter (\<lambda>entry. is_valid_cache_entry E M cfg entry now)
        (normalize_entries M {} (dialable_addrs file @ cache_entries file @ older_format_entries E M file))))"

fun first_of_peer :: "string set \<Rightarrow> CachedPeerIdentity list \<Rightarrow> CachedPeerIdentity list" where
  "first_of_peer seen [] = []"
| "first_of_peer seen (identity1 # rest) =
     (if ci_peer_id identity1 \<in> seen then first_of_peer seen rest else identity1 # first_of_peer (insert (ci_peer_id identity1) seen) rest)"

definition valid_identities_from_file :: "'p ext \<Rightarrow> 'p ma_ext \<Rightarrow> DiscoveryConfig \<Rightarrow> PeerCacheFile \<Rightarrow> nat \<Rightarrow> CachedPeerIdentity list" where
  "valid_identities_from_file E M cfg file now =
     (if cache_version file < CACHE_VERSION then []
      else take (peer_cache_max_entries cfg) (first_of_peer {} (filter (\<lambda>identity1. is_valid_identity_entry E cfg identity1 now)
        (identities file @ map (\<lambda>entry. \<lparr>ci_peer_id = ca_peer_id entry, ci_last_seen_unix_secs = ca_last_seen_unix_secs entry\<rparr>)
           (valid_dialable_entries_from_file E M cfg file now)))))"

definition read_cache_file :: "('d, 'j) cache_ext \<Rightarrow> DiscoveryConfig \<Rightarrow> 'd \<Rightarrow> PeerCacheFile option" where
  "read_cache_file C cfg disk = Option.bind (st_read C (peer_cache_path cfg) disk) (cache_from_json C)"

definition write_entries :: "('d, 'j) cache_ext \<Rightarrow> string \<Rightarrow> CachedPeerIdentity list \<Rightarrow> CachedPeerAddr list \<Rightarrow> 'd \<Rightarrow> 'd" where
  "write_entries C path identities1 entries disk =
     (case cache_to_json C \<lparr>cache_version = CACHE_VERSION, identities = identities1, dialable_addrs = entries, cache_entries = entries, cache_addrs = []\<rparr> of
        None \<Rightarrow> disk | Some text \<Rightarrow> st_write_public C path text disk)"

definition load_entries :: "'p ext \<Rightarrow> 'p ma_ext \<Rightarrow> ('d, 'j) cache_ext \<Rightarrow> DiscoveryConfig \<Rightarrow> nat \<Rightarrow> 'd \<Rightarrow> CachedPeerAddr list" where
  "load_entries E M C cfg now disk = (case read_cache_file C cfg disk of None \<Rightarrow> [] | Some file \<Rightarrow> valid_dialable_entries_from_file E M cfg file now)"

definition load_identities :: "'p ext \<Rightarrow> 'p ma_ext \<Rightarrow> ('d, 'j) cache_ext \<Rightarrow> DiscoveryConfig \<Rightarrow> nat \<Rightarrow> 'd \<Rightarrow> CachedPeerIdentity list" where
  "load_identities E M C cfg now disk = (case read_cache_file C cfg disk of None \<Rightarrow> [] | Some file \<Rightarrow> valid_identities_from_file E M cfg file now)"

definition load_last_addrs :: "'p ext \<Rightarrow> 'p ma_ext \<Rightarrow> ('d, 'j) cache_ext \<Rightarrow> DiscoveryConfig \<Rightarrow> nat \<Rightarrow> nat \<Rightarrow> 'd \<Rightarrow> 'p multiaddr list" where
  "load_last_addrs E M C cfg limit now disk = take limit (List.map_filter (\<lambda>entry. ma_parse M (ca_addr entry)) (load_entries E M C cfg now disk))"

section \<open>Mutations\<close>

datatype 'p PeerCacheMutation = Seen 'p "'p multiaddr" "nat option" | Failure 'p

definition upsert_identity :: "'p ext \<Rightarrow> 'p \<Rightarrow> nat \<Rightarrow> CachedPeerIdentity list \<Rightarrow> CachedPeerIdentity list" where
  "upsert_identity E peer now identities1 = \<lparr>ci_peer_id = pid_to_string E peer, ci_last_seen_unix_secs = now\<rparr>
     # filter (\<lambda>identity1. ci_peer_id identity1 \<noteq> pid_to_string E peer) identities1"

definition seen_entry :: "'p ext \<Rightarrow> 'p ma_ext \<Rightarrow> DiscoveryConfig \<Rightarrow> nat \<Rightarrow> 'p \<Rightarrow> 'p multiaddr \<Rightarrow> nat option \<Rightarrow> CachedPeerAddr option" where
  "seen_entry E M cfg now peer addr expires =
     Option.bind (normalize_peer_addr peer addr) (\<lambda>cache_addr.
     Option.bind (classify_dialable_addr cache_addr) (\<lambda>addr_kind.
     if \<not> is_persistable_dialable_addr_kind cfg addr_kind then None
     else Some \<lparr>ca_peer_id = pid_to_string E peer, ca_addr = ma_to_string M cache_addr, ca_last_seen_unix_secs = now, ca_failures = 0,
                ca_addr_kind = addr_kind,
                expires_unix_secs = (if expires = None then inferred_expiry_secs cfg addr_kind now else expires)\<rparr>))"

definition insert_entry :: "CachedPeerAddr \<Rightarrow> CachedPeerAddr list \<Rightarrow> CachedPeerAddr list" where
  "insert_entry new entries = new # filter (\<lambda>entry. ca_addr entry \<noteq> ca_addr new \<and> ca_peer_id entry \<noteq> ca_peer_id new) entries"

primrec apply_mutation :: "'p ext \<Rightarrow> 'p ma_ext \<Rightarrow> DiscoveryConfig \<Rightarrow> nat \<Rightarrow> 'p PeerCacheMutation \<Rightarrow>
    CachedPeerIdentity list \<times> CachedPeerAddr list \<Rightarrow> CachedPeerIdentity list \<times> CachedPeerAddr list" where
  "apply_mutation E M cfg now (Seen peer addr expires) st =
     (upsert_identity E peer now (fst st),
      (case seen_entry E M cfg now peer addr expires of None \<Rightarrow> snd st | Some new \<Rightarrow> insert_entry new (snd st)))"
| "apply_mutation E M cfg now (Failure peer) st =
     (fst st,
      filter (\<lambda>entry. peer_cache_max_failures cfg = 0 \<or> ca_failures entry < peer_cache_max_failures cfg)
        (map (\<lambda>entry. if ca_peer_id entry = pid_to_string E peer then entry\<lparr>ca_failures := sat_add 32 (ca_failures entry) 1\<rparr> else entry) (snd st)))"

definition apply_mutations :: "'p ext \<Rightarrow> 'p ma_ext \<Rightarrow> ('d, 'j) cache_ext \<Rightarrow> DiscoveryConfig \<Rightarrow> nat \<Rightarrow> 'p PeerCacheMutation list \<Rightarrow> 'd \<Rightarrow> 'd" where
  "apply_mutations E M C cfg now mutations disk =
     (let file = (case read_cache_file C cfg disk of None \<Rightarrow> cache_file_default | Some file \<Rightarrow> file);
          (identities1, entries) = fold (apply_mutation E M cfg now) mutations
            (valid_identities_from_file E M cfg file now, valid_dialable_entries_from_file E M cfg file now)
      in write_entries C (peer_cache_path cfg) (take (peer_cache_max_entries cfg) identities1) (take (peer_cache_max_entries cfg) entries) disk)"

section \<open>The write batch\<close>

record 'p PeerCacheWriteBatch =
  pending :: "'p PeerCacheMutation list"
  pending_seen :: "('p \<times> 'p multiaddr \<times> nat option) fset"

definition batch_default :: "'p PeerCacheWriteBatch" where
  "batch_default = \<lparr>pending = [], pending_seen = {||}\<rparr>"

definition batch_push :: "'p PeerCacheMutation \<Rightarrow> 'p PeerCacheWriteBatch \<Rightarrow> 'p PeerCacheWriteBatch" where
  "batch_push mutation b =
     (let b = (if MAX_PENDING_CACHE_MUTATIONS \<le> length (pending b) then
                 (case pending b of
                    [] \<Rightarrow> b
                  | Seen peer addr expires # rest \<Rightarrow> b\<lparr>pending := rest, pending_seen := pending_seen b |-| {|(peer, addr, expires)|}\<rparr>
                  | _ # rest \<Rightarrow> b\<lparr>pending := rest\<rparr>)
               else b)
      in b\<lparr>pending := pending b @ [mutation]\<rparr>)"

definition record_seen_with_expiry :: "'p \<Rightarrow> 'p multiaddr \<Rightarrow> nat option \<Rightarrow> 'p PeerCacheWriteBatch \<Rightarrow> 'p PeerCacheWriteBatch" where
  "record_seen_with_expiry peer addr expires b =
     (if (peer, addr, expires) |\<in>| pending_seen b then b
      else batch_push (Seen peer addr expires) (b\<lparr>pending_seen := finsert (peer, addr, expires) (pending_seen b)\<rparr>))"

definition record_seen :: "'p \<Rightarrow> 'p multiaddr \<Rightarrow> 'p PeerCacheWriteBatch \<Rightarrow> 'p PeerCacheWriteBatch" where
  "record_seen peer addr b = record_seen_with_expiry peer addr None b"

definition batch_record_failure :: "'p \<Rightarrow> 'p PeerCacheWriteBatch \<Rightarrow> 'p PeerCacheWriteBatch" where
  "batch_record_failure peer b = batch_push (Failure peer) b"

definition batch_is_empty :: "'p PeerCacheWriteBatch \<Rightarrow> bool" where
  "batch_is_empty b \<longleftrightarrow> pending b = []"

definition batch_flush :: "'p ext \<Rightarrow> 'p ma_ext \<Rightarrow> ('d, 'j) cache_ext \<Rightarrow> DiscoveryConfig \<Rightarrow> nat \<Rightarrow> 'p PeerCacheWriteBatch \<Rightarrow> 'd \<Rightarrow> 'p PeerCacheWriteBatch \<times> 'd" where
  "batch_flush E M C cfg now b disk =
     (if pending b = [] then (b, disk)
      else (b\<lparr>pending := [], pending_seen := {||}\<rparr>, apply_mutations E M C cfg now (pending b) disk))"

definition record_peer_addr_failure :: "'p ext \<Rightarrow> 'p ma_ext \<Rightarrow> ('d, 'j) cache_ext \<Rightarrow> DiscoveryConfig \<Rightarrow> nat \<Rightarrow> 'p \<Rightarrow> 'd \<Rightarrow> 'd" where
  "record_peer_addr_failure E M C cfg now peer disk = snd (batch_flush E M C cfg now (batch_record_failure peer batch_default) disk)"

definition record_seen_peer_addr_inner :: "'p ext \<Rightarrow> 'p ma_ext \<Rightarrow> ('d, 'j) cache_ext \<Rightarrow> DiscoveryConfig \<Rightarrow> nat \<Rightarrow> 'p \<Rightarrow> 'p multiaddr \<Rightarrow> nat option \<Rightarrow> 'd \<Rightarrow> 'd" where
  "record_seen_peer_addr_inner E M C cfg now peer addr expires disk =
     snd (batch_flush E M C cfg now (record_seen_with_expiry peer addr expires batch_default) disk)"

definition record_seen_peer_addr :: "'p ext \<Rightarrow> 'p ma_ext \<Rightarrow> ('d, 'j) cache_ext \<Rightarrow> DiscoveryConfig \<Rightarrow> nat \<Rightarrow> 'p \<Rightarrow> 'p multiaddr \<Rightarrow> 'd \<Rightarrow> 'd" where
  "record_seen_peer_addr E M C cfg now peer addr disk = record_seen_peer_addr_inner E M C cfg now peer addr None disk"

definition record_seen_peer_addr_with_expiry :: "'p ext \<Rightarrow> 'p ma_ext \<Rightarrow> ('d, 'j) cache_ext \<Rightarrow> DiscoveryConfig \<Rightarrow> nat \<Rightarrow> 'p \<Rightarrow> 'p multiaddr \<Rightarrow> nat \<Rightarrow> 'd \<Rightarrow> 'd" where
  "record_seen_peer_addr_with_expiry E M C cfg now peer addr expires disk = record_seen_peer_addr_inner E M C cfg now peer addr (Some expires) disk"

section \<open>What is loaded\<close>

text \<open>An entry that may be dialled at \<open>now\<close>: it names its peer and an address that ends in that peer, has no unspecified IP and
  no DNS redirection, is of a kind that may be kept, is neither expired nor too old, and has not failed too often.\<close>

definition entry_dialable :: "'p ext \<Rightarrow> 'p ma_ext \<Rightarrow> DiscoveryConfig \<Rightarrow> CachedPeerAddr \<Rightarrow> nat \<Rightarrow> bool" where
  "entry_dialable E M cfg e now \<longleftrightarrow> (\<exists>peer addr kind.
     pid_parse E (ca_peer_id e) = Inr peer \<and> ma_parse M (ca_addr e) = Some addr
   \<and> extract_p2p_peer_id addr = Some peer \<and> has_reachable_transport addr \<and> \<not> has_unspecified_ip addr \<and> \<not> contains_dnsaddr addr
   \<and> classify_dialable_addr addr = Some kind \<and> (kind = LocalSession \<longrightarrow> peer_cache_persist_local_addrs cfg)
   \<and> (\<forall>expires. expires_unix_secs e = Some expires \<longrightarrow> now < expires)
   \<and> (\<forall>age. effective_dialable_max_age_secs cfg kind = Some age \<longrightarrow> 0 < ca_last_seen_unix_secs e \<longrightarrow> now \<le> ca_last_seen_unix_secs e + age)
   \<and> (0 < peer_cache_max_failures cfg \<longrightarrow> ca_failures e < peer_cache_max_failures cfg))"

lemma valid_cache_entry: "is_valid_cache_entry E M cfg e now \<longleftrightarrow> entry_dialable E M cfg e now"
proof -
  have persist: "is_persistable_dialable_addr_kind cfg k \<longleftrightarrow> (k = LocalSession \<longrightarrow> peer_cache_persist_local_addrs cfg)" for k by (cases k) simp_all
  show ?thesis
  proof (cases "pid_parse E (ca_peer_id e)")
    case (Inr peer)
    show ?thesis
    proof (cases "ma_parse M (ca_addr e)")
      case (Some addr)
      define cls where "cls = classify_dialable_addr addr"
      have cls: "cls \<noteq> None \<Longrightarrow> has_reachable_transport addr \<and> \<not> has_unspecified_ip addr \<and> \<not> contains_dnsaddr addr"
        by (auto simp: cls_def classify_dialable_addr_def split: if_splits)
      define aged where "aged kind = (case effective_dialable_max_age_secs cfg kind of
          Some age \<Rightarrow> 0 < ca_last_seen_unix_secs e \<and> age < now - ca_last_seen_unix_secs e | None \<Rightarrow> False)" for kind
      have aged: "\<not> aged kind \<longleftrightarrow> (\<forall>age. effective_dialable_max_age_secs cfg kind = Some age \<longrightarrow> 0 < ca_last_seen_unix_secs e \<longrightarrow> now \<le> ca_last_seen_unix_secs e + age)" for kind
        unfolding aged_def by (cases "effective_dialable_max_age_secs cfg kind") auto
      have "is_valid_cache_entry E M cfg e now \<longleftrightarrow> extract_p2p_peer_id addr = Some peer \<and> (\<exists>kind. cls = Some kind \<and> is_persistable_dialable_addr_kind cfg kind
          \<and> (\<forall>expires. expires_unix_secs e = Some expires \<longrightarrow> now < expires) \<and> \<not> aged kind
          \<and> (0 < peer_cache_max_failures cfg \<longrightarrow> ca_failures e < peer_cache_max_failures cfg))"
        using cls by (cases cls; cases "extract_p2p_peer_id addr"; cases "expires_unix_secs e")
          (simp_all add: is_valid_cache_entry_def Inr Some is_cacheable_peer_addr_def flip: cls_def aged_def, auto)
      also have "\<dots> \<longleftrightarrow> entry_dialable E M cfg e now" using cls by (auto simp: entry_dialable_def Inr Some persist aged simp flip: cls_def)
      finally show ?thesis .
    qed (simp add: is_valid_cache_entry_def entry_dialable_def Inr)
  qed (simp add: is_valid_cache_entry_def entry_dialable_def)
qed

definition entry_key :: "CachedPeerAddr \<Rightarrow> string \<times> string" where
  "entry_key e = (ca_peer_id e, ca_addr e)"

lemma normalize_entry_kind_key: "normalize_entry_kind M e = Some e' \<Longrightarrow> entry_key e' = entry_key e \<and> normalize_entry_kind M e' = Some e'"
  by (auto simp: normalize_entry_kind_def entry_key_def split: bind_splits)

lemma normalize_entries_props:
  "distinct (map entry_key (normalize_entries M seen es)) \<and> (\<forall>e\<in>set (normalize_entries M seen es). entry_key e \<notin> seen \<and> normalize_entry_kind M e = Some e)"
proof (induction es arbitrary: seen)
  case (Cons e es)
  show ?case
  proof (cases "normalize_entry_kind M e")
    case (Some e')
    note e' = normalize_entry_kind_key [OF Some]
    show ?thesis
    proof (cases "(ca_peer_id e', ca_addr e') \<in> seen")
      case True
      then show ?thesis using Cons.IH [of seen] by (simp add: Some)
    next
      case False
      then show ?thesis using Cons.IH [of "insert (ca_peer_id e', ca_addr e') seen"] e' by (auto simp: Some entry_key_def)
    qed
  qed (use Cons.IH [of seen] in simp)
qed simp

text \<open>Entries with distinct keys and their kind are kept as they are, and a second copy adds nothing.\<close>

definition entries_ok :: "'p ma_ext \<Rightarrow> CachedPeerAddr list \<Rightarrow> bool" where
  "entries_ok M es \<longleftrightarrow> distinct (map entry_key es) \<and> (\<forall>e\<in>set es. normalize_entry_kind M e = Some e)"

lemma normalize_entries_seen:
  "\<forall>e\<in>set es. normalize_entry_kind M e = Some e \<and> entry_key e \<in> seen \<Longrightarrow> normalize_entries M seen (es @ rest) = normalize_entries M seen rest"
  by (induction es) (simp_all add: entry_key_def)

lemma normalize_entries_ok:
  "entries_ok M es \<Longrightarrow> seen \<inter> entry_key ` set es = {} \<Longrightarrow> normalize_entries M seen (es @ rest) = es @ normalize_entries M (seen \<union> entry_key ` set es) rest"
proof (induction es arbitrary: seen)
  case (Cons e es)
  have head: "normalize_entry_kind M e = Some e" "(ca_peer_id e, ca_addr e) \<notin> seen" using Cons.prems by (auto simp: entries_ok_def entry_key_def)
  have "insert (ca_peer_id e, ca_addr e) seen \<inter> entry_key ` set es = {}" using Cons.prems by (auto simp: entries_ok_def entry_key_def)
  from Cons.IH [OF _ this] have "normalize_entries M (insert (ca_peer_id e, ca_addr e) seen) (es @ rest)
      = es @ normalize_entries M (insert (ca_peer_id e, ca_addr e) seen \<union> entry_key ` set es) rest" using Cons.prems(1) by (simp add: entries_ok_def)
  then show ?case using head by (simp add: entry_key_def insert_commute)
qed simp

lemma normalize_entries_twice: "entries_ok M es \<Longrightarrow> normalize_entries M {} (es @ es) = es"
proof -
  assume es: "entries_ok M es"
  then have "normalize_entries M {} (es @ es) = es @ normalize_entries M (entry_key ` set es) es" using normalize_entries_ok [of M es "{}" es] by simp
  also have "normalize_entries M (entry_key ` set es) es = []"
    using normalize_entries_seen [of es M "entry_key ` set es" "[]"] es by (simp add: entries_ok_def)
  finally show ?thesis by simp
qed

lemma valid_entries_props:
  "entries_ok M (valid_dialable_entries_from_file E M cfg f now)"
  "e \<in> set (valid_dialable_entries_from_file E M cfg f now) \<Longrightarrow> entry_dialable E M cfg e now"
  "length (valid_dialable_entries_from_file E M cfg f now) \<le> peer_cache_max_entries cfg"
proof -
  define es where "es = normalize_entries M {} (dialable_addrs f @ cache_entries f @ older_format_entries E M f)"
  define vs where "vs = take (peer_cache_max_entries cfg) (filter (\<lambda>e. entry_dialable E M cfg e now) es)"
  have eq: "valid_dialable_entries_from_file E M cfg f now = (if cache_version f < CACHE_VERSION then [] else vs)"
    by (simp add: valid_dialable_entries_from_file_def valid_cache_entry vs_def es_def)
  have sub: "x \<in> set es" "entry_dialable E M cfg x now" if "x \<in> set vs" for x using in_set_takeD [OF that [unfolded vs_def]] by simp_all
  have "distinct (map entry_key (filter (\<lambda>e. entry_dialable E M cfg e now) es))"
    unfolding es_def by (rule distinct_map_filter [OF normalize_entries_props [THEN conjunct1]])
  from distinct_take [OF this] have "distinct (map entry_key vs)" unfolding take_map vs_def .
  moreover have "\<forall>x\<in>set es. normalize_entry_kind M x = Some x" unfolding es_def using normalize_entries_props by blast
  then have "\<forall>x\<in>set vs. normalize_entry_kind M x = Some x" using sub(1) by blast
  ultimately show "entries_ok M (valid_dialable_entries_from_file E M cfg f now)" unfolding eq entries_ok_def by simp
  have "length vs \<le> peer_cache_max_entries cfg" by (simp add: vs_def)
  then show "length (valid_dialable_entries_from_file E M cfg f now) \<le> peer_cache_max_entries cfg" unfolding eq by simp
  show "entry_dialable E M cfg e now" if "e \<in> set (valid_dialable_entries_from_file E M cfg f now)"
    using that sub(2) unfolding eq by (cases "cache_version f < CACHE_VERSION") simp_all
qed

text \<open>Whatever the cache file contains, damaged or written by another program, the addresses the node loads from it are
  safe to dial: at most the configured number, none twice, and each of them parses, ends in the peer it is listed under, is
  neither unspecified nor a DNS redirection, is local only if local addresses are kept, is neither expired nor older than its
  kind may be, and has not failed too often.\<close>

theorem loaded_entries_dialable:
  "length (load_entries E M C cfg now disk) \<le> peer_cache_max_entries cfg
   \<and> distinct (map entry_key (load_entries E M C cfg now disk)) \<and> list_all (\<lambda>e. entry_dialable E M cfg e now) (load_entries E M C cfg now disk)"
proof (cases "read_cache_file C cfg disk")
  case (Some f)
  show ?thesis using valid_entries_props [where E = E and M = M and cfg = cfg and f = f and now = now]
    by (simp add: load_entries_def Some list_all_iff entries_ok_def)
qed (simp add: load_entries_def)

section \<open>What is written\<close>

text \<open>A multiaddress is parsed back from its text; a file that was written is read back, and JSON inverts itself on it.\<close>

definition ma_roundtrip_law :: "'p ma_ext \<Rightarrow> bool" where
  [laws]: "ma_roundtrip_law M \<longleftrightarrow> (\<forall>a. ma_parse M (ma_to_string M a) = Some a)"

definition cache_storage_law :: "('d, 'j) cache_ext \<Rightarrow> bool" where
  [laws]: "cache_storage_law C \<longleftrightarrow> (\<forall>path text1 d. st_read C path (st_write_public C path text1 d) = Some text1)
     \<and> (\<forall>f. \<exists>text1. cache_to_json C f = Some text1 \<and> cache_from_json C text1 = Some f)"

lemma seen_entry_kind:
  assumes "ma_roundtrip_law M" and "seen_entry E M cfg now p a x = Some e"
  shows "normalize_entry_kind M e = Some e"
  using assms by (auto simp: seen_entry_def normalize_entry_kind_def ma_roundtrip_law_def bind_eq_Some_conv split: if_splits)

lemma entries_ok_filter: "entries_ok M es \<Longrightarrow> entries_ok M (filter P es)"
  by (simp add: entries_ok_def distinct_map_filter)

lemma entries_ok_take: "entries_ok M es \<Longrightarrow> entries_ok M (take n es)"
  unfolding entries_ok_def by (metis distinct_take in_set_takeD take_map)

lemma entries_ok_insert:
  assumes "entries_ok M es" and "normalize_entry_kind M e = Some e"
  shows "entries_ok M (insert_entry e es)"
proof -
  have "entries_ok M (filter (\<lambda>x. ca_addr x \<noteq> ca_addr e \<and> ca_peer_id x \<noteq> ca_peer_id e) es)" by (rule entries_ok_filter [OF assms(1)])
  then show ?thesis using assms(2) by (auto simp: insert_entry_def entries_ok_def entry_key_def)
qed

lemma entries_ok_failed:
  assumes "entries_ok M es"
  shows "entries_ok M (map (\<lambda>e. if P e then e\<lparr>ca_failures := f e\<rparr> else e) es)"
proof -
  have key: "entry_key (if P e then e\<lparr>ca_failures := f e\<rparr> else e) = entry_key e" for e by (simp add: entry_key_def)
  have kind: "normalize_entry_kind M (e\<lparr>ca_failures := n\<rparr>) = map_option (\<lambda>e. e\<lparr>ca_failures := n\<rparr>) (normalize_entry_kind M e)" for e n
    by (cases e; cases "ma_parse M (ca_addr e)") (simp_all add: normalize_entry_kind_def option.map_comp o_def)
  show ?thesis using assms kind by (auto simp: entries_ok_def key comp_def)
qed

lemma entries_ok_mutation:
  assumes "ma_roundtrip_law M" and "entries_ok M (snd st)"
  shows "entries_ok M (snd (apply_mutation E M cfg now m st))"
proof (cases m)
  case (Seen p a x)
  then show ?thesis using assms(2) entries_ok_insert [OF assms(2) seen_entry_kind [OF assms(1)]] by (simp split: option.split)
next
  case (Failure p)
  then show ?thesis using entries_ok_filter [OF entries_ok_failed [OF assms(2)]] by simp
qed

lemma entries_ok_mutations:
  "ma_roundtrip_law M \<Longrightarrow> entries_ok M (snd st) \<Longrightarrow> entries_ok M (snd (fold (apply_mutation E M cfg now) ms st))"
  by (induction ms arbitrary: st) (simp_all add: entries_ok_mutation)

lemma load_of_written:
  assumes "cache_storage_law C" and "entries_ok M es" and "length es \<le> peer_cache_max_entries cfg"
  shows "load_entries E M C cfg now (write_entries C (peer_cache_path cfg) ids es disk) = filter (\<lambda>e. entry_dialable E M cfg e now) es"
proof -
  define f where "f = \<lparr>cache_version = CACHE_VERSION, identities = ids, dialable_addrs = es, cache_entries = es, cache_addrs = []\<rparr>"
  have read: "read_cache_file C cfg (write_entries C (peer_cache_path cfg) ids es disk) = Some f"
  proof -
    obtain text1 where "cache_to_json C f = Some text1" "cache_from_json C text1 = Some f" using assms(1) unfolding cache_storage_law_def by blast
    then show ?thesis using assms(1) by (simp add: cache_storage_law_def read_cache_file_def write_entries_def flip: f_def)
  qed
  have "normalize_entries M {} (dialable_addrs f @ cache_entries f @ older_format_entries E M f) = es"
    using normalize_entries_twice [OF assms(2)] by (simp add: f_def older_format_entries_def map_filter_def)
  then have "valid_dialable_entries_from_file E M cfg f now = take (peer_cache_max_entries cfg) (filter (\<lambda>e. entry_dialable E M cfg e now) es)"
    by (simp add: valid_dialable_entries_from_file_def f_def valid_cache_entry)
  moreover have "length (filter (\<lambda>e. entry_dialable E M cfg e now) es) \<le> peer_cache_max_entries cfg" using assms(3) by (rule le_trans [OF length_filter_le])
  ultimately show ?thesis by (simp add: load_entries_def read)
qed

text \<open>C28. The cache is faithful across a restart. After a flush, whatever was on disk before, loading at any later time gives
  exactly the entries the pending mutations produce from what could be loaded before, in the same order, without those that
  can no longer be dialled at that time.\<close>

theorem peer_cache_roundtrip:
  assumes "ma_roundtrip_law M" and "cache_storage_law C" and "pending b \<noteq> []"
  shows "load_entries E M C cfg later (snd (batch_flush E M C cfg now b disk)) = filter (\<lambda>e. entry_dialable E M cfg e later)
    (take (peer_cache_max_entries cfg) (snd (fold (apply_mutation E M cfg now) (pending b) (load_identities E M C cfg now disk, load_entries E M C cfg now disk))))"
proof -
  define f where "f = (case read_cache_file C cfg disk of None \<Rightarrow> cache_file_default | Some f \<Rightarrow> f)"
  have loaded: "load_identities E M C cfg now disk = valid_identities_from_file E M cfg f now" "load_entries E M C cfg now disk = valid_dialable_entries_from_file E M cfg f now"
    by (cases "read_cache_file C cfg disk"; simp add: load_identities_def load_entries_def f_def valid_identities_from_file_def
        valid_dialable_entries_from_file_def cache_file_default_def CACHE_VERSION_def)+
  define st where "st = fold (apply_mutation E M cfg now) (pending b) (load_identities E M C cfg now disk, load_entries E M C cfg now disk)"
  have "entries_ok M (snd st)" unfolding st_def loaded by (rule entries_ok_mutations [OF assms(1)]) (simp add: valid_entries_props(1))
  then have ok: "entries_ok M (take (peer_cache_max_entries cfg) (snd st))" by (rule entries_ok_take)
  have "snd (batch_flush E M C cfg now b disk) = write_entries C (peer_cache_path cfg)
      (take (peer_cache_max_entries cfg) (fst st)) (take (peer_cache_max_entries cfg) (snd st)) disk"
    using assms(3) by (simp add: batch_flush_def apply_mutations_def st_def loaded case_prod_beta flip: f_def)
  then show ?thesis using load_of_written [OF assms(2) ok] by (simp add: st_def)
qed

text \<open>An instance of the parameters: one file, kept as it is, and a text of multiaddresses that can be parsed.\<close>

definition demo_cache :: "(PeerCacheFile option, PeerCacheFile) cache_ext" where
  "demo_cache = \<lparr>st_read = (\<lambda>path d. d), st_write_public = (\<lambda>path text1 d. Some text1), cache_from_json = Some, cache_to_json = Some\<rparr>"

definition demo_ma_text :: "u8 ma_ext" where
  "demo_ma_text = \<lparr>ma_to_string = (\<lambda>a. demo_hex (ma_to_vec demo_ma_bin a)), ma_parse = (\<lambda>s. Option.bind (hex_decode demo_ext s) (ma_from_vec demo_ma_bin))\<rparr>"

lemma demo_cache_law: "cache_storage_law demo_cache"
  by (simp add: cache_storage_law_def demo_cache_def)

lemma demo_ma_roundtrip: "ma_roundtrip_law demo_ma_text"
  using demo_ma_bin_law demo_hex_law unfolding laws by (simp add: demo_ma_text_def demo_ext_def)

definition demo_addr :: "u8 \<Rightarrow> u8 multiaddr" where
  "demo_addr host = [Ip4 (Ipv4 8 8 8 host), Tcp 4001]"

theorem peer_cache_roundtrip_witness:
  "load_entries demo_ext demo_ma_text demo_cache (demo_discovery ''mesh'') 1010
     (snd (batch_flush demo_ext demo_ma_text demo_cache (demo_discovery ''mesh'') 1000 (record_seen 7 (demo_addr 1) batch_default) None))
   = filter (\<lambda>e. entry_dialable demo_ext demo_ma_text (demo_discovery ''mesh'') e 1010)
       (take 64 (snd (fold (apply_mutation demo_ext demo_ma_text (demo_discovery ''mesh'') 1000) [Seen 7 (demo_addr 1) None] ([], []))))"
proof -
  have "pending (record_seen 7 (demo_addr 1) batch_default) = [Seen 7 (demo_addr 1) None]"
    by (simp add: record_seen_def record_seen_with_expiry_def batch_push_def batch_default_def MAX_PENDING_CACHE_MUTATIONS_def)
  moreover have "load_identities demo_ext demo_ma_text demo_cache (demo_discovery ''mesh'') 1000 None = []"
    "load_entries demo_ext demo_ma_text demo_cache (demo_discovery ''mesh'') 1000 None = []"
    by (simp_all add: load_identities_def load_entries_def read_cache_file_def demo_cache_def)
  moreover have "peer_cache_max_entries (demo_discovery ''mesh'') = 64" by (simp add: demo_discovery_def)
  ultimately show ?thesis using peer_cache_roundtrip [OF demo_ma_roundtrip demo_cache_law, of "record_seen 7 (demo_addr 1) batch_default" demo_ext
      "demo_discovery ''mesh''" 1010 1000 None] by simp
qed

section \<open>Coalescing\<close>

lemma seen_entry_key: "seen_entry E M cfg now p a x = Some e \<Longrightarrow> ca_peer_id e = pid_to_string E p"
  by (auto simp: seen_entry_def bind_eq_Some_conv split: if_splits)

text \<open>Three sightings of a peer in one batch, at an address, at another, and at the first again: the third is not queued.\<close>

lemma repeated_sighting_dropped:
  assumes "a1 \<noteq> a2"
  shows "pending (record_seen p a1 (record_seen p a2 (record_seen p a1 batch_default))) = [Seen p a1 None, Seen p a2 None]"
  using assms by (simp add: record_seen_def record_seen_with_expiry_def batch_push_def batch_default_def MAX_PENDING_CACHE_MUTATIONS_def)

text \<open>A write batch can lose the address at which a peer was seen last. If a peer is seen at one address, then at another,
  then at the first again before the batch is flushed, the cache keeps one entry for it, for the second address; written one
  by one, the same sightings leave the first address.\<close>

theorem coalescing_loses_latest:
  assumes "a1 \<noteq> a2" and "seen_entry E M cfg now p a1 None = Some e1" and "seen_entry E M cfg now p a2 None = Some e2"
    and "b = record_seen p a1 (record_seen p a2 (record_seen p a1 batch_default))"
  shows "filter (\<lambda>e. ca_peer_id e = pid_to_string E p) (snd (fold (apply_mutation E M cfg now) (pending b) (ids, es))) = [e2]
    \<and> filter (\<lambda>e. ca_peer_id e = pid_to_string E p) (snd (fold (apply_mutation E M cfg now) [Seen p a1 None, Seen p a2 None, Seen p a1 None] (ids, es))) = [e1]"
proof -
  have new: "filter (\<lambda>e. ca_peer_id e = pid_to_string E p) (insert_entry e xs) = [e]" if "ca_peer_id e = pid_to_string E p" for e xs
    using that by (simp add: insert_entry_def filter_empty_conv)
  show ?thesis using assms(2,3) new [OF seen_entry_key [OF assms(2)]] new [OF seen_entry_key [OF assms(3)]]
    by (simp add: assms(4) repeated_sighting_dropped [OF assms(1)])
qed

theorem coalescing_loses_latest_witness:
  "\<exists>e1 e2. seen_entry demo_ext demo_ma_text (demo_discovery ''mesh'') 1000 7 (demo_addr 1) None = Some e1 \<and> ca_addr e1 \<noteq> ca_addr e2
     \<and> filter (\<lambda>e. ca_peer_id e = pid_to_string demo_ext 7) (snd (fold (apply_mutation demo_ext demo_ma_text (demo_discovery ''mesh'') 1000)
         (pending (record_seen 7 (demo_addr 1) (record_seen 7 (demo_addr 2) (record_seen 7 (demo_addr 1) batch_default)))) ([], []))) = [e2]"
proof -
  let ?cfg = "demo_discovery ''mesh''"
  have seen: "seen_entry demo_ext demo_ma_text ?cfg 1000 7 (demo_addr h) None = Some \<lparr>ca_peer_id = pid_to_string demo_ext 7,
      ca_addr = ma_to_string demo_ma_text (demo_addr h @ [P2p 7]), ca_last_seen_unix_secs = 1000, ca_failures = 0, ca_addr_kind = CachedPublicDirect,
      expires_unix_secs = inferred_expiry_secs ?cfg CachedPublicDirect 1000\<rparr>" for h
    by (simp add: seen_entry_def normalize_peer_addr_def is_cacheable_peer_addr_def demo_addr_def extract_p2p_peer_id_def contains_any_p2p_def
        has_reachable_transport_def has_unspecified_ip_def classify_dialable_addr_def contains_dnsaddr_def is_p2p_circuit_addr_def contains_local_ip_def is_local_ipv4_def)
  have "ma_to_string demo_ma_text (demo_addr 1 @ [P2p 7]) \<noteq> ma_to_string demo_ma_text (demo_addr 2 @ [P2p 7])"
  proof
    assume eq: "ma_to_string demo_ma_text (demo_addr 1 @ [P2p 7]) = ma_to_string demo_ma_text (demo_addr 2 @ [P2p 7])"
    have "ma_parse demo_ma_text (ma_to_string demo_ma_text a) = Some a" for a using demo_ma_roundtrip by (simp add: ma_roundtrip_law_def)
    from this [of "demo_addr 1 @ [P2p 7]"] this [of "demo_addr 2 @ [P2p 7]"] eq show False by (simp add: demo_addr_def)
  qed
  moreover have "demo_addr 1 \<noteq> demo_addr 2" by (simp add: demo_addr_def)
  ultimately show ?thesis using coalescing_loses_latest [OF _ seen [of 1] seen [of 2] refl, of "[]" "[]"] seen [of 1] by auto
qed

end
