(* ===== verification/Spec2Isabelle.thy ===== *)
theory Spec2Isabelle
  imports Node_Messages Gossip_Mesh Peer_Book Connection_Limits Connection_Strategy Relay_Service
    Relay_Node Relay_Client Direct_Upgrade Dial Dht_State Peer_Cache
begin

text \<open>
  A verification of p2p-net, a peer-to-peer node in Rust over libp2p, and of the forks of libp2p
  Gossipsub and libp2p Relay it ships. Paths below are relative to \<open>src/\<close>.

  \<^bold>\<open>The program.\<close> A node owns a libp2p swarm. Gossipsub carries signed heartbeats and application
  messages; large messages travel in fragments. What arrives is validated, checked for replay and
  given a verdict, which decides whether Gossipsub forwards it. Peers are found by a DHT, a peer
  cache, rendezvous points and the local network; their addresses are kept in a peer book, put in
  order by a connection strategy and dialled within limits. A node with a public address serves as a
  relay under a weekly schedule, with limits and metered circuits; a node without one reserves
  circuits with relays, and moves to a direct connection when one is confirmed.

  \<^bold>\<open>Shared theories.\<close>
  \<^item> \<open>P2P_Prelude\<close>: saturating integers, bytes, ordered sets as increasing lists, folds, finite maps;
    the simplification collections.
  \<^item> \<open>Externals\<close>: the third-party functions (hashing, signatures, text codecs) as the record \<open>ext\<close>
    of parameters, with the laws the code relies on and an instance \<open>demo_ext\<close> for the witnesses.
  \<^item> \<open>Text_Search\<close>: the searches in strings the code decides by.
  \<^item> \<open>Replay_Contract\<close> (locales \<open>replay_window\<close>, \<open>replay_guard\<close>), \<open>Aged_Store\<close> (\<open>aged_store\<close>) and
    \<open>Bounded_Memory\<close> (\<open>bounded_memory\<close>): contracts several components implement, interpreted on them.

  \<^bold>\<open>Messages.\<close>
  \<^item> \<open>Pulse\<close> (\<open>crates/protocol/pulse.rs\<close>): heartbeat envelope, frame codec, verification, replay
    cache. Round trip of the wire format; an accepted heartbeat is authentic and not a replay.
  \<^item> \<open>App_Message\<close> (\<open>crates/api/mod.rs\<close>, \<open>crates/protocol/app_security.rs\<close>): application envelope,
    topics, validation, freshness and replay.
  \<^item> \<open>Fragmentation\<close> (\<open>crates/api/fragmentation.rs\<close>): splitting and the bounded reassembler. Round trip
    in every order of arrival; exact byte counters; ceilings; no panic.
  \<^item> \<open>Node_Messages\<close> (\<open>crates/node/events/app.rs\<close>, \<open>gossip.rs\<close>, \<open>events.rs\<close>, \<open>crates/api/metrics.rs\<close>):
    the handlers that compose the three. Each message gets one verdict; what is delivered is
    authentic, and delivered once.

  \<^bold>\<open>Gossipsub\<close> (\<open>external/libp2p-gossipsub/src\<close>).
  \<^item> \<open>Gossip_Types\<close> (\<open>types.rs\<close>), \<open>Gossip_Cache\<close> (\<open>time_cache.rs\<close>, \<open>mcache.rs\<close>, \<open>gossip_promises.rs\<close>),
    \<open>Gossip_Backoff\<close> (\<open>backoff.rs\<close>), \<open>Gossip_Queue\<close> (\<open>queue.rs\<close>): the data structures of the router.
    Duplicates are recognised exactly for the time to live, cached messages live for exactly their
    windows, back-offs are neither forgotten nor shortened, no wakeup of a sender queue is lost.
  \<^item> \<open>Gossip_Behaviour\<close> (\<open>config.rs\<close>, \<open>behaviour.rs\<close>): configuration, the state \<open>gs_Behaviour\<close>, sending,
    joining and leaving, publishing, forwarding and verdicts. \<open>Gossip_Control\<close> (\<open>behaviour.rs\<close>,
    \<open>subscription_filter.rs\<close>, \<open>handler.rs\<close>): IHAVE, IWANT, IDONTWANT, GRAFT, PRUNE, received messages and
    subscriptions, connections. \<open>Gossip_Heartbeat\<close>: the heartbeat.
  \<^item> \<open>Gossip_Router\<close>: the router as a sequence of operations \<open>gs_op\<close> run by \<open>gs_run\<close>, beside the
    connections the swarm keeps (\<open>swarm_run\<close>), and the invariant \<open>router_ok\<close>. \<open>Gossip_Forwarding\<close>: what
    control messages leave alone, and the locale \<open>memory_invariant\<close>, which lifts a property of
    messages over all operations. \<open>Gossip_Safety\<close>: its four interpretations and the properties. The
    router does not panic and its meshes hold connected subscribers; nothing is passed on before its
    verdict; a message is shown once; an unanswered request is never repeated. \<open>Gossip_Mesh\<close>: a
    heartbeat brings the size and the outbound peers of every mesh into their bounds.

  \<^bold>\<open>Peers and connections.\<close>
  \<^item> \<open>Reputation\<close> (\<open>crates/protocol/reputation.rs\<close>) and \<open>Peer_Book\<close> (\<open>crates/connectivity/peer_book.rs\<close>):
    bounded stores with exact indexes; connected peers are not evicted.
  \<^item> \<open>Multiaddr\<close> (\<open>addr.rs\<close>, \<open>relay/address.rs\<close>, \<open>webrtc.rs\<close> and users): address classes.
  \<^item> \<open>Connection_Limits\<close> (\<open>limits.rs\<close>) and \<open>Connection_Strategy\<close> (\<open>connection_strategy.rs\<close>): exact counting
    per IP; complete and ordered plans, exhaustive failover.
  \<^item> \<open>External_Addresses\<close>, \<open>Dial\<close>, \<open>Direct_Upgrade\<close> (\<open>crates/stack/external_addresses.rs\<close>,
    \<open>crates/node/dial.rs\<close>, \<open>crates/node/events\<close>): the announced addresses are the confirmed ones; plans
    are dialled in order; a migration keeps the peer connected.
  \<^item> \<open>Namespace\<close>, \<open>Discovery_Config\<close>, \<open>Dht_State\<close>, \<open>Peer_Cache\<close> (\<open>crates/connectivity\<close>): names and
    compatibility, rate and memory of automatic connections, persistence of the cache.

  \<^bold>\<open>Relay\<close> (\<open>external/libp2p-relay/src\<close>, \<open>crates/connectivity/relay\<close>, \<open>crates/node/events\<close>).
  \<^item> \<open>Relay_Service\<close>: schedule, limits, access lists, denial classes. \<open>Rate_Limiter\<close>: the token bucket.
  \<^item> \<open>Relay_Protocol\<close>: the four sides of the hop and stop protocols. \<open>Relay_Server\<close> and \<open>Relay_Handler\<close>:
    \<open>behaviour.rs\<close> and \<open>behaviour/handler.rs\<close>. \<open>Relay_Limits\<close> and \<open>Relay_System\<close>: the server with all its
    handlers as a step relation, its invariant by rule induction, and the race that makes it panic.
  \<^item> \<open>Relay_Metering\<close>: forwarding with the quota, totals. \<open>Relay_Node\<close>: the node's view of the server
    (locale \<open>event_counter\<close>). \<open>Relay_Client\<close>: reservations, retries and announced circuits.

  \<^bold>\<open>Conventions.\<close> An unsigned integer is a \<open>nat\<close> with saturating or wrapping operations where the code
  has them, a byte an \<open>8 word\<close>. \<open>HashMap\<close> and \<open>HashSet\<close> are \<open>fmap\<close> and \<open>fset\<close>; where the code iterates over
  one the model takes increasing order, one of the orders the code may take. A \<open>Result\<close> is a sum with
  the error on the left. A panic is \<open>None\<close>, or the flag \<open>gb_panicked\<close> in the router, so that its absence
  is a theorem. Clocks, random draws and answers of the swarm are arguments: \<open>gs_env\<close> gives the router
  its time and its shuffles, and \<open>fair\<close> says that a shuffle rearranges. The node enables neither peer
  scores, metrics nor partial messages of Gossipsub; the router is modelled without them.

  \<^bold>\<open>Bounds and fuel.\<close> No definition takes fuel. Loops are structural recursions over what they consume,
  or functions with a measure; the copying loop of a circuit consumes the turns its streams offer.
  The refill loop of the rate limiter, which puts back what it takes, is a \<open>partial_function\<close> over
  \<open>option\<close>, and that it returns is part of its theorem. The router panics when its 64-bit sequence
  number runs out, so its safety counts the operations (\<open>seq + length ops < 2 ^ 64\<close>).

  \<^bold>\<open>Not modelled.\<close> The swarm, transports and sockets, cryptography, protobuf and JSON codecs belong to
  third-party code and enter as parameters. The forks of DTLS, WebRTC and DNS are socket I/O. The
  assembly of the node, its async drivers, the bindings and applications only wire the parts
  together; TURN, ICE and the probe of the public address talk to services over HTTP. Log lines,
  metrics and display copies of the state are left out. Of Gossipsub, the codec, the streams of the
  connection handler, peer scoring and partial messages are left out; of the relay, debug output.
\<close>

end
